(* ===== verification/Prelude.thy ===== *)
theory Prelude
  imports Main "HOL-Library.Word" "HOL-Library.Signed_Division"
begin

text \<open>
  Shared ground of the development: the machine integer types of \<^verbatim>\<open>src/include/stdint.h\<close>,
  the result type of code that may stop the machine, the collections of rewrite rules the
  component theories use, and generic facts on words, lists and options.

  \<^item> \<open>u8\<close>, \<open>u16\<close>, \<open>u32\<close>, \<open>u64\<close> are the typedefs of \<^verbatim>\<open>stdint.h\<close>. An address is a \<open>u32\<close>: the kernel
    runs on flat segments without paging. Plain C \<^verbatim>\<open>int\<close> values are HOL \<open>int\<close>; where a computation may
    leave the 32-bit range, or where C converts between signed and unsigned, the conversion is
    written out (\<open>s32\<close>, \<open>to_u32\<close>, \<open>uint\<close>, \<open>sint\<close>). C division and remainder truncate
    (\<open>sdiv\<close>, \<open>smod\<close>).
  \<^item> \<open>'a outcome\<close> is the result of kernel code: \<open>Inr x\<close> when it returns \<open>x\<close>,
    \<open>Inl AssertFail\<close> when an \<^verbatim>\<open>assert\<close> fails (\<^verbatim>\<open>assertion_failure\<close> of \<^verbatim>\<open>src/lib/misc/assert.c\<close> spins
    forever), \<open>Inl PanicFail\<close> after \<^verbatim>\<open>panic\<close> (\<^verbatim>\<open>ud2\<close>), \<open>Inl Diverges\<close> when a loop never ends and
    \<open>Inl NullDeref\<close> when a null pointer is followed, \<open>Inl OutOfBounds\<close> when the code reads or writes
    outside of an array in a way the model does not follow further.
\<close>

unbundle bit_operations_syntax

section \<open>Machine types\<close>

type_synonym u8 = "8 word"
type_synonym u16 = "16 word"
type_synonym u32 = "32 word"
type_synonym u64 = "64 word"

text \<open>The collections the component proofs draw on.\<close>

named_theorems outcome_simps \<open>unfolding sequential code over outcomes\<close>
named_theorems const_simps \<open>the numeric values of the constants of the headers\<close>
named_theorems mem_simps \<open>reading memory after a write\<close>

section \<open>Outcomes\<close>

datatype fail = AssertFail | PanicFail | Diverges | NullDeref | OutOfBounds

type_synonym 'a outcome = "fail + 'a"

definition obind :: "'a outcome \<Rightarrow> ('a \<Rightarrow> 'b outcome) \<Rightarrow> 'b outcome" where
  "obind r f = (case r of Inl e \<Rightarrow> Inl e | Inr x \<Rightarrow> f x)"

definition c_assert :: "bool \<Rightarrow> 'a outcome \<Rightarrow> 'a outcome" where
  "c_assert b k = (if b then k else Inl AssertFail)"

definition of_loop :: "'a option \<Rightarrow> 'a outcome" where
  "of_loop r = (case r of None \<Rightarrow> Inl Diverges | Some x \<Rightarrow> Inr x)"

lemma obind_simps [simp, outcome_simps]:
  "obind (Inr x) f = f x"
  "obind (Inl e) f = Inl e"
  by (simp_all add: obind_def)

lemma obind_assoc: "obind (obind r f) g = obind r (\<lambda>x. obind (f x) g)"
  by (cases r) simp_all

lemma obind_right: "obind r Inr = r"
  by (cases r) simp_all

lemma obind_Inr_iff: "obind r f = Inr y \<longleftrightarrow> (\<exists>x. r = Inr x \<and> f x = Inr y)"
  by (cases r) simp_all

lemma obind_InrE [elim]:
  assumes "obind r f = Inr y"
  obtains x where "r = Inr x" and "f x = Inr y"
  using assms by (auto simp: obind_Inr_iff)

lemma c_assert_True [simp, outcome_simps]: "c_assert True k = k"
  by (simp add: c_assert_def)

lemma c_assert_False [simp, outcome_simps]: "c_assert False k = Inl AssertFail"
  by (simp add: c_assert_def)

lemma c_assert_Inr_iff: "c_assert b k = Inr y \<longleftrightarrow> b \<and> k = Inr y"
  by (simp add: c_assert_def)

lemma of_loop_simps [simp, outcome_simps]:
  "of_loop (Some x) = Inr x"
  "of_loop None = Inl Diverges"
  by (simp_all add: of_loop_def)

lemma of_loop_Inr_iff [simp]: "of_loop r = Inr x \<longleftrightarrow> r = Some x"
  by (cases r) simp_all

lemmas outcome_iffs = obind_Inr_iff c_assert_Inr_iff of_loop_Inr_iff

section \<open>C integer conversions\<close>

definition s32 :: "int \<Rightarrow> int" where
  "s32 x = sint (word_of_int x :: u32)"

definition to_u32 :: "int \<Rightarrow> int" where
  "to_u32 x = x mod 4294967296"

lemma s32_id: "- 2147483648 \<le> x \<Longrightarrow> x < 2147483648 \<Longrightarrow> s32 x = x"
  by (simp add: s32_def signed_of_int signed_take_bit_int_eq_self)

lemma s32_range: "- 2147483648 \<le> s32 x" "s32 x < 2147483648"
  using sint_greater_eq [of "word_of_int x :: u32"] sint_less [of "word_of_int x :: u32"]
  by (simp_all add: s32_def)

lemma to_u32_id: "0 \<le> x \<Longrightarrow> x < 4294967296 \<Longrightarrow> to_u32 x = x"
  by (simp add: to_u32_def)

lemma to_u32_range: "0 \<le> to_u32 x" "to_u32 x < 4294967296"
  by (simp_all add: to_u32_def)

section \<open>Generic lemmas\<close>

lemma sint_eq_iff [simp]: "sint a = sint b \<longleftrightarrow> a = (b :: 'a::len word)"
  by (metis signed_word_eqI)

lemma sint_zero_iff [simp]: "sint a = 0 \<longleftrightarrow> a = (0 :: 'a::len word)"
  using sint_eq_iff [of a 0] by simp

text \<open>Masking with low ones is truncation.\<close>

lemma and_low_ones:
  fixes x :: "'a::len word"
  shows "x AND 0xF = take_bit 4 x" and "x AND 0xFF = take_bit 8 x"
    and "x AND 0x1FF = take_bit 9 x" and "x AND 0xFFFF = take_bit 16 x"
  by (simp_all add: take_bit_eq_mask mask_eq_exp_minus_1)

lemma bit_in_range: "n < LENGTH('a) \<Longrightarrow> bit (x :: 'a::len word) n \<longleftrightarrow> odd (drop_bit n x)"
  by (simp add: bit_iff_odd_drop_bit)

text \<open>Offsets from a base address: the byte after the base has one offset less.\<close>

lemma unat_step_back:
  fixes a d :: u32
  assumes "a \<noteq> d"
  shows "unat (a - (d + 1)) = unat (a - d) - 1" and "0 < unat (a - d)"
proof -
  have nz: "a - d \<noteq> 0" using assms by simp
  have "a - (d + 1) = (a - d) - 1" by simp
  then show "unat (a - (d + 1)) = unat (a - d) - 1"
    using nz by (metis unat_minus_one)
  show "0 < unat (a - d)"
    using nz by (metis neq0_conv unat_0_iff)
qed

lemma unat_diff_zero_iff [simp]: "unat (a - d) = 0 \<longleftrightarrow> a = (d :: u32)"
  by (metis eq_iff_diff_eq_0 unat_0_iff)

lemma unat_of_nat_u32: "i < 4294967296 \<Longrightarrow> unat (of_nat i :: u32) = i"
  by (simp add: unsigned_of_nat take_bit_nat_eq_self)

lemma unat_u32_less: "unat (x :: u32) < 4294967296"
  using unsigned_less [of x, where ?'a = nat] by simp

lemma unat_u32_minus_one [simp]: "unat (- 1 :: u32) = 4294967295"
  by (simp add: unsigned_minus_1_eq_mask mask_eq_exp_minus_1)

lemma unat_u32_uminus: "x \<noteq> 0 \<Longrightarrow> unat (- x :: u32) = 4294967296 - unat x"
  using unat_sub_if' [of 0 x] by (simp add: unat_eq_0)

lemma of_nat_u32_inj:
  "i < 4294967296 \<Longrightarrow> j < 4294967296 \<Longrightarrow> (of_nat i :: u32) = of_nat j \<longleftrightarrow> i = j"
  by (metis unat_of_nat_u32)

text \<open>C division truncates; on non-negative operands it is the division of HOL.\<close>

lemma sdiv_nonneg: "0 \<le> x \<Longrightarrow> 0 < n \<Longrightarrow> x sdiv n = x div (n :: int)"
  by (cases "x = 0") (simp_all add: signed_divide_int_def)

lemma smod_nonneg: "0 \<le> x \<Longrightarrow> 0 < n \<Longrightarrow> x smod n = x mod (n :: int)"
  by (cases "x = 0") (simp_all add: signed_modulo_int_def sdiv_nonneg minus_mult_div_eq_mod mult.commute)

lemma unat_word_of_int_u32: "0 \<le> x \<Longrightarrow> x < 4294967296 \<Longrightarrow> unat (word_of_int x :: u32) = nat x"
  by (simp add: unsigned_of_int take_bit_int_eq_self)

lemma sint_u32_unat:
  assumes "unat (w :: u32) < 2147483648"
  shows "sint w = int (unat w)"
proof -
  have "uint w = int (unat w)" by (rule uint_nat)
  moreover have "int (unat w) < 2147483648" using assms by linarith
  ultimately have "uint w < 2147483648" by (rule ord_eq_less_trans)
  then have "s32 (uint w) = uint w" by (intro s32_id order_trans [OF _ unsigned_greater_eq]) simp_all
  then have "sint w = uint w" by (simp only: s32_def word_of_int_uint)
  then show ?thesis by (simp only: uint_nat)
qed

end
