(* ===== verification/Memory.thy ===== *)
theory Memory
  imports Prelude
begin

text \<open>
  Byte memory and the routines that move bytes: \<^verbatim>\<open>memcpy\<close> and \<^verbatim>\<open>memset\<close> of
  \<^verbatim>\<open>src/lib/misc/string_a.asm\<close> (also called \<^verbatim>\<open>phys_copy\<close> and \<^verbatim>\<open>phys_set\<close> in
  \<^verbatim>\<open>src/include/string.h\<close>), and little-endian 32-bit accesses.

  Memory is a function from 32-bit addresses to bytes, so every address exists and address
  arithmetic wraps as the processor's does. Both loops are translated byte by byte; the lemmas
  \<open>memcpy_eq\<close> and \<open>memset_eq\<close> give the block they write in closed form, which is what the
  clients use.
\<close>

unbundle bit_operations_syntax

type_synonym mem = "u32 \<Rightarrow> u8"

section \<open>Copying and filling\<close>

fun memcpy_loop :: "mem \<Rightarrow> u32 \<Rightarrow> u32 \<Rightarrow> nat \<Rightarrow> mem" where
  "memcpy_loop m edi esi 0 = m"
| "memcpy_loop m edi esi (Suc ecx) = memcpy_loop (m(edi := m esi)) (edi + 1) (esi + 1) ecx"

definition memcpy :: "mem \<Rightarrow> u32 \<Rightarrow> u32 \<Rightarrow> u32 \<Rightarrow> mem" where
  "memcpy m p_dst p_src size' = memcpy_loop m p_dst p_src (unat size')"

abbreviation phys_copy :: "mem \<Rightarrow> u32 \<Rightarrow> u32 \<Rightarrow> u32 \<Rightarrow> mem" where
  "phys_copy \<equiv> memcpy"

fun memset_loop :: "mem \<Rightarrow> u32 \<Rightarrow> u8 \<Rightarrow> nat \<Rightarrow> mem" where
  "memset_loop m edi dl 0 = m"
| "memset_loop m edi dl (Suc ecx) = memset_loop (m(edi := dl)) (edi + 1) dl ecx"

definition memset :: "mem \<Rightarrow> u32 \<Rightarrow> u8 \<Rightarrow> u32 \<Rightarrow> mem" where
  "memset m p_dst ch size' = memset_loop m p_dst ch (unat size')"

section \<open>Blocks of memory\<close>

definition read_bytes :: "mem \<Rightarrow> u32 \<Rightarrow> nat \<Rightarrow> u8 list" where
  "read_bytes m a n = map (\<lambda>i. m (a + of_nat i)) [0..<n]"

lemma length_read_bytes [simp]: "length (read_bytes m a n) = n"
  by (simp add: read_bytes_def)

lemma read_bytes_nth [simp]: "i < n \<Longrightarrow> read_bytes m a n ! i = m (a + of_nat i)"
  by (simp add: read_bytes_def)

lemma read_bytes_cong:
  "(\<And>i. i < n \<Longrightarrow> m (a + of_nat i) = m' (b + of_nat i)) \<Longrightarrow> read_bytes m a n = read_bytes m' b n"
  by (simp add: read_bytes_def)

text \<open>Two blocks are apart when no offset of one is an offset of the other.\<close>

definition apart :: "u32 \<Rightarrow> nat \<Rightarrow> u32 \<Rightarrow> nat \<Rightarrow> bool" where
  "apart a n b k \<longleftrightarrow> n \<le> unat (b - a) \<and> k \<le> unat (a - b)"

lemma apart_sym: "apart a n b k \<Longrightarrow> apart b k a n"
  by (simp add: apart_def)

lemma apart_offset:
  assumes "apart a n b k" and "i < k"
  shows "n \<le> unat (b + of_nat i - a)"
proof -
  have k: "k \<le> unat (a - b)" and n: "n \<le> unat (b - a)"
    using assms(1) by (simp_all add: apart_def)
  have lt: "unat (a - b) < 4294967296" by (rule unat_u32_less)
  have i: "unat (of_nat i :: u32) = i"
    using assms(2) k lt by (intro unat_of_nat_u32) linarith
  have ab: "unat (a - b) + unat (b - a) = (if a = b then 0 else 4294967296)"
    using unat_sub_if' [of a b] unat_sub_if' [of b a] unat_u32_less [of a] unat_u32_less [of b]
    by (auto split: if_splits)
  have "unat ((b - a) + of_nat i) = unat (b - a) + i"
  proof (cases "a = b")
    case True
    with k assms(2) show ?thesis by simp
  next
    case False
    with ab k assms(2) i show ?thesis
      by (subst unat_word_ariths) simp
  qed
  moreover have "(b - a) + of_nat i = b + of_nat i - a" by simp
  ultimately show ?thesis using n by (metis trans_le_add1)
qed

section \<open>What the loops write\<close>

text \<open>
  A forward copy is right unless the destination starts inside the source behind its first
  byte: then a source byte is overwritten before it is read.
\<close>

lemma memcpy_loop_eq:
  assumes "edi = esi \<or> n \<le> unat (edi - esi)" and "n < 4294967296"
  shows "memcpy_loop m edi esi n = (\<lambda>a. if unat (a - edi) < n then m (esi + (a - edi)) else m a)"
  using assms
proof (induction n arbitrary: m edi esi)
  case 0
  then show ?case by (simp add: fun_eq_iff)
next
  case (Suc n)
  let ?m1 = "m(edi := m esi)"
  have IH: "memcpy_loop ?m1 (edi + 1) (esi + 1) n =
      (\<lambda>a. if unat (a - (edi + 1)) < n then ?m1 (esi + 1 + (a - (edi + 1))) else ?m1 a)"
    using Suc.prems by (intro Suc.IH) auto
  show ?case
  proof
    fix a
    show "memcpy_loop m edi esi (Suc n) a =
      (if unat (a - edi) < Suc n then m (esi + (a - edi)) else m a)"
    proof (cases "a = edi")
      case True
      have "unat (edi - (edi + 1)) = 4294967295" by simp
      with True Suc.prems show ?thesis by (simp add: IH)
    next
      case False
      note st = unat_step_back [OF False]
      have "esi + 1 + (a - (edi + 1)) = esi + (a - edi)" by simp
      moreover have "?m1 (esi + (a - edi)) = m (esi + (a - edi))" if "unat (a - edi) < Suc n"
      proof (cases "esi + (a - edi) = edi")
        case True
        then have "a - edi = edi - esi" by (simp add: algebra_simps)
        with that Suc.prems(1) have "edi = esi" by auto
        then show ?thesis by simp
      qed simp
      ultimately show ?thesis
        using st False Suc.prems by (auto simp: IH)
    qed
  qed
qed

lemma memcpy_eq:
  "dst = src \<or> unat n \<le> unat (dst - src) \<Longrightarrow>
   memcpy m dst src n = (\<lambda>a. if unat (a - dst) < unat n then m (src + (a - dst)) else m a)"
  using memcpy_loop_eq [of dst src "unat n" m] unat_u32_less [of n] by (simp add: memcpy_def)

lemma memset_loop_eq:
  "n < 4294967296 \<Longrightarrow>
   memset_loop m edi c n = (\<lambda>a. if unat (a - edi) < n then c else m a)"
proof (induction n arbitrary: m edi)
  case 0
  then show ?case by (simp add: fun_eq_iff)
next
  case (Suc n)
  then have IH: "memset_loop (m(edi := c)) (edi + 1) c n =
      (\<lambda>a. if unat (a - (edi + 1)) < n then c else (m(edi := c)) a)" by simp
  show ?case
  proof
    fix a
    show "memset_loop m edi c (Suc n) a = (if unat (a - edi) < Suc n then c else m a)"
      using unat_step_back [of a edi] Suc.prems by (cases "a = edi") (auto simp: IH)
  qed
qed

lemma memset_eq:
  "memset m dst c n = (\<lambda>a. if unat (a - dst) < unat n then c else m a)"
  using memset_loop_eq [of "unat n" m dst c] unat_u32_less [of n] by (simp add: memset_def)

lemma memcpy_read:
  assumes "dst = src \<or> unat n \<le> unat (dst - src)"
  shows "read_bytes (memcpy m dst src n) dst (unat n) = read_bytes m src (unat n)"
proof (rule read_bytes_cong)
  fix i assume i: "i < unat n"
  have "unat n < 4294967296" by (rule unat_u32_less)
  with i have "unat (of_nat i :: u32) = i" by (intro unat_of_nat_u32) linarith
  with i show "memcpy m dst src n (dst + of_nat i) = m (src + of_nat i)"
    by (simp add: memcpy_eq [OF assms])
qed

lemma memcpy_frame:
  assumes "dst = src \<or> unat n \<le> unat (dst - src)" and "apart dst (unat n) b k"
  shows "read_bytes (memcpy m dst src n) b k = read_bytes m b k"
proof (rule read_bytes_cong)
  fix i assume "i < k"
  then show "memcpy m dst src n (b + of_nat i) = m (b + of_nat i)"
    using apart_offset [OF assms(2), of i] by (simp add: memcpy_eq [OF assms(1)])
qed

section \<open>Little-endian accesses\<close>

definition rd32 :: "mem \<Rightarrow> u32 \<Rightarrow> u32" where
  "rd32 m a = ucast (m a) OR push_bit 8 (ucast (m (a + 1)))
     OR push_bit 16 (ucast (m (a + 2))) OR push_bit 24 (ucast (m (a + 3)))"

definition wr32 :: "mem \<Rightarrow> u32 \<Rightarrow> u32 \<Rightarrow> mem" where
  "wr32 m a v = m(a := ucast v, a + 1 := ucast (drop_bit 8 v),
     a + 2 := ucast (drop_bit 16 v), a + 3 := ucast (drop_bit 24 v))"

lemma wr32_bytes [simp]:
  "wr32 m a v a = ucast v"
  "wr32 m a v (a + 1) = ucast (drop_bit 8 v)"
  "wr32 m a v (a + 2) = ucast (drop_bit 16 v)"
  "wr32 m a v (a + 3) = ucast (drop_bit 24 v)"
  by (simp_all add: wr32_def)

lemma wr32_other: "4 \<le> unat (b - a) \<Longrightarrow> wr32 m a v b = m b"
  by (auto simp: wr32_def)

lemma rd32_wr32 [simp, mem_simps]: "rd32 (wr32 m a v) a = v"
  unfolding rd32_def wr32_bytes
proof (rule bit_word_eqI)
  fix n assume "n < LENGTH(32)"
  then consider "n < 8" | "8 \<le> n" "n < 16" | "16 \<le> n" "n < 24" | "24 \<le> n" "n < 32"
    by fastforce
  then show "bit (ucast (ucast v :: u8) OR push_bit 8 (ucast (ucast (drop_bit 8 v) :: u8)) OR
      push_bit 16 (ucast (ucast (drop_bit 16 v) :: u8)) OR
      push_bit 24 (ucast (ucast (drop_bit 24 v) :: u8)) :: u32) n = bit v n"
    by cases (auto simp: bit_simps)
qed

lemma rd32_cong:
  assumes "\<And>i. i < 4 \<Longrightarrow> m (a + of_nat i) = m' (b + of_nat i)"
  shows "rd32 m a = rd32 m' b"
  using assms [of 0] assms [of 1] assms [of 2] assms [of 3] by (simp add: rd32_def)

lemma rd32_read_bytes:
  "read_bytes m a n = read_bytes m' b n \<Longrightarrow> k + 4 \<le> n \<Longrightarrow>
   rd32 m (a + of_nat k) = rd32 m' (b + of_nat k)"
proof (rule rd32_cong)
  fix i assume eq: "read_bytes m a n = read_bytes m' b n" and "k + 4 \<le> n" "i < (4::nat)"
  then have "k + i < n" by simp
  then have "read_bytes m a n ! (k + i) = read_bytes m' b n ! (k + i)" using eq by simp
  with \<open>k + i < n\<close> show "m (a + of_nat k + of_nat i) = m' (b + of_nat k + of_nat i)"
    by (simp add: add.assoc)
qed

end
