(* ===== verification/Strings.thy ===== *)
theory Strings
  imports Memory
begin

text \<open>
  The string library: \<^verbatim>\<open>strlen\<close> and \<^verbatim>\<open>strcpy\<close> of \<^verbatim>\<open>src/lib/misc/string_a.asm\<close>, and
  \<^verbatim>\<open>memcmp\<close>, \<^verbatim>\<open>strcmp\<close> and \<^verbatim>\<open>strcat\<close> of \<^verbatim>\<open>src/lib/misc/string.c\<close>.

  A loop that only a terminating zero byte stops is a \<^theory_text>\<open>partial_function\<close> into \<open>option\<close>: \<open>None\<close>
  means that it never returns. \<open>is_cstr m a bs\<close> says that the non-zero bytes \<open>bs\<close> and a zero stand
  at address \<open>a\<close>; on such strings each loop is proved to return. Plain \<^verbatim>\<open>char\<close> is signed, so a
  difference of characters is a difference of \<open>sint\<close> values.
\<close>

unbundle bit_operations_syntax

section \<open>The code\<close>

partial_function (option) strlen_loop :: "mem \<Rightarrow> u32 \<Rightarrow> u32 \<Rightarrow> u32 option" where
  "strlen_loop m esi eax =
     (if m esi = 0 then Some eax else strlen_loop m (esi + 1) (eax + 1))"

definition strlen :: "mem \<Rightarrow> u32 \<Rightarrow> u32 option" where
  "strlen m p_str = strlen_loop m p_str 0"

partial_function (option) strcpy :: "mem \<Rightarrow> u32 \<Rightarrow> u32 \<Rightarrow> mem option" where
  "strcpy m edi esi =
     (let al = m esi; m' = m(edi := al)
      in if al \<noteq> 0 then strcpy m' (edi + 1) (esi + 1) else Some m')"

fun memcmp_loop :: "mem \<Rightarrow> u32 \<Rightarrow> u32 \<Rightarrow> nat \<Rightarrow> int" where
  "memcmp_loop m p1 p2 0 = 0"
| "memcmp_loop m p1 p2 (Suc n) =
     (if m p1 \<noteq> m p2 then sint (m p1) - sint (m p2)
      else memcmp_loop m (p1 + 1) (p2 + 1) n)"

definition memcmp :: "mem \<Rightarrow> u32 \<Rightarrow> u32 \<Rightarrow> int \<Rightarrow> int" where
  "memcmp m s1 s2 n =
     (if s1 = 0 \<or> s2 = 0 then sint (s1 - s2) else memcmp_loop m s1 s2 (nat n))"

partial_function (option) strcmp_loop :: "mem \<Rightarrow> u32 \<Rightarrow> u32 \<Rightarrow> int option" where
  "strcmp_loop m p1 p2 =
     (if m p1 \<noteq> 0 \<and> m p2 \<noteq> 0 \<and> m p1 = m p2 then strcmp_loop m (p1 + 1) (p2 + 1)
      else Some (sint (m p1) - sint (m p2)))"

definition strcmp :: "mem \<Rightarrow> u32 \<Rightarrow> u32 \<Rightarrow> int option" where
  "strcmp m s1 s2 =
     (if s1 = 0 \<or> s2 = 0 then Some (sint (s1 - s2)) else strcmp_loop m s1 s2)"

partial_function (option) strcat_end :: "mem \<Rightarrow> u32 \<Rightarrow> u32 option" where
  "strcat_end m p1 = (if m p1 = 0 then Some p1 else strcat_end m (p1 + 1))"

partial_function (option) strcat_copy :: "mem \<Rightarrow> u32 \<Rightarrow> u32 \<Rightarrow> mem option" where
  "strcat_copy m p1 p2 =
     (if m p2 \<noteq> 0 then strcat_copy (m(p1 := m p2)) (p1 + 1) (p2 + 1) else Some (m(p1 := 0)))"

definition strcat :: "mem \<Rightarrow> u32 \<Rightarrow> u32 \<Rightarrow> (u32 \<times> mem) option" where
  "strcat m s1 s2 =
     (if s1 = 0 \<or> s2 = 0 then Some (0, m)
      else case strcat_end m s1 of None \<Rightarrow> None
        | Some p1 \<Rightarrow> map_option (\<lambda>m'. (s1, m')) (strcat_copy m p1 s2))"

section \<open>Zero-terminated strings\<close>

fun is_cstr :: "mem \<Rightarrow> u32 \<Rightarrow> u8 list \<Rightarrow> bool" where
  "is_cstr m a [] \<longleftrightarrow> m a = 0"
| "is_cstr m a (b # bs) \<longleftrightarrow> b \<noteq> 0 \<and> m a = b \<and> is_cstr m (a + 1) bs"

lemma is_cstr_nth: "is_cstr m a bs \<Longrightarrow> i < length bs \<Longrightarrow> m (a + of_nat i) = bs ! i \<and> bs ! i \<noteq> 0"
  by (induction m a bs arbitrary: i rule: is_cstr.induct)
    (auto simp: nth_Cons' add.assoc split: if_splits dest: gr0_implies_Suc)

lemma is_cstr_end: "is_cstr m a bs \<Longrightarrow> m (a + of_nat (length bs)) = 0"
  by (induction m a bs rule: is_cstr.induct) (auto simp: add.assoc)

lemma is_cstr_cong:
  "is_cstr m a bs \<Longrightarrow> (\<And>i. i \<le> length bs \<Longrightarrow> m' (b + of_nat i) = m (a + of_nat i)) \<Longrightarrow> is_cstr m' b bs"
proof (induction bs arbitrary: a b)
  case Nil
  from Nil.prems(2) [of 0] Nil.prems(1) show ?case by simp
next
  case (Cons x bs)
  have "is_cstr m' (b + 1) bs"
  proof (rule Cons.IH)
    show "is_cstr m (a + 1) bs" using Cons.prems(1) by simp
    fix i assume "i \<le> length bs"
    then show "m' (b + 1 + of_nat i) = m (a + 1 + of_nat i)"
      using Cons.prems(2) [of "Suc i"] by (simp add: add.assoc)
  qed
  with Cons.prems(2) [of 0] Cons.prems(1) show ?case by simp
qed

text \<open>A string determines its bytes: two readings of the same address agree.\<close>

lemma is_cstr_unique: "is_cstr m a bs \<Longrightarrow> is_cstr m a cs \<Longrightarrow> bs = cs"
proof (induction bs arbitrary: a cs)
  case Nil
  then show ?case by (cases cs) auto
next
  case (Cons b bs)
  then show ?case by (cases cs) auto
qed

lemma is_cstr_upd: "is_cstr m a bs \<Longrightarrow> length bs < unat (d - a) \<Longrightarrow> is_cstr (m(d := v)) a bs"
proof (erule is_cstr_cong)
  fix i assume far: "length bs < unat (d - a)" and i: "i \<le> length bs"
  have "unat (d - a) < 4294967296" by (rule unat_u32_less)
  with far i have "unat (of_nat i :: u32) = i" by (intro unat_of_nat_u32) linarith
  with far i have "a + of_nat i \<noteq> d" by auto
  then show "(m(d := v)) (a + of_nat i) = m (a + of_nat i)" by simp
qed

section \<open>Correctness of the loops\<close>

lemma strlen_loop_cstr:
  "is_cstr m a bs \<Longrightarrow> strlen_loop m a n = Some (n + of_nat (length bs))"
  by (induction bs arbitrary: a n) (simp_all add: strlen_loop.simps [of m] add.assoc)

lemma strlen_cstr: "is_cstr m a bs \<Longrightarrow> strlen m a = Some (of_nat (length bs))"
  by (simp add: strlen_def strlen_loop_cstr)

text \<open>Both copying loops write the string and its zero, and nothing else.\<close>

definition put_cstr :: "mem \<Rightarrow> u32 \<Rightarrow> u32 \<Rightarrow> nat \<Rightarrow> mem" where
  "put_cstr m d s n = (\<lambda>a. if unat (a - d) \<le> n then m (s + (a - d)) else m a)"

lemma put_cstr_step:
  assumes "Suc n < unat (d - s)"
  shows "put_cstr (m(d := m s)) (d + 1) (s + 1) n = put_cstr m d s (Suc n)"
proof
  fix a
  have n: "n < 4294967294" using assms unat_u32_less [of "d - s"] by linarith
  have ne: "s + (a - d) \<noteq> d" if "unat (a - d) \<le> Suc n"
  proof
    assume "s + (a - d) = d"
    then have "a - d = d - s" by (simp add: algebra_simps)
    with that assms show False by simp
  qed
  show "put_cstr (m(d := m s)) (d + 1) (s + 1) n a = put_cstr m d s (Suc n) a"
  proof (cases "a = d")
    case True
    with n show ?thesis by (simp add: put_cstr_def)
  next
    case False
    have "s + 1 + (a - (d + 1)) = s + (a - d)" by simp
    with False unat_step_back [OF False] ne show ?thesis by (auto simp: put_cstr_def)
  qed
qed

lemma strcpy_cstr:
  "is_cstr m s bs \<Longrightarrow> length bs < unat (d - s) \<Longrightarrow> strcpy m d s = Some (put_cstr m d s (length bs))"
proof (induction bs arbitrary: m s d)
  case Nil
  then show ?case
    by (subst strcpy.simps) (auto simp: put_cstr_def fun_eq_iff Let_def)
next
  case (Cons b bs)
  let ?m = "m(d := m s)"
  have far: "length bs < unat (d - (s + 1))"
    using Cons.prems(2) unat_step_back [of d s] by (cases "d = s") auto
  have str: "is_cstr ?m (s + 1) bs"
    using Cons.prems(1) far by (auto intro: is_cstr_upd)
  have "length bs < unat ((d + 1) - (s + 1))"
    using Cons.prems(2) by simp
  with str have "strcpy ?m (d + 1) (s + 1) = Some (put_cstr ?m (d + 1) (s + 1) (length bs))"
    by (rule Cons.IH)
  then show ?case
    using Cons.prems put_cstr_step [of "length bs" d s m]
    by (subst strcpy.simps) (simp add: Let_def)
qed

lemma put_cstr_is_cstr:
  assumes "is_cstr m s bs" and "length bs < unat (d - s)"
  shows "is_cstr (put_cstr m d s (length bs)) d bs"
proof (rule is_cstr_cong [OF assms(1)])
  fix i assume i: "i \<le> length bs"
  with assms(2) unat_u32_less [of "d - s"] have "unat (of_nat i :: u32) = i"
    by (intro unat_of_nat_u32) linarith
  with i show "put_cstr m d s (length bs) (d + of_nat i) = m (s + of_nat i)"
    by (simp add: put_cstr_def)
qed

lemma strcat_copy_cstr:
  "is_cstr m s bs \<Longrightarrow> length bs < unat (d - s) \<Longrightarrow> strcat_copy m d s = Some (put_cstr m d s (length bs))"
proof (induction bs arbitrary: m s d)
  case Nil
  then show ?case
    by (subst strcat_copy.simps) (auto simp: put_cstr_def fun_eq_iff)
next
  case (Cons b bs)
  let ?m = "m(d := m s)"
  have far: "length bs < unat (d - (s + 1))"
    using Cons.prems(2) unat_step_back [of d s] by (cases "d = s") auto
  have str: "is_cstr ?m (s + 1) bs"
    using Cons.prems(1) far by (auto intro: is_cstr_upd)
  have "length bs < unat ((d + 1) - (s + 1))"
    using Cons.prems(2) by simp
  with str have "strcat_copy ?m (d + 1) (s + 1) = Some (put_cstr ?m (d + 1) (s + 1) (length bs))"
    by (rule Cons.IH)
  then show ?case
    using Cons.prems put_cstr_step [of "length bs" d s m]
    by (subst strcat_copy.simps) simp
qed

lemma strcat_end_cstr: "is_cstr m a bs \<Longrightarrow> strcat_end m a = Some (a + of_nat (length bs))"
  by (induction bs arbitrary: a) (simp_all add: strcat_end.simps [of m] add.assoc)

lemma strcmp_loop_cstr:
  "is_cstr m p bs \<Longrightarrow> is_cstr m q cs \<Longrightarrow>
   \<exists>r. strcmp_loop m p q = Some r \<and> (r = 0 \<longleftrightarrow> bs = cs)"
proof (induction bs arbitrary: p q cs)
  case Nil
  then show ?case by (cases cs) (auto simp: strcmp_loop.simps [of m p q])
next
  case (Cons b bs)
  show ?case
  proof (cases cs)
    case Nil
    with Cons.prems show ?thesis by (auto simp: strcmp_loop.simps [of m p q])
  next
    case (Cons c cs')
    show ?thesis
    proof (cases "b = c")
      case True
      with Cons.prems Cons Cons.IH [of "p + 1" "q + 1" cs'] show ?thesis
        by (auto simp: strcmp_loop.simps [of m p q])
    next
      case False
      with Cons.prems Cons show ?thesis
        by (auto simp: strcmp_loop.simps [of m p q])
    qed
  qed
qed

lemma memcmp_loop_zero:
  "memcmp_loop m p q n = 0 \<longleftrightarrow> read_bytes m p n = read_bytes m q n"
proof (induction n arbitrary: p q)
  case 0
  then show ?case by (simp add: read_bytes_def)
next
  case (Suc n)
  have split: "read_bytes m a (Suc n) = m a # read_bytes m (a + 1) n" for a
    by (rule nth_equalityI) (auto simp: nth_Cons' add.assoc dest: gr0_implies_Suc)
  show ?case by (auto simp: split Suc.IH)
qed

lemma is_cstr_append:
  "is_cstr m a (bs @ cs) \<longleftrightarrow>
   (\<forall>i < length bs. m (a + of_nat i) = bs ! i \<and> bs ! i \<noteq> 0) \<and> is_cstr m (a + of_nat (length bs)) cs"
proof (induction bs arbitrary: a)
  case Nil
  then show ?case by simp
next
  case (Cons b bs)
  have "(\<forall>i < Suc (length bs). P i) \<longleftrightarrow> P 0 \<and> (\<forall>i < length bs. P (Suc i))" for P :: "nat \<Rightarrow> bool"
    by (auto simp: less_Suc_eq_0_disj)
  then show ?case by (auto simp: Cons.IH add.assoc)
qed

section \<open>Properties\<close>

text \<open>\<^verbatim>\<open>strcat\<close> of two strings returns the first pointer, and that pointer now holds the
  concatenation; no byte outside the appended characters and their zero changes. The destination
  must not start inside the source string.\<close>

theorem strcat_concat:
  assumes "s1 \<noteq> 0" and "s2 \<noteq> 0" and "is_cstr m s1 bs" and "is_cstr m s2 cs"
    and far: "length cs < unat (s1 + of_nat (length bs) - s2)"
    and room: "length bs + length cs < 4294967295"
  shows "\<exists>m'. strcat m s1 s2 = Some (s1, m') \<and> is_cstr m' s1 (bs @ cs) \<and>
    (\<forall>a. length cs < unat (a - (s1 + of_nat (length bs))) \<longrightarrow> m' a = m a)"
proof -
  define d where "d = s1 + of_nat (length bs)"
  define m' where "m' = put_cstr m d s2 (length cs)"
  have run: "strcat m s1 s2 = Some (s1, m')"
    using assms by (simp add: strcat_def strcat_end_cstr strcat_copy_cstr m'_def d_def)
  have keep: "m' (s1 + of_nat i) = m (s1 + of_nat i)" if "i < length bs" for i
  proof -
    have un: "unat (of_nat (length bs - i) :: u32) = length bs - i"
      using that room by (intro unat_of_nat_u32) linarith
    then have "(of_nat (length bs - i) :: u32) \<noteq> 0" using that by (metis unat_0 zero_less_diff neq0_conv)
    note this un
    moreover have "s1 + of_nat i - d = - of_nat (length bs - i)"
      using that by (simp add: d_def of_nat_diff)
    ultimately have "unat (s1 + of_nat i - d) = 4294967296 - (length bs - i)"
      by (simp add: unat_u32_uminus del: of_nat_diff)
    then have "\<not> unat (s1 + of_nat i - d) \<le> length cs" using room by linarith
    then show ?thesis by (simp add: m'_def put_cstr_def)
  qed
  have "is_cstr m' d cs"
    unfolding m'_def using assms(4) far by (intro put_cstr_is_cstr) (simp_all add: d_def)
  then have "is_cstr m' s1 (bs @ cs)"
    using is_cstr_nth [OF assms(3)] keep by (auto simp: is_cstr_append d_def)
  then show ?thesis using run by (auto simp: m'_def put_cstr_def d_def)
qed

theorem strcat_concat_witness:
  "\<exists>m'. strcat ((\<lambda>_. 0)(8 := 97, 100 := 98)) 8 100 = Some (8, m') \<and> is_cstr m' 8 ([97] @ [98])"
  using strcat_concat [of 8 100 "(\<lambda>_. 0)(8 := 97, 100 := 98)" "[97]" "[98]"] by auto

text \<open>\<^verbatim>\<open>strcmp\<close> of two strings returns, and returns zero exactly on equal strings.\<close>

theorem strcmp_equal:
  assumes "s1 \<noteq> 0" and "s2 \<noteq> 0" and "is_cstr m s1 bs" and "is_cstr m s2 cs"
  shows "\<exists>r. strcmp m s1 s2 = Some r \<and> (r = 0 \<longleftrightarrow> bs = cs)"
  using assms strcmp_loop_cstr by (simp add: strcmp_def)

theorem strcmp_equal_witness:
  "\<exists>r. strcmp ((\<lambda>_. 0)(8 := 97, 100 := 98)) 8 100 = Some r \<and> (r = 0 \<longleftrightarrow> [97 :: u8] = [98])"
  by (rule strcmp_equal) simp_all

text \<open>\<^verbatim>\<open>memcmp\<close> decides equality of the two blocks.\<close>

lemma memcmp_zero:
  "s1 \<noteq> 0 \<Longrightarrow> s2 \<noteq> 0 \<Longrightarrow> memcmp m s1 s2 n = 0 \<longleftrightarrow> read_bytes m s1 (nat n) = read_bytes m s2 (nat n)"
  by (simp add: memcmp_def memcmp_loop_zero)

end
