(* ===== verification/Desc.thy ===== *)
theory Desc
  imports Memory
begin

text \<open>
  Segment and gate descriptors: the structures of \<^verbatim>\<open>src/include/sys/descriptor.h\<close> and the functions of
  \<^verbatim>\<open>src/kernel/descriptor.c\<close> that fill and read them. A descriptor scatters a 32-bit base and a 20-bit
  limit over several fields; the round-trip lemmas say that what is put in is what the address
  computation of the kernel and of the processor reads back. The interrupt descriptor table is filled
  as the code fills it, with the link addresses of the assembly entry points as a parameter.
\<close>

unbundle bit_operations_syntax

section \<open>Structures and constants\<close>

record gdt_desc =
  limit_low :: u16
  base_low :: u16
  base_mid :: u8
  attr1 :: u8
  limit_high_attr2 :: u8
  base_high :: u8

record gate_desc =
  offset_low :: u16
  selector :: u16
  dcount :: u8
  attr :: u8
  offset_high :: u16

definition zero_gdt_desc :: gdt_desc where
  "zero_gdt_desc = \<lparr>limit_low = 0, base_low = 0, base_mid = 0, attr1 = 0, limit_high_attr2 = 0, base_high = 0\<rparr>"

definition zero_gate_desc :: gate_desc where
  "zero_gate_desc = \<lparr>offset_low = 0, selector = 0, dcount = 0, attr = 0, offset_high = 0\<rparr>"

abbreviation (input) DA_32 where "DA_32 \<equiv> 0x4000"
abbreviation (input) DA_LIMIT_4K where "DA_LIMIT_4K \<equiv> 0x8000"
abbreviation (input) DA_DRW where "DA_DRW \<equiv> 0x92"
abbreviation (input) DA_C where "DA_C \<equiv> 0x98"
abbreviation (input) DA_LDT where "DA_LDT \<equiv> 0x82"
abbreviation (input) DA_386TSS where "DA_386TSS \<equiv> 0x89"
abbreviation (input) DA_386IGate where "DA_386IGate \<equiv> 0x8E"
abbreviation (input) SELECTOR_KERNEL_CS where "SELECTOR_KERNEL_CS \<equiv> 0x08"
abbreviation (input) SELECTOR_KERNEL_DS where "SELECTOR_KERNEL_DS \<equiv> 0x10"
abbreviation (input) SELECTOR_LDT_FIRST where "SELECTOR_LDT_FIRST \<equiv> 0x28"
abbreviation (input) INDEX_TSS where "INDEX_TSS \<equiv> 4 :: nat"
abbreviation (input) INDEX_LDT_FIRST where "INDEX_LDT_FIRST \<equiv> 5 :: nat"
abbreviation (input) GDT_SIZE where "GDT_SIZE \<equiv> 128 :: nat"
abbreviation (input) IDT_SIZE where "IDT_SIZE \<equiv> 256 :: nat"
abbreviation (input) PRIVILEGE_KRNL where "PRIVILEGE_KRNL \<equiv> 0"
abbreviation (input) PRIVILEGE_TASK where "PRIVILEGE_TASK \<equiv> 1"
abbreviation (input) PRIVILEGE_USER where "PRIVILEGE_USER \<equiv> 3"

section \<open>The code\<close>

definition make_gdt_desc :: "u32 \<Rightarrow> u32 \<Rightarrow> u16 \<Rightarrow> gdt_desc" where
  "make_gdt_desc base limit attribute =
     \<lparr>limit_low = ucast (limit AND 0x0FFFF),
      base_low = ucast (base AND 0x0FFFF),
      base_mid = ucast (drop_bit 16 base AND 0x0FF),
      attr1 = ucast (attribute AND 0xFF),
      limit_high_attr2 = ucast (drop_bit 16 limit AND 0x0F) OR ucast (drop_bit 8 attribute AND 0xF0),
      base_high = ucast (drop_bit 24 base AND 0x0FF)\<rparr>"

definition make_idt_desc :: "gate_desc list \<Rightarrow> u8 \<Rightarrow> u8 \<Rightarrow> u32 \<Rightarrow> u8 \<Rightarrow> gate_desc list" where
  "make_idt_desc idt vector desc_type handler privilege =
     (let base = handler
      in idt[unat vector :=
         \<lparr>offset_low = ucast (base AND 0xFFFF),
          selector = SELECTOR_KERNEL_CS,
          dcount = 0,
          attr = desc_type OR push_bit 5 privilege,
          offset_high = ucast (drop_bit 16 base AND 0xFFFF)\<rparr>])"

definition gdt_ldt_to_base_addr :: "gdt_desc \<Rightarrow> u32" where
  "gdt_ldt_to_base_addr d =
     push_bit 24 (ucast (base_high d)) OR push_bit 16 (ucast (base_mid d)) OR ucast (base_low d)"

definition gdt_seg_to_base_addr :: "gdt_desc list \<Rightarrow> u16 \<Rightarrow> u32" where
  "gdt_seg_to_base_addr gdt segment_selector =
     gdt_ldt_to_base_addr (gdt ! unat (drop_bit 3 segment_selector))"

definition get_linear_addr :: "gdt_desc list \<Rightarrow> u16 \<Rightarrow> u32 \<Rightarrow> u32" where
  "get_linear_addr gdt segment_selector offset = gdt_seg_to_base_addr gdt segment_selector + offset"

text \<open>The macro \<^verbatim>\<open>reassembly\<close> as used to read a limit back (\<^verbatim>\<open>src/task/pm/fork.c\<close>).\<close>

definition reassembly :: "u32 \<Rightarrow> nat \<Rightarrow> u32 \<Rightarrow> nat \<Rightarrow> u32 \<Rightarrow> u32" where
  "reassembly high high_shift mid mid_shift low =
     push_bit high_shift high + push_bit mid_shift mid + low"

text \<open>
  The vectors \<^verbatim>\<open>init_idt_desc\<close> fills: vector, name of the entry point, privilege. All are interrupt
  gates.
\<close>

definition idt_vectors :: "(u8 \<times> string \<times> u8) list" where
  "idt_vectors =
    [(0x0, ''divide_error'', PRIVILEGE_KRNL),
     (0x1, ''single_step_exception'', PRIVILEGE_KRNL),
     (0x2, ''nmi'', PRIVILEGE_KRNL),
     (0x3, ''breakpoint_exception'', PRIVILEGE_USER),
     (0x4, ''overflow'', PRIVILEGE_USER),
     (0x5, ''bounds_check'', PRIVILEGE_KRNL),
     (0x6, ''inval_opcode'', PRIVILEGE_KRNL),
     (0x7, ''copr_not_available'', PRIVILEGE_KRNL),
     (0x8, ''double_fault'', PRIVILEGE_KRNL),
     (0x9, ''copr_seg_overrun'', PRIVILEGE_KRNL),
     (0xA, ''inval_tss'', PRIVILEGE_KRNL),
     (0xB, ''segment_not_present'', PRIVILEGE_KRNL),
     (0xC, ''stack_exception'', PRIVILEGE_KRNL),
     (0xD, ''general_protection'', PRIVILEGE_KRNL),
     (0xE, ''page_fault'', PRIVILEGE_KRNL),
     (0x10, ''copr_error'', PRIVILEGE_KRNL),
     (0x20, ''hwint00'', PRIVILEGE_KRNL), (0x21, ''hwint01'', PRIVILEGE_KRNL),
     (0x22, ''hwint02'', PRIVILEGE_KRNL), (0x23, ''hwint03'', PRIVILEGE_KRNL),
     (0x24, ''hwint04'', PRIVILEGE_KRNL), (0x25, ''hwint05'', PRIVILEGE_KRNL),
     (0x26, ''hwint06'', PRIVILEGE_KRNL), (0x27, ''hwint07'', PRIVILEGE_KRNL),
     (0x28, ''hwint08'', PRIVILEGE_KRNL), (0x29, ''hwint09'', PRIVILEGE_KRNL),
     (0x2A, ''hwint10'', PRIVILEGE_KRNL), (0x2B, ''hwint11'', PRIVILEGE_KRNL),
     (0x2C, ''hwint12'', PRIVILEGE_KRNL), (0x2D, ''hwint13'', PRIVILEGE_KRNL),
     (0x2E, ''hwint14'', PRIVILEGE_KRNL), (0x2F, ''hwint15'', PRIVILEGE_KRNL),
     (0x80, ''sys_call'', PRIVILEGE_USER)]"

definition init_idt_desc :: "(string \<Rightarrow> u32) \<Rightarrow> gate_desc list \<Rightarrow> gate_desc list" where
  "init_idt_desc entry idt =
     fold (\<lambda>(vector, handler, privilege) t. make_idt_desc t vector DA_386IGate (entry handler) privilege)
       idt_vectors idt"

record tss =
  ss0 :: u32
  iobase :: u16

definition sizeof_tss :: nat where "sizeof_tss = 104"

text \<open>The fields of the task state segment the kernel sets; all others are cleared.\<close>

definition init_tss_desc :: "u32 \<Rightarrow> gdt_desc list \<Rightarrow> tss \<times> gdt_desc list" where
  "init_tss_desc tss_addr gdt =
     (\<lparr>ss0 = SELECTOR_KERNEL_DS, iobase = of_nat sizeof_tss\<rparr>,
      gdt[INDEX_TSS := make_gdt_desc (get_linear_addr gdt SELECTOR_KERNEL_DS tss_addr)
            (of_nat (sizeof_tss - 1)) DA_386TSS])"

section \<open>Reading back what was put in\<close>

lemma base_roundtrip: "gdt_ldt_to_base_addr (make_gdt_desc base limit attribute) = base"
proof (rule bit_word_eqI)
  fix n assume "n < LENGTH(32)"
  then consider "n < 16" | "16 \<le> n" "n < 24" | "24 \<le> n" "n < 32" by fastforce
  then show "bit (gdt_ldt_to_base_addr (make_gdt_desc base limit attribute)) n = bit base n"
    by cases (auto simp: gdt_ldt_to_base_addr_def make_gdt_desc_def and_low_ones bit_simps)
qed

definition desc_limit :: "gdt_desc \<Rightarrow> u32" where
  "desc_limit d = reassembly 0 0 (ucast (limit_high_attr2 d AND 0xF)) 16 (ucast (limit_low d))"

lemma nibble_index: "n < 4 \<Longrightarrow> n = 0 \<or> n = 1 \<or> n = 2 \<or> n = (3::nat)"
  by auto

lemma low_nibble_attr2:
  "limit_high_attr2 (make_gdt_desc base limit attribute) AND 0xF = ucast (take_bit 4 (drop_bit 16 limit))"
proof (rule bit_word_eqI)
  fix n assume "n < LENGTH(8)"
  have "\<not> bit (0xF0 :: u16) n" if "n < 4" using nibble_index [OF that] by auto
  then show "bit (limit_high_attr2 (make_gdt_desc base limit attribute) AND 0xF) n =
      bit (ucast (take_bit 4 (drop_bit 16 limit)) :: u8) n"
    by (auto simp: make_gdt_desc_def and_low_ones bit_simps)
qed

lemma limit_roundtrip: "desc_limit (make_gdt_desc base limit attribute) = take_bit 20 limit"
proof -
  let ?h = "ucast (take_bit 4 (drop_bit 16 limit) :: u32) :: u32"
  let ?l = "ucast (limit_low (make_gdt_desc base limit attribute)) :: u32"
  have low: "?l = take_bit 16 limit"
    by (rule bit_word_eqI) (auto simp: make_gdt_desc_def and_low_ones bit_simps)
  have high: "(ucast (limit_high_attr2 (make_gdt_desc base limit attribute) AND 0xF) :: u32) =
      take_bit 4 (drop_bit 16 limit)"
    unfolding low_nibble_attr2 by (rule bit_word_eqI) (auto simp: bit_simps)
  have "push_bit 16 (take_bit 4 (drop_bit 16 limit)) + take_bit 16 limit =
      push_bit 16 (take_bit 4 (drop_bit 16 limit)) OR take_bit 16 limit"
    by (rule disjunctive_add) (auto simp: bit_simps)
  also have "\<dots> = take_bit 20 limit"
    by (rule bit_word_eqI) (auto simp: bit_simps)
  finally show ?thesis by (simp add: desc_limit_def reassembly_def low high)
qed

lemma granularity_bit:
  "limit_high_attr2 (make_gdt_desc base limit attribute) AND 0x80 \<noteq> 0 \<longleftrightarrow> bit attribute 15"
proof -
  have "x AND 0x80 \<noteq> 0 \<longleftrightarrow> bit x 7" for x :: u8
    using and_exp_eq_0_iff_not_bit [of x 7] by simp
  moreover have "bit (0xF0 :: u16) 7" by simp
  ultimately show ?thesis by (simp add: make_gdt_desc_def and_low_ones bit_simps)
qed

text \<open>A segment descriptor made by \<^verbatim>\<open>make_gdt_desc\<close> reads back its 32-bit base, the low 20 bits of
  its limit, its type byte and its granularity bit.\<close>

theorem descriptor_roundtrip:
  "gdt_ldt_to_base_addr (make_gdt_desc base limit attribute) = base \<and>
   desc_limit (make_gdt_desc base limit attribute) = take_bit 20 limit \<and>
   attr1 (make_gdt_desc base limit attribute) = ucast attribute \<and>
   (limit_high_attr2 (make_gdt_desc base limit attribute) AND 0x80 \<noteq> 0 \<longleftrightarrow> bit attribute 15)"
proof -
  have "attr1 (make_gdt_desc base limit attribute) = ucast attribute"
    by (rule bit_word_eqI) (auto simp: make_gdt_desc_def and_low_ones bit_simps)
  then show ?thesis using base_roundtrip limit_roundtrip granularity_bit by simp
qed

section \<open>The interrupt descriptor table\<close>

definition gate_offset :: "gate_desc \<Rightarrow> u32" where
  "gate_offset g = push_bit 16 (ucast (offset_high g)) OR ucast (offset_low g)"

definition gate_for :: "u32 \<Rightarrow> u8 \<Rightarrow> gate_desc" where
  "gate_for addr p = make_idt_desc [zero_gate_desc] 0 DA_386IGate addr p ! 0"

lemma make_idt_desc_gate:
  "make_idt_desc idt v DA_386IGate addr p = idt[unat v := gate_for addr p]"
  by (simp add: make_idt_desc_def gate_for_def Let_def)

lemma gate_for_fields:
  "gate_offset (gate_for addr p) = addr"
  "selector (gate_for addr p) = SELECTOR_KERNEL_CS"
  "attr (gate_for addr p) = DA_386IGate OR push_bit 5 p"
proof -
  show "gate_offset (gate_for addr p) = addr"
    by (rule bit_word_eqI)
      (auto simp: gate_for_def make_idt_desc_def gate_offset_def Let_def and_low_ones bit_simps)
qed (simp_all add: gate_for_def make_idt_desc_def Let_def)

lemma fold_gates_length:
  "length (fold (\<lambda>(v, h, p) t. t[unat v := gate_for (entry h) p]) vs idt) = length idt"
  by (induction vs arbitrary: idt) auto

lemma fold_gates_other:
  "n \<notin> (unat \<circ> fst) ` set vs \<Longrightarrow>
   fold (\<lambda>(v, h, p) t. t[unat v := gate_for (entry h) p]) vs idt ! n = idt ! n"
  by (induction vs arbitrary: idt) auto

lemma fold_gates_nth:
  "distinct (map (unat \<circ> fst) vs) \<Longrightarrow> (v, h, p) \<in> set vs \<Longrightarrow> unat v < length idt \<Longrightarrow>
   fold (\<lambda>(v, h, p) t. t[unat v := gate_for (entry h) p]) vs idt ! unat v = gate_for (entry h) p"
proof (induction vs arbitrary: idt)
  case Nil
  then show ?case by simp
next
  case (Cons x vs)
  obtain v' h' p' where x: "x = (v', h', p')" by (cases x) auto
  show ?case
  proof (cases "(v, h, p) = x")
    case True
    with Cons.prems x show ?thesis
      by (simp add: fold_gates_other)
  next
    case False
    with Cons.prems x show ?thesis
      by (auto intro: Cons.IH)
  qed
qed

lemma idt_vectors_distinct: "distinct (map (unat \<circ> fst) idt_vectors)"
  by (simp add: idt_vectors_def)

text \<open>After \<^verbatim>\<open>init_idt_desc\<close> every listed vector has an interrupt gate to its entry point in the kernel
  code segment, with the listed privilege, and the only vectors a user process may raise itself are
  breakpoint, overflow and the system call \<^verbatim>\<open>0x80\<close>; other slots keep what they held.\<close>

theorem idt_gates:
  assumes "length idt = 256"
  shows "(\<forall>(v, h, p) \<in> set idt_vectors.
      gate_offset (init_idt_desc entry idt ! unat v) = entry h \<and>
      selector (init_idt_desc entry idt ! unat v) = SELECTOR_KERNEL_CS \<and>
      attr (init_idt_desc entry idt ! unat v) = DA_386IGate OR push_bit 5 p \<and>
      (p = PRIVILEGE_USER \<longleftrightarrow> v \<in> {3, 4, 0x80})) \<and>
    (\<forall>n. n \<notin> (unat \<circ> fst) ` set idt_vectors \<longrightarrow> init_idt_desc entry idt ! n = idt ! n)"
proof -
  have "init_idt_desc entry idt ! unat v = gate_for (entry h) p" if "(v, h, p) \<in> set idt_vectors" for v h p
    unfolding init_idt_desc_def make_idt_desc_gate using assms that unsigned_less [of v, where ?'a = nat]
    by (intro fold_gates_nth [OF idt_vectors_distinct]) simp_all
  moreover have "\<forall>(v, h, p) \<in> set idt_vectors. p = PRIVILEGE_USER \<longleftrightarrow> v \<in> {3, 4, 0x80}"
    by (simp add: idt_vectors_def)
  moreover have "init_idt_desc entry idt ! n = idt ! n" if "n \<notin> (unat \<circ> fst) ` set idt_vectors" for n
    unfolding init_idt_desc_def make_idt_desc_gate using that by (rule fold_gates_other)
  ultimately show ?thesis by (auto simp: gate_for_fields)
qed

theorem idt_gates_witness:
  "gate_offset (init_idt_desc (\<lambda>_. 0x30400) (replicate 256 zero_gate_desc) ! 0x80) = 0x30400"
proof -
  have "(0x80 :: u8, ''sys_call'', PRIVILEGE_USER) \<in> set idt_vectors" by (simp add: idt_vectors_def)
  then show ?thesis
    using idt_gates [of "replicate 256 zero_gate_desc" "\<lambda>_. 0x30400"] by fastforce
qed

end
