(* ===== verification/Screen.thy ===== *)
theory Screen
  imports Memory
begin

text \<open>
  The consoles on the VGA text screen: \<^verbatim>\<open>src/device/console.c\<close> with the structure of
  \<^verbatim>\<open>src/include/sys/console.h\<close> and the macros of \<^verbatim>\<open>src/include/sys/const.h\<close>.

  Three consoles share 32 KB of video memory, two bytes per cell. The unsigned fields of a console are
  integers in the range of a \<^verbatim>\<open>u32\<close>; every result that is stored in one, and every unsigned difference,
  is reduced by \<open>to_u32\<close>. Video memory is a byte memory of its own, and what is written to the CRT
  controller's ports is collected in order in \<open>outs\<close>. A console pointer is its index in
  \<^verbatim>\<open>console_table\<close>. The scrolling loop of \<^verbatim>\<open>console_print_char\<close> may not end, so it is a
  \<^theory_text>\<open>partial_function\<close>.
\<close>

unbundle bit_operations_syntax

section \<open>State and constants\<close>

record console =
  w_screen_start :: int
  w_console_start :: int
  w_console_size :: int
  w_cursor :: int
  is_full :: int

record vga =
  console_table :: "console list"
  current_console :: int
  vram :: mem
  outs :: "(u16 \<times> u8) list"

abbreviation (input) SCR_WIDTH where "SCR_WIDTH \<equiv> 80 :: int"
abbreviation (input) SCR_SIZE where "SCR_SIZE \<equiv> 80 * 25 :: int"
abbreviation (input) NR_CONSOLES where "NR_CONSOLES \<equiv> 3 :: int"
abbreviation (input) VIDEO_MEM_BASE where "VIDEO_MEM_BASE \<equiv> 0xB8000 :: u32"
abbreviation (input) VIDEO_MEM_SIZE where "VIDEO_MEM_SIZE \<equiv> 0x8000 :: int"
abbreviation (input) DEFAULT_CHAR_COLOR where "DEFAULT_CHAR_COLOR \<equiv> 0x07 :: u8"
abbreviation (input) SCROLL_UP where "SCROLL_UP \<equiv> 1 :: int"
abbreviation (input) SCROLL_DN where "SCROLL_DN \<equiv> -1 :: int"
abbreviation (input) CRTC_ADDR_REG where "CRTC_ADDR_REG \<equiv> 0x3D4 :: u16"
abbreviation (input) CRTC_DATA_REG where "CRTC_DATA_REG \<equiv> 0x3D5 :: u16"

text \<open>
  The two macros, as the compiler parses them: \<^verbatim>\<open>W_TTY_CONSOLE_START(nr)\<close> is
  \<^verbatim>\<open>nr * 0x8000 / 3 >> 1\<close>, and \<^verbatim>\<open>W_SIZE_PER_CONSOLE / SCR_WIDTH * SCR_WIDTH\<close> is
  \<^verbatim>\<open>0x8000 / 3 >> 1 / 80 * 80\<close>, where the shift binds weaker than the arithmetic after it.
\<close>

definition W_TTY_CONSOLE_START :: "int \<Rightarrow> int" where
  "W_TTY_CONSOLE_START nr_tty = drop_bit 1 (nr_tty * VIDEO_MEM_SIZE sdiv NR_CONSOLES)"

definition w_console_size_init :: int where
  "w_console_size_init =
     drop_bit (nat (1 sdiv SCR_WIDTH * SCR_WIDTH)) (VIDEO_MEM_SIZE sdiv NR_CONSOLES)"

section \<open>The code\<close>

definition out_byte :: "u16 \<Rightarrow> u8 \<Rightarrow> vga \<Rightarrow> vga" where
  "out_byte port val v = v\<lparr>outs := outs v @ [(port, val)]\<rparr>"

definition set_screen_cursor_position :: "int \<Rightarrow> vga \<Rightarrow> vga" where
  "set_screen_cursor_position position v =
     out_byte CRTC_DATA_REG (word_of_int position)
       (out_byte CRTC_ADDR_REG 0xF
         (out_byte CRTC_DATA_REG (word_of_int (drop_bit 8 position))
           (out_byte CRTC_ADDR_REG 0xE v)))"

definition set_screen_start_position :: "int \<Rightarrow> vga \<Rightarrow> vga" where
  "set_screen_start_position addr v =
     out_byte CRTC_DATA_REG (word_of_int addr)
       (out_byte CRTC_ADDR_REG 0xD
         (out_byte CRTC_DATA_REG (word_of_int (drop_bit 8 addr))
           (out_byte CRTC_ADDR_REG 0xC v)))"

definition is_current_console :: "vga \<Rightarrow> nat \<Rightarrow> bool" where
  "is_current_console v con \<longleftrightarrow> int con = current_console v"

definition do_screen_refresh :: "nat \<Rightarrow> vga \<Rightarrow> vga" where
  "do_screen_refresh con v =
     (if is_current_console v con
      then set_screen_start_position (w_screen_start (console_table v ! con))
             (set_screen_cursor_position (w_cursor (console_table v ! con)) v)
      else v)"

definition put_console :: "nat \<Rightarrow> console \<Rightarrow> vga \<Rightarrow> vga" where
  "put_console con c v = v\<lparr>console_table := (console_table v)[con := c]\<rparr>"

definition cell_addr :: "int \<Rightarrow> u32" where
  "cell_addr pos = VIDEO_MEM_BASE + word_of_int (pos * 2)"

fun clear_cells :: "mem \<Rightarrow> u32 \<Rightarrow> nat \<Rightarrow> mem" where
  "clear_cells m a 0 = m"
| "clear_cells m a (Suc n) = clear_cells (m(a := 32, a + 1 := DEFAULT_CHAR_COLOR)) (a + 2) n"

definition clear_screen_buf :: "int \<Rightarrow> int \<Rightarrow> vga \<Rightarrow> vga" where
  "clear_screen_buf pos len v = v\<lparr>vram := clear_cells (vram v) (cell_addr pos) (nat len)\<rparr>"

definition move_screen_buf :: "int \<Rightarrow> int \<Rightarrow> int \<Rightarrow> vga \<Rightarrow> vga" where
  "move_screen_buf dst src size' v =
     v\<lparr>vram := phys_copy (vram v) (cell_addr dst) (cell_addr src) (word_of_int (size' * 2))\<rparr>"

definition switch_console :: "int \<Rightarrow> vga \<Rightarrow> vga" where
  "switch_console nr_console v =
     (if nr_console < 0 \<or> nr_console \<ge> NR_CONSOLES then v
      else do_screen_refresh (nat nr_console) (v\<lparr>current_console := nr_console\<rparr>))"

text \<open>\<^verbatim>\<open>scroll_screen\<close>: the new screen start of a console, then the refresh.\<close>

definition scroll_start :: "console \<Rightarrow> int \<Rightarrow> int" where
  "scroll_start c dir =
     (let w_latest_offs = s32 (to_u32 (w_cursor c - w_console_start c) div SCR_WIDTH * SCR_WIDTH);
          w_oldest_offs = (if is_full c \<noteq> 0
            then s32 (to_u32 (w_latest_offs + SCR_WIDTH) mod w_console_size c) else 0);
          w_screen_start_offset = s32 (w_screen_start c - w_console_start c);
          up = to_u32 (w_screen_start c - SCR_WIDTH); down = to_u32 (w_screen_start c + SCR_WIDTH)
      in if dir = SCROLL_UP then
           (if is_full c = 0 \<and> w_screen_start_offset > 0 then up
            else if is_full c \<noteq> 0 \<and> w_screen_start_offset \<noteq> w_oldest_offs then
              (if to_u32 (w_cursor c - w_console_start c) \<ge> to_u32 (w_console_size c - SCR_SIZE) then
                 (if w_screen_start c \<noteq> w_console_start c then up else w_screen_start c)
               else if w_screen_start c = w_console_start c then
                 to_u32 (w_console_start c + s32 (w_console_size c - SCR_SIZE))
               else up)
            else w_screen_start c)
         else
           (if is_full c = 0 \<and> w_latest_offs \<ge> w_screen_start_offset + SCR_SIZE then down
            else if is_full c \<noteq> 0 \<and> w_screen_start_offset + SCR_SIZE - SCR_WIDTH \<noteq> w_latest_offs then
              (if to_u32 (w_screen_start_offset + SCR_SIZE) = w_console_size c then w_console_start c else down)
            else w_screen_start c))"

definition scroll_screen :: "nat \<Rightarrow> int \<Rightarrow> vga \<Rightarrow> vga outcome" where
  "scroll_screen con dir v =
     c_assert (dir = SCROLL_UP \<or> dir = SCROLL_DN)
       (let c = console_table v ! con
        in Inr (do_screen_refresh con (put_console con (c\<lparr>w_screen_start := scroll_start c dir\<rparr>) v)))"

text \<open>The effect of one character on the cursor and on the cell it names.\<close>

definition place_char :: "nat \<Rightarrow> u8 \<Rightarrow> vga \<Rightarrow> vga" where
  "place_char con ch v =
     (let c = console_table v ! con; a = cell_addr (w_cursor c);
          w_cursor_y = to_u32 (w_cursor c - w_console_start c) div SCR_WIDTH
      in if ch = 10 then
           put_console con (c\<lparr>w_cursor := to_u32 (w_console_start c + SCR_WIDTH * (w_cursor_y + 1))\<rparr>) v
         else if ch = 8 then
           (if w_cursor c > w_console_start c
            then put_console con (c\<lparr>w_cursor := w_cursor c - 1\<rparr>)
                   (v\<lparr>vram := (vram v)(a - 2 := 32, a - 1 := DEFAULT_CHAR_COLOR)\<rparr>)
            else v)
         else put_console con (c\<lparr>w_cursor := to_u32 (w_cursor c + 1)\<rparr>)
                (v\<lparr>vram := (vram v)(a := ch, a + 1 := DEFAULT_CHAR_COLOR)\<rparr>))"

text \<open>A full console keeps its last screen, moved to the start of its memory.\<close>

definition wrap_console :: "nat \<Rightarrow> vga \<Rightarrow> vga" where
  "wrap_console con v =
     (let c = console_table v ! con; off = to_u32 (w_cursor c - w_console_start c)
      in if off \<ge> w_console_size c then
           (let w_cursor_x = off mod SCR_WIDTH; w_cursor_y = off div SCR_WIDTH;
                src = s32 (w_console_start c + (w_cursor_y + 1) * SCR_WIDTH - SCR_SIZE);
                cursor = to_u32 (w_console_start c + (SCR_SIZE - SCR_WIDTH) + w_cursor_x)
            in clear_screen_buf cursor SCR_WIDTH
                 (put_console con (c\<lparr>w_screen_start := w_console_start c, w_cursor := cursor, is_full := 1\<rparr>)
                   (move_screen_buf (w_console_start c) src (SCR_SIZE - SCR_WIDTH) v)))
         else v)"

definition cursor_hidden :: "console \<Rightarrow> bool" where
  "cursor_hidden c \<longleftrightarrow> w_cursor c \<ge> to_u32 (w_screen_start c + SCR_SIZE) \<or> w_cursor c < w_screen_start c"

definition scroll_down_clear :: "nat \<Rightarrow> vga \<Rightarrow> vga" where
  "scroll_down_clear con v =
     (let c = console_table v ! con;
          v' = do_screen_refresh con (put_console con (c\<lparr>w_screen_start := scroll_start c SCROLL_DN\<rparr>) v)
      in clear_screen_buf (w_cursor (console_table v' ! con)) SCR_WIDTH v')"

partial_function (option) scroll_loop :: "nat \<Rightarrow> vga \<Rightarrow> vga option" where
  "scroll_loop con v =
     (if cursor_hidden (console_table v ! con) then scroll_loop con (scroll_down_clear con v) else Some v)"

definition console_print_char :: "nat \<Rightarrow> u8 \<Rightarrow> vga \<Rightarrow> vga outcome" where
  "console_print_char con ch v =
     (let c = console_table v ! con
      in c_assert (to_u32 (w_cursor c - w_console_start c) < w_console_size c)
        (let v1 = wrap_console con (place_char con ch v); c1 = console_table v1 ! con
         in c_assert (to_u32 (w_cursor c1 - w_console_start c1) < w_console_size c1)
           (obind (of_loop (scroll_loop con v1)) (\<lambda>v2. Inr (do_screen_refresh con v2)))))"

fun print_chars :: "nat \<Rightarrow> u8 list \<Rightarrow> vga \<Rightarrow> vga outcome" where
  "print_chars con [] v = Inr v"
| "print_chars con (ch # chs) v = obind (console_print_char con ch v) (print_chars con chs)"

text \<open>The prompt \<^verbatim>\<open>[TTY #? ](Alt+F?)\<close> with the console number in place of the question marks.\<close>

definition tty_prompt :: "int \<Rightarrow> u8 list" where
  "tty_prompt nr_tty = map (\<lambda>ch. if ch = 63 then word_of_int (nr_tty + 49) else ch)
     [91, 84, 84, 89, 32, 35, 63, 32, 93, 40, 65, 108, 116, 43, 70, 63, 41, 10]"

text \<open>\<^verbatim>\<open>init_screen\<close>; console 0 continues at the position \<^verbatim>\<open>disp_pos\<close> of the boot messages.\<close>

definition init_console :: "int \<Rightarrow> console" where
  "init_console nr_tty = \<lparr>w_screen_start = W_TTY_CONSOLE_START nr_tty,
     w_console_start = W_TTY_CONSOLE_START nr_tty, w_console_size = w_console_size_init,
     w_cursor = W_TTY_CONSOLE_START nr_tty, is_full = 0\<rparr>"

definition init_screen :: "nat \<Rightarrow> int \<Rightarrow> vga \<Rightarrow> (vga \<times> int) outcome" where
  "init_screen nr_tty disp_pos v =
     (let v1 = put_console nr_tty (init_console (int nr_tty)) v
      in if nr_tty = 0 then
           (let v2 = put_console 0 ((init_console 0)\<lparr>w_cursor := to_u32 (disp_pos sdiv 2)\<rparr>) v1
            in Inr (set_screen_cursor_position (w_cursor (console_table v2 ! 0)) v2, 0))
         else obind (print_chars nr_tty (tty_prompt (int nr_tty)) v1) (\<lambda>v2.
                Inr (set_screen_cursor_position (w_cursor (console_table v2 ! nr_tty)) v2, disp_pos)))"

section \<open>Printing\<close>

text \<open>A console that has not wrapped: its window starts on a row, the cursor is inside the window, and there
  is room for another row.\<close>

definition con_ok :: "console \<Rightarrow> bool" where
  "con_ok c \<longleftrightarrow> is_full c = 0 \<and> 0 \<le> w_console_start c \<and> w_console_start c \<le> 100000 \<and>
     w_console_size c = w_console_size_init \<and> w_console_start c \<le> w_screen_start c \<and>
     (w_screen_start c - w_console_start c) mod SCR_WIDTH = 0 \<and>
     w_screen_start c \<le> w_cursor c \<and> w_cursor c < w_screen_start c + SCR_SIZE \<and>
     w_cursor c - w_console_start c + SCR_WIDTH < w_console_size_init"

lemma console_size_value [simp]: "w_console_size_init = 10922"
  by (simp add: w_console_size_init_def signed_divide_int_def)

text \<open>Where the cursor goes, and where the window goes with it.\<close>

definition next_cursor :: "u8 \<Rightarrow> console \<Rightarrow> int" where
  "next_cursor ch c = (if ch = 10 then w_console_start c + SCR_WIDTH * ((w_cursor c - w_console_start c) div SCR_WIDTH + 1)
     else w_cursor c + 1)"

definition next_start :: "u8 \<Rightarrow> console \<Rightarrow> int" where
  "next_start ch c = (if next_cursor ch c = w_screen_start c + SCR_SIZE then w_screen_start c + SCR_WIDTH else w_screen_start c)"

lemma next_cursor_bounds:
  assumes "con_ok c"
  shows "w_screen_start c \<le> next_cursor ch c" "next_cursor ch c \<le> w_screen_start c + SCR_SIZE"
    "next_cursor ch c - w_console_start c < 10922"
    "next_cursor ch c = w_screen_start c + SCR_SIZE \<Longrightarrow> (next_cursor ch c - w_console_start c) mod SCR_WIDTH = 0"
proof -
  let ?o = "w_cursor c - w_console_start c" and ?s = "w_screen_start c - w_console_start c"
  have c: "?s mod 80 = 0" "?s \<le> ?o" "?o < ?s + 2000" "0 \<le> ?s" "?o + 80 < 10922" using assms by (auto simp: con_ok_def)
  obtain k where k: "?s = 80 * k" using c(1) by (auto simp: mod_eq_0_iff_dvd)
  define q where "q = ?o div 80"
  have q: "80 * q \<le> ?o" "?o < 80 * q + 80"
    using mult_div_mod_eq [of 80 ?o] pos_mod_bound [of 80 ?o] pos_mod_sign [of 80 ?o] by (simp_all add: q_def)
  then have "q < k + 25" using c(3) k by linarith
  then have row: "80 * (?o div 80 + 1) \<le> ?s + 2000" "?o < 80 * (?o div 80 + 1)" "80 * (?o div 80 + 1) \<le> ?o + 80"
    using q k by (simp_all add: q_def [symmetric])
  show "w_screen_start c \<le> next_cursor ch c" "next_cursor ch c \<le> w_screen_start c + SCR_SIZE"
    "next_cursor ch c - w_console_start c < 10922"
    using c row by (auto simp: next_cursor_def)
  have "(?s + 2000) mod 80 = 0" using k by simp
  then show "(next_cursor ch c - w_console_start c) mod SCR_WIDTH = 0" if "next_cursor ch c = w_screen_start c + SCR_SIZE"
    using that by (simp add: algebra_simps)
qed

lemma clear_cells_frame:
  "n < 2147483648 \<Longrightarrow> 2 * n \<le> unat (x - a) \<Longrightarrow> clear_cells m a n x = m x"
proof (induction n arbitrary: m a)
  case (Suc n)
  have x: "x \<noteq> a" "x \<noteq> a + 1" using Suc.prems by auto
  have "unat (x - (a + 2)) = unat (x - a) - 2"
  proof -
    have "(2 :: u32) \<le> x - a" using Suc.prems by (simp add: word_le_nat_alt)
    then have "unat (x - a - 2) = unat (x - a) - 2" by (simp add: unat_sub)
    then show ?thesis by (simp add: diff_diff_eq)
  qed
  then have "2 * n \<le> unat (x - (a + 2))" using Suc.prems by simp
  then have "clear_cells (m(a := 32, a + 1 := DEFAULT_CHAR_COLOR)) (a + 2) n x = (m(a := 32, a + 1 := DEFAULT_CHAR_COLOR)) x"
    using Suc.prems(1) by (intro Suc.IH) simp_all
  with x show ?case by simp
qed simp

lemma unat_word_of_int_small: "0 \<le> x \<Longrightarrow> x < 4294967296 \<Longrightarrow> unat (word_of_int x :: u32) = nat x"
  by (simp add: unsigned_of_int take_bit_int_eq_self)

lemma cell_addr_apart:
  assumes "0 \<le> p" "p < q" "q < 1000000" "b = 0 \<or> b = 1"
  shows "160 \<le> unat (cell_addr p + b - cell_addr q)"
proof -
  let ?x = "2 * (q - p)"
  define y :: u32 where "y = word_of_int ?x - b"
  have e: "cell_addr p + b - cell_addr q = - (word_of_int ?x - b)"
    by (simp add: cell_addr_def algebra_simps wi_hom_syms)
  have b: "unat b \<le> 1" using assms(4) by auto
  have x: "unat (word_of_int ?x :: u32) = nat ?x" using assms by (intro unat_word_of_int_small) auto
  then have le: "b \<le> word_of_int ?x" using b assms(2) by (simp add: word_le_nat_alt)
  have u: "unat (word_of_int ?x - b) = nat ?x - unat b" by (simp only: unat_sub [OF le] x)
  then have "unat y = nat ?x - unat b" by (simp only: y_def)
  moreover from this have "y \<noteq> 0" using b assms(2) by (intro notI) simp
  ultimately have "160 \<le> unat (- y)" using assms(1-3) by (simp add: unat_u32_uminus)
  then show ?thesis by (simp only: e y_def)
qed

lemma refresh_fields [simp]:
  "console_table (do_screen_refresh con v) = console_table v" "vram (do_screen_refresh con v) = vram v"
  "current_console (do_screen_refresh con v) = current_console v"
  by (simp_all add: do_screen_refresh_def set_screen_start_position_def set_screen_cursor_position_def out_byte_def)

lemma place_char_effect:
  assumes "con_ok c" "console_table v ! con = c" "con < length (console_table v)" "ch \<noteq> 8"
  shows "console_table (place_char con ch v) = (console_table v)[con := c\<lparr>w_cursor := next_cursor ch c\<rparr>]"
    "vram (place_char con ch v) = (if ch = 10 then vram v
       else (vram v)(cell_addr (w_cursor c) := ch, cell_addr (w_cursor c) + 1 := DEFAULT_CHAR_COLOR))"
proof -
  have "to_u32 (w_cursor c - w_console_start c) = w_cursor c - w_console_start c"
    using assms(1) by (intro to_u32_id) (auto simp: con_ok_def)
  moreover have "to_u32 (next_cursor ch c) = next_cursor ch c"
    using next_cursor_bounds [OF assms(1), of ch] assms(1) by (intro to_u32_id) (auto simp: con_ok_def)
  ultimately show "console_table (place_char con ch v) = (console_table v)[con := c\<lparr>w_cursor := next_cursor ch c\<rparr>]"
    "vram (place_char con ch v) = (if ch = 10 then vram v
       else (vram v)(cell_addr (w_cursor c) := ch, cell_addr (w_cursor c) + 1 := DEFAULT_CHAR_COLOR))"
    using assms(2-4) by (cases "ch = 10"; simp add: place_char_def Let_def put_console_def next_cursor_def)+
qed

lemma scroll_start_down:
  assumes "con_ok c" "next_cursor ch c = w_screen_start c + SCR_SIZE"
  shows "scroll_start (c\<lparr>w_cursor := next_cursor ch c\<rparr>) SCROLL_DN = w_screen_start c + SCR_WIDTH"
proof -
  note b = next_cursor_bounds [OF assms(1), of ch]
  let ?o = "next_cursor ch c - w_console_start c"
  have o: "0 \<le> ?o" "?o < 10922" "?o mod 80 = 0" using b assms by (auto simp: con_ok_def)
  then have "to_u32 ?o = ?o" "?o div 80 * 80 = ?o" by (simp_all add: to_u32_id minus_mod_eq_div_mult [symmetric])
  moreover have "s32 ?o = ?o" "s32 (w_screen_start c - w_console_start c) = w_screen_start c - w_console_start c"
    "to_u32 (w_screen_start c + 80) = w_screen_start c + 80"
    using o assms by (auto simp: con_ok_def s32_id to_u32_id)
  ultimately show ?thesis using assms by (simp add: scroll_start_def Let_def con_ok_def)
qed

lemma print_char_effect:
  assumes ok: "con_ok c" and c: "console_table v ! con = c" and con: "con < length (console_table v)" and ch: "ch \<noteq> 8"
  obtains v' where "console_print_char con ch v = Inr v'"
    and "console_table v' = (console_table v)[con := c\<lparr>w_cursor := next_cursor ch c, w_screen_start := next_start ch c\<rparr>]"
    and "ch \<noteq> 10 \<Longrightarrow> vram v' (cell_addr (w_cursor c)) = ch \<and> vram v' (cell_addr (w_cursor c) + 1) = DEFAULT_CHAR_COLOR"
proof -
  let ?v1 = "place_char con ch v" and ?c1 = "c\<lparr>w_cursor := next_cursor ch c\<rparr>"
  note pe = place_char_effect [OF ok c con ch] and nb = next_cursor_bounds [OF ok, of ch]
  have bc: "0 \<le> w_console_start c" "w_console_start c \<le> 100000" "w_console_start c \<le> w_screen_start c"
    "w_screen_start c \<le> w_cursor c" "w_cursor c - w_console_start c + 80 < 10922" "w_console_size c = 10922" "is_full c = 0"
    using ok by (auto simp: con_ok_def)
  have c1: "console_table ?v1 ! con = ?c1" using pe(1) con by simp
  have u: "to_u32 (next_cursor ch c - w_console_start c) = next_cursor ch c - w_console_start c"
    "to_u32 (w_cursor c - w_console_start c) = w_cursor c - w_console_start c"
    using nb bc by (auto intro!: to_u32_id)
  have wr: "wrap_console con ?v1 = ?v1" using nb(3) bc by (simp add: wrap_console_def Let_def c1 u)
  have lp: "\<exists>v2. scroll_loop con ?v1 = Some v2 \<and>
      console_table v2 = (console_table v)[con := c\<lparr>w_cursor := next_cursor ch c, w_screen_start := next_start ch c\<rparr>] \<and>
      (ch \<noteq> 10 \<longrightarrow> vram v2 (cell_addr (w_cursor c)) = ch \<and> vram v2 (cell_addr (w_cursor c) + 1) = DEFAULT_CHAR_COLOR)"
  proof (cases "next_cursor ch c = w_screen_start c + SCR_SIZE")
    case False
    have "\<not> cursor_hidden ?c1" using False nb(1, 2) bc by (simp add: cursor_hidden_def to_u32_id)
    then have "scroll_loop con ?v1 = Some ?v1" by (subst scroll_loop.simps) (simp add: c1)
    then show ?thesis using False pe by (auto simp: next_start_def)
  next
    case True
    let ?c2 = "?c1\<lparr>w_screen_start := w_screen_start c + SCR_WIDTH\<rparr>" and ?v2 = "scroll_down_clear con ?v1"
    have hid: "cursor_hidden ?c1" using True bc by (simp add: cursor_hidden_def to_u32_id)
    have t2: "console_table ?v2 = (console_table v)[con := ?c2]"
      using scroll_start_down [OF ok True] pe(1) con
      by (simp add: scroll_down_clear_def Let_def c1 put_console_def clear_screen_buf_def)
    have "\<not> cursor_hidden ?c2" using True bc by (simp add: cursor_hidden_def to_u32_id)
    then have "scroll_loop con ?v2 = Some ?v2" using t2 con by (subst scroll_loop.simps) simp
    then have "scroll_loop con ?v1 = Some ?v2" using hid by (subst scroll_loop.simps) (simp add: c1)
    moreover have vr: "vram ?v2 = clear_cells (vram ?v1) (cell_addr (next_cursor ch c)) 80"
      using con by (simp add: scroll_down_clear_def Let_def c1 put_console_def clear_screen_buf_def pe(1))
    moreover have "vram ?v2 (cell_addr (w_cursor c) + b) = vram ?v1 (cell_addr (w_cursor c) + b)"
      if "ch \<noteq> 10" "b = 0 \<or> b = 1" for b
      unfolding vr using cell_addr_apart [of "w_cursor c" "next_cursor ch c" b] that bc nb
      by (intro clear_cells_frame) (simp_all add: next_cursor_def)
    from this [of 0] this [of 1] have "ch \<noteq> 10 \<Longrightarrow> vram ?v2 (cell_addr (w_cursor c)) = ch \<and>
        vram ?v2 (cell_addr (w_cursor c) + 1) = DEFAULT_CHAR_COLOR" by (simp add: pe(2))
    ultimately show ?thesis using True t2 by (auto simp: next_start_def)
  qed
  then obtain v2 where v2: "scroll_loop con ?v1 = Some v2"
      "console_table v2 = (console_table v)[con := c\<lparr>w_cursor := next_cursor ch c, w_screen_start := next_start ch c\<rparr>]"
      "ch \<noteq> 10 \<longrightarrow> vram v2 (cell_addr (w_cursor c)) = ch \<and> vram v2 (cell_addr (w_cursor c) + 1) = DEFAULT_CHAR_COLOR"
    by blast
  have "console_print_char con ch v = Inr (do_screen_refresh con v2)"
    using c c1 u wr v2(1) nb(3) bc by (simp add: console_print_char_def Let_def)
  with v2(2, 3) that show thesis by simp
qed

text \<open>Printing a character on a console that has not wrapped always terminates and shows it: the
  character is in the cell under the cursor with the default colour, the cursor advances by one cell
  or, for a newline, to the start of the next row, the window follows by exactly one row when the
  cursor leaves it, the cursor is inside the window again, and no other console changes.\<close>

theorem print_char_advances:
  assumes "con_ok c" and "console_table v ! con = c" and "con < length (console_table v)" and "ch \<noteq> 8"
  shows "\<exists>v'. console_print_char con ch v = Inr v' \<and>
    console_table v' = (console_table v)[con := c\<lparr>w_cursor := next_cursor ch c, w_screen_start := next_start ch c\<rparr>] \<and>
    (ch \<noteq> 10 \<longrightarrow> vram v' (cell_addr (w_cursor c)) = ch \<and> vram v' (cell_addr (w_cursor c) + 1) = DEFAULT_CHAR_COLOR) \<and>
    next_start ch c \<le> next_cursor ch c \<and> next_cursor ch c < next_start ch c + SCR_SIZE"
proof -
  have "next_start ch c \<le> next_cursor ch c" "next_cursor ch c < next_start ch c + SCR_SIZE"
    using next_cursor_bounds(1, 2) [OF assms(1), of ch] by (auto simp: next_start_def)
  with print_char_effect [OF assms] show ?thesis by metis
qed

theorem print_char_advances_witness:
  "\<exists>v'. console_print_char 0 65 \<lparr>console_table = [init_console 0], current_console = 0, vram = (\<lambda>_. 0), outs = []\<rparr> = Inr v' \<and>
     vram v' (cell_addr 0) = 65 \<and> w_cursor (console_table v' ! 0) = 1"
proof -
  have "con_ok (init_console 0)" by (simp add: con_ok_def init_console_def W_TTY_CONSOLE_START_def)
  from print_char_advances [OF this, of "\<lparr>console_table = [init_console 0], current_console = 0, vram = (\<lambda>_. 0), outs = []\<rparr>" 0 65]
  show ?thesis by (auto simp: next_cursor_def init_console_def W_TTY_CONSOLE_START_def)
qed

text \<open>The three consoles are 5461 words apart but each is 10922 words long, because the macro for the
  size of a console divides only the shift distance: the memory of a console runs into the next
  one, and that of the last console ends beyond the 16384 words of video memory.\<close>

theorem consoles_overlap:
  "w_console_size (init_console 0) = 10922 \<and>
   w_console_start (init_console 1) < w_console_start (init_console 0) + w_console_size (init_console 0) \<and>
   w_console_start (init_console 2) < w_console_start (init_console 1) + w_console_size (init_console 1) \<and>
   VIDEO_MEM_SIZE div 2 < w_console_start (init_console 2) + w_console_size (init_console 2)"
  by (simp add: init_console_def W_TTY_CONSOLE_START_def signed_divide_int_def)

end
