(* ===== verification/Proc.thy ===== *)
theory Proc
  imports Strings Desc Screen
begin

text \<open>
  Processes: the process table of \<^verbatim>\<open>src/include/sys/process.h\<close> and \<^verbatim>\<open>src/kernel/global.c\<close>, its
  initialisation (\<^verbatim>\<open>init_ldt_desc\<close> of \<^verbatim>\<open>src/kernel/descriptor.c\<close>, \<^verbatim>\<open>init_process\<close> of
  \<^verbatim>\<open>src/kernel/process.c\<close>, with the boot parameters and the kernel image read as \<^verbatim>\<open>src/kernel/klib.c\<close> reads
  them), the address translation \<^verbatim>\<open>proc_va2la\<close> and the scheduler \<^verbatim>\<open>schedule\<close>.

  A pointer into \<^verbatim>\<open>proc_table\<close> is its index, an \<open>int\<close>. The table has 37 entries; what the code reads or
  writes through an index outside of it is kept in \<open>beyond\<close>, the memory around the table seen as
  process structures, so an out-of-bounds access is visible in the model. The scheduler's outer loop
  may run forever, hence its \<open>option\<close> result.
\<close>

unbundle bit_operations_syntax

section \<open>Constants\<close>

abbreviation (input) RUNNABLE where "RUNNABLE \<equiv> 0x00 :: u32"
abbreviation (input) SENDING where "SENDING \<equiv> 0x02 :: u32"
abbreviation (input) RECEIVING where "RECEIVING \<equiv> 0x04 :: u32"
abbreviation (input) WAITING where "WAITING \<equiv> 0x08 :: u32"
abbreviation (input) HANGING where "HANGING \<equiv> 0x10 :: u32"
abbreviation (input) FREE_SLOT where "FREE_SLOT \<equiv> 0x20 :: u32"

abbreviation (input) NR_TASKS_NATIVE where "NR_TASKS_NATIVE \<equiv> 5 :: int"
abbreviation (input) NR_PROCS_NATIVE where "NR_PROCS_NATIVE \<equiv> 4 :: int"
abbreviation (input) NR_PROCS_MAX where "NR_PROCS_MAX \<equiv> 32 :: int"
abbreviation (input) NR_FILES where "NR_FILES \<equiv> 64 :: nat"
abbreviation (input) NR_PROC_SLOTS where "NR_PROC_SLOTS \<equiv> 37 :: nat"
abbreviation (input) INTERRUPT where "INTERRUPT \<equiv> - 10 :: int"
abbreviation (input) TASK_TTY where "TASK_TTY \<equiv> 0 :: int"
abbreviation (input) TASK_SYS where "TASK_SYS \<equiv> 1 :: int"
abbreviation (input) TASK_HD where "TASK_HD \<equiv> 2 :: int"
abbreviation (input) TASK_FS where "TASK_FS \<equiv> 3 :: int"
abbreviation (input) TASK_PM where "TASK_PM \<equiv> 4 :: int"
abbreviation (input) INIT where "INIT \<equiv> 5 :: int"
abbreviation (input) ANY where "ANY \<equiv> 47 :: int"
abbreviation (input) NO_TASK where "NO_TASK \<equiv> 57 :: int"

section \<open>The process table\<close>

record stackframe =
  gs_reg :: u32
  fs_reg :: u32
  es_reg :: u32
  ds_reg :: u32
  edi_reg :: u32
  esi_reg :: u32
  ebp_reg :: u32
  kernel_esp :: u32
  ebx_reg :: u32
  edx_reg :: u32
  ecx_reg :: u32
  eax_reg :: u32
  retaddr :: u32
  eip_reg :: u32
  cs_reg :: u32
  eflags_reg :: u32
  esp_reg :: u32
  ss_reg :: u32

record proc =
  regs :: stackframe
  ldt_sel :: u16
  ldts :: "gdt_desc list"
  file_desc :: "nat option list"
  ticks :: int
  priority :: int
  name :: "u8 list"
  proc_state :: u32
  pending_msg :: u32
  q_pending_proc :: "int option"
  pid_recvingfrom :: int
  pid_sendingto :: int
  has_int_msg :: int
  p_parent :: int
  exit_status :: int

record kernel =
  gdt :: "gdt_desc list"
  proc_table :: "proc list"
  beyond :: "int \<Rightarrow> proc"
  p_proc_ready :: int
  nested_int :: u32
  sys_ticks :: int
  key_pressed :: int
  kmem :: mem
  screen :: vga

text \<open>A process structure cleared by \<^verbatim>\<open>memset\<close>.\<close>

definition zero_stackframe :: stackframe where
  "zero_stackframe = \<lparr>gs_reg = 0, fs_reg = 0, es_reg = 0, ds_reg = 0, edi_reg = 0, esi_reg = 0, ebp_reg = 0,
     kernel_esp = 0, ebx_reg = 0, edx_reg = 0, ecx_reg = 0, eax_reg = 0, retaddr = 0, eip_reg = 0, cs_reg = 0,
     eflags_reg = 0, esp_reg = 0, ss_reg = 0\<rparr>"

definition zero_proc :: proc where
  "zero_proc = \<lparr>regs = zero_stackframe, ldt_sel = 0, ldts = [zero_gdt_desc, zero_gdt_desc],
     file_desc = replicate 64 None, ticks = 0, priority = 0, name = [], proc_state = 0, pending_msg = 0,
     q_pending_proc = None, pid_recvingfrom = 0, pid_sendingto = 0, has_int_msg = 0, p_parent = 0,
     exit_status = 0\<rparr>"

definition proc_at :: "kernel \<Rightarrow> int \<Rightarrow> proc" where
  "proc_at s i = (if 0 \<le> i \<and> i < int (length (proc_table s)) then proc_table s ! nat i else beyond s i)"

lemma proc_at_kmem: "proc_at (k\<lparr>kmem := m\<rparr>) = proc_at k"
  by (simp add: fun_eq_iff proc_at_def)

definition put_proc :: "kernel \<Rightarrow> int \<Rightarrow> proc \<Rightarrow> kernel" where
  "put_proc s i p =
     (if 0 \<le> i \<and> i < int (length (proc_table s)) then s\<lparr>proc_table := (proc_table s)[nat i := p]\<rparr>
      else s\<lparr>beyond := (beyond s)(i := p)\<rparr>)"

lemma proc_at_put [simp]: "proc_at (put_proc s i p) j = (if i = j then p else proc_at s j)"
  by (auto simp: proc_at_def put_proc_def nth_list_update nat_eq_iff2)

lemma length_put_proc [simp]: "length (proc_table (put_proc s i p)) = length (proc_table s)"
  by (simp add: put_proc_def)

lemma put_proc_fields [simp]:
  "gdt (put_proc s i p) = gdt s" "p_proc_ready (put_proc s i p) = p_proc_ready s"
  "nested_int (put_proc s i p) = nested_int s" "sys_ticks (put_proc s i p) = sys_ticks s"
  "key_pressed (put_proc s i p) = key_pressed s" "kmem (put_proc s i p) = kmem s"
  "screen (put_proc s i p) = screen s"
  by (simp_all add: put_proc_def)

lemma proc_at_frame [simp]:
  "proc_at (s\<lparr>p_proc_ready := r\<rparr>) = proc_at s" "proc_at (s\<lparr>kmem := m\<rparr>) = proc_at s"
  "proc_at (s\<lparr>sys_ticks := t\<rparr>) = proc_at s" "proc_at (s\<lparr>key_pressed := k\<rparr>) = proc_at s"
  "proc_at (s\<lparr>nested_int := n\<rparr>) = proc_at s" "proc_at (s\<lparr>screen := v\<rparr>) = proc_at s"
  by (simp_all add: proc_at_def fun_eq_iff)

text \<open>A native process is one of the tasks or user processes built into the kernel image.\<close>

abbreviation valid_pid :: "int \<Rightarrow> bool" where
  "valid_pid i \<equiv> 0 \<le> i \<and> i < NR_TASKS_NATIVE + NR_PROCS_MAX"

section \<open>Address translation\<close>

definition ldt_idx_to_base_addr :: "proc \<Rightarrow> nat \<Rightarrow> u32" where
  "ldt_idx_to_base_addr p ldt_index =
     (let d = ldts p ! ldt_index
      in push_bit 24 (ucast (base_high d)) OR push_bit 16 (ucast (base_mid d)) OR ucast (base_low d))"

definition proc_va2la :: "kernel \<Rightarrow> int \<Rightarrow> u32 \<Rightarrow> u32 outcome" where
  "proc_va2la s pid va =
     (let p = proc_at s pid; seg_base_addr = ldt_idx_to_base_addr p 1; la = seg_base_addr + va
      in if pid < NR_TASKS_NATIVE + NR_PROCS_NATIVE then c_assert (la = va) (Inr la) else Inr la)"

section \<open>The scheduler\<close>

text \<open>One pass over the table: the runnable process with the most ticks, the first one on a tie.\<close>

fun sched_scan :: "proc list \<Rightarrow> int \<Rightarrow> int \<Rightarrow> int \<Rightarrow> int \<times> int" where
  "sched_scan [] i greatest_ticks ready = (greatest_ticks, ready)"
| "sched_scan (p # ps) i greatest_ticks ready =
     (if proc_state p = RUNNABLE \<and> ticks p > greatest_ticks
      then sched_scan ps (i + 1) (ticks p) i
      else sched_scan ps (i + 1) greatest_ticks ready)"

definition sched_refill :: "proc list \<Rightarrow> proc list" where
  "sched_refill ps = map (\<lambda>p. if proc_state p = RUNNABLE then p\<lparr>ticks := priority p\<rparr> else p) ps"

partial_function (option) schedule :: "kernel \<Rightarrow> kernel option" where
  "schedule s =
     (case sched_scan (proc_table s) 0 0 (p_proc_ready s) of (greatest_ticks, ready) \<Rightarrow>
        if greatest_ticks \<noteq> 0 then Some (s\<lparr>p_proc_ready := ready\<rparr>)
        else schedule (s\<lparr>p_proc_ready := ready, proc_table := sched_refill (proc_table s)\<rparr>))"

lemma sched_scan_spec:
  assumes "sched_scan ps i g r = (g', r')"
  shows "g \<le> g' \<and> (\<forall>p \<in> set ps. proc_state p = RUNNABLE \<longrightarrow> ticks p \<le> g') \<and>
    (g' = g \<and> r' = r \<or>
     g < g' \<and> (\<exists>k < length ps. r' = i + int k \<and> proc_state (ps ! k) = RUNNABLE \<and> ticks (ps ! k) = g' \<and>
       (\<forall>j < k. proc_state (ps ! j) = RUNNABLE \<longrightarrow> ticks (ps ! j) < g')))"
  using assms
proof (induction ps i g r rule: sched_scan.induct)
  case (1 i g r)
  then show ?case by simp
next
  case (2 p ps i g r)
  show ?case
  proof (cases "proc_state p = RUNNABLE \<and> ticks p > g")
    case True
    with "2.prems" have run: "sched_scan ps (i + 1) (ticks p) i = (g', r')" by simp
    note IH = "2.IH"(1) [OF True run]
    show ?thesis
    proof (cases "g' = ticks p \<and> r' = i")
      case same: True
      then show ?thesis using IH True by (auto intro!: exI [of _ "0::nat"])
    next
      case False
      with IH obtain k where "ticks p < g'" "k < length ps" "r' = i + 1 + int k"
        "proc_state (ps ! k) = RUNNABLE" "ticks (ps ! k) = g'"
        "\<forall>j < k. proc_state (ps ! j) = RUNNABLE \<longrightarrow> ticks (ps ! j) < g'" by auto
      then show ?thesis using IH True
        by (auto intro!: exI [of _ "Suc k"] simp: nth_Cons split: nat.splits)
    qed
  next
    case False
    with "2.prems" have run: "sched_scan ps (i + 1) g r = (g', r')" by simp
    note IH = "2.IH"(2) [OF False run]
    then show ?thesis
    proof (cases "g' = g \<and> r' = r")
      case True
      then show ?thesis using IH False by auto
    next
      case False
      with IH obtain k where "g < g'" "k < length ps" "r' = i + 1 + int k"
        "proc_state (ps ! k) = RUNNABLE" "ticks (ps ! k) = g'"
        "\<forall>j < k. proc_state (ps ! j) = RUNNABLE \<longrightarrow> ticks (ps ! j) < g'" by auto
      then show ?thesis using IH \<open>\<not> (proc_state p = RUNNABLE \<and> ticks p > g)\<close>
        by (auto intro!: exI [of _ "Suc k"] simp: nth_Cons split: nat.splits)
    qed
  qed
qed

definition has_ticks :: "proc list \<Rightarrow> bool" where
  "has_ticks ps \<longleftrightarrow> (\<exists>p \<in> set ps. proc_state p = RUNNABLE \<and> 0 < ticks p)"

definition has_priority :: "proc list \<Rightarrow> bool" where
  "has_priority ps \<longleftrightarrow> (\<exists>p \<in> set ps. proc_state p = RUNNABLE \<and> 0 < priority p)"

text \<open>The process the scheduler must choose: most ticks, and the first in the table among equals.\<close>

definition is_choice :: "proc list \<Rightarrow> int \<Rightarrow> bool" where
  "is_choice ps r \<longleftrightarrow> (\<exists>k < length ps. r = int k \<and> proc_state (ps ! k) = RUNNABLE \<and> 0 < ticks (ps ! k) \<and>
     (\<forall>p \<in> set ps. proc_state p = RUNNABLE \<longrightarrow> ticks p \<le> ticks (ps ! k)) \<and>
     (\<forall>j < k. proc_state (ps ! j) = RUNNABLE \<longrightarrow> ticks (ps ! j) < ticks (ps ! k)))"

lemma sched_scan_zero:
  "sched_scan ps 0 0 r = (g, r') \<Longrightarrow> (g = 0 \<longleftrightarrow> \<not> has_ticks ps) \<and> (g = 0 \<longrightarrow> r' = r)"
  using sched_scan_spec [of ps 0 0 r g r'] by (fastforce simp: has_ticks_def in_set_conv_nth)

lemma sched_scan_choice:
  "has_ticks ps \<Longrightarrow> sched_scan ps 0 0 r = (g, r') \<Longrightarrow> g \<noteq> 0 \<and> is_choice ps r'"
  using sched_scan_spec [of ps 0 0 r g r'] sched_scan_zero [of ps r g r']
  by (auto simp: is_choice_def)

lemma schedule_ready:
  assumes "has_ticks (proc_table s)"
  shows "\<exists>r. schedule s = Some (s\<lparr>p_proc_ready := r\<rparr>) \<and> is_choice (proc_table s) r"
proof -
  obtain g r where scan: "sched_scan (proc_table s) 0 0 (p_proc_ready s) = (g, r)" by fastforce
  with sched_scan_choice [OF assms scan] show ?thesis
    by (intro exI [of _ r]) (subst schedule.simps, simp)
qed

lemma has_ticks_refill: "has_ticks (sched_refill ps) \<longleftrightarrow> has_priority ps"
  by (auto simp: has_ticks_def has_priority_def sched_refill_def simp del: if_image_distrib)

lemma has_priority_refill: "has_priority (sched_refill ps) \<longleftrightarrow> has_priority ps"
  by (auto simp: has_priority_def sched_refill_def simp del: if_image_distrib)

lemma schedule_refills:
  assumes "\<not> has_ticks (proc_table s)"
  shows "schedule s = schedule (s\<lparr>proc_table := sched_refill (proc_table s)\<rparr>)"
proof -
  obtain g r where scan: "sched_scan (proc_table s) 0 0 (p_proc_ready s) = (g, r)" by fastforce
  with sched_scan_zero [OF scan] assms show ?thesis by (subst schedule.simps) simp
qed

text \<open>With nothing to refill the loop never ends: no result can be derived for such a state.\<close>

lemma schedule_stuck:
  assumes "schedule s = Some s'"
  shows "has_ticks (proc_table s) \<or> has_priority (proc_table s)"
proof (rule schedule.raw_induct [where P = "\<lambda>s s'. has_ticks (proc_table s) \<or> has_priority (proc_table s)",
      OF _ assms])
  fix f s s'
  assume IH: "\<And>s s'. f s = Some s' \<Longrightarrow> has_ticks (proc_table s) \<or> has_priority (proc_table s)"
    and eq: "(case sched_scan (proc_table s) 0 0 (p_proc_ready s) of (g, r) \<Rightarrow>
        if g \<noteq> 0 then Some (s\<lparr>p_proc_ready := r\<rparr>)
        else f (s\<lparr>p_proc_ready := r, proc_table := sched_refill (proc_table s)\<rparr>)) = Some s'"
  obtain g r where scan: "sched_scan (proc_table s) 0 0 (p_proc_ready s) = (g, r)" by fastforce
  show "has_ticks (proc_table s) \<or> has_priority (proc_table s)"
  proof (cases "g = 0")
    case True
    with eq scan have "f (s\<lparr>p_proc_ready := r, proc_table := sched_refill (proc_table s)\<rparr>) = Some s'"
      by simp
    from IH [OF this] show ?thesis by (auto simp: has_ticks_refill has_priority_refill)
  next
    case False
    with sched_scan_zero [OF scan] show ?thesis by simp
  qed
qed

text \<open>C8: \<^verbatim>\<open>schedule\<close> returns exactly when a runnable process has ticks left or a positive priority.
  It then makes current the runnable process with the most ticks (the first in the table on a tie);
  it refills the ticks from the priorities only when every runnable process has used its ticks up, and
  changes nothing else.\<close>

theorem schedule_correct:
  "(has_ticks (proc_table s) \<longrightarrow>
      (\<exists>r. schedule s = Some (s\<lparr>p_proc_ready := r\<rparr>) \<and> is_choice (proc_table s) r)) \<and>
   (\<not> has_ticks (proc_table s) \<and> has_priority (proc_table s) \<longrightarrow>
      (\<exists>r. schedule s = Some (s\<lparr>proc_table := sched_refill (proc_table s), p_proc_ready := r\<rparr>) \<and>
           is_choice (sched_refill (proc_table s)) r)) \<and>
   (\<not> has_ticks (proc_table s) \<and> \<not> has_priority (proc_table s) \<longrightarrow> schedule s = None)"
proof (intro conjI impI)
  assume "\<not> has_ticks (proc_table s) \<and> has_priority (proc_table s)"
  then show "\<exists>r. schedule s = Some (s\<lparr>proc_table := sched_refill (proc_table s), p_proc_ready := r\<rparr>) \<and>
      is_choice (sched_refill (proc_table s)) r"
    using schedule_ready [of "s\<lparr>proc_table := sched_refill (proc_table s)\<rparr>"]
    by (simp add: schedule_refills has_ticks_refill)
next
  assume "\<not> has_ticks (proc_table s) \<and> \<not> has_priority (proc_table s)"
  then show "schedule s = None" using schedule_stuck [of s] by (cases "schedule s") auto
qed (rule schedule_ready)

definition sample_sched :: kernel where
  "sample_sched = \<lparr>gdt = [], proc_table = [zero_proc\<lparr>ticks := 3\<rparr>, zero_proc\<lparr>ticks := 7\<rparr>, zero_proc\<lparr>ticks := 7\<rparr>],
     beyond = (\<lambda>_. zero_proc), p_proc_ready = 0, nested_int = 0, sys_ticks = 0, key_pressed = 0, kmem = (\<lambda>_. 0),
     screen = \<lparr>console_table = [], current_console = 0, vram = (\<lambda>_. 0), outs = []\<rparr>\<rparr>"

theorem schedule_correct_witness:
  "has_ticks (proc_table sample_sched) \<and> schedule sample_sched = Some (sample_sched\<lparr>p_proc_ready := 1\<rparr>)"
proof -
  have h: "has_ticks (proc_table sample_sched)" by (simp add: has_ticks_def sample_sched_def zero_proc_def)
  have "r = 1" if "is_choice (proc_table sample_sched) r" for r
  proof -
    let ?ps = "[zero_proc\<lparr>ticks := 3\<rparr>, zero_proc\<lparr>ticks := 7\<rparr>, zero_proc\<lparr>ticks := 7\<rparr>]"
    from that obtain k where k: "k < 3" "r = int k" "\<forall>p \<in> set ?ps. proc_state p = RUNNABLE \<longrightarrow> ticks p \<le> ticks (?ps ! k)"
      "\<forall>j < k. proc_state (?ps ! j) = RUNNABLE \<longrightarrow> ticks (?ps ! j) < ticks (?ps ! k)"
      by (auto simp: is_choice_def sample_sched_def)
    from k(1) consider "k = 0" | "k = 1" | "k = 2" by linarith
    then show ?thesis
    proof cases
      case 3
      with k(4) have "proc_state (?ps ! 1) = RUNNABLE \<longrightarrow> ticks (?ps ! 1) < ticks (?ps ! 2)" by (metis one_less_numeral_iff semiring_norm(76))
      then have "ticks (?ps ! 1) < ticks (?ps ! 2)" by (simp add: zero_proc_def)
      then show ?thesis by simp
    qed (use k in \<open>simp_all add: zero_proc_def\<close>)
  qed
  then show ?thesis using schedule_correct [of sample_sched] h by auto
qed

end
