(* ===== verification/Boot.thy ===== *)
theory Boot
  imports Proc
begin

text \<open>
  Start-up of the process table: the boot parameters and the extent of the kernel image
  (\<^verbatim>\<open>get_boot_params\<close>, \<^verbatim>\<open>get_kernel_mem_range\<close> of \<^verbatim>\<open>src/kernel/klib.c\<close>), \<^verbatim>\<open>init_ldt_desc\<close> of
  \<^verbatim>\<open>src/kernel/descriptor.c\<close>, and \<^verbatim>\<open>init_process\<close> of \<^verbatim>\<open>src/kernel/process.c\<close> over the tables of
  \<^verbatim>\<open>src/kernel/global.c\<close>. Addresses the linker chooses (entry points, the task stacks, the address of the
  process table) are parameters.
\<close>

unbundle bit_operations_syntax

section \<open>Boot parameters\<close>

record boot_params =
  total_ram_size :: u32
  kernel_start_addr :: u32

abbreviation (input) BOOT_PARAM_ADDR where "BOOT_PARAM_ADDR \<equiv> 0x900 :: u32"
abbreviation (input) BOOT_PARAM_MAGIC where "BOOT_PARAM_MAGIC \<equiv> 0xB007 :: u32"
abbreviation (input) ELFMAG where "ELFMAG \<equiv> [127, 69, 76, 70] :: u8 list"

definition get_boot_params :: "mem \<Rightarrow> boot_params outcome" where
  "get_boot_params m =
     c_assert (rd32 m BOOT_PARAM_ADDR = BOOT_PARAM_MAGIC)
       (let bp = \<lparr>total_ram_size = rd32 m (BOOT_PARAM_ADDR + 4), kernel_start_addr = rd32 m (BOOT_PARAM_ADDR + 8)\<rparr>
        in c_assert (kernel_start_addr bp \<noteq> 0 \<and> read_bytes m (kernel_start_addr bp) 4 = ELFMAG) (Inr bp))"

definition rd16 :: "mem \<Rightarrow> u32 \<Rightarrow> u16" where
  "rd16 m a = ucast (m a) OR push_bit 8 (ucast (m (a + 1)))"

abbreviation (input) SHF_ALLOC where "SHF_ALLOC \<equiv> 2 :: u32"

fun range_loop :: "mem \<Rightarrow> u32 \<Rightarrow> u32 \<Rightarrow> nat \<Rightarrow> u32 \<Rightarrow> u32 \<Rightarrow> u32 \<times> u32" where
  "range_loop m sh entsize 0 base topmost = (base, topmost)"
| "range_loop m sh entsize (Suc n) base topmost =
     (if rd32 m (sh + 8) AND SHF_ALLOC \<noteq> 0 then
        (let bottom = rd32 m (sh + 12); top = rd32 m (sh + 12) + rd32 m (sh + 20)
         in range_loop m (sh + entsize) entsize n
              (if base > bottom then bottom else base) (if topmost < top then top else topmost))
      else range_loop m (sh + entsize) entsize n base topmost)"

text \<open>Base and limit of the kernel image, from the section headers of its ELF file in memory.\<close>

definition get_kernel_mem_range :: "mem \<Rightarrow> (int \<times> u32 \<times> u32) outcome" where
  "get_kernel_mem_range m =
     obind (get_boot_params m) (\<lambda>bp.
       if \<not> (kernel_start_addr bp \<noteq> 0 \<and> read_bytes m (kernel_start_addr bp) 4 = ELFMAG) then Inr (-1, 0, 0)
       else let hdr = kernel_start_addr bp;
           e_shoff = rd32 m (hdr + 32);
           e_shentsize = ucast (rd16 m (hdr + 46)) :: u32;
           e_shnum = unat (rd16 m (hdr + 48));
           (base, topmost) = range_loop m (hdr + e_shoff) e_shentsize e_shnum (- 1) 0
       in c_assert (base < topmost) (Inr (0, base, topmost - base - 1)))"

section \<open>Filling the process table\<close>

text \<open>Clear each process, give it its selector, and describe its local table in the GDT.\<close>

definition init_ldt_step :: "(int \<Rightarrow> u32) \<Rightarrow> int \<Rightarrow> kernel \<Rightarrow> kernel outcome" where
  "init_ldt_step ldts_addr i s =
     (let s1 = put_proc s i (zero_proc\<lparr>ldt_sel := SELECTOR_LDT_FIRST + push_bit 3 (word_of_int i)\<rparr>)
      in c_assert (int INDEX_LDT_FIRST + i < int GDT_SIZE)
           (Inr (s1\<lparr>gdt := (gdt s1)[INDEX_LDT_FIRST + nat i :=
              make_gdt_desc (get_linear_addr (gdt s1) SELECTOR_KERNEL_DS (ldts_addr i)) (2 * 8 - 1) DA_LDT]\<rparr>)))"

fun init_ldt_loop :: "(int \<Rightarrow> u32) \<Rightarrow> int list \<Rightarrow> kernel \<Rightarrow> kernel outcome" where
  "init_ldt_loop ldts_addr [] s = Inr s"
| "init_ldt_loop ldts_addr (i # is) s = obind (init_ldt_step ldts_addr i s) (init_ldt_loop ldts_addr is)"

definition init_ldt_desc :: "(int \<Rightarrow> u32) \<Rightarrow> kernel \<Rightarrow> kernel outcome" where
  "init_ldt_desc ldts_addr s = init_ldt_loop ldts_addr [0..NR_TASKS_NATIVE + NR_PROCS_MAX - 1] s"

text \<open>A task: the symbol of its entry point, its stack size and its name.\<close>

record task =
  initial_eip :: string
  stacksize :: u32
  task_name :: string

abbreviation (input) STACK_SIZE_DEFAULT where "STACK_SIZE_DEFAULT \<equiv> 0x4000 :: u32"

definition task_table :: "task list" where
  "task_table = map (\<lambda>(e, n). \<lparr>initial_eip = e, stacksize = STACK_SIZE_DEFAULT, task_name = n\<rparr>)
     [(''task_tty'', ''TTY''), (''task_sys'', ''SYS''), (''task_hd'', ''HD''), (''task_fs'', ''FS''),
      (''task_pm'', ''PM'')]"

definition user_proc_table :: "task list" where
  "user_proc_table = map (\<lambda>(e, n). \<lparr>initial_eip = e, stacksize = STACK_SIZE_DEFAULT, task_name = n\<rparr>)
     [(''Init'', ''INIT''), (''APP1'', ''APP1''), (''APP2'', ''APP2''), (''APP3'', ''APP3'')]"

definition str_bytes :: "string \<Rightarrow> u8 list" where
  "str_bytes = map of_char"

abbreviation (input) SELECTOR_KERNEL_GS where "SELECTOR_KERNEL_GS \<equiv> 0x1B :: u32"

text \<open>The two segments of a process that is not \<^verbatim>\<open>INIT\<close>: the flat kernel segments at its own privilege.\<close>

definition native_ldts :: "kernel \<Rightarrow> u8 \<Rightarrow> gdt_desc list" where
  "native_ldts s priv =
     [(gdt s ! 1)\<lparr>attr1 := DA_C OR push_bit 5 priv\<rparr>, (gdt s ! 2)\<lparr>attr1 := DA_DRW OR push_bit 5 priv\<rparr>]"

definition init_ldts :: "u32 \<times> u32 \<Rightarrow> u16 \<Rightarrow> gdt_desc list" where
  "init_ldts rng priv = (case rng of (k_base, k_limit) \<Rightarrow>
     [make_gdt_desc 0 (drop_bit 12 (k_base + k_limit)) (DA_32 OR DA_LIMIT_4K OR DA_C OR push_bit 5 priv),
      make_gdt_desc 0 (drop_bit 12 (k_base + k_limit)) (DA_32 OR DA_LIMIT_4K OR DA_DRW OR push_bit 5 priv)])"

definition fill_proc ::
  "proc \<Rightarrow> task \<Rightarrow> gdt_desc list \<Rightarrow> u32 \<Rightarrow> (string \<Rightarrow> u32) \<Rightarrow> u32 \<Rightarrow> u32 \<Rightarrow> int \<Rightarrow> proc" where
  "fill_proc p t segs rpl entry stk eflags prio =
     p\<lparr>name := str_bytes (task_name t), p_parent := NO_TASK, ldts := segs,
       regs := (regs p)\<lparr>cs_reg := push_bit 3 0 OR 4 OR rpl,
         ds_reg := push_bit 3 1 OR 4 OR rpl, es_reg := push_bit 3 1 OR 4 OR rpl,
         fs_reg := push_bit 3 1 OR 4 OR rpl, ss_reg := push_bit 3 1 OR 4 OR rpl,
         gs_reg := (SELECTOR_KERNEL_GS AND 0xFFFC) OR rpl, eip_reg := entry (initial_eip t),
         esp_reg := stk, eflags_reg := eflags\<rparr>,
       ticks := prio, priority := prio, proc_state := RUNNABLE, pending_msg := 0,
       pid_recvingfrom := NO_TASK, pid_sendingto := NO_TASK, has_int_msg := 0, q_pending_proc := None,
       file_desc := replicate 64 None\<rparr>"

definition init_process_step ::
  "(string \<Rightarrow> u32) \<Rightarrow> int \<Rightarrow> kernel \<times> u32 \<Rightarrow> (kernel \<times> u32) outcome" where
  "init_process_step entry i = (\<lambda>(s, stk).
     if i \<ge> NR_TASKS_NATIVE + NR_PROCS_NATIVE
     then Inr (put_proc s i ((proc_at s i)\<lparr>proc_state := FREE_SLOT\<rparr>), stk)
     else
       let is_task = i < NR_TASKS_NATIVE;
           t = (if is_task then task_table ! nat i else user_proc_table ! nat (i - NR_TASKS_NATIVE));
           priv = (if is_task then PRIVILEGE_TASK else PRIVILEGE_USER);
           rpl = (if is_task then 1 else 3);
           eflags = (if is_task then 0x1202 else 0x202);
           prio = (if is_task then 15 else 5)
       in obind (if task_name t \<noteq> ''INIT'' then Inr (native_ldts s priv)
                 else obind (get_kernel_mem_range (kmem s)) (\<lambda>(ret, rng).
                        c_assert (ret = 0) (Inr (init_ldts rng (ucast priv)))))
          (\<lambda>segs. Inr (put_proc s i (fill_proc (proc_at s i) t segs rpl entry stk eflags prio),
                       stk - stacksize t)))"

fun init_process_loop ::
  "(string \<Rightarrow> u32) \<Rightarrow> int list \<Rightarrow> kernel \<times> u32 \<Rightarrow> (kernel \<times> u32) outcome" where
  "init_process_loop entry [] ss = Inr ss"
| "init_process_loop entry (i # is) ss = obind (init_process_step entry i ss) (init_process_loop entry is)"

definition init_process :: "(string \<Rightarrow> u32) \<Rightarrow> u32 \<Rightarrow> kernel \<Rightarrow> kernel outcome" where
  "init_process entry stk s =
     obind (init_process_loop entry [0..NR_TASKS_NATIVE + NR_PROCS_MAX - 1] (s, stk))
       (\<lambda>(s', _). Inr (s'\<lparr>nested_int := 0, sys_ticks := 0, p_proc_ready := 0\<rparr>))"

section \<open>What start-up establishes\<close>

lemma task_stacksize:
  "0 \<le> i \<Longrightarrow> i < 5 \<Longrightarrow> stacksize (task_table ! nat i) = STACK_SIZE_DEFAULT"
  "5 \<le> i \<Longrightarrow> i < 9 \<Longrightarrow> stacksize (user_proc_table ! nat (i - 5)) = STACK_SIZE_DEFAULT"
proof -
  have "\<forall>t \<in> set (task_table @ user_proc_table). stacksize t = STACK_SIZE_DEFAULT"
    by (simp add: task_table_def user_proc_table_def)
  moreover have "length task_table = 5" "length user_proc_table = 4"
    by (simp_all add: task_table_def user_proc_table_def)
  ultimately show "0 \<le> i \<Longrightarrow> i < 5 \<Longrightarrow> stacksize (task_table ! nat i) = STACK_SIZE_DEFAULT"
    "5 \<le> i \<Longrightarrow> i < 9 \<Longrightarrow> stacksize (user_proc_table ! nat (i - 5)) = STACK_SIZE_DEFAULT"
    by (simp_all add: nat_less_iff)
qed

definition native_task :: "int \<Rightarrow> task" where
  "native_task i = (if i < NR_TASKS_NATIVE then task_table ! nat i else user_proc_table ! nat (i - NR_TASKS_NATIVE))"

definition native_rpl :: "int \<Rightarrow> u32" where
  "native_rpl i = (if i < NR_TASKS_NATIVE then 1 else 3)"

definition native_prio :: "int \<Rightarrow> int" where
  "native_prio i = (if i < NR_TASKS_NATIVE then 15 else 5)"

text \<open>The contents of a native slot after start-up, \<open>esp\<close> being its top of stack.\<close>

definition booted_native :: "(string \<Rightarrow> u32) \<Rightarrow> int \<Rightarrow> u32 \<Rightarrow> proc \<Rightarrow> proc \<Rightarrow> bool" where
  "booted_native entry i esp p0 p \<longleftrightarrow>
     (\<exists>segs. p = fill_proc p0 (native_task i) segs (native_rpl i) entry esp
                 (if i < NR_TASKS_NATIVE then 0x1202 else 0x202) (native_prio i))"

lemma init_process_step_native:
  assumes "0 \<le> i" "i < 9" "init_process_step entry i (s, stk) = Inr (s', stk')"
  shows "\<exists>p. s' = put_proc s i p \<and> booted_native entry i stk (proc_at s i) p \<and> stk' = stk - STACK_SIZE_DEFAULT"
proof -
  have sz: "stacksize (native_task i) = STACK_SIZE_DEFAULT"
    using assms(1, 2) task_stacksize [of i] by (simp add: native_task_def)
  from assms(2, 3) obtain segs where
    "s' = put_proc s i (fill_proc (proc_at s i) (native_task i) segs (native_rpl i) entry stk
       (if i < NR_TASKS_NATIVE then 0x1202 else 0x202) (native_prio i))" "stk' = stk - stacksize (native_task i)"
    by (auto simp: init_process_step_def Let_def outcome_iffs native_task_def native_rpl_def native_prio_def
        split: if_splits)
  then show ?thesis by (auto simp: sz booted_native_def)
qed

lemma init_process_step_free:
  "9 \<le> i \<Longrightarrow> init_process_step entry i (s, stk) = Inr (put_proc s i ((proc_at s i)\<lparr>proc_state := FREE_SLOT\<rparr>), stk)"
  by (simp add: init_process_step_def)

text \<open>A slot after start-up, \<open>stk\<close> being the stack of slot \<open>k\<close>.\<close>

definition booted :: "(string \<Rightarrow> u32) \<Rightarrow> int \<Rightarrow> u32 \<Rightarrow> int \<Rightarrow> proc \<Rightarrow> proc \<Rightarrow> bool" where
  "booted entry k stk i p0 p \<longleftrightarrow>
     (if i < NR_TASKS_NATIVE + NR_PROCS_NATIVE
      then booted_native entry i (stk - word_of_int (i - k) * STACK_SIZE_DEFAULT) p0 p
      else p = p0\<lparr>proc_state := FREE_SLOT\<rparr>)"

lemma init_process_step_booted:
  assumes "0 \<le> k" "init_process_step entry k (s, stk) = Inr (s1, stk1)"
  shows "\<exists>p. s1 = put_proc s k p \<and> booted entry k stk k (proc_at s k) p"
    and "booted entry (k + 1) stk1 i p0 p \<Longrightarrow> k < i \<Longrightarrow> booted entry k stk i p0 p"
proof -
  show "\<exists>p. s1 = put_proc s k p \<and> booted entry k stk k (proc_at s k) p"
    using assms init_process_step_native [of k entry s stk s1 stk1] init_process_step_free [of k entry s stk]
    by (cases "k < 9") (auto simp: booted_def)
  have "stk1 = stk - STACK_SIZE_DEFAULT" if "k < 9"
    using that assms init_process_step_native [of k entry s stk s1 stk1] by auto
  then show "booted entry (k + 1) stk1 i p0 p \<Longrightarrow> k < i \<Longrightarrow> booted entry k stk i p0 p"
    by (auto simp: booted_def algebra_simps split: if_splits)
qed

lemma init_process_loop_spec:
  assumes "0 \<le> k" "init_process_loop entry [k..36] (s, stk) = Inr (s', stk')"
  shows "length (proc_table s') = length (proc_table s) \<and> (i < k \<longrightarrow> proc_at s' i = proc_at s i) \<and>
    (k \<le> i \<and> i \<le> 36 \<longrightarrow> booted entry k stk i (proc_at s i) (proc_at s' i))"
  using assms
proof (induction "nat (37 - k)" arbitrary: k s stk)
  case 0
  then show ?case by auto
next
  case (Suc n)
  then have k: "k \<le> 36" by simp
  then have up: "[k..36] = k # [k + 1..36]" by (rule upto_rec1)
  with Suc.prems obtain s1 stk1 where st: "init_process_step entry k (s, stk) = Inr (s1, stk1)"
    and lp: "init_process_loop entry [k + 1..36] (s1, stk1) = Inr (s', stk')"
    by (auto simp: outcome_iffs)
  have IH: "length (proc_table s') = length (proc_table s1)" "i < k + 1 \<longrightarrow> proc_at s' i = proc_at s1 i"
    "k + 1 \<le> i \<and> i \<le> 36 \<longrightarrow> booted entry (k + 1) stk1 i (proc_at s1 i) (proc_at s' i)"
    using Suc.hyps(1) [OF _ _ lp] Suc.hyps(2) Suc.prems(1) by auto
  obtain p where p: "s1 = put_proc s k p" "booted entry k stk k (proc_at s k) p"
    using init_process_step_booted(1) [OF Suc.prems(1) st] by blast
  show ?case
  proof (cases "i = k")
    case False
    then show ?thesis using IH p(1) init_process_step_booted(2) [OF Suc.prems(1) st] by auto
  qed (use IH p in auto)
qed

lemma init_process_spec:
  assumes "init_process entry stk s = Inr s'"
  shows "length (proc_table s') = length (proc_table s)"
    and "valid_pid i \<Longrightarrow> booted entry 0 stk i (proc_at s i) (proc_at s' i)"
    and "p_proc_ready s' = 0" "nested_int s' = 0" "sys_ticks s' = 0"
proof -
  from assms obtain s1 stk1 where lp: "init_process_loop entry [0..36] (s, stk) = Inr (s1, stk1)"
    and s': "s' = s1\<lparr>nested_int := 0, sys_ticks := 0, p_proc_ready := 0\<rparr>"
    by (auto simp: init_process_def outcome_iffs)
  note sp = init_process_loop_spec [OF _ lp, simplified]
  show "length (proc_table s') = length (proc_table s)" using sp [of 0] by (simp add: s')
  show "valid_pid i \<Longrightarrow> booted entry 0 stk i (proc_at s i) (proc_at s' i)"
    using sp [of i] by (simp add: s')
  show "p_proc_ready s' = 0" "nested_int s' = 0" "sys_ticks s' = 0" by (simp_all add: s')
qed

section \<open>The extent of the kernel image\<close>

definition sect_header :: "mem \<Rightarrow> u32 \<Rightarrow> nat \<Rightarrow> u32" where
  "sect_header m hdr j = hdr + rd32 m (hdr + 32) + of_nat j * ucast (rd16 m (hdr + 46))"

lemma range_loop_mono:
  "range_loop m sh es n base tm = (b, t) \<Longrightarrow> b \<le> base \<and> tm \<le> t"
  by (induction n arbitrary: sh base tm) (fastforce simp: Let_def split: if_splits)+

lemma range_loop_covers:
  assumes "range_loop m sh es n base tm = (b, t)" "j < n"
    "rd32 m (sh + of_nat j * es + 8) AND SHF_ALLOC \<noteq> 0"
  shows "b \<le> rd32 m (sh + of_nat j * es + 12) \<and>
    rd32 m (sh + of_nat j * es + 12) + rd32 m (sh + of_nat j * es + 20) \<le> t"
  using assms
proof (induction n arbitrary: j sh base tm)
  case (Suc n)
  show ?case
  proof (cases j)
    case 0
    with Suc.prems show ?thesis
      using range_loop_mono [of m "sh + es" es n] by (fastforce simp: Let_def not_less split: if_splits)
  next
    case (Suc i)
    have eq: "sh + of_nat j * es = sh + es + of_nat i * es" by (simp add: Suc algebra_simps)
    from Suc.prems \<open>j = Suc i\<close> show ?thesis
      unfolding eq by (auto simp: Let_def dest: Suc.IH split: if_splits)
  qed
qed simp

text \<open>C12: When \<^verbatim>\<open>get_kernel_mem_range\<close> succeeds, the range it returns contains every section of the kernel
  image that occupies memory: each section with the \<^verbatim>\<open>SHF_ALLOC\<close> flag starts at or after the base and
  ends at or before base + limit + 1. The INIT process is given exactly this range.\<close>

theorem kernel_range_covers:
  assumes "get_kernel_mem_range m = Inr (0, base, limit)"
    and "j < unat (rd16 m (rd32 m (BOOT_PARAM_ADDR + 8) + 48))"
    and "sh = sect_header m (rd32 m (BOOT_PARAM_ADDR + 8)) j"
    and "rd32 m (sh + 8) AND SHF_ALLOC \<noteq> 0"
  shows "base \<le> rd32 m (sh + 12) \<and> rd32 m (sh + 12) + rd32 m (sh + 20) \<le> base + limit + 1"
proof -
  let ?hdr = "rd32 m (BOOT_PARAM_ADDR + 8)"
  from assms(1) obtain tm where
    "range_loop m (?hdr + rd32 m (?hdr + 32)) (ucast (rd16 m (?hdr + 46))) (unat (rd16 m (?hdr + 48))) (- 1) 0 = (base, tm)"
    "limit = tm - base - 1"
    by (auto simp: get_kernel_mem_range_def get_boot_params_def outcome_iffs Let_def
        split: if_splits prod.splits)
  then show ?thesis
    using range_loop_covers [of m "?hdr + rd32 m (?hdr + 32)" _ _ "- 1" 0 base tm j] assms(2-4)
    by (auto simp: sect_header_def)
qed

text \<open>A small machine: boot parameters at \<^verbatim>\<open>0x900\<close> and an ELF header at \<^verbatim>\<open>0x1000\<close> with one section.\<close>

fun write_at :: "(u32 \<times> u8 list) list \<Rightarrow> mem" where
  "write_at [] = (\<lambda>_. 0)"
| "write_at ((a, bs) # ws) = (\<lambda>x. if unat (x - a) < length bs then bs ! unat (x - a) else write_at ws x)"

definition sample_mem :: mem where
  "sample_mem = write_at [(0x900, [7, 0xB0, 0, 0, 0, 0, 0, 2, 0, 0x10, 0, 0]), (0x1000, ELFMAG), (0x1020, [0, 1]),
     (0x102E, [40, 0, 1, 0]), (0x1108, [2, 0, 0, 0, 0, 0x10, 0, 0]), (0x1114, [0, 2])]"

lemma sample_reads:
  "rd32 sample_mem 0x900 = BOOT_PARAM_MAGIC" "rd32 sample_mem 0x908 = 0x1000" "rd32 sample_mem 0x1020 = 0x100"
  "rd16 sample_mem 0x102E = 40" "rd16 sample_mem 0x1030 = 1" "rd32 sample_mem 0x1108 = 2"
  "rd32 sample_mem 0x110C = 0x1000" "rd32 sample_mem 0x1114 = 0x200"
  by (simp_all add: sample_mem_def rd32_def rd16_def)

lemma sample_magic: "read_bytes sample_mem 0x1000 4 = ELFMAG"
  by code_simp

lemma sample_range: "get_kernel_mem_range sample_mem = Inr (0, 0x1000, 0x1FF)"
  by (simp add: get_kernel_mem_range_def get_boot_params_def sample_reads sample_magic)

theorem kernel_range_covers_witness:
  "get_kernel_mem_range sample_mem = Inr (0, 0x1000, 0x1FF) \<and> 0x1000 + 0x200 \<le> (0x1000 + 0x1FF + 1 :: u32)"
proof -
  have "0x1000 \<le> rd32 sample_mem (0x1100 + 12) \<and>
      rd32 sample_mem (0x1100 + 12) + rd32 sample_mem (0x1100 + 20) \<le> 0x1000 + 0x1FF + 1"
    by (rule kernel_range_covers [OF sample_range, of 0]) (simp_all add: sample_reads sect_header_def)
  then show ?thesis by (simp add: sample_range sample_reads)
qed

section \<open>The process table at start-up\<close>

text \<open>C11: When \<^verbatim>\<open>init_process\<close> returns, the nine native processes are runnable, with full ticks (15 for a
  task, 5 for a user process), their own entry point, no message state, no open file and stacks
  16 KB apart below the tm of the task stacks; all 28 other slots are free, and the first task is
  current.\<close>

theorem boot_process_table:
  assumes "init_process entry stk s = Inr s'" and "length (proc_table s) = NR_PROC_SLOTS"
  shows "(\<forall>i p. 0 \<le> i \<and> i < NR_TASKS_NATIVE + NR_PROCS_NATIVE \<and> p = proc_at s' i \<longrightarrow>
       proc_state p = RUNNABLE \<and> ticks p = priority p \<and> priority p = (if i < NR_TASKS_NATIVE then 15 else 5) \<and>
       eip_reg (regs p) = entry (initial_eip (if i < NR_TASKS_NATIVE then task_table ! nat i
                                   else user_proc_table ! nat (i - NR_TASKS_NATIVE))) \<and>
       esp_reg (regs p) = stk - word_of_int i * STACK_SIZE_DEFAULT \<and>
       pending_msg p = 0 \<and> pid_recvingfrom p = NO_TASK \<and> pid_sendingto p = NO_TASK \<and> has_int_msg p = 0 \<and>
       q_pending_proc p = None \<and> file_desc p = replicate 64 None \<and> p_parent p = NO_TASK) \<and>
     (\<forall>i. NR_TASKS_NATIVE + NR_PROCS_NATIVE \<le> i \<and> i < NR_TASKS_NATIVE + NR_PROCS_MAX \<longrightarrow>
       proc_state (proc_at s' i) = FREE_SLOT) \<and>
     p_proc_ready s' = 0 \<and> nested_int s' = 0 \<and> sys_ticks s' = 0 \<and> length (proc_table s') = NR_PROC_SLOTS"
proof -
  note sp = init_process_spec [OF assms(1)]
  have b: "booted entry 0 stk i (proc_at s i) (proc_at s' i)" if "0 \<le> i" "i < 37" for i
    using sp(2) [of i] that by simp
  have native: "proc_state (proc_at s' i) = RUNNABLE" "ticks (proc_at s' i) = priority (proc_at s' i)"
    "priority (proc_at s' i) = (if i < NR_TASKS_NATIVE then 15 else 5)"
    "eip_reg (regs (proc_at s' i)) = entry (initial_eip (native_task i))"
    "esp_reg (regs (proc_at s' i)) = stk - word_of_int i * STACK_SIZE_DEFAULT"
    "pending_msg (proc_at s' i) = 0" "pid_recvingfrom (proc_at s' i) = NO_TASK" "pid_sendingto (proc_at s' i) = NO_TASK"
    "has_int_msg (proc_at s' i) = 0" "q_pending_proc (proc_at s' i) = None"
    "file_desc (proc_at s' i) = replicate 64 None" "p_parent (proc_at s' i) = NO_TASK"
    if i: "0 \<le> i" "i < 9" for i
    using b [of i] i by (auto simp: booted_def booted_native_def fill_proc_def native_prio_def)
  have free: "proc_state (proc_at s' i) = FREE_SLOT" if "9 \<le> i" "i < 37" for i
    using b [of i] that by (simp add: booted_def)
  show ?thesis
    using sp(1, 3-5) assms(2) free by (auto simp: native native_task_def)
qed

definition sample_machine :: kernel where
  "sample_machine = \<lparr>gdt = replicate 128 zero_gdt_desc, proc_table = replicate 37 zero_proc, beyond = (\<lambda>_. zero_proc),
     p_proc_ready = 0, nested_int = 0, sys_ticks = 0, key_pressed = 0, kmem = sample_mem,
     screen = \<lparr>console_table = [init_console 0, init_console 1, init_console 2], current_console = 0,
               vram = (\<lambda>_. 0), outs = []\<rparr>\<rparr>"

lemma sample_boots: "\<exists>s'. init_process (\<lambda>_. 0x1000) 0x50000 sample_machine = Inr s'"
proof -
  have "\<exists>ss'. init_process_loop entry is (s, stk) = Inr ss'" if "kmem s = sample_mem" for entry "is" s stk
    using that
  proof (induction "is" arbitrary: s stk)
    case (Cons i "is")
    have "\<exists>s1 stk1. init_process_step entry i (s, stk) = Inr (s1, stk1) \<and> kmem s1 = sample_mem"
      using Cons.prems by (simp add: init_process_step_def Let_def sample_range)
    with Cons.IH show ?case by fastforce
  qed simp
  moreover have "kmem sample_machine = sample_mem" by (simp add: sample_machine_def)
  ultimately obtain s1 stk1 where "init_process_loop (\<lambda>_. 0x1000) [0..36] (sample_machine, 0x50000) = Inr (s1, stk1)"
    by (metis surj_pair)
  then show ?thesis by (simp add: init_process_def)
qed

theorem boot_process_table_witness:
  "\<exists>s'. init_process (\<lambda>_. 0x1000) 0x50000 sample_machine = Inr s' \<and> proc_state (proc_at s' 5) = RUNNABLE \<and>
     esp_reg (regs (proc_at s' 5)) = 0x50000 - 5 * 0x4000 \<and> proc_state (proc_at s' 20) = FREE_SLOT"
proof -
  obtain s' where s': "init_process (\<lambda>_. 0x1000) 0x50000 sample_machine = Inr s'" using sample_boots by blast
  have "length (proc_table sample_machine) = NR_PROC_SLOTS" by (simp add: sample_machine_def)
  from boot_process_table [OF s' this] s' show ?thesis by auto
qed

end
