(* ===== verification/Ipc.thy ===== *)
theory Ipc
  imports Boot
begin

text \<open>
  Message passing: \<^verbatim>\<open>src/kernel/ipc.c\<close> with the message layout of \<^verbatim>\<open>src/include/sys/ipc.h\<close>, the user
  side \<^verbatim>\<open>ipc_msg_send_rcv\<close> of \<^verbatim>\<open>src/lib/sys/ipc.c\<close>, \<^verbatim>\<open>sys_printx\<close> and \<^verbatim>\<open>wake_up_tty\<close> of
  \<^verbatim>\<open>src/task/task_tty.c\<close> and the clock interrupt of \<^verbatim>\<open>src/device/timer.c\<close>.

  A message is 48 bytes of memory; a \<^verbatim>\<open>message*\<close> is its address. A process pointer is its index. A
  system call is one step of the caller: it returns the new state and the C result, or the failure
  that stops the machine. A call that blocks returns as well, with another process current: what the
  caller continues with is its own next step, after it is runnable again.
\<close>

unbundle bit_operations_syntax

section \<open>Messages\<close>

abbreviation (input) MSG_SIZE where "MSG_SIZE \<equiv> 48 :: u32"
abbreviation (input) SEND where "SEND \<equiv> 1 :: int"
abbreviation (input) RECEIVE where "RECEIVE \<equiv> 2 :: int"
abbreviation (input) SEND_RECEIVE where "SEND_RECEIVE \<equiv> 3 :: int"
abbreviation (input) HW_INT where "HW_INT \<equiv> 1 :: u32"
abbreviation (input) PRINTX where "PRINTX \<equiv> 14 :: u32"
abbreviation (input) MAX_TICKS where "MAX_TICKS \<equiv> 0x7FFFABCD :: int"

definition msg_source :: "mem \<Rightarrow> u32 \<Rightarrow> int" where
  "msg_source mm m = sint (rd32 mm m)"

definition msg_type :: "mem \<Rightarrow> u32 \<Rightarrow> u32" where
  "msg_type mm m = rd32 mm (m + 4)"

definition msg_buf :: "mem \<Rightarrow> u32 \<Rightarrow> u32" where
  "msg_buf mm m = rd32 mm (m + 44)"

definition reset_msg :: "mem \<Rightarrow> u32 \<Rightarrow> mem" where
  "reset_msg mm p = memset mm p 0 MSG_SIZE"

section \<open>Blocking\<close>

definition block :: "int \<Rightarrow> kernel \<Rightarrow> kernel outcome" where
  "block p s = c_assert (proc_state (proc_at s p) \<noteq> 0) (of_loop (schedule s))"

definition unblock :: "int \<Rightarrow> kernel \<Rightarrow> kernel outcome" where
  "unblock p s = c_assert (proc_state (proc_at s p) = RUNNABLE) (Inr s)"

definition upd_proc :: "int \<Rightarrow> (proc \<Rightarrow> proc) \<Rightarrow> kernel \<Rightarrow> kernel" where
  "upd_proc i f s = put_proc s i (f (proc_at s i))"

section \<open>The assertions\<close>

text \<open>\<^verbatim>\<open>assert_multiple\<close>, one case per position it is called from; an argument a position does not
  look at may be any index.\<close>

definition assert_multiple :: "int \<Rightarrow> int \<Rightarrow> u32 \<Rightarrow> nat \<Rightarrow> kernel \<Rightarrow> bool" where
  "assert_multiple sender receiver m assert_pos s =
     (let S = proc_at s sender; R = proc_at s receiver in
      if assert_pos = 1 then pending_msg R \<noteq> 0 \<and> m \<noteq> 0
      else if assert_pos = 2 then
        proc_state R = 0 \<and> pending_msg R = 0 \<and> pid_recvingfrom R = NO_TASK \<and> pid_sendingto R = NO_TASK \<and>
        proc_state S = 0 \<and> pending_msg S = 0 \<and> pid_recvingfrom S = NO_TASK \<and> pid_sendingto S = NO_TASK
      else if assert_pos = 3 then
        proc_state S = SENDING \<and> pending_msg S \<noteq> 0 \<and> pid_recvingfrom S = NO_TASK
      else if assert_pos = 4 then
        proc_state R = 0 \<and> pending_msg R = 0 \<and> pid_sendingto R = NO_TASK \<and> has_int_msg R = 0
      else if assert_pos = 5 \<or> assert_pos = 6 then
        proc_state R = 0 \<and> pending_msg R = 0 \<and> pid_recvingfrom R = NO_TASK \<and> pid_sendingto R = NO_TASK \<and>
        q_pending_proc R \<noteq> None \<and>
        proc_state S = SENDING \<and> pending_msg S \<noteq> 0 \<and> pid_recvingfrom S = NO_TASK \<and>
        pid_sendingto S = receiver
      else if assert_pos = 7 then m \<noteq> 0 \<and> pending_msg S \<noteq> 0
      else if assert_pos = 8 then
        proc_state R = RECEIVING \<and> pending_msg R \<noteq> 0 \<and> pid_recvingfrom R \<noteq> NO_TASK \<and>
        pid_sendingto R = NO_TASK \<and> has_int_msg R = 0
      else if assert_pos = 9 then
        proc_state R = 0 \<and> pending_msg R = 0 \<and> pid_recvingfrom R = NO_TASK \<and> pid_sendingto R = NO_TASK
      else True)"

section \<open>Deadlock detection\<close>

text \<open>The names printed for a cycle, from the receiver round to the sender.\<close>

partial_function (option) print_chain :: "kernel \<Rightarrow> int \<Rightarrow> int \<Rightarrow> u8 list list \<Rightarrow> u8 list list outcome option" where
  "print_chain s pid_sender p printed =
     (if pending_msg (proc_at s p) = 0 then Some (Inl AssertFail)
      else let p' = pid_sendingto (proc_at s p); printed' = printed @ [name (proc_at s p')]
        in if p' \<noteq> pid_sender then print_chain s pid_sender p' printed' else Some (Inr printed'))"

text \<open>\<^verbatim>\<open>check_deadlock\<close>: \<open>True\<close> when the chain of senders from the receiver leads to the sender.\<close>

partial_function (option) deadlock_loop :: "kernel \<Rightarrow> int \<Rightarrow> int \<Rightarrow> bool option" where
  "deadlock_loop s pid_sender p =
     (if proc_state (proc_at s p) AND SENDING \<noteq> 0 then
        (if pid_sendingto (proc_at s p) = pid_sender then Some True
         else deadlock_loop s pid_sender (pid_sendingto (proc_at s p)))
      else Some False)"

definition check_deadlock :: "int \<Rightarrow> int \<Rightarrow> kernel \<Rightarrow> (int \<times> u8 list list) outcome" where
  "check_deadlock pid_sender pid_receiver s =
     obind (of_loop (deadlock_loop s pid_sender pid_receiver)) (\<lambda>cyc.
       if cyc then obind (of_loop (print_chain s pid_sender pid_receiver [name (proc_at s pid_receiver)]))
                 (\<lambda>r. obind r (\<lambda>printed. Inr (1, printed)))
       else Inr (0, []))"

section \<open>Sending\<close>

text \<open>The last process of a queue, by its links.\<close>

partial_function (option) queue_last :: "kernel \<Rightarrow> int \<Rightarrow> int option" where
  "queue_last s p = (case q_pending_proc (proc_at s p) of None \<Rightarrow> Some p | Some p' \<Rightarrow> queue_last s p')"

definition append_sender :: "int \<Rightarrow> int \<Rightarrow> kernel \<Rightarrow> kernel outcome" where
  "append_sender sender receiver s =
     (case q_pending_proc (proc_at s receiver) of
        Some p \<Rightarrow> obind (of_loop (queue_last s p)) (\<lambda>l. Inr (upd_proc l (\<lambda>P. P\<lparr>q_pending_proc := Some sender\<rparr>) s))
      | None \<Rightarrow> Inr (upd_proc receiver (\<lambda>P. P\<lparr>q_pending_proc := Some sender\<rparr>) s))"

text \<open>The two branches of \<^verbatim>\<open>kernel_msg_send\<close>: hand the message over, or wait in the receiver's queue.\<close>

definition send_deliver :: "int \<Rightarrow> int \<Rightarrow> u32 \<Rightarrow> kernel \<Rightarrow> kernel outcome" where
  "send_deliver sender pid_receiver m s =
     c_assert (assert_multiple 0 pid_receiver m 1 s)
       (obind (proc_va2la s pid_receiver (pending_msg (proc_at s pid_receiver))) (\<lambda>dst.
        obind (proc_va2la s sender m) (\<lambda>src.
        let s1 = s\<lparr>kmem := phys_copy (kmem s) dst src MSG_SIZE\<rparr>;
            s2 = upd_proc pid_receiver (\<lambda>R. R\<lparr>pending_msg := 0, proc_state := proc_state R AND NOT RECEIVING,
                   pid_recvingfrom := NO_TASK\<rparr>) s1
        in obind (unblock pid_receiver s2) (\<lambda>s3.
           c_assert (assert_multiple sender pid_receiver 0 2 s3) (Inr s3)))))"

definition send_wait :: "int \<Rightarrow> int \<Rightarrow> u32 \<Rightarrow> kernel \<Rightarrow> kernel outcome" where
  "send_wait sender pid_receiver m s =
     (let s1 = upd_proc sender (\<lambda>S. S\<lparr>proc_state := proc_state S OR SENDING\<rparr>) s
      in c_assert (proc_state (proc_at s1 sender) = SENDING)
        (let s2 = upd_proc sender (\<lambda>S. S\<lparr>pid_sendingto := pid_receiver, pending_msg := m\<rparr>) s1
         in obind (append_sender sender pid_receiver s2) (\<lambda>s3.
            obind (block sender (upd_proc sender (\<lambda>S. S\<lparr>q_pending_proc := None\<rparr>) s3)) (\<lambda>s4.
            c_assert (assert_multiple sender 0 0 3 s4) (Inr s4)))))"

definition kernel_msg_send :: "int \<Rightarrow> int \<Rightarrow> u32 \<Rightarrow> kernel \<Rightarrow> (kernel \<times> int) outcome" where
  "kernel_msg_send sender pid_receiver m s =
     c_assert (sender \<noteq> pid_receiver)
       (obind (check_deadlock sender pid_receiver s) (\<lambda>(dead, _).
        if dead \<noteq> 0 then Inl PanicFail
        else let R = proc_at s pid_receiver
          in obind (if proc_state R AND RECEIVING \<noteq> 0 \<and> (pid_recvingfrom R = sender \<or> pid_recvingfrom R = ANY)
                    then send_deliver sender pid_receiver m s
                    else send_wait sender pid_receiver m s) (\<lambda>s'. Inr (s', 0))))"

section \<open>Receiving\<close>

text \<open>An interrupt is delivered as a message built by the kernel: source \<^verbatim>\<open>INTERRUPT\<close>, type \<^verbatim>\<open>HW_INT\<close>.\<close>

definition put_int_msg :: "mem \<Rightarrow> u32 \<Rightarrow> mem" where
  "put_int_msg mm a = wr32 (wr32 (reset_msg mm a) a (word_of_int INTERRUPT)) (a + 4) HW_INT"

text \<open>Walk the receiver's queue to the sender it asks for, keeping the process before it.\<close>

partial_function (option) find_in_queue :: "kernel \<Rightarrow> int \<Rightarrow> int option \<Rightarrow> int option \<Rightarrow> (int option \<times> bool) option" where
  "find_in_queue s pid_sender p prev =
     (case p of None \<Rightarrow> Some (prev, False)
      | Some i \<Rightarrow> if i = pid_sender then Some (prev, True)
                  else find_in_queue s pid_sender (q_pending_proc (proc_at s i)) (Some i))"

text \<open>Which sender a receive takes its message from, with the process before it in the queue.\<close>

definition choose_sender :: "int \<Rightarrow> int \<Rightarrow> kernel \<Rightarrow> (int \<times> int option) option outcome" where
  "choose_sender receiver pid_sender s =
     (if pid_sender = ANY then
        (case q_pending_proc (proc_at s receiver) of None \<Rightarrow> Inr None
         | Some sender \<Rightarrow> c_assert (assert_multiple sender receiver 0 5 s) (Inr (Some (sender, None))))
      else if proc_state (proc_at s pid_sender) AND SENDING \<noteq> 0 \<and> pid_sendingto (proc_at s pid_sender) = receiver then
        c_assert (q_pending_proc (proc_at s receiver) \<noteq> None)
          (obind (of_loop (find_in_queue s pid_sender (q_pending_proc (proc_at s receiver)) None)) (\<lambda>(prev, _).
             c_assert (assert_multiple pid_sender receiver 0 6 s) (Inr (Some (pid_sender, prev)))))
      else Inr None)"

definition unlink_sender :: "int \<Rightarrow> int \<Rightarrow> int option \<Rightarrow> kernel \<Rightarrow> kernel outcome" where
  "unlink_sender receiver sender prev s =
     (let nxt = q_pending_proc (proc_at s sender)
      in if Some sender = q_pending_proc (proc_at s receiver) then
           c_assert (prev = None)
             (Inr (upd_proc sender (\<lambda>S. S\<lparr>q_pending_proc := None\<rparr>)
               (upd_proc receiver (\<lambda>R. R\<lparr>q_pending_proc := nxt\<rparr>) s)))
         else (case prev of None \<Rightarrow> Inl AssertFail
           | Some pr \<Rightarrow> Inr (upd_proc sender (\<lambda>S. S\<lparr>q_pending_proc := None\<rparr>)
               (upd_proc pr (\<lambda>P. P\<lparr>q_pending_proc := nxt\<rparr>) s))))"

definition rcv_interrupt :: "int \<Rightarrow> u32 \<Rightarrow> kernel \<Rightarrow> kernel outcome" where
  "rcv_interrupt receiver m s =
     c_assert (m \<noteq> 0)
       (obind (proc_va2la s receiver m) (\<lambda>dst.
        let s1 = upd_proc receiver (\<lambda>R. R\<lparr>has_int_msg := 0\<rparr>) (s\<lparr>kmem := put_int_msg (kmem s) dst\<rparr>)
        in c_assert (assert_multiple 0 receiver 0 4 s1) (Inr s1)))"

definition rcv_copy :: "int \<Rightarrow> int \<Rightarrow> int option \<Rightarrow> u32 \<Rightarrow> kernel \<Rightarrow> kernel outcome" where
  "rcv_copy receiver sender prev m s =
     obind (unlink_sender receiver sender prev s) (\<lambda>s1.
       c_assert (assert_multiple sender 0 m 7 s1)
         (obind (proc_va2la s1 receiver m) (\<lambda>dst.
          obind (proc_va2la s1 sender (pending_msg (proc_at s1 sender))) (\<lambda>src.
          let s2 = s1\<lparr>kmem := phys_copy (kmem s1) dst src MSG_SIZE\<rparr>;
              s3 = upd_proc sender (\<lambda>S. S\<lparr>pending_msg := 0, pid_sendingto := NO_TASK,
                     proc_state := proc_state S AND NOT SENDING\<rparr>) s2
          in unblock sender s3))))"

definition rcv_wait :: "int \<Rightarrow> int \<Rightarrow> u32 \<Rightarrow> kernel \<Rightarrow> kernel outcome" where
  "rcv_wait receiver pid_sender m s =
     (let s1 = upd_proc receiver (\<lambda>R. R\<lparr>proc_state := proc_state R OR RECEIVING, pending_msg := m,
                 pid_recvingfrom := pid_sender\<rparr>) s
      in obind (block receiver s1) (\<lambda>s2.
           c_assert (assert_multiple 0 receiver 0 8 s2) (Inr s2)))"

definition kernel_msg_rcv :: "int \<Rightarrow> int \<Rightarrow> u32 \<Rightarrow> kernel \<Rightarrow> (kernel \<times> int) outcome" where
  "kernel_msg_rcv receiver pid_sender m s =
     c_assert (receiver \<noteq> pid_sender)
       (obind
         (if has_int_msg (proc_at s receiver) \<noteq> 0 \<and> (pid_sender = ANY \<or> pid_sender = INTERRUPT)
          then rcv_interrupt receiver m s
          else obind (choose_sender receiver pid_sender s) (\<lambda>c. case c of
                 Some (sender, prev) \<Rightarrow> rcv_copy receiver sender prev m s
               | None \<Rightarrow> rcv_wait receiver pid_sender m s))
         (\<lambda>s'. Inr (s', 0)))"

section \<open>Interrupts and the clock\<close>

definition hw_int_notification :: "int \<Rightarrow> kernel \<Rightarrow> kernel outcome" where
  "hw_int_notification task_nr s =
     (let p = proc_at s task_nr
      in if proc_state p AND RECEIVING \<noteq> 0 \<and> (pid_recvingfrom p = INTERRUPT \<or> pid_recvingfrom p = ANY) then
           (let s1 = s\<lparr>kmem := wr32 (wr32 (kmem s) (pending_msg p) (word_of_int INTERRUPT)) (pending_msg p + 4) HW_INT\<rparr>;
                s2 = upd_proc task_nr (\<lambda>P. P\<lparr>pending_msg := 0, has_int_msg := 0,
                       proc_state := proc_state P AND NOT RECEIVING, pid_recvingfrom := NO_TASK\<rparr>) s1
            in c_assert (proc_state (proc_at s2 task_nr) = 0)
                 (obind (unblock task_nr s2) (\<lambda>s3.
                    c_assert (assert_multiple 0 task_nr 0 9 s3) (Inr s3))))
         else Inr (upd_proc task_nr (\<lambda>P. P\<lparr>has_int_msg := 1\<rparr>) s))"

definition wake_up_tty :: "kernel \<Rightarrow> kernel outcome" where
  "wake_up_tty s = hw_int_notification TASK_TTY s"

text \<open>The clock interrupt: count the tick, charge it to the current process, wake the terminal task if a
  key was pressed, and choose another process when the current one has no ticks left.\<close>

definition clock_tick :: "kernel \<Rightarrow> kernel" where
  "clock_tick s =
     (let t = sys_ticks s + 1; s1 = s\<lparr>sys_ticks := (if t \<ge> MAX_TICKS then 0 else t)\<rparr>
      in if ticks (proc_at s1 (p_proc_ready s1)) \<noteq> 0
         then upd_proc (p_proc_ready s1) (\<lambda>P. P\<lparr>ticks := ticks P - 1\<rparr>) s1 else s1)"

definition clock_handler :: "kernel \<Rightarrow> kernel outcome" where
  "clock_handler s =
     (let s2 = clock_tick s
      in obind (if key_pressed s2 \<noteq> 0 then wake_up_tty s2 else Inr s2) (\<lambda>s3.
           if nested_int s3 \<noteq> 0 then Inr s3
           else if ticks (proc_at s3 (p_proc_ready s3)) > 0 then Inr s3
           else of_loop (schedule s3)))"

section \<open>System calls\<close>

text \<open>\<^verbatim>\<open>sys_printx\<close>: print the string on the console of the first terminal, console 0.\<close>

partial_function (option) printx_loop :: "mem \<Rightarrow> u32 \<Rightarrow> vga \<Rightarrow> vga outcome option" where
  "printx_loop mm p v =
     (if mm p = 0 then Some (Inr v)
      else (case console_print_char 0 (mm p) v of
              Inl e \<Rightarrow> Some (Inl e) | Inr v' \<Rightarrow> printx_loop mm (p + 1) v'))"

definition sys_printx :: "int \<Rightarrow> u32 \<Rightarrow> kernel \<Rightarrow> kernel outcome" where
  "sys_printx caller buf s =
     obind (if nested_int s = 0 then proc_va2la s caller buf else Inr buf) (\<lambda>p.
     obind (of_loop (printx_loop (kmem s) p (screen s))) (\<lambda>r.
     obind r (\<lambda>v. Inr (s\<lparr>screen := v\<rparr>))))"

definition sys_send_rcv_handler :: "int \<Rightarrow> int \<Rightarrow> u32 \<Rightarrow> int \<Rightarrow> kernel \<Rightarrow> (kernel \<times> int) outcome" where
  "sys_send_rcv_handler fn pid_sender_receiver m caller_pid s =
     (if msg_type (kmem s) m = PRINTX then
        obind (sys_printx caller_pid (msg_buf (kmem s) m) s) (\<lambda>s'. Inr (s', 0))
      else c_assert (nested_int s = 0)
       (c_assert (0 \<le> pid_sender_receiver \<and> pid_sender_receiver < NR_TASKS_NATIVE + NR_PROCS_MAX \<or>
                  pid_sender_receiver = ANY \<or> pid_sender_receiver = INTERRUPT)
        (obind (proc_va2la s caller_pid m) (\<lambda>msg_la.
         let s1 = s\<lparr>kmem := wr32 (kmem s) msg_la (word_of_int caller_pid)\<rparr>
         in c_assert (msg_source (kmem s1) msg_la \<noteq> pid_sender_receiver)
              (if fn = SEND then kernel_msg_send caller_pid pid_sender_receiver m s1
               else if fn = RECEIVE then kernel_msg_rcv caller_pid pid_sender_receiver m s1
               else Inl PanicFail)))))"

section \<open>Basic facts\<close>

lemma proc_at_upd [simp]: "proc_at (upd_proc i f s) j = (if i = j then f (proc_at s j) else proc_at s j)"
  by (simp add: upd_proc_def)

lemma upd_proc_fields [simp]:
  "length (proc_table (upd_proc i f s)) = length (proc_table s)"
  "gdt (upd_proc i f s) = gdt s" "p_proc_ready (upd_proc i f s) = p_proc_ready s"
  "nested_int (upd_proc i f s) = nested_int s" "sys_ticks (upd_proc i f s) = sys_ticks s"
  "key_pressed (upd_proc i f s) = key_pressed s" "kmem (upd_proc i f s) = kmem s"
  "screen (upd_proc i f s) = screen s"
  by (simp_all add: upd_proc_def)

text \<open>What the scheduler leaves alone: everything but the ticks and the choice.\<close>

lemma schedule_result:
  assumes "schedule s = Some s'"
  shows "(s' = s\<lparr>p_proc_ready := p_proc_ready s'\<rparr> \<or>
          s' = s\<lparr>proc_table := sched_refill (proc_table s), p_proc_ready := p_proc_ready s'\<rparr>) \<and>
         is_choice (proc_table s') (p_proc_ready s')"
proof (cases "has_ticks (proc_table s)")
  case True
  with schedule_ready [OF True] assms show ?thesis by auto
next
  case False
  with schedule_stuck [OF assms] have "has_priority (proc_table s)" by simp
  then have "has_ticks (proc_table (s\<lparr>proc_table := sched_refill (proc_table s)\<rparr>))"
    by (simp add: has_ticks_refill)
  from schedule_ready [OF this] schedule_refills [OF False] assms show ?thesis by auto
qed

lemma length_refill [simp]: "length (sched_refill ps) = length ps"
  by (simp add: sched_refill_def)

text \<open>The part of a process that the scheduler and the clock do not touch.\<close>

definition ipc_view :: "proc \<Rightarrow> proc" where
  "ipc_view p = p\<lparr>ticks := 0\<rparr>"

lemma ipc_viewD:
  assumes "ipc_view p = ipc_view q"
  shows "proc_state p = proc_state q" "pending_msg p = pending_msg q"
    "q_pending_proc p = q_pending_proc q" "pid_recvingfrom p = pid_recvingfrom q"
    "pid_sendingto p = pid_sendingto q" "has_int_msg p = has_int_msg q" "ldts p = ldts q"
    "name p = name q" "priority p = priority q" "p_parent p = p_parent q"
  using arg_cong [OF assms, of proc_state] arg_cong [OF assms, of pending_msg]
    arg_cong [OF assms, of q_pending_proc] arg_cong [OF assms, of pid_recvingfrom]
    arg_cong [OF assms, of pid_sendingto] arg_cong [OF assms, of has_int_msg]
    arg_cong [OF assms, of ldts] arg_cong [OF assms, of name] arg_cong [OF assms, of priority]
    arg_cong [OF assms, of p_parent]
  by (simp_all add: ipc_view_def)

lemma ipc_view_refill: "i < length ps \<Longrightarrow> ipc_view (sched_refill ps ! i) = ipc_view (ps ! i)"
  by (simp add: sched_refill_def ipc_view_def)

lemma schedule_frame:
  assumes "schedule s = Some s'"
  shows "ipc_view (proc_at s' i) = ipc_view (proc_at s i)"
    "length (proc_table s') = length (proc_table s)" "kmem s' = kmem s"
    "nested_int s' = nested_int s" "sys_ticks s' = sys_ticks s" "key_pressed s' = key_pressed s"
    "screen s' = screen s" "gdt s' = gdt s" "is_choice (proc_table s') (p_proc_ready s')"
proof -
  have same: "ipc_view (proc_at (s\<lparr>proc_table := sched_refill (proc_table s), p_proc_ready := r\<rparr>) i) =
      ipc_view (proc_at s i)" for r
    by (auto simp: proc_at_def ipc_view_refill)
  note res = schedule_result [OF assms]
  then show "is_choice (proc_table s') (p_proc_ready s')" by simp
  from res show "ipc_view (proc_at s' i) = ipc_view (proc_at s i)"
    by (metis proc_at_frame(1) same)
  from res show "length (proc_table s') = length (proc_table s)" "kmem s' = kmem s"
    "nested_int s' = nested_int s" "sys_ticks s' = sys_ticks s" "key_pressed s' = key_pressed s"
    "screen s' = screen s" "gdt s' = gdt s"
    by (metis (no_types) kernel.select_convs kernel.surjective kernel.update_convs length_refill)+
qed

lemma schedule_current:
  assumes "schedule s = Some s'" and "length (proc_table s) = 37"
  shows "valid_pid (p_proc_ready s')" "proc_state (proc_at s' (p_proc_ready s')) = RUNNABLE"
  using schedule_frame(2, 9) [OF assms(1)] assms(2) by (auto simp: is_choice_def proc_at_def)

lemma block_cases:
  assumes "block p s = Inr s'"
  shows "proc_state (proc_at s p) \<noteq> 0" "schedule s = Some s'"
  using assms by (auto simp: block_def outcome_iffs)

lemma unblock_iff [simp]: "unblock p s = Inr s' \<longleftrightarrow> proc_state (proc_at s p) = 0 \<and> s' = s"
  by (auto simp: unblock_def outcome_iffs)

end
