(* ===== verification/IpcInv.thy ===== *)
theory IpcInv
  imports Ipc
begin

text \<open>
  Invariants of message passing. The kernel's steps are the system calls of the current process, the
  clock and disk interrupts, the key interrupt flag and the processes' own writes to memory. Every
  step that does not stop the machine keeps each process in one of the three consistent
  communication states, keeps the current process runnable, and keeps the graph of blocked senders
  free of cycles, which is why the deadlock check terminates and is exact.
\<close>

unbundle bit_operations_syntax

section \<open>The invariant\<close>

definition sending :: "proc \<Rightarrow> bool" where
  "sending p \<longleftrightarrow> proc_state p AND SENDING \<noteq> 0"

definition receiving :: "proc \<Rightarrow> bool" where
  "receiving p \<longleftrightarrow> proc_state p AND RECEIVING \<noteq> 0"

definition proc_ok :: "proc \<Rightarrow> bool" where
  "proc_ok p \<longleftrightarrow>
     (proc_state p = RUNNABLE \<longrightarrow>
        pending_msg p = 0 \<and> pid_recvingfrom p = NO_TASK \<and> pid_sendingto p = NO_TASK) \<and>
     (sending p \<longrightarrow>
        proc_state p = SENDING \<and> pending_msg p \<noteq> 0 \<and> pid_recvingfrom p = NO_TASK \<and> valid_pid (pid_sendingto p)) \<and>
     (receiving p \<longrightarrow>
        pending_msg p \<noteq> 0 \<and> pid_recvingfrom p \<noteq> NO_TASK \<and> pid_sendingto p = NO_TASK)"

text \<open>Who is blocked sending to whom.\<close>

definition send_graph :: "kernel \<Rightarrow> (int \<times> int) set" where
  "send_graph s = {(i, j). valid_pid i \<and> sending (proc_at s i) \<and> j = pid_sendingto (proc_at s i)}"

definition ipc_inv :: "kernel \<Rightarrow> bool" where
  "ipc_inv s \<longleftrightarrow>
     length (proc_table s) = NR_PROC_SLOTS \<and>
     (\<forall>i. valid_pid i \<longrightarrow> proc_ok (proc_at s i)) \<and>
     valid_pid (p_proc_ready s) \<and> proc_state (proc_at s (p_proc_ready s)) = RUNNABLE \<and>
     acyclic (send_graph s)"

section \<open>Steps\<close>

inductive kstep :: "kernel \<Rightarrow> kernel \<Rightarrow> bool" where
  syscall: "\<lbrakk>fn = SEND \<longrightarrow> valid_pid pid; sys_send_rcv_handler fn pid m (p_proc_ready s) s = Inr (s', ret)\<rbrakk>
     \<Longrightarrow> kstep s s'"
| clock: "clock_handler s = Inr s' \<Longrightarrow> kstep s s'"
| hd_int: "hw_int_notification TASK_HD s = Inr s' \<Longrightarrow> kstep s s'"
| key_int: "kstep s (s\<lparr>key_pressed := 1\<rparr>)"
| mem_write: "kstep s (s\<lparr>kmem := mm\<rparr>)"

inductive_cases kstepE: "kstep s s'"

inductive reachable :: "kernel \<Rightarrow> kernel \<Rightarrow> bool" for s0 where
  start: "reachable s0 s0"
| step: "\<lbrakk>reachable s0 s; kstep s s'\<rbrakk> \<Longrightarrow> reachable s0 s'"

section \<open>The states of the invariant do not depend on ticks\<close>

text \<open>Two processes agree on what the invariant reads.\<close>

definition comm_eq :: "proc \<Rightarrow> proc \<Rightarrow> bool" where
  "comm_eq p q \<longleftrightarrow> proc_state p = proc_state q \<and> pending_msg p = pending_msg q \<and>
     pid_recvingfrom p = pid_recvingfrom q \<and> pid_sendingto p = pid_sendingto q"

lemma comm_eq_refl [simp]: "comm_eq p p"
  by (simp add: comm_eq_def)

lemma comm_eq_upd [simp]:
  "comm_eq (p\<lparr>q_pending_proc := q\<rparr>) p" "comm_eq (p\<lparr>has_int_msg := h\<rparr>) p" "comm_eq (p\<lparr>ticks := t\<rparr>) p"
  by (simp_all add: comm_eq_def)

lemma comm_eq_trans: "comm_eq p q \<Longrightarrow> comm_eq q r \<Longrightarrow> comm_eq p r"
  by (simp add: comm_eq_def)

lemma comm_eq_view: "ipc_view p = ipc_view q \<Longrightarrow> comm_eq p q"
  using ipc_viewD [of p q] by (simp add: comm_eq_def)

lemma comm_eq_ok: "comm_eq p q \<Longrightarrow> proc_ok p = proc_ok q"
  by (simp add: comm_eq_def proc_ok_def sending_def receiving_def)

lemma comm_eq_sending: "comm_eq p q \<Longrightarrow> sending p = sending q"
  by (simp add: comm_eq_def sending_def)

text \<open>
  A step that leaves every process but one as it was, and removes that one from the senders, keeps
  the invariant, given that the current process is runnable afterwards.
\<close>

lemma ipc_inv_change:
  assumes inv: "ipc_inv s" and len: "length (proc_table s') = length (proc_table s)"
    and other: "\<And>i. i \<noteq> c \<Longrightarrow> comm_eq (proc_at s' i) (proc_at s i)"
    and c: "comm_eq (proc_at s' c) (proc_at s c) \<or> proc_ok (proc_at s' c) \<and> \<not> sending (proc_at s' c)"
    and cur: "valid_pid (p_proc_ready s')" "proc_state (proc_at s' (p_proc_ready s')) = RUNNABLE"
  shows "ipc_inv s'"
proof -
  have ok: "proc_ok (proc_at s' i)" if "valid_pid i" for i
    using inv other [of i] c that comm_eq_ok by (cases "i = c") (auto simp: ipc_inv_def)
  have "send_graph s' \<subseteq> send_graph s"
  proof
    fix e assume "e \<in> send_graph s'"
    then obtain i where e: "e = (i, pid_sendingto (proc_at s' i))" "valid_pid i" "sending (proc_at s' i)"
      by (auto simp: send_graph_def)
    then have "comm_eq (proc_at s' i) (proc_at s i)" using other [of i] c by (cases "i = c") auto
    with e show "e \<in> send_graph s" by (auto simp: send_graph_def comm_eq_def sending_def)
  qed
  then have "acyclic (send_graph s')" using inv acyclic_subset by (auto simp: ipc_inv_def)
  with ok inv len cur show ?thesis by (simp add: ipc_inv_def)
qed

section \<open>The deadlock check\<close>

lemma finite_send_graph: "finite (send_graph s)"
proof (rule finite_subset)
  show "send_graph s \<subseteq> (\<lambda>i. (i, pid_sendingto (proc_at s i))) ` {0..<37}"
    by (auto simp: send_graph_def)
qed simp

lemma send_graph_iff [simp]:
  "(i, j) \<in> send_graph s \<longleftrightarrow> valid_pid i \<and> sending (proc_at s i) \<and> j = pid_sendingto (proc_at s i)"
  by (simp add: send_graph_def)

lemma send_graph_valid:
  assumes "ipc_inv s" "(i, j) \<in> send_graph s"
  shows "valid_pid j"
  using assms by (auto simp: ipc_inv_def proc_ok_def)

lemma send_graph_trancl:
  assumes "valid_pid p" "sending (proc_at s p)"
  shows "(p, a) \<in> (send_graph s)\<^sup>+ \<longleftrightarrow>
     pid_sendingto (proc_at s p) = a \<or> (pid_sendingto (proc_at s p), a) \<in> (send_graph s)\<^sup>+"
  using assms by (subst trancl_unfold_left) (auto simp: rtrancl_eq_or_trancl)

lemma send_graph_trancl_end:
  "\<not> sending (proc_at s p) \<Longrightarrow> (p, a) \<notin> (send_graph s)\<^sup>+"
  by (auto dest: tranclD)

lemma deadlock_loop_correct:
  assumes inv: "ipc_inv s" and "valid_pid p"
  shows "deadlock_loop s a p = Some ((p, a) \<in> (send_graph s)\<^sup>+)"
proof -
  have "wf ((send_graph s)\<inverse>)"
    using inv finite_send_graph by (intro finite_acyclic_wf_converse) (auto simp: ipc_inv_def)
  then show ?thesis using assms(2)
  proof (induction p rule: wf_induct_rule)
    case (less p)
    show ?case
    proof (cases "sending (proc_at s p)")
      case True
      let ?j = "pid_sendingto (proc_at s p)"
      have e: "(p, ?j) \<in> send_graph s" using True less.prems by simp
      then have "deadlock_loop s a ?j = Some ((?j, a) \<in> (send_graph s)\<^sup>+)"
        using less.IH [of ?j] send_graph_valid [OF inv e] by blast
      then show ?thesis
        using True by (subst deadlock_loop.simps)
          (simp add: sending_def [symmetric] send_graph_trancl [OF less.prems True])
    next
      case False
      then show ?thesis by (subst deadlock_loop.simps)
          (simp add: sending_def [symmetric] send_graph_trancl_end)
    qed
  qed
qed

text \<open>The chain of names is complete: on a cycle the printing loop ends as well.\<close>

lemma print_chain_total:
  assumes inv: "ipc_inv s" and "valid_pid p" "(p, a) \<in> (send_graph s)\<^sup>+"
  shows "\<exists>names. print_chain s a p acc = Some (Inr (acc @ names)) \<and> names \<noteq> [] \<and> last names = name (proc_at s a)"
proof -
  have "wf ((send_graph s)\<inverse>)"
    using inv finite_send_graph by (intro finite_acyclic_wf_converse) (auto simp: ipc_inv_def)
  then show ?thesis using assms(2, 3)
  proof (induction p arbitrary: acc rule: wf_induct_rule)
    case (less p)
    then have snd: "sending (proc_at s p)" using send_graph_trancl_end by blast
    let ?j = "pid_sendingto (proc_at s p)"
    have e: "(p, ?j) \<in> send_graph s" using snd less.prems by simp
    have pm: "pending_msg (proc_at s p) \<noteq> 0" using inv less.prems snd by (auto simp: ipc_inv_def proc_ok_def)
    show ?case
    proof (cases "?j = a")
      case True
      then show ?thesis using pm by (subst print_chain.simps) (simp add: Let_def)
    next
      case False
      with less.prems snd have "(?j, a) \<in> (send_graph s)\<^sup>+" by (simp add: send_graph_trancl)
      with less.IH [of ?j "acc @ [name (proc_at s ?j)]"] send_graph_valid [OF inv e] e
      obtain names where "print_chain s a ?j (acc @ [name (proc_at s ?j)]) =
          Some (Inr ((acc @ [name (proc_at s ?j)]) @ names))" "names \<noteq> []" "last names = name (proc_at s a)"
        by blast
      then show ?thesis using pm False
        by (intro exI [of _ "name (proc_at s ?j) # names"], subst print_chain.simps) (simp add: Let_def)
    qed
  qed
qed

lemma check_deadlock_correct:
  assumes inv: "ipc_inv s" and v: "valid_pid b"
  shows "if (b, a) \<in> (send_graph s)\<^sup>+ then \<exists>names. check_deadlock a b s = Inr (1, name (proc_at s b) # names)
         else check_deadlock a b s = Inr (0, [])"
proof (cases "(b, a) \<in> (send_graph s)\<^sup>+")
  case True
  then show ?thesis
    using print_chain_total [OF inv v True, of "[name (proc_at s b)]"] deadlock_loop_correct [OF inv v, of a]
    by (auto simp: check_deadlock_def)
qed (simp add: check_deadlock_def deadlock_loop_correct [OF inv v])

section \<open>Each step keeps the invariant\<close>

lemma state_masks:
  "\<not> sending p \<Longrightarrow> proc_state p AND SENDING = 0" "sending p \<Longrightarrow> proc_state p AND SENDING \<noteq> 0"
  by (simp_all add: sending_def)

lemma runnable_not_sending [simp]: "proc_state p = 0 \<Longrightarrow> \<not> sending p" "proc_state p = 0 \<Longrightarrow> \<not> receiving p"
  by (auto simp: sending_def receiving_def)

lemma runnable_ok:
  "proc_state p = 0 \<Longrightarrow> pending_msg p = 0 \<Longrightarrow> pid_recvingfrom p = NO_TASK \<Longrightarrow> pid_sendingto p = NO_TASK \<Longrightarrow> proc_ok p"
  by (simp add: proc_ok_def)

lemma proc_va2la_kmem [simp]: "proc_va2la (s\<lparr>kmem := mm\<rparr>) pid va = proc_va2la s pid va"
  by (simp add: proc_va2la_def)

lemma send_deliver_result:
  assumes "send_deliver sender r m s = Inr s'"
  obtains dst src where "proc_va2la s r (pending_msg (proc_at s r)) = Inr dst" "proc_va2la s sender m = Inr src"
    and "s' = upd_proc r (\<lambda>R. R\<lparr>pending_msg := 0, proc_state := proc_state R AND NOT RECEIVING,
      pid_recvingfrom := NO_TASK\<rparr>) (s\<lparr>kmem := phys_copy (kmem s) dst src MSG_SIZE\<rparr>)"
    and "pending_msg (proc_at s r) \<noteq> 0" "m \<noteq> 0" "assert_multiple sender r 0 2 s'"
  using assms by (auto simp: send_deliver_def outcome_iffs Let_def assert_multiple_def [of _ _ _ "Suc 0"])

lemma send_deliver_inv:
  assumes inv: "ipc_inv s" and run: "send_deliver (p_proc_ready s) r m s = Inr s'"
  shows "ipc_inv s'"
proof (rule send_deliver_result [OF run])
  fix dst src
  assume eq: "s' = upd_proc r (\<lambda>R. R\<lparr>pending_msg := 0, proc_state := proc_state R AND NOT RECEIVING,
      pid_recvingfrom := NO_TASK\<rparr>) (s\<lparr>kmem := phys_copy (kmem s) dst src MSG_SIZE\<rparr>)"
    and as: "assert_multiple (p_proc_ready s) r 0 2 s'"
  have ready: "p_proc_ready s' = p_proc_ready s" by (simp add: eq)
  show "ipc_inv s'"
  proof (rule ipc_inv_change [OF inv, where c = r])
    show "comm_eq (proc_at s' r) (proc_at s r) \<or> proc_ok (proc_at s' r) \<and> \<not> sending (proc_at s' r)"
      using as by (auto simp: assert_multiple_def Let_def intro: runnable_ok)
    show "proc_state (proc_at s' (p_proc_ready s')) = RUNNABLE"
      using as by (simp add: ready assert_multiple_def Let_def)
  qed (use inv in \<open>simp_all add: eq ipc_inv_def\<close>)
qed

text \<open>Queue links carry no communication state.\<close>

lemma append_sender_frame:
  assumes "append_sender sender r s = Inr s'"
  shows "comm_eq (proc_at s' i) (proc_at s i)" "length (proc_table s') = length (proc_table s)"
    "p_proc_ready s' = p_proc_ready s" "kmem s' = kmem s"
    "ldts (proc_at s' i) = ldts (proc_at s i)"
  using assms by (auto simp: append_sender_def outcome_iffs split: option.splits)

lemma or_SENDING: "x OR SENDING = SENDING \<Longrightarrow> \<not> bit x 0 \<and> x AND NOT SENDING = (0 :: u32)"
proof
  assume *: "x OR SENDING = SENDING"
  have "bit (x OR SENDING) 0 = bit (2 :: u32) 0" using * by simp
  then show "\<not> bit x 0" by (simp add: bit_simps)
  have "x AND NOT SENDING = (x OR SENDING) AND NOT SENDING" by (simp add: bit_eq_iff bit_simps) blast
  with * show "x AND NOT SENDING = 0" by simp
qed

lemma send_wait_result:
  assumes "send_wait sender r m s = Inr s'"
  obtains s3 where "append_sender sender r (upd_proc sender (\<lambda>S. S\<lparr>proc_state := SENDING,
      pid_sendingto := r, pending_msg := m\<rparr>) s) = Inr s3"
    and "schedule (upd_proc sender (\<lambda>S. S\<lparr>q_pending_proc := None\<rparr>) s3) = Some s'"
    and "assert_multiple sender 0 0 3 s'"
proof -
  have twice: "upd_proc i g (upd_proc i f s) = upd_proc i (\<lambda>p. g (f p)) s" for i f g
    by (auto simp: upd_proc_def put_proc_def proc_at_def)
  let ?f = "\<lambda>S. S\<lparr>proc_state := proc_state S OR SENDING, pid_sendingto := r, pending_msg := m\<rparr>"
  from assms obtain s3 where st: "proc_state (proc_at s sender) OR SENDING = SENDING"
    and ap: "append_sender sender r (upd_proc sender ?f s) = Inr s3"
    and sc: "schedule (upd_proc sender (\<lambda>S. S\<lparr>q_pending_proc := None\<rparr>) s3) = Some s'"
    and as: "assert_multiple sender 0 0 3 s'"
    by (auto simp: send_wait_def outcome_iffs Let_def twice block_def)
  have "upd_proc sender ?f s = upd_proc sender (\<lambda>S. S\<lparr>proc_state := SENDING, pid_sendingto := r, pending_msg := m\<rparr>) s"
    by (simp add: upd_proc_def st)
  with ap sc as that show thesis by metis
qed

lemma send_wait_frame:
  assumes "send_wait sender r m s = Inr s'"
  shows "i \<noteq> sender \<Longrightarrow> comm_eq (proc_at s' i) (proc_at s i)"
    "length (proc_table s') = length (proc_table s)"
    "pid_sendingto (proc_at s' sender) = r" "proc_state (proc_at s' sender) = SENDING"
    "pending_msg (proc_at s' sender) = m" "m \<noteq> 0" "pid_recvingfrom (proc_at s' sender) = NO_TASK"
    "kmem s' = kmem s"
    "length (proc_table s) = 37 \<Longrightarrow> valid_pid (p_proc_ready s') \<and> proc_state (proc_at s' (p_proc_ready s')) = RUNNABLE"
proof -
  obtain s3 where ap: "append_sender sender r (upd_proc sender (\<lambda>S. S\<lparr>proc_state := SENDING,
      pid_sendingto := r, pending_msg := m\<rparr>) s) = Inr s3"
    and sc: "schedule (upd_proc sender (\<lambda>S. S\<lparr>q_pending_proc := None\<rparr>) s3) = Some s'"
    and as: "assert_multiple sender 0 0 3 s'" by (rule send_wait_result [OF assms])
  have 1: "comm_eq (proc_at s' j) (proc_at s3 j)" for j
    using comm_eq_trans [OF comm_eq_view [OF schedule_frame(1) [OF sc, of j]]]
    by (auto simp: comm_eq_def split: if_splits)
  have 2: "comm_eq (proc_at s' j) (if j = sender then (proc_at s j)\<lparr>proc_state := SENDING,
      pid_sendingto := r, pending_msg := m\<rparr> else proc_at s j)" for j
    using comm_eq_trans [OF 1 append_sender_frame(1) [OF ap, of j]] by (auto split: if_splits)
  show "i \<noteq> sender \<Longrightarrow> comm_eq (proc_at s' i) (proc_at s i)" using 2 [of i] by simp
  show "length (proc_table s') = length (proc_table s)" "kmem s' = kmem s"
    using append_sender_frame(2,4) [OF ap] schedule_frame(2,3) [OF sc] by simp_all
  show "pid_sendingto (proc_at s' sender) = r" "proc_state (proc_at s' sender) = SENDING"
    and pm: "pending_msg (proc_at s' sender) = m"
    using 2 [of sender] by (simp_all add: comm_eq_def)
  show "m \<noteq> 0" "pid_recvingfrom (proc_at s' sender) = NO_TASK"
    using as pm by (simp_all add: assert_multiple_def Let_def)
  show "length (proc_table s) = 37 \<Longrightarrow> valid_pid (p_proc_ready s') \<and> proc_state (proc_at s' (p_proc_ready s')) = RUNNABLE"
    using schedule_current [OF sc] append_sender_frame(2) [OF ap] by auto
qed

lemma send_wait_graph:
  assumes "send_wait sender r m s = Inr s'"
  shows "send_graph s' \<subseteq> insert (sender, r) (send_graph s)"
  using send_wait_frame(1) [OF assms] send_wait_frame(3) [OF assms]
  by (auto simp: send_graph_def comm_eq_def sending_def) metis+

lemma send_wait_inv:
  assumes inv: "ipc_inv s" and v: "valid_pid r" and nd: "(r, p_proc_ready s) \<notin> (send_graph s)\<^sup>+"
    and ne: "p_proc_ready s \<noteq> r" and run: "send_wait (p_proc_ready s) r m s = Inr s'"
  shows "ipc_inv s'"
proof -
  note fr = send_wait_frame [OF run]
  have "(r, p_proc_ready s) \<notin> (send_graph s)\<^sup>*" using nd ne by (auto simp: rtrancl_eq_or_trancl)
  then have "acyclic (insert (p_proc_ready s, r) (send_graph s))" using inv by (simp add: acyclic_insert ipc_inv_def)
  then have "acyclic (send_graph s')" by (rule acyclic_subset [OF _ send_wait_graph [OF run]])
  moreover have "proc_ok (proc_at s' i)" if "valid_pid i" for i
  proof (cases "i = p_proc_ready s")
    case True
    with fr(3-7) v show ?thesis by (simp add: proc_ok_def sending_def receiving_def)
  next
    case False
    with fr(1) that inv show ?thesis using comm_eq_ok by (auto simp: ipc_inv_def)
  qed
  ultimately show ?thesis using fr(2, 9) inv by (auto simp: ipc_inv_def)
qed

lemma kernel_msg_send_inv:
  assumes inv: "ipc_inv s" and v: "valid_pid r" and run: "kernel_msg_send (p_proc_ready s) r m s = Inr (s', ret)"
  shows "ipc_inv s'"
proof -
  from run obtain d ns where ne: "p_proc_ready s \<noteq> r" and cd: "check_deadlock (p_proc_ready s) r s = Inr (d, ns)" "d = 0"
    and br: "send_deliver (p_proc_ready s) r m s = Inr s' \<or> send_wait (p_proc_ready s) r m s = Inr s'"
    by (auto simp: kernel_msg_send_def outcome_iffs Let_def split: if_splits prod.splits)
  have "(r, p_proc_ready s) \<notin> (send_graph s)\<^sup>+"
    using check_deadlock_correct [OF inv v, of "p_proc_ready s"] cd by (auto split: if_splits)
  with br inv v ne show ?thesis using send_deliver_inv send_wait_inv by blast
qed

lemma rcv_interrupt_inv:
  assumes inv: "ipc_inv s" and run: "rcv_interrupt (p_proc_ready s) m s = Inr s'"
  shows "ipc_inv s'"
proof -
  let ?r = "p_proc_ready s"
  from run obtain dst where eq: "s' = upd_proc ?r (\<lambda>R. R\<lparr>has_int_msg := 0\<rparr>) (s\<lparr>kmem := put_int_msg (kmem s) dst\<rparr>)"
    by (auto simp: rcv_interrupt_def outcome_iffs Let_def)
  show ?thesis
    by (rule ipc_inv_change [OF inv, where c = ?r]) (use inv in \<open>simp_all add: eq ipc_inv_def\<close>)
qed

lemma unlink_sender_frame:
  assumes "unlink_sender receiver sender prev s = Inr s'"
  shows "comm_eq (proc_at s' i) (proc_at s i)" "length (proc_table s') = length (proc_table s)"
    "p_proc_ready s' = p_proc_ready s" "kmem s' = kmem s" "ldts (proc_at s' i) = ldts (proc_at s i)"
  using assms by (auto simp: unlink_sender_def outcome_iffs Let_def comm_eq_def split: if_splits option.splits)

text \<open>A sender that is chosen has been checked by assertion 5 or 6.\<close>

lemma choose_sender_asserts:
  assumes "choose_sender receiver pid s = Inr (Some (sender, prev))"
  shows "proc_state (proc_at s sender) = SENDING" "pid_recvingfrom (proc_at s sender) = NO_TASK"
    "pending_msg (proc_at s sender) \<noteq> 0" "pid_sendingto (proc_at s sender) = receiver"
    "proc_state (proc_at s receiver) = RUNNABLE"
  using assms
  by (auto simp: choose_sender_def outcome_iffs assert_multiple_def Let_def split: if_splits option.splits)

lemma rcv_copy_result:
  assumes "rcv_copy receiver sender prev m s = Inr s'"
  obtains s1 dst src where "unlink_sender receiver sender prev s = Inr s1"
    and "proc_va2la s1 receiver m = Inr dst" "proc_va2la s1 sender (pending_msg (proc_at s1 sender)) = Inr src"
    and "s' = upd_proc sender (\<lambda>S. S\<lparr>pending_msg := 0, pid_sendingto := NO_TASK,
       proc_state := proc_state S AND NOT SENDING\<rparr>) (s1\<lparr>kmem := phys_copy (kmem s1) dst src MSG_SIZE\<rparr>)"
    and "proc_state (proc_at s' sender) = 0" and "m \<noteq> 0"
  using assms by (auto simp: rcv_copy_def outcome_iffs Let_def assert_multiple_def)

lemma rcv_copy_inv:
  assumes inv: "ipc_inv s" and ch: "choose_sender (p_proc_ready s) pid s = Inr (Some (sender, prev))"
    and run: "rcv_copy (p_proc_ready s) sender prev m s = Inr s'"
  shows "ipc_inv s'"
proof (rule rcv_copy_result [OF run])
  fix s1 dst src
  assume ul: "unlink_sender (p_proc_ready s) sender prev s = Inr s1"
    and eq: "s' = upd_proc sender (\<lambda>S. S\<lparr>pending_msg := 0, pid_sendingto := NO_TASK,
       proc_state := proc_state S AND NOT SENDING\<rparr>) (s1\<lparr>kmem := phys_copy (kmem s1) dst src MSG_SIZE\<rparr>)"
    and st: "proc_state (proc_at s' sender) = 0"
  note fr = unlink_sender_frame [OF ul] and as = choose_sender_asserts [OF ch]
  have ne: "sender \<noteq> p_proc_ready s" using as(1, 5) by auto
  show "ipc_inv s'"
  proof (rule ipc_inv_change [OF inv, where c = sender])
    show "comm_eq (proc_at s' sender) (proc_at s sender) \<or> proc_ok (proc_at s' sender) \<and> \<not> sending (proc_at s' sender)"
      using st fr(1) [of sender] as(2) by (auto simp: eq comm_eq_def intro!: runnable_ok)
    show "proc_state (proc_at s' (p_proc_ready s')) = RUNNABLE"
      using fr(1) [of "p_proc_ready s"] fr(3) as(5) ne by (auto simp: eq comm_eq_def)
  qed (use inv fr in \<open>simp_all add: eq ipc_inv_def\<close>)
qed

lemma rcv_wait_result:
  assumes "rcv_wait receiver pid m s = Inr s'"
  shows "schedule (upd_proc receiver (\<lambda>R. R\<lparr>proc_state := proc_state R OR RECEIVING, pending_msg := m,
            pid_recvingfrom := pid\<rparr>) s) = Some s'" "assert_multiple 0 receiver 0 8 s'"
  using assms by (auto simp: rcv_wait_def outcome_iffs Let_def block_def)

lemma rcv_wait_inv:
  assumes inv: "ipc_inv s" and run: "rcv_wait r pid m s = Inr s'"
  shows "ipc_inv s'"
proof -
  note sc = rcv_wait_result(1) [OF run] and as = rcv_wait_result(2) [OF run]
  show ?thesis
  proof (rule ipc_inv_change [OF inv, where c = r])
    show "comm_eq (proc_at s' i) (proc_at s i)" if "i \<noteq> r" for i
      using comm_eq_view [OF schedule_frame(1) [OF sc, of i]] that by simp
    show "comm_eq (proc_at s' r) (proc_at s r) \<or> proc_ok (proc_at s' r) \<and> \<not> sending (proc_at s' r)"
      using as by (auto simp: assert_multiple_def Let_def proc_ok_def sending_def)
  qed (use inv schedule_frame(2) [OF sc] schedule_current [OF sc] in \<open>auto simp: ipc_inv_def\<close>)
qed

lemma kernel_msg_rcv_inv:
  assumes inv: "ipc_inv s" and run: "kernel_msg_rcv (p_proc_ready s) pid m s = Inr (s', ret)"
  shows "ipc_inv s'"
proof (cases "has_int_msg (proc_at s (p_proc_ready s)) \<noteq> 0 \<and> (pid = ANY \<or> pid = INTERRUPT)")
  case True
  with run have "rcv_interrupt (p_proc_ready s) m s = Inr s'"
    unfolding kernel_msg_rcv_def by (auto simp: outcome_iffs)
  then show ?thesis by (rule rcv_interrupt_inv [OF inv])
next
  case False
  with run obtain c where ch: "choose_sender (p_proc_ready s) pid s = Inr c"
    and br: "(case c of Some (sender, prev) \<Rightarrow> rcv_copy (p_proc_ready s) sender prev m s
               | None \<Rightarrow> rcv_wait (p_proc_ready s) pid m s) = Inr s'"
    unfolding kernel_msg_rcv_def by (auto simp: outcome_iffs)
  show ?thesis
  proof (cases c)
    case None
    with br rcv_wait_inv [OF inv] show ?thesis by simp
  next
    case (Some sp)
    with br ch rcv_copy_inv [OF inv] show ?thesis by (cases sp) auto
  qed
qed

lemma hw_int_inv:
  assumes inv: "ipc_inv s" and run: "hw_int_notification t s = Inr s'"
  shows "ipc_inv s' \<and> p_proc_ready s' = p_proc_ready s \<and> nested_int s' = nested_int s \<and> sys_ticks s' = sys_ticks s"
proof -
  from run have sh: "p_proc_ready s' = p_proc_ready s" "length (proc_table s') = length (proc_table s)"
    "nested_int s' = nested_int s" "sys_ticks s' = sys_ticks s"
    and other: "\<And>i. i \<noteq> t \<Longrightarrow> comm_eq (proc_at s' i) (proc_at s i)"
    and own: "comm_eq (proc_at s' t) (proc_at s t) \<or> assert_multiple 0 t 0 9 s'"
    by (auto simp: hw_int_notification_def outcome_iffs Let_def split: if_splits)
  have ok: "comm_eq (proc_at s' t) (proc_at s t) \<or> proc_ok (proc_at s' t) \<and> proc_state (proc_at s' t) = 0"
    using own by (auto simp: assert_multiple_def Let_def intro: runnable_ok)
  have "proc_state (proc_at s' (p_proc_ready s')) = RUNNABLE"
    using inv ok other [of "p_proc_ready s"] sh(1)
    by (cases "p_proc_ready s = t") (auto simp: ipc_inv_def comm_eq_def)
  moreover have "valid_pid (p_proc_ready s')" using inv sh(1) by (simp add: ipc_inv_def)
  ultimately have "ipc_inv s'"
    using ok by (intro ipc_inv_change [OF inv sh(2) other, where c = t]) auto
  with sh show ?thesis by simp
qed

lemma ipc_inv_same:
  assumes "ipc_inv s" "length (proc_table s') = length (proc_table s)" "p_proc_ready s' = p_proc_ready s"
    "\<And>i. comm_eq (proc_at s' i) (proc_at s i)"
  shows "ipc_inv s'"
  by (rule ipc_inv_change [OF assms(1, 2), where c = 0])
    (use assms in \<open>auto simp: ipc_inv_def comm_eq_def\<close>)

lemma schedule_inv:
  assumes inv: "ipc_inv s" and sc: "schedule s = Some s'"
  shows "ipc_inv s'"
  by (rule ipc_inv_change [OF inv schedule_frame(2) [OF sc], where c = 0])
    (use comm_eq_view [OF schedule_frame(1) [OF sc]] schedule_current [OF sc] inv in \<open>auto simp: ipc_inv_def\<close>)

lemma clock_tick_inv: "ipc_inv s \<Longrightarrow> ipc_inv (clock_tick s)"
  by (erule ipc_inv_same) (simp_all add: clock_tick_def Let_def)

lemma clock_handler_inv:
  assumes inv: "ipc_inv s" and run: "clock_handler s = Inr s'"
  shows "ipc_inv s'"
proof -
  from run obtain s3 where w: "s3 = clock_tick s \<or> wake_up_tty (clock_tick s) = Inr s3"
    and e: "s' = s3 \<or> schedule s3 = Some s'"
    by (auto simp: clock_handler_def Let_def outcome_iffs split: if_splits)
  have "ipc_inv s3"
    using w clock_tick_inv [OF inv] hw_int_inv [of "clock_tick s" TASK_TTY s3] by (auto simp: wake_up_tty_def)
  with e schedule_inv show ?thesis by blast
qed

lemma sys_printx_inv: "ipc_inv s \<Longrightarrow> sys_printx c b s = Inr s' \<Longrightarrow> ipc_inv s'"
  by (rule ipc_inv_same [of s]) (auto simp: sys_printx_def outcome_iffs)

lemma syscall_inv:
  assumes inv: "ipc_inv s" and v: "fn = SEND \<longrightarrow> valid_pid pid"
    and run: "sys_send_rcv_handler fn pid m (p_proc_ready s) s = Inr (s', ret)"
  shows "ipc_inv s'"
proof (cases "msg_type (kmem s) m = PRINTX")
  case True
  with run show ?thesis using sys_printx_inv [OF inv] by (auto simp: sys_send_rcv_handler_def outcome_iffs)
next
  case False
  with run obtain la where
    "fn = SEND \<and> kernel_msg_send (p_proc_ready s) pid m (s\<lparr>kmem := wr32 (kmem s) la (word_of_int (p_proc_ready s))\<rparr>) = Inr (s', ret) \<or>
     fn = RECEIVE \<and> kernel_msg_rcv (p_proc_ready s) pid m (s\<lparr>kmem := wr32 (kmem s) la (word_of_int (p_proc_ready s))\<rparr>) = Inr (s', ret)"
    by (auto simp: sys_send_rcv_handler_def outcome_iffs Let_def split: if_splits)
  moreover have inv1: "ipc_inv (s\<lparr>kmem := mm\<rparr>)" for mm by (rule ipc_inv_same [OF inv]) simp_all
  ultimately show ?thesis using v kernel_msg_send_inv [OF inv1] kernel_msg_rcv_inv [OF inv1] by auto
qed

lemma kstep_inv: "kstep s s' \<Longrightarrow> ipc_inv s \<Longrightarrow> ipc_inv s'"
proof (erule kstepE, goal_cases)
  case 4
  then show ?case by (intro ipc_inv_same [of s s']) simp_all
next
  case (5 mm)
  then show ?case by (intro ipc_inv_same [of s s']) simp_all
qed (auto dest: syscall_inv clock_handler_inv hw_int_inv)

lemma reachable_inv: "reachable s0 s \<Longrightarrow> ipc_inv s0 \<Longrightarrow> ipc_inv s"
  by (induction rule: reachable.induct) (auto intro: kstep_inv)

section \<open>From start-up on\<close>

lemma boot_ipc_inv:
  assumes "init_process entry stk s = Inr s0" and "length (proc_table s) = NR_PROC_SLOTS"
  shows "ipc_inv s0"
proof -
  note sp = init_process_spec [OF assms(1)]
  have ok: "proc_ok (proc_at s0 i) \<and> \<not> sending (proc_at s0 i)" if "valid_pid i" for i
    using sp(2) [OF that]
    by (auto simp: booted_def booted_native_def fill_proc_def proc_ok_def sending_def receiving_def split: if_splits)
  have "send_graph s0 = {}" using ok by (auto simp: send_graph_def)
  moreover have "proc_state (proc_at s0 0) = RUNNABLE"
    using sp(2) [of 0] by (auto simp: booted_def booted_native_def fill_proc_def)
  ultimately show ?thesis using ok sp(1, 3) assms(2) by (simp add: ipc_inv_def wf_acyclic)
qed

lemmas reachable_boot_inv = reachable_inv [OF _ boot_ipc_inv]

text \<open>C1: From start-up on, through any sequence of system calls (sends to a process of the table,
  receives, prints), clock, disk and key interrupts that does not stop the machine, every process is
  in a consistent communication state: a runnable one has no message pending, a sender has a message
  and a destination in the table and is not also receiving, a receiver has a buffer and a source. The
  process that runs is runnable, and no cycle of blocked senders ever forms.\<close>

theorem ipc_always_consistent:
  assumes "init_process entry stk s = Inr s0" and "length (proc_table s) = NR_PROC_SLOTS" and "reachable s0 t"
  shows "(\<forall>i p. valid_pid i \<and> p = proc_at t i \<longrightarrow>
      (proc_state p = RUNNABLE \<longrightarrow>
         pending_msg p = 0 \<and> pid_recvingfrom p = NO_TASK \<and> pid_sendingto p = NO_TASK) \<and>
      (proc_state p AND SENDING \<noteq> 0 \<longrightarrow> proc_state p = SENDING \<and> pending_msg p \<noteq> 0 \<and>
         pid_recvingfrom p = NO_TASK \<and> valid_pid (pid_sendingto p)) \<and>
      (proc_state p AND RECEIVING \<noteq> 0 \<longrightarrow>
         pending_msg p \<noteq> 0 \<and> pid_recvingfrom p \<noteq> NO_TASK \<and> pid_sendingto p = NO_TASK)) \<and>
    valid_pid (p_proc_ready t) \<and> proc_state (proc_at t (p_proc_ready t)) = RUNNABLE \<and>
    acyclic {(i, j). valid_pid i \<and> proc_state (proc_at t i) AND SENDING \<noteq> 0 \<and> j = pid_sendingto (proc_at t i)}"
  using reachable_boot_inv [OF assms(3, 1, 2)]
  by (simp add: ipc_inv_def proc_ok_def send_graph_def sending_def receiving_def)

theorem ipc_always_consistent_witness:
  "\<exists>s0. init_process (\<lambda>_. 0x1000) 0x50000 sample_machine = Inr s0 \<and>
     proc_state (proc_at (s0\<lparr>key_pressed := 1\<rparr>) (p_proc_ready s0)) = RUNNABLE"
proof -
  obtain s0 where s0: "init_process (\<lambda>_. 0x1000) 0x50000 sample_machine = Inr s0" using sample_boots by blast
  have "length (proc_table sample_machine) = NR_PROC_SLOTS" by (simp add: sample_machine_def)
  moreover have "reachable s0 (s0\<lparr>key_pressed := 1\<rparr>)" by (rule reachable.step [OF reachable.start kstep.key_int])
  ultimately show ?thesis using ipc_always_consistent [OF s0, of "s0\<lparr>key_pressed := 1\<rparr>"] s0 by auto
qed

text \<open>C2: In every such state \<^verbatim>\<open>check_deadlock\<close> terminates for any sender and any receiver in the table, and
  is exact: it reports a deadlock, after printing the chain of names from the receiver on, precisely
  when the receiver is blocked in a chain of sends that leads to the sender.\<close>

theorem check_deadlock_exact:
  assumes "init_process entry stk s = Inr s0" and "length (proc_table s) = NR_PROC_SLOTS" and "reachable s0 t"
    and "valid_pid b"
  shows "if (b, a) \<in> {(i, j). valid_pid i \<and> proc_state (proc_at t i) AND SENDING \<noteq> 0 \<and>
                          j = pid_sendingto (proc_at t i)}\<^sup>+
    then \<exists>names. check_deadlock a b t = Inr (1, name (proc_at t b) # names)
    else check_deadlock a b t = Inr (0, [])"
  using check_deadlock_correct [OF reachable_boot_inv [OF assms(3, 1, 2)] assms(4), of a]
  by (simp add: send_graph_def sending_def)

theorem check_deadlock_exact_witness:
  "\<exists>s0. init_process (\<lambda>_. 0x1000) 0x50000 sample_machine = Inr s0 \<and> check_deadlock 5 3 s0 = Inr (0, [])"
proof -
  obtain s0 where s0: "init_process (\<lambda>_. 0x1000) 0x50000 sample_machine = Inr s0" using sample_boots by blast
  have len: "length (proc_table sample_machine) = NR_PROC_SLOTS" by (simp add: sample_machine_def)
  have "proc_state (proc_at s0 3) = RUNNABLE"
    using init_process_spec(2) [OF s0, of 3] by (auto simp: booted_def booted_native_def fill_proc_def)
  then have "(3, 5) \<notin> {(i, j). valid_pid i \<and> proc_state (proc_at s0 i) AND SENDING \<noteq> 0 \<and>
      j = pid_sendingto (proc_at s0 i)}\<^sup>+"
    using send_graph_trancl_end [of s0 3 5] by (simp add: send_graph_def sending_def)
  then show ?thesis using check_deadlock_exact [OF s0 len reachable.start, of 3 5] s0 by simp
qed

text \<open>The clock interrupt counts modulo \<^verbatim>\<open>MAX_TICKS\<close>, so the tick counter stays in range, and charges
  exactly the current process one tick, never below zero. With no key pending and ticks left it
  changes nothing else; otherwise every process keeps its communication state except the terminal
  task, which a pending key wakes.\<close>

theorem clock_handler_charges:
  assumes "ipc_inv s" and "0 \<le> sys_ticks s" and "sys_ticks s < MAX_TICKS"
    and "0 \<le> ticks (proc_at s (p_proc_ready s))"
    and "clock_handler s = Inr s'"
  shows "sys_ticks s' = (sys_ticks s + 1) mod MAX_TICKS \<and> ipc_inv s' \<and>
    (1 < ticks (proc_at s (p_proc_ready s)) \<and> key_pressed s = 0 \<longrightarrow>
       s' = upd_proc (p_proc_ready s) (\<lambda>p. p\<lparr>ticks := ticks p - 1\<rparr>) (s\<lparr>sys_ticks := (sys_ticks s + 1) mod MAX_TICKS\<rparr>)) \<and>
    (\<forall>i. i \<noteq> TASK_TTY \<or> key_pressed s = 0 \<longrightarrow> comm_eq (proc_at s' i) (proc_at s i))"
proof -
  let ?t = "clock_tick s"
  have md: "(if sys_ticks s + 1 \<ge> MAX_TICKS then 0 else sys_ticks s + 1) = (sys_ticks s + 1) mod MAX_TICKS"
    using assms(2, 3) by (cases "sys_ticks s + 1 = MAX_TICKS") simp_all
  have st: "sys_ticks ?t = (sys_ticks s + 1) mod MAX_TICKS"
    unfolding clock_tick_def Let_def md by simp
  have cq: "comm_eq (proc_at ?t i) (proc_at s i)" for i by (simp add: clock_tick_def Let_def)
  have kp: "key_pressed ?t = key_pressed s" by (simp add: clock_tick_def Let_def)
  have tick: "?t = upd_proc (p_proc_ready s) (\<lambda>p. p\<lparr>ticks := ticks p - 1\<rparr>) (s\<lparr>sys_ticks := (sys_ticks s + 1) mod MAX_TICKS\<rparr>)"
    if "1 < ticks (proc_at s (p_proc_ready s))"
    using that unfolding clock_tick_def Let_def md by simp
  from assms(5) obtain u where w: "(if key_pressed s \<noteq> 0 then wake_up_tty ?t else Inr ?t) = Inr u"
    and e: "s' = u \<and> (nested_int u \<noteq> 0 \<or> ticks (proc_at u (p_proc_ready u)) > 0) \<or>
            nested_int u = 0 \<and> ticks (proc_at u (p_proc_ready u)) \<le> 0 \<and> schedule u = Some s'"
    by (auto simp: clock_handler_def Let_def kp obind_Inr_iff split: if_splits)
  have su: "sys_ticks u = sys_ticks ?t"
    using w hw_int_inv [OF clock_tick_inv [OF assms(1)], of TASK_TTY u] by (auto simp: wake_up_tty_def split: if_splits)
  have cu: "comm_eq (proc_at u i) (proc_at s i)" if "i \<noteq> TASK_TTY \<or> key_pressed s = 0" for i
    using w that cq [of i]
    by (auto simp: wake_up_tty_def hw_int_notification_def Let_def outcome_iffs split: if_splits)
  have es: "sys_ticks s' = sys_ticks u" and ec: "\<And>i. comm_eq (proc_at s' i) (proc_at u i)"
    using e schedule_frame(1, 5) [of u s'] comm_eq_view by auto
  have "s' = ?t" if "1 < ticks (proc_at s (p_proc_ready s))" "key_pressed s = 0"
    using w e that tick [OF that(1)] by auto
  moreover have "comm_eq (proc_at s' i) (proc_at s i)" if "i \<noteq> TASK_TTY \<or> key_pressed s = 0" for i
    by (rule comm_eq_trans [OF ec cu [OF that]])
  ultimately show ?thesis
    using st su es tick clock_handler_inv [OF assms(1, 5)] by (intro conjI impI allI) auto
qed

theorem clock_handler_charges_witness:
  "\<exists>s0 s'. init_process (\<lambda>_. 0x1000) 0x50000 sample_machine = Inr s0 \<and> clock_handler (s0\<lparr>key_pressed := 0\<rparr>) = Inr s' \<and>
     sys_ticks s' = 1 \<and> ticks (proc_at s' 0) = 14"
proof -
  obtain s0 where s0: "init_process (\<lambda>_. 0x1000) 0x50000 sample_machine = Inr s0" using sample_boots by blast
  let ?s = "s0\<lparr>key_pressed := 0\<rparr>"
  have len: "length (proc_table sample_machine) = NR_PROC_SLOTS" by (simp add: sample_machine_def)
  have inv: "ipc_inv ?s" by (rule ipc_inv_same [OF boot_ipc_inv [OF s0 len]]) simp_all
  note sp = init_process_spec [OF s0]
  have tk: "ticks (proc_at s0 0) = 15"
    using sp(2) [of 0] by (auto simp: booted_def booted_native_def fill_proc_def native_prio_def)
  have "\<exists>s'. clock_handler ?s = Inr s'"
    using sp(3-5) tk by (simp add: clock_handler_def clock_tick_def Let_def)
  then obtain s' where s': "clock_handler ?s = Inr s'" by blast
  have "sys_ticks s' = (sys_ticks ?s + 1) mod MAX_TICKS \<and>
      s' = upd_proc (p_proc_ready ?s) (\<lambda>p. p\<lparr>ticks := ticks p - 1\<rparr>) (?s\<lparr>sys_ticks := (sys_ticks ?s + 1) mod MAX_TICKS\<rparr>)"
    using clock_handler_charges [OF inv _ _ _ s'] sp(3-5) tk by simp
  then show ?thesis using s0 s' sp(3-5) tk by auto
qed

end
