(* ===== verification/IpcQueue.thy ===== *)
theory IpcQueue
  imports IpcInv
begin

text \<open>
  The queues of blocked senders. The abstract specification gives each process a first-in-first-out
  list of the processes waiting to send to it; \<open>qrel\<close> relates it to the links \<^verbatim>\<open>q_pending_proc\<close> of the
  process table. The link field of a process serves both as the head of its own queue and as its
  place in another queue, so the relation holds as long as a process that others wait for does not
  itself block on a send: under that discipline \<^verbatim>\<open>kernel_msg_send\<close> and \<^verbatim>\<open>kernel_msg_rcv\<close> implement the
  specification, without a failing assertion. Outside of it a sender ends up in the queue of
  another process.
\<close>

unbundle bit_operations_syntax

section \<open>Linked queues\<close>

fun chain :: "kernel \<Rightarrow> int option \<Rightarrow> int list \<Rightarrow> bool" where
  "chain s h [] \<longleftrightarrow> h = None"
| "chain s h (q # qs) \<longleftrightarrow> h = Some q \<and> chain s (q_pending_proc (proc_at s q)) qs"

lemma chain_cong:
  "(\<And>i. i \<in> set qs \<Longrightarrow> q_pending_proc (proc_at s' i) = q_pending_proc (proc_at s i)) \<Longrightarrow>
   chain s' h qs = chain s h qs"
  by (induction qs arbitrary: h) simp_all

lemma chain_unique: "chain s h qs \<Longrightarrow> chain s h qs' \<Longrightarrow> qs = qs'"
proof (induction qs arbitrary: h qs')
  case (Cons q qs)
  then show ?case by (cases qs') auto
qed (metis chain.elims(2) chain.simps(1) option.discI)

lemma queue_last_chain: "chain s (q_pending_proc (proc_at s p)) qs \<Longrightarrow> queue_last s p = Some (last (p # qs))"
proof (induction qs arbitrary: p)
  case Nil
  then show ?case by (subst queue_last.simps) simp
next
  case (Cons q qs)
  then show ?case by (subst queue_last.simps) simp
qed

text \<open>Appending behind the last link.\<close>

lemma chain_append:
  assumes "chain s h qs" "qs \<noteq> []" "distinct qs" "x \<notin> set qs"
    and "q_pending_proc (proc_at s' (last qs)) = Some x" "q_pending_proc (proc_at s' x) = None"
    and "\<And>i. i \<in> set qs \<Longrightarrow> i \<noteq> last qs \<Longrightarrow> q_pending_proc (proc_at s' i) = q_pending_proc (proc_at s i)"
  shows "chain s' h (qs @ [x])"
  using assms
proof (induction qs arbitrary: h)
  case (Cons q qs)
  show ?case
  proof (cases "qs = []")
    case False
    have tl: "chain s' (q_pending_proc (proc_at s q)) (qs @ [x])"
    proof (rule Cons.IH)
      show "q_pending_proc (proc_at s' i) = q_pending_proc (proc_at s i)" if "i \<in> set qs" "i \<noteq> last qs" for i
        using Cons.prems(7) [of i] that False by simp
    qed (use Cons.prems False in auto)
    have "q \<noteq> last (q # qs)" using Cons.prems(3) False by auto
    then have "q_pending_proc (proc_at s' q) = q_pending_proc (proc_at s q)" using Cons.prems(7) [of q] by simp
    with tl Cons.prems(1) show ?thesis by simp
  qed (use Cons.prems in simp)
qed simp

lemma append_sender_chain:
  assumes ch: "chain s (q_pending_proc (proc_at s r)) qs" and d: "distinct (r # qs)" and x: "x \<notin> set (r # qs)"
  obtains l s3 where "append_sender x r s = Inr s3" and "l = last (r # qs)"
    and "s3 = upd_proc l (\<lambda>P. P\<lparr>q_pending_proc := Some x\<rparr>) s"
    and "chain (upd_proc x (\<lambda>P. P\<lparr>q_pending_proc := None\<rparr>) s3)
           (q_pending_proc (proc_at (upd_proc x (\<lambda>P. P\<lparr>q_pending_proc := None\<rparr>) s3) r)) (qs @ [x])"
proof -
  let ?l = "last (r # qs)"
  let ?s3 = "upd_proc ?l (\<lambda>P. P\<lparr>q_pending_proc := Some x\<rparr>) s"
  let ?s4 = "upd_proc x (\<lambda>P. P\<lparr>q_pending_proc := None\<rparr>) ?s3"
  have ap: "append_sender x r s = Inr ?s3"
  proof (cases qs)
    case (Cons q qs')
    with ch have "queue_last s q = Some (last (q # qs'))" by (intro queue_last_chain) simp
    with ch Cons show ?thesis by (simp add: append_sender_def)
  qed (use ch in \<open>simp add: append_sender_def\<close>)
  have "chain ?s4 (q_pending_proc (proc_at ?s4 r)) (qs @ [x])"
  proof (cases "qs = []")
    case False
    then have "r \<noteq> ?l" using d by auto
    moreover have "chain ?s4 (q_pending_proc (proc_at s r)) (qs @ [x])"
      by (rule chain_append [OF ch False]) (use d x False in auto)
    ultimately show ?thesis using x by auto
  qed (use x in auto)
  with ap that show thesis by blast
qed

lemma find_in_queue_chain:
  assumes "chain s h (xs @ x # ys)" "x \<notin> set xs"
  shows "find_in_queue s x h prev = Some (if xs = [] then prev else Some (last xs), True)"
  using assms
proof (induction xs arbitrary: h prev)
  case Nil
  then show ?case by (subst find_in_queue.simps) simp
next
  case (Cons a xs)
  then show ?case by (subst find_in_queue.simps) auto
qed

lemma chain_remove:
  assumes "chain s h (xs @ x # ys)" "distinct (xs @ x # ys)" "xs \<noteq> []"
    and "q_pending_proc (proc_at s' (last xs)) = q_pending_proc (proc_at s x)"
    and "\<And>i. i \<in> set (xs @ ys) \<Longrightarrow> i \<noteq> last xs \<Longrightarrow> q_pending_proc (proc_at s' i) = q_pending_proc (proc_at s i)"
  shows "chain s' h (xs @ ys)"
  using assms
proof (induction xs arbitrary: h)
  case (Cons a xs)
  show ?case
  proof (cases "xs = []")
    case True
    have "chain s' (q_pending_proc (proc_at s x)) ys = chain s (q_pending_proc (proc_at s x)) ys"
      by (rule chain_cong) (use Cons.prems True in auto)
    with Cons.prems True show ?thesis by simp
  next
    case False
    have tl: "chain s' (q_pending_proc (proc_at s a)) (xs @ ys)"
    proof (rule Cons.IH)
      show "q_pending_proc (proc_at s' i) = q_pending_proc (proc_at s i)"
        if "i \<in> set (xs @ ys)" "i \<noteq> last xs" for i
        using Cons.prems(5) [of i] that False by auto
    qed (use Cons.prems False in auto)
    have "a \<noteq> last (a # xs)" using Cons.prems(2) False by auto
    then have "q_pending_proc (proc_at s' a) = q_pending_proc (proc_at s a)" using Cons.prems(5) [of a] by simp
    with tl Cons.prems(1) show ?thesis by simp
  qed
qed simp

lemma unlink_sender_chain:
  assumes ch: "chain s (q_pending_proc (proc_at s r)) (xs @ x # ys)" and d: "distinct (r # xs @ x # ys)"
    and prev: "prev = (if xs = [] then None else Some (last xs))"
  obtains l s1 where "unlink_sender r x prev s = Inr s1" and "l = last (r # xs)"
    and "s1 = upd_proc x (\<lambda>S. S\<lparr>q_pending_proc := None\<rparr>)
               (upd_proc l (\<lambda>P. P\<lparr>q_pending_proc := q_pending_proc (proc_at s x)\<rparr>) s)"
    and "chain s1 (q_pending_proc (proc_at s1 r)) (xs @ ys)"
proof -
  let ?l = "last (r # xs)"
  let ?s1 = "upd_proc x (\<lambda>S. S\<lparr>q_pending_proc := None\<rparr>)
               (upd_proc ?l (\<lambda>P. P\<lparr>q_pending_proc := q_pending_proc (proc_at s x)\<rparr>) s)"
  have lx: "?l \<noteq> x" using d by (auto split: if_splits)
  have un: "unlink_sender r x prev s = Inr ?s1"
  proof (cases xs)
    case (Cons a xs')
    then have "q_pending_proc (proc_at s r) = Some a" "a \<noteq> x" using ch d by auto
    with Cons prev show ?thesis by (simp add: unlink_sender_def)
  qed (use ch prev in \<open>simp add: unlink_sender_def\<close>)
  have "chain ?s1 (q_pending_proc (proc_at ?s1 r)) (xs @ ys)"
  proof (cases "xs = []")
    case True
    have "chain ?s1 (q_pending_proc (proc_at s x)) ys = chain s (q_pending_proc (proc_at s x)) ys"
      by (rule chain_cong) (use d True in auto)
    with True ch d show ?thesis by auto
  next
    case False
    have rl: "r \<noteq> ?l" "r \<noteq> x" using d False by auto
    have "chain ?s1 (q_pending_proc (proc_at s r)) (xs @ ys)"
      by (rule chain_remove [OF ch _ False]) (use d False lx in auto)
    with rl show ?thesis by auto
  qed
  with un that show thesis by blast
qed

section \<open>The specification and its relation to the table\<close>

type_synonym queues = "int \<Rightarrow> int list"

text \<open>The abstract operations: a blocked send joins the queue of its receiver at the end; a receive takes
  the first sender, or the one it names.\<close>

definition a_send :: "int \<Rightarrow> int \<Rightarrow> queues \<Rightarrow> queues" where
  "a_send sender receiver Q = Q(receiver := Q receiver @ [sender])"

definition a_receive :: "int \<Rightarrow> int \<Rightarrow> queues \<Rightarrow> queues" where
  "a_receive receiver sender Q = Q(receiver := remove1 sender (Q receiver))"

definition waiting_for :: "kernel \<Rightarrow> int \<Rightarrow> int set" where
  "waiting_for s r = {i. valid_pid i \<and> sending (proc_at s i) \<and> pid_sendingto (proc_at s i) = r}"

definition queue_ok :: "kernel \<Rightarrow> int \<Rightarrow> int list \<Rightarrow> bool" where
  "queue_ok s r qs \<longleftrightarrow> distinct qs \<and> set qs = waiting_for s r \<and>
     (if sending (proc_at s r) then qs = [] else chain s (q_pending_proc (proc_at s r)) qs)"

definition qrel :: "kernel \<Rightarrow> queues \<Rightarrow> bool" where
  "qrel s Q \<longleftrightarrow> ipc_inv s \<and> (\<forall>r. valid_pid r \<longrightarrow> queue_ok s r (Q r))"

lemma qrelD:
  assumes "qrel s Q" "valid_pid r"
  shows "ipc_inv s" "distinct (Q r)" "set (Q r) = waiting_for s r"
    "\<not> sending (proc_at s r) \<Longrightarrow> chain s (q_pending_proc (proc_at s r)) (Q r)"
    "sending (proc_at s r) \<Longrightarrow> Q r = []"
  using assms by (auto simp: qrel_def queue_ok_def)

lemma runnable_ok_fields:
  assumes "ipc_inv s" "valid_pid i" "proc_state (proc_at s i) = 0"
  shows "pending_msg (proc_at s i) = 0" "pid_recvingfrom (proc_at s i) = NO_TASK" "pid_sendingto (proc_at s i) = NO_TASK"
  using assms by (auto simp: ipc_inv_def proc_ok_def)

text \<open>Members of a queue are valid, blocked and distinct from the process they wait for.\<close>

lemma waiting_facts:
  assumes "qrel s Q" "valid_pid r" "q \<in> set (Q r)"
  shows "valid_pid q" "sending (proc_at s q)" "pid_sendingto (proc_at s q) = r"
    "proc_state (proc_at s q) = SENDING" "pending_msg (proc_at s q) \<noteq> 0" "pid_recvingfrom (proc_at s q) = NO_TASK"
proof -
  show "valid_pid q" and q: "sending (proc_at s q)" "pid_sendingto (proc_at s q) = r"
    using assms qrelD(3) [OF assms(1, 2)] by (auto simp: waiting_for_def)
  with assms(1) show "proc_state (proc_at s q) = SENDING" "pending_msg (proc_at s q) \<noteq> 0"
    "pid_recvingfrom (proc_at s q) = NO_TASK"
    by (auto simp: qrel_def ipc_inv_def proc_ok_def)
qed

lemma queues_disjoint:
  assumes "qrel s Q" "valid_pid r" "valid_pid r'" "r \<noteq> r'"
  shows "set (Q r) \<inter> set (Q r') = {}"
  using qrelD(3) [OF assms(1, 2)] qrelD(3) [OF assms(1, 3)] assms(4) by (auto simp: waiting_for_def)

text \<open>A change that keeps the senders and the links keeps the relation.\<close>

lemma qrel_same:
  assumes rel: "qrel s Q" and inv: "ipc_inv s'"
    and snd: "\<And>i. valid_pid i \<Longrightarrow> sending (proc_at s' i) = sending (proc_at s i) \<and>
       (sending (proc_at s i) \<longrightarrow> pid_sendingto (proc_at s' i) = pid_sendingto (proc_at s i)) \<and>
       q_pending_proc (proc_at s' i) = q_pending_proc (proc_at s i)"
  shows "qrel s' Q"
proof -
  have w: "waiting_for s' r = waiting_for s r" for r using snd by (auto simp: waiting_for_def)
  have "queue_ok s' r (Q r)" if r: "valid_pid r" for r
  proof -
    have "chain s' h (Q r) = chain s h (Q r)" for h
      using waiting_facts(1) [OF rel r] snd by (intro chain_cong) blast
    with rel r snd [OF r] w show ?thesis by (auto simp: qrel_def queue_ok_def)
  qed
  with inv show ?thesis by (simp add: qrel_def)
qed

section \<open>Sending\<close>

definition accepts :: "kernel \<Rightarrow> int \<Rightarrow> int \<Rightarrow> bool" where
  "accepts s r sender \<longleftrightarrow> receiving (proc_at s r) \<and>
     (pid_recvingfrom (proc_at s r) = sender \<or> pid_recvingfrom (proc_at s r) = ANY)"

lemma va2la_cong: "ldts (proc_at s' pid) = ldts (proc_at s pid) \<Longrightarrow> proc_va2la s' pid va = proc_va2la s pid va"
  by (simp add: proc_va2la_def ldt_idx_to_base_addr_def Let_def)

text \<open>A rendezvous: the message goes straight to the waiting receiver.\<close>

lemma send_deliver_total:
  assumes inv: "ipc_inv s" and cur: "c = p_proc_ready s" and v: "valid_pid r" and ne: "c \<noteq> r"
    and rcv: "proc_state (proc_at s r) = RECEIVING" and m: "m \<noteq> 0"
    and src: "proc_va2la s c m = Inr src" and dst: "proc_va2la s r (pending_msg (proc_at s r)) = Inr dst"
  shows "send_deliver c r m s = Inr (upd_proc r (\<lambda>R. R\<lparr>pending_msg := 0, proc_state := 0, pid_recvingfrom := NO_TASK\<rparr>)
     (s\<lparr>kmem := phys_copy (kmem s) dst src MSG_SIZE\<rparr>))"
proof -
  have ok: "proc_ok (proc_at s r)" using inv v by (simp add: ipc_inv_def)
  have "receiving (proc_at s r)" using rcv by (simp add: receiving_def)
  with ok have "pending_msg (proc_at s r) \<noteq> 0" "pid_sendingto (proc_at s r) = NO_TASK" by (simp_all add: proc_ok_def)
  moreover have "proc_state (proc_at s c) = 0" "valid_pid c" using inv cur by (simp_all add: ipc_inv_def)
  ultimately show ?thesis
    using runnable_ok_fields [OF inv, of c] m src dst ne rcv
    by (simp add: send_deliver_def assert_multiple_def Let_def unblock_def upd_proc_def)
qed

lemma not_dead_check:
  assumes "ipc_inv s" "valid_pid r" "\<not> sending (proc_at s r)"
  shows "check_deadlock c r s = Inr (0, [])"
  using check_deadlock_correct [OF assms(1, 2), of c] send_graph_trancl_end [OF assms(3)] by simp

text \<open>C3: A send to a process that waits for the sender (or for anyone) is a rendezvous: it always
  succeeds, copies the 48 bytes of the message from the sender's buffer to the receiver's, makes the
  receiver runnable with no pending receive, leaves the sender running and changes nothing else.\<close>

theorem send_rendezvous:
  assumes "ipc_inv s" and "valid_pid r" and "p_proc_ready s \<noteq> r" and "m \<noteq> 0"
    and "proc_state (proc_at s r) = RECEIVING"
    and "pid_recvingfrom (proc_at s r) = p_proc_ready s \<or> pid_recvingfrom (proc_at s r) = ANY"
    and "proc_va2la s (p_proc_ready s) m = Inr src" and "proc_va2la s r (pending_msg (proc_at s r)) = Inr dst"
    and "apart src 48 dst 48"
  shows "\<exists>s'. kernel_msg_send (p_proc_ready s) r m s = Inr (s', 0) \<and>
     s' = upd_proc r (\<lambda>R. R\<lparr>pending_msg := 0, proc_state := RUNNABLE, pid_recvingfrom := NO_TASK\<rparr>)
            (s\<lparr>kmem := phys_copy (kmem s) dst src MSG_SIZE\<rparr>) \<and>
     read_bytes (kmem s') dst 48 = read_bytes (kmem s) src 48 \<and>
     read_bytes (kmem s') src 48 = read_bytes (kmem s) src 48 \<and> ipc_inv s'"
proof -
  let ?s' = "upd_proc r (\<lambda>R. R\<lparr>pending_msg := 0, proc_state := RUNNABLE, pid_recvingfrom := NO_TASK\<rparr>)
            (s\<lparr>kmem := phys_copy (kmem s) dst src MSG_SIZE\<rparr>)"
  have del: "send_deliver (p_proc_ready s) r m s = Inr ?s'"
    by (rule send_deliver_total [OF assms(1) refl assms(2, 3, 5, 4, 7, 8)])
  have "\<not> sending (proc_at s r)" using assms(5) by (simp add: sending_def)
  from not_dead_check [OF assms(1, 2) this, of "p_proc_ready s"] del
  have "kernel_msg_send (p_proc_ready s) r m s = Inr (?s', 0)"
    using assms(3, 5, 6) by (simp add: kernel_msg_send_def Let_def)
  moreover have le: "dst = src \<or> unat MSG_SIZE \<le> unat (dst - src)" using assms(9) by (simp add: apart_def)
  have "read_bytes (kmem ?s') dst 48 = read_bytes (kmem s) src 48"
    using memcpy_read [OF le, of "kmem s"] by simp
  moreover have "read_bytes (kmem ?s') src 48 = read_bytes (kmem s) src 48"
    using memcpy_frame [OF le, of src 48 "kmem s"] apart_sym [OF assms(9)] by simp
  moreover have "ipc_inv ?s'" by (rule send_deliver_inv [OF assms(1) del])
  ultimately show ?thesis by blast
qed

lemma schedule_total:
  assumes "has_ticks (proc_table s) \<or> has_priority (proc_table s)"
  shows "\<exists>s'. schedule s = Some s'"
  using assms schedule_ready [of s] schedule_ready [of "s\<lparr>proc_table := sched_refill (proc_table s)\<rparr>"]
    schedule_refills [of s] by (cases "has_ticks (proc_table s)") (auto simp: has_ticks_refill)

text \<open>Another process can run: the scheduler will find it.\<close>

definition can_switch :: "kernel \<Rightarrow> int \<Rightarrow> bool" where
  "can_switch s c \<longleftrightarrow> (\<exists>i. valid_pid i \<and> i \<noteq> c \<and> proc_state (proc_at s i) = RUNNABLE \<and>
     (0 < ticks (proc_at s i) \<or> 0 < priority (proc_at s i)))"

lemma can_switch_schedules:
  assumes "can_switch s c" "length (proc_table s') = 37"
    and "\<And>i. valid_pid i \<Longrightarrow> i \<noteq> c \<Longrightarrow> proc_state (proc_at s i) = RUNNABLE \<Longrightarrow>
      proc_state (proc_at s' i) = RUNNABLE \<and> ticks (proc_at s' i) = ticks (proc_at s i) \<and>
      priority (proc_at s' i) = priority (proc_at s i)"
  shows "\<exists>s''. schedule s' = Some s''"
proof -
  from assms(1) obtain i where i: "valid_pid i" "i \<noteq> c" "proc_state (proc_at s i) = RUNNABLE"
    "0 < ticks (proc_at s i) \<or> 0 < priority (proc_at s i)" by (auto simp: can_switch_def)
  have "proc_at s' i \<in> set (proc_table s')"
    using i(1) assms(2) by (simp add: proc_at_def nat_less_iff)
  with i assms(3) [OF i(1-3)] show ?thesis
    by (intro schedule_total) (auto simp: has_ticks_def has_priority_def)
qed

lemma qrel_view:
  assumes rel: "qrel s Q" and inv: "ipc_inv s'" and v: "\<And>i. ipc_view (proc_at s' i) = ipc_view (proc_at s i)"
  shows "qrel s' Q"
  by (rule qrel_same [OF rel inv]) (use ipc_viewD [OF v] in \<open>auto simp: sending_def\<close>)

lemma upd_twice:
  "upd_proc i g (upd_proc i f s) = upd_proc i (\<lambda>p. g (f p)) s"
  by (auto simp: upd_proc_def put_proc_def proc_at_def)

lemma queue_ok_view:
  assumes "queue_ok s r qs" and v: "\<And>i. ipc_view (proc_at s' i) = ipc_view (proc_at s i)"
  shows "queue_ok s' r qs"
proof -
  have "waiting_for s' r = waiting_for s r" "sending (proc_at s' r) = sending (proc_at s r)"
    using ipc_viewD(1, 5) [OF v] by (auto simp: waiting_for_def sending_def)
  moreover have "chain s' h qs = chain s h qs" for h using ipc_viewD(3) [OF v] by (intro chain_cong)
  ultimately show ?thesis using assms(1) ipc_viewD(3) [OF v] by (simp add: queue_ok_def)
qed

text \<open>The queues after the sender is linked in, before the scheduler runs.\<close>

lemma enqueue_queue_ok:
  assumes rel: "qrel s Q" and vr: "valid_pid r" and vc: "valid_pid c" and cr: "c \<noteq> r"
    and nr: "\<not> sending (proc_at s r)" and nc: "proc_state (proc_at s c) = RUNNABLE" and qc: "Q c = []"
    and ch: "chain t (q_pending_proc (proc_at t r)) (Q r @ [c])"
    and t: "\<And>i. sending (proc_at t i) = (i = c \<or> sending (proc_at s i))"
      "\<And>i. pid_sendingto (proc_at t i) = (if i = c then r else pid_sendingto (proc_at s i))"
      "\<And>i. i \<noteq> c \<Longrightarrow> i \<noteq> last (r # Q r) \<Longrightarrow> q_pending_proc (proc_at t i) = q_pending_proc (proc_at s i)"
    and x: "valid_pid x"
  shows "queue_ok t x (a_send c r Q x)"
proof -
  have nsc: "\<not> sending (proc_at s c)" using nc by simp
  have w: "waiting_for t x = waiting_for s x \<union> (if x = r then {c} else {})"
    using nsc vc t(1, 2) by (auto simp: waiting_for_def)
  have notin: "c \<notin> set (Q x)" using waiting_facts(2) [OF rel x] nsc by blast
  note qx = qrelD(2, 3) [OF rel x]
  consider (r) "x = r" | (c) "x = c" | (o) "x \<noteq> r" "x \<noteq> c" by blast
  then show ?thesis
  proof cases
    case r
    then show ?thesis using qx w notin ch t(1) [of r] nr cr by (auto simp: queue_ok_def a_send_def)
  next
    case c
    then show ?thesis using qx w cr qc t(1) [of c] by (simp add: queue_ok_def a_send_def)
  next
    case o
    have last: "last (r # Q r) = r \<or> last (r # Q r) \<in> set (Q r)" by simp
    have dis: "i \<noteq> last (r # Q r)" if "i \<in> set (Q x)" for i
      using that last waiting_facts(2) [OF rel x that] nr queues_disjoint [OF rel vr x] o(1) by auto
    have "chain t h (Q x) = chain s h (Q x)" for h
    proof (rule chain_cong)
      fix i assume "i \<in> set (Q x)"
      then show "q_pending_proc (proc_at t i) = q_pending_proc (proc_at s i)"
        using notin dis [of i] by (intro t(3)) auto
    qed
    moreover have "x \<noteq> last (r # Q r)" if "\<not> sending (proc_at s x)"
      using that last o(1) waiting_facts(2) [OF rel vr] by auto
    ultimately show ?thesis
      using qx w o t(1) [of x] t(3) [of x] qrelD(4, 5) [OF rel x] by (auto simp: queue_ok_def a_send_def)
  qed
qed

lemma send_wait_rel:
  assumes rel: "qrel s Q" and cur: "c = p_proc_ready s" and vr: "valid_pid r" and cr: "c \<noteq> r"
    and nr: "\<not> sending (proc_at s r)" and qc: "Q c = []" and m: "m \<noteq> 0" and sw: "can_switch s c"
  shows "\<exists>s'. send_wait c r m s = Inr s' \<and> qrel s' (a_send c r Q) \<and> proc_state (proc_at s' c) = SENDING \<and>
     pid_sendingto (proc_at s' c) = r \<and> pending_msg (proc_at s' c) = m \<and> kmem s' = kmem s"
proof -
  have inv: "ipc_inv s" using rel by (simp add: qrel_def)
  have vc: "valid_pid c" and nc: "proc_state (proc_at s c) = 0" using inv cur by (simp_all add: ipc_inv_def)
  have nsc: "\<not> sending (proc_at s c)" using nc by simp
  let ?s2 = "upd_proc c (\<lambda>S. S\<lparr>proc_state := SENDING, pid_sendingto := r, pending_msg := m\<rparr>) s"
  have "chain ?s2 h (Q r) = chain s h (Q r)" for h by (rule chain_cong) auto
  then have ch2: "chain ?s2 (q_pending_proc (proc_at ?s2 r)) (Q r)" using qrelD(4) [OF rel vr nr] cr by simp
  have "r \<notin> set (Q r)" "c \<notin> set (Q r)" using waiting_facts(2) [OF rel vr] nr nsc by auto
  then have d: "distinct (r # Q r)" "c \<notin> set (r # Q r)" using qrelD(2) [OF rel vr] cr by auto
  obtain l s3 where ap: "append_sender c r ?s2 = Inr s3" and l: "l = last (r # Q r)"
    and s3: "s3 = upd_proc l (\<lambda>P. P\<lparr>q_pending_proc := Some c\<rparr>) ?s2"
    and ch4: "chain (upd_proc c (\<lambda>P. P\<lparr>q_pending_proc := None\<rparr>) s3)
           (q_pending_proc (proc_at (upd_proc c (\<lambda>P. P\<lparr>q_pending_proc := None\<rparr>) s3) r)) (Q r @ [c])"
    by (rule append_sender_chain [OF ch2 d])
  let ?s4 = "upd_proc c (\<lambda>P. P\<lparr>q_pending_proc := None\<rparr>) s3"
  have "\<exists>s'. schedule ?s4 = Some s'"
    by (rule can_switch_schedules [OF sw]) (use inv in \<open>auto simp: s3 ipc_inv_def\<close>)
  then obtain s' where sc: "schedule ?s4 = Some s'" by blast
  note view = schedule_frame(1) [OF sc]
  have c4: "proc_state (proc_at ?s4 c) = SENDING" "pending_msg (proc_at ?s4 c) = m"
    "pid_recvingfrom (proc_at ?s4 c) = NO_TASK" "pid_sendingto (proc_at ?s4 c) = r"
    using runnable_ok_fields(2) [OF inv vc nc] by (auto simp: s3)
  then have as: "assert_multiple c 0 0 3 s'" using ipc_viewD(1-5) [OF view [of c]] m by (simp add: assert_multiple_def Let_def)
  have run: "send_wait c r m s = Inr s'"
    using ap sc as c4(1) nc by (simp add: send_wait_def Let_def upd_twice block_def) (simp add: upd_proc_def nc)
  have nd: "(r, p_proc_ready s) \<notin> (send_graph s)\<^sup>+" by (rule send_graph_trancl_end [OF nr])
  have inv': "ipc_inv s'" by (rule send_wait_inv [OF inv vr nd, of m]) (use run cr cur in auto)
  have "queue_ok ?s4 x (a_send c r Q x)" if "valid_pid x" for x
    by (rule enqueue_queue_ok [OF rel vr vc cr nr nc qc ch4 _ _ _ that])
      (use l in \<open>auto simp: s3 sending_def\<close>)
  then have "qrel s' (a_send c r Q)" using inv' queue_ok_view [OF _ view] by (simp add: qrel_def)
  moreover have "kmem s' = kmem s" using schedule_frame(3) [OF sc] by (simp add: s3)
  ultimately show ?thesis using run c4 ipc_viewD(1, 2, 5) [OF view [of c]] by auto
qed


section \<open>Receiving\<close>

lemma choose_any:
  assumes rel: "qrel s Q" and cur: "c = p_proc_ready s" and q: "Q c = q # qs"
  shows "choose_sender c ANY s = Inr (Some (q, None))"
proof -
  have inv: "ipc_inv s" using rel by (simp add: qrel_def)
  have vc: "valid_pid c" and nc: "proc_state (proc_at s c) = 0" using inv cur by (simp_all add: ipc_inv_def)
  have "q_pending_proc (proc_at s c) = Some q" using qrelD(4) [OF rel vc] nc q by simp
  moreover have "q \<in> set (Q c)" using q by simp
  ultimately show ?thesis
    using waiting_facts [OF rel vc] runnable_ok_fields [OF inv vc nc] nc
    by (simp add: choose_sender_def assert_multiple_def Let_def)
qed

lemma choose_named:
  assumes rel: "qrel s Q" and cur: "c = p_proc_ready s" and q: "Q c = xs @ q # ys"
  shows "choose_sender c q s = Inr (Some (q, if xs = [] then None else Some (last xs)))"
proof -
  have inv: "ipc_inv s" using rel by (simp add: qrel_def)
  have vc: "valid_pid c" and nc: "proc_state (proc_at s c) = 0" using inv cur by (simp_all add: ipc_inv_def)
  have ch: "chain s (q_pending_proc (proc_at s c)) (xs @ q # ys)" using qrelD(4) [OF rel vc] nc q by simp
  have d: "distinct (xs @ q # ys)" using qrelD(2) [OF rel vc] q by simp
  have qin: "q \<in> set (Q c)" using q by simp
  have "q_pending_proc (proc_at s c) \<noteq> None" using ch by (cases xs) auto
  moreover have "find_in_queue s q (q_pending_proc (proc_at s c)) None =
      Some (if xs = [] then None else Some (last xs), True)"
    by (rule find_in_queue_chain [OF ch]) (use d in auto)
  ultimately show ?thesis
    using waiting_facts [OF rel vc qin] runnable_ok_fields [OF inv vc nc] nc
    by (auto simp: choose_sender_def assert_multiple_def Let_def)
qed

text \<open>The queues after the sender is taken out of the receiver's queue and made runnable.\<close>

lemma dequeue_queue_ok:
  assumes rel: "qrel s Q" and vc: "valid_pid c" and nc: "\<not> sending (proc_at s c)" and q: "Q c = xs @ q # ys"
    and ch: "chain t (q_pending_proc (proc_at t c)) (xs @ ys)"
    and t: "\<And>i. sending (proc_at t i) = (i \<noteq> q \<and> sending (proc_at s i))"
      "\<And>i. i \<noteq> q \<Longrightarrow> pid_sendingto (proc_at t i) = pid_sendingto (proc_at s i)"
      "\<And>i. i \<noteq> q \<Longrightarrow> i \<noteq> last (c # xs) \<Longrightarrow> q_pending_proc (proc_at t i) = q_pending_proc (proc_at s i)"
      "q_pending_proc (proc_at t q) = None"
    and x: "valid_pid x"
  shows "queue_ok t x (a_receive c q Q x)"
proof -
  have qin: "q \<in> set (Q c)" using q by simp
  note wq = waiting_facts [OF rel vc qin]
  have w: "waiting_for t x = waiting_for s x - {q}" using t(1, 2) by (auto simp: waiting_for_def)
  have d: "distinct (xs @ q # ys)" using qrelD(2) [OF rel vc] q by simp
  have rem: "a_receive c q Q c = xs @ ys" using d q by (simp add: a_receive_def remove1_append)
  note qx = qrelD(2, 3) [OF rel x]
  have cq: "c \<noteq> q" using wq(2) nc by auto
  consider (c) "x = c" | (q) "x = q" | (o) "x \<noteq> c" "x \<noteq> q" by blast
  then show ?thesis
  proof cases
    case c
    have "set (xs @ ys) = waiting_for s c - {q}" using qx d q c by auto
    then show ?thesis using c d ch t(1) [of c] nc w rem by (simp add: queue_ok_def)
  next
    case q
    have "Q q = []" using qrelD(5) [OF rel wq(1) wq(2)] .
    then show ?thesis using q qx w t(1, 4) cq by (auto simp: queue_ok_def a_receive_def)
  next
    case o
    have last: "last (c # xs) = c \<or> last (c # xs) \<in> set (Q c)" using q by auto
    have qx': "i \<noteq> q \<and> i \<noteq> last (c # xs)" if "i \<in> set (Q x)" for i
      using that last waiting_facts(2, 3) [OF rel x that] nc queues_disjoint [OF rel vc x] o(1) qin by auto
    have "chain t h (Q x) = chain s h (Q x)" for h
    proof (rule chain_cong)
      fix i assume "i \<in> set (Q x)"
      then show "q_pending_proc (proc_at t i) = q_pending_proc (proc_at s i)" using qx' [of i] by (intro t(3)) auto
    qed
    moreover have "x \<noteq> last (c # xs)" if "\<not> sending (proc_at s x)"
      using that last o(1) waiting_facts(2) [OF rel vc] by auto
    moreover have "q \<notin> waiting_for s x" using wq(3) o(1) by (auto simp: waiting_for_def)
    ultimately show ?thesis
      using qx w o t(1) [of x] t(3) [of x] qrelD(4, 5) [OF rel x] by (auto simp: queue_ok_def a_receive_def)
  qed
qed

lemma rcv_copy_rel:
  assumes rel: "qrel s Q" and cur: "c = p_proc_ready s" and q: "Q c = xs @ q # ys"
    and prev: "prev = (if xs = [] then None else Some (last xs))" and m: "m \<noteq> 0"
    and ch: "choose_sender c pid s = Inr (Some (q, prev))"
    and dst: "proc_va2la s c m = Inr dst" and src: "proc_va2la s q (pending_msg (proc_at s q)) = Inr src"
  shows "\<exists>s'. rcv_copy c q prev m s = Inr s' \<and> qrel s' (a_receive c q Q) \<and> proc_state (proc_at s' q) = RUNNABLE \<and>
     kmem s' = phys_copy (kmem s) dst src MSG_SIZE \<and> p_proc_ready s' = c"
proof -
  have inv: "ipc_inv s" using rel by (simp add: qrel_def)
  have vc: "valid_pid c" and nc: "proc_state (proc_at s c) = 0" using inv cur by (simp_all add: ipc_inv_def)
  have nsc: "\<not> sending (proc_at s c)" using nc by simp
  have qin: "q \<in> set (Q c)" using q by simp
  note wq = waiting_facts [OF rel vc qin]
  have "c \<notin> set (xs @ q # ys)" using waiting_facts(2) [OF rel vc] nsc q by auto
  then have d: "distinct (c # xs @ q # ys)" using qrelD(2) [OF rel vc] q by simp
  have chn: "chain s (q_pending_proc (proc_at s c)) (xs @ q # ys)" using qrelD(4) [OF rel vc nsc] q by simp
  obtain l s1 where un: "unlink_sender c q prev s = Inr s1" and l: "l = last (c # xs)"
    and s1: "s1 = upd_proc q (\<lambda>S. S\<lparr>q_pending_proc := None\<rparr>)
               (upd_proc l (\<lambda>P. P\<lparr>q_pending_proc := q_pending_proc (proc_at s q)\<rparr>) s)"
    and ch1: "chain s1 (q_pending_proc (proc_at s1 c)) (xs @ ys)"
    by (rule unlink_sender_chain [OF chn d prev])
  note fr = unlink_sender_frame [OF un]
  have va: "proc_va2la s1 i a = proc_va2la s i a" for i a by (rule va2la_cong) (rule fr(5))
  let ?s3 = "upd_proc q (\<lambda>S. S\<lparr>pending_msg := 0, pid_sendingto := NO_TASK, proc_state := proc_state S AND NOT SENDING\<rparr>)
      (s1\<lparr>kmem := phys_copy (kmem s1) dst src MSG_SIZE\<rparr>)"
  have q1: "proc_state (proc_at s1 q) = SENDING" "pending_msg (proc_at s1 q) = pending_msg (proc_at s q)"
    using fr(1) [of q] wq(4) by (simp_all add: comm_eq_def)
  have run: "rcv_copy c q prev m s = Inr ?s3"
    using un m wq(5) dst src q1
    by (simp add: rcv_copy_def assert_multiple_def Let_def va unblock_def)
  have "chain ?s3 h (xs @ ys) = chain s1 h (xs @ ys)" for h by (rule chain_cong) simp
  moreover have "q_pending_proc (proc_at ?s3 c) = q_pending_proc (proc_at s1 c)" by simp
  ultimately have ch3: "chain ?s3 (q_pending_proc (proc_at ?s3 c)) (xs @ ys)" using ch1 by simp
  have snd3: "sending (proc_at ?s3 i) = (i \<noteq> q \<and> sending (proc_at s i))"
    "i \<noteq> q \<Longrightarrow> pid_sendingto (proc_at ?s3 i) = pid_sendingto (proc_at s i)" for i
    using fr(1) [of i] q1(1) by (auto simp: comm_eq_def sending_def)
  have q3: "i \<noteq> q \<Longrightarrow> i \<noteq> last (c # xs) \<Longrightarrow> q_pending_proc (proc_at ?s3 i) = q_pending_proc (proc_at s i)"
    "q_pending_proc (proc_at ?s3 q) = None" for i
    using l by (simp_all add: s1)
  have "queue_ok ?s3 x (a_receive c q Q x)" if "valid_pid x" for x
    by (rule dequeue_queue_ok [OF rel vc nsc q ch3 snd3 q3 that])
  moreover have "ipc_inv ?s3" by (rule rcv_copy_inv [OF inv, of pid q prev m]) (use ch run cur in auto)
  ultimately have "qrel ?s3 (a_receive c q Q)" by (simp add: qrel_def)
  with run fr(3, 4) q1(1) cur show ?thesis by simp
qed


text \<open>C6: A receive from a named process that is waiting takes that process out of the queue wherever it
  stands, leaves the order of the others, copies its message and makes it runnable.\<close>

theorem receive_named_takes_it:
  assumes "qrel s Q" and "Q (p_proc_ready s) = xs @ q # ys" and "m \<noteq> 0" and "q \<noteq> ANY"
    and "proc_va2la s (p_proc_ready s) m = Inr dst" and "proc_va2la s q (pending_msg (proc_at s q)) = Inr src"
    and "apart src 48 dst 48"
  shows "\<exists>s'. kernel_msg_rcv (p_proc_ready s) q m s = Inr (s', 0) \<and>
     qrel s' (Q(p_proc_ready s := xs @ ys)) \<and> p_proc_ready s' = p_proc_ready s \<and>
     proc_state (proc_at s' q) = RUNNABLE \<and> read_bytes (kmem s') dst 48 = read_bytes (kmem s) src 48"
proof -
  let ?c = "p_proc_ready s" and ?prev = "if xs = [] then None else Some (last xs)"
  have inv: "ipc_inv s" using assms(1) by (simp add: qrel_def)
  then have vc: "valid_pid ?c" "proc_state (proc_at s ?c) = 0" by (simp_all add: ipc_inv_def)
  have qin: "q \<in> set (Q ?c)" using assms(2) by simp
  note wq = waiting_facts [OF assms(1) vc(1) qin]
  have cq: "?c \<noteq> q" using wq(4) vc(2) by auto
  have ch: "choose_sender ?c q s = Inr (Some (q, ?prev))" by (rule choose_named [OF assms(1) refl assms(2)])
  obtain s' where s': "rcv_copy ?c q ?prev m s = Inr s'" "qrel s' (a_receive ?c q Q)"
    "proc_state (proc_at s' q) = RUNNABLE" "kmem s' = phys_copy (kmem s) dst src MSG_SIZE" "p_proc_ready s' = ?c"
    using rcv_copy_rel [OF assms(1) refl assms(2) refl assms(3) ch assms(5, 6)] by auto
  have "dst = src \<or> unat MSG_SIZE \<le> unat (dst - src)" using assms(7) by (simp add: apart_def)
  from memcpy_read [OF this, of "kmem s"] s'(4)
  have "read_bytes (kmem s') dst 48 = read_bytes (kmem s) src 48" by simp
  moreover have "kernel_msg_rcv ?c q m s = Inr (s', 0)"
    using ch s'(1) assms(4) cq wq(1) by (auto simp: kernel_msg_rcv_def)
  moreover have "a_receive ?c q Q = Q(?c := xs @ ys)"
    using assms(2) qrelD(2) [OF assms(1) vc(1)] by (simp add: a_receive_def remove1_append)
  ultimately show ?thesis using s' by auto
qed

text \<open>A receive with nobody suitable waiting and no interrupt pending blocks: the receiver is left
  receiving from the process it named with its buffer registered, another process is scheduled, and
  no queue and no byte of memory changes.\<close>

theorem receive_waits:
  assumes "qrel s Q" and "m \<noteq> 0" and "valid_pid pid \<or> pid = ANY" and "p_proc_ready s \<noteq> pid"
    and "if pid = ANY then Q (p_proc_ready s) = [] else pid \<notin> set (Q (p_proc_ready s))"
    and "has_int_msg (proc_at s (p_proc_ready s)) = 0" and "can_switch s (p_proc_ready s)"
  shows "\<exists>s'. kernel_msg_rcv (p_proc_ready s) pid m s = Inr (s', 0) \<and> qrel s' Q \<and> kmem s' = kmem s \<and>
     proc_state (proc_at s' (p_proc_ready s)) = RECEIVING \<and> pending_msg (proc_at s' (p_proc_ready s)) = m \<and>
     pid_recvingfrom (proc_at s' (p_proc_ready s)) = pid \<and> p_proc_ready s' \<noteq> p_proc_ready s"
proof -
  let ?c = "p_proc_ready s"
  have inv: "ipc_inv s" using assms(1) by (simp add: qrel_def)
  then have vc: "valid_pid ?c" and nc: "proc_state (proc_at s ?c) = 0" by (simp_all add: ipc_inv_def)
  have ch: "choose_sender ?c pid s = Inr None"
    using assms(3, 5) qrelD(3, 4) [OF assms(1) vc] nc
    by (auto simp: choose_sender_def waiting_for_def sending_def split: if_splits)
  let ?s1 = "upd_proc ?c (\<lambda>R. R\<lparr>proc_state := proc_state R OR RECEIVING, pending_msg := m, pid_recvingfrom := pid\<rparr>) s"
  have "\<exists>s'. schedule ?s1 = Some s'"
    by (rule can_switch_schedules [OF assms(7)]) (use inv in \<open>auto simp: ipc_inv_def\<close>)
  then obtain s' where sc: "schedule ?s1 = Some s'" by blast
  note vw = ipc_viewD [OF schedule_frame(1) [OF sc]]
  have c': "proc_state (proc_at s' ?c) = RECEIVING" "pending_msg (proc_at s' ?c) = m"
    "pid_recvingfrom (proc_at s' ?c) = pid" "has_int_msg (proc_at s' ?c) = 0" "pid_sendingto (proc_at s' ?c) = NO_TASK"
    using vw(1, 2, 4-6) [of ?c] nc assms(6) runnable_ok_fields(3) [OF inv vc nc] by simp_all
  then have run: "rcv_wait ?c pid m s = Inr s'"
    using sc nc assms(2, 3) by (auto simp: rcv_wait_def block_def assert_multiple_def Let_def)
  have "kernel_msg_rcv ?c pid m s = Inr (s', 0)"
    using run ch assms(4, 6) by (simp add: kernel_msg_rcv_def)
  moreover have "qrel s' Q"
  proof (rule qrel_same [OF assms(1) rcv_wait_inv [OF inv run]])
    fix i
    show "sending (proc_at s' i) = sending (proc_at s i) \<and>
       (sending (proc_at s i) \<longrightarrow> pid_sendingto (proc_at s' i) = pid_sendingto (proc_at s i)) \<and>
       q_pending_proc (proc_at s' i) = q_pending_proc (proc_at s i)"
      using vw(1, 3, 5) [of i] nc c'(1) by (cases "i = ?c") (simp_all add: sending_def)
  qed
  moreover have "p_proc_ready s' \<noteq> ?c"
    using schedule_current(2) [OF sc] inv c'(1) by (auto simp: ipc_inv_def)
  ultimately show ?thesis using c' schedule_frame(3) [OF sc] by auto
qed

section \<open>Sending to a blocked sender\<close>

text \<open>C10: The queue link of a blocked sender is its place in another process's queue, yet a send to it
  uses the same link as the head of its own queue: when \<open>P\<close> waits in \<open>R\<close>'s queue and \<open>X\<close> sends to \<open>P\<close>,
  \<open>X\<close> ends up in the queue of \<open>R\<close>, although it sends to \<open>P\<close>. A receive from anyone that then finds \<open>X\<close> at
  the head of \<open>R\<close>'s queue fails its assertion and stops the machine.\<close>

theorem send_to_blocked_sender_misqueues:
  assumes "ipc_inv s" and "valid_pid R" and "valid_pid P" and "R \<noteq> P" and "p_proc_ready s \<noteq> R" and "p_proc_ready s \<noteq> P"
    and "proc_state (proc_at s P) = SENDING" and "pid_sendingto (proc_at s P) = R"
    and "proc_state (proc_at s R) AND SENDING = 0" and "chain s (q_pending_proc (proc_at s R)) [P]"
    and "m \<noteq> 0" and "can_switch s (p_proc_ready s)"
  shows "(\<exists>s'. kernel_msg_send (p_proc_ready s) P m s = Inr (s', 0) \<and>
       chain s' (q_pending_proc (proc_at s' R)) [P, p_proc_ready s] \<and> pid_sendingto (proc_at s' (p_proc_ready s)) = P) \<and>
     (\<forall>t X buf. q_pending_proc (proc_at t R) = Some X \<and> pid_sendingto (proc_at t X) \<noteq> R \<and>
       has_int_msg (proc_at t R) = 0 \<longrightarrow> kernel_msg_rcv R ANY buf t = Inl AssertFail)"
proof -
  let ?X = "p_proc_ready s"
  have vX: "valid_pid ?X" and nX: "proc_state (proc_at s ?X) = 0" using assms(1) by (simp_all add: ipc_inv_def)
  let ?s2 = "upd_proc ?X (\<lambda>S. S\<lparr>proc_state := SENDING, pid_sendingto := P, pending_msg := m\<rparr>) s"
  have ch: "chain ?s2 (q_pending_proc (proc_at ?s2 P)) []" using assms(6, 10) by simp
  obtain l s3 where ap: "append_sender ?X P ?s2 = Inr s3" and l: "l = last [P]"
    and s3: "s3 = upd_proc l (\<lambda>Q. Q\<lparr>q_pending_proc := Some ?X\<rparr>) ?s2"
    by (rule append_sender_chain [OF ch, of ?X]) (use assms(6) in auto)
  let ?s4 = "upd_proc ?X (\<lambda>Q. Q\<lparr>q_pending_proc := None\<rparr>) s3"
  have "\<exists>s'. schedule ?s4 = Some s'"
    by (rule can_switch_schedules [OF assms(12)]) (use assms(1) in \<open>auto simp: s3 ipc_inv_def\<close>)
  then obtain s' where sc: "schedule ?s4 = Some s'" by blast
  note view = ipc_viewD [OF schedule_frame(1) [OF sc]]
  have c4: "proc_state (proc_at ?s4 ?X) = SENDING" "pending_msg (proc_at ?s4 ?X) = m"
    "pid_recvingfrom (proc_at ?s4 ?X) = NO_TASK" "pid_sendingto (proc_at ?s4 ?X) = P"
    using runnable_ok_fields(2) [OF assms(1) vX nX] by (auto simp: s3)
  then have as: "assert_multiple ?X 0 0 3 s'" using view(1-5) [of ?X] assms(11) by (simp add: assert_multiple_def Let_def)
  have run: "send_wait ?X P m s = Inr s'"
    using ap sc as c4(1) nX by (simp add: send_wait_def Let_def upd_twice block_def) (simp add: upd_proc_def nX)
  have nRs: "\<not> sending (proc_at s R)" using assms(9) by (simp add: sending_def)
  have sP: "sending (proc_at s P)" using assms(7) by (simp add: sending_def)
  have "(P, ?X) \<notin> (send_graph s)\<^sup>+"
    using send_graph_trancl [OF assms(3) sP, of ?X] send_graph_trancl_end [OF nRs, of ?X] assms(5, 8) by simp
  then have "check_deadlock ?X P s = Inr (0, [])" using check_deadlock_correct [OF assms(1, 3), of ?X] by simp
  then have "kernel_msg_send ?X P m s = Inr (s', 0)"
    using run assms(6, 7) by (simp add: kernel_msg_send_def Let_def)
  moreover have "chain s' (q_pending_proc (proc_at s' R)) [P, ?X]"
    using view(3) [of R] view(3) [of P] view(3) [of ?X] l assms(4-6, 10) by (auto simp: s3)
  moreover have "pid_sendingto (proc_at s' ?X) = P" using view(5) [of ?X] c4(4) by simp
  ultimately show ?thesis
    using assms(2) by (auto simp: kernel_msg_rcv_def choose_sender_def assert_multiple_def)
qed

section \<open>Examples\<close>

text \<open>The machine of the start-up example, its first process running and no process blocked.\<close>

definition sample_proc :: proc where
  "sample_proc = zero_proc\<lparr>ticks := 5, priority := 5, pid_recvingfrom := NO_TASK, pid_sendingto := NO_TASK\<rparr>"

definition sample_kernel :: kernel where
  "sample_kernel = sample_machine\<lparr>proc_table := replicate 37 sample_proc\<rparr>"

lemma sample_proc_at: "valid_pid i \<Longrightarrow> proc_at sample_kernel i = sample_proc"
  by (simp add: sample_kernel_def proc_at_def nat_less_iff)

lemma sample_kernel_fields [simp]:
  "p_proc_ready sample_kernel = 0" "nested_int sample_kernel = 0" "length (proc_table sample_kernel) = 37"
  by (simp_all add: sample_kernel_def sample_machine_def)

lemma sample_kernel_qrel: "qrel sample_kernel (\<lambda>_. [])"
proof -
  have p: "proc_ok sample_proc" "\<not> sending sample_proc" "q_pending_proc sample_proc = None" "proc_state sample_proc = 0"
    by (simp_all add: sample_proc_def zero_proc_def proc_ok_def sending_def receiving_def)
  have "send_graph sample_kernel = {}" using p by (auto simp: send_graph_def sample_proc_at)
  then have "ipc_inv sample_kernel" using p by (simp add: ipc_inv_def sample_proc_at wf_acyclic)
  then show ?thesis using p by (auto simp: qrel_def queue_ok_def waiting_for_def sample_proc_at)
qed

lemma sample_va2la: "ldts (proc_at s i) = ldts sample_proc \<Longrightarrow> proc_va2la s i a = Inr a"
  by (simp add: proc_va2la_def Let_def ldt_idx_to_base_addr_def sample_proc_def zero_proc_def zero_gdt_desc_def)

lemma sample_switch: "c = p_proc_ready s \<Longrightarrow> valid_pid i \<Longrightarrow> i \<noteq> c \<Longrightarrow> proc_state (proc_at s i) = RUNNABLE \<Longrightarrow>
    priority (proc_at s i) = 5 \<Longrightarrow> can_switch s c"
  by (auto simp: can_switch_def)


text \<open>The same machine with process 0 blocked sending to process 3, which runs.\<close>

definition sample_blocked :: kernel where
  "sample_blocked = (upd_proc 3 (\<lambda>p. p\<lparr>q_pending_proc := Some 0\<rparr>)
     (upd_proc 0 (\<lambda>p. p\<lparr>proc_state := SENDING, pid_sendingto := 3, pending_msg := 0x2000\<rparr>) sample_kernel))\<lparr>p_proc_ready := 3\<rparr>"

lemma sample_blocked_at:
  "valid_pid i \<Longrightarrow> proc_at sample_blocked i = (if i = 0 then sample_proc\<lparr>proc_state := SENDING, pid_sendingto := 3, pending_msg := 0x2000\<rparr>
     else if i = 3 then sample_proc\<lparr>q_pending_proc := Some 0\<rparr> else sample_proc)"
  by (auto simp: sample_blocked_def sample_proc_at)

lemma sample_blocked_ready [simp]: "p_proc_ready sample_blocked = 3"
  by (simp add: sample_blocked_def)

lemma sample_blocked_qrel: "qrel sample_blocked ((\<lambda>_. [])(3 := [0]))"
proof -
  have ok: "proc_ok (proc_at sample_blocked i)" and snd: "sending (proc_at sample_blocked i) = (i = 0)" if "valid_pid i" for i
    using that by (auto simp: sample_blocked_at sample_proc_def zero_proc_def proc_ok_def sending_def receiving_def)
  have "send_graph sample_blocked = {(0, 3)}"
    unfolding send_graph_def using snd by (auto simp: sample_blocked_at cong: conj_cong simp del: if_split_asm)
  then have inv: "ipc_inv sample_blocked"
    using ok by (simp add: ipc_inv_def sample_blocked_at acyclic_insert wf_acyclic)
      (simp add: sample_blocked_def sample_proc_def zero_proc_def)
  have "waiting_for sample_blocked r = (if r = 3 then {0} else {})" for r
    by (auto simp: waiting_for_def sample_blocked_at sample_proc_def zero_proc_def sending_def split: if_splits)
  then show ?thesis using inv snd
    by (auto simp: qrel_def queue_ok_def sample_blocked_at) (simp_all add: sample_proc_def zero_proc_def)
qed

lemma sample_blocked_va2la: "valid_pid i \<Longrightarrow> proc_va2la sample_blocked i a = Inr a"
  by (rule sample_va2la) (simp add: sample_blocked_at)

lemma apart_2000_3000: "apart 0x2000 48 0x3000 48"
  by (simp add: apart_def unat_u32_uminus)


theorem receive_named_takes_it_witness:
  "\<exists>s'. kernel_msg_rcv 3 0 0x3000 sample_blocked = Inr (s', 0) \<and> proc_state (proc_at s' 0) = RUNNABLE \<and>
     read_bytes (kmem s') 0x3000 48 = read_bytes (kmem sample_blocked) 0x2000 48"
  using receive_named_takes_it [OF sample_blocked_qrel, of "[]" 0 "[]" "0x3000" "0x3000" "0x2000"] apart_2000_3000
  by (auto simp: sample_blocked_va2la sample_blocked_at sample_proc_def zero_proc_def)

theorem receive_waits_witness:
  "\<exists>s'. kernel_msg_rcv 3 1 0x3000 sample_blocked = Inr (s', 0) \<and> proc_state (proc_at s' 3) = RECEIVING \<and>
     qrel s' ((\<lambda>_. [])(3 := [0]))"
proof -
  have "can_switch sample_blocked 3"
    by (rule sample_switch [of _ _ 1]) (simp_all add: sample_blocked_at sample_proc_def zero_proc_def)
  then show ?thesis
    using receive_waits [OF sample_blocked_qrel, of "0x3000" 1]
    by (auto simp: sample_blocked_at sample_proc_def zero_proc_def)
qed

theorem send_to_blocked_sender_misqueues_witness:
  "\<exists>s'. kernel_msg_send 5 0 0x3000 (sample_blocked\<lparr>p_proc_ready := 5\<rparr>) = Inr (s', 0) \<and>
     chain s' (q_pending_proc (proc_at s' 3)) [0, 5]"
proof -
  let ?s = "sample_blocked\<lparr>p_proc_ready := 5\<rparr>"
  have inv: "ipc_inv ?s"
    by (rule ipc_inv_change [of sample_blocked _ 0]) (use sample_blocked_qrel in
        \<open>simp_all add: qrel_def sample_blocked_at\<close>, simp add: sample_proc_def zero_proc_def)
  have "can_switch ?s 5"
    by (rule sample_switch [of _ _ 1]) (simp_all add: sample_blocked_at sample_proc_def zero_proc_def)
  then show ?thesis
    using send_to_blocked_sender_misqueues [OF inv, of 3 0 "0x3000"]
    by (auto simp: sample_blocked_at sample_proc_def zero_proc_def)
qed

theorem send_rendezvous_witness:
  "\<exists>s s'. s = upd_proc 3 (\<lambda>p. p\<lparr>proc_state := RECEIVING, pid_recvingfrom := ANY, pending_msg := 0x3000\<rparr>) sample_kernel \<and>
     kernel_msg_send 0 3 0x2000 s = Inr (s', 0) \<and> read_bytes (kmem s') 0x3000 48 = read_bytes (kmem s) 0x2000 48"
proof -
  let ?s = "upd_proc 3 (\<lambda>p. p\<lparr>proc_state := RECEIVING, pid_recvingfrom := ANY, pending_msg := 0x3000\<rparr>) sample_kernel"
  have inv: "ipc_inv ?s"
    by (rule ipc_inv_change [of sample_kernel _ 3]) (use sample_kernel_qrel in
        \<open>simp_all add: qrel_def sample_proc_at\<close>, simp_all add: sample_proc_def zero_proc_def proc_ok_def sending_def receiving_def)
  have va: "proc_va2la ?s i a = Inr a" if "valid_pid i" for i a
    by (rule sample_va2la) (use that in \<open>simp add: sample_proc_at\<close>)
  show ?thesis
    using send_rendezvous [OF inv, of 3 "0x2000" "0x2000" "0x3000"] apart_2000_3000 by (auto simp: va sample_proc_at)
qed

end
