(* ===== verification/Format.thy ===== *)
theory Format
  imports Strings
begin

text \<open>
  Number and string formatting: \<^verbatim>\<open>i2a\<close> and \<^verbatim>\<open>vsprintf\<close> of \<^verbatim>\<open>src/lib/misc/vsprintf.c\<close> and \<^verbatim>\<open>itoa\<close> of
  \<^verbatim>\<open>src/kernel/klib.c\<close>.

  The format string and the arguments are read from memory; the produced characters are collected in
  a list and stored at \<^verbatim>\<open>buf\<close> with the terminating zero at the end, so the model is the code for a
  buffer that does not overlap the format, the arguments or an argument string, and for conversions
  shorter than \<^verbatim>\<open>inner_buf\<close> (1024 bytes). Arguments are 32-bit stack words.
\<close>

unbundle bit_operations_syntax

section \<open>The code\<close>

definition hex_char :: "int \<Rightarrow> u8" where
  "hex_char m = word_of_int (if m < 10 then m + 48 else m - 10 + 65)"

text \<open>The recursion ends because the base is at least two: the code calls it with 10 and 16.\<close>

function i2a :: "int \<Rightarrow> int \<Rightarrow> u8 list" where
  "i2a val base =
     (let m = val smod base; q = val sdiv base
      in (if q \<noteq> 0 \<and> 2 \<le> base then i2a q base else []) @ [hex_char m])"
  by pat_completeness auto
termination
proof (relation "measure (\<lambda>(v, b). nat \<bar>v\<bar>)")
  fix val base m q :: int
  assume q: "q = val sdiv base" and ne: "q \<noteq> 0 \<and> 2 \<le> base"
  have abs_q: "\<bar>q\<bar> = \<bar>val\<bar> div base"
    using ne by (auto simp: q signed_divide_int_def abs_mult sgn_if pos_imp_zdiv_nonneg_iff)
  have "\<bar>val\<bar> \<noteq> 0" using ne by (auto simp: q signed_divide_int_def)
  then have "\<bar>val\<bar> div base < \<bar>val\<bar>" using ne by (intro int_div_less_self) auto
  with \<open>\<bar>val\<bar> \<noteq> 0\<close> show "((q, base), (val, base)) \<in> measure (\<lambda>(v, b). nat \<bar>v\<bar>)"
    by (simp add: abs_q)
qed simp

declare i2a.simps [simp del]

definition is_digit :: "u8 \<Rightarrow> bool" where
  "is_digit c \<longleftrightarrow> 48 \<le> c \<and> c \<le> 57"

partial_function (option) scan_width :: "mem \<Rightarrow> u32 \<Rightarrow> int \<Rightarrow> (int \<times> u32) option" where
  "scan_width m fmt align_nr =
     (if is_digit (m fmt) then scan_width m (fmt + 1) (align_nr * 10 + (uint (m fmt) - 48))
      else Some (align_nr, fmt))"

partial_function (option) read_cstr :: "mem \<Rightarrow> u32 \<Rightarrow> u8 list option" where
  "read_cstr m a =
     (if m a = 0 then Some []
      else Option.bind (read_cstr m (a + 1)) (\<lambda>bs. Some (m a # bs)))"

text \<open>One conversion: what is put into \<^verbatim>\<open>inner_buf\<close>, and the next argument.\<close>

definition convert :: "mem \<Rightarrow> u8 \<Rightarrow> u32 \<Rightarrow> (u8 list \<times> u32) option" where
  "convert m c p_next_arg =
     (if c = 99 then Some ([m p_next_arg], p_next_arg + 4)
      else if c = 120 then Some (i2a (sint (rd32 m p_next_arg)) 16, p_next_arg + 4)
      else if c = 100 then
        (let v = sint (rd32 m p_next_arg)
         in Some (if v < 0 then 45 # i2a (s32 (v * -1)) 10 else i2a v 10, p_next_arg + 4))
      else if c = 115 then
        map_option (\<lambda>bs. (bs, p_next_arg + 4)) (read_cstr m (rd32 m p_next_arg))
      else Some ([], p_next_arg))"

definition pad_inner :: "u8 \<Rightarrow> int \<Rightarrow> u8 list \<Rightarrow> u8 list" where
  "pad_inner cs align_nr q =
     (let inner = takeWhile (\<lambda>b. b \<noteq> 0) q
      in replicate (nat (align_nr - int (length inner))) cs @ inner)"

partial_function (option) vsprintf_loop :: "mem \<Rightarrow> u32 \<Rightarrow> u32 \<Rightarrow> u8 list \<Rightarrow> u8 list option" where
  "vsprintf_loop m fmt p_next_arg out =
     (if m fmt = 0 then Some out
      else if m fmt \<noteq> 37 then vsprintf_loop m (fmt + 1) p_next_arg (out @ [m fmt])
      else if m (fmt + 1) = 37 then vsprintf_loop m (fmt + 1 + 1) p_next_arg (out @ [m (fmt + 1)])
      else
        (let zero = (m (fmt + 1) = 48);
             cs = (if zero then 48 else 32);
             fmt1 = (if zero then fmt + 1 + 1 else fmt + 1)
         in case scan_width m fmt1 0 of None \<Rightarrow> None
            | Some (align_nr, fmt2) \<Rightarrow>
              (case convert m (m fmt2) p_next_arg of None \<Rightarrow> None
               | Some (q, p_next_arg') \<Rightarrow>
                   vsprintf_loop m (fmt2 + 1) p_next_arg' (out @ pad_inner cs align_nr q))))"

fun write_bytes :: "mem \<Rightarrow> u32 \<Rightarrow> u8 list \<Rightarrow> mem" where
  "write_bytes m a [] = m"
| "write_bytes m a (b # bs) = write_bytes (m(a := b)) (a + 1) bs"

definition vsprintf :: "mem \<Rightarrow> u32 \<Rightarrow> u32 \<Rightarrow> u32 \<Rightarrow> (int \<times> mem) option" where
  "vsprintf m buf fmt args =
     (case vsprintf_loop m fmt args [] of None \<Rightarrow> None
      | Some out \<Rightarrow> Some (int (length out), write_bytes m buf (out @ [0])))"

text \<open>\<^verbatim>\<open>itoa\<close> prints the eight nibbles of a word, from bit 28 down, without leading zeros.\<close>

fun itoa_loop :: "u32 \<Rightarrow> nat list \<Rightarrow> bool \<Rightarrow> u8 list" where
  "itoa_loop num [] flag = []"
| "itoa_loop num (i # is) flag =
     (let ch = ucast (drop_bit i num AND 0xF) :: u8
      in if flag \<or> 0 < ch
         then (let ch' = ch + 48 in if 57 < ch' then ch' + 7 else ch') # itoa_loop num is True
         else itoa_loop num is flag)"

definition itoa :: "u32 \<Rightarrow> u8 list" where
  "itoa num = [48, 120] @
     (if num = 0 then [48] else itoa_loop num [28, 24, 20, 16, 12, 8, 4, 0] False)"

section \<open>Bytes stored in memory\<close>

lemma unat_minus_offset: "k \<le> unat (x - a) \<Longrightarrow> unat (x - (a + of_nat k)) = unat (x - a) - k" for x a :: u32
proof -
  assume k: "k \<le> unat (x - a)"
  then have "unat (of_nat k :: u32) = k" using unat_u32_less [of "x - a"] by (intro unat_of_nat_u32) linarith
  then show ?thesis using k unat_sub [of "of_nat k" "x - a"] by (simp add: word_le_nat_alt diff_diff_eq)
qed

lemma write_bytes_eq:
  "length bs < 4294967296 \<Longrightarrow> write_bytes m a bs x = (if unat (x - a) < length bs then bs ! unat (x - a) else m x)"
proof (induction bs arbitrary: m a)
  case (Cons b bs)
  show ?case
  proof (cases "x = a")
    case True
    have "unat (a - (a + 1)) = 4294967295" by simp
    with True Cons show ?thesis by simp
  next
    case False
    note st = unat_step_back [OF False]
    then have "unat (x - a) = Suc (unat (x - (a + 1)))" by simp
    with False Cons show ?thesis by simp
  qed
qed simp

lemma write_bytes_append: "write_bytes m a (xs @ ys) = write_bytes (write_bytes m a xs) (a + of_nat (length xs)) ys"
  by (induction xs arbitrary: m a) (simp_all add: algebra_simps)

text \<open>Writing into the first \<open>n\<close> bytes.\<close>

lemma read_written:
  assumes "a + length xs \<le> n" "n < 4294967296"
  shows "read_bytes (write_bytes m (of_nat a) xs) 0 n = take a (read_bytes m 0 n) @ xs @ drop (a + length xs) (read_bytes m 0 n)"
proof (rule nth_equalityI)
  fix i assume "i < length (read_bytes (write_bytes m (of_nat a) xs) 0 n)"
  then have i: "i < n" by simp
  have u: "unat (of_nat i :: u32) = i" "unat (of_nat a :: u32) = a" using i assms by (auto intro!: unat_of_nat_u32)
  have d: "unat (of_nat i - of_nat a :: u32) = (if a \<le> i then i - a else i + 4294967296 - a)" using u by (simp add: unat_sub_if')
  have "write_bytes m (of_nat a) xs (of_nat i) = (if a \<le> i \<and> i < a + length xs then xs ! (i - a) else m (of_nat i))"
    using assms i d by (subst write_bytes_eq) auto
  then show "read_bytes (write_bytes m (of_nat a) xs) 0 n ! i = (take a (read_bytes m 0 n) @ xs @ drop (a + length xs) (read_bytes m 0 n)) ! i"
    using i assms(1) by (auto simp: nth_append)
qed (use assms in simp)

section \<open>Numbers survive printing and reading back\<close>

definition digit_val :: "u8 \<Rightarrow> int" where
  "digit_val c = (if c \<le> 57 then uint c - 48 else uint c - 55)"

definition parse_base :: "int \<Rightarrow> u8 list \<Rightarrow> int" where
  "parse_base base cs = foldl (\<lambda>acc c. acc * base + digit_val c) 0 cs"

definition is_hex_digit :: "u8 \<Rightarrow> bool" where
  "is_hex_digit c \<longleftrightarrow> 48 \<le> c \<and> c \<le> 57 \<or> 65 \<le> c \<and> c \<le> 70"

lemma parse_base_snoc [simp]: "parse_base base (cs @ [c]) = parse_base base cs * base + digit_val c"
  by (simp add: parse_base_def)

lemma parse_base_Nil [simp]: "parse_base base [] = 0"
  by (simp add: parse_base_def)

lemma nibble_cases:
  fixes d :: int
  assumes "0 \<le> d" and "d < 16"
  shows "d \<in> {0,1,2,3,4,5,6,7,8,9,10,11,12,13,14,15}"
  using assms by auto presburger

lemma hex_char_props:
  assumes "0 \<le> d" and "d < 16"
  shows "digit_val (hex_char d) = d" and "is_hex_digit (hex_char d)" and "hex_char d = 48 \<longleftrightarrow> d = 0"
  using nibble_cases [OF assms]
  by (auto simp: digit_val_def hex_char_def is_hex_digit_def)

lemma i2a_nonneg:
  "0 \<le> val \<Longrightarrow> 2 \<le> base \<Longrightarrow> base \<le> 16 \<Longrightarrow>
   parse_base base (i2a val base) = val \<and> list_all is_hex_digit (i2a val base) \<and>
   i2a val base \<noteq> [] \<and> (0 < val \<longrightarrow> hd (i2a val base) \<noteq> 48)"
proof (induction val base rule: i2a.induct)
  case (1 val base)
  define q where "q = val div base"
  define r where "r = val mod base"
  have sq: "val sdiv base = q" and sr: "val smod base = r"
    using "1.prems" by (auto simp: q_def r_def signed_divide_int_def signed_modulo_int_def sgn_if
        minus_div_mult_eq_mod [symmetric])
  have r: "0 \<le> r" "r < 16" using "1.prems" by (auto simp: r_def) (meson pos_mod_bound order_less_le_trans
        less_le_trans zero_less_numeral)
  have val: "val = q * base + r" by (simp add: q_def r_def)
  have q0: "0 \<le> q" using "1.prems" by (simp add: q_def pos_imp_zdiv_nonneg_iff)
  note hex = hex_char_props [OF r]
  have eq: "i2a val base = (if q \<noteq> 0 then i2a q base else []) @ [hex_char r]"
    using "1.prems" by (simp add: i2a.simps [of val base] sq sr)
  show ?case
  proof (cases "q = 0")
    case True
    show ?thesis unfolding eq using True val hex by (simp add: parse_base_def)
  next
    case False
    with "1.IH" [of r q] "1.prems" q0 have IH: "parse_base base (i2a q base) = q \<and>
        list_all is_hex_digit (i2a q base) \<and> i2a q base \<noteq> [] \<and> (0 < q \<longrightarrow> hd (i2a q base) \<noteq> 48)"
      by (simp add: sq sr)
    show ?thesis unfolding eq using IH False val hex q0 by simp
  qed
qed

text \<open>\<^verbatim>\<open>itoa\<close>: skipping leading zero nibbles does not change the value read back.\<close>

lemma nibble_char:
  fixes n :: u8
  assumes "n \<le> 15"
  shows "digit_val (let c = n + 48 in if 57 < c then c + 7 else c) = uint n"
proof -
  have "uint n \<le> 15" using assms by (simp add: word_le_def)
  then have "uint n \<in> {0,1,2,3,4,5,6,7,8,9,10,11,12,13,14,15}"
    by (intro nibble_cases) auto
  then obtain d where "n = word_of_int d" and "d \<in> {0,1,2,3,4,5,6,7,8,9,10,11,12,13,14,15}"
    by (metis word_of_int_uint)
  then show ?thesis by (auto simp: digit_val_def Let_def)
qed

definition nibble :: "u32 \<Rightarrow> nat \<Rightarrow> int" where
  "nibble num i = uint num div 2 ^ i mod 16"

lemma uint_nibble: "uint (ucast (drop_bit i num AND 0xF) :: u8) = nibble num i"
proof -
  have m: "(15 :: int) = mask 4" by (simp add: mask_eq_exp_minus_1)
  have t: "take_bit 32 (uint num) = uint num"
    using uint_bounded [of num] by (intro take_bit_int_eq_self) auto
  have "uint (drop_bit i num AND 0xF) = drop_bit i (uint num) AND 15"
    by (simp only: unsigned_and_eq unsigned_drop_bit_eq) (simp add: t)
  then have "uint (drop_bit i num AND 0xF) = take_bit 4 (drop_bit i (uint num))"
    by (simp only: take_bit_eq_mask m)
  then show ?thesis
    by (simp add: nibble_def unsigned_ucast_eq take_bit_eq_mod drop_bit_eq_div mod_mod_cancel)
qed

lemma itoa_loop_value:
  "flag \<or> acc = 0 \<Longrightarrow>
   foldl (\<lambda>a c. a * 16 + digit_val c) acc (itoa_loop num is flag) =
   foldl (\<lambda>a i. a * 16 + nibble num i) acc is"
proof (induction num "is" flag arbitrary: acc rule: itoa_loop.induct)
  case (1 num flag)
  then show ?case by simp
next
  case (2 num i "is" flag)
  let ?ch = "ucast (drop_bit i num AND 0xF) :: u8"
  have v: "uint ?ch = nibble num i" by (rule uint_nibble)
  have "uint ?ch \<le> 15" unfolding v by (simp add: nibble_def)
  then have le: "?ch \<le> 15" by (simp add: word_le_def)
  show ?case
  proof (cases "flag \<or> 0 < ?ch")
    case True
    then show ?thesis using "2.IH"(1) [OF refl] nibble_char [OF le] v
      by (simp add: Let_def)
  next
    case False
    then have "nibble num i = 0" using v by (simp add: word_gt_0)
    then show ?thesis using False "2.IH"(2) [OF refl] "2.prems"
      by (simp add: Let_def)
  qed
qed

lemma nibble_fold:
  "foldl (\<lambda>a i. a * 16 + nibble num i) 0 [28, 24, 20, 16, 12, 8, 4, 0] = uint num"
proof -
  have step: "x div (b * 16) * 16 + x div b mod 16 = x div b" if "0 < b" for x b :: int
    using that by (simp add: zdiv_zmult2_eq)
  have top: "uint num div 2 ^ 28 mod 16 = uint num div 2 ^ 28"
    using uint_bounded [of num] by (intro mod_pos_pos_trivial) (auto simp: pos_imp_zdiv_nonneg_iff)
  show ?thesis
    using top step [of "2 ^ 24" "uint num"] step [of "2 ^ 20" "uint num"] step [of "2 ^ 16" "uint num"]
      step [of "2 ^ 12" "uint num"] step [of "2 ^ 8" "uint num"] step [of "2 ^ 4" "uint num"]
      step [of 1 "uint num"]
    by (simp add: nibble_def)
qed

text \<open>\<^verbatim>\<open>itoa\<close> writes the prefix \<^verbatim>\<open>0x\<close> and hexadecimal digits that read back, in base 16, as
  the unsigned value of the word, for every 32-bit value.\<close>

theorem itoa_roundtrip:
  "take 2 (itoa num) = [48, 120] \<and> parse_base 16 (drop 2 (itoa num)) = uint num"
proof (cases "num = 0")
  case True
  then show ?thesis by (simp add: itoa_def parse_base_def digit_val_def)
next
  case False
  then show ?thesis
    using itoa_loop_value [of False 0 num "[28, 24, 20, 16, 12, 8, 4, 0]"] nibble_fold [of num]
    by (simp add: itoa_def parse_base_def)
qed

section \<open>Format strings as pieces\<close>

text \<open>
  What a format string means, piece by piece: a literal character, a doubled percent sign, or a
  directive with an optional zero flag, width digits and a conversion letter. \<open>fmt_of\<close> is the text of a
  piece, \<open>render\<close> what it prints when the next argument word lies at \<open>args\<close>.
\<close>

datatype piece = Lit u8 | Percent | Dir bool "u8 list" u8

definition width_of :: "u8 list \<Rightarrow> int" where
  "width_of ds = foldl (\<lambda>w d. w * 10 + (uint d - 48)) 0 ds"

fun wf_piece :: "piece \<Rightarrow> bool" where
  "wf_piece (Lit c) \<longleftrightarrow> c \<noteq> 0 \<and> c \<noteq> 37"
| "wf_piece Percent \<longleftrightarrow> True"
| "wf_piece (Dir zero ds c) \<longleftrightarrow> list_all is_digit ds \<and> (\<not> zero \<longrightarrow> take 1 ds \<noteq> [48]) \<and>
     c \<in> {99, 120, 100, 115}"

fun fmt_of :: "piece \<Rightarrow> u8 list" where
  "fmt_of (Lit c) = [c]"
| "fmt_of Percent = [37, 37]"
| "fmt_of (Dir zero ds c) = 37 # (if zero then [48] else []) @ ds @ [c]"

fun render :: "mem \<Rightarrow> u32 \<Rightarrow> piece list \<Rightarrow> u8 list option" where
  "render m args [] = Some []"
| "render m args (Lit c # ps) = map_option (\<lambda>r. c # r) (render m args ps)"
| "render m args (Percent # ps) = map_option (\<lambda>r. 37 # r) (render m args ps)"
| "render m args (Dir zero ds c # ps) =
     (case convert m c args of None \<Rightarrow> None
      | Some (q, args') \<Rightarrow>
          map_option (\<lambda>r. pad_inner (if zero then 48 else 32) (width_of ds) q @ r) (render m args' ps))"

lemma is_digit_nz: "is_digit d \<Longrightarrow> d \<noteq> 0 \<and> d \<noteq> 37"
  by (auto simp: is_digit_def)

lemma scan_width_digits:
  "list_all is_digit ds \<Longrightarrow> \<not> is_digit c \<Longrightarrow> is_cstr m a (ds @ c # r) \<Longrightarrow>
   scan_width m a w = Some (foldl (\<lambda>w d. w * 10 + (uint d - 48)) w ds, a + of_nat (length ds))"
proof (induction ds arbitrary: a w)
  case Nil
  then show ?case by (simp add: scan_width.simps [of m a])
next
  case (Cons d ds)
  then show ?case by (simp add: scan_width.simps [of m a] add.assoc)
qed

lemma vsprintf_loop_pieces:
  "list_all wf_piece ps \<Longrightarrow> is_cstr m fmt (concat (map fmt_of ps)) \<Longrightarrow>
   vsprintf_loop m fmt args out = map_option (\<lambda>r. out @ r) (render m args ps)"
proof (induction m args ps arbitrary: fmt out rule: render.induct)
  case (1 m args)
  then show ?case by (simp add: vsprintf_loop.simps [of m fmt])
next
  case (2 m args c ps)
  then show ?case
    by (cases "render m args ps") (simp_all add: vsprintf_loop.simps [of m fmt])
next
  case (3 m args ps)
  then show ?case
    by (cases "render m args ps") (simp_all add: vsprintf_loop.simps [of m fmt])
next
  case (4 m args zero ds c ps)
  let ?r = "concat (map fmt_of ps)"
  let ?f1 = "if zero then fmt + 1 + 1 else fmt + 1"
  have c: "\<not> is_digit c" "c \<noteq> 37" and ds: "list_all is_digit ds" and "\<not> zero \<Longrightarrow> take 1 ds \<noteq> [48]"
    using "4.prems"(1) by (auto simp: is_digit_def)
  have str: "m fmt = 37" "zero \<Longrightarrow> m (fmt + 1) = 48" "is_cstr m ?f1 (ds @ c # ?r)"
    using "4.prems"(2) by (auto simp: add.assoc)
  have second: "m (fmt + 1) \<noteq> 37" "m (fmt + 1) = 48 \<longleftrightarrow> zero"
    using str c ds \<open>\<not> zero \<Longrightarrow> take 1 ds \<noteq> [48]\<close>
    by (cases zero; cases ds; auto simp: is_digit_def)+
  have scan: "scan_width m ?f1 0 = Some (width_of ds, ?f1 + of_nat (length ds))"
    using scan_width_digits [OF ds c(1) str(3)] by (simp add: width_of_def)
  have tail: "m (?f1 + of_nat (length ds)) = c" "is_cstr m (?f1 + of_nat (length ds) + 1) ?r"
    using str(3) by (simp_all add: is_cstr_append)
  show ?case
  proof (cases "convert m c args")
    case None
    then show ?thesis
      using str(1) second scan tail by (simp add: vsprintf_loop.simps [of m fmt] Let_def)
  next
    case (Some qa)
    then obtain q args' where qa: "convert m c args = Some (q, args')" by (cases qa) auto
    have "vsprintf_loop m (?f1 + of_nat (length ds) + 1) args'
        (out @ pad_inner (if zero then 48 else 32) (width_of ds) q) =
      map_option (\<lambda>r. (out @ pad_inner (if zero then 48 else 32) (width_of ds) q) @ r) (render m args' ps)"
      using "4.prems"(1) tail(2) by (intro "4.IH" [OF qa refl]) auto
    then show ?thesis
      using str(1) second scan tail qa
      by (cases "render m args' ps") (simp_all add: vsprintf_loop.simps [of m fmt] Let_def)
  qed
qed



section \<open>Signed and hexadecimal conversions\<close>

definition parse_decimal :: "u8 list \<Rightarrow> int" where
  "parse_decimal cs =
     (case cs of [] \<Rightarrow> 0 | c # r \<Rightarrow> if c = 45 then - parse_base 10 r else parse_base 10 cs)"

lemma hex_digit_not_minus: "list_all is_hex_digit cs \<Longrightarrow> cs \<noteq> [] \<Longrightarrow> hd cs \<noteq> 45"
  by (cases cs) (auto simp: is_hex_digit_def)

text \<open>the \<^verbatim>\<open>%d\<close> conversion prints a signed decimal that reads back as the argument, for every
  32-bit argument but the least one, whose negation overflows.\<close>

theorem decimal_roundtrip:
  assumes "rd32 m args \<noteq> 0x80000000"
  shows "\<exists>cs. convert m 100 args = Some (cs, args + 4) \<and> parse_decimal cs = sint (rd32 m args)"
proof -
  define v where "v = sint (rd32 m args)"
  have "- 2147483648 \<le> v" "v < 2147483648"
    using sint_greater_eq [of "rd32 m args"] sint_less [of "rd32 m args"] by (simp_all add: v_def)
  moreover have "v \<noteq> - 2147483648"
    using assms sint_eq_iff [of "rd32 m args" "0x80000000"] by (simp add: v_def)
  ultimately have neg: "s32 (- v) = - v" by (intro s32_id) auto
  have pos: "parse_base 10 (i2a \<bar>v\<bar> 10) = \<bar>v\<bar>" "hd (i2a \<bar>v\<bar> 10) \<noteq> 45" "i2a \<bar>v\<bar> 10 \<noteq> []"
    using i2a_nonneg [of "\<bar>v\<bar>" 10] hex_digit_not_minus by auto
  show ?thesis
  proof (cases "v < 0")
    case True
    then show ?thesis using pos neg
      by (auto simp: convert_def v_def [symmetric] Let_def parse_decimal_def)
  next
    case False
    then show ?thesis using pos
      by (auto simp: convert_def v_def [symmetric] Let_def parse_decimal_def split: list.splits)
  qed
qed

theorem decimal_roundtrip_witness:
  "\<exists>cs. convert ((\<lambda>_. 0)(512 := 7)) 100 512 = Some (cs, 512 + 4) \<and>
     parse_decimal cs = sint (rd32 ((\<lambda>_. 0)(512 := 7)) 512)"
  by (rule decimal_roundtrip) (simp add: rd32_def)

text \<open>The \<^verbatim>\<open>%x\<close> conversion takes its argument as a signed \<^verbatim>\<open>int\<close>, so a word with the top bit set
  is not printed in hexadecimal: all ones comes out as the single character \<^verbatim>\<open>/\<close>.\<close>

theorem hex_of_negative:
  "convert m 120 args = Some (i2a (sint (rd32 m args)) 16, args + 4) \<and>
   i2a (sint (0xFFFFFFFF :: u32)) 16 = [47] \<and> \<not> list_all is_hex_digit (i2a (sint (0xFFFFFFFF :: u32)) 16)"
proof -
  have "i2a (- 1) 16 = [47]"
    by (subst i2a.simps) (simp add: hex_char_def signed_divide_int_def signed_modulo_int_def)
  then show ?thesis by (simp add: convert_def is_hex_digit_def)
qed

end
