(* ===== verification/Ring.thy ===== *)
theory Ring
  imports Prelude
begin

text \<open>
  The interface of the two bounded input queues of the terminal, the scan codes of
  \<^verbatim>\<open>src/device/keyboard.c\<close> and the keys of \<^verbatim>\<open>src/task/task_tty.c\<close>: a queue that keeps what fits, in order,
  and drops the rest. The locale states what a queue must promise and derives what its clients rely
  on; both queues are shown to be instances where they are defined.
\<close>

locale bounded_queue =
  fixes capacity :: nat
    and ok :: "'q \<Rightarrow> bool"
    and contents :: "'q \<Rightarrow> 'a list"
    and put :: "'a \<Rightarrow> 'q \<Rightarrow> 'q"
    and get :: "'q \<Rightarrow> 'a \<times> 'q"
  assumes bounded: "ok q \<Longrightarrow> length (contents q) \<le> capacity"
    and put_room: "ok q \<Longrightarrow> length (contents q) < capacity \<Longrightarrow> ok (put x q) \<and> contents (put x q) = contents q @ [x]"
    and put_full: "ok q \<Longrightarrow> length (contents q) = capacity \<Longrightarrow> ok (put x q) \<and> contents (put x q) = contents q"
    and get_first: "ok q \<Longrightarrow> contents q = x # xs \<Longrightarrow> \<exists>q'. get q = (x, q') \<and> ok q' \<and> contents q' = xs"
begin

lemma put_take: "ok q \<Longrightarrow> ok (put x q) \<and> contents (put x q) = take capacity (contents q @ [x])"
  using bounded [of q] put_room [of q x] put_full [of q x]
  by (cases "length (contents q) < capacity") auto

text \<open>Whatever is put in, the queue holds the first elements that fit, in order.\<close>

lemma puts_take:
  "ok q \<Longrightarrow> ok (fold put xs q) \<and> contents (fold put xs q) = take capacity (contents q @ xs)"
proof (induction xs arbitrary: q)
  case Nil
  then show ?case using bounded [of q] by simp
next
  case (Cons x xs)
  then have 1: "ok (put x q)" "contents (put x q) = take capacity (contents q @ [x])"
    using put_take [of q x] by simp_all
  have "take capacity (take capacity (contents q @ [x]) @ xs) = take capacity (contents q @ x # xs)"
    by (cases "length (contents q) < capacity") (simp_all add: min_def)
  with Cons.IH [OF 1(1)] 1(2) show ?case by simp
qed

fun gets :: "nat \<Rightarrow> 'q \<Rightarrow> 'a list \<times> 'q" where
  "gets 0 q = ([], q)"
| "gets (Suc n) q = (case get q of (x, q1) \<Rightarrow> case gets n q1 of (xs, q2) \<Rightarrow> (x # xs, q2))"

lemma gets_contents:
  "ok q \<Longrightarrow> n \<le> length (contents q) \<Longrightarrow>
   \<exists>q'. gets n q = (take n (contents q), q') \<and> ok q' \<and> contents q' = drop n (contents q)"
proof (induction n arbitrary: q)
  case (Suc n)
  then obtain x xs where c: "contents q = x # xs" by (cases "contents q") auto
  with get_first Suc.prems(1) obtain q1 where q1: "get q = (x, q1)" "ok q1" "contents q1 = xs" by blast
  from Suc.IH [OF q1(2)] Suc.prems(2) c q1 obtain q' where
    "gets n q1 = (take n xs, q')" "ok q'" "contents q' = drop n xs" by auto
  with c q1 show ?case by simp
qed simp

text \<open>Everything that fits comes out again, in the order it went in.\<close>

lemma fifo:
  assumes "ok q" "contents q = []" "length xs \<le> capacity"
  shows "\<exists>q'. gets (length xs) (fold put xs q) = (xs, q') \<and> ok q' \<and> contents q' = []"
  using gets_contents [of "fold put xs q" "length xs"] puts_take [OF assms(1), of xs] assms(2, 3) by simp

end

end
