(* ===== verification/Keyboard.thy ===== *)
theory Keyboard
  imports Ring Memory
begin

text \<open>
  The keyboard driver \<^verbatim>\<open>src/device/keyboard.c\<close>, with the constants of \<^verbatim>\<open>src/include/sys/keyboard.h\<close> and the
  table of \<^verbatim>\<open>src/include/sys/keymap.h\<close>.

  \<open>kb_buf\<close> is the address of the buffer \<^verbatim>\<open>kb_in.buf\<close>; the pointers \<^verbatim>\<open>kb_in.p_head\<close> and \<^verbatim>\<open>kb_in.p_tail\<close> are
  addresses into \<open>kbmem\<close>, the memory they write to. The flags are C integers. The bytes sent to the
  controller for the lamps are collected in \<open>led_outs\<close>; the waits for the controller's handshake are
  not modelled. Reading a byte from an empty buffer spins until an interrupt brings one, which is
  the result \<open>Diverges\<close> of a step. What happens to a decoded key is the business of the terminal: the
  reader takes that function as a parameter.
\<close>

unbundle bit_operations_syntax

section \<open>Keys\<close>

abbreviation (input) LEN_KB_IN_BUFFER where "LEN_KB_IN_BUFFER \<equiv> 32 :: int"
abbreviation (input) MAP_COLS where "MAP_COLS \<equiv> 3 :: nat"
abbreviation (input) FLAG_EXT where "FLAG_EXT \<equiv> 0x0100 :: u32"
abbreviation (input) FLAG_SHIFT_L where "FLAG_SHIFT_L \<equiv> 0x0200 :: u32"
abbreviation (input) FLAG_SHIFT_R where "FLAG_SHIFT_R \<equiv> 0x0400 :: u32"
abbreviation (input) FLAG_CTRL_L where "FLAG_CTRL_L \<equiv> 0x0800 :: u32"
abbreviation (input) FLAG_CTRL_R where "FLAG_CTRL_R \<equiv> 0x1000 :: u32"
abbreviation (input) FLAG_ALT_L where "FLAG_ALT_L \<equiv> 0x2000 :: u32"
abbreviation (input) FLAG_ALT_R where "FLAG_ALT_R \<equiv> 0x4000 :: u32"
abbreviation (input) FLAG_PAD where "FLAG_PAD \<equiv> 0x8000 :: u32"
abbreviation (input) MASK_RAW where "MASK_RAW \<equiv> 0x01FF :: u32"
abbreviation (input) KEY_ENTER where "KEY_ENTER \<equiv> 0x103 :: u32"
abbreviation (input) KEY_BACKSPACE where "KEY_BACKSPACE \<equiv> 0x104 :: u32"
abbreviation (input) KEY_SHIFT_L where "KEY_SHIFT_L \<equiv> 0x108 :: u32"
abbreviation (input) KEY_SHIFT_R where "KEY_SHIFT_R \<equiv> 0x109 :: u32"
abbreviation (input) KEY_CTRL_L where "KEY_CTRL_L \<equiv> 0x10A :: u32"
abbreviation (input) KEY_CTRL_R where "KEY_CTRL_R \<equiv> 0x10B :: u32"
abbreviation (input) KEY_ALT_L where "KEY_ALT_L \<equiv> 0x10C :: u32"
abbreviation (input) KEY_ALT_R where "KEY_ALT_R \<equiv> 0x10D :: u32"
abbreviation (input) KEY_CAPS_LOCK where "KEY_CAPS_LOCK \<equiv> 0x10E :: u32"
abbreviation (input) KEY_NUM_LOCK where "KEY_NUM_LOCK \<equiv> 0x10F :: u32"
abbreviation (input) KEY_SCROLL_LOCK where "KEY_SCROLL_LOCK \<equiv> 0x110 :: u32"
abbreviation (input) KEY_F1 where "KEY_F1 \<equiv> 0x111 :: u32"
abbreviation (input) KEY_F12 where "KEY_F12 \<equiv> 0x11C :: u32"
abbreviation (input) KEY_PRINTSCREEN where "KEY_PRINTSCREEN \<equiv> 0x11D :: u32"
abbreviation (input) KEY_PAUSEBREAK where "KEY_PAUSEBREAK \<equiv> 0x11E :: u32"
abbreviation (input) KEY_INSERT where "KEY_INSERT \<equiv> 0x11F :: u32"
abbreviation (input) KEY_DELETE where "KEY_DELETE \<equiv> 0x120 :: u32"
abbreviation (input) KEY_HOME where "KEY_HOME \<equiv> 0x121 :: u32"
abbreviation (input) KEY_END where "KEY_END \<equiv> 0x122 :: u32"
abbreviation (input) KEY_PAGEUP where "KEY_PAGEUP \<equiv> 0x123 :: u32"
abbreviation (input) KEY_PAGEDOWN where "KEY_PAGEDOWN \<equiv> 0x124 :: u32"
abbreviation (input) KEY_UP where "KEY_UP \<equiv> 0x125 :: u32"
abbreviation (input) KEY_DOWN where "KEY_DOWN \<equiv> 0x126 :: u32"
abbreviation (input) KEY_LEFT where "KEY_LEFT \<equiv> 0x127 :: u32"
abbreviation (input) KEY_RIGHT where "KEY_RIGHT \<equiv> 0x128 :: u32"
abbreviation (input) PAD_SLASH where "PAD_SLASH \<equiv> 0x12C :: u32"
abbreviation (input) PAD_STAR where "PAD_STAR \<equiv> 0x12D :: u32"
abbreviation (input) PAD_MINUS where "PAD_MINUS \<equiv> 0x12E :: u32"
abbreviation (input) PAD_PLUS where "PAD_PLUS \<equiv> 0x12F :: u32"
abbreviation (input) PAD_ENTER where "PAD_ENTER \<equiv> 0x130 :: u32"
abbreviation (input) PAD_DOT where "PAD_DOT \<equiv> 0x131 :: u32"
abbreviation (input) PAD_0 where "PAD_0 \<equiv> 0x132 :: u32"
abbreviation (input) PAD_1 where "PAD_1 \<equiv> 0x133 :: u32"
abbreviation (input) PAD_2 where "PAD_2 \<equiv> 0x134 :: u32"
abbreviation (input) PAD_3 where "PAD_3 \<equiv> 0x135 :: u32"
abbreviation (input) PAD_4 where "PAD_4 \<equiv> 0x136 :: u32"
abbreviation (input) PAD_6 where "PAD_6 \<equiv> 0x138 :: u32"
abbreviation (input) PAD_7 where "PAD_7 \<equiv> 0x139 :: u32"
abbreviation (input) PAD_8 where "PAD_8 \<equiv> 0x13A :: u32"
abbreviation (input) PAD_9 where "PAD_9 \<equiv> 0x13B :: u32"

text \<open>Three columns per scan code: plain, with shift, after \<^verbatim>\<open>0xE0\<close>.\<close>

definition keymap :: "u32 list" where
  "keymap =
    [0, 0, 0, 0x101, 0x101, 0, 49, 33, 0, 50, 64, 0,
     51, 35, 0, 52, 36, 0, 53, 37, 0, 54, 94, 0,
     55, 38, 0, 56, 42, 0, 57, 40, 0, 48, 41, 0,
     45, 95, 0, 61, 43, 0, 0x104, 0x104, 0, 0x102, 0x102, 0,
     113, 81, 0, 119, 87, 0, 101, 69, 0, 114, 82, 0,
     116, 84, 0, 121, 89, 0, 117, 85, 0, 105, 73, 0,
     111, 79, 0, 112, 80, 0, 91, 123, 0, 93, 125, 0,
     0x103, 0x103, 0x130, 0x10a, 0x10a, 0x10b, 97, 65, 0, 115, 83, 0,
     100, 68, 0, 102, 70, 0, 103, 71, 0, 104, 72, 0,
     106, 74, 0, 107, 75, 0, 108, 76, 0, 59, 58, 0,
     39, 34, 0, 96, 126, 0, 0x108, 0x108, 0, 92, 124, 0,
     122, 90, 0, 120, 88, 0, 99, 67, 0, 118, 86, 0,
     98, 66, 0, 110, 78, 0, 109, 77, 0, 44, 60, 0,
     46, 62, 0, 47, 63, 0x12c, 0x109, 0x109, 0, 42, 42, 0,
     0x10c, 0x10c, 0x10d, 32, 32, 0, 0x10e, 0x10e, 0, 0x111, 0x111, 0,
     0x112, 0x112, 0, 0x113, 0x113, 0, 0x114, 0x114, 0, 0x115, 0x115, 0,
     0x116, 0x116, 0, 0x117, 0x117, 0, 0x118, 0x118, 0, 0x119, 0x119, 0,
     0x11a, 0x11a, 0, 0x10f, 0x10f, 0, 0x110, 0x110, 0, 0x139, 55, 0x121,
     0x13a, 56, 0x125, 0x13b, 57, 0x123, 0x12e, 45, 0, 0x136, 52, 0x127,
     0x137, 53, 0, 0x138, 54, 0x128, 0x12f, 43, 0, 0x133, 49, 0x122,
     0x134, 50, 0x126, 0x135, 51, 0x124, 0x132, 48, 0x11f, 0x131, 46, 0x120,
     0, 0, 0, 0, 0, 0, 0, 0, 0, 0x11b, 0x11b, 0,
     0x11c, 0x11c, 0, 0, 0, 0, 0, 0, 0, 0, 0, 0x105,
     0, 0, 0x106, 0, 0, 0x107, 0, 0, 0, 0, 0, 0,
     0, 0, 0, 0, 0, 0, 0, 0, 0, 0, 0, 0,
     0, 0, 0, 0, 0, 0, 0, 0, 0, 0, 0, 0,
     0, 0, 0, 0, 0, 0, 0, 0, 0, 0, 0, 0,
     0, 0, 0, 0, 0, 0, 0, 0, 0, 0, 0, 0,
     0, 0, 0, 0, 0, 0, 0, 0, 0, 0, 0, 0,
     0, 0, 0, 0, 0, 0, 0, 0, 0, 0, 0, 0,
     0, 0, 0, 0, 0, 0, 0, 0, 0, 0, 0, 0,
     0, 0, 0, 0, 0, 0, 0, 0, 0, 0, 0, 0]"

section \<open>State\<close>

record kbd =
  code_with_E0 :: int
  kcount :: int
  shift_l :: int
  shift_r :: int
  alt_l :: int
  alt_r :: int
  ctrl_l :: int
  ctrl_r :: int
  caps_lock :: int
  num_lock :: int
  scroll_lock :: int
  column :: int
  p_head :: u32
  p_tail :: u32
  kbmem :: mem
  led_outs :: "u8 list"

abbreviation (input) LED_CODE where "LED_CODE \<equiv> 0xED :: u8"

definition set_leds :: "kbd \<Rightarrow> kbd" where
  "set_leds k = k\<lparr>led_outs := led_outs k @
     [LED_CODE, word_of_int (push_bit 2 (caps_lock k) OR push_bit 1 (num_lock k) OR scroll_lock k)]\<rparr>"

text \<open>\<^verbatim>\<open>init_keyboard\<close> clears \<^verbatim>\<open>kb_state\<close>, sets the number lock and the lamps; it leaves \<^verbatim>\<open>kb_in\<close> as it is.\<close>

definition init_keyboard :: "kbd \<Rightarrow> kbd" where
  "init_keyboard k = set_leds (k\<lparr>code_with_E0 := 0, kcount := 0, shift_l := 0, shift_r := 0, alt_l := 0, alt_r := 0,
     ctrl_l := 0, ctrl_r := 0, caps_lock := 0, num_lock := 1, scroll_lock := 0, column := 0\<rparr>)"

section \<open>The scan code buffer\<close>

text \<open>The increment of a buffer pointer, with its wrap.\<close>

definition kb_advance :: "u32 \<Rightarrow> u32 \<Rightarrow> u32" where
  "kb_advance kb_buf p = (if p + 1 = kb_buf + 32 then kb_buf else p + 1)"

text \<open>The interrupt handler; that it also sets \<^verbatim>\<open>key_pressed\<close> is the step \<open>key_int\<close> of the kernel.\<close>

definition keyboard_handler :: "u32 \<Rightarrow> u8 \<Rightarrow> kbd \<Rightarrow> kbd" where
  "keyboard_handler kb_buf scan_code k =
     (if kcount k < LEN_KB_IN_BUFFER
      then k\<lparr>kcount := kcount k + 1, kbmem := (kbmem k)(p_head k := scan_code), p_head := kb_advance kb_buf (p_head k)\<rparr>
      else k)"

definition kb_take :: "u32 \<Rightarrow> kbd \<Rightarrow> u8 \<times> kbd" where
  "kb_take kb_buf k = (kbmem k (p_tail k), k\<lparr>p_tail := kb_advance kb_buf (p_tail k), kcount := kcount k - 1\<rparr>)"

definition get_byte_from_kb_buf :: "u32 \<Rightarrow> kbd \<Rightarrow> (u8 \<times> kbd) outcome" where
  "get_byte_from_kb_buf kb_buf k = (if kcount k \<le> 0 then Inl Diverges else Inr (kb_take kb_buf k))"

section \<open>Decoding\<close>

fun match_bytes :: "u32 \<Rightarrow> u8 list \<Rightarrow> kbd \<Rightarrow> (bool \<times> kbd) outcome" where
  "match_bytes kb_buf [] k = Inr (True, k)"
| "match_bytes kb_buf (b # bs) k =
     obind (get_byte_from_kb_buf kb_buf k) (\<lambda>(c, k1). if c \<noteq> b then Inr (False, k1) else match_bytes kb_buf bs k1)"

definition handle_pausebreak :: "u32 \<Rightarrow> u32 \<Rightarrow> kbd \<Rightarrow> (u32 \<times> kbd) outcome" where
  "handle_pausebreak kb_buf key k =
     obind (match_bytes kb_buf [0x1D, 0x45, 0xE1, 0x9D, 0xC5] k) (\<lambda>(is_pausebreak, k1).
       Inr (if is_pausebreak then KEY_PAUSEBREAK else key, k1))"

text \<open>The second half of both Print Screen sequences: \<^verbatim>\<open>0xE0\<close> and then the given code.\<close>

definition printscreen_tail :: "u32 \<Rightarrow> u8 \<Rightarrow> int \<Rightarrow> u32 \<times> int \<Rightarrow> kbd \<Rightarrow> (u32 \<times> int \<times> u8 \<times> kbd) outcome" where
  "printscreen_tail kb_buf code mk = (\<lambda>(key, is_make) k.
     obind (get_byte_from_kb_buf kb_buf (k\<lparr>code_with_E0 := 0\<rparr>)) (\<lambda>(sc, k1).
       if sc = 0xE0 then
         obind (get_byte_from_kb_buf kb_buf (k1\<lparr>code_with_E0 := 1\<rparr>)) (\<lambda>(sc2, k2).
           if sc2 = code then Inr (KEY_PRINTSCREEN, mk, sc2, k2) else Inr (key, is_make, sc2, k2))
       else Inr (key, is_make, sc, k1)))"

definition handle_printscreen :: "u32 \<Rightarrow> u32 \<times> int \<Rightarrow> kbd \<Rightarrow> (u32 \<times> int \<times> u8 \<times> kbd) outcome" where
  "handle_printscreen kb_buf km k =
     obind (get_byte_from_kb_buf kb_buf (k\<lparr>code_with_E0 := 1\<rparr>)) (\<lambda>(sc, k1).
       if sc = 0x2A then printscreen_tail kb_buf 0x37 1 km k1
       else if sc = 0xB7 then printscreen_tail kb_buf 0xAA 0 km k1
       else Inr (fst km, snd km, sc, k1))"

definition apply_modifier :: "u32 \<Rightarrow> int \<Rightarrow> kbd \<Rightarrow> kbd" where
  "apply_modifier key is_make k =
     (if key = KEY_SHIFT_L then k\<lparr>shift_l := is_make\<rparr>
      else if key = KEY_SHIFT_R then k\<lparr>shift_r := is_make\<rparr>
      else if key = KEY_CTRL_L then k\<lparr>ctrl_l := is_make\<rparr>
      else if key = KEY_CTRL_R then k\<lparr>ctrl_r := is_make\<rparr>
      else if key = KEY_ALT_L then k\<lparr>alt_l := is_make\<rparr>
      else if key = KEY_ALT_R then k\<lparr>alt_l := is_make\<rparr>
      else if key = KEY_CAPS_LOCK then (if is_make \<noteq> 0 then set_leds (k\<lparr>caps_lock := (if caps_lock k = 0 then 1 else 0)\<rparr>) else k)
      else if key = KEY_NUM_LOCK then (if is_make \<noteq> 0 then set_leds (k\<lparr>num_lock := (if num_lock k = 0 then 1 else 0)\<rparr>) else k)
      else if key = KEY_SCROLL_LOCK then (if is_make \<noteq> 0 then set_leds (k\<lparr>scroll_lock := (if scroll_lock k = 0 then 1 else 0)\<rparr>) else k)
      else k)"

text \<open>The column of the key table, and the key.\<close>

definition key_column :: "u32 \<Rightarrow> kbd \<Rightarrow> int" where
  "key_column plain k =
     (let shift = shift_l k \<noteq> 0 \<or> shift_r k \<noteq> 0;
          caps = (if caps_lock k \<noteq> 0 \<and> plain \<ge> 97 \<and> plain \<le> 122 then \<not> shift else shift)
      in if code_with_E0 k \<noteq> 0 then 2 else if caps then 1 else 0)"

definition process_regular_key :: "u32 \<times> int \<Rightarrow> u8 \<Rightarrow> kbd \<Rightarrow> u32 \<times> int \<times> kbd" where
  "process_regular_key = (\<lambda>(key, is_make) scan_code k.
     if key \<noteq> KEY_PAUSEBREAK \<and> key \<noteq> KEY_PRINTSCREEN then
       (let is_make' = (if scan_code AND 0x80 \<noteq> 0 then 0 else 1);
            row = unat (scan_code AND 0x7F) * MAP_COLS;
            col = key_column (keymap ! row) k;
            key' = keymap ! (row + nat col)
        in (key', is_make', apply_modifier key' is_make' (k\<lparr>column := col\<rparr>)))
     else (key, is_make, k))"

definition pad_key :: "int \<Rightarrow> u32 \<Rightarrow> u32" where
  "pad_key numlock key =
     (if key = PAD_SLASH then 47 else if key = PAD_STAR then 42 else if key = PAD_MINUS then 45
      else if key = PAD_PLUS then 43 else if key = PAD_ENTER then KEY_ENTER
      else if numlock \<noteq> 0 then
        (if key \<ge> PAD_0 \<and> key \<le> PAD_9 then key - PAD_0 + 48 else if key = PAD_DOT then 46 else key)
      else if key = PAD_7 then KEY_HOME else if key = PAD_1 then KEY_END else if key = PAD_9 then KEY_PAGEUP
      else if key = PAD_3 then KEY_PAGEDOWN else if key = PAD_0 then KEY_INSERT else if key = PAD_8 then KEY_UP
      else if key = PAD_2 then KEY_DOWN else if key = PAD_4 then KEY_LEFT else if key = PAD_6 then KEY_RIGHT
      else if key = PAD_DOT then KEY_DELETE else key)"

text \<open>\<^verbatim>\<open>process_numpad_key\<close>, up to the call of \<^verbatim>\<open>tty_process_key\<close> with the key it computes.\<close>

definition process_numpad_key :: "kbd \<Rightarrow> u32 \<Rightarrow> u32" where
  "process_numpad_key k key =
     (let pad = key \<ge> PAD_SLASH \<and> key \<le> PAD_9; key' = (if pad then pad_key (num_lock k) key else key)
      in key' OR (if shift_l k \<noteq> 0 then FLAG_SHIFT_L else 0) OR (if shift_r k \<noteq> 0 then FLAG_SHIFT_R else 0)
           OR (if ctrl_l k \<noteq> 0 then FLAG_CTRL_L else 0) OR (if ctrl_r k \<noteq> 0 then FLAG_CTRL_R else 0)
           OR (if alt_l k \<noteq> 0 then FLAG_ALT_L else 0) OR (if alt_r k \<noteq> 0 then FLAG_ALT_R else 0)
           OR (if pad then FLAG_PAD else 0))"

text \<open>
  One round of the loop of \<^verbatim>\<open>keyboard_read\<close>: decode one key and hand it to the terminal when it is a
  make code. The locals \<^verbatim>\<open>key\<close> and \<^verbatim>\<open>make\<close> live across rounds.
\<close>

definition keyboard_step ::
  "(u32 \<Rightarrow> 't \<Rightarrow> 't outcome) \<Rightarrow> u32 \<Rightarrow> u32 \<times> int \<Rightarrow> kbd \<Rightarrow> 't \<Rightarrow> ((u32 \<times> int) \<times> kbd \<times> 't) outcome" where
  "keyboard_step tty_key kb_buf km k t =
     obind (get_byte_from_kb_buf kb_buf (k\<lparr>code_with_E0 := 0\<rparr>)) (\<lambda>(sc, k1).
     obind (if sc = 0xE1 then obind (handle_pausebreak kb_buf (fst km) k1) (\<lambda>(key, k2). Inr (key, snd km, sc, k2))
            else if sc = 0xE0 then handle_printscreen kb_buf km k1
            else Inr (fst km, snd km, sc, k1)) (\<lambda>(key, is_make, sc', k2).
     let (key', is_make', k3) = process_regular_key (key, is_make) sc' k2
     in if is_make' \<noteq> 0 then obind (tty_key (process_numpad_key k3 key') t) (\<lambda>t'. Inr ((key', is_make'), k3, t'))
        else Inr ((key', is_make'), k3, t)))"

lemma take_count:
  "get_byte_from_kb_buf b k = Inr (c, k') \<Longrightarrow> kcount k' = kcount k - 1 \<and> 0 < kcount k"
  by (auto simp: get_byte_from_kb_buf_def kb_take_def split: if_splits)

lemma match_count: "match_bytes b bs k = Inr (r, k') \<Longrightarrow> kcount k' \<le> kcount k"
proof (induction b bs k rule: match_bytes.induct)
  case (2 b x bs k)
  then show ?case by (fastforce simp: obind_Inr_iff dest!: take_count split: if_splits)
qed simp

lemma modifier_count [simp]: "kcount (apply_modifier key is_make k) = kcount k"
  by (simp add: apply_modifier_def set_leds_def)

lemma regular_count: "process_regular_key km sc k = (key, is_make, k') \<Longrightarrow> kcount k' = kcount k"
  by (auto simp: process_regular_key_def Let_def split: prod.splits if_splits)

lemma printscreen_tail_count: "printscreen_tail b code mk km k = Inr (key, is_make, sc, k') \<Longrightarrow> kcount k' \<le> kcount k"
proof -
  assume run: "printscreen_tail b code mk km k = Inr (key, is_make, sc, k')"
  obtain key0 make0 where km: "km = (key0, make0)" by (cases km)
  from run obtain c k1 where 1: "get_byte_from_kb_buf b (k\<lparr>code_with_E0 := 0\<rparr>) = Inr (c, k1)"
    and 2: "(if c = 0xE0 then obind (get_byte_from_kb_buf b (k1\<lparr>code_with_E0 := 1\<rparr>)) (\<lambda>(sc2, k2).
           if sc2 = code then Inr (KEY_PRINTSCREEN, mk, sc2, k2) else Inr (key0, make0, sc2, k2))
       else Inr (key0, make0, c, k1)) = Inr (key, is_make, sc, k')"
    unfolding printscreen_tail_def km obind_Inr_iff by (auto simp only: prod.case)
  have "kcount k' \<le> kcount k1"
  proof (cases "c = 0xE0")
    case True
    with 2 obtain c2 k2 where "get_byte_from_kb_buf b (k1\<lparr>code_with_E0 := 1\<rparr>) = Inr (c2, k2)" "k' = k2"
      by (auto simp: obind_Inr_iff split: if_splits)
    then show ?thesis using take_count [of b "k1\<lparr>code_with_E0 := 1\<rparr>" c2 k2] by simp
  qed (use 2 in simp)
  then show ?thesis using take_count [OF 1] by simp
qed

lemma printscreen_count: "handle_printscreen b km k = Inr (key, is_make, sc, k') \<Longrightarrow> kcount k' \<le> kcount k"
  by (auto simp: handle_printscreen_def obind_Inr_iff split: if_splits dest!: take_count printscreen_tail_count)

lemma pausebreak_count: "handle_pausebreak b key k = Inr (key', k') \<Longrightarrow> kcount k' \<le> kcount k"
  by (auto simp: handle_pausebreak_def obind_Inr_iff simp del: match_bytes.simps dest: match_count)

lemma keyboard_step_count:
  assumes "keyboard_step f b km k t = Inr (km', k', t')"
  shows "kcount k' < kcount k \<and> 0 < kcount k"
proof -
  from assms obtain sc k1 key is_make sc' k2 where
    1: "get_byte_from_kb_buf b (k\<lparr>code_with_E0 := 0\<rparr>) = Inr (sc, k1)"
    and 2: "(if sc = 0xE1 then obind (handle_pausebreak b (fst km) k1) (\<lambda>(key, k2). Inr (key, snd km, sc, k2))
            else if sc = 0xE0 then handle_printscreen b km k1
            else Inr (fst km, snd km, sc, k1)) = Inr (key, is_make, sc', k2)"
    and 3: "(case process_regular_key (key, is_make) sc' k2 of (key', is_make', k3) \<Rightarrow>
       if is_make' \<noteq> 0 then obind (f (process_numpad_key k3 key') t) (\<lambda>t'. Inr ((key', is_make'), k3, t'))
        else Inr ((key', is_make'), k3, t)) = Inr (km', k', t')"
    by (auto simp: keyboard_step_def obind_Inr_iff Let_def)
  have "kcount k2 \<le> kcount k1"
    using 2 by (auto simp: obind_Inr_iff dest: pausebreak_count printscreen_count split: if_splits)
  moreover have "kcount k' = kcount k2"
    using 3 regular_count [of "(key, is_make)" sc' k2] by (auto simp: obind_Inr_iff split: prod.splits if_splits)
  ultimately show ?thesis using take_count [OF 1] by simp
qed

function keyboard_loop ::
  "(u32 \<Rightarrow> 't \<Rightarrow> 't outcome) \<Rightarrow> u32 \<Rightarrow> u32 \<times> int \<Rightarrow> kbd \<Rightarrow> 't \<Rightarrow> (kbd \<times> 't) outcome" where
  "keyboard_loop f b km k t =
     (if kcount k > 0 then
        (case keyboard_step f b km k t of Inl e \<Rightarrow> Inl e | Inr (km', k', t') \<Rightarrow> keyboard_loop f b km' k' t')
      else Inr (k, t))"
  by pat_completeness auto
termination
  by (relation "measure (\<lambda>(f, b, km, k, t). nat (kcount k))") (auto dest: keyboard_step_count)

declare keyboard_loop.simps [simp del]

text \<open>\<^verbatim>\<open>keyboard_read\<close>; \<open>make0\<close> is the value its uninitialised local \<^verbatim>\<open>make\<close> happens to have.\<close>

definition keyboard_read ::
  "(u32 \<Rightarrow> 't \<Rightarrow> 't outcome) \<Rightarrow> u32 \<Rightarrow> int \<Rightarrow> kbd \<Rightarrow> 't \<Rightarrow> (kbd \<times> 't) outcome" where
  "keyboard_read f kb_buf make0 k t = keyboard_loop f kb_buf (0, make0) k t"

section \<open>The scan code buffer is a bounded queue\<close>

definition kb_ok :: "u32 \<Rightarrow> kbd \<Rightarrow> bool" where
  "kb_ok b k \<longleftrightarrow> 0 \<le> kcount k \<and> kcount k \<le> LEN_KB_IN_BUFFER \<and> p_head k = (kb_advance b ^^ nat (kcount k)) (p_tail k)"

definition kb_contents :: "u32 \<Rightarrow> kbd \<Rightarrow> u8 list" where
  "kb_contents b k = map (\<lambda>i. kbmem k ((kb_advance b ^^ i) (p_tail k))) [0..<nat (kcount k)]"

text \<open>Where a pointer is after \<open>i\<close> increments: straight on up to the end of the buffer, then from its start.\<close>

lemma kb_advance_iter:
  assumes d: "d = unat (b + 31 - t)" and "i \<le> d + 32"
  shows "(kb_advance b ^^ i) t = (if i \<le> d then t + of_nat i else b + of_nat (i - d - 1))"
  using assms(2)
proof (induction i)
  case (Suc i)
  have dd: "of_nat d = b + 31 - t" using d by simp
  have dl: "d < 4294967296" using d by (simp add: unat_u32_less)
  consider "i < d" | "i = d" | "d < i" by linarith
  then show ?case
  proof cases
    case 1
    have "of_nat i \<noteq> (of_nat d :: u32)" using 1 dl by (subst of_nat_u32_inj) auto
    then have "t + of_nat i + 1 \<noteq> b + 32" using dd by (auto simp: algebra_simps)
    with Suc 1 show ?thesis by (simp add: kb_advance_def algebra_simps)
  next
    case 2
    have "t + of_nat d + 1 = b + 32" using dd by (simp add: algebra_simps)
    with Suc 2 show ?thesis by (simp add: kb_advance_def)
  next
    case 3
    have "(of_nat (i - d) :: u32) \<noteq> of_nat 32" using 3 Suc.prems by (subst of_nat_u32_inj) auto
    then have "b + of_nat (i - d - 1) + 1 \<noteq> b + 32"
      using 3 by (auto simp: of_nat_diff algebra_simps)
    moreover have "b + of_nat (i - d - 1) + 1 = b + of_nat (Suc i - d - 1)"
      using 3 by (simp add: of_nat_diff algebra_simps)
    ultimately show ?thesis using Suc 3 by (simp add: kb_advance_def)
  qed
qed simp

lemma kb_advance_distinct:
  assumes "i < j" "j < 32"
  shows "(kb_advance b ^^ i) t \<noteq> (kb_advance b ^^ j) t"
proof -
  define d where d: "d = unat (b + 31 - t)"
  have dd: "of_nat d = b + 31 - t" and dl: "d < 4294967296" using d by (simp_all add: unat_u32_less)
  note it = kb_advance_iter [OF d]
  consider "j \<le> d" | "i \<le> d" "d < j" | "d < i" by linarith
  then show ?thesis
  proof cases
    case 1
    then show ?thesis using assms dl by (simp add: it of_nat_u32_inj)
  next
    case 2
    have "(of_nat (i + 32) :: u32) \<noteq> of_nat j" using assms by (subst of_nat_u32_inj) auto
    then have "t + of_nat i \<noteq> t + (of_nat j - 32)" by (auto simp: algebra_simps)
    moreover have "b + of_nat (j - d - 1) = t + (of_nat j - 32)" using 2 dd by (simp add: of_nat_diff algebra_simps)
    moreover have "(kb_advance b ^^ i) t = t + of_nat i" "(kb_advance b ^^ j) t = b + of_nat (j - d - 1)"
      using it [of i] it [of j] 2 assms by simp_all
    ultimately show ?thesis by (simp only: not_False_eq_True)
  next
    case 3
    then show ?thesis using assms by (simp add: it of_nat_u32_inj)
  qed
qed

lemma kb_contents_put:
  assumes "kb_ok b k" "kcount k < LEN_KB_IN_BUFFER"
  shows "kb_contents b (keyboard_handler b c k) = kb_contents b k @ [c]" "kb_ok b (keyboard_handler b c k)"
proof -
  let ?n = "nat (kcount k)"
  have n: "nat (kcount k + 1) = Suc ?n" "?n < 32" and h: "p_head k = (kb_advance b ^^ ?n) (p_tail k)"
    using assms by (auto simp: kb_ok_def)
  have "(kb_advance b ^^ i) (p_tail k) \<noteq> p_head k" if "i < ?n" for i
    using kb_advance_distinct [OF that n(2)] h by simp
  then show "kb_contents b (keyboard_handler b c k) = kb_contents b k @ [c]"
    using assms n h by (auto simp: kb_contents_def keyboard_handler_def)
  show "kb_ok b (keyboard_handler b c k)"
    using assms n h by (simp add: kb_ok_def keyboard_handler_def)
qed

lemma map_funpow_Suc:
  "map (\<lambda>i. g ((f ^^ i) x)) [0..<Suc n] = g x # map (\<lambda>i. g ((f ^^ i) (f x))) [0..<n]"
  by (induction n) (simp_all add: funpow_swap1)

interpretation kbq: bounded_queue 32 "kb_ok b" "kb_contents b" "keyboard_handler b" "kb_take b" for b
proof
  fix q c
  show "kb_ok b q \<Longrightarrow> length (kb_contents b q) \<le> 32" by (auto simp: kb_ok_def kb_contents_def)
  show "kb_ok b q \<Longrightarrow> length (kb_contents b q) < 32 \<Longrightarrow>
      kb_ok b (keyboard_handler b c q) \<and> kb_contents b (keyboard_handler b c q) = kb_contents b q @ [c]"
    using kb_contents_put [of b q c] by (auto simp: kb_contents_def kb_ok_def)
  show "kb_ok b q \<Longrightarrow> length (kb_contents b q) = 32 \<Longrightarrow>
      kb_ok b (keyboard_handler b c q) \<and> kb_contents b (keyboard_handler b c q) = kb_contents b q"
    by (auto simp: kb_contents_def kb_ok_def keyboard_handler_def)
next
  fix q x xs
  assume ok: "kb_ok b q" and c: "kb_contents b q = x # xs"
  then have n: "0 < kcount q" by (cases "kcount q \<le> 0") (auto simp: kb_contents_def)
  define m where "m = nat (kcount q - 1)"
  with n have m: "nat (kcount q) = Suc m" "nat (kcount q - 1) = m" by simp_all
  have "kb_contents b q = kbmem q (p_tail q) # kb_contents b (snd (kb_take b q))"
    unfolding kb_contents_def m(1) map_funpow_Suc by (simp add: kb_take_def m(2))
  moreover have "kb_ok b (snd (kb_take b q))"
    using ok n m by (simp add: kb_ok_def kb_take_def funpow_swap1)
  ultimately show "\<exists>q'. kb_take b q = (x, q') \<and> kb_ok b q' \<and> kb_contents b q' = xs"
    using c by (simp add: kb_take_def)
qed

text \<open>C17: The scan code buffer is a first-in-first-out queue of at most 32 codes, wherever its pointers
  start: after any sequence of keyboard interrupts it holds the codes it held before followed by the
  new ones, as far as 32 codes go (the rest is dropped); reading takes the oldest, and waits when there
  is none.\<close>

theorem scan_codes_fifo:
  assumes "kb_ok b k"
  shows "kb_ok b (fold (keyboard_handler b) codes k) \<and>
    kb_contents b (fold (keyboard_handler b) codes k) = take 32 (kb_contents b k @ codes) \<and>
    (case kb_contents b k of
       [] \<Rightarrow> get_byte_from_kb_buf b k = Inl Diverges
     | c # cs \<Rightarrow> \<exists>k'. get_byte_from_kb_buf b k = Inr (c, k') \<and> kb_ok b k' \<and> kb_contents b k' = cs)"
proof -
  have "kb_contents b k = [] \<longleftrightarrow> kcount k \<le> 0" by (simp add: kb_contents_def)
  then have "case kb_contents b k of
       [] \<Rightarrow> get_byte_from_kb_buf b k = Inl Diverges
     | c # cs \<Rightarrow> \<exists>k'. get_byte_from_kb_buf b k = Inr (c, k') \<and> kb_ok b k' \<and> kb_contents b k' = cs"
    using kbq.get_first [OF assms] by (auto simp: get_byte_from_kb_buf_def split: list.splits)
  with kbq.puts_take [OF assms, of codes] show ?thesis by simp
qed

definition kbd_zero :: kbd where
  "kbd_zero = \<lparr>code_with_E0 = 0, kcount = 0, shift_l = 0, shift_r = 0, alt_l = 0, alt_r = 0, ctrl_l = 0, ctrl_r = 0,
     caps_lock = 0, num_lock = 0, scroll_lock = 0, column = 0, p_head = 0, p_tail = 0, kbmem = (\<lambda>_. 0), led_outs = []\<rparr>"

theorem scan_codes_fifo_witness:
  "kb_contents 0x5000 (fold (keyboard_handler 0x5000) [0x1E, 0x9E] (init_keyboard kbd_zero)) = [0x1E, 0x9E]"
proof -
  have "kb_ok 0x5000 (init_keyboard kbd_zero)" "kb_contents 0x5000 (init_keyboard kbd_zero) = []"
    by (simp_all add: kb_ok_def kb_contents_def init_keyboard_def set_leds_def kbd_zero_def)
  then show ?thesis using scan_codes_fifo [of "0x5000" "init_keyboard kbd_zero" "[0x1E, 0x9E]"] by simp
qed

text \<open>C20: \<^verbatim>\<open>init_keyboard\<close> does not set the buffer pointers, which are null at start-up: the first scan codes
  are stored from address 0 on and not in the buffer of the driver.\<close>

theorem scan_codes_from_address_zero:
  assumes "p_head k = 0" and "p_tail k = 0" and "b + 32 \<noteq> 1"
  shows "let k' = keyboard_handler b c (init_keyboard k) in kbmem k' 0 = c \<and> p_head k' = 1 \<and>
    (\<forall>i. b \<noteq> 0 \<and> unat i < 32 \<and> unat b \<le> 4294967264 \<longrightarrow> kbmem k' (b + i) = kbmem k (b + i))"
proof -
  have "b + i \<noteq> 0" if "b \<noteq> 0" "unat i < 32" "unat b \<le> 4294967264" for i
  proof
    assume "b + i = 0"
    then have "unat (b + i) = 0" by simp
    moreover have "unat (b + i) = unat b + unat i" using that by (subst unat_word_ariths) simp
    ultimately show False using that(1) by (simp add: unat_eq_0)
  qed
  then show ?thesis
    using assms by (auto simp: keyboard_handler_def init_keyboard_def set_leds_def kb_advance_def Let_def)
qed

theorem scan_codes_from_address_zero_witness:
  "kbmem (keyboard_handler 0x5000 0x1E (init_keyboard kbd_zero)) 0 = 0x1E"
  using scan_codes_from_address_zero [of kbd_zero "0x5000" "0x1E"] by (simp add: kbd_zero_def Let_def)

section \<open>Decoding\<close>

lemma length_keymap [simp]: "length keymap = 384"
  by (simp add: keymap_def)

text \<open>Facts about the whole table, by evaluation: a small letter has its capital beside it.\<close>

fun letters_paired :: "u32 list \<Rightarrow> bool" where
  "letters_paired (x # y # z # xs) \<longleftrightarrow> (97 \<le> x \<and> x \<le> 122 \<longrightarrow> y = x - 32) \<and> letters_paired xs"
| "letters_paired _ \<longleftrightarrow> True"

lemma letters_paired_nth:
  "letters_paired xs \<Longrightarrow> c * 3 + 2 < length xs \<Longrightarrow> 97 \<le> xs ! (c * 3) \<Longrightarrow> xs ! (c * 3) \<le> 122 \<Longrightarrow>
   xs ! (c * 3 + 1) = xs ! (c * 3) - 32"
proof (induction xs arbitrary: c rule: letters_paired.induct)
  case (1 x y z xs)
  then show ?case by (cases c) simp_all
qed simp_all

lemma keymap_letters: "letters_paired keymap"
  by (simp add: keymap_def)

lemma row_less: "unat (sc AND 0x7F :: u8) < 128"
proof -
  have "sc AND 0x7F = take_bit 7 sc" by (simp add: take_bit_eq_mask mask_eq_exp_minus_1)
  then show ?thesis using take_bit_nat_less_exp [of 7 "unat sc"] by (simp add: unsigned_take_bit_eq)
qed

lemma letter_not_modifier:
  assumes "key \<le> 122"
  shows "apply_modifier key mk k = k"
proof -
  have "key \<noteq> x" if "122 < x" for x using assms that by auto
  then show ?thesis by (simp add: apply_modifier_def)
qed

text \<open>Letters: for every scan code whose plain key is a letter and that is not prefixed by \<^verbatim>\<open>0xE0\<close>, the
  decoded key is the small letter when exactly as many of shift and caps lock are off as on, and the
  corresponding capital when exactly one of the two is on; press and release are told apart by bit 7,
  and no other keyboard state changes.\<close>

theorem letter_decoding:
  assumes "plain = keymap ! (unat (sc AND 0x7F) * 3)" and "97 \<le> plain" and "plain \<le> 122" and "code_with_E0 k = 0"
    and "key \<noteq> KEY_PAUSEBREAK" and "key \<noteq> KEY_PRINTSCREEN"
  shows "process_regular_key (key, mk) sc k =
    (let upper = ((shift_l k \<noteq> 0 \<or> shift_r k \<noteq> 0) \<noteq> (caps_lock k \<noteq> 0))
     in (if upper then plain - 32 else plain, if sc AND 0x80 \<noteq> 0 then 0 else 1, k\<lparr>column := (if upper then 1 else 0)\<rparr>))"
proof -
  let ?r = "unat (sc AND 0x7F)"
  have up: "keymap ! (?r * 3 + 1) = plain - 32"
    using letters_paired_nth [OF keymap_letters, of ?r] row_less [of sc] assms(1-3) by simp
  have pl: "keymap ! (?r * 3) = plain" using assms(1) by simp
  have "plain - 32 \<le> 122"
    using assms(2, 3) by (simp add: word_le_nat_alt unat_sub)
  then have nm: "apply_modifier plain m k' = k'" "apply_modifier (plain - 32) m k' = k'" for m k'
    using assms(2, 3) by (simp_all add: letter_not_modifier)
  have col: "key_column plain k = (if (shift_l k \<noteq> 0 \<or> shift_r k \<noteq> 0) \<noteq> (caps_lock k \<noteq> 0) then 1 else 0)"
    using assms(2-4) by (simp add: key_column_def Let_def)
  show ?thesis
    using assms(5, 6) unfolding process_regular_key_def Let_def prod.case pl col
    by (simp add: pl up [simplified] nm)
qed

theorem letter_decoding_witness:
  "process_regular_key (0, 0) 0x1E kbd_zero = (97, 1, kbd_zero) \<and>
   process_regular_key (0, 0) 0x1E (kbd_zero\<lparr>shift_r := 1\<rparr>) = (65, 1, kbd_zero\<lparr>shift_r := 1, column := 1\<rparr>)"
  using letter_decoding [of 97 "0x1E" kbd_zero 0 0] letter_decoding [of 97 "0x1E" "kbd_zero\<lparr>shift_r := 1\<rparr>" 0 0]
  by (simp add: keymap_def kbd_zero_def)

lemma keymap_alt: "keymap ! 170 = KEY_ALT_R"
  by (simp add: keymap_def)

text \<open>The right Alt key (\<^verbatim>\<open>0xE0 0x38\<close>) never sets its own flag: it sets and clears the flag of the left
  Alt key, so \<^verbatim>\<open>FLAG_ALT_R\<close> is never reported.\<close>

theorem right_alt_reported_as_left:
  assumes "code_with_E0 k \<noteq> 0" and "key \<noteq> KEY_PAUSEBREAK" and "key \<noteq> KEY_PRINTSCREEN"
  shows "(\<exists>k'. process_regular_key (key, mk) 0x38 k = (KEY_ALT_R, 1, k') \<and> alt_l k' = 1 \<and> alt_r k' = alt_r k) \<and>
    (\<exists>k'. process_regular_key (key, mk) 0xB8 k = (KEY_ALT_R, 0, k') \<and> alt_l k' = 0 \<and> alt_r k' = alt_r k)"
  using assms keymap_alt by (simp add: process_regular_key_def Let_def key_column_def apply_modifier_def)

theorem right_alt_reported_as_left_witness:
  "\<exists>k'. process_regular_key (0, 0) 0x38 (kbd_zero\<lparr>code_with_E0 := 1\<rparr>) = (KEY_ALT_R, 1, k') \<and> alt_l k' = 1 \<and> alt_r k' = 0"
  using right_alt_reported_as_left [of "kbd_zero\<lparr>code_with_E0 := 1\<rparr>" 0 0] by (simp add: kbd_zero_def)

end
