(* ===== verification/Msg.thy ===== *)
theory Msg
  imports Ipc
begin

text \<open>
  Messages as the tasks see them: the structure of \<^verbatim>\<open>src/include/sys/ipc.h\<close> with the message types of
  \<^verbatim>\<open>src/include/sys/const.h\<close>, its layout in memory, and the user side of message passing,
  \<^verbatim>\<open>ipc_msg_send_rcv\<close> of \<^verbatim>\<open>src/lib/sys/ipc.c\<close>.

  The union is represented by its third variant, the only one the code uses; the field macros
  (\<^verbatim>\<open>FD\<close>, \<^verbatim>\<open>CNT\<close>, \<^verbatim>\<open>RETVAL\<close> and so on) are abbreviations of it. A task works on a message record; \<open>put_msg\<close>
  and \<open>get_msg\<close> say which 48 bytes of memory it stands for.
\<close>

unbundle bit_operations_syntax

section \<open>The structure\<close>

record message =
  source :: int
  type :: int
  m3i1 :: int
  m3i2 :: int
  m3i3 :: int
  m3i4 :: int
  m3l1 :: u64
  m3l2 :: u64
  m3p1 :: u32
  m3p2 :: u32

abbreviation FD where "FD \<equiv> m3i1"
abbreviation PATHNAME where "PATHNAME \<equiv> m3p1"
abbreviation FLAGS where "FLAGS \<equiv> m3i1"
abbreviation NAME_LEN where "NAME_LEN \<equiv> m3i2"
abbreviation BUF_LEN where "BUF_LEN \<equiv> m3i3"
abbreviation CNT where "CNT \<equiv> m3i2"
abbreviation REQUEST where "REQUEST \<equiv> m3i2"
abbreviation PROC_NR where "PROC_NR \<equiv> m3i3"
abbreviation NR_DEV_MINOR where "NR_DEV_MINOR \<equiv> m3i4"
abbreviation POSITION where "POSITION \<equiv> m3l1"
abbreviation BUF where "BUF \<equiv> m3p2"
abbreviation OFFSET where "OFFSET \<equiv> m3i2"
abbreviation WHENCE where "WHENCE \<equiv> m3i3"
abbreviation PID where "PID \<equiv> m3i2"
abbreviation RETVAL where "RETVAL \<equiv> m3i1"
abbreviation STATUS where "STATUS \<equiv> m3i1"

text \<open>The same names in assignments to a message.\<close>

abbreviation FD_update where "FD_update \<equiv> m3i1_update"
abbreviation PATHNAME_update where "PATHNAME_update \<equiv> m3p1_update"
abbreviation FLAGS_update where "FLAGS_update \<equiv> m3i1_update"
abbreviation NAME_LEN_update where "NAME_LEN_update \<equiv> m3i2_update"
abbreviation BUF_LEN_update where "BUF_LEN_update \<equiv> m3i3_update"
abbreviation CNT_update where "CNT_update \<equiv> m3i2_update"
abbreviation REQUEST_update where "REQUEST_update \<equiv> m3i2_update"
abbreviation PROC_NR_update where "PROC_NR_update \<equiv> m3i3_update"
abbreviation NR_DEV_MINOR_update where "NR_DEV_MINOR_update \<equiv> m3i4_update"
abbreviation POSITION_update where "POSITION_update \<equiv> m3l1_update"
abbreviation BUF_update where "BUF_update \<equiv> m3p2_update"
abbreviation OFFSET_update where "OFFSET_update \<equiv> m3i2_update"
abbreviation WHENCE_update where "WHENCE_update \<equiv> m3i3_update"
abbreviation PID_update where "PID_update \<equiv> m3i2_update"
abbreviation RETVAL_update where "RETVAL_update \<equiv> m3i1_update"
abbreviation STATUS_update where "STATUS_update \<equiv> m3i1_update"

definition zero_msg :: message where
  "zero_msg = \<lparr>source = 0, type = 0, m3i1 = 0, m3i2 = 0, m3i3 = 0, m3i4 = 0, m3l1 = 0, m3l2 = 0, m3p1 = 0, m3p2 = 0\<rparr>"

abbreviation (input) T_HW_INT where "T_HW_INT \<equiv> 1 :: int"
abbreviation (input) SYS_GET_TICKS where "SYS_GET_TICKS \<equiv> 2 :: int"
abbreviation (input) SYS_GET_PID where "SYS_GET_PID \<equiv> 3 :: int"
abbreviation (input) SYS_GET_RTC_TIME where "SYS_GET_RTC_TIME \<equiv> 4 :: int"
abbreviation (input) FS_OPEN where "FS_OPEN \<equiv> 5 :: int"
abbreviation (input) FS_CLOSE where "FS_CLOSE \<equiv> 6 :: int"
abbreviation (input) FS_READ where "FS_READ \<equiv> 7 :: int"
abbreviation (input) FS_WRITE where "FS_WRITE \<equiv> 8 :: int"
abbreviation (input) FS_LSEEK where "FS_LSEEK \<equiv> 9 :: int"
abbreviation (input) FS_STAT where "FS_STAT \<equiv> 10 :: int"
abbreviation (input) FS_UNLINK where "FS_UNLINK \<equiv> 11 :: int"
abbreviation (input) SUSPEND_PROC where "SUSPEND_PROC \<equiv> 12 :: int"
abbreviation (input) RESUME_PROC where "RESUME_PROC \<equiv> 13 :: int"
abbreviation (input) EXEC where "EXEC \<equiv> 15 :: int"
abbreviation (input) WAIT where "WAIT \<equiv> 16 :: int"
abbreviation (input) FORK where "FORK \<equiv> 17 :: int"
abbreviation (input) EXIT where "EXIT \<equiv> 18 :: int"
abbreviation (input) SYSCALL_RET where "SYSCALL_RET \<equiv> 19 :: int"
abbreviation (input) DEV_OPEN where "DEV_OPEN \<equiv> 1001 :: int"
abbreviation (input) DEV_CLOSE where "DEV_CLOSE \<equiv> 1002 :: int"
abbreviation (input) DEV_READ where "DEV_READ \<equiv> 1003 :: int"
abbreviation (input) DEV_WRITE where "DEV_WRITE \<equiv> 1004 :: int"
abbreviation (input) DEV_IOCTL where "DEV_IOCTL \<equiv> 1005 :: int"

section \<open>Layout\<close>

definition rd64 :: "mem \<Rightarrow> u32 \<Rightarrow> u64" where
  "rd64 mm a = ucast (rd32 mm a) OR push_bit 32 (ucast (rd32 mm (a + 4)))"

definition wr64 :: "mem \<Rightarrow> u32 \<Rightarrow> u64 \<Rightarrow> mem" where
  "wr64 mm a v = wr32 (wr32 mm a (ucast v)) (a + 4) (ucast (drop_bit 32 v))"

definition get_msg :: "mem \<Rightarrow> u32 \<Rightarrow> message" where
  "get_msg mm a = \<lparr>source = sint (rd32 mm a), type = sint (rd32 mm (a + 4)), m3i1 = sint (rd32 mm (a + 8)),
     m3i2 = sint (rd32 mm (a + 12)), m3i3 = sint (rd32 mm (a + 16)), m3i4 = sint (rd32 mm (a + 20)),
     m3l1 = rd64 mm (a + 24), m3l2 = rd64 mm (a + 32), m3p1 = rd32 mm (a + 40), m3p2 = rd32 mm (a + 44)\<rparr>"

definition put_msg :: "message \<Rightarrow> u32 \<Rightarrow> mem \<Rightarrow> mem" where
  "put_msg msg a mm =
     wr32 (wr32 (wr64 (wr64 (wr32 (wr32 (wr32 (wr32 (wr32 (wr32 mm
       a (word_of_int (source msg))) (a + 4) (word_of_int (type msg)))
       (a + 8) (word_of_int (m3i1 msg))) (a + 12) (word_of_int (m3i2 msg)))
       (a + 16) (word_of_int (m3i3 msg))) (a + 20) (word_of_int (m3i4 msg)))
       (a + 24) (m3l1 msg)) (a + 32) (m3l2 msg)) (a + 40) (m3p1 msg)) (a + 44) (m3p2 msg)"

section \<open>The user side\<close>

text \<open>
  \<^verbatim>\<open>ipc_msg_send_rcv\<close> over the system call \<^verbatim>\<open>sys_send_rcv\<close>, a trap into the kernel written in assembly
  (\<^verbatim>\<open>src/lib/sys/\<close> is linked against it) and a parameter here: it takes the function, the partner, the
  address of the message and a state that contains memory, given by \<open>upd\<close>.
\<close>

definition ipc_msg_send_rcv ::
  "(int \<Rightarrow> int \<Rightarrow> u32 \<Rightarrow> 's \<Rightarrow> ('s \<times> int) outcome) \<Rightarrow> ((mem \<Rightarrow> mem) \<Rightarrow> 's \<Rightarrow> 's) \<Rightarrow>
   int \<Rightarrow> int \<Rightarrow> u32 \<Rightarrow> 's \<Rightarrow> ('s \<times> int) outcome" where
  "ipc_msg_send_rcv sys_send_rcv upd fn src_dest msg s =
     (let s1 = (if fn = RECEIVE then upd (\<lambda>mm. memset mm msg 0 MSG_SIZE) s else s)
      in if fn = SEND_RECEIVE then
           obind (sys_send_rcv SEND src_dest msg s1) (\<lambda>(s2, ret).
             if ret = 0 then sys_send_rcv RECEIVE src_dest msg s2 else Inr (s2, ret))
         else if fn = SEND \<or> fn = RECEIVE then sys_send_rcv fn src_dest msg s1
         else Inl AssertFail)"

section \<open>Round trip\<close>

lemma rd32_wr32_apart: "apart b 4 a 4 \<Longrightarrow> rd32 (wr32 mm b v) a = rd32 mm a"
  using apart_offset [of b 4 a 4] by (intro rd32_cong wr32_other) (simp add: wr32_other)

lemma rd32_wr32_offset:
  fixes a k j :: u32
  assumes "4 \<le> unat (k - j)" "4 \<le> unat (j - k)"
  shows "rd32 (wr32 mm (a + j) v) (a + k) = rd32 mm (a + k)"
  using assms by (intro rd32_wr32_apart) (simp add: apart_def)

lemmas rd32_wr32_base = rd32_wr32_offset [of _ 0, simplified] rd32_wr32_offset [of 0, simplified]

lemma rd64_wr64 [simp]: "rd64 (wr64 mm a v) a = v"
proof -
  have "rd32 (wr64 mm a v) a = ucast v" "rd32 (wr64 mm a v) (a + 4) = ucast (drop_bit 32 v)"
    by (simp_all add: wr64_def rd32_wr32_base unat_u32_uminus)
  then have "rd64 (wr64 mm a v) a = ucast (ucast v :: u32) OR push_bit 32 (ucast (ucast (drop_bit 32 v) :: u32))"
    by (simp add: rd64_def)
  also have "\<dots> = v" by (rule bit_word_eqI) (auto simp: bit_simps)
  finally show ?thesis .
qed

definition in_s32 :: "int \<Rightarrow> bool" where
  "in_s32 x \<longleftrightarrow> - 2147483648 \<le> x \<and> x < 2147483648"

lemma sint_word_of_int: "in_s32 x \<Longrightarrow> sint (word_of_int x :: u32) = x"
  using s32_id [of x] by (simp add: in_s32_def s32_def)

text \<open>Reading a word of a message after a later field has been written.\<close>

lemma rd64_wr32_offset:
  fixes a k j :: u32
  assumes "4 \<le> unat (k - j)" "8 \<le> unat (j - k)"
  shows "rd64 (wr32 mm (a + j) v) (a + k) = rd64 mm (a + k)"
proof -
  have "apart (a + j) 4 (a + k) 8" using assms by (simp add: apart_def)
  note off = apart_offset [OF this]
  have "rd32 (wr32 mm (a + j) v) (a + k + of_nat i) = rd32 mm (a + k + of_nat i)" if "i \<le> 4" for i
  proof (rule rd32_cong, rule wr32_other)
    fix n assume "n < (4 :: nat)"
    then show "4 \<le> unat (a + k + of_nat i + of_nat n - (a + j))"
      using off [of "i + n"] that by (simp add: add.assoc)
  qed
  from this [of 0] this [of 4] show ?thesis by (simp add: rd64_def)
qed

lemma rd32_wr64_offset:
  fixes a k j :: u32
  assumes "8 \<le> unat (k - j)" "4 \<le> unat (j - k)"
  shows "rd32 (wr64 mm (a + j) v) (a + k) = rd32 mm (a + k)"
proof -
  have "apart (a + k) 4 (a + j) 8" using assms by (simp add: apart_def)
  note off = apart_offset [OF apart_sym [OF this]]
  have "8 \<le> unat (a + k + of_nat n - (a + j))" if "n < 4" for n using off [OF that] .
  then have "4 \<le> unat (a + k + of_nat n - (a + j + 4))" "4 \<le> unat (a + k + of_nat n - (a + j))" if "n < 4" for n
  proof -
    let ?d = "a + k + of_nat n - (a + j)"
    have d: "8 \<le> unat ?d" using off [OF that] .
    then show "4 \<le> unat ?d" by simp
    have "(4 :: u32) \<le> ?d" using d by (simp add: word_le_nat_alt)
    then have "4 \<le> unat (?d - 4)" using d by (simp add: unat_sub)
    moreover have "a + k + of_nat n - (a + j + 4) = ?d - 4" by (simp add: algebra_simps)
    ultimately show "4 \<le> unat (a + k + of_nat n - (a + j + 4))" using d by metis
  qed
  then show ?thesis unfolding wr64_def by (intro rd32_cong) (simp add: wr32_other)
qed

lemma rd64_wr64_offset: "rd64 (wr64 mm (a + 32) v) (a + 24) = rd64 mm (a + 24)"
  unfolding wr64_def
  using rd64_wr32_offset [of 24 36 "wr32 mm (a + 32) (ucast v)" a] rd64_wr32_offset [of 24 32 mm a]
  by (simp add: unat_u32_uminus add.assoc)

lemmas msg_offsets = rd32_wr32_offset rd32_wr32_base rd64_wr32_offset rd32_wr64_offset rd64_wr64_offset

text \<open>The layout of a message loses nothing: reading the fields of a message that was stored at any
  address gives the fields back, and the kernel's own accessors (the source, the type and the buffer
  that \<^verbatim>\<open>sys_send_rcv_handler\<close> looks at) agree with them.\<close>

theorem message_layout:
  assumes "in_s32 (source msg)" "in_s32 (type msg)" "in_s32 (m3i1 msg)" "in_s32 (m3i2 msg)" "in_s32 (m3i3 msg)"
    "in_s32 (m3i4 msg)"
  shows "get_msg (put_msg msg a mm) a = msg \<and> msg_source (put_msg msg a mm) a = source msg \<and>
    sint (msg_type (put_msg msg a mm) a) = type msg \<and> msg_buf (put_msg msg a mm) a = BUF msg"
proof -
  have "rd32 (put_msg msg a mm) a = word_of_int (source msg)"
    "rd32 (put_msg msg a mm) (a + 4) = word_of_int (type msg)"
    "rd32 (put_msg msg a mm) (a + 8) = word_of_int (m3i1 msg)"
    "rd32 (put_msg msg a mm) (a + 12) = word_of_int (m3i2 msg)"
    "rd32 (put_msg msg a mm) (a + 16) = word_of_int (m3i3 msg)"
    "rd32 (put_msg msg a mm) (a + 20) = word_of_int (m3i4 msg)"
    "rd64 (put_msg msg a mm) (a + 24) = m3l1 msg"
    "rd64 (put_msg msg a mm) (a + 32) = m3l2 msg"
    "rd32 (put_msg msg a mm) (a + 40) = m3p1 msg"
    "rd32 (put_msg msg a mm) (a + 44) = m3p2 msg"
    using rd32_wr64_offset [of 0 _ _ a]
    by (simp_all add: put_msg_def msg_offsets unat_u32_uminus)
  then show ?thesis using assms
    by (simp add: get_msg_def msg_source_def msg_type_def msg_buf_def sint_word_of_int)
qed

theorem message_layout_witness:
  "get_msg (put_msg (zero_msg\<lparr>type := FS_READ, CNT := 512, BUF := 0x8000\<rparr>) 0x2000 (\<lambda>_. 1)) 0x2000 =
   zero_msg\<lparr>type := FS_READ, CNT := 512, BUF := 0x8000\<rparr>"
  using message_layout [of "zero_msg\<lparr>type := FS_READ, CNT := 512, BUF := 0x8000\<rparr>" "0x2000" "\<lambda>_. 1"]
  by (simp add: zero_msg_def in_s32_def)

end
