(* ===== verification/Tty.thy ===== *)
theory Tty
  imports Keyboard Msg
begin

text \<open>
  The terminal task \<^verbatim>\<open>src/task/task_tty.c\<close> with the structure of \<^verbatim>\<open>src/include/sys/tty.h\<close>: the key queue,
  the echo and line editing of a pending read, writes to the console, and the task's dispatch of
  messages.

  Terminal \<open>i\<close> uses console \<open>i\<close>, as \<^verbatim>\<open>init_screen\<close> sets it up. The messages the task sends are collected
  in \<open>tsent\<close> with their destination; \<open>va2la\<close> stands for \<^verbatim>\<open>proc_va2la\<close> on the kernel's process table. A local
  message has zeros in the fields the code leaves uninitialised.
\<close>

unbundle bit_operations_syntax

section \<open>State\<close>

record tty =
  key_buf :: "u32 list"
  key_buf_head :: nat
  key_buf_tail :: nat
  key_buf_cnt :: int
  tty_caller :: int
  tty_procnr :: int
  tty_req_buf :: u32
  tty_left_cnt :: int
  tty_trans_cnt :: int

record tty_task =
  tty_table :: "tty list"
  tkbd :: kbd
  tscreen :: vga
  tmem :: mem
  tsent :: "(int \<times> message) list"
  tkey_pressed :: int

abbreviation (input) TTY_QUEUE_SIZE where "TTY_QUEUE_SIZE \<equiv> 256 :: nat"

definition upd_tty :: "nat \<Rightarrow> (tty \<Rightarrow> tty) \<Rightarrow> tty_task \<Rightarrow> tty_task" where
  "upd_tty i f t = t\<lparr>tty_table := (tty_table t)[i := f (tty_table t ! i)]\<rparr>"

definition tsend :: "int \<Rightarrow> message \<Rightarrow> tty_task \<Rightarrow> tty_task" where
  "tsend dest msg t = t\<lparr>tsent := tsent t @ [(dest, msg)]\<rparr>"

section \<open>The key queue\<close>

definition tty_key_queue_init :: "tty \<Rightarrow> tty" where
  "tty_key_queue_init y = y\<lparr>key_buf_cnt := 0, key_buf_head := 0, key_buf_tail := 0\<rparr>"

definition tty_key_enqueue :: "u32 \<Rightarrow> tty \<Rightarrow> tty" where
  "tty_key_enqueue key y =
     (if key_buf_cnt y < int TTY_QUEUE_SIZE then
        (let h = key_buf_head y + 1
         in y\<lparr>key_buf := (key_buf y)[key_buf_head y := key],
              key_buf_head := (if h = TTY_QUEUE_SIZE then 0 else h), key_buf_cnt := key_buf_cnt y + 1\<rparr>)
      else y)"

text \<open>The first lines of the loop of \<^verbatim>\<open>tty_dev_write\<close>: take the oldest key out of the queue.\<close>

definition tty_key_dequeue :: "tty \<Rightarrow> u32 \<times> tty" where
  "tty_key_dequeue y =
     (let n = key_buf_tail y + 1
      in (key_buf y ! key_buf_tail y,
          y\<lparr>key_buf_tail := (if n = TTY_QUEUE_SIZE then 0 else n), key_buf_cnt := key_buf_cnt y - 1\<rparr>))"

section \<open>Keys\<close>

definition tty_process_key :: "nat \<Rightarrow> u32 \<Rightarrow> tty_task \<Rightarrow> tty_task outcome" where
  "tty_process_key i key t =
     (if key AND FLAG_EXT = 0 then Inr (upd_tty i (tty_key_enqueue key) t)
      else let raw_code = key AND MASK_RAW;
               shift = key AND FLAG_SHIFT_L \<noteq> 0 \<or> key AND FLAG_SHIFT_R \<noteq> 0;
               alt = key AND FLAG_ALT_L \<noteq> 0 \<or> key AND FLAG_ALT_R \<noteq> 0
        in if raw_code = KEY_ENTER then Inr (upd_tty i (tty_key_enqueue 10) t)
           else if raw_code = KEY_BACKSPACE then Inr (upd_tty i (tty_key_enqueue 8) t)
           else if raw_code = KEY_UP then
             (if shift then obind (scroll_screen i SCROLL_UP (tscreen t)) (\<lambda>v. Inr (t\<lparr>tscreen := v\<rparr>)) else Inr t)
           else if raw_code = KEY_DOWN then
             (if shift then obind (scroll_screen i SCROLL_DN (tscreen t)) (\<lambda>v. Inr (t\<lparr>tscreen := v\<rparr>)) else Inr t)
           else if KEY_F1 \<le> raw_code \<and> raw_code \<le> KEY_F12 then
             (if alt then Inr (t\<lparr>tscreen := switch_console (uint raw_code - uint KEY_F1) (tscreen t)\<rparr>) else Inr t)
           else Inr t)"

definition tty_dev_read :: "u32 \<Rightarrow> int \<Rightarrow> nat \<Rightarrow> tty_task \<Rightarrow> tty_task outcome" where
  "tty_dev_read kb_buf make0 i t =
     (if is_current_console (tscreen t) i
      then obind (keyboard_read (tty_process_key i) kb_buf make0 (tkbd t) t) (\<lambda>(k, t'). Inr (t'\<lparr>tkbd := k\<rparr>))
      else Inr t)"

section \<open>Echo and line editing\<close>

definition echo :: "nat \<Rightarrow> u8 \<Rightarrow> tty_task \<Rightarrow> tty_task outcome" where
  "echo i ch t = obind (console_print_char i ch (tscreen t)) (\<lambda>v. Inr (t\<lparr>tscreen := v\<rparr>))"

definition tty_take_char :: "nat \<Rightarrow> u8 \<Rightarrow> tty_task \<Rightarrow> tty_task outcome" where
  "tty_take_char i ch t =
     (let y = tty_table t ! i
      in if 32 \<le> sint ch \<and> sint ch \<le> 126 then
           obind (echo i ch t) (\<lambda>t1.
             Inr (upd_tty i (\<lambda>y. y\<lparr>tty_trans_cnt := tty_trans_cnt y + 1, tty_left_cnt := tty_left_cnt y - 1\<rparr>)
                    (t1\<lparr>tmem := (tmem t1)(tty_req_buf y + word_of_int (tty_trans_cnt y) := ch)\<rparr>)))
         else if ch = 8 \<and> tty_trans_cnt y \<noteq> 0 then
           obind (echo i ch t) (\<lambda>t1.
             Inr (upd_tty i (\<lambda>y. y\<lparr>tty_trans_cnt := tty_trans_cnt y - 1, tty_left_cnt := tty_left_cnt y + 1\<rparr>) t1))
         else Inr t)"

definition tty_finish_read :: "nat \<Rightarrow> tty_task \<Rightarrow> tty_task outcome" where
  "tty_finish_read i t =
     obind (echo i 10 t) (\<lambda>t1.
       let y = tty_table t1 ! i
       in Inr (upd_tty i (\<lambda>y. y\<lparr>tty_left_cnt := 0\<rparr>)
            (tsend (tty_caller y) (zero_msg\<lparr>type := RESUME_PROC, PROC_NR := tty_procnr y, CNT := tty_trans_cnt y\<rparr>) t1)))"

definition tty_write_step :: "nat \<Rightarrow> tty_task \<Rightarrow> tty_task outcome" where
  "tty_write_step i t =
     (let (key, y) = tty_key_dequeue (tty_table t ! i); ch = ucast key :: u8; t1 = upd_tty i (\<lambda>_. y) t
      in if tty_left_cnt y \<noteq> 0 then
           obind (tty_take_char i ch t1) (\<lambda>t2.
             if ch = 10 \<or> tty_left_cnt (tty_table t2 ! i) = 0 then tty_finish_read i t2 else Inr t2)
         else Inr t1)"

lemma upd_tty_at [simp]: "i < length (tty_table t) \<Longrightarrow> tty_table (upd_tty i f t) ! i = f (tty_table t ! i)"
  by (simp add: upd_tty_def)

lemma upd_tty_fields [simp]:
  "length (tty_table (upd_tty i f t)) = length (tty_table t)" "tkbd (upd_tty i f t) = tkbd t"
  "tscreen (upd_tty i f t) = tscreen t" "tmem (upd_tty i f t) = tmem t" "tsent (upd_tty i f t) = tsent t"
  "tkey_pressed (upd_tty i f t) = tkey_pressed t"
  by (simp_all add: upd_tty_def)

lemma echo_Inr: "echo i ch t = Inr t' \<Longrightarrow> \<exists>v. t' = t\<lparr>tscreen := v\<rparr>"
  by (auto simp: echo_def obind_Inr_iff)

lemma tty_write_step_count:
  assumes "tty_write_step i t = Inr t'" "i < length (tty_table t)"
  shows "key_buf_cnt (tty_table t' ! i) = key_buf_cnt (tty_table t ! i) - 1" "length (tty_table t') = length (tty_table t)"
  using assms
  by (auto simp: tty_write_step_def tty_key_dequeue_def tty_take_char_def tty_finish_read_def tsend_def Let_def
      obind_Inr_iff dest!: echo_Inr split: if_splits)

text \<open>\<^verbatim>\<open>tty_dev_write\<close>; an index without a terminal does not occur in the task.\<close>

function tty_dev_write :: "nat \<Rightarrow> tty_task \<Rightarrow> tty_task outcome" where
  "tty_dev_write i t =
     (if i < length (tty_table t) \<and> 0 < key_buf_cnt (tty_table t ! i) then
        (case tty_write_step i t of Inl e \<Rightarrow> Inl e | Inr t' \<Rightarrow> tty_dev_write i t')
      else Inr t)"
  by pat_completeness auto
termination
  by (relation "measure (\<lambda>(i, t). nat (key_buf_cnt (tty_table t ! i)))") (auto dest: tty_write_step_count)

declare tty_dev_write.simps [simp del]

section \<open>Requests\<close>

definition tty_do_read :: "(int \<Rightarrow> u32 \<Rightarrow> u32 outcome) \<Rightarrow> nat \<Rightarrow> message \<Rightarrow> tty_task \<Rightarrow> tty_task outcome" where
  "tty_do_read va2la i msg t =
     obind (va2la (PROC_NR msg) (BUF msg)) (\<lambda>req_buf.
       let t1 = upd_tty i (\<lambda>y. y\<lparr>tty_caller := source msg, tty_procnr := PROC_NR msg, tty_req_buf := req_buf,
                  tty_left_cnt := CNT msg, tty_trans_cnt := 0\<rparr>) t
       in Inr (tsend (source msg) (msg\<lparr>type := SUSPEND_PROC, CNT := CNT msg\<rparr>) t1))"

definition tty_do_write :: "(int \<Rightarrow> u32 \<Rightarrow> u32 outcome) \<Rightarrow> nat \<Rightarrow> message \<Rightarrow> tty_task \<Rightarrow> tty_task outcome" where
  "tty_do_write va2la i msg t =
     obind (va2la (PROC_NR msg) (BUF msg)) (\<lambda>p.
     obind (print_chars i (read_bytes (tmem t) p (nat (CNT msg))) (tscreen t)) (\<lambda>v.
       Inr (tsend (source msg) (msg\<lparr>type := SYSCALL_RET\<rparr>) (t\<lparr>tscreen := v\<rparr>))))"

text \<open>The body of the task's loop after it has received a message.\<close>

definition tty_handle_msg :: "(int \<Rightarrow> u32 \<Rightarrow> u32 outcome) \<Rightarrow> message \<Rightarrow> tty_task \<Rightarrow> tty_task outcome" where
  "tty_handle_msg va2la msg t =
     c_assert (source msg \<noteq> TASK_TTY)
       (let i = nat (NR_DEV_MINOR msg)
        in if type msg = DEV_OPEN then Inr (tsend (source msg) (zero_msg\<lparr>type := SYSCALL_RET\<rparr>) t)
           else if type msg = DEV_READ then tty_do_read va2la i msg t
           else if type msg = DEV_WRITE then tty_do_write va2la i msg t
           else if type msg = T_HW_INT then Inr (t\<lparr>tkey_pressed := 0\<rparr>)
           else Inr t)"

text \<open>One pass over a terminal: read the keyboard and empty the queue, until no key is left.\<close>

partial_function (option) tty_poll :: "u32 \<Rightarrow> int \<Rightarrow> nat \<Rightarrow> tty_task \<Rightarrow> tty_task outcome option" where
  "tty_poll kb_buf make0 i t =
     (case obind (tty_dev_read kb_buf make0 i t) (tty_dev_write i) of
        Inl e \<Rightarrow> Some (Inl e)
      | Inr t' \<Rightarrow> if key_buf_cnt (tty_table t' ! i) \<noteq> 0 then tty_poll kb_buf make0 i t' else Some (Inr t'))"

definition tty_init :: "nat \<Rightarrow> int \<Rightarrow> tty_task \<Rightarrow> (tty_task \<times> int) outcome" where
  "tty_init i disp_pos t =
     (let t1 = upd_tty i tty_key_queue_init t
      in obind (init_screen i disp_pos (tscreen t1)) (\<lambda>(v, disp_pos'). Inr (t1\<lparr>tscreen := v\<rparr>, disp_pos')))"

text \<open>\<^verbatim>\<open>task_tty\<close> up to its loop: the keyboard, the three terminals, and console 2 in front.\<close>

definition task_tty_init :: "int \<Rightarrow> tty_task \<Rightarrow> tty_task outcome" where
  "task_tty_init disp_pos t =
     obind (tty_init 0 disp_pos (t\<lparr>tkbd := init_keyboard (tkbd t)\<rparr>)) (\<lambda>(t1, d1).
     obind (tty_init 1 d1 t1) (\<lambda>(t2, d2).
     obind (tty_init 2 d2 t2) (\<lambda>(t3, d3).
       Inr (t3\<lparr>tscreen := switch_console 1 (tscreen t3)\<rparr>))))"

fun tty_poll_all :: "u32 \<Rightarrow> int \<Rightarrow> nat list \<Rightarrow> tty_task \<Rightarrow> tty_task outcome" where
  "tty_poll_all kb_buf make0 [] t = Inr t"
| "tty_poll_all kb_buf make0 (i # is) t =
     obind (of_loop (tty_poll kb_buf make0 i t)) (\<lambda>r. obind r (tty_poll_all kb_buf make0 is))"

text \<open>One round of \<^verbatim>\<open>task_tty\<close>: poll the terminals, then serve the message that arrives.\<close>

definition task_tty_round :: "(int \<Rightarrow> u32 \<Rightarrow> u32 outcome) \<Rightarrow> u32 \<Rightarrow> int \<Rightarrow> message \<Rightarrow> tty_task \<Rightarrow> tty_task outcome" where
  "task_tty_round va2la kb_buf make0 msg t =
     obind (tty_poll_all kb_buf make0 [0, 1, 2] t) (tty_handle_msg va2la msg)"

section \<open>The key queue is a bounded queue\<close>

definition keys_ok :: "tty \<Rightarrow> bool" where
  "keys_ok y \<longleftrightarrow> length (key_buf y) = TTY_QUEUE_SIZE \<and> key_buf_tail y < TTY_QUEUE_SIZE \<and>
     0 \<le> key_buf_cnt y \<and> key_buf_cnt y \<le> int TTY_QUEUE_SIZE \<and>
     key_buf_head y = (key_buf_tail y + nat (key_buf_cnt y)) mod TTY_QUEUE_SIZE"

definition keys :: "tty \<Rightarrow> u32 list" where
  "keys y = map (\<lambda>i. key_buf y ! ((key_buf_tail y + i) mod TTY_QUEUE_SIZE)) [0..<nat (key_buf_cnt y)]"

lemma ring_distinct:
  fixes a i j :: nat
  assumes "i < j" "j < 256"
  shows "(a + i) mod 256 \<noteq> (a + j) mod 256"
proof
  assume "(a + i) mod 256 = (a + j) mod 256"
  then have "256 dvd (a + j) - (a + i)" using assms(1) by (metis mod_eq_dvd_iff_nat add_le_mono less_imp_le order_refl)
  then show False using assms by (auto dest: dvd_imp_le)
qed

lemma keys_enqueue:
  assumes "keys_ok y" "key_buf_cnt y < int TTY_QUEUE_SIZE"
  shows "keys (tty_key_enqueue k y) = keys y @ [k]" "keys_ok (tty_key_enqueue k y)"
proof -
  let ?n = "nat (key_buf_cnt y)"
  have n: "nat (key_buf_cnt y + 1) = Suc ?n" "?n < 256" and h: "key_buf_head y = (key_buf_tail y + ?n) mod 256"
    using assms by (auto simp: keys_ok_def)
  have "(key_buf_tail y + i) mod 256 \<noteq> key_buf_head y" if "i < ?n" for i
    using ring_distinct [OF that n(2)] h by simp
  then have "map (\<lambda>i. (key_buf y)[key_buf_head y := k] ! ((key_buf_tail y + i) mod 256)) [0..<?n] = keys y"
    unfolding keys_def by (intro map_cong refl nth_list_update_neq) (metis atLeast_upt lessThan_iff)
  moreover have "key_buf_head y < length (key_buf y)" using assms(1) h by (simp add: keys_ok_def)
  ultimately show "keys (tty_key_enqueue k y) = keys y @ [k]"
    using assms(2) n h by (simp add: keys_def tty_key_enqueue_def Let_def)
  have "(if key_buf_head y + 1 = 256 then 0 else key_buf_head y + 1) = (key_buf_tail y + Suc ?n) mod 256"
    unfolding h by (simp add: mod_Suc)
  then have "key_buf_head (tty_key_enqueue k y) = (key_buf_tail y + Suc ?n) mod 256"
    using assms(2) unfolding tty_key_enqueue_def Let_def by (simp only: if_True) simp
  moreover have "length (key_buf (tty_key_enqueue k y)) = length (key_buf y)"
    "key_buf_tail (tty_key_enqueue k y) = key_buf_tail y" "key_buf_cnt (tty_key_enqueue k y) = key_buf_cnt y + 1"
    using assms(2) by (simp_all add: tty_key_enqueue_def Let_def)
  ultimately show "keys_ok (tty_key_enqueue k y)" using assms n by (simp add: keys_ok_def)
qed

lemma keys_dequeue:
  assumes "keys_ok y" "keys y = k # ks"
  shows "\<exists>y'. tty_key_dequeue y = (k, y') \<and> keys_ok y' \<and> keys y' = ks"
proof -
  have n: "0 < key_buf_cnt y" using assms(2) by (cases "key_buf_cnt y \<le> 0") (auto simp: keys_def)
  define m where "m = nat (key_buf_cnt y - 1)"
  have m: "nat (key_buf_cnt y) = Suc m" using n m_def by simp
  let ?y = "snd (tty_key_dequeue y)"
  have tail: "key_buf_tail ?y = Suc (key_buf_tail y) mod 256"
    using assms(1) by (simp add: tty_key_dequeue_def Let_def keys_ok_def mod_Suc)
  have buf: "key_buf ?y = key_buf y" "key_buf_cnt ?y = key_buf_cnt y - 1" "key_buf_head ?y = key_buf_head y"
    by (simp_all add: tty_key_dequeue_def Let_def)
  have "keys y = key_buf y ! (key_buf_tail y mod 256) # map (\<lambda>i. key_buf y ! ((key_buf_tail y + Suc i) mod 256)) [0..<m]"
    unfolding keys_def m by (simp add: upt_conv_Cons map_Suc_upt [symmetric] comp_def del: upt_Suc)
  moreover have "keys ?y = map (\<lambda>i. key_buf y ! ((key_buf_tail y + Suc i) mod 256)) [0..<m]"
    by (simp add: keys_def tail buf m_def mod_add_left_eq)
  ultimately have "keys ?y = ks" "k = key_buf y ! key_buf_tail y"
    using assms by (simp_all add: keys_ok_def)
  moreover have "keys_ok ?y"
    using assms(1) n m m_def by (simp add: keys_ok_def tail buf mod_add_left_eq)
  ultimately show ?thesis by (simp add: tty_key_dequeue_def Let_def)
qed

interpretation keyq: bounded_queue TTY_QUEUE_SIZE keys_ok keys tty_key_enqueue tty_key_dequeue
proof
  fix y k
  show "keys_ok y \<Longrightarrow> length (keys y) \<le> TTY_QUEUE_SIZE" by (auto simp: keys_ok_def keys_def)
  show "keys_ok y \<Longrightarrow> length (keys y) < TTY_QUEUE_SIZE \<Longrightarrow>
      keys_ok (tty_key_enqueue k y) \<and> keys (tty_key_enqueue k y) = keys y @ [k]"
    using keys_enqueue [of y k] by (auto simp: keys_ok_def keys_def)
  show "keys_ok y \<Longrightarrow> length (keys y) = TTY_QUEUE_SIZE \<Longrightarrow>
      keys_ok (tty_key_enqueue k y) \<and> keys (tty_key_enqueue k y) = keys y"
    by (auto simp: keys_ok_def keys_def tty_key_enqueue_def)
qed (rule keys_dequeue)

text \<open>The key queue of a terminal is a first-in-first-out queue of at most 256 keys: however many keys
  are typed, it holds the old and then the new ones, the excess dropped, and they come out in the
  order they were typed.\<close>

theorem key_queue_fifo:
  assumes "keys_ok y"
  shows "keys_ok (fold tty_key_enqueue ks y) \<and> keys (fold tty_key_enqueue ks y) = take 256 (keys y @ ks) \<and>
    (\<forall>k ks'. keys y = k # ks' \<longrightarrow> (\<exists>y'. tty_key_dequeue y = (k, y') \<and> keys_ok y' \<and> keys y' = ks'))"
  using keyq.puts_take [OF assms, of ks] keyq.get_first [OF assms] by simp

definition sample_tty :: tty where
  "sample_tty = \<lparr>key_buf = replicate 256 0, key_buf_head = 0, key_buf_tail = 0, key_buf_cnt = 0, tty_caller = 3,
     tty_procnr = 7, tty_req_buf = 0x8000, tty_left_cnt = 4, tty_trans_cnt = 0\<rparr>"

lemma sample_tty_ok: "keys_ok sample_tty" "keys sample_tty = []"
  by (simp_all add: keys_ok_def keys_def sample_tty_def)

theorem key_queue_fifo_witness:
  "keys (fold tty_key_enqueue [104, 105] (tty_key_queue_init sample_tty)) = [104, 105]"
proof -
  have "keys_ok (tty_key_queue_init sample_tty)" "keys (tty_key_queue_init sample_tty) = []"
    by (simp_all add: keys_ok_def keys_def tty_key_queue_init_def sample_tty_def)
  then show ?thesis using key_queue_fifo [of "tty_key_queue_init sample_tty" "[104, 105]"] by simp
qed

section \<open>Line editing\<close>

text \<open>What a pending read of \<open>n\<close> characters makes of the characters typed: the line so far, and whether the
  read is finished.\<close>

definition edit_line :: "u8 list \<Rightarrow> u8 \<Rightarrow> u8 list" where
  "edit_line l c = (if 32 \<le> sint c \<and> sint c \<le> 126 then l @ [c] else if c = 8 \<and> l \<noteq> [] then butlast l else l)"

fun line_edit :: "nat \<Rightarrow> u8 list \<Rightarrow> u8 list \<Rightarrow> u8 list \<times> bool" where
  "line_edit n l [] = (l, False)"
| "line_edit n l (c # cs) =
     (let l' = edit_line l c in if c = 10 \<or> length l' = n then (l', True) else line_edit n l' cs)"

lemma read_bytes_snoc:
  "n < 4294967296 \<Longrightarrow> read_bytes (m(a + of_nat n := c)) a (Suc n) = read_bytes m a n @ [c]"
  by (auto simp: read_bytes_def of_nat_u32_inj)

lemma read_bytes_butlast: "read_bytes m a (n - 1) = butlast (read_bytes m a n)"
  by (cases n) (simp_all add: read_bytes_def)

text \<open>A terminal with the line \<open>l\<close> typed so far, of \<open>n\<close> characters asked for, at the address \<open>a\<close>.\<close>

definition reading :: "nat \<Rightarrow> nat \<Rightarrow> u8 list \<Rightarrow> u32 \<Rightarrow> tty_task \<Rightarrow> bool" where
  "reading i n l a t \<longleftrightarrow> i < length (tty_table t) \<and> keys_ok (tty_table t ! i) \<and>
     tty_left_cnt (tty_table t ! i) = int n - int (length l) \<and> tty_trans_cnt (tty_table t ! i) = int (length l) \<and>
     length l < n \<and> n < 2147483648 \<and> tty_req_buf (tty_table t ! i) = a \<and> read_bytes (tmem t) a (length l) = l"

text \<open>The key queue and the parties of the read are left alone by the character.\<close>

lemma take_char_effect:
  assumes run: "tty_take_char i c t = Inr t'" and rd: "reading i n l a t"
  shows "tty_left_cnt (tty_table t' ! i) = int n - int (length (edit_line l c)) \<and>
    tty_trans_cnt (tty_table t' ! i) = int (length (edit_line l c)) \<and> length (tty_table t') = length (tty_table t) \<and>
    tty_req_buf (tty_table t' ! i) = a \<and> read_bytes (tmem t') a (length (edit_line l c)) = edit_line l c \<and>
    keys (tty_table t' ! i) = keys (tty_table t ! i) \<and> keys_ok (tty_table t' ! i) \<and>
    tty_caller (tty_table t' ! i) = tty_caller (tty_table t ! i) \<and>
    tty_procnr (tty_table t' ! i) = tty_procnr (tty_table t ! i) \<and> tsent t' = tsent t \<and> length (edit_line l c) \<le> n"
proof -
  let ?y = "tty_table t ! i"
  have i: "i < length (tty_table t)" and ok: "keys_ok ?y" and tr: "tty_trans_cnt ?y = int (length l)"
    and lf: "tty_left_cnt ?y = int n - int (length l)" and ln: "length l < n" "n < 2147483648"
    and rb: "tty_req_buf ?y = a" and m: "read_bytes (tmem t) a (length l) = l"
    using rd by (simp_all add: reading_def)
  have keysq: "keys (y\<lparr>tty_trans_cnt := p, tty_left_cnt := q\<rparr>) = keys y"
    "keys_ok (y\<lparr>tty_trans_cnt := p, tty_left_cnt := q\<rparr>) = keys_ok y" for y p q
    by (simp_all add: keys_def keys_ok_def)
  consider (p) "32 \<le> sint c \<and> sint c \<le> 126" | (b) "\<not> (32 \<le> sint c \<and> sint c \<le> 126)" "c = 8" "l \<noteq> []"
    | (o) "\<not> (32 \<le> sint c \<and> sint c \<le> 126)" "\<not> (c = 8 \<and> l \<noteq> [])" by blast
  then show ?thesis
  proof cases
    case p
    with run obtain t1 where t1: "echo i c t = Inr t1" and
      t': "t' = upd_tty i (\<lambda>y. y\<lparr>tty_trans_cnt := tty_trans_cnt y + 1, tty_left_cnt := tty_left_cnt y - 1\<rparr>)
                    (t1\<lparr>tmem := (tmem t1)(a + of_nat (length l) := c)\<rparr>)"
      by (auto simp: tty_take_char_def Let_def obind_Inr_iff rb tr)
    obtain v where v: "t1 = t\<lparr>tscreen := v\<rparr>" using echo_Inr [OF t1] by blast
    have "read_bytes (tmem t') a (Suc (length l)) = l @ [c]"
      using read_bytes_snoc [of "length l" "tmem t" a c] ln m by (simp add: t' v)
    with p show ?thesis using i ok tr lf ln rb by (simp add: t' v edit_line_def keysq)
  next
    case b
    with run obtain t1 where t1: "echo i c t = Inr t1" and
      t': "t' = upd_tty i (\<lambda>y. y\<lparr>tty_trans_cnt := tty_trans_cnt y - 1, tty_left_cnt := tty_left_cnt y + 1\<rparr>) t1"
      by (auto simp: tty_take_char_def Let_def obind_Inr_iff tr)
    obtain v where v: "t1 = t\<lparr>tscreen := v\<rparr>" using echo_Inr [OF t1] by blast
    have "read_bytes (tmem t') a (length l - 1) = butlast l"
      using read_bytes_butlast [of "tmem t" a "length l"] m by (simp add: t' v)
    with b show ?thesis using i ok tr lf ln rb by (simp add: t' v edit_line_def keysq of_nat_diff Suc_le_eq)
  next
    case o
    with run have "t' = t" by (auto simp: tty_take_char_def Let_def tr split: if_splits)
    with o show ?thesis using i ok tr lf ln rb m by (auto simp: edit_line_def)
  qed
qed

text \<open>Without a pending read the queue is emptied and nothing else happens.\<close>

lemma tty_dev_write_idle:
  assumes "i < length (tty_table t)" "keys_ok (tty_table t ! i)" "tty_left_cnt (tty_table t ! i) = 0"
  shows "\<exists>y. tty_dev_write i t = Inr (upd_tty i (\<lambda>_. y) t) \<and> keys y = [] \<and> tty_left_cnt y = 0"
  using assms
proof (induction "length (keys (tty_table t ! i))" arbitrary: t)
  case 0
  then have "key_buf_cnt (tty_table t ! i) \<le> 0" "keys (tty_table t ! i) = []" by (simp_all add: keys_def)
  moreover have "upd_tty i (\<lambda>_. tty_table t ! i) t = t" by (simp add: upd_tty_def)
  ultimately show ?case using 0 by (intro exI [of _ "tty_table t ! i"]) (simp add: tty_dev_write.simps)
next
  case (Suc n)
  let ?y = "tty_table t ! i"
  obtain k ks where ks: "keys ?y = k # ks" using Suc.hyps(2) by (cases "keys ?y") auto
  with keys_dequeue Suc.prems(2) obtain y' where y': "tty_key_dequeue ?y = (k, y')" "keys_ok y'" "keys y' = ks" by blast
  have l: "tty_left_cnt y' = 0" using y'(1) Suc.prems(3) by (auto simp: tty_key_dequeue_def Let_def)
  have step: "tty_write_step i t = Inr (upd_tty i (\<lambda>_. y') t)" by (simp add: tty_write_step_def y' l)
  have pos: "0 < key_buf_cnt ?y" using ks by (cases "key_buf_cnt ?y \<le> 0") (auto simp: keys_def)
  have "n = length (keys (tty_table (upd_tty i (\<lambda>_. y') t) ! i))" using Suc.hyps(2) ks y'(3) Suc.prems(1) by simp
  from Suc.hyps(1) [OF this] Suc.prems(1) y'(2) l obtain y where
    "tty_dev_write i (upd_tty i (\<lambda>_. y') t) = Inr (upd_tty i (\<lambda>_. y) (upd_tty i (\<lambda>_. y') t))" "keys y = []" "tty_left_cnt y = 0"
    by auto
  moreover have "upd_tty i (\<lambda>_. y) (upd_tty i (\<lambda>_. y') t) = upd_tty i (\<lambda>_. y) t" by (simp add: upd_tty_def)
  ultimately show ?case using step pos Suc.prems(1) by (auto simp: tty_dev_write.simps [of i t])
qed

definition line_done :: "nat \<Rightarrow> nat \<Rightarrow> u32 \<Rightarrow> u8 list \<times> bool \<Rightarrow> tty_task \<Rightarrow> tty_task \<Rightarrow> bool" where
  "line_done i n a = (\<lambda>(line, finished) t t'.
     keys (tty_table t' ! i) = [] \<and> read_bytes (tmem t') a (length line) = line \<and>
     (if finished
      then tty_left_cnt (tty_table t' ! i) = 0 \<and>
        tsent t' = tsent t @ [(tty_caller (tty_table t ! i), zero_msg\<lparr>type := RESUME_PROC,
          PROC_NR := tty_procnr (tty_table t ! i), CNT := int (length line)\<rparr>)]
      else tty_left_cnt (tty_table t' ! i) = int n - int (length line) \<and>
        tty_trans_cnt (tty_table t' ! i) = int (length line) \<and> tsent t' = tsent t))"

lemma finish_then_idle:
  assumes "tty_finish_read i t = Inr t1" "i < length (tty_table t)" "keys_ok (tty_table t ! i)"
    "tty_dev_write i t1 = Inr t'"
  shows "keys (tty_table t' ! i) = [] \<and> tty_left_cnt (tty_table t' ! i) = 0 \<and> tmem t' = tmem t \<and>
    tsent t' = tsent t @ [(tty_caller (tty_table t ! i), zero_msg\<lparr>type := RESUME_PROC,
      PROC_NR := tty_procnr (tty_table t ! i), CNT := tty_trans_cnt (tty_table t ! i)\<rparr>)]"
proof -
  from assms(1) obtain v where t1: "t1 = upd_tty i (\<lambda>y. y\<lparr>tty_left_cnt := 0\<rparr>)
      (tsend (tty_caller (tty_table t ! i)) (zero_msg\<lparr>type := RESUME_PROC, PROC_NR := tty_procnr (tty_table t ! i),
         CNT := tty_trans_cnt (tty_table t ! i)\<rparr>) (t\<lparr>tscreen := v\<rparr>))"
    by (auto simp: tty_finish_read_def obind_Inr_iff Let_def dest!: echo_Inr)
  have "i < length (tty_table t1)" "keys_ok (tty_table t1 ! i)" "tty_left_cnt (tty_table t1 ! i) = 0"
    using assms(2, 3) by (simp_all add: t1 tsend_def keys_ok_def)
  from tty_dev_write_idle [OF this] assms(2, 4) show ?thesis by (auto simp: t1 tsend_def)
qed

lemma tty_dev_write_line:
  assumes "reading i n l a t" "tty_dev_write i t = Inr t'"
  shows "line_done i n a (line_edit n l (map ucast (keys (tty_table t ! i)))) t t'"
  using assms
proof (induction "keys (tty_table t ! i)" arbitrary: t l)
  case Nil
  then have "key_buf_cnt (tty_table t ! i) \<le> 0" by (simp add: keys_def)
  with Nil.prems(2) have "t' = t" by (simp add: tty_dev_write.simps [of i t])
  with Nil show ?case by (simp add: line_done_def reading_def Nil.hyps [symmetric])
next
  case (Cons k ks)
  let ?y = "tty_table t ! i" and ?c = "ucast k :: u8"
  have i: "i < length (tty_table t)" and ok: "keys_ok ?y" using Cons.prems(1) by (simp_all add: reading_def)
  obtain y' where y': "tty_key_dequeue ?y = (k, y')" "keys_ok y'" "keys y' = ks"
    using keys_dequeue [OF ok Cons.hyps(2) [symmetric]] by blast
  have same: "tty_left_cnt y' = tty_left_cnt ?y" "tty_trans_cnt y' = tty_trans_cnt ?y" "tty_req_buf y' = tty_req_buf ?y"
    "tty_caller y' = tty_caller ?y" "tty_procnr y' = tty_procnr ?y"
    using y'(1) by (auto simp: tty_key_dequeue_def Let_def)
  let ?t1 = "upd_tty i (\<lambda>_. y') t"
  have rd1: "reading i n l a ?t1" using Cons.prems(1) y'(2) same by (simp add: reading_def)
  have nz: "tty_left_cnt y' \<noteq> 0" using Cons.prems(1) same by (simp add: reading_def)
  have pos: "0 < key_buf_cnt ?y" using Cons.hyps(2) by (cases "key_buf_cnt ?y \<le> 0") (auto simp: keys_def)
  obtain t3 where st: "tty_write_step i t = Inr t3" and rest: "tty_dev_write i t3 = Inr t'"
    using Cons.prems(2) pos i by (auto simp: tty_dev_write.simps [of i t] split: sum.splits)
  then obtain t2 where tc: "tty_take_char i ?c ?t1 = Inr t2"
    and t3: "(if ?c = 10 \<or> tty_left_cnt (tty_table t2 ! i) = 0 then tty_finish_read i t2 else Inr t2) = Inr t3"
    using nz by (auto simp: tty_write_step_def y' obind_Inr_iff Let_def)
  note ef = take_char_effect [OF tc rd1]
  let ?l = "edit_line l ?c"
  show ?case
  proof (cases "?c = 10 \<or> length ?l = n")
    case True
    then have "tty_finish_read i t2 = Inr t3" using t3 ef by (auto split: if_splits)
    from finish_then_idle [OF this _ _ rest] ef i True same show ?thesis
      by (simp add: line_done_def Cons.hyps(2) [symmetric])
  next
    case False
    with t3 ef have t23: "t3 = t2" by (auto split: if_splits)
    have "reading i n ?l a t2"
      using ef i False Cons.prems(1) by (auto simp: reading_def)
    moreover have "ks = keys (tty_table t2 ! i)" using ef y'(3) i by simp
    ultimately have "line_done i n a (line_edit n ?l (map ucast (keys (tty_table t2 ! i)))) t2 t'"
      using Cons.hyps(1) rest t23 by blast
    then show ?thesis using False ef y'(3) i same
      by (simp add: line_done_def Cons.hyps(2) [symmetric] split: prod.splits)
  qed
qed


definition sample_tty_task :: tty_task where
  "sample_tty_task = \<lparr>tty_table = [tty_key_enqueue 10 (tty_key_enqueue 104 sample_tty)], tkbd = kbd_zero,
     tscreen = \<lparr>console_table = [init_console 0], current_console = 0, vram = (\<lambda>_. 0), outs = []\<rparr>,
     tmem = (\<lambda>_. 0), tsent = [], tkey_pressed = 0\<rparr>"

lemma echo_ok:
  assumes "con_ok (console_table (tscreen t) ! i)" "i < length (console_table (tscreen t))" "ch \<noteq> 8"
  shows "\<exists>v. echo i ch t = Inr (t\<lparr>tscreen := v\<rparr>) \<and> length (console_table v) = length (console_table (tscreen t)) \<and>
    console_table v ! i = (console_table (tscreen t) ! i)\<lparr>w_cursor := next_cursor ch (console_table (tscreen t) ! i),
       w_screen_start := next_start ch (console_table (tscreen t) ! i)\<rparr>"
  by (rule print_char_effect [OF assms(1) refl assms(2, 3)]) (use assms(2) in \<open>auto simp: echo_def\<close>)

lemma sample_tty_runs: "\<exists>t'. tty_dev_write 0 sample_tty_task = Inr t'"
proof -
  let ?t = "sample_tty_task" and ?c = "init_console 0"
  obtain y1 where y1: "tty_key_dequeue (tty_table ?t ! 0) = (104, y1)" "tty_left_cnt y1 = 4" "key_buf_cnt y1 = 1"
    "tty_trans_cnt y1 = 0" "key_buf y1 ! key_buf_tail y1 = 10" "key_buf_tail y1 = 1"
    by (simp add: sample_tty_task_def sample_tty_def tty_key_enqueue_def tty_key_dequeue_def)
  let ?t1 = "upd_tty 0 (\<lambda>_. y1) ?t"
  have ok: "con_ok ?c" by (simp add: con_ok_def init_console_def W_TTY_CONSOLE_START_def)
  have scr: "console_table (tscreen ?t1) = [?c]" "length (tty_table ?t1) = 1" "tty_table ?t1 ! 0 = y1"
    by (simp_all add: sample_tty_task_def upd_tty_def)
  obtain v where v: "echo 0 104 ?t1 = Inr (?t1\<lparr>tscreen := v\<rparr>)" "length (console_table v) = 1"
    "console_table v ! 0 = ?c\<lparr>w_cursor := next_cursor 104 ?c, w_screen_start := next_start 104 ?c\<rparr>"
    using echo_ok [of ?t1 0 104] ok scr by auto
  obtain t2 where t2: "tty_take_char 0 104 ?t1 = Inr t2" "tscreen t2 = v" "length (tty_table t2) = 1"
    "tty_table t2 ! 0 = y1\<lparr>tty_trans_cnt := 1, tty_left_cnt := 3\<rparr>"
    using v(1) scr y1 by (simp add: tty_take_char_def Let_def)
  have s1: "tty_write_step 0 ?t = Inr t2" using t2 y1 by (simp add: tty_write_step_def)
  have ok2: "con_ok (console_table v ! 0)"
    by (simp add: v(3) con_ok_def init_console_def next_cursor_def next_start_def W_TTY_CONSOLE_START_def)
  obtain y2 where y2: "tty_key_dequeue (tty_table t2 ! 0) = (10, y2)" "tty_left_cnt y2 = 3" "key_buf_cnt y2 = 0"
    using y1 t2 by (simp add: tty_key_dequeue_def Let_def)
  let ?t3 = "upd_tty 0 (\<lambda>_. y2) t2"
  obtain v' where "echo 0 10 ?t3 = Inr (?t3\<lparr>tscreen := v'\<rparr>)"
    using echo_ok [of ?t3 0 10] ok2 t2(2) v(2) by auto
  then obtain t4 where s2: "tty_write_step 0 t2 = Inr t4" "key_buf_cnt (tty_table t4 ! 0) = 0"
    using y2 t2(3) by (auto simp: tty_write_step_def tty_take_char_def tty_finish_read_def tsend_def Let_def)
  have "tty_dev_write 0 t4 = Inr t4" using s2(2) by (simp add: tty_dev_write.simps)
  then have "tty_dev_write 0 t2 = Inr t4" using s2(1) y1 t2 by (simp add: tty_dev_write.simps [of 0 t2])
  moreover have "0 < key_buf_cnt (tty_table ?t ! 0)" "0 < length (tty_table ?t)"
    by (simp_all add: sample_tty_task_def sample_tty_def tty_key_enqueue_def)
  ultimately show ?thesis using s1 by (simp add: tty_dev_write.simps [of 0 ?t])
qed


end
