(* ===== verification/Hd.thy ===== *)
theory Hd
  imports Msg
begin

text \<open>
  The hard disk driver \<^verbatim>\<open>src/device/hd.c\<close> with the structures of \<^verbatim>\<open>src/include/sys/hd.h\<close> and its task
  \<^verbatim>\<open>src/task/task_hd.c\<close>: partition tables, the transfer loop, and the requests the task serves.

  The drive behind the ports is part of the machine: \<open>ata\<close> is its medium and the command in progress.
  As the ATA standard has it, a read or write command moves as many sectors as its count register says
  (256 for zero), one interrupt per sector, at 28-bit addresses. \<open>busy\<close> is a drive that does not become
  ready before the timeout. Waiting for an interrupt that never comes is \<open>Diverges\<close>.

  \<^verbatim>\<open>hdbuf\<close> and \<^verbatim>\<open>hd_info\<close> are static, so their addresses are fields. There is one drive: an index beyond it,
  or beyond a partition table, is \<open>OutOfBounds\<close>. The debug output of the driver is left out.
\<close>

unbundle bit_operations_syntax

section \<open>Structures\<close>

abbreviation (input) ATA_IDENTIFY where "ATA_IDENTIFY \<equiv> 0xEC :: u8"
abbreviation (input) ATA_READ where "ATA_READ \<equiv> 0x20 :: u8"
abbreviation (input) ATA_WRITE where "ATA_WRITE \<equiv> 0x30 :: u8"
abbreviation (input) LBA_MODE where "LBA_MODE \<equiv> 1 :: u8"
abbreviation (input) CHS_MODE where "CHS_MODE \<equiv> 0 :: u8"
abbreviation (input) PART_TABLE_OFFSET where "PART_TABLE_OFFSET \<equiv> 0x1BE :: u32"
abbreviation (input) SECTOR_SIZE where "SECTOR_SIZE \<equiv> 512 :: int"
abbreviation (input) IOCTL_GET_PART where "IOCTL_GET_PART \<equiv> 1 :: int"
abbreviation (input) NR_MAX_PRIM_PART_PER_DRIVE where "NR_MAX_PRIM_PART_PER_DRIVE \<equiv> 4 :: nat"
abbreviation (input) NR_MAX_LOGI_PART_PER_EXT where "NR_MAX_LOGI_PART_PER_EXT \<equiv> 16 :: nat"
abbreviation (input) NR_MAX_MINOR_PRIM_PER_DRIVE where "NR_MAX_MINOR_PRIM_PER_DRIVE \<equiv> 5 :: int"
abbreviation (input) NR_MAX_MINOR_LOGI_PER_DRIVE where "NR_MAX_MINOR_LOGI_PER_DRIVE \<equiv> 64 :: int"
abbreviation (input) NR_MAX_MINOR_PRIM where "NR_MAX_MINOR_PRIM \<equiv> 9 :: int"
abbreviation (input) MINOR_NR_hd1a where "MINOR_NR_hd1a \<equiv> 16 :: int"
abbreviation (input) MINOR_NR_hd2a where "MINOR_NR_hd2a \<equiv> 32 :: int"
abbreviation (input) NO_PART where "NO_PART \<equiv> 0 :: u8"
abbreviation (input) EXT_PART where "EXT_PART \<equiv> 5 :: u8"

record part_entry =
  boot_ind :: u8
  start_head :: u8
  start_sector :: u8
  start_cyl :: u8
  sys_id :: u8
  end_head :: u8
  end_sector :: u8
  end_cyl :: u8
  pe_start_sect :: u32
  nr_sects_pe :: u32

record cmd_block_reg =
  features :: u8
  count :: u8
  lba_low :: u8
  lba_mid :: u8
  lba_high :: u8
  device :: u8
  command :: u8

record part_info =
  start_sect :: u32
  sect_cnt :: u32

record ata =
  media :: "u32 \<Rightarrow> mem"
  ident :: mem
  busy :: bool
  xfer_cmd :: u8
  xfer_lba :: u32
  xfer_left :: nat

record hdsys =
  kern :: kernel
  open_cnt :: int
  primary :: "part_info list"
  logical :: "part_info list"
  hd_status :: u8
  drive :: ata
  hdbuf :: u32
  hd_info_addr :: u32

section \<open>The drive\<close>

definition MAKE_DEVICE_REG :: "u8 \<Rightarrow> u8 \<Rightarrow> u8 \<Rightarrow> u8" where
  "MAKE_DEVICE_REG lba drv lba_highest = push_bit 6 lba OR push_bit 4 drv OR (lba_highest AND 0xF) OR 0xA0"

definition cmd_lba :: "cmd_block_reg \<Rightarrow> u32" where
  "cmd_lba c = ucast (lba_low c) OR push_bit 8 (ucast (lba_mid c)) OR push_bit 16 (ucast (lba_high c))
     OR push_bit 24 (ucast (device c AND 0xF))"

definition ata_command :: "cmd_block_reg \<Rightarrow> ata \<Rightarrow> ata" where
  "ata_command c d = d\<lparr>xfer_cmd := command c, xfer_lba := cmd_lba c,
     xfer_left := (if command c = ATA_IDENTIFY then 1 else if count c = 0 then 256 else unat (count c))\<rparr>"

definition ata_next :: "ata \<Rightarrow> ata" where
  "ata_next d = d\<lparr>xfer_lba := take_bit 28 (xfer_lba d + 1), xfer_left := xfer_left d - 1\<rparr>"

definition ata_data :: "ata \<Rightarrow> mem" where
  "ata_data d = (if xfer_cmd d = ATA_IDENTIFY then ident d else media d (xfer_lba d))"

text \<open>A sector moves between a block of memory and the drive.\<close>

definition load_sector :: "mem \<Rightarrow> u32 \<Rightarrow> mem \<Rightarrow> mem" where
  "load_sector data a mm = (\<lambda>x. if unat (x - a) < 512 then data (x - a) else mm x)"

definition sector_at :: "mem \<Rightarrow> u32 \<Rightarrow> mem" where
  "sector_at mm a = (\<lambda>o'. if unat o' < 512 then mm (a + o') else 0)"

definition hd_cmd_out :: "cmd_block_reg \<Rightarrow> hdsys \<Rightarrow> hdsys outcome" where
  "hd_cmd_out c s = (if busy (drive s) then Inl PanicFail else Inr (s\<lparr>drive := ata_command c (drive s)\<rparr>))"

definition wait_for_hd_int :: "hdsys \<Rightarrow> hdsys outcome" where
  "wait_for_hd_int s = (if xfer_left (drive s) = 0 then Inl Diverges else Inr s)"

definition upd_mem :: "(mem \<Rightarrow> mem) \<Rightarrow> hdsys \<Rightarrow> hdsys" where
  "upd_mem f s = s\<lparr>kern := (kern s)\<lparr>kmem := f (kmem (kern s))\<rparr>\<rparr>"

text \<open>\<^verbatim>\<open>port_read(REG_DATA, hdbuf, SECTOR_SIZE)\<close>: the next sector into \<^verbatim>\<open>hdbuf\<close>.\<close>

definition read_hdbuf :: "hdsys \<Rightarrow> hdsys" where
  "read_hdbuf s = upd_mem (load_sector (ata_data (drive s)) (hdbuf s)) (s\<lparr>drive := ata_next (drive s)\<rparr>)"

text \<open>\<^verbatim>\<open>port_write(REG_DATA, la, SECTOR_SIZE)\<close>: a sector from memory to the drive.\<close>

definition write_data :: "u32 \<Rightarrow> hdsys \<Rightarrow> hdsys" where
  "write_data la s =
     (let d = drive s
      in s\<lparr>drive := ata_next (d\<lparr>media := (media d)(xfer_lba d := sector_at (kmem (kern s)) la)\<rparr>)\<rparr>)"

section \<open>Reading and writing\<close>

definition DRIVE_OF_DEV :: "int \<Rightarrow> int" where
  "DRIVE_OF_DEV m = (if m \<le> NR_MAX_MINOR_PRIM then m sdiv NR_MAX_MINOR_PRIM_PER_DRIVE
     else (m - MINOR_NR_hd1a) sdiv NR_MAX_MINOR_LOGI_PER_DRIVE)"

text \<open>The table entry of a minor device number, if there is one, with its offset in \<^verbatim>\<open>struct hd_info\<close>.\<close>

definition nth_part :: "part_info list \<Rightarrow> int \<Rightarrow> part_info outcome" where
  "nth_part ps i = (if 0 \<le> i \<and> i < int (length ps) then Inr (ps ! nat i) else Inl OutOfBounds)"

definition part_of_minor :: "int \<Rightarrow> hdsys \<Rightarrow> part_info outcome" where
  "part_of_minor m s =
     (if DRIVE_OF_DEV m \<noteq> 0 then Inl OutOfBounds
      else if m < NR_MAX_MINOR_PRIM then nth_part (primary s) m
      else nth_part (logical s) ((m - MINOR_NR_hd1a) smod NR_MAX_MINOR_LOGI_PER_DRIVE))"

definition sector_count :: "int \<Rightarrow> u8" where
  "sector_count cnt = word_of_int (s32 (cnt + SECTOR_SIZE - 1) sdiv SECTOR_SIZE)"

definition rw_cmd :: "u8 \<Rightarrow> u8 \<Rightarrow> u32 \<Rightarrow> cmd_block_reg" where
  "rw_cmd cmd cnt sect_nr = \<lparr>features = 0, count = cnt, lba_low = ucast (sect_nr AND 0xFF),
     lba_mid = ucast (drop_bit 8 sect_nr AND 0xFF), lba_high = ucast (drop_bit 16 sect_nr AND 0xFF),
     device = MAKE_DEVICE_REG LBA_MODE 0 (ucast (drop_bit 24 sect_nr AND 0xF)), command = cmd\<rparr>"

text \<open>The transfer loop. Each turn moves one sector of the command in progress or waits forever; a write
  whose turn has less than a sector leaves the drive waiting for the rest.\<close>

function hd_transfer :: "int \<Rightarrow> int \<Rightarrow> u32 \<Rightarrow> hdsys \<Rightarrow> hdsys outcome" where
  "hd_transfer ty bytes_left fsbuf_la s =
     (if bytes_left = 0 then Inr s
      else let bytes = min SECTOR_SIZE bytes_left
        in if ty = DEV_READ then
             (if xfer_left (drive s) = 0 then Inl Diverges
              else let s1 = read_hdbuf s
                in case proc_va2la (kern s1) TASK_HD (hdbuf s1) of Inl e \<Rightarrow> Inl e
                   | Inr src \<Rightarrow> hd_transfer ty (s32 (bytes_left - SECTOR_SIZE)) (fsbuf_la + 512)
                                  (upd_mem (\<lambda>mm. phys_copy mm fsbuf_la src (word_of_int bytes)) s1))
           else if xfer_left (drive s) = 0 then Inl PanicFail
           else if bytes < 0 then Inl OutOfBounds
           else if bytes < SECTOR_SIZE then Inl Diverges
           else hd_transfer ty (s32 (bytes_left - SECTOR_SIZE)) (fsbuf_la + 512) (write_data fsbuf_la s))"
  by pat_completeness auto
termination
  by (relation "measure (\<lambda>(ty, b, a, s). xfer_left (drive s))")
    (auto simp: read_hdbuf_def write_data_def upd_mem_def ata_next_def Let_def)

declare hd_transfer.simps [simp del]

definition hd_read_write :: "message \<Rightarrow> hdsys \<Rightarrow> hdsys outcome" where
  "hd_read_write p s =
     (let pos = POSITION p
      in c_assert (drop_bit 9 pos < 0xFFFFFFFF80000000)
        (c_assert (pos AND 0x1FF = 0)
          (obind (part_of_minor (NR_DEV_MINOR p) s) (\<lambda>pi.
           let sect_nr = ucast (drop_bit 9 pos) + start_sect pi;
               cmd = rw_cmd (if type p = DEV_READ then ATA_READ else ATA_WRITE)
                       (sector_count (CNT p)) sect_nr
           in obind (hd_cmd_out cmd s) (\<lambda>s1.
              obind (proc_va2la (kern s1) (PROC_NR p) (BUF p)) (\<lambda>fsbuf_la.
              hd_transfer (type p) (CNT p) fsbuf_la s1))))))"

definition hd_ioctl :: "message \<Rightarrow> hdsys \<Rightarrow> hdsys outcome" where
  "hd_ioctl p s =
     (if REQUEST p = IOCTL_GET_PART then
        obind (proc_va2la (kern s) (PROC_NR p) (BUF p)) (\<lambda>dst.
        obind (part_of_minor (NR_DEV_MINOR p) s) (\<lambda>pi.
        obind (proc_va2la (kern s) TASK_HD (hd_info_addr s)) (\<lambda>_.
          Inr (upd_mem (\<lambda>mm. wr32 (wr32 mm dst (start_sect pi)) (dst + 4) (sect_cnt pi)) s))))
      else Inl AssertFail)"

section \<open>Partition tables\<close>

definition read_entry :: "mem \<Rightarrow> u32 \<Rightarrow> part_entry" where
  "read_entry mm a = \<lparr>boot_ind = mm a, start_head = mm (a + 1), start_sector = mm (a + 2), start_cyl = mm (a + 3),
     sys_id = mm (a + 4), end_head = mm (a + 5), end_sector = mm (a + 6), end_cyl = mm (a + 7),
     pe_start_sect = rd32 mm (a + 8), nr_sects_pe = rd32 mm (a + 12)\<rparr>"

definition entries_at :: "mem \<Rightarrow> u32 \<Rightarrow> part_entry list" where
  "entries_at mm a = map (\<lambda>i. read_entry mm (a + PART_TABLE_OFFSET + 16 * of_nat i)) [0..<NR_MAX_PRIM_PART_PER_DRIVE]"

definition get_part_table :: "u32 \<Rightarrow> hdsys \<Rightarrow> (part_entry list \<times> hdsys) outcome" where
  "get_part_table sect_nr s =
     obind (hd_cmd_out (rw_cmd ATA_READ 1 sect_nr) s) (\<lambda>s1.
     obind (wait_for_hd_int s1) (\<lambda>s2.
       let s3 = read_hdbuf s2 in Inr (entries_at (kmem (kern s3)) (hdbuf s3), s3)))"

fun read_logical_loop :: "nat \<Rightarrow> nat \<Rightarrow> u32 \<Rightarrow> hdsys \<Rightarrow> hdsys outcome" where
  "read_logical_loop 0 dev_nr ext_start s = Inr s"
| "read_logical_loop (Suc n) dev_nr ext_start s =
     obind (get_part_table ext_start s) (\<lambda>(part_tbl, s1).
       if dev_nr < length (logical s1) then
         (let s2 = s1\<lparr>logical := (logical s1)[dev_nr :=
                     \<lparr>start_sect = ext_start + pe_start_sect (part_tbl ! 0), sect_cnt = nr_sects_pe (part_tbl ! 0)\<rparr>]\<rparr>
          in if sys_id (part_tbl ! 1) = NO_PART then Inr s2
             else read_logical_loop n (dev_nr + 1) (ext_start + pe_start_sect (part_tbl ! 1)) s2)
       else Inl OutOfBounds)"

definition read_logical_partitions :: "int \<Rightarrow> hdsys \<Rightarrow> hdsys outcome" where
  "read_logical_partitions nr_dev_minor s =
     (let nr_ext_part = nr_dev_minor smod NR_MAX_MINOR_PRIM_PER_DRIVE
      in obind (nth_part (primary s) nr_ext_part) (\<lambda>pi.
         if nr_ext_part < 1 then Inl OutOfBounds
         else read_logical_loop NR_MAX_LOGI_PART_PER_EXT (nat (nr_ext_part - 1) * NR_MAX_LOGI_PART_PER_EXT) (start_sect pi) s))"

fun read_primary_loop :: "int \<Rightarrow> nat \<Rightarrow> part_entry list \<Rightarrow> nat \<Rightarrow> hdsys \<Rightarrow> (nat \<times> hdsys) outcome" where
  "read_primary_loop nr_dev_minor i [] nr_prim_parts s = Inr (nr_prim_parts, s)"
| "read_primary_loop nr_dev_minor i (e # es) nr_prim_parts s =
     (if sys_id e = NO_PART then read_primary_loop nr_dev_minor (i + 1) es nr_prim_parts s
      else if i + 1 < length (primary s) then
        obind (let s1 = s\<lparr>primary := (primary s)[i + 1 := \<lparr>start_sect = pe_start_sect e, sect_cnt = nr_sects_pe e\<rparr>]\<rparr>
               in if sys_id e = EXT_PART then read_logical_partitions (nr_dev_minor + int i + 1) s1 else Inr s1)
          (read_primary_loop nr_dev_minor (i + 1) es (nr_prim_parts + 1))
      else Inl OutOfBounds)"

definition read_primary_partitions :: "int \<Rightarrow> hdsys \<Rightarrow> hdsys outcome" where
  "read_primary_partitions nr_dev_minor s =
     obind (get_part_table 0 s) (\<lambda>(part_tbl, s1).
     obind (read_primary_loop nr_dev_minor 0 part_tbl 0 s1) (\<lambda>(nr_prim_parts, s2).
       c_assert (nr_prim_parts \<noteq> 0) (Inr s2)))"

text \<open>\<^verbatim>\<open>read_partition\<close> with its two kinds; only the first drive has a table.\<close>

definition read_partition :: "int \<Rightarrow> int \<Rightarrow> hdsys \<Rightarrow> hdsys outcome" where
  "read_partition nr_dev_minor partition_type s =
     (if DRIVE_OF_DEV nr_dev_minor \<noteq> 0 then Inl OutOfBounds
      else if partition_type = 0 then read_primary_partitions nr_dev_minor s
      else if partition_type = 1 then read_logical_partitions nr_dev_minor s
      else Inl AssertFail)"

section \<open>Opening and closing\<close>

definition hd_init :: "hdsys \<Rightarrow> hdsys outcome" where
  "hd_init s =
     c_assert (kmem (kern s) 0x475 \<noteq> 0)
       (Inr (s\<lparr>open_cnt := 0, primary := replicate 5 \<lparr>start_sect = 0, sect_cnt = 0\<rparr>,
               logical := replicate 64 \<lparr>start_sect = 0, sect_cnt = 0\<rparr>\<rparr>))"

text \<open>The registers \<^verbatim>\<open>hd_identify\<close> leaves unset do not matter to the command.\<close>

definition hd_identify :: "hdsys \<Rightarrow> hdsys outcome" where
  "hd_identify s =
     obind (hd_cmd_out \<lparr>features = 0, count = 0, lba_low = 0, lba_mid = 0, lba_high = 0,
              device = MAKE_DEVICE_REG CHS_MODE 0 0, command = ATA_IDENTIFY\<rparr> s) (\<lambda>s1.
     obind (wait_for_hd_int s1) (\<lambda>s2.
       let s3 = read_hdbuf s2; mm = kmem (kern s3)
       in if 0 < length (primary s3) then
            Inr (s3\<lparr>primary := (primary s3)[0 := \<lparr>start_sect = 0,
              sect_cnt = push_bit 16 (ucast (rd16 mm (hdbuf s3 + 122))) + ucast (rd16 mm (hdbuf s3 + 120))\<rparr>]\<rparr>)
          else Inl OutOfBounds))"

definition hd_open :: "int \<Rightarrow> hdsys \<Rightarrow> hdsys outcome" where
  "hd_open nr_dev_minor s =
     c_assert (DRIVE_OF_DEV nr_dev_minor = 0)
       (obind (hd_identify s) (\<lambda>s1.
          let s2 = s1\<lparr>open_cnt := open_cnt s1 + 1\<rparr>
          in if open_cnt s1 = 0 then read_partition 0 0 s2 else Inr s2))"

definition hd_close :: "int \<Rightarrow> hdsys \<Rightarrow> hdsys outcome" where
  "hd_close nr_dev_minor s = c_assert (DRIVE_OF_DEV nr_dev_minor = 0) (Inr (s\<lparr>open_cnt := open_cnt s - 1\<rparr>))"

definition hd_handler :: "u8 \<Rightarrow> hdsys \<Rightarrow> hdsys outcome" where
  "hd_handler status s =
     obind (hw_int_notification TASK_HD (kern s)) (\<lambda>k. Inr (s\<lparr>hd_status := status, kern := k\<rparr>))"

text \<open>One turn of \<^verbatim>\<open>task_hd\<close>: serve the message, which is then sent back. An unknown type spins.\<close>

definition task_hd_round :: "message \<Rightarrow> hdsys \<Rightarrow> (message \<times> hdsys) outcome" where
  "task_hd_round msg s =
     obind (if type msg = DEV_OPEN then hd_open (NR_DEV_MINOR msg) s
            else if type msg = DEV_CLOSE then hd_close (NR_DEV_MINOR msg) s
            else if type msg = DEV_READ \<or> type msg = DEV_WRITE then hd_read_write msg s
            else if type msg = DEV_IOCTL then hd_ioctl msg s
            else Inl Diverges)
       (\<lambda>s'. Inr (msg\<lparr>source := TASK_HD\<rparr>, s'))"


section \<open>Commands and blocks\<close>

lemma cmd_lba_rw [simp]: "cmd_lba (rw_cmd c n x) = take_bit 28 x"
proof (rule bit_word_eqI)
  fix i assume i: "i < LENGTH(32)"
  then consider "i < 8" | "8 \<le> i" "i < 16" | "16 \<le> i" "i < 24" | "24 \<le> i" "i < 28" | "28 \<le> i" "i < 32" by fastforce
  then show "bit (cmd_lba (rw_cmd c n x)) i = bit (take_bit 28 x) i"
    by cases (auto simp: cmd_lba_def rw_cmd_def MAKE_DEVICE_REG_def bit_simps and_low_ones)
qed

lemma rw_cmd_simps [simp]: "count (rw_cmd c n x) = n" "command (rw_cmd c n x) = c"
  by (simp_all add: rw_cmd_def)

lemma va2la_upd_kmem [simp]: "proc_va2la (k\<lparr>kmem := m\<rparr>) = proc_va2la k"
  by (simp add: proc_va2la_def fun_eq_iff)

lemma upd_mem_simps [simp]:
  "kmem (kern (upd_mem f s)) = f (kmem (kern s))" "drive (upd_mem f s) = drive s" "hdbuf (upd_mem f s) = hdbuf s"
  "primary (upd_mem f s) = primary s" "logical (upd_mem f s) = logical s" "open_cnt (upd_mem f s) = open_cnt s"
  "hd_info_addr (upd_mem f s) = hd_info_addr s"
  "proc_va2la (kern (upd_mem f s)) = proc_va2la (kern s)" "proc_table (kern (upd_mem f s)) = proc_table (kern s)"
  by (simp_all add: upd_mem_def)

lemma proc_va2la_task: "proc_va2la k pid a = Inr la \<Longrightarrow> pid < NR_TASKS_NATIVE + NR_PROCS_NATIVE \<Longrightarrow> la = a"
  by (auto simp: proc_va2la_def Let_def c_assert_def split: if_splits)

text \<open>Copying a sector out of the buffer it was read into.\<close>

lemma copy_loaded:
  assumes "512 \<le> unat (a - hb)"
  shows "phys_copy (load_sector d hb mm) a hb 512 = load_sector d a (load_sector d hb mm)"
proof -
  have "a = hb \<or> unat (512 :: u32) \<le> unat (a - hb)" using assms by simp
  from memcpy_eq [OF this, of "load_sector d hb mm"] show ?thesis by (simp add: load_sector_def fun_eq_iff)
qed

section \<open>What a transfer does\<close>

fun read_n :: "(u32 \<Rightarrow> mem) \<Rightarrow> u32 \<Rightarrow> u32 \<Rightarrow> u32 \<Rightarrow> nat \<Rightarrow> mem \<Rightarrow> mem" where
  "read_n md hb lba a 0 mm = mm"
| "read_n md hb lba a (Suc n) mm =
     read_n md hb (lba + 1) (a + 512) n (load_sector (md lba) a (load_sector (md lba) hb mm))"

fun write_n :: "(u32 \<Rightarrow> mem) \<Rightarrow> u32 \<Rightarrow> u32 \<Rightarrow> nat \<Rightarrow> mem \<Rightarrow> (u32 \<Rightarrow> mem)" where
  "write_n md lba a 0 mm = md"
| "write_n md lba a (Suc n) mm = write_n (md(lba := sector_at mm a)) (lba + 1) (a + 512) n mm"

lemma read_n_abs:
  "read_n md hb lba a 0 = (\<lambda>mm. mm)"
  "read_n md hb lba a (Suc n) =
     (\<lambda>mm. read_n md hb (lba + 1) (a + 512) n (load_sector (md lba) a (load_sector (md lba) hb mm)))"
  by (simp_all add: fun_eq_iff)

lemma ata_next_simps [simp]:
  "media (ata_next d) = media d" "ident (ata_next d) = ident d" "busy (ata_next d) = busy d"
  "xfer_cmd (ata_next d) = xfer_cmd d" "xfer_left (ata_next d) = xfer_left d - 1"
  by (simp_all add: ata_next_def)

lemma take_bit_small: "unat (x :: u32) < 2 ^ 28 \<Longrightarrow> take_bit 28 x = x"
  by (rule word_unat_eq_iff [THEN iffD2]) (simp add: unsigned_take_bit_eq take_bit_nat_eq_self)

lemma xfer_lba_next:
  assumes "unat (xfer_lba d) + 1 < 2 ^ 28"
  shows "xfer_lba (ata_next d) = xfer_lba d + 1" "unat (xfer_lba d + 1) = unat (xfer_lba d) + 1"
proof -
  show u: "unat (xfer_lba d + 1) = unat (xfer_lba d) + 1"
    using assms by (subst unat_word_ariths) simp
  then show "xfer_lba (ata_next d) = xfer_lba d + 1"
    using assms by (simp add: ata_next_def take_bit_small)
qed


text \<open>The pieces of state a transfer leaves alone are spelled out by writing its result as an update.\<close>

definition xferred :: "(mem \<Rightarrow> mem) \<Rightarrow> (ata \<Rightarrow> ata) \<Rightarrow> hdsys \<Rightarrow> hdsys" where
  "xferred f g s = (upd_mem f s)\<lparr>drive := g (drive s)\<rparr>"

lemma xferred_simps [simp]:
  "kmem (kern (xferred f g s)) = f (kmem (kern s))" "drive (xferred f g s) = g (drive s)"
  "hdbuf (xferred f g s) = hdbuf s" "primary (xferred f g s) = primary s" "logical (xferred f g s) = logical s"
  "open_cnt (xferred f g s) = open_cnt s" "hd_info_addr (xferred f g s) = hd_info_addr s"
  "proc_va2la (kern (xferred f g s)) = proc_va2la (kern s)" "proc_table (kern (xferred f g s)) = proc_table (kern s)"
  by (simp_all add: xferred_def)

lemma xferred_comp: "xferred f g (xferred f' g' s) = xferred (f o f') (g o g') s"
  by (simp add: xferred_def upd_mem_def)

lemma read_hdbuf_xferred: "read_hdbuf s = xferred (load_sector (ata_data (drive s)) (hdbuf s)) ata_next s"
  by (simp add: read_hdbuf_def xferred_def upd_mem_def)

lemma upd_mem_xferred: "upd_mem f s = xferred f id s"
  by (simp add: xferred_def upd_mem_def)

lemma write_data_xferred:
  "write_data la s = xferred id (\<lambda>d. ata_next (d\<lparr>media := (media d)(xfer_lba d := sector_at (kmem (kern s)) la)\<rparr>)) s"
  by (simp add: write_data_def xferred_def upd_mem_def Let_def)

lemma hd_transfer_read:
  assumes "proc_va2la (kern s) TASK_HD (hdbuf s) = Inr (hdbuf s)" and "n \<le> xfer_left (drive s)" and "n < 4194304"
    and "xfer_cmd (drive s) = ATA_READ" and "unat (xfer_lba (drive s)) + n \<le> 2 ^ 28"
    and "\<And>j. j < n \<Longrightarrow> 512 \<le> unat (a + 512 * of_nat j - hdbuf s)"
  shows "hd_transfer DEV_READ (512 * int n) a s =
    Inr (xferred (read_n (media (drive s)) (hdbuf s) (xfer_lba (drive s)) a n) (ata_next ^^ n) s)"
  using assms
proof (induction n arbitrary: a s)
  case 0
  then show ?case by (subst hd_transfer.simps) (simp add: xferred_def upd_mem_def)
next
  case (Suc n)
  let ?d = "drive s" and ?hb = "hdbuf s"
  let ?sec = "media ?d (xfer_lba ?d)"
  let ?s1 = "xferred (\<lambda>mm. load_sector ?sec a (load_sector ?sec ?hb mm)) ata_next s"
  have data: "ata_data ?d = ?sec" using Suc.prems(4) by (simp add: ata_data_def)
  have cp: "phys_copy (load_sector ?sec ?hb mm) a ?hb 512 = load_sector ?sec a (load_sector ?sec ?hb mm)" for mm
    using Suc.prems(6) [of 0] by (intro copy_loaded) simp
  have "hd_transfer DEV_READ (512 * int (Suc n)) a s = hd_transfer DEV_READ (512 * int n) (a + 512) ?s1"
    using Suc.prems(1-3)
    by (subst hd_transfer.simps)
      (simp add: Let_def read_hdbuf_xferred upd_mem_xferred xferred_comp data cp comp_def s32_id)
  also have "\<dots> = Inr (xferred (read_n (media ?d) ?hb (xfer_lba ?d) a (Suc n)) (ata_next ^^ Suc n) s)"
  proof (cases n)
    case 0
    then show ?thesis by (subst hd_transfer.simps) (simp add: xferred_def upd_mem_def)
  next
    case (Suc m)
    note nx = xfer_lba_next [of ?d]
    have "unat (xfer_lba ?d) + 1 < 2 ^ 28" using Suc.prems(5) Suc by simp
    note nx = nx [OF this]
    have "hd_transfer DEV_READ (512 * int n) (a + 512) ?s1 =
      Inr (xferred (read_n (media (drive ?s1)) (hdbuf ?s1) (xfer_lba (drive ?s1)) (a + 512) n) (ata_next ^^ n) ?s1)"
      using Suc.prems nx Suc.prems(6) [of "Suc _"]
      by (intro Suc.IH) (auto simp: algebra_simps)
    then show ?thesis using nx(1) by (simp add: xferred_comp comp_def funpow_swap1 read_n_abs)
  qed
  finally show ?case .
qed


lemma hd_transfer_write:
  assumes "n \<le> xfer_left (drive s)" and "n < 4194304" and "unat (xfer_lba (drive s)) + n \<le> 2 ^ 28"
    and "ty \<noteq> DEV_READ"
  shows "\<exists>g. hd_transfer ty (512 * int n) a s = Inr (xferred id g s) \<and>
    media (g (drive s)) = write_n (media (drive s)) (xfer_lba (drive s)) a n (kmem (kern s)) \<and>
    busy (g (drive s)) = busy (drive s) \<and> ident (g (drive s)) = ident (drive s)"
  using assms
proof (induction n arbitrary: a s)
  case 0
  then show ?case by (intro exI [of _ id], subst hd_transfer.simps) (simp add: xferred_def upd_mem_def)
next
  case (Suc n)
  let ?d = "drive s"
  let ?g = "\<lambda>d. ata_next (d\<lparr>media := (media d)(xfer_lba d := sector_at (kmem (kern s)) a)\<rparr>)"
  let ?s1 = "xferred id ?g s"
  have step: "hd_transfer ty (512 * int (Suc n)) a s = hd_transfer ty (512 * int n) (a + 512) ?s1"
    using Suc.prems(1, 2, 4) by (subst hd_transfer.simps) (simp add: Let_def write_data_xferred s32_id)
  show ?case
  proof (cases n)
    case 0
    then show ?thesis unfolding step
      by (intro exI [of _ ?g], subst hd_transfer.simps) (simp add: xferred_def upd_mem_def)
  next
    case (Suc m)
    have "unat (xfer_lba ?d) + 1 < 2 ^ 28" using Suc.prems(3) Suc by simp
    from xfer_lba_next [OF this]
    have lba: "xfer_lba (?g ?d) = xfer_lba ?d + 1" "unat (xfer_lba ?d + 1) = unat (xfer_lba ?d) + 1"
      by (simp_all add: ata_next_def)
    then have "\<exists>g. hd_transfer ty (512 * int n) (a + 512) ?s1 = Inr (xferred id g ?s1) \<and>
      media (g (drive ?s1)) = write_n (media (drive ?s1)) (xfer_lba (drive ?s1)) (a + 512) n (kmem (kern ?s1)) \<and>
      busy (g (drive ?s1)) = busy (drive ?s1) \<and> ident (g (drive ?s1)) = ident (drive ?s1)"
      using Suc.prems by (intro Suc.IH) auto
    then obtain g where "hd_transfer ty (512 * int n) (a + 512) ?s1 = Inr (xferred id g ?s1)"
      "media (g (?g ?d)) = write_n (media (?g ?d)) (xfer_lba (?g ?d)) (a + 512) n (kmem (kern s))"
      "busy (g (?g ?d)) = busy ?d" "ident (g (?g ?d)) = ident ?d" by auto
    then show ?thesis unfolding step
      by (intro exI [of _ "g o ?g"]) (simp add: xferred_comp comp_def id_def lba(1))
  qed
qed

section \<open>The contents of a transfer\<close>

lemma read_n_frame:
  assumes "512 * n \<le> unat (x - a)" "512 \<le> unat (x - hb)" "n < 4194304"
  shows "read_n md hb lba a n mm x = mm x"
  using assms
proof (induction n arbitrary: lba a mm)
  case (Suc n)
  have "512 \<le> unat (x - a)" using Suc.prems(1) by simp
  then have "unat (x - (a + 512)) = unat (x - a) - 512"
    using unat_sub [of 512 "x - a"] by (simp add: word_le_nat_alt diff_diff_eq)
  with Suc show ?case by (simp add: load_sector_def)
qed simp


lemma read_n_data:
  assumes "i < 512 * n" "n < 4194304" "\<And>i. i < 512 * n \<Longrightarrow> 512 \<le> unat (a + of_nat i - hb)"
  shows "read_n md hb lba a n mm (a + of_nat i) = md (lba + of_nat (i div 512)) (of_nat (i mod 512))"
  using assms
proof (induction n arbitrary: lba a mm i)
  case (Suc n)
  show ?case
  proof (cases "i < 512")
    case True
    have eq: "a + of_nat i - (a + 512) = - (512 - of_nat i)" by simp
    have "unat (512 - of_nat i :: u32) = 512 - i"
      using True by (simp add: unat_sub unat_of_nat_u32 word_le_nat_alt)
    moreover from this have "512 - of_nat i \<noteq> (0 :: u32)" using True by (metis unat_0 diff_is_0_eq not_le)
    ultimately have "unat (a + of_nat i - (a + 512)) = 4294967296 - (512 - i)"
      unfolding eq using unat_u32_uminus [of "512 - of_nat i"] by simp
    then have "512 * n \<le> unat (a + of_nat i - (a + 512))" using Suc.prems(2) by simp
    from read_n_frame [OF this Suc.prems(3) [OF Suc.prems(1)]] Suc.prems(2) True
    show ?thesis by (simp add: load_sector_def unat_of_nat_u32)
  next
    case False
    then have i: "of_nat i = 512 + (of_nat (i - 512) :: u32)" by (simp add: of_nat_diff)
    have "read_n md hb (lba + 1) (a + 512) n mm' (a + 512 + of_nat (i - 512)) =
        md (lba + 1 + of_nat ((i - 512) div 512)) (of_nat ((i - 512) mod 512))" for mm'
      using Suc.prems False Suc.prems(3) [of "512 + _"] by (intro Suc.IH) (auto simp: add.assoc)
    moreover have "i div 512 = Suc ((i - 512) div 512)" "i mod 512 = (i - 512) mod 512"
      using False by (simp_all add: le_div_geq le_mod_geq)
    ultimately show ?thesis unfolding i by (simp add: add.assoc)
  qed
qed simp

lemma write_n_eq:
  assumes "n < 4294967296"
  shows "write_n md lba a n mm l =
    (if unat (l - lba) < n then sector_at mm (a + 512 * (l - lba)) else md l)"
  using assms
proof (induction n arbitrary: lba a md)
  case (Suc n)
  show ?case
  proof (cases "l = lba")
    case True
    have "unat (lba - (lba + 1)) = 4294967295" by simp
    with True Suc show ?thesis by simp
  next
    case False
    note st = unat_step_back [OF False]
    have "a + 512 + 512 * (l - (lba + 1)) = a + 512 * (l - lba)" by (simp add: algebra_simps)
    with False Suc st show ?thesis by (auto simp del: add_diff_eq)
  qed
qed simp

section \<open>Which requests complete\<close>

lemma s32_cases:
  assumes "- 6442450944 \<le> x" "x < 2147483648"
  shows "s32 x = (if - 2147483648 \<le> x then x else x + 4294967296)"
proof (cases "- 2147483648 \<le> x")
  case False
  have "(word_of_int x :: u32) = word_of_int (x + 4294967296)" by (simp add: word_of_int_eq_iff take_bit_eq_mod)
  then have "s32 x = s32 (x + 4294967296)" by (simp add: s32_def)
  with False assms show ?thesis by (simp add: s32_id)
qed (use assms in \<open>simp add: s32_id\<close>)

lemma sectors_step:
  assumes "in_s32 b" "m \<le> 256" "b \<noteq> 0"
  shows "(\<exists>k \<le> m - 1. s32 (b - 512) = 512 * int k) \<and> 0 < m \<longleftrightarrow> (\<exists>k \<le> m. b = 512 * int k)"
proof -
  have s: "s32 (b - 512) = (if - 2147483648 \<le> b - 512 then b - 512 else b - 512 + 4294967296)"
    using assms(1) by (intro s32_cases) (auto simp: in_s32_def)
  show ?thesis
  proof
    assume L: "(\<exists>k \<le> m - 1. s32 (b - 512) = 512 * int k) \<and> 0 < m"
    then obtain k where k: "k \<le> m - 1" "s32 (b - 512) = 512 * int k" by blast
    then have "int k \<le> 255" using assms(2) by simp
    then have "b - 512 = 512 * int k" using k s assms(1) by (auto simp: in_s32_def split: if_splits)
    then show "\<exists>k \<le> m. b = 512 * int k" using k(1) L by (intro exI [of _ "Suc k"]) auto
  next
    assume "\<exists>k \<le> m. b = 512 * int k"
    then obtain k where k: "k \<le> m" "b = 512 * int k" by blast
    with assms(3) have "0 < k" by (cases k) auto
    then have "s32 (b - 512) = 512 * int (k - 1)" using s k by (auto simp: of_nat_diff)
    then show "(\<exists>k \<le> m - 1. s32 (b - 512) = 512 * int k) \<and> 0 < m"
      using k(1) \<open>0 < k\<close> by (metis diff_le_mono less_le_trans)
  qed
qed

lemma hd_transfer_completes:
  assumes "in_s32 b" "xfer_left (drive s) \<le> 256" "proc_va2la (kern s) TASK_HD (hdbuf s) = Inr (hdbuf s)"
  shows "(\<exists>s'. hd_transfer ty b a s = Inr s') \<longleftrightarrow> (\<exists>k \<le> xfer_left (drive s). b = 512 * int k)"
  using assms
proof (induction "xfer_left (drive s)" arbitrary: b a s rule: less_induct)
  case less
  let ?m = "xfer_left (drive s)"
  show ?case
  proof (cases "b = 0 \<or> ?m = 0")
    case True
    then show ?thesis by (subst hd_transfer.simps) (auto simp: Let_def)
  next
    case False
    note step = sectors_step [OF less.prems(1, 2)]
    have b': "in_s32 (s32 (b - 512))" using s32_range [of "b - 512"] by (simp add: in_s32_def)
    have IH: "(\<exists>s'. hd_transfer ty (s32 (b - 512)) (a + 512) t = Inr s') \<longleftrightarrow> (\<exists>k \<le> ?m. b = 512 * int k)"
      if "xfer_left (drive t) = ?m - 1" "proc_va2la (kern t) TASK_HD (hdbuf t) = Inr (hdbuf t)" for t
      using less.hyps [of t "s32 (b - 512)" "a + 512"] that b' False less.prems(2) step by auto
    show ?thesis
    proof (cases "ty = DEV_READ")
      case True
      with False less.prems(3) show ?thesis
        by (subst hd_transfer.simps) (simp add: Let_def IH [unfolded True] read_hdbuf_xferred)
    next
      case nr: False
      show ?thesis
      proof (cases "512 \<le> b")
        case True
        with False nr less.prems(3) show ?thesis
          by (subst hd_transfer.simps) (simp add: Let_def IH write_data_xferred)
      next
        case small: False
        have "b \<noteq> 512 * int k" for k using small False by auto
        moreover have "\<nexists>s'. hd_transfer ty b a s = Inr s'"
          using small False nr by (subst hd_transfer.simps) (auto simp: Let_def)
        ultimately show ?thesis by blast
      qed
    qed
  qed
qed


text \<open>A request that gets as far as the transfer: \<open>la\<close> is the caller's buffer, \<open>sect\<close> the first sector.\<close>

definition hd_request :: "message \<Rightarrow> u32 \<Rightarrow> u32 \<Rightarrow> hdsys \<Rightarrow> bool" where
  "hd_request p la sect s \<longleftrightarrow> POSITION p AND 0x1FF = 0 \<and> \<not> busy (drive s) \<and>
     (\<exists>pi. part_of_minor (NR_DEV_MINOR p) s = Inr pi \<and> sect = ucast (drop_bit 9 (POSITION p)) + start_sect pi) \<and>
     proc_va2la (kern s) (PROC_NR p) (BUF p) = Inr la \<and> proc_va2la (kern s) TASK_HD (hdbuf s) = Inr (hdbuf s)"

lemma hd_read_write_request:
  assumes "hd_request p la sect s"
  shows "hd_read_write p s = hd_transfer (type p) (CNT p) la (xferred id
    (ata_command (rw_cmd (if type p = DEV_READ then ATA_READ else ATA_WRITE) (sector_count (CNT p)) sect)) s)"
proof -
  have "unat (drop_bit 9 (POSITION p)) < 2 ^ 55"
    using unsigned_less [of "POSITION p", where ?'a = nat] by (simp add: drop_bit_eq_div unat_div_distrib less_mult_imp_div_less)
  then have "drop_bit 9 (POSITION p) < 0xFFFFFFFF80000000" by (simp add: word_less_nat_alt)
  then show ?thesis using assms
    by (auto simp: hd_read_write_def hd_request_def hd_cmd_out_def Let_def xferred_def upd_mem_def)
qed

lemma sector_count_enough:
  assumes "in_s32 (512 * int k)"
  shows "k \<le> (if sector_count (512 * int k) = 0 then 256 else unat (sector_count (512 * int k))) \<longleftrightarrow> k \<le> 256"
proof -
  have "s32 (512 * int k + SECTOR_SIZE - 1) sdiv SECTOR_SIZE = int k"
    using assms by (simp add: in_s32_def s32_id signed_divide_int_def)
  then have "unat (sector_count (512 * int k)) = k mod 256" "sector_count (512 * int k) = 0 \<longleftrightarrow> k mod 256 = 0"
    by (simp_all add: sector_count_def unsigned_of_nat take_bit_eq_mod word_of_nat_eq_0_iff mod_eq_0_iff_dvd)
  moreover have "k mod 256 < 256" by simp
  ultimately show ?thesis by (cases "k < 256") (auto simp: not_less le_antisym)
qed

lemma xfer_left_count:
  "xfer_left (ata_command (rw_cmd (if b then ATA_READ else ATA_WRITE) c x) d) = (if c = 0 then 256 else unat c)"
  by (simp add: ata_command_def)

lemma ata_command_simps [simp]:
  "media (ata_command c d) = media d" "busy (ata_command c d) = busy d" "ident (ata_command c d) = ident d"
  "xfer_lba (ata_command c d) = cmd_lba c" "xfer_cmd (ata_command c d) = command c"
  by (simp_all add: ata_command_def)



section \<open>Reads and writes of whole sectors\<close>

definition same_disk :: "ata \<Rightarrow> ata \<Rightarrow> bool" where
  "same_disk d d' \<longleftrightarrow> media d' = media d \<and> busy d' = busy d \<and> ident d' = ident d"

lemma same_disk_funpow: "same_disk d ((ata_next ^^ n) d)"
  by (induction n) (simp_all add: same_disk_def)

lemma sector_count_256:
  "n \<le> 256 \<Longrightarrow> n \<le> (if sector_count (512 * int n) = 0 then 256 else unat (sector_count (512 * int n)))"
  using sector_count_enough [of n] by (simp add: in_s32_def)

lemma hd_read_sectors:
  assumes "hd_request p la sect s" "type p = DEV_READ" "CNT p = 512 * int n" "n \<le> 256" "unat sect + n \<le> 2 ^ 28"
    "0 < n" "\<And>i. i < 512 * n \<Longrightarrow> 512 \<le> unat (la + of_nat i - hdbuf s)"
  shows "\<exists>g. hd_read_write p s = Inr (xferred (read_n (media (drive s)) (hdbuf s) sect la n) g s) \<and>
    same_disk (drive s) (g (drive s))"
proof -
  let ?c = "ata_command (rw_cmd ATA_READ (sector_count (512 * int n)) sect)"
  let ?t = "xferred id ?c s"
  have sect: "take_bit 28 sect = sect" using assms(5, 6) by (intro take_bit_small) simp
  have "n \<le> xfer_left (drive ?t)"
    using sector_count_256 [OF assms(4)] xfer_left_count [of True] by (simp del: of_nat_mult)
  then have "hd_transfer DEV_READ (512 * int n) la ?t =
      Inr (xferred (read_n (media (drive ?t)) (hdbuf ?t) (xfer_lba (drive ?t)) la n) (ata_next ^^ n) ?t)"
    using assms(1, 4, 5) assms(7) [of "512 * _"] sect
    by (intro hd_transfer_read) (auto simp: hd_request_def)
  then have "hd_read_write p s = Inr (xferred (read_n (media (drive s)) (hdbuf s) sect la n) (\<lambda>d. (ata_next ^^ n) (?c d)) s)"
    using assms(2, 3) sect by (simp add: hd_read_write_request [OF assms(1)] xferred_comp comp_def)
  moreover have "same_disk (drive s) ((ata_next ^^ n) (?c (drive s)))"
    using same_disk_funpow [of "?c (drive s)" n] by (simp add: same_disk_def)
  ultimately show ?thesis by blast
qed

lemma hd_write_sectors:
  assumes "hd_request p la sect s" "type p = DEV_WRITE" "CNT p = 512 * int n" "n \<le> 256" "unat sect + n \<le> 2 ^ 28" "0 < n"
  shows "\<exists>g. hd_read_write p s = Inr (xferred id g s) \<and>
    media (g (drive s)) = write_n (media (drive s)) sect la n (kmem (kern s)) \<and>
    busy (g (drive s)) = busy (drive s) \<and> ident (g (drive s)) = ident (drive s)"
proof -
  let ?c = "ata_command (rw_cmd ATA_WRITE (sector_count (512 * int n)) sect)"
  let ?t = "xferred id ?c s"
  have sect: "take_bit 28 sect = sect" using assms(5, 6) by (intro take_bit_small) simp
  have "n \<le> xfer_left (drive ?t)"
    using sector_count_256 [OF assms(4)] xfer_left_count [of False] by (simp del: of_nat_mult)
  then have "\<exists>g. hd_transfer DEV_WRITE (512 * int n) la ?t = Inr (xferred id g ?t) \<and>
      media (g (drive ?t)) = write_n (media (drive ?t)) (xfer_lba (drive ?t)) la n (kmem (kern ?t)) \<and>
      busy (g (drive ?t)) = busy (drive ?t) \<and> ident (g (drive ?t)) = ident (drive ?t)"
    using assms(4, 5) sect by (intro hd_transfer_write) auto
  then obtain g where g: "hd_transfer DEV_WRITE (512 * int n) la ?t = Inr (xferred id g ?t)"
    "media (g (?c (drive s))) = write_n (media (drive s)) sect la n (kmem (kern s))"
    "busy (g (?c (drive s))) = busy (drive s)" "ident (g (?c (drive s))) = ident (drive s)"
    using sect by auto
  have "hd_read_write p s = Inr (xferred id (\<lambda>d. g (?c d)) s)"
    using g(1) assms(2, 3) by (simp add: hd_read_write_request [OF assms(1)] xferred_comp comp_def id_def)
  with g(2-4) show ?thesis by (intro exI [of _ "\<lambda>d. g (?c d)"]) simp
qed


lemma part_of_minor_xferred [simp]: "part_of_minor m (xferred f g s) = part_of_minor m s"
  by (simp add: part_of_minor_def)

lemma hd_request_xferred: "busy (g (drive s)) = busy (drive s) \<Longrightarrow> hd_request p la sect (xferred f g s) = hd_request p la sect s"
  by (simp add: hd_request_def)

lemma sector_at_split: "sector_at mm (a + 512 * of_nat (i div 512)) (of_nat (i mod 512)) = mm (a + of_nat i)"
proof -
  have "i mod 512 < 512" by simp
  then have "unat (of_nat (i mod 512) :: u32) < 512" by (subst unat_of_nat_u32) linarith+
  moreover have "512 * of_nat (i div 512) + of_nat (i mod 512) = (of_nat i :: u32)"
    by (metis mult_div_mod_eq of_nat_add of_nat_mult of_nat_numeral)
  ultimately show ?thesis by (simp add: sector_at_def add.assoc)
qed

text \<open>C22: What is written to a disk is read back: after a write of up to 256 sectors from one buffer, a read
  of the same sectors into another buffer completes and delivers the same bytes; the write touches no
  other sector, and the two requests change no memory but the target buffer and the driver's own.\<close>

theorem disk_write_read_back:
  assumes "hd_request pw lw sect s" "type pw = DEV_WRITE" "CNT pw = 512 * int n"
    and "hd_request pr lr sect s" "type pr = DEV_READ" "CNT pr = 512 * int n"
    and "0 < n" "n \<le> 256" "unat sect + n \<le> 2 ^ 28" "apart (hdbuf s) 512 lr (512 * n)"
  shows "\<exists>s1 s2. hd_read_write pw s = Inr s1 \<and> hd_read_write pr s1 = Inr s2 \<and>
    read_bytes (kmem (kern s2)) lr (512 * n) = read_bytes (kmem (kern s)) lw (512 * n) \<and>
    (\<forall>l. n \<le> unat (l - sect) \<longrightarrow> media (drive s1) l = media (drive s) l) \<and>
    (\<forall>x. 512 * n \<le> unat (x - lr) \<and> 512 \<le> unat (x - hdbuf s) \<longrightarrow> kmem (kern s2) x = kmem (kern s) x)"
proof -
  let ?mm = "kmem (kern s)" and ?hb = "hdbuf s"
  let ?w = "write_n (media (drive s)) sect lw n ?mm"
  have clear: "512 \<le> unat (lr + of_nat i - ?hb)" if "i < 512 * n" for i
    using apart_offset [OF assms(10) that] .
  from hd_write_sectors [OF assms(1-3, 8, 9, 7)] obtain g where
    g: "hd_read_write pw s = Inr (xferred id g s)" "media (g (drive s)) = ?w" "busy (g (drive s)) = busy (drive s)" by blast
  let ?s1 = "xferred id g s"
  have req: "hd_request pr lr sect ?s1" using assms(4) g(3) by (simp add: hd_request_xferred)
  from hd_read_sectors [OF req assms(5, 6, 8, 9, 7)] clear obtain h where
    h: "hd_read_write pr ?s1 = Inr (xferred (read_n ?w ?hb sect lr n) h ?s1)" by (auto simp: g(2))
  have n: "n < 4194304" "n < 4294967296" using assms(8) by simp_all
  have "read_n ?w ?hb sect lr n ?mm (lr + of_nat i) = ?mm (lw + of_nat i)" if i: "i < 512 * n" for i
  proof -
    have "unat (of_nat (i div 512) :: u32) < n"
      using i n(2) by (subst unat_of_nat_u32) (auto simp: less_mult_imp_div_less mult.commute)
    then have "?w (sect + of_nat (i div 512)) = sector_at ?mm (lw + 512 * of_nat (i div 512))"
      by (simp add: write_n_eq [OF n(2)])
    then show ?thesis using read_n_data [OF i n(1) clear] by (simp add: sector_at_split)
  qed
  then have "read_bytes (read_n ?w ?hb sect lr n ?mm) lr (512 * n) = read_bytes ?mm lw (512 * n)"
    by (intro read_bytes_cong)
  with g(1, 2) h n show ?thesis
    by (intro exI [of _ ?s1] exI [of _ "xferred (read_n ?w ?hb sect lr n) h ?s1"])
      (simp add: write_n_eq read_n_frame)
qed

section \<open>Partition tables\<close>

text \<open>The chain of boot records of an extended partition, and what the tables should hold.\<close>

fun ebr_chain :: "(u32 \<Rightarrow> mem) \<Rightarrow> nat \<Rightarrow> u32 \<Rightarrow> part_info list" where
  "ebr_chain md 0 ext = []"
| "ebr_chain md (Suc n) ext =
     (let es = entries_at (md (take_bit 28 ext)) 0
      in \<lparr>start_sect = ext + pe_start_sect (es ! 0), sect_cnt = nr_sects_pe (es ! 0)\<rparr> #
         (if sys_id (es ! 1) = NO_PART then [] else ebr_chain md n (ext + pe_start_sect (es ! 1))))"

definition overlay :: "'a list \<Rightarrow> nat \<Rightarrow> 'a list \<Rightarrow> 'a list" where
  "overlay xs i ys = take i xs @ ys @ drop (i + length ys) xs"

fun part_spec :: "(u32 \<Rightarrow> mem) \<Rightarrow> nat \<Rightarrow> part_entry list \<Rightarrow> part_info list \<times> part_info list \<Rightarrow> part_info list \<times> part_info list" where
  "part_spec md i [] PL = PL"
| "part_spec md i (e # es) PL = part_spec md (i + 1) es
     (if sys_id e = NO_PART then PL
      else ((fst PL)[i + 1 := \<lparr>start_sect = pe_start_sect e, sect_cnt = nr_sects_pe e\<rparr>],
            if sys_id e = EXT_PART then overlay (snd PL) (16 * i) (ebr_chain md 16 (pe_start_sect e)) else snd PL))"

lemma entries_loaded: "entries_at (load_sector d hb mm) hb = entries_at d 0"
  by (simp add: entries_at_def read_entry_def rd32_def load_sector_def upt_rec)

lemma get_part_table_eq:
  assumes "\<not> busy (drive s)"
  shows "\<exists>g. get_part_table x s = Inr (entries_at (media (drive s) (take_bit 28 x)) 0,
      xferred (load_sector (media (drive s) (take_bit 28 x)) (hdbuf s)) g s) \<and> same_disk (drive s) (g (drive s))"
  using assms
  by (intro exI [of _ "\<lambda>d. ata_next (ata_command (rw_cmd ATA_READ 1 x) d)"])
    (simp add: get_part_table_def hd_cmd_out_def wait_for_hd_int_def Let_def ata_command_def ata_data_def
      read_hdbuf_def xferred_def upd_mem_def entries_loaded same_disk_def)


lemma xferred_tables [simp]:
  "xferred f g (s\<lparr>logical := L\<rparr>) = (xferred f g s)\<lparr>logical := L\<rparr>"
  "xferred f g (s\<lparr>primary := P\<rparr>) = (xferred f g s)\<lparr>primary := P\<rparr>"
  by (simp_all add: xferred_def upd_mem_def)

lemma overlay_simps [simp]:
  "overlay xs i [] = xs" "length (ys :: 'a list) + i \<le> length xs \<Longrightarrow> length (overlay xs i ys) = length xs"
  by (simp_all add: overlay_def)

lemma overlay_Cons: "i < length xs \<Longrightarrow> overlay (xs[i := y]) (Suc i) ys = overlay xs i (y # ys)"
  by (simp add: overlay_def take_Suc_conv_app_nth)

lemma length_ebr_chain: "length (ebr_chain md n ext) \<le> n"
  by (induction n arbitrary: ext) (auto simp: Let_def)

lemma same_disk_trans: "same_disk d d' \<Longrightarrow> same_disk d' d'' \<Longrightarrow> same_disk d d''"
  by (simp add: same_disk_def)

text \<open>A scan changes the tables as given, the drive's registers and the driver's buffer.\<close>

definition scanned :: "hdsys \<Rightarrow> part_info list \<times> part_info list \<Rightarrow> hdsys \<Rightarrow> bool" where
  "scanned s PL s' \<longleftrightarrow> (\<exists>f g. s' = (xferred f g s)\<lparr>primary := fst PL, logical := snd PL\<rparr> \<and> same_disk (drive s) (g (drive s)) \<and>
     (\<forall>mm x. 512 \<le> unat (x - hdbuf s) \<longrightarrow> f mm x = mm x))"

lemma scanned_trans: "scanned s PL s' \<Longrightarrow> scanned s' PL' s'' \<Longrightarrow> scanned s PL' s''"
  unfolding scanned_def
proof (elim exE conjE)
  fix f g f' g'
  assume "s' = (xferred f g s)\<lparr>primary := fst PL, logical := snd PL\<rparr>"
    "s'' = (xferred f' g' s')\<lparr>primary := fst PL', logical := snd PL'\<rparr>"
    "same_disk (drive s) (g (drive s))" "same_disk (drive s') (g' (drive s'))"
    "\<forall>mm x. 512 \<le> unat (x - hdbuf s) \<longrightarrow> f mm x = mm x" "\<forall>mm x. 512 \<le> unat (x - hdbuf s') \<longrightarrow> f' mm x = mm x"
  then show "\<exists>f g. s'' = (xferred f g s)\<lparr>primary := fst PL', logical := snd PL'\<rparr> \<and> same_disk (drive s) (g (drive s)) \<and>
     (\<forall>mm x. 512 \<le> unat (x - hdbuf s) \<longrightarrow> f mm x = mm x)"
    by (intro exI [of _ "f' o f"] exI [of _ "g' o g"]) (auto simp: xferred_comp same_disk_def)
qed

lemma scanned_simps:
  "scanned s PL s' \<Longrightarrow> primary s' = fst PL" "scanned s PL s' \<Longrightarrow> logical s' = snd PL"
  "scanned s PL s' \<Longrightarrow> media (drive s') = media (drive s)" "scanned s PL s' \<Longrightarrow> busy (drive s') = busy (drive s)"
  by (auto simp: scanned_def same_disk_def)

lemma get_part_table_scanned:
  assumes "\<not> busy (drive s)"
  shows "\<exists>s'. get_part_table x s = Inr (entries_at (media (drive s) (take_bit 28 x)) 0, s') \<and>
    scanned s (primary s, logical s) s'"
proof -
  obtain g where g: "get_part_table x s = Inr (entries_at (media (drive s) (take_bit 28 x)) 0,
      xferred (load_sector (media (drive s) (take_bit 28 x)) (hdbuf s)) g s)" "same_disk (drive s) (g (drive s))"
    using get_part_table_eq [OF assms, of x] by blast
  have "(xferred f g s)\<lparr>primary := primary s, logical := logical s\<rparr> = xferred f g s" for f
    by (cases s) (simp add: xferred_def upd_mem_def)
  then have "scanned s (primary s, logical s) (xferred (load_sector (media (drive s) (take_bit 28 x)) (hdbuf s)) g s)"
    unfolding scanned_def using g(2)
    by (intro exI [of _ "load_sector (media (drive s) (take_bit 28 x)) (hdbuf s)"] exI [of _ g])
      (simp add: load_sector_def)
  with g(1) show ?thesis by blast
qed

lemma scanned_logical: "scanned s (P, L) s' \<Longrightarrow> scanned s (P, L') (s'\<lparr>logical := L'\<rparr>)"
  by (clarsimp simp: scanned_def) (rule_tac x = f in exI, rule_tac x = g in exI, simp)

lemma scanned_primary: "scanned s (P, L) s' \<Longrightarrow> scanned s (P', L) (s'\<lparr>primary := P'\<rparr>)"
  by (clarsimp simp: scanned_def) (rule_tac x = f in exI, rule_tac x = g in exI, simp)

lemma read_logical_loop_spec:
  assumes "\<not> busy (drive s)" "dev + n \<le> length (logical s)"
  shows "\<exists>s'. read_logical_loop n dev ext s = Inr s' \<and>
    scanned s (primary s, overlay (logical s) dev (ebr_chain (media (drive s)) n ext)) s'"
  using assms
proof (induction n arbitrary: dev ext s)
  case 0
  have "scanned s (primary s, logical s) s"
    unfolding scanned_def by (intro exI [of _ id] exI [of _ id]) (simp add: xferred_def upd_mem_def same_disk_def)
  then show ?case by simp
next
  case (Suc n)
  let ?md = "media (drive s)"
  let ?es = "entries_at (?md (take_bit 28 ext)) 0"
  let ?p = "\<lparr>start_sect = ext + pe_start_sect (?es ! 0), sect_cnt = nr_sects_pe (?es ! 0)\<rparr>"
  obtain s1 where s1: "get_part_table ext s = Inr (?es, s1)" "scanned s (primary s, logical s) s1"
    using get_part_table_scanned [OF Suc.prems(1)] by blast
  let ?s2 = "s1\<lparr>logical := (logical s1)[dev := ?p]\<rparr>"
  have s2: "scanned s (primary s, (logical s)[dev := ?p]) ?s2"
    using scanned_logical [OF s1(2)] scanned_simps [OF s1(2)] by simp
  have dev: "dev < length (logical s)" using Suc.prems(2) by simp
  show ?case
  proof (cases "sys_id (?es ! 1) = NO_PART")
    case True
    have "overlay (logical s) dev [?p] = (logical s)[dev := ?p]"
      using overlay_Cons [OF dev, of ?p "[]"] by simp
    with True s1 s2 dev scanned_simps(2) [OF s1(2)] show ?thesis by (simp add: Let_def)
  next
    case False
    let ?ext = "ext + pe_start_sect (?es ! 1)"
    have "\<exists>s'. read_logical_loop n (dev + 1) ?ext ?s2 = Inr s' \<and>
        scanned ?s2 (primary ?s2, overlay (logical ?s2) (dev + 1) (ebr_chain (media (drive ?s2)) n ?ext)) s'"
      using Suc.prems scanned_simps [OF s2] by (intro Suc.IH) simp_all
    then obtain s' where s': "read_logical_loop n (dev + 1) ?ext ?s2 = Inr s'"
      "scanned ?s2 (primary s, overlay ((logical s)[dev := ?p]) (dev + 1) (ebr_chain ?md n ?ext)) s'"
      using scanned_simps [OF s2] by auto
    have "scanned s (primary s, overlay (logical s) dev (?p # ebr_chain ?md n ?ext)) s'"
      using scanned_trans [OF s2 s'(2)] by (simp add: overlay_Cons [OF dev])
    with False s1 s'(1) dev scanned_simps(2) [OF s1(2)] show ?thesis by (simp add: Let_def)
  qed
qed


lemma read_logical_partitions_spec:
  assumes "\<not> busy (drive s)" "length (logical s) = 64" "length (primary s) = 5" "i < 4"
  shows "\<exists>s'. read_logical_partitions (int i + 1) s = Inr s' \<and>
    scanned s (primary s, overlay (logical s) (16 * i) (ebr_chain (media (drive s)) 16 (start_sect (primary s ! (i + 1))))) s'"
proof -
  have "(int i + 1) smod NR_MAX_MINOR_PRIM_PER_DRIVE = int i + 1" "nat (int i + 1) = i + 1"
    using assms(4) by (simp_all add: signed_modulo_int_def signed_divide_int_def)
  then have "read_logical_partitions (int i + 1) s = read_logical_loop 16 (i * 16) (start_sect (primary s ! (i + 1))) s"
    using assms(3, 4) by (simp add: read_logical_partitions_def nth_part_def Let_def)
  then show ?thesis
    using read_logical_loop_spec [OF assms(1), of "16 * i" 16 "start_sect (primary s ! (i + 1))"] assms
    by (simp add: mult.commute)
qed

lemma read_primary_loop_spec:
  assumes "\<not> busy (drive s)" "length (logical s) = 64" "length (primary s) = 5" "i + length es \<le> 4"
  shows "\<exists>s'. read_primary_loop 0 i es k s = Inr (k + length (filter (\<lambda>e. sys_id e \<noteq> NO_PART) es), s') \<and>
    scanned s (part_spec (media (drive s)) i es (primary s, logical s)) s'"
  using assms
proof (induction es arbitrary: i k s)
  case Nil
  have "scanned s (primary s, logical s) s"
    unfolding scanned_def by (intro exI [of _ id] exI [of _ id]) (simp add: xferred_def upd_mem_def same_disk_def)
  then show ?case by simp
next
  case (Cons e es)
  let ?P = "(primary s)[i + 1 := \<lparr>start_sect = pe_start_sect e, sect_cnt = nr_sects_pe e\<rparr>]"
  let ?s1 = "s\<lparr>primary := ?P\<rparr>"
  let ?L = "if sys_id e = EXT_PART then overlay (logical s) (16 * i) (ebr_chain (media (drive s)) 16 (pe_start_sect e)) else logical s"
  show ?case
  proof (cases "sys_id e = NO_PART")
    case True
    with Cons.prems Cons.IH [of s "i + 1" k] show ?thesis by simp
  next
    case False
    have start: "scanned s (?P, logical s) ?s1"
      unfolding scanned_def by (intro exI [of _ id] exI [of _ id]) (simp add: xferred_def upd_mem_def same_disk_def)
    obtain s2 where s2: "(if sys_id e = EXT_PART then read_logical_partitions (int i + 1) ?s1 else Inr ?s1) = Inr s2"
      "scanned s (?P, ?L) s2"
    proof (cases "sys_id e = EXT_PART")
      case True
      have "?P ! (i + 1) = \<lparr>start_sect = pe_start_sect e, sect_cnt = nr_sects_pe e\<rparr>" using Cons.prems by simp
      with read_logical_partitions_spec [of ?s1 i] Cons.prems
      obtain s2 where "read_logical_partitions (int i + 1) ?s1 = Inr s2"
        "scanned ?s1 (?P, overlay (logical s) (16 * i) (ebr_chain (media (drive s)) 16 (pe_start_sect e))) s2" by auto
      with True that scanned_trans [OF start] show ?thesis by simp
    qed (use start that in simp)
    have "length ?L = 64"
      using length_ebr_chain [of "media (drive s)" 16 "pe_start_sect e"] Cons.prems by simp
    then have "\<exists>s'. read_primary_loop 0 (i + 1) es (k + 1) s2 =
        Inr (k + 1 + length (filter (\<lambda>e. sys_id e \<noteq> NO_PART) es), s') \<and>
        scanned s2 (part_spec (media (drive s2)) (i + 1) es (primary s2, logical s2)) s'"
      using Cons.prems scanned_simps [OF s2(2)] by (intro Cons.IH) simp_all
    then obtain s' where s': "read_primary_loop 0 (i + 1) es (k + 1) s2 =
        Inr (k + 1 + length (filter (\<lambda>e. sys_id e \<noteq> NO_PART) es), s')"
      "scanned s2 (part_spec (media (drive s)) (i + 1) es (?P, ?L)) s'"
      using scanned_simps [OF s2(2)] by auto
    have step: "read_primary_loop 0 i (e # es) k s = read_primary_loop 0 (i + 1) es (k + 1) s2"
      using False s2(1) Cons.prems by (auto simp: Let_def split: if_splits)
    have spec: "part_spec (media (drive s)) i (e # es) (primary s, logical s) = part_spec (media (drive s)) (i + 1) es (?P, ?L)"
      "k + length (filter (\<lambda>e. sys_id e \<noteq> NO_PART) (e # es)) = k + 1 + length (filter (\<lambda>e. sys_id e \<noteq> NO_PART) es)"
      using False by simp_all
    show ?thesis unfolding spec step using s'(1) scanned_trans [OF s2(2) s'(2)] by blast
  qed
qed


lemma hd_identify_spec:
  assumes "\<not> busy (drive s)" "0 < length (primary s)"
  shows "\<exists>s'. hd_identify s = Inr s' \<and> scanned s ((primary s)[0 := \<lparr>start_sect = 0,
     sect_cnt = push_bit 16 (ucast (rd16 (ident (drive s)) 122)) + ucast (rd16 (ident (drive s)) 120)\<rparr>], logical s) s' \<and>
     open_cnt s' = open_cnt s"
proof -
  let ?c = "\<lparr>features = 0, count = 0, lba_low = 0, lba_mid = 0, lba_high = 0,
              device = MAKE_DEVICE_REG CHS_MODE 0 0, command = ATA_IDENTIFY\<rparr>"
  let ?g = "\<lambda>d. ata_next (ata_command ?c d)" and ?f = "load_sector (ident (drive s)) (hdbuf s)"
  let ?P = "(primary s)[0 := \<lparr>start_sect = 0,
     sect_cnt = push_bit 16 (ucast (rd16 (ident (drive s)) 122)) + ucast (rd16 (ident (drive s)) 120)\<rparr>]"
  have rd: "rd16 (load_sector d hb mm) (hb + 122) = rd16 d 122" "rd16 (load_sector d hb mm) (hb + 120) = rd16 d 120" for d hb mm
    by (simp_all add: rd16_def load_sector_def)
  have "hd_identify s = Inr ((xferred ?f ?g s)\<lparr>primary := ?P\<rparr>)"
    using assms by (simp add: hd_identify_def hd_cmd_out_def wait_for_hd_int_def Let_def ata_command_def ata_data_def
        read_hdbuf_xferred xferred_def upd_mem_def rd)
  moreover have "scanned s (?P, logical s) ((xferred ?f ?g s)\<lparr>primary := ?P\<rparr>)"
    unfolding scanned_def
    by (intro exI [of _ ?f] exI [of _ ?g], cases s) (simp add: same_disk_def load_sector_def xferred_def upd_mem_def)
  ultimately show ?thesis by auto
qed



section \<open>A sample drive\<close>

text \<open>A drive with one partition of type 0x99 that starts at sector 63, on a freshly cleared machine.\<close>

definition sample_mbr :: mem where
  "sample_mbr = (\<lambda>_. 0)(0x1C2 := 0x99, 0x1C6 := 63, 0x1CA := 100)"

definition sample_hd :: hdsys where
  "sample_hd = \<lparr>kern = sample_machine, open_cnt = 0,
     primary = replicate 5 \<lparr>start_sect = 0, sect_cnt = 0\<rparr>, logical = replicate 64 \<lparr>start_sect = 0, sect_cnt = 0\<rparr>,
     hd_status = 0, drive = \<lparr>media = (\<lambda>l. if l = 0 then sample_mbr else (\<lambda>o'. ucast l)), ident = (\<lambda>_. 1), busy = False,
       xfer_cmd = 0, xfer_lba = 0, xfer_left = 0\<rparr>, hdbuf = 0x40000, hd_info_addr = 0x41000\<rparr>"

lemma sample_hd_va2la: "pid < NR_TASKS_NATIVE + NR_PROCS_NATIVE \<Longrightarrow> 0 \<le> pid \<Longrightarrow> proc_va2la sample_machine pid a = Inr a"
  by (simp add: proc_va2la_def Let_def proc_at_def ldt_idx_to_base_addr_def sample_machine_def zero_proc_def zero_gdt_desc_def)

lemma sample_request:
  "hd_request (zero_msg\<lparr>type := ty, CNT := n, PROC_NR := 3, BUF := a, NR_DEV_MINOR := 1, POSITION := 1024\<rparr>) a 2 sample_hd"
  by (simp add: hd_request_def zero_msg_def sample_hd_def sample_hd_va2la part_of_minor_def DRIVE_OF_DEV_def nth_part_def
      signed_divide_int_def)


theorem disk_write_read_back_witness:
  "\<exists>s1 s2. hd_read_write (zero_msg\<lparr>type := DEV_WRITE, CNT := 1024, PROC_NR := 3, BUF := 0x600000, NR_DEV_MINOR := 1,
      POSITION := 1024\<rparr>) sample_hd = Inr s1 \<and>
    hd_read_write (zero_msg\<lparr>type := DEV_READ, CNT := 1024, PROC_NR := 3, BUF := 0x700000, NR_DEV_MINOR := 1,
      POSITION := 1024\<rparr>) s1 = Inr s2 \<and>
    read_bytes (kmem (kern s2)) 0x700000 1024 = read_bytes (kmem (kern sample_hd)) 0x600000 1024"
  using disk_write_read_back [OF sample_request [where ty = DEV_WRITE and n = 1024 and a = "0x600000"] _ _
      sample_request [where ty = DEV_READ and n = 1024 and a = "0x700000"], of 2]
  by (auto simp: apart_def sample_hd_def unat_u32_uminus)


end
