(* ===== verification/Fs.thy ===== *)
theory Fs
  imports Format Tty Hd
begin

text \<open>
  The file system task, its data and the lower half of \<^verbatim>\<open>src/task/fs/fs.c\<close>: the structures of
  \<^verbatim>\<open>src/include/sys/fs.h\<close>, sector input and output through the drivers, the super block table, the cache of
  inodes and what fork and exit do to open files.

  The state holds the disk driver's system (with the kernel and memory inside), the terminal task and
  the tables of \<^verbatim>\<open>src/include/sys/global.h\<close>. A pointer into a table is its index, a null pointer \<open>None\<close>. A message
  exchange with a driver is the driver's own turn (\<open>task_hd_round\<close>, \<open>tty_handle_msg\<close>); waiting for a reply
  that is not sent is \<open>Diverges\<close>. The buffer \<^verbatim>\<open>fsbuf\<close> is memory; local buffers of the task are byte lists. The
  debug output of the task is left out.
\<close>

unbundle bit_operations_syntax

section \<open>Structures\<close>

abbreviation (input) NR_FILE_DESC where "NR_FILE_DESC \<equiv> 64 :: nat"
abbreviation (input) NR_INODE where "NR_INODE \<equiv> 64 :: nat"
abbreviation (input) NR_SUPER_BLOCK where "NR_SUPER_BLOCK \<equiv> 8 :: nat"
abbreviation (input) INVALID_DRIVER where "INVALID_DRIVER \<equiv> - 20 :: int"
abbreviation (input) NR_MAJOR_NO_DEV where "NR_MAJOR_NO_DEV \<equiv> 0 :: int"
abbreviation (input) INVALID_INODE where "INVALID_INODE \<equiv> 0 :: int"
abbreviation (input) ROOT_INODE_NR where "ROOT_INODE_NR \<equiv> 1 :: int"
abbreviation (input) MAGIC_V1 where "MAGIC_V1 \<equiv> 0x111 :: u32"
abbreviation (input) MAX_FILENAME_LEN where "MAX_FILENAME_LEN \<equiv> 12 :: nat"
abbreviation (input) MAX_PATH where "MAX_PATH \<equiv> 128 :: int"
abbreviation (input) NR_FILE_SECTS where "NR_FILE_SECTS \<equiv> 2048 :: int"
abbreviation (input) TYPE_MASK where "TYPE_MASK \<equiv> 0xF000 :: u32"
abbreviation (input) TYPE_REGULAR where "TYPE_REGULAR \<equiv> 0x8000 :: u32"
abbreviation (input) TYPE_DIRECTORY where "TYPE_DIRECTORY \<equiv> 0x4000 :: u32"
abbreviation (input) TYPE_SPECIAL_BLOCK where "TYPE_SPECIAL_BLOCK \<equiv> 0x6000 :: u32"
abbreviation (input) TYPE_SPECIAL_CHAR where "TYPE_SPECIAL_CHAR \<equiv> 0x2000 :: u32"
abbreviation fsbuf where "fsbuf \<equiv> 0x600000 :: u32"

record super_block =
  magic :: u32
  nr_inodes :: u32
  nr_sects :: u32
  nr_inode_map_sects :: u32
  nr_sect_map_sects :: u32
  nr_1st_data_sect :: u32
  nr_inode_sects :: u32
  sb_root_inode :: u32
  inode_size :: u32
  inode_isize_off :: u32
  inode_start_off :: u32
  dir_ent_size :: u32
  dir_ent_inode_off :: u32
  dir_ent_fname_off :: u32
  sb_dev :: int

record inode =
  inode_file_type :: u32
  inode_file_size :: u32
  inode_sect_start :: u32
  inode_nr_sects :: u32
  inode_dev :: int
  inode_cnt :: int
  inode_nr :: int

record file_desc =
  fd_mode :: int
  fd_pos :: int
  fd_cnt :: int
  fd_inode :: "nat option"

record fs =
  hds :: hdsys
  ttys :: tty_task
  file_desc_table :: "file_desc list"
  inode_table :: "inode list"
  super_block_table :: "super_block list"
  fs_msg :: message
  caller_proc :: int
  root_inode :: "nat option"

abbreviation fkern :: "fs \<Rightarrow> kernel" where
  "fkern s \<equiv> kern (hds s)"

abbreviation fmem :: "fs \<Rightarrow> mem" where
  "fmem s \<equiv> kmem (fkern s)"

definition upd_kern :: "(kernel \<Rightarrow> kernel) \<Rightarrow> fs \<Rightarrow> fs" where
  "upd_kern f s = s\<lparr>hds := (hds s)\<lparr>kern := f (fkern s)\<rparr>\<rparr>"

definition upd_fmem :: "(mem \<Rightarrow> mem) \<Rightarrow> fs \<Rightarrow> fs" where
  "upd_fmem f s = s\<lparr>hds := upd_mem f (hds s)\<rparr>"

definition upd_inode :: "nat \<Rightarrow> (inode \<Rightarrow> inode) \<Rightarrow> fs \<Rightarrow> fs" where
  "upd_inode i f s = s\<lparr>inode_table := (inode_table s)[i := f (inode_table s ! i)]\<rparr>"

definition upd_fd :: "nat \<Rightarrow> (file_desc \<Rightarrow> file_desc) \<Rightarrow> fs \<Rightarrow> fs" where
  "upd_fd i f s = s\<lparr>file_desc_table := (file_desc_table s)[i := f (file_desc_table s ! i)]\<rparr>"

text \<open>Following a pointer into a table: null or outside of it is an error.\<close>

definition deref :: "'a list \<Rightarrow> nat option \<Rightarrow> nat outcome" where
  "deref tbl p = (case p of None \<Rightarrow> Inl NullDeref | Some i \<Rightarrow> if i < length tbl then Inr i else Inl OutOfBounds)"

section \<open>Drivers\<close>

definition GET_DEV_MAJOR_NR :: "int \<Rightarrow> int" where
  "GET_DEV_MAJOR_NR x = x div 256 mod 256"

definition GET_DEV_MINOR_NR :: "int \<Rightarrow> int" where
  "GET_DEV_MINOR_NR x = x mod 256"

definition MAKE_DEV_NR :: "int \<Rightarrow> int \<Rightarrow> int" where
  "MAKE_DEV_NR a b = push_bit 8 a OR b"

definition ROOT_DEV_NR :: int where
  "ROOT_DEV_NR = MAKE_DEV_NR 3 MINOR_NR_hd2a"

definition dev_drv_map :: "int list" where
  "dev_drv_map = [INVALID_DRIVER, INVALID_DRIVER, INVALID_DRIVER, TASK_HD, TASK_TTY, INVALID_DRIVER]"

definition driver_of :: "int \<Rightarrow> int outcome" where
  "driver_of dev =
     (let m = nat (GET_DEV_MAJOR_NR dev)
      in if m < length dev_drv_map then Inr (dev_drv_map ! m) else Inl OutOfBounds)"

text \<open>The terminal task serves a request of the file system: it works on the kernel's memory and screen,
  and the file system goes on with the reply addressed to it.\<close>

definition tty_exchange :: "message \<Rightarrow> fs \<Rightarrow> (message \<times> fs) outcome" where
  "tty_exchange msg s =
     obind (tty_handle_msg (proc_va2la (fkern s)) msg
              ((ttys s)\<lparr>tmem := fmem s, tscreen := screen (fkern s), tsent := []\<rparr>)) (\<lambda>t.
       case tsent t of
         [(dest, reply)] \<Rightarrow>
           if dest = TASK_FS then
             Inr (reply\<lparr>source := TASK_TTY\<rparr>,
                  upd_kern (\<lambda>k. k\<lparr>kmem := tmem t, screen := tscreen t\<rparr>) (s\<lparr>ttys := t\<lparr>tsent := []\<rparr>\<rparr>))
           else Inl Diverges
       | _ \<Rightarrow> Inl Diverges)"

text \<open>\<^verbatim>\<open>ipc_msg_send_rcv(SEND_RECEIVE, driver, &msg)\<close> by the file system task.\<close>

definition drv_call :: "int \<Rightarrow> message \<Rightarrow> fs \<Rightarrow> (message \<times> fs) outcome" where
  "drv_call drv msg s =
     (let m = msg\<lparr>source := TASK_FS\<rparr>
      in if drv = TASK_HD then obind (task_hd_round m (hds s)) (\<lambda>(reply, h). Inr (reply, s\<lparr>hds := h\<rparr>))
         else if drv = TASK_TTY then tty_exchange m s
         else Inl Diverges)"

definition rd_wr_sector :: "int \<Rightarrow> int \<Rightarrow> u64 \<Rightarrow> int \<Rightarrow> int \<Rightarrow> u32 \<Rightarrow> fs \<Rightarrow> fs outcome" where
  "rd_wr_sector io_type dev_nr pos bytes proc_nr buf s =
     obind (driver_of dev_nr) (\<lambda>drv.
       c_assert (drv \<noteq> INVALID_DRIVER)
         (obind (drv_call drv (zero_msg\<lparr>type := io_type, NR_DEV_MINOR := GET_DEV_MINOR_NR dev_nr, POSITION := pos,
                    BUF := buf, CNT := bytes, PROC_NR := proc_nr\<rparr>) s) (\<lambda>(_, s'). Inr s')))"

text \<open>
  The sector macros multiply in the type of the sector number: \<open>spos\<close> for an \<^verbatim>\<open>int\<close> (the product wraps at 32
  bits and is sign-extended to the 64-bit position), \<open>upos\<close> for a \<^verbatim>\<open>u32\<close>.
\<close>

definition spos :: "int \<Rightarrow> u64" where
  "spos n = word_of_int (s32 (n * SECTOR_SIZE))"

definition upos :: "u32 \<Rightarrow> u64" where
  "upos n = ucast (n * 512)"

definition RD_SECTS :: "int \<Rightarrow> u64 \<Rightarrow> int \<Rightarrow> fs \<Rightarrow> fs outcome" where
  "RD_SECTS dev pos sect_size = rd_wr_sector DEV_READ dev pos (sect_size * SECTOR_SIZE) TASK_FS fsbuf"

definition WR_SECTS :: "int \<Rightarrow> u64 \<Rightarrow> int \<Rightarrow> fs \<Rightarrow> fs outcome" where
  "WR_SECTS dev pos sect_size = rd_wr_sector DEV_WRITE dev pos (sect_size * SECTOR_SIZE) TASK_FS fsbuf"

definition RD_SECT :: "int \<Rightarrow> u64 \<Rightarrow> fs \<Rightarrow> fs outcome" where
  "RD_SECT dev pos = RD_SECTS dev pos 1"

definition WR_SECT :: "int \<Rightarrow> u64 \<Rightarrow> fs \<Rightarrow> fs outcome" where
  "WR_SECT dev pos = WR_SECTS dev pos 1"

section \<open>Super blocks\<close>

definition super_block_at :: "mem \<Rightarrow> u32 \<Rightarrow> super_block" where
  "super_block_at mm a = \<lparr>magic = rd32 mm a, nr_inodes = rd32 mm (a + 4), nr_sects = rd32 mm (a + 8),
     nr_inode_map_sects = rd32 mm (a + 12), nr_sect_map_sects = rd32 mm (a + 16), nr_1st_data_sect = rd32 mm (a + 20),
     nr_inode_sects = rd32 mm (a + 24), sb_root_inode = rd32 mm (a + 28), inode_size = rd32 mm (a + 32),
     inode_isize_off = rd32 mm (a + 36), inode_start_off = rd32 mm (a + 40), dir_ent_size = rd32 mm (a + 44),
     dir_ent_inode_off = rd32 mm (a + 48), dir_ent_fname_off = rd32 mm (a + 52), sb_dev = sint (rd32 mm (a + 56))\<rparr>"

fun find_sb :: "int \<Rightarrow> super_block list \<Rightarrow> nat \<Rightarrow> nat option" where
  "find_sb dev [] i = None"
| "find_sb dev (sb # sbs) i = (if sb_dev sb = dev then Some i else find_sb dev sbs (i + 1))"

definition read_super_block :: "int \<Rightarrow> fs \<Rightarrow> fs outcome" where
  "read_super_block dev_nr s =
     obind (RD_SECT dev_nr (spos 1) s) (\<lambda>s1.
       case find_sb NR_MAJOR_NO_DEV (super_block_table s1) 0 of
         None \<Rightarrow> Inl PanicFail
       | Some slot_idx \<Rightarrow> c_assert (slot_idx = 0)
           (Inr (s1\<lparr>super_block_table := (super_block_table s1)[slot_idx :=
              (super_block_at (fmem s1) fsbuf)\<lparr>sb_dev := dev_nr\<rparr>]\<rparr>)))"

definition get_super_block :: "int \<Rightarrow> fs \<Rightarrow> super_block outcome" where
  "get_super_block dev_nr s =
     (case find_sb dev_nr (super_block_table s) 0 of
        None \<Rightarrow> Inl PanicFail | Some i \<Rightarrow> Inr (super_block_table s ! i))"

section \<open>Inodes\<close>

text \<open>Where the inode array keeps an inode: the sector, and the address in the buffer it is read to.\<close>

definition inode_sect :: "super_block \<Rightarrow> int \<Rightarrow> int" where
  "inode_sect sb nr = sint (1 + 1 + nr_inode_map_sects sb + nr_sect_map_sects sb + word_of_int ((nr - 1) sdiv 16))"

definition inode_addr :: "int \<Rightarrow> u32" where
  "inode_addr nr = fsbuf + word_of_int ((nr - 1) smod 16 * 32)"

text \<open>The scan of the cache: a hit, or else the first free slot.\<close>

fun find_inode :: "int \<Rightarrow> int \<Rightarrow> inode list \<Rightarrow> nat \<Rightarrow> nat option \<Rightarrow> nat + nat option" where
  "find_inode dev nr [] i q = Inr q"
| "find_inode dev nr (p # ps) i q =
     (if inode_cnt p \<noteq> 0 then
        (if inode_dev p = dev \<and> inode_nr p = nr then Inl i else find_inode dev nr ps (i + 1) q)
      else find_inode dev nr ps (i + 1) (if q = None then Some i else q))"

definition get_file_inode :: "int \<Rightarrow> int \<Rightarrow> fs \<Rightarrow> (nat option \<times> fs) outcome" where
  "get_file_inode dev nr s =
     (if nr = 0 then Inr (None, s)
      else case find_inode dev nr (inode_table s) 0 None of
        Inl i \<Rightarrow> Inr (Some i, upd_inode i (\<lambda>p. p\<lparr>inode_cnt := inode_cnt p + 1\<rparr>) s)
      | Inr None \<Rightarrow> Inl PanicFail
      | Inr (Some q) \<Rightarrow>
          let s1 = upd_inode q (\<lambda>p. p\<lparr>inode_dev := dev, inode_nr := nr, inode_cnt := 1\<rparr>) s
          in obind (get_super_block dev s1) (\<lambda>sb.
             obind (RD_SECT dev (spos (inode_sect sb nr)) s1) (\<lambda>s2.
             let mm = fmem s2; a = inode_addr nr
             in Inr (Some q, upd_inode q (\<lambda>p. p\<lparr>inode_file_type := rd32 mm a, inode_file_size := rd32 mm (a + 4),
                  inode_sect_start := rd32 mm (a + 8), inode_nr_sects := rd32 mm (a + 12)\<rparr>) s2))))"

definition put_inode :: "nat option \<Rightarrow> fs \<Rightarrow> fs outcome" where
  "put_inode p s =
     obind (deref (inode_table s) p) (\<lambda>i.
       c_assert (inode_cnt (inode_table s ! i) > 0)
         (Inr (upd_inode i (\<lambda>p. p\<lparr>inode_cnt := inode_cnt p - 1\<rparr>) s)))"

definition store_inode :: "inode \<Rightarrow> u32 \<Rightarrow> mem \<Rightarrow> mem" where
  "store_inode p a mm = wr32 (wr32 (wr32 (wr32 mm a (inode_file_type p)) (a + 4) (inode_file_size p))
     (a + 8) (inode_sect_start p)) (a + 12) (inode_nr_sects p)"

definition write_inode :: "nat \<Rightarrow> fs \<Rightarrow> fs outcome" where
  "write_inode i s =
     (let p = inode_table s ! i
      in obind (get_super_block (inode_dev p) s) (\<lambda>sb.
         let pos = spos (inode_sect sb (inode_nr p))
         in obind (RD_SECT (inode_dev p) pos s) (\<lambda>s1.
            WR_SECT (inode_dev p) pos (upd_fmem (store_inode p (inode_addr (inode_nr p))) s1))))"

section \<open>Processes that share open files\<close>

fun fork_files :: "nat option list \<Rightarrow> fs \<Rightarrow> fs outcome" where
  "fork_files [] s = Inr s"
| "fork_files (None # fds) s = fork_files fds s"
| "fork_files (Some d # fds) s =
     obind (deref (file_desc_table s) (Some d)) (\<lambda>_.
       let s1 = upd_fd d (\<lambda>f. f\<lparr>fd_cnt := fd_cnt f + 1\<rparr>) s
       in obind (deref (inode_table s1) (fd_inode (file_desc_table s1 ! d))) (\<lambda>i.
            fork_files fds (upd_inode i (\<lambda>p. p\<lparr>inode_cnt := inode_cnt p + 1\<rparr>) s1)))"

definition fs_fork :: "fs \<Rightarrow> (int \<times> fs) outcome" where
  "fs_fork s = obind (fork_files (file_desc (proc_at (fkern s) (PID (fs_msg s)))) s) (\<lambda>s'. Inr (0, s'))"

definition set_file_desc :: "int \<Rightarrow> nat \<Rightarrow> nat option \<Rightarrow> fs \<Rightarrow> fs" where
  "set_file_desc pid fd d s = upd_kern (upd_proc pid (\<lambda>P. P\<lparr>file_desc := (file_desc P)[fd := d]\<rparr>)) s"

fun exit_files :: "int \<Rightarrow> nat \<Rightarrow> nat option list \<Rightarrow> fs \<Rightarrow> fs outcome" where
  "exit_files pid fd [] s = Inr s"
| "exit_files pid fd (None # fds) s = exit_files pid (fd + 1) fds s"
| "exit_files pid fd (Some d # fds) s =
     obind (deref (file_desc_table s) (Some d)) (\<lambda>_.
     obind (deref (inode_table s) (fd_inode (file_desc_table s ! d))) (\<lambda>i.
       let s1 = upd_inode i (\<lambda>p. p\<lparr>inode_cnt := inode_cnt p - 1\<rparr>) s;
           s2 = upd_fd d (\<lambda>f. f\<lparr>fd_cnt := fd_cnt f - 1\<rparr>) s1;
           s3 = (if fd_cnt (file_desc_table s2 ! d) = 0 then upd_fd d (\<lambda>f. f\<lparr>fd_inode := None\<rparr>) s2 else s2)
       in exit_files pid (fd + 1) fds (set_file_desc pid fd None s3)))"

definition fs_exit :: "fs \<Rightarrow> (int \<times> fs) outcome" where
  "fs_exit s =
     (let pid = PID (fs_msg s)
      in obind (exit_files pid 0 (file_desc (proc_at (fkern s) pid)) s) (\<lambda>s'. Inr (0, s')))"

end
