(* ===== verification/FsOps.thy ===== *)
theory FsOps
  imports Fs
begin

text \<open>
  The requests the file system task serves: path lookup (\<^verbatim>\<open>src/task/fs/misc.c\<close>), open, close and lseek with the
  allocation of inodes and sectors (\<^verbatim>\<open>open_close.c\<close>), read and write (\<^verbatim>\<open>read_write.c\<close>), unlink (\<^verbatim>\<open>unlink.c\<close>), stat
  (\<^verbatim>\<open>stat.c\<close>) and the message loop (\<^verbatim>\<open>src/task/task_fs.c\<close>).

  A request returns its value with the new state. The path a caller passes is the byte list copied from
  its memory. \<^verbatim>\<open>task_fs.c\<close> does not include \<^verbatim>\<open>config.h\<close>, so its disk log block is not compiled.
\<close>

unbundle bit_operations_syntax

abbreviation (input) O_CREAT where "O_CREAT \<equiv> 1 :: int"
abbreviation (input) O_RDWR where "O_RDWR \<equiv> 2 :: int"
abbreviation (input) O_TRUNC where "O_TRUNC \<equiv> 4 :: int"
abbreviation (input) SEEK_SET where "SEEK_SET \<equiv> 1 :: int"
abbreviation (input) SEEK_CUR where "SEEK_CUR \<equiv> 2 :: int"
abbreviation (input) SEEK_END where "SEEK_END \<equiv> 3 :: int"
abbreviation (input) FS_BUF_SIZE where "FS_BUF_SIZE \<equiv> 0x100000 :: int"

section \<open>Paths\<close>

text \<open>\<^verbatim>\<open>get_file_name\<close>: the name after an optional slash, cut after twelve characters; \<open>None\<close> is its result -1.\<close>

fun file_name_loop :: "u8 list \<Rightarrow> nat \<Rightarrow> u8 list option" where
  "file_name_loop [] k = Some []"
| "file_name_loop (c # cs) k =
     (if c = 0 then Some []
      else if c = 47 then None
      else if k + 1 \<ge> MAX_FILENAME_LEN then Some [c]
      else map_option ((#) c) (file_name_loop cs (k + 1)))"

definition get_file_name :: "u8 list \<Rightarrow> u8 list option" where
  "get_file_name full_path =
     (case full_path of c # cs \<Rightarrow> file_name_loop (if c = 47 then cs else full_path) 0 | [] \<Rightarrow> file_name_loop [] 0)"

text \<open>The entries of one directory sector in the buffer: the inode number of the name, or how many entries
  have been counted.\<close>

definition entry_name :: "mem \<Rightarrow> u32 \<Rightarrow> u8 list" where
  "entry_name mm a = read_bytes mm (a + 4) MAX_FILENAME_LEN"

definition entry_inode :: "mem \<Rightarrow> u32 \<Rightarrow> int" where
  "entry_inode mm a = sint (rd32 mm a)"

definition padded_name :: "u8 list \<Rightarrow> u8 list" where
  "padded_name nm = take MAX_FILENAME_LEN (nm @ replicate MAX_FILENAME_LEN 0)"

fun lookup_sector :: "mem \<Rightarrow> u8 list \<Rightarrow> int \<Rightarrow> nat \<Rightarrow> u32 \<Rightarrow> int \<Rightarrow> int option \<times> int" where
  "lookup_sector mm nm nr_dir_entries 0 p_de de_idx = (None, de_idx)"
| "lookup_sector mm nm nr_dir_entries (Suc j) p_de de_idx =
     (if entry_name mm p_de = padded_name nm then (Some (entry_inode mm p_de), de_idx)
      else if de_idx + 1 > nr_dir_entries then (None, de_idx + 1)
      else lookup_sector mm nm nr_dir_entries j (p_de + 16) (de_idx + 1))"

fun lookup_loop :: "int \<Rightarrow> int \<Rightarrow> u8 list \<Rightarrow> int \<Rightarrow> nat \<Rightarrow> int \<Rightarrow> int \<Rightarrow> fs \<Rightarrow> (int \<times> fs) outcome" where
  "lookup_loop dev sect0 nm nr_dir_entries 0 i de_idx s = Inr (INVALID_INODE, s)"
| "lookup_loop dev sect0 nm nr_dir_entries (Suc n) i de_idx s =
     obind (RD_SECT dev (spos (s32 (sect0 + i))) s) (\<lambda>s1.
       case lookup_sector (fmem s1) nm nr_dir_entries 32 fsbuf de_idx of
         (Some nr, _) \<Rightarrow> Inr (nr, s1)
       | (None, de_idx') \<Rightarrow>
           if de_idx' > nr_dir_entries then Inr (INVALID_INODE, s1)
           else lookup_loop dev sect0 nm nr_dir_entries n (i + 1) de_idx' s1)"

definition get_file_inode_nr :: "u8 list \<Rightarrow> fs \<Rightarrow> (int \<times> fs) outcome" where
  "get_file_inode_nr path s =
     (case get_file_name path of
        None \<Rightarrow> Inr (INVALID_INODE, s)
      | Some nm \<Rightarrow>
          obind (deref (inode_table s) (root_inode s)) (\<lambda>r.
          let root = inode_table s ! r
          in if nm = [] then Inr (inode_nr root, s)
             else lookup_loop (inode_dev root) (sint (inode_sect_start root)) nm
                    (sint (inode_file_size root div 16))
                    (nat (sint ((inode_file_size root + 512 - 1) div 512))) 0 0 s))"

text \<open>The path of a request, copied from the caller. The local buffers of the task are on its stack; the
  translation of their addresses only checks that the task's segments start at 0.\<close>

definition get_pathname :: "fs \<Rightarrow> u8 list outcome" where
  "get_pathname s =
     (let name_len = NAME_LEN (fs_msg s)
      in c_assert (name_len < MAX_PATH)
        (obind (proc_va2la (fkern s) TASK_FS fsbuf) (\<lambda>_.
         obind (proc_va2la (fkern s) (source (fs_msg s)) (PATHNAME (fs_msg s))) (\<lambda>la.
         if name_len < 0 then Inl OutOfBounds
         else Inr (read_bytes (fmem s) la (nat name_len))))))"

section \<open>Allocation\<close>

text \<open>The lowest clear bit of a byte that is not full.\<close>

fun clear_bit_loop :: "u8 \<Rightarrow> nat \<Rightarrow> nat \<Rightarrow> nat" where
  "clear_bit_loop b 0 k = k"
| "clear_bit_loop b (Suc n) k = (if drop_bit k b AND 1 \<noteq> 0 then clear_bit_loop b n (k + 1) else k)"

abbreviation lowest_clear :: "u8 \<Rightarrow> nat" where
  "lowest_clear b \<equiv> clear_bit_loop b 8 0"

fun find_free_byte :: "mem \<Rightarrow> nat \<Rightarrow> nat \<Rightarrow> nat option" where
  "find_free_byte mm j 0 = None"
| "find_free_byte mm j (Suc n) = (if mm (fsbuf + of_nat j) = 0xFF then find_free_byte mm (j + 1) n else Some j)"

text \<open>\<^verbatim>\<open>alloc_inode_map_bit\<close>: the \<^verbatim>\<open>return\<close> is inside the loop, so only the first map sector is looked at.\<close>

definition alloc_inode_map_bit :: "int \<Rightarrow> fs \<Rightarrow> (int \<times> fs) outcome" where
  "alloc_inode_map_bit dev s =
     obind (get_super_block dev s) (\<lambda>sb.
       if nr_inode_map_sects sb = 0 then Inl PanicFail
       else obind (RD_SECT dev (spos 2) s) (\<lambda>s1.
         case find_free_byte (fmem s1) 0 512 of
           None \<Rightarrow> Inr (0, s1)
         | Some j \<Rightarrow>
             let a = fsbuf + of_nat j; k = lowest_clear (fmem s1 a)
             in obind (WR_SECT dev (spos 2) (upd_fmem (\<lambda>mm. mm(a := mm a OR push_bit k 1)) s1)) (\<lambda>s2.
                  Inr (int (j * 8 + k), s2))))"

text \<open>\<^verbatim>\<open>alloc_sect_map_bit\<close>: set the bits of a byte from bit \<open>k\<close> on, each of which must be clear.\<close>

fun set_bits :: "nat \<Rightarrow> u8 \<Rightarrow> nat \<Rightarrow> int \<Rightarrow> (u8 \<times> int) outcome" where
  "set_bits 0 b k left = Inr (b, left)"
| "set_bits (Suc n) b k left =
     c_assert (drop_bit k b AND 1 = 0)
       (let b' = b OR push_bit k 1
        in if left - 1 = 0 then Inr (b', 0) else set_bits n b' (k + 1) (left - 1))"

fun alloc_bytes :: "super_block \<Rightarrow> int \<Rightarrow> nat \<Rightarrow> nat \<Rightarrow> mem \<Rightarrow> int \<Rightarrow> int \<Rightarrow> (mem \<times> int \<times> int) outcome" where
  "alloc_bytes sb i j 0 mm alloc left = Inr (mm, alloc, left)"
| "alloc_bytes sb i j (Suc n) mm alloc left =
     (if left > 0 then
        let a = fsbuf + of_nat j
        in if alloc = 0 \<and> mm a = 0xFF then alloc_bytes sb i (j + 1) n mm alloc left
           else let k = (if alloc = 0 then lowest_clear (mm a) else 0);
                    alloc' = (if alloc = 0 then sint (word_of_int ((i * 512 + int j) * 8 + int k - 1) + nr_1st_data_sect sb) else alloc)
             in case set_bits (8 - k) (mm a) k left of
                  Inl e \<Rightarrow> Inl e
                | Inr (b, left') \<Rightarrow> alloc_bytes sb i (j + 1) n (mm(a := b)) alloc' left'
      else Inr (mm, alloc, left))"

fun alloc_sects_loop :: "int \<Rightarrow> super_block \<Rightarrow> nat \<Rightarrow> int \<Rightarrow> int \<Rightarrow> int \<Rightarrow> fs \<Rightarrow> (int \<times> fs) outcome" where
  "alloc_sects_loop dev sb 0 i alloc left s = c_assert (left = 0) (Inr (alloc, s))"
| "alloc_sects_loop dev sb (Suc n) i alloc left s =
     (let pos = spos (sint (1 + 1 + nr_inode_map_sects sb) + i)
      in obind (RD_SECT dev pos s) (\<lambda>s1.
         obind (alloc_bytes sb i 0 512 (fmem s1) alloc left) (\<lambda>(mm, alloc', left').
         let s2 = upd_fmem (\<lambda>_. mm) s1
         in obind (if alloc' \<noteq> 0 then WR_SECT dev pos s2 else Inr s2) (\<lambda>s3.
            if left' = 0 then Inr (alloc', s3)
            else alloc_sects_loop dev sb n (i + 1) alloc' left' s3))))"

definition alloc_sect_map_bit :: "int \<Rightarrow> int \<Rightarrow> fs \<Rightarrow> (int \<times> fs) outcome" where
  "alloc_sect_map_bit dev nr_sects_to_alloc s =
     obind (get_super_block dev s) (\<lambda>sb.
       alloc_sects_loop dev sb (unat (nr_sect_map_sects sb)) 0 0 nr_sects_to_alloc s)"

definition make_new_inode :: "int \<Rightarrow> int \<Rightarrow> int \<Rightarrow> fs \<Rightarrow> (nat \<times> fs) outcome" where
  "make_new_inode dev nr first_sect s =
     obind (get_file_inode dev nr s) (\<lambda>(p, s1).
     obind (deref (inode_table s1) p) (\<lambda>i.
       let s2 = upd_inode i (\<lambda>q. q\<lparr>inode_file_type := TYPE_REGULAR, inode_file_size := 0,
                  inode_sect_start := word_of_int first_sect, inode_nr_sects := word_of_int NR_FILE_SECTS,
                  inode_dev := dev, inode_cnt := 1, inode_nr := nr\<rparr>) s1
       in obind (write_inode i s2) (\<lambda>s3. Inr (i, s3))))"

text \<open>The search of a directory sector for a free entry: whether one was found, where, and the count.\<close>

fun free_entry_sector :: "mem \<Rightarrow> int \<Rightarrow> nat \<Rightarrow> u32 \<Rightarrow> int \<Rightarrow> bool \<times> u32 \<times> int" where
  "free_entry_sector mm nr_dir_entries 0 p_de de_idx = (False, p_de, de_idx)"
| "free_entry_sector mm nr_dir_entries (Suc j) p_de de_idx =
     (if de_idx + 1 > nr_dir_entries then (False, p_de, de_idx + 1)
      else if entry_inode mm p_de = 0 then (True, p_de, de_idx + 1)
      else free_entry_sector mm nr_dir_entries j (p_de + 16) (de_idx + 1))"

fun free_entry_loop :: "int \<Rightarrow> int \<Rightarrow> int \<Rightarrow> nat \<Rightarrow> int \<Rightarrow> u32 option \<Rightarrow> int \<Rightarrow> fs \<Rightarrow> (bool \<times> u32 option \<times> int \<times> fs) outcome" where
  "free_entry_loop dev sect0 nr_dir_entries 0 sect_idx p_de de_idx s = Inr (False, p_de, sect_idx, s)"
| "free_entry_loop dev sect0 nr_dir_entries (Suc n) sect_idx p_de de_idx s =
     obind (RD_SECT dev (spos (s32 (sect0 + sect_idx))) s) (\<lambda>s1.
       let (found, p, de_idx') = free_entry_sector (fmem s1) nr_dir_entries 32 fsbuf de_idx
       in if found \<or> de_idx' > nr_dir_entries then Inr (found, Some p, sect_idx, s1)
          else free_entry_loop dev sect0 nr_dir_entries n (sect_idx + 1) (Some p) de_idx' s1)"

definition make_new_dir_entry :: "nat \<Rightarrow> int \<Rightarrow> u8 list \<Rightarrow> fs \<Rightarrow> fs outcome" where
  "make_new_dir_entry r nr filename s =
     (let root = inode_table s ! r; sect0 = sint (inode_sect_start root)
      in obind (free_entry_loop (inode_dev root) sect0 (sint (inode_file_size root div 16))
                  (nat (sint ((inode_file_size root + 512) div 512))) 0 None 0 s) (\<lambda>(found, p, sect_idx, s1).
         case p of None \<Rightarrow> Inl NullDeref
         | Some p_de \<Rightarrow>
           let s2 = (if found then s1 else upd_inode r (\<lambda>q. q\<lparr>inode_file_size := inode_file_size q + 16\<rparr>) s1);
               s3 = upd_fmem (\<lambda>mm. write_bytes (wr32 mm p_de (word_of_int nr)) (p_de + 4) (filename @ [0])) s2
           in obind (WR_SECT (inode_dev root) (spos (s32 (sect0 + sect_idx))) s3) (\<lambda>s4. write_inode r s4)))"

definition create_file :: "u8 list \<Rightarrow> fs \<Rightarrow> (nat option \<times> fs) outcome" where
  "create_file full_path s =
     (case get_file_name full_path of
        None \<Rightarrow> Inr (None, s)
      | Some filename \<Rightarrow>
          obind (deref (inode_table s) (root_inode s)) (\<lambda>r.
          let dev = inode_dev (inode_table s ! r)
          in obind (alloc_inode_map_bit dev s) (\<lambda>(nr, s1).
             obind (alloc_sect_map_bit dev NR_FILE_SECTS s1) (\<lambda>(sect, s2).
             obind (make_new_inode dev nr sect s2) (\<lambda>(i, s3).
             obind (make_new_dir_entry r (inode_nr (inode_table s3 ! i)) filename s3) (\<lambda>s4.
               Inr (Some i, s4)))))))"

section \<open>Open, close and seek\<close>

fun first_none :: "'a option list \<Rightarrow> nat \<Rightarrow> nat option" where
  "first_none [] i = None"
| "first_none (x # xs) i = (if x = None then Some i else first_none xs (i + 1))"

text \<open>Which inode an open request is for: \<open>None\<close> when the request is refused.\<close>

definition open_inode :: "u8 list \<Rightarrow> int \<Rightarrow> int \<Rightarrow> fs \<Rightarrow> (nat option \<times> fs) outcome" where
  "open_inode pathname flags nr s =
     (if nr = INVALID_INODE then
        (if flags AND O_CREAT \<noteq> 0 then create_file pathname s else Inr (None, s))
      else if flags AND O_RDWR \<noteq> 0 then
        (if flags AND O_CREAT \<noteq> 0 \<and> flags AND O_TRUNC = 0 then
           c_assert (flags = O_RDWR OR O_CREAT) (Inr (None, s))
         else c_assert (flags = O_RDWR \<or> flags = O_RDWR OR O_TRUNC \<or> flags = O_RDWR OR O_TRUNC OR O_CREAT)
           (case get_file_name pathname of
              None \<Rightarrow> Inr (None, s)
            | Some _ \<Rightarrow> obind (deref (inode_table s) (root_inode s)) (\<lambda>r.
                get_file_inode (inode_dev (inode_table s ! r)) nr s)))
      else Inr (None, s))"

text \<open>Connect the process with a descriptor and the descriptor with the inode, and open the device of a
  character special file.\<close>

definition connect_file :: "nat \<Rightarrow> nat \<Rightarrow> nat \<Rightarrow> int \<Rightarrow> fs \<Rightarrow> fs outcome" where
  "connect_file fd d i flags s =
     (let s1 = upd_fd d (\<lambda>f. f\<lparr>fd_inode := Some i, fd_mode := flags, fd_cnt := 1, fd_pos := 0\<rparr>)
                 (set_file_desc (caller_proc s) fd (Some d) s);
          p = inode_table s1 ! i; imode = inode_file_type p AND TYPE_MASK
      in if imode = TYPE_SPECIAL_CHAR then
           (let dev = sint (inode_sect_start p)
            in c_assert (GET_DEV_MAJOR_NR dev = 4)
              (obind (driver_of dev) (\<lambda>drv.
               c_assert (drv \<noteq> INVALID_DRIVER)
                 (obind (drv_call drv (zero_msg\<lparr>type := DEV_OPEN, NR_DEV_MINOR := GET_DEV_MINOR_NR dev\<rparr>) s1)
                   (\<lambda>(_, s2). Inr s2)))))
         else if imode = TYPE_DIRECTORY then c_assert (inode_nr p = ROOT_INODE_NR) (Inr s1)
         else c_assert (inode_file_type p = TYPE_REGULAR) (Inr s1))"

text \<open>The early returns of \<^verbatim>\<open>do_open\<close> leave before the descriptor is looked for; a failed \<^verbatim>\<open>create_file\<close> goes on
  to it.\<close>

definition open_returns_early :: "u8 list \<Rightarrow> int \<Rightarrow> int \<Rightarrow> bool" where
  "open_returns_early pathname flags nr \<longleftrightarrow>
     (if nr = INVALID_INODE then flags AND O_CREAT = 0
      else flags AND O_RDWR = 0 \<or> (flags AND O_CREAT \<noteq> 0 \<and> flags AND O_TRUNC = 0) \<or> get_file_name pathname = None)"

definition do_open :: "fs \<Rightarrow> (int \<times> fs) outcome" where
  "do_open s =
     (let flags = FLAGS (fs_msg s)
      in obind (get_pathname s) (\<lambda>pathname.
         case first_none (file_desc (proc_at (fkern s) (caller_proc s))) 0 of
           None \<Rightarrow> Inl PanicFail
         | Some fd \<Rightarrow>
             obind (get_file_inode_nr pathname s) (\<lambda>(nr, s1).
             obind (open_inode pathname flags nr s1) (\<lambda>(p, s2).
             if open_returns_early pathname flags nr then Inr (-1, s2)
             else obind (if flags AND O_TRUNC \<noteq> 0 then
                           c_assert (p \<noteq> None)
                             (let i = the p in write_inode i (upd_inode i (\<lambda>q. q\<lparr>inode_file_size := 0\<rparr>) s2))
                         else Inr s2) (\<lambda>s3.
               case first_none (map fd_inode (file_desc_table s3)) 0 of
                 None \<Rightarrow> Inl PanicFail
               | Some d \<Rightarrow>
                   case p of None \<Rightarrow> Inr (-1, s3)
                   | Some i \<Rightarrow> obind (connect_file fd d i flags s3) (\<lambda>s4. Inr (int fd, s4)))))))"

text \<open>The descriptor a request names: \<^verbatim>\<open>caller_proc->file_desc[fd]\<close>, followed.\<close>

definition caller_fd :: "int \<Rightarrow> fs \<Rightarrow> nat outcome" where
  "caller_fd fd s =
     (let fds = file_desc (proc_at (fkern s) (caller_proc s))
      in if 0 \<le> fd \<and> fd < int (length fds) then deref (file_desc_table s) (fds ! nat fd) else Inl OutOfBounds)"

definition do_close :: "fs \<Rightarrow> (int \<times> fs) outcome" where
  "do_close s =
     (let fd = FD (fs_msg s)
      in obind (caller_fd fd s) (\<lambda>d.
         obind (put_inode (fd_inode (file_desc_table s ! d)) s) (\<lambda>s1.
         let s2 = upd_fd d (\<lambda>f. f\<lparr>fd_cnt := fd_cnt f - 1\<rparr>) s1;
             s3 = (if fd_cnt (file_desc_table s2 ! d) = 0 then upd_fd d (\<lambda>f. f\<lparr>fd_inode := None\<rparr>) s2 else s2)
         in Inr (0, set_file_desc (caller_proc s) (nat fd) None s3))))"

definition do_lseek :: "fs \<Rightarrow> (int \<times> fs) outcome" where
  "do_lseek s =
     (let off = OFFSET (fs_msg s); whence = WHENCE (fs_msg s)
      in obind (caller_fd (FD (fs_msg s)) s) (\<lambda>d.
         obind (deref (inode_table s) (fd_inode (file_desc_table s ! d))) (\<lambda>i.
         let pos = fd_pos (file_desc_table s ! d); f_size = sint (inode_file_size (inode_table s ! i))
         in if whence = SEEK_SET \<or> whence = SEEK_CUR \<or> whence = SEEK_END then
              (let pos' = (if whence = SEEK_SET then off else if whence = SEEK_CUR then s32 (pos + off) else s32 (f_size + off))
               in if pos' > f_size \<or> pos' < 0 then Inr (-1, s)
                  else Inr (pos', upd_fd d (\<lambda>f. f\<lparr>fd_pos := pos'\<rparr>) s))
            else Inr (-1, s))))"

section \<open>Read and write\<close>

definition do_read_write_special :: "nat \<Rightarrow> u32 \<Rightarrow> int \<Rightarrow> int \<Rightarrow> fs \<Rightarrow> (int \<times> fs) outcome" where
  "do_read_write_special i buf len caller_pid s =
     (let ty = (if type (fs_msg s) = FS_READ then DEV_READ else DEV_WRITE); dev = sint (inode_sect_start (inode_table s ! i))
      in c_assert (GET_DEV_MAJOR_NR dev = 4)
        (obind (driver_of dev) (\<lambda>drv.
         c_assert (drv \<noteq> INVALID_DRIVER)
           (obind (drv_call drv ((fs_msg s)\<lparr>type := ty, NR_DEV_MINOR := GET_DEV_MINOR_NR dev, BUF := buf, CNT := len,
                     PROC_NR := caller_pid\<rparr>) s) (\<lambda>(reply, s1).
            c_assert (CNT reply = len) (Inr (CNT reply, s1\<lparr>fs_msg := reply\<rparr>)))))))"

text \<open>\<^verbatim>\<open>min\<close> of an \<^verbatim>\<open>int\<close> and a \<^verbatim>\<open>u32\<close> compares unsigned.\<close>

definition umin :: "int \<Rightarrow> u32 \<Rightarrow> int" where
  "umin x y = (if word_of_int x < y then x else sint y)"

text \<open>The transfer loop of \<^verbatim>\<open>do_read_write_regular\<close>: \<open>d\<close> is the descriptor whose position moves along. A chunk
  has at least one sector whenever the loop runs.\<close>

function rw_loop :: "nat \<Rightarrow> int \<Rightarrow> u32 \<Rightarrow> int \<Rightarrow> int \<Rightarrow> int \<Rightarrow> int \<Rightarrow> int \<Rightarrow> int \<Rightarrow> int \<Rightarrow> fs \<Rightarrow> (int \<times> fs) outcome" where
  "rw_loop d dev buf caller_pid chunk sect_max i pos_off bytes_rw bytes_left s =
     (if i > sect_max then Inr (bytes_rw, s)
      else if chunk \<le> 0 then Inl Diverges
      else let bytes = min bytes_left (chunk * SECTOR_SIZE - pos_off)
        in case obind (RD_SECTS dev (spos i) chunk s) (\<lambda>s1.
             obind (proc_va2la (fkern s1) caller_pid (buf + word_of_int bytes_rw)) (\<lambda>la.
             obind (proc_va2la (fkern s1) TASK_FS (fsbuf + word_of_int pos_off)) (\<lambda>fa.
             if type (fs_msg s) = FS_READ then
               Inr (upd_fmem (\<lambda>mm. phys_copy mm la fa (word_of_int bytes)) s1)
             else WR_SECTS dev (spos i) chunk (upd_fmem (\<lambda>mm. phys_copy mm fa la (word_of_int bytes)) s1)))) of
           Inl e \<Rightarrow> Inl e
         | Inr s2 \<Rightarrow> rw_loop d dev buf caller_pid chunk sect_max (i + chunk) 0 (bytes_rw + bytes) (bytes_left - bytes)
                       (upd_fd d (\<lambda>f. f\<lparr>fd_pos := fd_pos f + bytes\<rparr>) s2))"
  by pat_completeness auto
termination
  by (relation "measure (\<lambda>(d, dev, buf, pid, chunk, sect_max, i, r). nat (sect_max - i + 1))") auto

declare rw_loop.simps [simp del]

definition do_read_write_regular :: "nat \<Rightarrow> u32 \<Rightarrow> int \<Rightarrow> int \<Rightarrow> nat \<Rightarrow> fs \<Rightarrow> (int \<times> fs) outcome" where
  "do_read_write_regular i buf len caller_pid d s =
     (let p = inode_table s ! i; ty = type (fs_msg s)
      in c_assert (inode_file_type p = TYPE_REGULAR \<or> inode_file_type p = TYPE_DIRECTORY)
        (c_assert (ty = FS_READ \<or> ty = FS_WRITE)
          (let pos_start = fd_pos (file_desc_table s ! d);
               pos_end = umin (s32 (pos_start + len)) (if ty = FS_READ then inode_file_size p else inode_nr_sects p * 512);
               pos_off = pos_start smod SECTOR_SIZE;
               rw_sect_min = sint (inode_sect_start p + word_of_int (pos_start div SECTOR_SIZE));
               rw_sect_max = sint (inode_sect_start p + word_of_int (pos_end div SECTOR_SIZE));
               rw_sect_chunk = min (rw_sect_max - rw_sect_min + 1) (FS_BUF_SIZE div SECTOR_SIZE)
           in obind (rw_loop d (inode_dev p) buf caller_pid rw_sect_chunk rw_sect_max rw_sect_min pos_off 0 len s) (\<lambda>(bytes_rw, s1).
              let pos = fd_pos (file_desc_table s1 ! d)
              in if word_of_int pos > inode_file_size (inode_table s1 ! i) then
                   obind (write_inode i (upd_inode i (\<lambda>q. q\<lparr>inode_file_size := word_of_int pos\<rparr>) s1)) (\<lambda>s2. Inr (bytes_rw, s2))
                 else Inr (bytes_rw, s1)))))"

text \<open>The pointers are tested against the bounds of the tables, so a null one fails the assertion.\<close>

definition do_read_write :: "fs \<Rightarrow> (int \<times> fs) outcome" where
  "do_read_write s =
     (let m = fs_msg s; fds = file_desc (proc_at (fkern s) (caller_proc s))
      in if \<not> (0 \<le> FD m \<and> FD m < int (length fds)) then Inl OutOfBounds
         else case fds ! nat (FD m) of
           None \<Rightarrow> Inl AssertFail
         | Some d \<Rightarrow> c_assert (d < length (file_desc_table s))
             (if fd_mode (file_desc_table s ! d) AND O_RDWR = 0 then Inr (0, s)
              else case fd_inode (file_desc_table s ! d) of
                None \<Rightarrow> Inl AssertFail
              | Some i \<Rightarrow> c_assert (i < length (inode_table s))
                  (if inode_file_type (inode_table s ! i) AND TYPE_MASK = TYPE_SPECIAL_CHAR
                   then do_read_write_special i (BUF m) (CNT m) (source m) s
                   else do_read_write_regular i (BUF m) (CNT m) (source m) d s)))"

section \<open>Unlink\<close>

definition clear_inode_map_bit :: "int \<Rightarrow> int \<Rightarrow> fs \<Rightarrow> fs outcome" where
  "clear_inode_map_bit dev nr s =
     (let byte_idx = nr sdiv 8; bit_idx = nat (nr smod 8); a = fsbuf + word_of_int (byte_idx smod SECTOR_SIZE)
      in c_assert (byte_idx < SECTOR_SIZE)
        (if nr < 0 then Inl OutOfBounds
         else obind (RD_SECT dev (spos 2) s) (\<lambda>s1.
           c_assert (fmem s1 a AND push_bit bit_idx 1 \<noteq> 0)
             (WR_SECT dev (spos 2) (upd_fmem (\<lambda>mm. mm(a := mm a AND NOT (push_bit bit_idx 1))) s1)))))"

fun clear_first_byte :: "nat \<Rightarrow> u8 \<Rightarrow> nat \<Rightarrow> int \<Rightarrow> (u8 \<times> int) outcome" where
  "clear_first_byte 0 b k left = Inr (b, left)"
| "clear_first_byte (Suc n) b k left =
     (if left = 0 then Inr (b, left)
      else c_assert (drop_bit k b AND 1 = 1) (clear_first_byte n (b AND NOT (push_bit k 1)) (k + 1) (left - 1)))"

text \<open>At the end of the buffer: write the sector back and go on with the next one.\<close>

definition next_map_sector :: "int \<Rightarrow> nat \<Rightarrow> int \<Rightarrow> fs \<Rightarrow> (nat \<times> int \<times> fs) outcome" where
  "next_map_sector dev idx sect_nr s =
     (if idx = 512 then
        obind (WR_SECT dev (spos sect_nr) s) (\<lambda>s1.
        obind (RD_SECT dev (spos (sect_nr + 1)) s1) (\<lambda>s2. Inr (0, sect_nr + 1, s2)))
      else Inr (idx, sect_nr, s))"

fun clear_bytes :: "int \<Rightarrow> nat \<Rightarrow> nat \<Rightarrow> int \<Rightarrow> fs \<Rightarrow> (nat \<times> int \<times> fs) outcome" where
  "clear_bytes dev 0 idx sect_nr s = Inr (idx, sect_nr, s)"
| "clear_bytes dev (Suc n) idx sect_nr s =
     obind (next_map_sector dev idx sect_nr s) (\<lambda>(idx', sect_nr', s1).
       let a = fsbuf + of_nat idx'
       in c_assert (fmem s1 a = 0xFF) (clear_bytes dev n (idx' + 1) sect_nr' (upd_fmem (\<lambda>mm. mm(a := 0)) s1)))"

definition clear_sector_map_bits :: "nat \<Rightarrow> fs \<Rightarrow> fs outcome" where
  "clear_sector_map_bits i s =
     (let p = inode_table s ! i; dev = inode_dev p
      in obind (get_super_block dev s) (\<lambda>sb.
         let start_bit_idx = sint (inode_sect_start p - nr_1st_data_sect sb + 1);
             start_byte_idx = start_bit_idx sdiv 8;
             bits_occupied = sint (inode_nr_sects p);
             byte_cnt = (bits_occupied - (8 - start_bit_idx smod 8)) sdiv 8;
             sect_nr = sint (2 + nr_inode_map_sects sb + word_of_int (start_byte_idx sdiv SECTOR_SIZE));
             b0 = nat (start_byte_idx smod SECTOR_SIZE); a0 = fsbuf + of_nat b0;
             k0 = nat (start_bit_idx smod 8)
         in if start_bit_idx < 0 \<or> bits_occupied < 0 then Inl OutOfBounds
            else obind (RD_SECT dev (spos sect_nr) s) (\<lambda>s1.
              obind (clear_first_byte (8 - k0) (fmem s1 a0) k0 bits_occupied) (\<lambda>(b, left).
              obind (clear_bytes dev (nat byte_cnt) (b0 + 1) sect_nr (upd_fmem (\<lambda>mm. mm(a0 := b)) s1)) (\<lambda>(idx, sect_nr1, s2).
              obind (next_map_sector dev idx sect_nr1 s2) (\<lambda>(idx', sect_nr2, s3).
                let left' = nat (left - 8 * max 0 byte_cnt); a = fsbuf + of_nat idx'; mask = NOT (push_bit left' 0xFF)
                in c_assert (fmem s3 a AND mask = mask)
                     (WR_SECT dev (spos sect_nr2) (upd_fmem (\<lambda>mm. mm(a := mm a AND push_bit left' (NOT 0))) s3)))))))) "

definition clear_inode_fields :: "nat \<Rightarrow> fs \<Rightarrow> fs outcome" where
  "clear_inode_fields i s =
     obind (write_inode i (upd_inode i (\<lambda>q. q\<lparr>inode_file_type := 0, inode_file_size := 0, inode_sect_start := 0,
              inode_nr_sects := 0\<rparr>) s)) (put_inode (Some i))"

text \<open>One directory sector: the entry of the inode if it is there, the count and the size of the entries in use.\<close>

fun clear_entry_sector :: "mem \<Rightarrow> int \<Rightarrow> int \<Rightarrow> nat \<Rightarrow> u32 \<Rightarrow> int \<Rightarrow> int \<Rightarrow> u32 option \<times> int \<times> int" where
  "clear_entry_sector mm nr nr_dir_entries 0 p_de de_nr de_size = (None, de_nr, de_size)"
| "clear_entry_sector mm nr nr_dir_entries (Suc j) p_de de_nr de_size =
     (if de_nr + 1 > nr_dir_entries then (None, de_nr + 1, de_size)
      else if entry_inode mm p_de = nr then (Some p_de, de_nr + 1, de_size)
      else clear_entry_sector mm nr nr_dir_entries j (p_de + 16) (de_nr + 1)
             (if entry_inode mm p_de \<noteq> INVALID_INODE then de_size + 16 else de_size))"

fun clear_entry_loop :: "int \<Rightarrow> int \<Rightarrow> int \<Rightarrow> int \<Rightarrow> nat \<Rightarrow> int \<Rightarrow> int \<Rightarrow> int \<Rightarrow> fs \<Rightarrow> (int \<times> int \<times> fs) outcome" where
  "clear_entry_loop dev sect0 nr nr_dir_entries 0 i de_nr de_size s = Inl AssertFail"
| "clear_entry_loop dev sect0 nr nr_dir_entries (Suc n) i de_nr de_size s =
     (let pos = spos (s32 (sect0 + i))
      in obind (RD_SECT dev pos s) (\<lambda>s1.
         case clear_entry_sector (fmem s1) nr nr_dir_entries 32 fsbuf de_nr de_size of
           (Some p_de, de_nr', de_size') \<Rightarrow>
             obind (WR_SECT dev pos (upd_fmem (\<lambda>mm. memset mm p_de 0 16) s1)) (\<lambda>s2. Inr (de_nr', de_size', s2))
         | (None, de_nr', de_size') \<Rightarrow>
             if de_nr' > nr_dir_entries then Inl AssertFail
             else clear_entry_loop dev sect0 nr nr_dir_entries n (i + 1) de_nr' de_size' s1))"

definition clear_directory_entry :: "nat \<Rightarrow> int \<Rightarrow> fs \<Rightarrow> fs outcome" where
  "clear_directory_entry r nr s =
     (let root = inode_table s ! r; nr_dir_entries = sint (inode_file_size root div 16)
      in obind (clear_entry_loop (inode_dev root) (sint (inode_sect_start root)) nr nr_dir_entries
                  (nat (sint ((inode_file_size root + 512) div 512))) 0 0 0 s) (\<lambda>(de_nr, de_size, s1).
         if de_nr = nr_dir_entries then write_inode r (upd_inode r (\<lambda>q. q\<lparr>inode_file_size := word_of_int de_size\<rparr>) s1)
         else Inr s1))"

definition do_unlink :: "fs \<Rightarrow> (int \<times> fs) outcome" where
  "do_unlink s =
     obind (get_pathname s) (\<lambda>pathname.
       if takeWhile (\<lambda>c. c \<noteq> 0) pathname = [47] then Inr (-1, s)
       else obind (get_file_inode_nr pathname s) (\<lambda>(nr, s1).
         if nr = INVALID_INODE then Inr (-1, s1)
         else if get_file_name pathname = None then Inr (-1, s1)
         else obind (deref (inode_table s1) (root_inode s1)) (\<lambda>r.
           obind (get_file_inode (inode_dev (inode_table s1 ! r)) nr s1) (\<lambda>(p, s2).
           obind (deref (inode_table s2) p) (\<lambda>i.
             if inode_file_type (inode_table s2 ! i) \<noteq> TYPE_REGULAR then Inr (-1, s2)
             else if inode_cnt (inode_table s2 ! i) > 1 then Inr (-1, s2)
             else obind (clear_inode_map_bit (inode_dev (inode_table s2 ! i)) nr s2) (\<lambda>s3.
               obind (clear_sector_map_bits i s3) (\<lambda>s4.
               obind (clear_inode_fields i s4) (\<lambda>s5.
               obind (clear_directory_entry r nr s5) (\<lambda>s6. Inr (0, s6)))))))))) "

section \<open>Stat\<close>

definition is_special :: "u32 \<Rightarrow> bool" where
  "is_special file_type \<longleftrightarrow> file_type AND TYPE_MASK = TYPE_SPECIAL_BLOCK \<or> file_type AND TYPE_MASK = TYPE_SPECIAL_CHAR"

definition put_stat :: "inode \<Rightarrow> u32 \<Rightarrow> mem \<Rightarrow> mem" where
  "put_stat p a mm = wr32 (wr32 (wr32 (wr32 (wr32 mm a (word_of_int (inode_dev p))) (a + 4) (word_of_int (inode_nr p)))
     (a + 8) (inode_file_type p)) (a + 12) (if is_special (inode_file_type p) then inode_sect_start p else 0))
     (a + 16) (inode_file_size p)"

definition do_stat :: "fs \<Rightarrow> (int \<times> fs) outcome" where
  "do_stat s =
     obind (get_pathname s) (\<lambda>pathname.
     obind (get_file_inode_nr pathname s) (\<lambda>(nr, s1).
       if nr = INVALID_INODE then Inr (-1, s1)
       else if get_file_name pathname = None then Inr (-1, s1)
       else obind (deref (inode_table s1) (root_inode s1)) (\<lambda>r.
         obind (get_file_inode (inode_dev (inode_table s1 ! r)) nr s1) (\<lambda>(p, s2).
         obind (deref (inode_table s2) p) (\<lambda>i.
         obind (put_inode (Some i) s2) (\<lambda>s3.
         obind (proc_va2la (fkern s3) (source (fs_msg s3)) (BUF (fs_msg s3))) (\<lambda>la.
           Inr (0, upd_fmem (put_stat (inode_table s2 ! i) la) s3))))))))"

section \<open>The message loop\<close>

text \<open>One turn of \<^verbatim>\<open>task_fs\<close> on a received message: the state and the reply with its destination, if one is sent.\<close>

definition set_reply :: "(message \<Rightarrow> int \<Rightarrow> message) \<Rightarrow> (int \<times> fs) outcome \<Rightarrow> fs outcome" where
  "set_reply f r = obind r (\<lambda>(v, s). Inr (s\<lparr>fs_msg := f (fs_msg s) v\<rparr>))"

definition fs_dispatch :: "int \<Rightarrow> fs \<Rightarrow> fs outcome" where
  "fs_dispatch ty s =
     (if ty = FS_OPEN then set_reply (\<lambda>m v. m\<lparr>FD := v\<rparr>) (do_open s)
      else if ty = FS_CLOSE then set_reply (\<lambda>m v. m\<lparr>RETVAL := v\<rparr>) (do_close s)
      else if ty = FS_READ \<or> ty = FS_WRITE then set_reply (\<lambda>m v. m\<lparr>CNT := v\<rparr>) (do_read_write s)
      else if ty = FS_UNLINK then set_reply (\<lambda>m v. m\<lparr>RETVAL := v\<rparr>) (do_unlink s)
      else if ty = RESUME_PROC then Inr s
      else if ty = FORK then set_reply (\<lambda>m v. m\<lparr>RETVAL := v\<rparr>) (fs_fork s)
      else if ty = EXIT then set_reply (\<lambda>m v. m\<lparr>RETVAL := v\<rparr>) (fs_exit s)
      else if ty = FS_LSEEK then set_reply (\<lambda>m v. m\<lparr>OFFSET := v\<rparr>) (do_lseek s)
      else if ty = FS_STAT then set_reply (\<lambda>m v. m\<lparr>RETVAL := v\<rparr>) (do_stat s)
      else Inl AssertFail)"

definition task_fs_round :: "message \<Rightarrow> fs \<Rightarrow> ((int \<times> message) option \<times> fs) outcome" where
  "task_fs_round msg s =
     (let src = (if type msg = RESUME_PROC then PROC_NR msg else source msg)
      in obind (fs_dispatch (type msg) (s\<lparr>fs_msg := msg, caller_proc := source msg\<rparr>)) (\<lambda>s1.
         if type (fs_msg s1) \<noteq> SUSPEND_PROC then
           (let m = (fs_msg s1)\<lparr>type := SYSCALL_RET, source := TASK_FS\<rparr> in Inr (Some (src, m), s1\<lparr>fs_msg := m\<rparr>))
         else Inr (None, s1)))"

end
