(* ===== verification/FsInit.thy ===== *)
theory FsInit
  imports FsOps
begin

text \<open>
  Start-up of the file system task, the upper half of \<^verbatim>\<open>src/task/fs/fs.c\<close>: \<^verbatim>\<open>init_fs\<close> clears the tables, opens the
  root device, makes a new file system when the disk has none (\<^verbatim>\<open>mkfs\<close>) and loads the super block and the
  root directory's inode.

  The partition information is a local variable of \<^verbatim>\<open>mkfs\<close> that the driver fills; \<open>pi_addr\<close> is its address.
\<close>

unbundle bit_operations_syntax

abbreviation (input) INSTALL_START_SECT where "INSTALL_START_SECT \<equiv> 0x8000 :: int"
abbreviation (input) INSTALL_NR_SECTS where "INSTALL_NR_SECTS \<equiv> 0x800 :: int"
abbreviation (input) NR_SECTS_FOR_LOG where "NR_SECTS_FOR_LOG \<equiv> 2048 :: u32"

section \<open>Making a file system\<close>

definition get_partition_info :: "u32 \<Rightarrow> fs \<Rightarrow> (part_info \<times> fs) outcome" where
  "get_partition_info pi_addr s =
     obind (driver_of ROOT_DEV_NR) (\<lambda>drv.
       c_assert (drv \<noteq> INVALID_DRIVER)
         (obind (drv_call drv (zero_msg\<lparr>type := DEV_IOCTL, NR_DEV_MINOR := GET_DEV_MINOR_NR ROOT_DEV_NR,
                    REQUEST := IOCTL_GET_PART, BUF := pi_addr, PROC_NR := TASK_FS\<rparr>) s) (\<lambda>(_, s1).
            Inr (\<lparr>start_sect = rd32 (fmem s1) pi_addr, sect_cnt = rd32 (fmem s1) (pi_addr + 4)\<rparr>, s1))))"

definition new_super_block :: "part_info \<Rightarrow> super_block" where
  "new_super_block pi =
     (let nr_inodes' = 512 * 8; nr_inode_sects' = nr_inodes' * 32 div 512; nr_sects' = sect_cnt pi;
          nr_sect_map_sects' = nr_sects' div (512 * 8) + 1
      in \<lparr>magic = MAGIC_V1, nr_inodes = nr_inodes', nr_sects = nr_sects', nr_inode_map_sects = 1,
          nr_sect_map_sects = nr_sect_map_sects', nr_1st_data_sect = 1 + 1 + 1 + nr_sect_map_sects' + nr_inode_sects',
          nr_inode_sects = nr_inode_sects', sb_root_inode = word_of_int ROOT_INODE_NR, inode_size = 32,
          inode_isize_off = 4, inode_start_off = 8, dir_ent_size = 16, dir_ent_inode_off = 0, dir_ent_fname_off = 4,
          sb_dev = 0\<rparr>)"

fun store_words :: "mem \<Rightarrow> u32 \<Rightarrow> u32 list \<Rightarrow> mem" where
  "store_words mm a [] = mm"
| "store_words mm a (w # ws) = store_words (wr32 mm a w) (a + 4) ws"

definition super_block_words :: "super_block \<Rightarrow> u32 list" where
  "super_block_words sb = [magic sb, nr_inodes sb, nr_sects sb, nr_inode_map_sects sb, nr_sect_map_sects sb,
     nr_1st_data_sect sb, nr_inode_sects sb, sb_root_inode sb, inode_size sb, inode_isize_off sb, inode_start_off sb,
     dir_ent_size sb, dir_ent_inode_off sb, dir_ent_fname_off sb]"

definition create_super_block :: "part_info \<Rightarrow> fs \<Rightarrow> (super_block \<times> fs) outcome" where
  "create_super_block pi s =
     (let sb = new_super_block pi
      in obind (WR_SECT ROOT_DEV_NR (spos 1)
                  (upd_fmem (\<lambda>mm. store_words (memset mm fsbuf 0x90 512) fsbuf (super_block_words sb)) s)) (\<lambda>s1.
         Inr (sb, s1)))"

fun or_bits :: "mem \<Rightarrow> u32 \<Rightarrow> nat list \<Rightarrow> mem" where
  "or_bits mm a [] = mm"
| "or_bits mm a (i # is) = or_bits (mm(a := mm a OR push_bit i 1)) a is"

definition create_inode_map :: "fs \<Rightarrow> fs outcome" where
  "create_inode_map s =
     (let s1 = upd_fmem (\<lambda>mm. or_bits (memset mm fsbuf 0 512) fsbuf [0..<6]) s
      in c_assert (fmem s1 fsbuf = 0x3F) (WR_SECT ROOT_DEV_NR (spos 2) s1))"

fun zero_map_sects :: "super_block \<Rightarrow> nat list \<Rightarrow> fs \<Rightarrow> fs outcome" where
  "zero_map_sects sb [] s = Inr s"
| "zero_map_sects sb (i # is) s =
     obind (WR_SECT ROOT_DEV_NR (upos (2 + nr_inode_map_sects sb + of_nat i)) s) (zero_map_sects sb is)"

definition create_sector_map :: "super_block \<Rightarrow> fs \<Rightarrow> fs outcome" where
  "create_sector_map sb s =
     (let nr = nat (NR_FILE_SECTS + 1)
      in obind (WR_SECT ROOT_DEV_NR (upos (2 + nr_inode_map_sects sb)) (upd_fmem (\<lambda>mm.
            or_bits (memset (memset mm fsbuf 0 512) fsbuf 0xFF (of_nat (nr div 8))) (fsbuf + of_nat (nr div 8)) [0..<nr mod 8]) s))
          (\<lambda>s1. zero_map_sects sb [1..<unat (nr_sect_map_sects sb)] (upd_fmem (\<lambda>mm. memset mm fsbuf 0 512) s1)))"

fun tar_bits_loop :: "super_block \<Rightarrow> nat \<Rightarrow> int \<Rightarrow> int \<Rightarrow> fs \<Rightarrow> fs outcome" where
  "tar_bits_loop sb 0 bit_off_in_sect cur_sect s =
     WR_SECT ROOT_DEV_NR (upos (2 + nr_inode_map_sects sb + word_of_int cur_sect)) s"
| "tar_bits_loop sb (Suc bit_left) bit_off_in_sect cur_sect s =
     (let a = fsbuf + word_of_int (bit_off_in_sect sdiv 8);
          s1 = upd_fmem (\<lambda>mm. mm(a := mm a OR push_bit (nat (bit_off_in_sect smod 8)) 1)) s
      in if bit_off_in_sect + 1 = SECTOR_SIZE * 8 then
           obind (WR_SECT ROOT_DEV_NR (upos (2 + nr_inode_map_sects sb + word_of_int cur_sect)) s1) (\<lambda>s2.
           obind (RD_SECT ROOT_DEV_NR (upos (2 + nr_inode_map_sects sb + word_of_int (cur_sect + 1))) s2) (\<lambda>s3.
             tar_bits_loop sb bit_left 0 (cur_sect + 1) s3))
         else tar_bits_loop sb bit_left (bit_off_in_sect + 1) cur_sect s1)"

definition create_cmd_dot_tar :: "super_block \<Rightarrow> fs \<Rightarrow> fs outcome" where
  "create_cmd_dot_tar sb s =
     c_assert (word_of_int (INSTALL_START_SECT + INSTALL_NR_SECTS) < nr_sects sb - NR_SECTS_FOR_LOG)
       (let bit_offset = sint (word_of_int INSTALL_START_SECT - nr_1st_data_sect sb + 1);
            cur_sect = bit_offset sdiv (SECTOR_SIZE * 8)
        in if bit_offset < 0 then Inl OutOfBounds
           else obind (RD_SECT ROOT_DEV_NR (upos (2 + nr_inode_map_sects sb + word_of_int cur_sect)) s)
             (tar_bits_loop sb (nat INSTALL_NR_SECTS) (bit_offset smod (SECTOR_SIZE * 8)) cur_sect))"

definition new_inode :: "u32 \<Rightarrow> u32 \<Rightarrow> u32 \<Rightarrow> u32 \<Rightarrow> inode" where
  "new_inode ty sz start nr = \<lparr>inode_file_type = ty, inode_file_size = sz, inode_sect_start = start, inode_nr_sects = nr,
     inode_dev = 0, inode_cnt = 0, inode_nr = 0\<rparr>"

fun store_inodes :: "mem \<Rightarrow> u32 \<Rightarrow> inode list \<Rightarrow> mem" where
  "store_inodes mm a [] = mm"
| "store_inodes mm a (p # ps) = store_inodes (store_inode p a mm) (a + 32) ps"

definition first_inodes :: "super_block \<Rightarrow> inode list" where
  "first_inodes sb = [new_inode TYPE_DIRECTORY (16 * 5) (nr_1st_data_sect sb) (word_of_int NR_FILE_SECTS),
     new_inode TYPE_SPECIAL_CHAR 0 (word_of_int (MAKE_DEV_NR 4 0)) 0, new_inode TYPE_SPECIAL_CHAR 0 (word_of_int (MAKE_DEV_NR 4 1)) 0,
     new_inode TYPE_SPECIAL_CHAR 0 (word_of_int (MAKE_DEV_NR 4 2)) 0,
     new_inode TYPE_REGULAR (word_of_int (INSTALL_NR_SECTS * SECTOR_SIZE)) (word_of_int INSTALL_START_SECT) (word_of_int INSTALL_NR_SECTS)]"

definition create_inode_array :: "super_block \<Rightarrow> fs \<Rightarrow> fs outcome" where
  "create_inode_array sb s =
     WR_SECT ROOT_DEV_NR (upos (2 + nr_inode_map_sects sb + nr_sect_map_sects sb))
       (upd_fmem (\<lambda>mm. store_inodes (memset mm fsbuf 0 512) fsbuf (first_inodes sb)) s)"

fun store_entries :: "mem \<Rightarrow> u32 \<Rightarrow> (int \<times> string) list \<Rightarrow> mem" where
  "store_entries mm a [] = mm"
| "store_entries mm a ((nr, nm) # es) =
     store_entries (write_bytes (wr32 mm a (word_of_int nr)) (a + 4) (str_bytes nm @ [0])) (a + 16) es"

definition first_entries :: "(int \<times> string) list" where
  "first_entries = [(1, ''.''), (2, ''dev_tty0''), (3, ''dev_tty1''), (4, ''dev_tty2''), (5, ''cmd.tar'')]"

definition create_root_directory :: "super_block \<Rightarrow> fs \<Rightarrow> fs outcome" where
  "create_root_directory sb s =
     WR_SECT ROOT_DEV_NR (upos (nr_1st_data_sect sb)) (upd_fmem (\<lambda>mm. store_entries (memset mm fsbuf 0 512) fsbuf first_entries) s)"

definition mkfs :: "u32 \<Rightarrow> fs \<Rightarrow> fs outcome" where
  "mkfs pi_addr s =
     obind (get_partition_info pi_addr s) (\<lambda>(pi, s1).
     obind (create_super_block pi s1) (\<lambda>(sb, s2).
     obind (create_inode_map s2) (\<lambda>s3.
     obind (create_sector_map sb s3) (\<lambda>s4.
     obind (create_cmd_dot_tar sb s4) (\<lambda>s5.
     obind (create_inode_array sb s5) (create_root_directory sb))))))"

section \<open>Starting up\<close>

definition zero_file_desc :: file_desc where
  "zero_file_desc = \<lparr>fd_mode = 0, fd_pos = 0, fd_cnt = 0, fd_inode = None\<rparr>"

definition init_fs :: "u32 \<Rightarrow> fs \<Rightarrow> fs outcome" where
  "init_fs pi_addr s =
     (let s0 = s\<lparr>file_desc_table := replicate NR_FILE_DESC zero_file_desc, inode_table := replicate NR_INODE (new_inode 0 0 0 0),
                 super_block_table := map (\<lambda>sb. sb\<lparr>sb_dev := NR_MAJOR_NO_DEV\<rparr>) (super_block_table s)\<rparr>
      in obind (driver_of ROOT_DEV_NR) (\<lambda>drv.
         c_assert (drv \<noteq> INVALID_DRIVER)
           (obind (drv_call drv (zero_msg\<lparr>type := DEV_OPEN, NR_DEV_MINOR := GET_DEV_MINOR_NR ROOT_DEV_NR\<rparr>) s0) (\<lambda>(_, s1).
            obind (RD_SECT ROOT_DEV_NR (spos 1) s1) (\<lambda>s2.
            obind (if rd32 (fmem s2) fsbuf \<noteq> MAGIC_V1 then mkfs pi_addr s2 else Inr s2) (\<lambda>s3.
            obind (read_super_block ROOT_DEV_NR s3) (\<lambda>s4.
            obind (get_super_block ROOT_DEV_NR s4) (\<lambda>sb.
            c_assert (magic sb = MAGIC_V1)
              (obind (get_file_inode ROOT_DEV_NR ROOT_INODE_NR s4) (\<lambda>(r, s5).
                 Inr (s5\<lparr>root_inode := r\<rparr>)))))))))))"

end
