(* ===== verification/Disk.thy ===== *)
theory Disk
  imports Fs
begin

text \<open>
  The disk as the file system sees it: the locale \<open>block_device\<close> states what reading, changing and writing
  back a sector through the buffer does, and the sector macros of \<^verbatim>\<open>src/include/sys/fs.h\<close> over the disk driver
  are an instance of it.
\<close>

unbundle bit_operations_syntax

section \<open>The interface\<close>

locale block_device =
  fixes rd :: "nat \<Rightarrow> 's \<Rightarrow> 's outcome"
    and wr :: "nat \<Rightarrow> 's \<Rightarrow> 's outcome"
    and upd :: "(mem \<Rightarrow> mem) \<Rightarrow> 's \<Rightarrow> 's"
    and ok :: "'s \<Rightarrow> bool"
    and content :: "'s \<Rightarrow> nat \<Rightarrow> mem"
    and buf :: "'s \<Rightarrow> mem"
    and rest :: "'s \<Rightarrow> 'r"
    and limit :: nat
  assumes rd_spec: "ok s \<Longrightarrow> n < limit \<Longrightarrow>
      \<exists>s'. rd n s = Inr s' \<and> ok s' \<and> content s' = content s \<and> buf s' = content s n \<and> rest s' = rest s"
    and wr_spec: "ok s \<Longrightarrow> n < limit \<Longrightarrow>
      \<exists>s'. wr n s = Inr s' \<and> ok s' \<and> content s' = (content s)(n := buf s) \<and> buf s' = buf s \<and> rest s' = rest s"
    and upd_spec: "ok s \<Longrightarrow> ok (upd f s) \<and> content (upd f s) = content s \<and> rest (upd f s) = rest s"
begin

text \<open>Read, change in the buffer, write back: exactly that sector changes.\<close>

lemma read_modify_write:
  assumes "ok s" "n < limit"
  shows "\<exists>s1 s2. rd n s = Inr s1 \<and> ok s1 \<and> content s1 = content s \<and> buf s1 = content s n \<and> rest s1 = rest s \<and>
    wr n (upd f s1) = Inr s2 \<and> ok s2 \<and> content s2 = (content s)(n := buf (upd f s1)) \<and> rest s2 = rest s"
proof -
  obtain s1 where s1: "rd n s = Inr s1" "ok s1" "content s1 = content s" "buf s1 = content s n" "rest s1 = rest s"
    using rd_spec [OF assms] by blast
  have u: "ok (upd f s1)" "content (upd f s1) = content s" "rest (upd f s1) = rest s" using upd_spec [OF s1(2)] s1 by simp_all
  from wr_spec [OF u(1) assms(2)] s1 u show ?thesis by auto
qed

lemma write_then_read:
  assumes "ok s" "n < limit" "k < limit"
  shows "\<exists>s1 s2. wr n s = Inr s1 \<and> rd k s1 = Inr s2 \<and> ok s2 \<and>
    buf s2 = (if k = n then buf s else content s k) \<and> rest s2 = rest s"
proof -
  obtain s1 where s1: "wr n s = Inr s1" "ok s1" "content s1 = (content s)(n := buf s)" "rest s1 = rest s"
    using wr_spec [OF assms(1, 2)] by blast
  from rd_spec [OF s1(2) assms(3)] s1 show ?thesis by (auto intro!: exI)
qed

end

section \<open>The disk driver as a block device\<close>

definition dev_start :: "int \<Rightarrow> fs \<Rightarrow> u32" where
  "dev_start dev s = (case part_of_minor (GET_DEV_MINOR_NR dev) (hds s) of Inr pi \<Rightarrow> start_sect pi | Inl _ \<Rightarrow> 0)"

text \<open>Sector numbers up to 4194303 have byte positions that fit an \<^verbatim>\<open>int\<close>.\<close>

abbreviation SECT_LIMIT where "SECT_LIMIT \<equiv> 4194304 :: nat"

definition disk_ok :: "int \<Rightarrow> fs \<Rightarrow> bool" where
  "disk_ok dev s \<longleftrightarrow> GET_DEV_MAJOR_NR dev = 3 \<and> \<not> busy (drive (hds s)) \<and>
     (\<exists>pi. part_of_minor (GET_DEV_MINOR_NR dev) (hds s) = Inr pi \<and> unat (start_sect pi) + SECT_LIMIT \<le> 2 ^ 28) \<and>
     proc_va2la (fkern s) TASK_FS fsbuf = Inr fsbuf \<and> proc_va2la (fkern s) TASK_HD (hdbuf (hds s)) = Inr (hdbuf (hds s)) \<and>
     apart (hdbuf (hds s)) 512 fsbuf 0x100000"

definition sector :: "int \<Rightarrow> fs \<Rightarrow> nat \<Rightarrow> mem" where
  "sector dev s n =
     (\<lambda>x. if n < SECT_LIMIT \<and> unat x < 512 then media (drive (hds s)) (dev_start dev s + of_nat n) x else 0)"

definition fbuf :: "fs \<Rightarrow> mem" where
  "fbuf s = sector_at (fmem s) fsbuf"

text \<open>All of the state but memory and the drive.\<close>

definition fs_rest :: "fs \<Rightarrow> (tty_task \<times> file_desc list \<times> inode list \<times> super_block list \<times> message \<times> int \<times> nat option) \<times>
    (kernel \<times> int \<times> part_info list \<times> part_info list \<times> u32)" where
  "fs_rest s = ((ttys s, file_desc_table s, inode_table s, super_block_table s, fs_msg s, caller_proc s, root_inode s),
     ((fkern s)\<lparr>kmem := (\<lambda>_. 0)\<rparr>, open_cnt (hds s), primary (hds s), logical (hds s), hdbuf (hds s)))"

lemma spos_eq: "n < SECT_LIMIT \<Longrightarrow> spos (int n) = of_nat (512 * n)"
  by (simp add: spos_def s32_id)

lemma spos_facts:
  assumes "n < SECT_LIMIT"
  shows "spos (int n) AND 0x1FF = 0" and "ucast (drop_bit 9 (spos (int n))) = (of_nat n :: u32)"
proof -
  have "take_bit 9 (of_nat (512 * n) :: u64) = 0"
    by (simp add: take_bit_eq_0_iff)
  then show "spos (int n) AND 0x1FF = 0" by (simp add: spos_eq [OF assms] and_low_ones)
  have "unat (of_nat (512 * n) :: u64) = 512 * n"
    using assms by (simp add: unsigned_of_nat take_bit_nat_eq_self del: of_nat_mult)
  then have "drop_bit 9 (of_nat (512 * n) :: u64) = of_nat n"
    by (intro word_unat_eq_iff [THEN iffD2])
      (use assms in \<open>simp add: drop_bit_eq_div unat_div_distrib unsigned_of_nat take_bit_nat_eq_self\<close>)
  then show "ucast (drop_bit 9 (spos (int n))) = (of_nat n :: u32)"
    using assms by (simp add: spos_eq [OF assms] unsigned_of_nat take_bit_nat_eq_self del: of_nat_mult)
qed


text \<open>A buffer of a task that sectors can be moved to and from: the task sees memory as it is, and the driver's own buffer is
  elsewhere.\<close>

definition buffer_ok :: "int \<Rightarrow> u32 \<Rightarrow> fs \<Rightarrow> bool" where
  "buffer_ok pid buf s \<longleftrightarrow> proc_va2la (fkern s) pid buf = Inr buf \<and> apart (hdbuf (hds s)) 512 buf 0x100000"

lemma fsbuf_ok: "disk_ok dev s \<Longrightarrow> buffer_ok TASK_FS fsbuf s"
  by (simp add: disk_ok_def buffer_ok_def)

text \<open>A sector request, as the driver gets it.\<close>

lemma sector_request:
  assumes "disk_ok dev s" "n < SECT_LIMIT" "buffer_ok pid buf s"
  shows "hd_request (zero_msg\<lparr>type := ty, NR_DEV_MINOR := GET_DEV_MINOR_NR dev, POSITION := spos (int n), BUF := buf,
      CNT := c, PROC_NR := pid, source := TASK_FS\<rparr>) buf (dev_start dev s + of_nat n) (hds s)"
  using assms by (auto simp: hd_request_def disk_ok_def buffer_ok_def dev_start_def spos_facts add.commute)

lemma rd_wr_sector_hd:
  assumes "disk_ok dev s" "ty = DEV_READ \<or> ty = DEV_WRITE"
  shows "rd_wr_sector ty dev pos c pid buf s =
    obind (hd_read_write (zero_msg\<lparr>type := ty, NR_DEV_MINOR := GET_DEV_MINOR_NR dev, POSITION := pos, BUF := buf,
      CNT := c, PROC_NR := pid, source := TASK_FS\<rparr>) (hds s)) (\<lambda>h. Inr (s\<lparr>hds := h\<rparr>))"
proof -
  have "driver_of dev = Inr TASK_HD" using assms(1) by (simp add: disk_ok_def driver_of_def dev_drv_map_def)
  then show ?thesis using assms(2)
    by (auto simp: rd_wr_sector_def drv_call_def task_hd_round_def Let_def obind_def split: sum.split)
qed

lemma sector_unat:
  assumes "disk_ok dev s" "n + k \<le> SECT_LIMIT" "0 < k"
  shows "unat (dev_start dev s + of_nat n) + k \<le> 2 ^ 28"
proof -
  have st: "unat (dev_start dev s) + SECT_LIMIT \<le> 2 ^ 28" using assms(1) by (auto simp: disk_ok_def dev_start_def)
  have "unat (of_nat n :: u32) = n" using assms(2, 3) by (intro unat_of_nat_u32) simp
  then have "unat (dev_start dev s + of_nat n) = unat (dev_start dev s) + n"
    using st assms(2, 3) by (subst unat_word_ariths) simp
  with st assms(2) show ?thesis by simp
qed

lemma buffer_clear:
  assumes "buffer_ok pid buf s" "i < 0x100000"
  shows "512 \<le> unat (buf + of_nat i - hdbuf (hds s))"
  using assms by (intro apart_offset) (auto simp: buffer_ok_def)

text \<open>Reading and writing up to 256 sectors at once.\<close>

lemma rd_sectors_eq:
  assumes "disk_ok dev s" "n + k \<le> SECT_LIMIT" "0 < k" "k \<le> 256" "buffer_ok pid buf s"
  shows "\<exists>g. rd_wr_sector DEV_READ dev (spos (int n)) (512 * int k) pid buf s = Inr (s\<lparr>hds := xferred (read_n (media (drive (hds s)))
      (hdbuf (hds s)) (dev_start dev s + of_nat n) buf k) g (hds s)\<rparr>) \<and> same_disk (drive (hds s)) (g (drive (hds s)))"
proof -
  have n: "n < SECT_LIMIT" using assms by simp
  have clear: "512 \<le> unat (buf + of_nat i - hdbuf (hds s))" if "i < 512 * k" for i
    using buffer_clear [OF assms(5), of i] that assms(4) by simp
  have u: "unat (dev_start dev s + of_nat n) + k \<le> 2 ^ 28" by (rule sector_unat [OF assms(1-3)])
  from hd_read_sectors [OF sector_request [OF assms(1) n assms(5), where ty = DEV_READ and c = "512 * int k"] _ _ assms(4) u assms(3) clear]
  show ?thesis using assms(1) by (auto simp: rd_wr_sector_hd)
qed

lemma wr_sectors_eq:
  assumes "disk_ok dev s" "n + k \<le> SECT_LIMIT" "0 < k" "k \<le> 256" "buffer_ok pid buf s"
  shows "\<exists>g. rd_wr_sector DEV_WRITE dev (spos (int n)) (512 * int k) pid buf s = Inr (s\<lparr>hds := xferred id g (hds s)\<rparr>) \<and>
    media (g (drive (hds s))) = write_n (media (drive (hds s))) (dev_start dev s + of_nat n) buf k (fmem s) \<and>
    busy (g (drive (hds s))) = busy (drive (hds s)) \<and> ident (g (drive (hds s))) = ident (drive (hds s))"
proof -
  have n: "n < SECT_LIMIT" using assms by simp
  have u: "unat (dev_start dev s + of_nat n) + k \<le> 2 ^ 28" by (rule sector_unat [OF assms(1-3)])
  from hd_write_sectors [OF sector_request [OF assms(1) n assms(5), where ty = DEV_WRITE and c = "512 * int k"] _ _ assms(4) u assms(3)]
  show ?thesis using assms(1) by (auto simp: rd_wr_sector_hd)
qed

lemma RD_SECTS_eq:
  assumes "disk_ok dev s" "n + k \<le> SECT_LIMIT" "0 < k" "k \<le> 256"
  shows "\<exists>g. RD_SECTS dev (spos (int n)) (int k) s = Inr (s\<lparr>hds := xferred (read_n (media (drive (hds s))) (hdbuf (hds s))
      (dev_start dev s + of_nat n) fsbuf k) g (hds s)\<rparr>) \<and> same_disk (drive (hds s)) (g (drive (hds s)))"
  using rd_sectors_eq [OF assms fsbuf_ok [OF assms(1)]] by (simp add: RD_SECTS_def mult.commute)

lemma WR_SECTS_eq:
  assumes "disk_ok dev s" "n + k \<le> SECT_LIMIT" "0 < k" "k \<le> 256"
  shows "\<exists>g. WR_SECTS dev (spos (int n)) (int k) s = Inr (s\<lparr>hds := xferred id g (hds s)\<rparr>) \<and>
    media (g (drive (hds s))) = write_n (media (drive (hds s))) (dev_start dev s + of_nat n) fsbuf k (fmem s) \<and>
    busy (g (drive (hds s))) = busy (drive (hds s)) \<and> ident (g (drive (hds s))) = ident (drive (hds s))"
  using wr_sectors_eq [OF assms fsbuf_ok [OF assms(1)]] by (simp add: WR_SECTS_def mult.commute)

text \<open>What a transfer leaves of the rest of the state.\<close>

lemma disk_ok_xferred:
  "busy (g (drive (hds s))) = busy (drive (hds s)) \<Longrightarrow>
   disk_ok dev (s\<lparr>hds := xferred f g (hds s)\<rparr>) = disk_ok dev s"
  by (simp add: disk_ok_def)

lemma dev_start_xferred [simp]: "dev_start dev (s\<lparr>hds := xferred f g (hds s)\<rparr>) = dev_start dev s"
  by (simp add: dev_start_def)

lemma fs_rest_xferred [simp]: "fs_rest (s\<lparr>hds := xferred f g (hds s)\<rparr>) = fs_rest s"
  by (simp add: fs_rest_def xferred_def upd_mem_def)

lemma sector_xferred:
  "media (g (drive (hds s))) = media (drive (hds s)) \<Longrightarrow> sector dev (s\<lparr>hds := xferred f g (hds s)\<rparr>) = sector dev s"
  by (simp add: sector_def fun_eq_iff)

lemma upd_fmem_xferred: "upd_fmem f s = s\<lparr>hds := xferred f id (hds s)\<rparr>"
  by (simp add: upd_fmem_def upd_mem_xferred)

interpretation disk: block_device "\<lambda>n. RD_SECT dev (spos (int n))" "\<lambda>n. WR_SECT dev (spos (int n))" upd_fmem
  "disk_ok dev" "sector dev" fbuf fs_rest SECT_LIMIT for dev
proof unfold_locales
  fix s n assume ok: "disk_ok dev s" and n: "n < SECT_LIMIT"
  obtain g where g: "RD_SECT dev (spos (int n)) s = Inr (s\<lparr>hds := xferred (read_n (media (drive (hds s))) (hdbuf (hds s))
      (dev_start dev s + of_nat n) fsbuf (Suc 0)) g (hds s)\<rparr>)" (is "_ = Inr ?s'") "same_disk (drive (hds s)) (g (drive (hds s)))"
    using RD_SECTS_eq [OF ok, of n 1] n by (auto simp: RD_SECT_def)
  have "fbuf ?s' = sector dev s n"
    using n by (simp add: fbuf_def sector_def sector_at_def load_sector_def fun_eq_iff)
  then show "\<exists>s'. RD_SECT dev (spos (int n)) s = Inr s' \<and> disk_ok dev s' \<and> sector dev s' = sector dev s \<and>
      fbuf s' = sector dev s n \<and> fs_rest s' = fs_rest s"
    using g ok by (intro exI [of _ ?s']) (simp add: disk_ok_xferred sector_xferred same_disk_def)
  obtain g where g: "WR_SECT dev (spos (int n)) s = Inr (s\<lparr>hds := xferred id g (hds s)\<rparr>)"
    "media (g (drive (hds s))) = (media (drive (hds s)))(dev_start dev s + of_nat n := sector_at (fmem s) fsbuf)"
    "busy (g (drive (hds s))) = busy (drive (hds s))"
    using WR_SECTS_eq [OF ok, of n 1] n by (auto simp: WR_SECT_def)
  have "sector dev (s\<lparr>hds := xferred id g (hds s)\<rparr>) = (sector dev s)(n := fbuf s)"
    using n by (auto simp: sector_def fbuf_def sector_at_def g(2) fun_eq_iff of_nat_u32_inj)
  then show "\<exists>s'. WR_SECT dev (spos (int n)) s = Inr s' \<and> disk_ok dev s' \<and> sector dev s' = (sector dev s)(n := fbuf s) \<and>
      fbuf s' = fbuf s \<and> fs_rest s' = fs_rest s"
    using g ok by (auto simp: disk_ok_xferred fbuf_def)
next
  fix s f assume "disk_ok dev s"
  then show "disk_ok dev (upd_fmem f s) \<and> sector dev (upd_fmem f s) = sector dev s \<and> fs_rest (upd_fmem f s) = fs_rest s"
    by (simp add: upd_fmem_xferred disk_ok_xferred sector_xferred)
qed


section \<open>Integers in the buffer\<close>

lemma sector_at_rd32: "unat x + 4 \<le> 512 \<Longrightarrow> rd32 mm (a + x) = rd32 (sector_at mm a) x"
proof (rule rd32_cong)
  fix i assume "unat x + 4 \<le> 512" "i < (4 :: nat)"
  moreover from this have "unat (x + of_nat i) = unat x + i"
    by (subst unat_word_ariths) (simp add: unsigned_of_nat take_bit_nat_eq_self)
  ultimately show "mm (a + x + of_nat i) = sector_at mm a (x + of_nat i)" by (simp add: sector_at_def add.assoc)
qed

lemma sector_at_wr32:
  assumes "unat x + 4 \<le> 512"
  shows "sector_at (wr32 mm (a + x) v) a = wr32 (sector_at mm a) x v"
proof
  fix o'
  have ne: "a + x + k = a + o' \<longleftrightarrow> x + k = o'" "a + o' = a + x + k \<longleftrightarrow> o' = x + k" for k by (auto simp: add.assoc)
  have lt: "unat (x + k) < 512" if "unat k < 4" for k :: u32
    using assms that by (subst unat_word_ariths) simp
  from lt [of 0] lt [of 1] lt [of 2] lt [of 3]
  show "sector_at (wr32 mm (a + x) v) a o' = wr32 (sector_at mm a) x v o'"
    using ne [of 0] by (auto simp: sector_at_def wr32_def ne)
qed

section \<open>A sample disk\<close>

text \<open>
  A small file system on the root device: bit map of inodes in sector 2, of data sectors in sector 3, the inode
  array in sector 4 and the root directory in sector 5 with the entries \<^verbatim>\<open>.\<close> and \<^verbatim>\<open>a\<close>. Process 5 has the file \<^verbatim>\<open>a\<close>
  open as its descriptor 0.
\<close>

definition sample_media :: "u32 \<Rightarrow> mem" where
  "sample_media = (\<lambda>_ _. 0)(2 := (\<lambda>_. 0)(0 := 7), 3 := (\<lambda>_. 0)(0 := 7),
     5 := (\<lambda>_. 0)(0 := 1, 4 := 46, 16 := 2, 20 := 97), 6 := (\<lambda>o'. ucast o'))"

definition sample_sb :: super_block where
  "sample_sb = \<lparr>magic = MAGIC_V1, nr_inodes = 16, nr_sects = 1000, nr_inode_map_sects = 1, nr_sect_map_sects = 1,
     nr_1st_data_sect = 5, nr_inode_sects = 1, sb_root_inode = 1, inode_size = 32, inode_isize_off = 4, inode_start_off = 8,
     dir_ent_size = 16, dir_ent_inode_off = 0, dir_ent_fname_off = 4, sb_dev = ROOT_DEV_NR\<rparr>"

definition sample_root :: inode where
  "sample_root = \<lparr>inode_file_type = TYPE_DIRECTORY, inode_file_size = 32, inode_sect_start = 5, inode_nr_sects = 1,
     inode_dev = ROOT_DEV_NR, inode_cnt = 1, inode_nr = 1\<rparr>"

definition sample_file :: inode where
  "sample_file = \<lparr>inode_file_type = TYPE_REGULAR, inode_file_size = 10, inode_sect_start = 6, inode_nr_sects = 2,
     inode_dev = ROOT_DEV_NR, inode_cnt = 1, inode_nr = 2\<rparr>"

definition free_inode :: inode where
  "free_inode = \<lparr>inode_file_type = 0, inode_file_size = 0, inode_sect_start = 0, inode_nr_sects = 0,
     inode_dev = 0, inode_cnt = 0, inode_nr = 0\<rparr>"

definition free_fd :: file_desc where
  "free_fd = \<lparr>fd_mode = 0, fd_pos = 0, fd_cnt = 0, fd_inode = None\<rparr>"

definition sample_fs :: fs where
  "sample_fs = \<lparr>hds = sample_hd\<lparr>drive := (drive sample_hd)\<lparr>media := sample_media\<rparr>,
       kern := sample_machine\<lparr>proc_table := (proc_table sample_machine)[5 := zero_proc\<lparr>file_desc := (replicate 64 None)[0 := Some 0]\<rparr>]\<rparr>\<rparr>,
     ttys = sample_tty_task, file_desc_table = \<lparr>fd_mode = 2, fd_pos = 0, fd_cnt = 1, fd_inode = Some 1\<rparr> # replicate 63 free_fd,
     inode_table = sample_root # sample_file # replicate 62 free_inode, super_block_table = [sample_sb],
     fs_msg = zero_msg\<lparr>source := 5, PID := 5\<rparr>, caller_proc = 5, root_inode = Some 0\<rparr>"

lemma ROOT_DEV_NR_eq: "ROOT_DEV_NR = 800"
  by (simp add: ROOT_DEV_NR_def MAKE_DEV_NR_def)

lemma sample_proc: "proc_at (fkern sample_fs) pid = (if pid = 5 then zero_proc\<lparr>file_desc := (replicate 64 None)[0 := Some 0]\<rparr> else zero_proc)"
  by (auto simp: sample_fs_def sample_machine_def proc_at_def nth_list_update)

lemma sample_fs_va2la: "pid < NR_TASKS_NATIVE + NR_PROCS_NATIVE \<Longrightarrow> proc_va2la (fkern sample_fs) pid a = Inr a"
  by (simp add: proc_va2la_def Let_def sample_proc ldt_idx_to_base_addr_def zero_proc_def zero_gdt_desc_def)

lemma sample_disk_ok: "disk_ok ROOT_DEV_NR sample_fs"
  unfolding disk_ok_def sample_fs_va2la [of TASK_FS, simplified] sample_fs_va2la [of TASK_HD, simplified]
  by (simp add: ROOT_DEV_NR_eq GET_DEV_MAJOR_NR_def GET_DEV_MINOR_NR_def sample_fs_def sample_hd_def part_of_minor_def DRIVE_OF_DEV_def
      nth_part_def signed_divide_int_def apart_def unat_u32_uminus)

lemma sample_sector: "n < SECT_LIMIT \<Longrightarrow> unat x < 512 \<Longrightarrow> sector ROOT_DEV_NR sample_fs n x = sample_media (of_nat n) x"
  by (simp add: sector_def dev_start_def ROOT_DEV_NR_eq GET_DEV_MINOR_NR_def sample_fs_def sample_hd_def part_of_minor_def DRIVE_OF_DEV_def
      nth_part_def signed_divide_int_def)

lemma sample_get_super_block: "get_super_block ROOT_DEV_NR sample_fs = Inr sample_sb"
  by (simp add: get_super_block_def sample_fs_def sample_sb_def)

end
