(* ===== verification/FsInode.thy ===== *)
theory FsInode
  imports Disk
begin

text \<open>
  Inodes on the disk and in the cache: where the inode array keeps them, what \<^verbatim>\<open>write_inode\<close> stores, what
  \<^verbatim>\<open>get_file_inode\<close> finds or loads, and that an inode survives leaving the cache.
\<close>

unbundle bit_operations_syntax

section \<open>The inode array\<close>

definition inode_off :: "int \<Rightarrow> u32" where
  "inode_off nr = word_of_int ((nr - 1) smod 16 * 32)"

definition inode_fields :: "mem \<Rightarrow> u32 \<Rightarrow> u32 \<times> u32 \<times> u32 \<times> u32" where
  "inode_fields mm a = (rd32 mm a, rd32 mm (a + 4), rd32 mm (a + 8), rd32 mm (a + 12))"

definition fields_of :: "inode \<Rightarrow> u32 \<times> u32 \<times> u32 \<times> u32" where
  "fields_of p = (inode_file_type p, inode_file_size p, inode_sect_start p, inode_nr_sects p)"

definition layout_ok :: "super_block \<Rightarrow> bool" where
  "layout_ok sb \<longleftrightarrow> 2 + unat (nr_inode_map_sects sb) + unat (nr_sect_map_sects sb) + unat (nr_inode_sects sb) < SECT_LIMIT"

definition inode_valid :: "super_block \<Rightarrow> int \<Rightarrow> bool" where
  "inode_valid sb nr \<longleftrightarrow> 1 \<le> nr \<and> nat nr \<le> 16 * unat (nr_inode_sects sb)"

definition disk_inode :: "int \<Rightarrow> super_block \<Rightarrow> fs \<Rightarrow> int \<Rightarrow> u32 \<times> u32 \<times> u32 \<times> u32" where
  "disk_inode dev sb s nr = inode_fields (sector dev s (nat (inode_sect sb nr))) (inode_off nr)"

lemma sint_of_nat_u32: "n < 2147483648 \<Longrightarrow> sint (of_nat n :: u32) = int n"
  using s32_id [of "int n"] by (simp add: s32_def)

lemma inode_addr_off: "inode_addr nr = fsbuf + inode_off nr"
  by (simp only: inode_addr_def inode_off_def)

lemma inode_off_unat:
  assumes "1 \<le> nr"
  shows "unat (inode_off nr) = 32 * nat ((nr - 1) mod 16)" "unat (inode_off nr) + 32 \<le> 512"
proof -
  have m: "0 \<le> (nr - 1) mod 16" "(nr - 1) mod 16 < 16" by simp_all
  then show eq: "unat (inode_off nr) = 32 * nat ((nr - 1) mod 16)"
    using assms unat_word_of_int_u32 [of "(nr - 1) mod 16 * 32"]
    by (simp add: inode_off_def smod_nonneg nat_mult_distrib del: of_int_mult)
  show "unat (inode_off nr) + 32 \<le> 512" unfolding eq using m by linarith
qed

lemma inode_sect_eq:
  assumes "layout_ok sb" "inode_valid sb nr"
  shows "inode_sect sb nr = 2 + int (unat (nr_inode_map_sects sb)) + int (unat (nr_sect_map_sects sb)) + (nr - 1) div 16"
    and "nat (inode_sect sb nr) < SECT_LIMIT" and "0 \<le> inode_sect sb nr"
proof -
  let ?k = "nat ((nr - 1) div 16)"
  let ?n = "2 + unat (nr_inode_map_sects sb) + unat (nr_sect_map_sects sb) + ?k"
  obtain m where m: "nr = int m + 1" using assms(2) by (metis inode_valid_def zle_iff_zadd add.commute)
  then have k: "?k < unat (nr_inode_sects sb)" "(nr - 1) div 16 = int ?k"
    using assms(2) by (auto simp: inode_valid_def nat_add_distrib zdiv_int [symmetric])
  then have n: "?n < SECT_LIMIT" using assms(1) by (simp add: layout_ok_def)
  have "(nr - 1) sdiv 16 = int ?k" using k(2) sdiv_nonneg [of "nr - 1" 16] m by linarith
  then have "1 + 1 + nr_inode_map_sects sb + nr_sect_map_sects sb + word_of_int ((nr - 1) sdiv 16) = (of_nat ?n :: u32)"
    by (simp only: of_int_of_nat_eq) simp
  then have "inode_sect sb nr = sint (of_nat ?n :: u32)" unfolding inode_sect_def by (rule arg_cong)
  also have "\<dots> = int ?n" by (rule sint_of_nat_u32, rule less_trans [OF n]) simp
  finally have fin: "inode_sect sb nr = int ?n" .
  then show "inode_sect sb nr = 2 + int (unat (nr_inode_map_sects sb)) + int (unat (nr_sect_map_sects sb)) + (nr - 1) div 16"
    using k(2) by linarith
  show "nat (inode_sect sb nr) < SECT_LIMIT" unfolding fin using n by (simp only: nat_int)
  show "0 \<le> inode_sect sb nr" unfolding fin by (rule of_nat_0_le_iff)
qed

text \<open>Different inodes are in different places.\<close>

lemma inode_place_inj:
  assumes "layout_ok sb" "inode_valid sb nr" "inode_valid sb nr'" "nr \<noteq> nr'"
    and "nat (inode_sect sb nr) = nat (inode_sect sb nr')"
  shows "apart (inode_off nr) 32 (inode_off nr') 32"
proof -
  have "(nr - 1) div 16 = (nr' - 1) div 16"
    using assms(5) inode_sect_eq [OF assms(1, 2)] inode_sect_eq [OF assms(1, 3)] by linarith
  then have "(nr - 1) mod 16 \<noteq> (nr' - 1) mod 16"
    using assms(4) div_mult_mod_eq [of "nr - 1" 16] div_mult_mod_eq [of "nr' - 1" 16] by (metis diff_add_cancel)
  then have ne: "nat ((nr - 1) mod 16) \<noteq> nat ((nr' - 1) mod 16)" by (simp add: eq_nat_nat_iff)
  have u: "unat (inode_off nr) = 32 * nat ((nr - 1) mod 16)" "unat (inode_off nr') = 32 * nat ((nr' - 1) mod 16)"
    using assms(2, 3) by (simp_all add: inode_valid_def inode_off_unat)
  have d: "32 \<le> unat (a - b)" if "unat a = 32 * i" "unat b = 32 * j" "i \<noteq> j" "i < 16" "j < 16" for a b :: u32 and i j :: nat
    using that unat_sub_if' [of a b] by (cases "j \<le> i") (auto split: if_splits)
  have "nat ((nr - 1) mod 16) < 16" "nat ((nr' - 1) mod 16) < 16" by (simp_all add: nat_less_iff)
  then show ?thesis unfolding apart_def using d u ne by metis
qed

lemma inode_fields_stored: "inode_fields (store_inode p a mm) a = fields_of p"
  by (simp add: inode_fields_def store_inode_def fields_of_def msg_offsets unat_u32_uminus)

lemma store_inode_out: "16 \<le> unat (x - a) \<Longrightarrow> store_inode p a mm x = mm x"
proof -
  assume le: "16 \<le> unat (x - a)"
  have "4 \<le> unat (x - (a + k))" if "unat k \<le> 12" for k
  proof -
    have "unat (x - a - k) = unat (x - a) - unat k" using le that by (intro unat_sub) (simp add: word_le_nat_alt)
    with le that show ?thesis by (simp add: diff_diff_eq)
  qed
  from this [of 0] this [of 4] this [of 8] this [of 12] show ?thesis by (simp add: store_inode_def wr32_other)
qed

lemma inode_fields_other:
  assumes "apart a 32 b 32"
  shows "inode_fields (store_inode p a mm) b = inode_fields mm b"
proof -
  have "rd32 (store_inode p a mm) (b + of_nat k) = rd32 mm (b + of_nat k)" if "k \<le> 12" for k
  proof (rule rd32_cong)
    fix i assume "i < (4 :: nat)"
    then show "store_inode p a mm (b + of_nat k + of_nat i) = mm (b + of_nat k + of_nat i)"
      using apart_offset [OF assms, of "k + i"] that by (intro store_inode_out) (simp add: add.assoc)
  qed
  from this [of 0] this [of 4] this [of 8] this [of 12] show ?thesis by (simp add: inode_fields_def)
qed

lemma store_inode_buffer:
  assumes "unat x + 32 \<le> 512"
  shows "sector_at (store_inode p (a + x) mm) a = store_inode p x (sector_at mm a)"
proof -
  have "unat (x + k) + 4 \<le> 512" if "unat k \<le> 12" for k
    using assms that by (subst unat_word_ariths) simp
  from this [of 0] this [of 4] this [of 8] this [of 12] show ?thesis
    by (simp add: store_inode_def add.assoc sector_at_wr32)
qed

section \<open>Writing an inode\<close>

lemma write_inode_spec:
  assumes "disk_ok dev s" "get_super_block dev s = Inr sb" "layout_ok sb"
    and "p = inode_table s ! i" "inode_dev p = dev" "inode_valid sb (inode_nr p)"
  defines "n \<equiv> nat (inode_sect sb (inode_nr p))"
  shows "\<exists>s'. write_inode i s = Inr s' \<and> disk_ok dev s' \<and> fs_rest s' = fs_rest s \<and>
    sector dev s' = (sector dev s)(n := store_inode p (inode_off (inode_nr p)) (sector dev s n))"
proof -
  let ?o = "inode_off (inode_nr p)"
  let ?f = "store_inode p (inode_addr (inode_nr p))"
  have n: "n < SECT_LIMIT" "spos (inode_sect sb (inode_nr p)) = spos (int n)"
    using inode_sect_eq [OF assms(3, 6)] by (simp_all add: n_def)
  obtain s1 s2 where s12: "RD_SECT dev (spos (int n)) s = Inr s1" "fbuf s1 = sector dev s n"
    "WR_SECT dev (spos (int n)) (upd_fmem ?f s1) = Inr s2" "disk_ok dev s2"
    "sector dev s2 = (sector dev s)(n := fbuf (upd_fmem ?f s1))" "fs_rest s2 = fs_rest s"
    using disk.read_modify_write [OF assms(1) n(1), of ?f] by blast
  have "fbuf (upd_fmem ?f s1) = store_inode p ?o (fbuf s1)"
    using inode_off_unat(2) [of "inode_nr p"] assms(6)
    by (simp add: fbuf_def upd_fmem_def inode_addr_off store_inode_buffer inode_valid_def)
  moreover have "write_inode i s = Inr s2"
    using s12 assms(2, 4, 5) n(2) by (simp add: write_inode_def Let_def)
  ultimately show ?thesis using s12 by auto
qed

lemma write_inode_disk:
  assumes "disk_ok dev s" "get_super_block dev s = Inr sb" "layout_ok sb"
    and "p = inode_table s ! i" "inode_dev p = dev" "inode_valid sb (inode_nr p)"
  shows "\<exists>s'. write_inode i s = Inr s' \<and> disk_ok dev s' \<and> fs_rest s' = fs_rest s \<and>
    disk_inode dev sb s' (inode_nr p) = fields_of p \<and>
    (\<forall>nr. inode_valid sb nr \<and> nr \<noteq> inode_nr p \<longrightarrow> disk_inode dev sb s' nr = disk_inode dev sb s nr) \<and>
    (\<forall>k. k \<noteq> nat (inode_sect sb (inode_nr p)) \<longrightarrow> sector dev s' k = sector dev s k)"
proof -
  obtain s' where s': "write_inode i s = Inr s'" "disk_ok dev s'" "fs_rest s' = fs_rest s"
    "sector dev s' = (sector dev s)(nat (inode_sect sb (inode_nr p)) :=
       store_inode p (inode_off (inode_nr p)) (sector dev s (nat (inode_sect sb (inode_nr p)))))"
    using write_inode_spec [OF assms] by blast
  have "disk_inode dev sb s' nr = disk_inode dev sb s nr" if "inode_valid sb nr" "nr \<noteq> inode_nr p" for nr
    using inode_place_inj [OF assms(3, 6) that(1)] that(2) by (auto simp: disk_inode_def s'(4) inode_fields_other)
  with s' show ?thesis by (auto simp: disk_inode_def inode_fields_stored)
qed

section \<open>The cache\<close>

definition caches :: "int \<Rightarrow> int \<Rightarrow> inode \<Rightarrow> bool" where
  "caches dev nr p \<longleftrightarrow> inode_cnt p \<noteq> 0 \<and> inode_dev p = dev \<and> inode_nr p = nr"

lemma find_inode_hit:
  assumes "k < length ps" "caches dev nr (ps ! k)" "\<forall>j < k. \<not> caches dev nr (ps ! j)"
  shows "find_inode dev nr ps i q = Inl (i + k)"
  using assms
proof (induction ps arbitrary: i q k)
  case (Cons p ps)
  show ?case
  proof (cases k)
    case 0
    with Cons.prems show ?thesis by (simp add: caches_def)
  next
    case (Suc m)
    have "find_inode dev nr ps (i + 1) q' = Inl (i + 1 + m)" for q'
      using Cons.prems Suc by (intro Cons.IH) auto
    moreover have "\<not> caches dev nr p" using Cons.prems(3) Suc by fastforce
    ultimately show ?thesis using Suc by (auto simp: caches_def)
  qed
qed simp

lemma find_inode_keeps: "\<forall>p \<in> set ps. \<not> caches dev nr p \<Longrightarrow> find_inode dev nr ps i (Some q) = Inr (Some q)"
  by (induction ps arbitrary: i) (auto simp: caches_def)

lemma find_inode_free:
  assumes "\<forall>p \<in> set ps. \<not> caches dev nr p" "k < length ps" "inode_cnt (ps ! k) = 0"
  shows "\<exists>q. find_inode dev nr ps i None = Inr (Some (i + q)) \<and> q < length ps \<and> inode_cnt (ps ! q) = 0"
  using assms
proof (induction ps arbitrary: i k)
  case (Cons p ps)
  show ?case
  proof (cases "inode_cnt p = 0")
    case True
    with Cons.prems find_inode_keeps [of ps dev nr "i + 1" i] show ?thesis by (intro exI [of _ 0]) auto
  next
    case False
    then obtain m where m: "k = Suc m" using Cons.prems(3) by (cases k) auto
    from Cons.IH [of m "i + 1"] Cons.prems m obtain q where
      "find_inode dev nr ps (i + 1) None = Inr (Some (i + 1 + q))" "q < length ps" "inode_cnt (ps ! q) = 0" by auto
    with False Cons.prems(1) show ?thesis by (intro exI [of _ "Suc q"]) (auto simp: caches_def)
  qed
qed simp

text \<open>A cached inode is shared, with one more reference; the disk is not read.\<close>

lemma get_file_inode_hit:
  assumes "nr \<noteq> 0" "k < length (inode_table s)" "caches dev nr (inode_table s ! k)"
    "\<forall>j < length (inode_table s). j \<noteq> k \<longrightarrow> \<not> caches dev nr (inode_table s ! j)"
  shows "get_file_inode dev nr s = Inr (Some k, upd_inode k (\<lambda>p. p\<lparr>inode_cnt := inode_cnt p + 1\<rparr>) s)"
proof -
  have "find_inode dev nr (inode_table s) 0 None = Inl (0 + k)" using assms by (intro find_inode_hit) auto
  then show ?thesis using assms(1) by (simp add: get_file_inode_def)
qed

lemma rest_upd_inode:
  "fs_rest s' = fs_rest s \<Longrightarrow> inode_table s' = inode_table s"
  "fs_rest s' = fs_rest s \<Longrightarrow> super_block_table s' = super_block_table s"
  "fs_rest s' = fs_rest s \<Longrightarrow> file_desc_table s' = file_desc_table s"
  by (simp_all add: fs_rest_def)

lemma upd_inode_simps [simp]:
  "hds (upd_inode i f s) = hds s" "super_block_table (upd_inode i f s) = super_block_table s"
  "length (inode_table (upd_inode i f s)) = length (inode_table s)" "file_desc_table (upd_inode i f s) = file_desc_table s"
  "get_super_block dev (upd_inode i f s) = get_super_block dev s"
  "disk_ok dev (upd_inode i f s) = disk_ok dev s" "sector dev (upd_inode i f s) = sector dev s"
  by (simp_all add: upd_inode_def get_super_block_def disk_ok_def sector_def dev_start_def fun_eq_iff cong: option.case_cong)

lemma get_super_block_rest: "fs_rest s' = fs_rest s \<Longrightarrow> get_super_block dev s' = get_super_block dev s"
  by (simp add: get_super_block_def fs_rest_def cong: option.case_cong)

text \<open>An inode that is not cached is loaded from the inode array into a free slot.\<close>

lemma get_file_inode_miss:
  assumes "disk_ok dev s" "get_super_block dev s = Inr sb" "layout_ok sb" "inode_valid sb nr"
    and "\<forall>p \<in> set (inode_table s). \<not> caches dev nr p" "k < length (inode_table s)" "inode_cnt (inode_table s ! k) = 0"
  shows "\<exists>q s'. get_file_inode dev nr s = Inr (Some q, s') \<and> q < length (inode_table s) \<and> inode_cnt (inode_table s ! q) = 0 \<and>
    fields_of (inode_table s' ! q) = disk_inode dev sb s nr \<and> inode_cnt (inode_table s' ! q) = 1 \<and>
    inode_dev (inode_table s' ! q) = dev \<and> inode_nr (inode_table s' ! q) = nr \<and>
    inode_table s' = (inode_table s)[q := inode_table s' ! q] \<and> disk_ok dev s' \<and> sector dev s' = sector dev s"
proof -
  obtain q where q: "find_inode dev nr (inode_table s) 0 None = Inr (Some q)" "q < length (inode_table s)"
    "inode_cnt (inode_table s ! q) = 0" using find_inode_free [OF assms(5-7), of 0] by auto
  let ?s1 = "upd_inode q (\<lambda>p. p\<lparr>inode_dev := dev, inode_nr := nr, inode_cnt := 1\<rparr>) s"
  let ?n = "nat (inode_sect sb nr)"
  have n: "?n < SECT_LIMIT" "spos (inode_sect sb nr) = spos (int ?n)" using inode_sect_eq [OF assms(3, 4)] by simp_all
  obtain s2 where s2: "RD_SECT dev (spos (int ?n)) ?s1 = Inr s2" "disk_ok dev s2" "sector dev s2 = sector dev s"
    "fbuf s2 = sector dev s ?n" "fs_rest s2 = fs_rest ?s1"
    using disk.rd_spec [of dev ?s1, OF _ n(1)] assms(1) by auto
  let ?f = "\<lambda>p. p\<lparr>inode_file_type := rd32 (fmem s2) (inode_addr nr), inode_file_size := rd32 (fmem s2) (inode_addr nr + 4),
     inode_sect_start := rd32 (fmem s2) (inode_addr nr + 8), inode_nr_sects := rd32 (fmem s2) (inode_addr nr + 12)\<rparr>"
  have off: "unat (inode_off nr + k) + 4 \<le> 512" if "unat k \<le> 12" for k
    using inode_off_unat(2) [of nr] assms(4) that by (subst unat_word_ariths) (simp add: inode_valid_def)
  have rd: "rd32 (fmem s2) (inode_addr nr + k) = rd32 (sector dev s ?n) (inode_off nr + k)" if "unat k \<le> 12" for k
    using sector_at_rd32 [OF off [OF that], of "fmem s2" fsbuf] s2(4) by (simp add: fbuf_def inode_addr_off add.assoc)
  have tab: "inode_table s2 = inode_table ?s1" using rest_upd_inode(1) [OF s2(5)] .
  have "nr \<noteq> 0" using assms(4) by (auto simp: inode_valid_def)
  then have "get_file_inode dev nr s = Inr (Some q, upd_inode q ?f s2)"
    using q(1) assms(2) s2(1) n(2) by (simp add: get_file_inode_def Let_def)
  moreover have "inode_table (upd_inode q ?f s2) = (inode_table s)[q := ?f ((inode_table s ! q)\<lparr>inode_dev := dev, inode_nr := nr, inode_cnt := 1\<rparr>)]"
    using q(2) by (simp add: upd_inode_def tab)
  ultimately show ?thesis
    using q s2(2, 3) rd [of 0] rd [of 4] rd [of 8] rd [of 12]
    by (intro exI [of _ q] exI [of _ "upd_inode q ?f s2"]) (simp add: fields_of_def disk_inode_def inode_fields_def)
qed

text \<open>C24: An inode survives leaving the cache. Writing the inode of an open file to the disk, dropping its
  last reference and getting it again always succeeds and yields the same type, size, first sector
  and sector count, with one reference; the write changes no other inode of the array.\<close>

theorem inode_survives_cache:
  assumes "disk_ok dev s" and "get_super_block dev s = Inr sb" and "layout_ok sb"
    and "i < length (inode_table s)" and "p = inode_table s ! i" and "inode_dev p = dev" and "inode_valid sb (inode_nr p)"
    and "inode_cnt p = 1" and "\<forall>j < length (inode_table s). j \<noteq> i \<longrightarrow> \<not> caches dev (inode_nr p) (inode_table s ! j)"
  shows "\<exists>s1 s2 s3 q. write_inode i s = Inr s1 \<and> put_inode (Some i) s1 = Inr s2 \<and>
    get_file_inode dev (inode_nr p) s2 = Inr (Some q, s3) \<and> fields_of (inode_table s3 ! q) = fields_of p \<and>
    caches dev (inode_nr p) (inode_table s3 ! q) \<and> inode_cnt (inode_table s3 ! q) = 1 \<and>
    (\<forall>nr. inode_valid sb nr \<and> nr \<noteq> inode_nr p \<longrightarrow> disk_inode dev sb s1 nr = disk_inode dev sb s nr)"
proof -
  obtain s1 where s1: "write_inode i s = Inr s1" "disk_ok dev s1" "fs_rest s1 = fs_rest s"
    "disk_inode dev sb s1 (inode_nr p) = fields_of p"
    "\<forall>nr. inode_valid sb nr \<and> nr \<noteq> inode_nr p \<longrightarrow> disk_inode dev sb s1 nr = disk_inode dev sb s nr"
    using write_inode_disk [OF assms(1-3, 5-7)] by blast
  let ?s2 = "upd_inode i (\<lambda>p. p\<lparr>inode_cnt := inode_cnt p - 1\<rparr>) s1"
  have tab: "inode_table s1 = inode_table s" using rest_upd_inode(1) [OF s1(3)] .
  then have put: "put_inode (Some i) s1 = Inr ?s2" using assms(4, 5, 8) by (simp add: put_inode_def deref_def)
  have t2: "inode_table ?s2 = (inode_table s)[i := p\<lparr>inode_cnt := 0\<rparr>]" using tab assms(5, 8) by (simp add: upd_inode_def)
  have "\<not> caches dev (inode_nr p) (inode_table ?s2 ! j)" if "j < length (inode_table s)" for j
    unfolding t2 using assms(9) that by (cases "j = i") (auto simp: caches_def)
  then have none: "\<forall>p' \<in> set (inode_table ?s2). \<not> caches dev (inode_nr p) p'"
    using t2 by (metis in_set_conv_nth length_list_update)
  have "disk_ok dev ?s2" "get_super_block dev ?s2 = Inr sb" "i < length (inode_table ?s2)" "inode_cnt (inode_table ?s2 ! i) = 0"
    using s1(2) assms(2, 4) get_super_block_rest [OF s1(3)] by (simp_all add: t2)
  from get_file_inode_miss [OF this(1, 2) assms(3, 7) none this(3, 4)] obtain q s3 where
    "get_file_inode dev (inode_nr p) ?s2 = Inr (Some q, s3)" "fields_of (inode_table s3 ! q) = disk_inode dev sb ?s2 (inode_nr p)"
    "inode_cnt (inode_table s3 ! q) = 1" "inode_dev (inode_table s3 ! q) = dev" "inode_nr (inode_table s3 ! q) = inode_nr p" by blast
  moreover have "disk_inode dev sb ?s2 (inode_nr p) = fields_of p" using s1(4) by (simp add: disk_inode_def)
  ultimately show ?thesis using s1(1, 5) put by (auto simp: caches_def)
qed

theorem inode_survives_cache_witness:
  "\<exists>s1 s2 s3 q. write_inode 1 sample_fs = Inr s1 \<and> put_inode (Some 1) s1 = Inr s2 \<and>
     get_file_inode ROOT_DEV_NR 2 s2 = Inr (Some q, s3) \<and> fields_of (inode_table s3 ! q) = (0x8000, 10, 6, 2)"
proof -
  have "\<not> caches ROOT_DEV_NR 2 (inode_table sample_fs ! j)" if "j < length (inode_table sample_fs)" "j \<noteq> 1" for j
    using that by (cases j; cases "j - 1")
      (auto simp: sample_fs_def caches_def sample_root_def free_inode_def)
  moreover have "layout_ok sample_sb" "inode_valid sample_sb 2" by (simp_all add: layout_ok_def inode_valid_def sample_sb_def)
  moreover have "inode_table sample_fs ! 1 = sample_file" "1 < length (inode_table sample_fs)" by (simp_all add: sample_fs_def)
  moreover have "inode_dev sample_file = ROOT_DEV_NR" "inode_nr sample_file = 2" "inode_cnt sample_file = 1"
    "fields_of sample_file = (0x8000, 10, 6, 2)"
    by (simp_all add: sample_file_def fields_of_def)
  ultimately show ?thesis
    using inode_survives_cache [OF sample_disk_ok sample_get_super_block, of 1 sample_file] by (simp only: simp_thms) blast
qed

end
