(* ===== verification/FsDir.thy ===== *)
theory FsDir
  imports FsInode FsOps
begin

text \<open>
  The root directory: which entry \<^verbatim>\<open>get_file_inode_nr\<close> finds. The lookup is compared with a specification
  on the directory as a sequence of entries on the disk.
\<close>

unbundle bit_operations_syntax

section \<open>The first index with a property\<close>

fun first_hit :: "(nat \<Rightarrow> bool) \<Rightarrow> nat \<Rightarrow> nat option" where
  "first_hit P 0 = None"
| "first_hit P (Suc n) = (if P 0 then Some 0 else map_option Suc (first_hit (\<lambda>k. P (Suc k)) n))"

lemma first_hit_add:
  "first_hit P (a + b) = (case first_hit P a of Some k \<Rightarrow> Some k | None \<Rightarrow> map_option (\<lambda>k. a + k) (first_hit (\<lambda>k. P (a + k)) b))"
proof (induction a arbitrary: P)
  case 0
  show ?case by (cases "first_hit P b") simp_all
next
  case (Suc a)
  have "((+) (Suc a)) = (\<lambda>x. Suc (a + x))" by auto
  with Suc.IH [of "\<lambda>k. P (Suc k)"] show ?case by (auto simp: option.map_comp comp_def split: option.split)
qed

lemma first_hit_None: "first_hit P n = None \<longleftrightarrow> (\<forall>k < n. \<not> P k)"
  by (induction n arbitrary: P) (auto simp: less_Suc_eq_0_disj)

lemma first_hit_Some: "first_hit P n = Some k \<longleftrightarrow> k < n \<and> P k \<and> (\<forall>j < k. \<not> P j)"
  by (induction n arbitrary: P k) (auto simp: less_Suc_eq_0_disj)

lemma first_hit_cong:
  assumes "\<And>k. k < n \<Longrightarrow> P k = Q k"
  shows "first_hit P n = first_hit Q n"
  using assms
proof (induction n arbitrary: P Q)
  case (Suc n)
  have "first_hit (\<lambda>k. P (Suc k)) n = first_hit (\<lambda>k. Q (Suc k)) n" using Suc.prems by (intro Suc.IH) simp
  with Suc.prems [of 0] show ?case by simp
qed simp

section \<open>The directory on the disk\<close>

definition de_name :: "int \<Rightarrow> fs \<Rightarrow> nat \<Rightarrow> nat \<Rightarrow> u8 list" where
  "de_name dev s sect0 k = entry_name (sector dev s (sect0 + k div 32)) (16 * of_nat (k mod 32))"

definition de_inode :: "int \<Rightarrow> fs \<Rightarrow> nat \<Rightarrow> nat \<Rightarrow> int" where
  "de_inode dev s sect0 k = entry_inode (sector dev s (sect0 + k div 32)) (16 * of_nat (k mod 32))"

text \<open>What a lookup should yield: the inode number of the first of \<open>n\<close> entries with that name, or 0.\<close>

definition dir_lookup :: "int \<Rightarrow> fs \<Rightarrow> nat \<Rightarrow> u8 list \<Rightarrow> nat \<Rightarrow> int" where
  "dir_lookup dev s sect0 nm n =
     (case first_hit (\<lambda>k. de_name dev s sect0 k = padded_name nm) n of None \<Rightarrow> INVALID_INODE | Some k \<Rightarrow> de_inode dev s sect0 k)"

lemma entry_offset:
  assumes "j < 32" "c < 16"
  shows "unat (16 * of_nat j + of_nat c :: u32) = 16 * j + c"
  using assms unat_of_nat_u32 [of "16 * j + c"] by simp

lemma buffer_entry:
  assumes "j < 32"
  shows "entry_name mm (fsbuf + 16 * of_nat j) = entry_name (sector_at mm fsbuf) (16 * of_nat j)"
    and "entry_inode mm (fsbuf + 16 * of_nat j) = entry_inode (sector_at mm fsbuf) (16 * of_nat j)"
proof -
  show "entry_name mm (fsbuf + 16 * of_nat j) = entry_name (sector_at mm fsbuf) (16 * of_nat j)"
    unfolding entry_name_def
  proof (rule read_bytes_cong)
    fix i assume "i < (12 :: nat)"
    then have "unat (16 * of_nat j + of_nat (4 + i) :: u32) < 512" using entry_offset [OF assms, of "4 + i"] assms by simp
    then show "mm (fsbuf + 16 * of_nat j + 4 + of_nat i) = sector_at mm fsbuf (16 * of_nat j + 4 + of_nat i)"
      by (simp add: sector_at_def add.assoc)
  qed
  show "entry_inode mm (fsbuf + 16 * of_nat j) = entry_inode (sector_at mm fsbuf) (16 * of_nat j)"
    using sector_at_rd32 [of "16 * of_nat j" mm fsbuf] entry_offset [OF assms, of 0] assms by (simp add: entry_inode_def)
qed

lemma lookup_sector_eq:
  assumes "d \<le> m"
  shows "lookup_sector mm nm (int m) n p (int d) =
    (case first_hit (\<lambda>t. entry_name mm (p + 16 * of_nat t) = padded_name nm) (min n (m - d + 1)) of
       Some t \<Rightarrow> (Some (entry_inode mm (p + 16 * of_nat t)), int (d + t))
     | None \<Rightarrow> (None, int (if m - d < n then m + 1 else d + n)))"
  using assms
proof (induction n arbitrary: p d)
  case (Suc n)
  show ?case
  proof (cases "entry_name mm p = padded_name nm \<or> d = m")
    case True
    then show ?thesis using Suc.prems by (auto simp: min_def)
  next
    case False
    with Suc.prems have d: "Suc d \<le> m" by simp
    then have m: "min (Suc n) (m - d + 1) = Suc (min n (m - Suc d + 1))" by auto
    have IH: "lookup_sector mm nm (int m) n (p + 16) (int (Suc d)) =
      (case first_hit (\<lambda>t. entry_name mm (p + 16 + 16 * of_nat t) = padded_name nm) (min n (m - Suc d + 1)) of
         Some t \<Rightarrow> (Some (entry_inode mm (p + 16 + 16 * of_nat t)), int (Suc d + t))
       | None \<Rightarrow> (None, int (if m - Suc d < n then m + 1 else Suc d + n)))" by (rule Suc.IH [OF d])
    have "lookup_sector mm nm (int m) (Suc n) p (int d) = lookup_sector mm nm (int m) n (p + 16) (int (Suc d))"
      using False d by (simp add: add.commute)
    then show ?thesis unfolding IH m using False d
      by (auto simp: add.assoc split: option.split)
  qed
qed simp

text \<open>The loop over the sectors of the directory, from sector \<open>i\<close> on.\<close>

lemma lookup_loop_eq:
  assumes "disk_ok dev s" "sect0 + i + n \<le> SECT_LIMIT" "32 * i \<le> m"
  shows "\<exists>s'. lookup_loop dev (int sect0) nm (int m) n (int i) (int (32 * i)) s = Inr
    (case first_hit (\<lambda>t. de_name dev s sect0 (32 * i + t) = padded_name nm) (min (32 * n) (m - 32 * i + 1)) of
       None \<Rightarrow> INVALID_INODE | Some t \<Rightarrow> de_inode dev s sect0 (32 * i + t), s') \<and>
    disk_ok dev s' \<and> sector dev s' = sector dev s \<and> fs_rest s' = fs_rest s"
  using assms
proof (induction n arbitrary: i s)
  case (Suc n)
  let ?P = "\<lambda>s t. de_name dev s sect0 (32 * i + t) = padded_name nm"
  have lim: "sect0 + i < SECT_LIMIT" "s32 (int sect0 + int i) = int (sect0 + i)" using Suc.prems(2) by (auto simp: s32_id)
  obtain s1 where s1: "RD_SECT dev (spos (int (sect0 + i))) s = Inr s1" "disk_ok dev s1" "sector dev s1 = sector dev s"
    "fbuf s1 = sector dev s (sect0 + i)" "fs_rest s1 = fs_rest s" using disk.rd_spec [OF Suc.prems(1) lim(1)] by blast
  have ent: "entry_name (fmem s1) (fsbuf + 16 * of_nat t) = de_name dev s sect0 (32 * i + t)"
    "entry_inode (fmem s1) (fsbuf + 16 * of_nat t) = de_inode dev s sect0 (32 * i + t)" if "t < 32" for t
    using that s1(4) by (simp_all add: buffer_entry [OF that] de_name_def de_inode_def fbuf_def)
  have fh: "first_hit (\<lambda>t. entry_name (fmem s1) (fsbuf + 16 * of_nat t) = padded_name nm) (min 32 (m - 32 * i + 1)) =
      first_hit (?P s) (min 32 (m - 32 * i + 1))" by (rule first_hit_cong) (simp add: ent)
  note sec = lookup_sector_eq [OF Suc.prems(3), of "fmem s1" nm 32 fsbuf, unfolded fh]
  show ?case
  proof (cases "first_hit (?P s) (min 32 (m - 32 * i + 1))")
    case (Some t)
    then have t: "t < 32" unfolding first_hit_Some by auto
    have "min (32 * Suc n) (m - 32 * i + 1) = min 32 (m - 32 * i + 1) + (min (32 * Suc n) (m - 32 * i + 1) - min 32 (m - 32 * i + 1))" by auto
    then have "first_hit (?P s) (min (32 * Suc n) (m - 32 * i + 1)) = Some t"
      using Some first_hit_add [of "?P s" "min 32 (m - 32 * i + 1)"] by (metis option.simps(5))
    then show ?thesis using s1 sec Some lim(2) ent(2) [OF t] by simp
  next
    case None
    show ?thesis
    proof (cases "m - 32 * i < 32")
      case True
      then have "min (32 * Suc n) (m - 32 * i + 1) = min 32 (m - 32 * i + 1)" by auto
      then show ?thesis using s1 sec None lim(2) True by simp
    next
      case False
      then have i': "32 * (i + 1) \<le> m" and m: "min (32 * Suc n) (m - 32 * i + 1) = 32 + min (32 * n) (m - 32 * (i + 1) + 1)"
        using Suc.prems(3) by auto
      have loop: "lookup_loop dev (int sect0) nm (int m) (Suc n) (int i) (int (32 * i)) s =
          lookup_loop dev (int sect0) nm (int m) n (int (i + 1)) (int (32 * (i + 1))) s1"
        using s1 sec None lim(2) False i' by (simp add: add.commute)
      have cont: "de_name dev s1 = de_name dev s" "de_inode dev s1 = de_inode dev s"
        by (simp_all add: fun_eq_iff de_name_def de_inode_def s1(3))
      have "first_hit (?P s) 32 = None" using None False by (simp add: min_def split: if_splits)
      then have "first_hit (?P s) (min (32 * Suc n) (m - 32 * i + 1)) = map_option (\<lambda>k. 32 + k)
          (first_hit (\<lambda>t. de_name dev s sect0 (32 * (i + 1) + t) = padded_name nm) (min (32 * n) (m - 32 * (i + 1) + 1)))"
        unfolding m first_hit_add by (simp add: add.assoc add.left_commute)
      moreover from Suc.IH [OF s1(2) _ i'] Suc.prems(2) cont obtain s' where
        "lookup_loop dev (int sect0) nm (int m) n (int (i + 1)) (int (32 * (i + 1))) s1 = Inr
          (case first_hit (\<lambda>t. de_name dev s sect0 (32 * (i + 1) + t) = padded_name nm) (min (32 * n) (m - 32 * (i + 1) + 1)) of
             None \<Rightarrow> INVALID_INODE | Some t \<Rightarrow> de_inode dev s sect0 (32 * (i + 1) + t), s')"
        "disk_ok dev s'" "sector dev s' = sector dev s1" "fs_rest s' = fs_rest s1" by (auto cong: option.case_cong)
      ultimately show ?thesis using loop s1(3, 5) by (auto simp: add.assoc add.left_commute split: option.split)
    qed
  qed
qed simp

section \<open>Looking up a path\<close>

definition dir_entries :: "inode \<Rightarrow> nat" where
  "dir_entries p = unat (inode_file_size p) div 16"

definition dir_sects :: "inode \<Rightarrow> nat" where
  "dir_sects p = (unat (inode_file_size p) + 511) div 512"

lemma dir_size_words:
  assumes "unat (inode_file_size p) \<le> 2 ^ 20"
  shows "sint (inode_file_size p div 16) = int (dir_entries p)"
    and "nat (sint ((inode_file_size p + 512 - 1) div 512)) = dir_sects p"
proof -
  have d: "unat (inode_file_size p div 16) = dir_entries p" by (simp add: dir_entries_def unat_div)
  show "sint (inode_file_size p div 16) = int (dir_entries p)"
    using sint_u32_unat [of "inode_file_size p div 16"] d assms by (simp add: dir_entries_def)
  have "inode_file_size p + 512 - 1 = inode_file_size p + 511" by simp
  moreover have "unat (inode_file_size p + 511) = unat (inode_file_size p) + 511" using assms by (subst unat_word_ariths) simp
  moreover have "unat (512 :: u32) = 512" by simp
  ultimately have u: "unat ((inode_file_size p + 512 - 1) div 512) = dir_sects p" by (simp only: dir_sects_def unat_div)
  then have "unat ((inode_file_size p + 512 - 1) div 512) < 2147483648" using assms by (simp add: dir_sects_def)
  from sint_u32_unat [OF this] u show "nat (sint ((inode_file_size p + 512 - 1) div 512)) = dir_sects p" by simp
qed

lemma dir_lookup_cut:
  assumes "de_name dev s sect0 n \<noteq> padded_name nm"
  shows "dir_lookup dev s sect0 nm (min (n + 1) k) = dir_lookup dev s sect0 nm (min n k)"
proof (cases "n < k")
  case True
  then have "first_hit (\<lambda>k. de_name dev s sect0 k = padded_name nm) (n + 1) = first_hit (\<lambda>k. de_name dev s sect0 k = padded_name nm) n"
    unfolding first_hit_add using assms by (simp split: option.split)
  with True show ?thesis by (simp add: dir_lookup_def min_def)
qed (simp add: min_def)

text \<open>C31: Looking up a path. For a path that is a name, \<^verbatim>\<open>get_file_inode_nr\<close> always returns; it yields the inode
  number of the first directory entry with that name, or 0 if there is none, and leaves the disk and all
  tables as they are. It looks at one entry more than the directory has: only when the entry after the
  last one does not have the name is the result the one of the directory itself.\<close>

theorem path_lookup:
  assumes "get_file_name path = Some nm" and "nm \<noteq> []" and "root_inode s = Some r" and "r < length (inode_table s)"
    and "root = inode_table s ! r" and "dev = inode_dev root" and "sect0 = unat (inode_sect_start root)"
    and "disk_ok dev s" and "unat (inode_file_size root) \<le> 2 ^ 20" and "sect0 + dir_sects root \<le> SECT_LIMIT"
  shows "\<exists>nr s'. get_file_inode_nr path s = Inr (nr, s') \<and> disk_ok dev s' \<and> sector dev s' = sector dev s \<and> fs_rest s' = fs_rest s \<and>
    nr = dir_lookup dev s sect0 nm (min (dir_entries root + 1) (32 * dir_sects root)) \<and>
    (de_name dev s sect0 (dir_entries root) \<noteq> padded_name nm \<longrightarrow> nr = dir_lookup dev s sect0 nm (dir_entries root))"
proof -
  have le: "dir_entries root \<le> 32 * dir_sects root" by (simp add: dir_entries_def dir_sects_def)
  have "unat (inode_sect_start root) < 2147483648" using assms(7, 10) by simp
  then have s0: "sint (inode_sect_start root) = int sect0" using sint_u32_unat assms(7) by blast
  have "get_file_inode_nr path s = lookup_loop dev (int sect0) nm (int (dir_entries root)) (dir_sects root) 0 0 s"
    using assms(1-6) s0 dir_size_words [OF assms(9)] by (simp add: get_file_inode_nr_def deref_def Let_def)
  moreover from lookup_loop_eq [OF assms(8), of sect0 0 "dir_sects root" "dir_entries root" nm] assms(10) obtain s' where
    "lookup_loop dev (int sect0) nm (int (dir_entries root)) (dir_sects root) 0 0 s = Inr
      (dir_lookup dev s sect0 nm (min (dir_entries root + 1) (32 * dir_sects root)), s')"
    "disk_ok dev s'" "sector dev s' = sector dev s" "fs_rest s' = fs_rest s"
    by (auto simp: dir_lookup_def min.commute cong: option.case_cong)
  ultimately show ?thesis using dir_lookup_cut le by (simp add: min_absorb1)
qed

theorem path_lookup_witness:
  "\<exists>s'. get_file_inode_nr [47, 97, 0] sample_fs = Inr (2, s') \<and> sector ROOT_DEV_NR s' = sector ROOT_DEV_NR sample_fs"
proof -
  have root: "root_inode sample_fs = Some 0" "0 < length (inode_table sample_fs)" "inode_table sample_fs ! 0 = sample_root"
    by (simp_all add: sample_fs_def)
  have nm: "get_file_name [47, 97, 0] = Some [97]" by (simp add: get_file_name_def)
  have sz: "unat (inode_file_size sample_root) = 32" "unat (inode_sect_start sample_root) = 5" "inode_dev sample_root = ROOT_DEV_NR"
    "dir_sects sample_root = 1" "dir_entries sample_root = 2"
    by (simp_all add: sample_root_def dir_sects_def dir_entries_def)
  have dir: "sector ROOT_DEV_NR sample_fs 5 x = ((\<lambda>_. 0)(0 := 1, 4 := 46, 16 := 2, 20 := 97)) x" if "unat x < 512" for x :: u32
    using sample_sector [of 5 x] that by (simp add: sample_media_def)
  have e: "de_name ROOT_DEV_NR sample_fs 5 0 = [46, 0, 0, 0, 0, 0, 0, 0, 0, 0, 0, 0]"
    "de_name ROOT_DEV_NR sample_fs 5 1 = [97, 0, 0, 0, 0, 0, 0, 0, 0, 0, 0, 0]" "de_inode ROOT_DEV_NR sample_fs 5 1 = 2"
    by (simp_all add: de_name_def de_inode_def entry_name_def entry_inode_def read_bytes_def upt_rec rd32_def dir)
  have p: "padded_name [97] = [97, 0, 0, 0, 0, 0, 0, 0, 0, 0, 0, 0]" by (simp add: padded_name_def numeral_eq_Suc)
  have "first_hit (\<lambda>k. de_name ROOT_DEV_NR sample_fs 5 k = padded_name [97]) (min (2 + 1) (32 * 1)) = Some 1"
    unfolding first_hit_Some p using e by simp
  then have "dir_lookup ROOT_DEV_NR sample_fs 5 [97] (min (2 + 1) (32 * 1)) = 2" using e(3) by (simp add: dir_lookup_def)
  then show ?thesis
    using path_lookup [OF nm _ root(1, 2), of sample_root ROOT_DEV_NR 5] sz root(3) sample_disk_ok by auto
qed

end
