(* ===== verification/FsAlloc.thy ===== *)
theory FsAlloc
  imports FsInode FsOps
begin

text \<open>
  The inode map and the sector map of \<^verbatim>\<open>src/task/fs/open_close.c\<close> and \<^verbatim>\<open>unlink.c\<close>: which bits of the disk an
  allocation sets and which a release clears. The disk is read as one string of bits, bit \<open>4096 * n + i\<close> being bit
  \<open>i\<close> of sector \<open>n\<close>.
\<close>

unbundle bit_operations_syntax

section \<open>The disk as a string of bits\<close>

definition sect_bit :: "(nat \<Rightarrow> mem) \<Rightarrow> nat \<Rightarrow> bool" where
  "sect_bit F g = bit (F (g div 4096) (of_nat (g mod 4096 div 8))) (g mod 8)"

abbreviation disk_bit :: "int \<Rightarrow> fs \<Rightarrow> nat \<Rightarrow> bool" where
  "disk_bit dev s \<equiv> sect_bit (sector dev s)"

text \<open>Where bit \<open>j\<close> of byte \<open>k\<close> of sector \<open>n\<close> is.\<close>

lemma bit_place:
  assumes "k < 512" "j < (8 :: nat)" and g: "g = 8 * (512 * n + k) + j"
  shows "g div 8 = 512 * n + k" "g mod 8 = j" "g div 4096 = n" "g mod 4096 div 8 = k"
proof -
  have lt: "8 * k + j < 4096" using assms(1, 2) by simp
  show "g div 8 = 512 * n + k" using assms(2) unfolding g by (intro div_nat_eqI) auto
  show "g mod 8 = j" unfolding g using assms(2) by (simp only: mod_mult_self4 mod_less)
  show "g div 4096 = n" using lt unfolding g by (intro div_nat_eqI) auto
  have "g = 8 * k + j + 4096 * n" unfolding g by simp
  then have "g mod 4096 = 8 * k + j" using lt by (metis mod_mult_self2 mod_less)
  then show "g mod 4096 div 8 = k" using assms(2) by (auto intro: div_nat_eqI)
qed

lemma place_iff: "k < 512 \<Longrightarrow> j < 8 \<Longrightarrow> g = 8 * (512 * n + k) + j \<longleftrightarrow> g div 8 = 512 * n + k \<and> g mod 8 = (j :: nat)"
  using bit_place(1, 2) [of k j g n] by (metis mult_div_mod_eq)

lemma bit_place_ex: "\<exists>n k j. k < 512 \<and> j < 8 \<and> g = 8 * (512 * n + k) + (j :: nat)"
proof -
  have "g = 8 * (512 * (g div 8 div 512) + g div 8 mod 512) + g mod 8" by simp
  moreover have "g div 8 mod 512 < 512" "g mod 8 < 8" by simp_all
  ultimately show ?thesis by blast
qed

lemma sect_bit_at: "k < 512 \<Longrightarrow> j < 8 \<Longrightarrow> sect_bit F (8 * (512 * n + k) + j) = bit (F n (of_nat k)) j"
  by (simp only: sect_bit_def bit_place [OF _ _ refl])

lemma sect_bit_update:
  assumes "k < 512"
  shows "sect_bit (F(n := (F n)(of_nat k := b))) g = (if g div 8 = 512 * n + k then bit b (g mod 8) else sect_bit F g)"
proof -
  obtain n' k' j where g: "k' < 512" "j < 8" "g = 8 * (512 * n' + k') + j" using bit_place_ex by blast
  have "512 * n' + k' = 512 * n + k \<longleftrightarrow> n' = n \<and> k' = k" using assms g(1) 
  proof (intro iffI conjI)
    assume eq: "512 * n' + k' = 512 * n + k"
    then show "n' = n" using assms g(1) by linarith
    then show "k' = k" using eq by simp
  qed simp
  moreover have "sect_bit F' g = bit (F' n' (of_nat k')) j" for F' unfolding g(3) by (rule sect_bit_at [OF g(1, 2)])
  ultimately show ?thesis using assms g(1) unfolding bit_place(1, 2) [OF g] by (auto simp: of_nat_u32_inj)
qed

lemma sectors_eqI:
  assumes "\<And>g. disk_bit dev s g = disk_bit dev s' g"
  shows "sector dev s = sector dev s'"
proof (intro ext)
  fix n x
  show "sector dev s n x = sector dev s' n x"
  proof (cases "unat x < 512")
    case True
    then have "bit (sector dev s n x) j = bit (sector dev s' n x) j" if "j < 8" for j
      using assms [of "8 * (512 * n + unat x) + j"] that by (simp only: sect_bit_at) simp
    then show ?thesis by (intro bit_word_eqI) simp
  qed (simp add: sector_def)
qed

text \<open>A byte of the buffer, and the disk as it would be with the buffer written to sector \<open>n\<close>.\<close>

lemma fmem_fbuf: "k < 512 \<Longrightarrow> fmem s (fsbuf + of_nat k) = fbuf s (of_nat k)"
  by (simp add: fbuf_def sector_at_def unat_of_nat_u32)

lemma fbuf_byte: "k < 512 \<Longrightarrow> fbuf (upd_fmem (\<lambda>mm. mm(fsbuf + of_nat k := f mm)) s) = (fbuf s)(of_nat k := f (fmem s))"
  by (auto simp: fbuf_def sector_at_def upd_fmem_def unat_of_nat_u32 fun_eq_iff)

lemma sector_upd_fmem [simp]: "sector dev (upd_fmem f s) = sector dev s"
  by (simp add: upd_fmem_xferred sector_xferred)

definition pending :: "int \<Rightarrow> nat \<Rightarrow> fs \<Rightarrow> nat \<Rightarrow> bool" where
  "pending dev n s = sect_bit ((sector dev s)(n := fbuf s))"

lemma pending_read: "fbuf s = sector dev s n \<Longrightarrow> pending dev n s = disk_bit dev s"
  by (simp add: pending_def)

lemma pending_byte:
  assumes "k < 512"
  shows "pending dev n (upd_fmem (\<lambda>mm. mm(fsbuf + of_nat k := f mm)) s) g =
    (if g div 8 = 512 * n + k then bit (f (fmem s)) (g mod 8) else pending dev n s g)"
proof -
  have "pending dev n (upd_fmem (\<lambda>mm. mm(fsbuf + of_nat k := f mm)) s) =
      sect_bit (((sector dev s)(n := fbuf s))(n := (((sector dev s)(n := fbuf s)) n)(of_nat k := f (fmem s))))"
    using assms by (simp add: pending_def fbuf_byte sector_upd_fmem)
  then show ?thesis by (simp only: sect_bit_update [OF assms] pending_def)
qed

text \<open>The bit of a byte of the buffer, in the string.\<close>

lemma pending_bit: "k < 512 \<Longrightarrow> j < 8 \<Longrightarrow> pending dev n s (8 * (512 * n + k) + j) = bit (fmem s (fsbuf + of_nat k)) j"
  by (simp only: pending_def sect_bit_at fun_upd_same fmem_fbuf)

lemma pending_byte_at:
  assumes "k < 512" "g div 8 = 512 * n + k"
  shows "pending dev n s g = bit (fmem s (fsbuf + of_nat k)) (g mod 8)"
proof -
  have "8 * (512 * n + k) + g mod 8 = g" unfolding assms(2) [symmetric] by simp
  with pending_bit [OF assms(1), of "g mod 8" dev n s] show ?thesis by (simp only: mod_less_divisor zero_less_numeral)
qed

section \<open>The inode map\<close>

lemma bit_clear_bit_loop: "clear_bit_loop (b :: u8) n k = r \<Longrightarrow> k \<le> r \<and> r \<le> k + n \<and> (\<forall>i. k \<le> i \<and> i < r \<longrightarrow> bit b i) \<and> (r < k + n \<longrightarrow> \<not> bit b r)"
proof (induction n arbitrary: k)
  case (Suc n)
  have "drop_bit k b AND 1 \<noteq> 0 \<longleftrightarrow> bit b k" by (simp add: and_one_eq bit_iff_odd_drop_bit mod2_eq_if)
  moreover have "k \<le> i \<longleftrightarrow> i = k \<or> Suc k \<le> i" for i by auto
  ultimately show ?case using Suc.prems Suc.IH [of "Suc k"] by (auto split: if_splits)
qed auto

lemma lowest_clear:
  assumes "(b :: u8) \<noteq> 0xFF"
  shows "lowest_clear b < 8" "\<not> bit b (lowest_clear b)" "\<And>i. i < lowest_clear b \<Longrightarrow> bit b i"
proof -
  note sp = bit_clear_bit_loop [OF refl, where b = b and n = 8 and k = 0]
  have "lowest_clear b \<noteq> 8"
  proof
    assume "lowest_clear b = 8"
    with sp have "\<forall>i < 8. bit b i" by auto
    then have "b = - 1" by (intro bit_word_eqI) simp
    with assms show False by simp
  qed
  with sp show "lowest_clear b < 8" "\<not> bit b (lowest_clear b)" "\<And>i. i < lowest_clear b \<Longrightarrow> bit b i" by auto
qed

lemma bit_full: "j < 8 \<Longrightarrow> bit (0xFF :: u8) j"
proof -
  assume "j < 8"
  moreover have "(0xFF :: u8) = - 1" by simp
  ultimately show ?thesis by (simp only: bit_minus_1_iff possible_bit_word) simp
qed

lemma bit_or_one: "i < 8 \<Longrightarrow> bit (b OR 2 ^ k :: u8) i \<longleftrightarrow> bit b i \<or> i = k"
  by (auto simp: bit_simps)

lemma bit_and_not_one: "i < 8 \<Longrightarrow> bit (b AND NOT (2 ^ k) :: u8) i \<longleftrightarrow> bit b i \<and> i \<noteq> k"
  by (auto simp: bit_simps)

lemma find_free_byte_cases:
  "case find_free_byte mm j n of
     None \<Rightarrow> \<forall>i. j \<le> i \<and> i < j + n \<longrightarrow> mm (fsbuf + of_nat i) = 0xFF
   | Some k \<Rightarrow> j \<le> k \<and> k < j + n \<and> mm (fsbuf + of_nat k) \<noteq> 0xFF \<and> (\<forall>i. j \<le> i \<and> i < k \<longrightarrow> mm (fsbuf + of_nat i) = 0xFF)"
proof (induction n arbitrary: j)
  case (Suc n)
  have "j \<le> i \<longleftrightarrow> i = j \<or> Suc j \<le> i" for i by auto
  with Suc.IH [of "Suc j"] show ?case by (auto split: option.splits)
qed auto

text \<open>Reading a sector and writing it back, on the string of bits.\<close>

lemma pending_rd:
  assumes "disk_ok dev s" "n < SECT_LIMIT"
  shows "\<exists>s'. RD_SECT dev (spos (int n)) s = Inr s' \<and> disk_ok dev s' \<and> disk_bit dev s' = disk_bit dev s \<and>
    pending dev n s' = disk_bit dev s \<and> fs_rest s' = fs_rest s"
  using disk.rd_spec [OF assms] by (auto simp: pending_read)

lemma pending_wr:
  assumes "disk_ok dev s" "n < SECT_LIMIT"
  shows "\<exists>s'. WR_SECT dev (spos (int n)) s = Inr s' \<and> disk_ok dev s' \<and> disk_bit dev s' = pending dev n s \<and>
    pending dev n s' = pending dev n s \<and> fs_rest s' = fs_rest s"
  using disk.wr_spec [OF assms] by (auto simp: pending_def)

text \<open>The inode map is bits 8192 to 12287 of the disk: the lowest clear one is taken.\<close>

lemma alloc_inode_map_bit_takes:
  assumes "disk_ok dev s" "get_super_block dev s = Inr sb" "nr_inode_map_sects sb \<noteq> 0"
    and free: "i < 4096" "\<not> disk_bit dev s (8192 + i)"
  shows "\<exists>n s'. alloc_inode_map_bit dev s = Inr (int n, s') \<and> n < 4096 \<and> \<not> disk_bit dev s (8192 + n) \<and>
    (\<forall>i < n. disk_bit dev s (8192 + i)) \<and> disk_ok dev s' \<and> fs_rest s' = fs_rest s \<and>
    (\<forall>g. disk_bit dev s' g \<longleftrightarrow> disk_bit dev s g \<or> g = 8192 + n)"
proof -
  obtain s1 where s1: "RD_SECT dev (spos (int 2)) s = Inr s1" "disk_ok dev s1" "pending dev 2 s1 = disk_bit dev s"
    "disk_bit dev s1 = disk_bit dev s" "fs_rest s1 = fs_rest s" using pending_rd [OF assms(1), of 2] by auto
  have b: "disk_bit dev s (8192 + (8 * k + j)) = bit (fmem s1 (fsbuf + of_nat k)) j" if "k < 512" "j < 8" for k j
    using pending_bit [OF that, of dev 2 s1] s1(3) by (simp add: add.assoc)
  have i: "i = 8 * (i div 8) + i mod 8" "i div 8 < 512" "i mod 8 < 8" using free(1) by auto
  then have "\<not> bit (fmem s1 (fsbuf + of_nat (i div 8))) (i mod 8)" using b [OF i(2, 3)] free(2) by simp
  then have ne: "fmem s1 (fsbuf + of_nat (i div 8)) \<noteq> 0xFF" using bit_full [OF i(3)] by auto
  then obtain k where k: "find_free_byte (fmem s1) 0 512 = Some k" "k < 512" "fmem s1 (fsbuf + of_nat k) \<noteq> 0xFF"
    "\<And>i. i < k \<Longrightarrow> fmem s1 (fsbuf + of_nat i) = 0xFF"
    using find_free_byte_cases [where mm = "fmem s1" and j = 0 and n = 512] i(2) by (auto split: option.splits)
  let ?a = "fsbuf + of_nat k" let ?j = "lowest_clear (fmem s1 ?a)"
  note j = lowest_clear [OF k(3)]
  let ?s2 = "upd_fmem (\<lambda>mm. mm(?a := mm ?a OR push_bit ?j 1)) s1"
  have "disk_ok dev ?s2" "fs_rest ?s2 = fs_rest s" using disk.upd_spec [OF s1(2)] s1(5) by simp_all
  then obtain s' where s': "WR_SECT dev (spos (int 2)) ?s2 = Inr s'" "disk_ok dev s'" "disk_bit dev s' = pending dev 2 ?s2"
    "fs_rest s' = fs_rest s" using pending_wr [of dev ?s2 2] by auto
  have "alloc_inode_map_bit dev s = Inr (int (8 * k + ?j), s')"
    using s1(1) s'(1) assms(2, 3) k(1) by (simp add: alloc_inode_map_bit_def Let_def mult.commute)
  moreover have "\<not> disk_bit dev s (8192 + (8 * k + ?j))" using b [OF k(2) j(1)] j(2) by simp
  moreover have "disk_bit dev s (8192 + m)" if "m < 8 * k + ?j" for m
  proof -
    have m: "m = 8 * (m div 8) + m mod 8" "m div 8 \<le> k" "m mod 8 < 8" using that j(1) by auto
    then have "bit (fmem s1 (fsbuf + of_nat (m div 8))) (m mod 8)"
    proof (cases "m div 8 = k")
      case False
      with m(2) have "fmem s1 (fsbuf + of_nat (m div 8)) = 0xFF" using k(4) by simp
      then show ?thesis using bit_full [OF m(3)] by simp
    qed (use that j(3) m(1) in simp)
    then show ?thesis using b [of "m div 8" "m mod 8"] m k(2) by simp
  qed
  moreover have "disk_bit dev s' g \<longleftrightarrow> disk_bit dev s g \<or> g = 8192 + (8 * k + ?j)" for g
  proof -
    have "g = 8192 + (8 * k + ?j) \<longleftrightarrow> g div 8 = 512 * 2 + k \<and> g mod 8 = ?j"
      using place_iff [OF k(2) j(1), of g 2] by (simp add: add.assoc)
    moreover have "g div 8 = 512 * 2 + k \<Longrightarrow> disk_bit dev s g = bit (fmem s1 ?a) (g mod 8)"
      using pending_byte_at [OF k(2), of g 2 dev s1] s1(3) by simp
    ultimately show ?thesis
      unfolding s'(3) by (auto simp: pending_byte [OF k(2)] bit_or_one s1(3))
  qed
  ultimately show ?thesis using s'(2, 4) k(2) j(1) by (intro exI [of _ "8 * k + ?j"] exI [of _ s']) auto
qed

text \<open>A release clears the one bit.\<close>

lemma clear_inode_map_bit_clears:
  assumes "disk_ok dev s" "n < 4096" "disk_bit dev s (8192 + n)"
  shows "\<exists>s'. clear_inode_map_bit dev (int n) s = Inr s' \<and> disk_ok dev s' \<and> fs_rest s' = fs_rest s \<and>
    (\<forall>g. disk_bit dev s' g \<longleftrightarrow> disk_bit dev s g \<and> g \<noteq> 8192 + n)"
proof -
  obtain s1 where s1: "RD_SECT dev (spos (int 2)) s = Inr s1" "disk_ok dev s1" "pending dev 2 s1 = disk_bit dev s"
    "disk_bit dev s1 = disk_bit dev s" "fs_rest s1 = fs_rest s" using pending_rd [OF assms(1), of 2] by auto
  let ?k = "n div 8" let ?j = "n mod 8" let ?a = "fsbuf + of_nat ?k"
  have kj: "?k < 512" "?j < 8" "n = 8 * ?k + ?j" using assms(2) by auto
  have set: "bit (fmem s1 ?a) ?j" using pending_bit [OF kj(1, 2), of dev 2 s1] s1(3) assms(3) kj(3) by (simp add: add.assoc)
  let ?s2 = "upd_fmem (\<lambda>mm. mm(?a := mm ?a AND NOT (push_bit ?j 1))) s1"
  have "disk_ok dev ?s2" "fs_rest ?s2 = fs_rest s" using disk.upd_spec [OF s1(2)] s1(5) by simp_all
  then obtain s' where s': "WR_SECT dev (spos (int 2)) ?s2 = Inr s'" "disk_ok dev s'" "disk_bit dev s' = pending dev 2 ?s2"
    "fs_rest s' = fs_rest s" using pending_wr [of dev ?s2 2] by auto
  have nz: "fmem s1 ?a AND push_bit ?j 1 \<noteq> 0"
  proof
    assume "fmem s1 ?a AND push_bit ?j 1 = 0"
    then have "\<not> bit (fmem s1 ?a AND push_bit ?j 1) ?j" by simp
    with set kj(2) show False by (simp add: bit_simps)
  qed
  have num: "int n sdiv 8 = int ?k" "int n smod 8 = int ?j" "int ?k smod 512 = int ?k"
    using kj(1) by (simp_all add: sdiv_nonneg smod_nonneg zdiv_int zmod_int)
  then have "clear_inode_map_bit dev (int n) s = Inr s'"
    using s1(1) s'(1) kj(1) nz by (simp add: clear_inode_map_bit_def Let_def)
  moreover have "disk_bit dev s' g \<longleftrightarrow> disk_bit dev s g \<and> g \<noteq> 8192 + n" for g
  proof -
    have "g = 8192 + n \<longleftrightarrow> g div 8 = 512 * 2 + ?k \<and> g mod 8 = ?j"
      using place_iff [OF kj(1, 2), of g 2] kj(3) by (simp add: add.assoc)
    moreover have "g div 8 = 512 * 2 + ?k \<Longrightarrow> disk_bit dev s g = bit (fmem s1 ?a) (g mod 8)"
      using pending_byte_at [OF kj(1), of g 2 dev s1] s1(3) by simp
    ultimately show ?thesis unfolding s'(3) by (auto simp: pending_byte [OF kj(1)] bit_and_not_one s1(3))
  qed
  ultimately show ?thesis using s'(2, 4) by blast
qed

end
