(* ===== verification/FsMap.thy ===== *)
theory FsMap
  imports FsAlloc
begin

text \<open>
  Allocation in the sector map (\<^verbatim>\<open>alloc_sect_map_bit\<close> of \<^verbatim>\<open>src/task/fs/open_close.c\<close>): byte by byte in the buffer, then over the
  sectors of the map, and the steps of release that work on single bytes and whole sectors. \<open>buf_bit\<close> is a bit of the buffer.
\<close>

unbundle bit_operations_syntax

section \<open>Setting bits of the sector map\<close>

definition buf_bit :: "mem \<Rightarrow> nat \<Rightarrow> bool" where
  "buf_bit mm x = bit (mm (fsbuf + of_nat (x div 8))) (x mod 8)"

lemma buf_bit_upd:
  "k < 512 \<Longrightarrow> x < 4096 \<Longrightarrow> buf_bit (mm(fsbuf + of_nat k := b)) x = (if x div 8 = k then bit b (x mod 8) else buf_bit mm x)"
proof -
  assume "k < 512" "x < 4096"
  then have "(of_nat (x div 8) :: u32) = of_nat k \<longleftrightarrow> x div 8 = k" by (intro of_nat_u32_inj) auto
  then show ?thesis by (simp add: buf_bit_def)
qed

lemma buf_bit_at: "j < 8 \<Longrightarrow> buf_bit mm (8 * k + j) = bit (mm (fsbuf + of_nat k)) j"
proof -
  assume "j < 8"
  then have "(8 * k + j) div 8 = k" "(8 * k + j) mod 8 = j" by simp_all
  then show ?thesis by (simp only: buf_bit_def)
qed

lemma full_byte: "(b :: u8) = 0xFF \<longleftrightarrow> (\<forall>j < 8. bit b j)"
proof
  assume "\<forall>j < 8. bit b j"
  then show "b = 0xFF" using lowest_clear(1, 2) [of b] by blast
qed (use bit_full in blast)

lemma drop_bit_and_one: "drop_bit k (b :: u8) AND 1 = (if bit b k then 1 else 0)"
  by (simp add: and_one_eq bit_iff_odd_drop_bit mod2_eq_if)

lemma byte_range:
  assumes "k + m \<le> (8 :: nat)"
  shows "x \<in> {8 * j + k..<8 * j + k + m} \<longleftrightarrow> x div 8 = j \<and> x mod 8 \<in> {k..<k + m}"
proof
  assume x: "x \<in> {8 * j + k..<8 * j + k + m}"
  then have "x div 8 = j" using assms by (intro div_nat_eqI) auto
  then show "x div 8 = j \<and> x mod 8 \<in> {k..<k + m}" using x mult_div_mod_eq [of 8 x] by auto
next
  assume "x div 8 = j \<and> x mod 8 \<in> {k..<k + m}"
  then show "x \<in> {8 * j + k..<8 * j + k + m}" using mult_div_mod_eq [of 8 x] by auto
qed

lemma set_bits_ok:
  assumes "0 < left" "k + n \<le> 8" "m = min n (nat left)" "\<forall>j \<in> {k..<k + m}. \<not> bit b j"
  shows "\<exists>b'. set_bits n b k left = Inr (b', left - int m) \<and> (\<forall>j < 8. bit b' j \<longleftrightarrow> bit b j \<or> j \<in> {k..<k + m})"
  using assms
proof (induction n arbitrary: b k left m)
  case (Suc n)
  have k: "k < 8" "0 < m" "\<not> bit b k" using Suc.prems by auto
  then have b: "bit (b OR 2 ^ k) j \<longleftrightarrow> bit b j \<or> j = k" if "j < 8" for j using bit_or_one that by blast
  show ?case
  proof (cases "left = 1")
    case True
    then have "m = 1" using Suc.prems(3) by simp
    with True k b show ?thesis by (auto simp: drop_bit_and_one)
  next
    case False
    have "\<forall>j \<in> {k + 1..<k + 1 + (m - 1)}. \<not> bit (b OR 2 ^ k) j" using Suc.prems(2, 3, 4) k b by auto
    moreover have "m - 1 = min n (nat (left - 1))" using Suc.prems(1, 3) False by (simp add: nat_diff_distrib min_def) linarith
    ultimately obtain b' where b': "set_bits n (b OR 2 ^ k) (k + 1) (left - 1) = Inr (b', left - 1 - int (m - 1))"
      "\<forall>j < 8. bit b' j \<longleftrightarrow> bit (b OR 2 ^ k) j \<or> j \<in> {k + 1..<k + 1 + (m - 1)}"
      using Suc.IH [of "left - 1" "k + 1" "m - 1" "b OR 2 ^ k"] Suc.prems(1, 2) False by auto
    have "set_bits (Suc n) b k left = Inr (b', left - int m)" using b'(1) False k by (simp add: drop_bit_and_one of_nat_diff)
    moreover have "bit b' j \<longleftrightarrow> bit b j \<or> j \<in> {k..<k + m}" if "j < 8" for j using b'(2) b that k(2) by auto
    ultimately show ?thesis by blast
  qed
qed simp

text \<open>Once the first sector is known, the bits from byte \<open>j\<close> on are set.\<close>

lemma alloc_bytes_set:
  assumes "alloc \<noteq> 0" "0 \<le> left" "j + n \<le> 512" "m = min (8 * n) (nat left)" "\<forall>x \<in> {8 * j..<8 * j + m}. \<not> buf_bit mm x"
  shows "\<exists>mm'. alloc_bytes sb i j n mm alloc left = Inr (mm', alloc, left - int m) \<and>
    (\<forall>x < 4096. buf_bit mm' x \<longleftrightarrow> buf_bit mm x \<or> x \<in> {8 * j..<8 * j + m})"
  using assms
proof (induction n arbitrary: j left mm m)
  case (Suc n)
  show ?case
  proof (cases "left = 0")
    case False
    let ?a = "fsbuf + of_nat j" let ?m = "min 8 (nat left)"
    have left: "0 < left" using False Suc.prems(2) by simp
    have "\<forall>x \<in> {0..<0 + ?m}. \<not> bit (mm ?a) x"
      using Suc.prems(4, 5) by (auto simp: buf_bit_at [symmetric])
    from set_bits_ok [OF left _ refl this] obtain b where
      b: "set_bits 8 (mm ?a) 0 left = Inr (b, left - int ?m)" "\<And>x. x < 8 \<Longrightarrow> bit b x \<longleftrightarrow> bit (mm ?a) x \<or> x < ?m" by auto
    have up: "buf_bit (mm(?a := b)) x \<longleftrightarrow> buf_bit mm x \<or> x \<in> {8 * j..<8 * j + ?m}" if "x < 4096" for x
    proof -
      have "x div 8 = j \<Longrightarrow> buf_bit mm x = bit (mm ?a) (x mod 8)" by (simp add: buf_bit_def)
      moreover have "x \<in> {8 * j..<8 * j + ?m} \<longleftrightarrow> x div 8 = j \<and> x mod 8 < ?m" using byte_range [of 0 ?m x j] by simp
      ultimately show ?thesis using b(2) [of "x mod 8"] Suc.prems(3) that by (auto simp: buf_bit_upd)
    qed
    have m: "m = ?m + min (8 * n) (nat (left - int ?m))" using Suc.prems(4) left by (simp add: min_def) linarith
    then have clr: "\<forall>x \<in> {8 * (j + 1)..<8 * (j + 1) + min (8 * n) (nat (left - int ?m))}. \<not> buf_bit (mm(?a := b)) x"
      using up Suc.prems(3, 5) by (auto simp: min_def split: if_splits)
    have p: "0 \<le> left - int ?m" "j + 1 + n \<le> 512" using left Suc.prems(3) by simp_all
    from Suc.IH [OF assms(1) p refl clr] obtain mm' where
      mm': "alloc_bytes sb i (j + 1) n (mm(?a := b)) alloc (left - int ?m) =
          Inr (mm', alloc, left - int ?m - int (min (8 * n) (nat (left - int ?m))))"
        "\<And>x. x < 4096 \<Longrightarrow> buf_bit mm' x \<longleftrightarrow> buf_bit (mm(?a := b)) x \<or>
          x \<in> {8 * (j + 1)..<8 * (j + 1) + min (8 * n) (nat (left - int ?m))}"
      by blast
    have "alloc_bytes sb i j (Suc n) mm alloc left = Inr (mm', alloc, left - int m)"
      using mm'(1) b(1) left assms(1) m by simp
    moreover have "buf_bit mm' x \<longleftrightarrow> buf_bit mm x \<or> x \<in> {8 * j..<8 * j + m}" if "x < 4096" for x
      using mm'(2) [OF that] up [OF that] m by (auto simp: min_def split: if_splits)
    ultimately show ?thesis by blast
  qed (use Suc.prems in simp)
qed simp

text \<open>Before that, full bytes are passed.\<close>

lemma alloc_bytes_full:
  "\<forall>x \<in> {8 * j..<8 * (j + n)}. buf_bit mm x \<Longrightarrow> alloc_bytes sb i j n mm 0 left = Inr (mm, 0, left)"
proof (induction n arbitrary: j)
  case (Suc n)
  then have "\<forall>x < 8. bit (mm (fsbuf + of_nat j)) x" by (auto simp: buf_bit_at [symmetric])
  then have "mm (fsbuf + of_nat j) = 0xFF" by (simp only: full_byte)
  then show ?case using Suc by auto
qed simp

definition first_sect :: "super_block \<Rightarrow> nat \<Rightarrow> int" where
  "first_sect sb p = sint (word_of_int (int p - 1) + nr_1st_data_sect sb)"

text \<open>Where the first clear bit is: after a full byte, or at the lowest clear bit of this one.\<close>

lemma first_clear_later:
  assumes "mm (fsbuf + of_nat j) = 0xFF" "\<not> buf_bit mm q" "8 * j \<le> q"
  shows "8 * (j + 1) \<le> q"
proof (rule ccontr)
  assume "\<not> 8 * (j + 1) \<le> q"
  then have "q = 8 * j + (q - 8 * j)" "q - 8 * j < 8" using assms(3) by auto
  then have "bit (mm (fsbuf + of_nat j)) (q - 8 * j) = buf_bit mm q" by (metis buf_bit_at)
  with assms(1, 2) \<open>q - 8 * j < 8\<close> show False by (metis bit_full)
qed

lemma first_clear_here:
  assumes "mm (fsbuf + of_nat j) \<noteq> 0xFF" "\<not> buf_bit mm q" "8 * j \<le> q" "\<forall>x \<in> {8 * j..<q}. buf_bit mm x"
  shows "q = 8 * j + lowest_clear (mm (fsbuf + of_nat j))"
proof -
  let ?k = "lowest_clear (mm (fsbuf + of_nat j))"
  note k = lowest_clear [OF assms(1)]
  have "\<not> buf_bit mm (8 * j + ?k)" using k(1, 2) by (simp add: buf_bit_at)
  then have "q \<le> 8 * j + ?k" using assms(4) by (metis atLeastLessThan_iff le_add1 not_less)
  moreover have "\<not> bit (mm (fsbuf + of_nat j)) (q - 8 * j)" if "q < 8 * j + ?k"
    using that assms(2, 3) k(1) buf_bit_at [of "q - 8 * j" mm j] by simp
  ultimately show ?thesis using k(3) [of "q - 8 * j"] assms(3) by fastforce
qed

lemma alloc_bytes_find:
  assumes "q \<in> {8 * j..<8 * (j + n)}" "\<not> buf_bit mm q" "\<forall>x \<in> {8 * j..<q}. buf_bit mm x"
    and "0 < left" "j + n \<le> 512" "m = min (8 * (j + n) - q) (nat left)" "\<forall>x \<in> {q..<q + m}. \<not> buf_bit mm x"
    and "first_sect sb (4096 * i + q) \<noteq> 0"
  shows "\<exists>mm'. alloc_bytes sb (int i) j n mm 0 left = Inr (mm', first_sect sb (4096 * i + q), left - int m) \<and>
    (\<forall>x < 4096. buf_bit mm' x \<longleftrightarrow> buf_bit mm x \<or> x \<in> {q..<q + m})"
  using assms(1, 3, 5-7)
proof (induction n arbitrary: j)
  case (Suc n)
  let ?a = "fsbuf + of_nat j" let ?k = "lowest_clear (mm ?a)" let ?al = "first_sect sb (4096 * i + q)"
  show ?case
  proof (cases "mm ?a = 0xFF")
    case True
    have "8 * (j + 1) \<le> q" using first_clear_later [OF True assms(2)] Suc.prems(1) by simp
    with Suc.IH [of "j + 1"] Suc.prems True assms(4) show ?thesis by auto
  next
    case False
    note k = lowest_clear [OF False]
    have q: "q = 8 * j + ?k" using first_clear_here [OF False assms(2)] Suc.prems(1, 2) by simp
    define m1 where "m1 = min (8 - ?k) (nat left)"
    have "\<forall>x \<in> {?k..<?k + m1}. \<not> bit (mm ?a) x"
    proof
      fix x assume x: "x \<in> {?k..<?k + m1}"
      then have "8 * j + x \<in> {q..<q + m}" using q Suc.prems(4) by (auto simp: m1_def)
      then have "\<not> buf_bit mm (8 * j + x)" using Suc.prems(5) by blast
      moreover have "x < 8" using x k(1) by (auto simp: m1_def)
      ultimately show "\<not> bit (mm ?a) x" by (simp add: buf_bit_at)
    qed
    from set_bits_ok [OF assms(4) _ m1_def this] obtain b where
      b: "set_bits (8 - ?k) (mm ?a) ?k left = Inr (b, left - int m1)"
        "\<And>x. x < 8 \<Longrightarrow> bit b x \<longleftrightarrow> bit (mm ?a) x \<or> x \<in> {?k..<?k + m1}" using k(1) by auto
    have up: "buf_bit (mm(?a := b)) x \<longleftrightarrow> buf_bit mm x \<or> x \<in> {q..<q + m1}" if "x < 4096" for x
    proof -
      have "x div 8 = j \<Longrightarrow> buf_bit mm x = bit (mm ?a) (x mod 8)" by (simp add: buf_bit_def)
      moreover have "x \<in> {q..<q + m1} \<longleftrightarrow> x div 8 = j \<and> x mod 8 \<in> {?k..<?k + m1}"
        unfolding q using k(1) by (intro byte_range) (simp add: m1_def)
      ultimately show ?thesis using b(2) [of "x mod 8"] Suc.prems(3) that by (auto simp: buf_bit_upd)
    qed
    define r where "r = min (8 * n) (nat (left - int m1))"
    have m: "m = m1 + r" using Suc.prems(4) q k(1) assms(4) by (simp add: m1_def r_def min_def) linarith
    have r0: "r = 0 \<or> q + m1 = 8 * (j + 1)" using q k(1) assms(4) by (auto simp: m1_def r_def min_def)
    have p: "0 \<le> left - int m1" "j + 1 + n \<le> 512" using assms(4) Suc.prems(3) by (simp_all add: m1_def)
    have clr: "\<forall>x \<in> {8 * (j + 1)..<8 * (j + 1) + r}. \<not> buf_bit (mm(?a := b)) x"
    proof
      fix x assume x: "x \<in> {8 * (j + 1)..<8 * (j + 1) + r}"
      then have "r \<noteq> 0" by (intro notI) simp
      with r0 have e: "q + m1 = 8 * (j + 1)" by blast
      have "r \<le> 8 * n" unfolding r_def by (rule min.cobounded1)
      then have "x < 4096" using x p(2) by auto
      moreover have "x \<notin> {q..<q + m1}" "x \<in> {q..<q + m}" using x e m by auto
      ultimately show "\<not> buf_bit (mm(?a := b)) x" using up Suc.prems(5) by blast
    qed
    from alloc_bytes_set [OF assms(8) p r_def clr, of sb "int i"] obtain mm' where
      mm': "alloc_bytes sb (int i) (j + 1) n (mm(?a := b)) ?al (left - int m1) = Inr (mm', ?al, left - int m1 - int r)"
        "\<And>x. x < 4096 \<Longrightarrow> buf_bit mm' x \<longleftrightarrow> buf_bit (mm(?a := b)) x \<or> x \<in> {8 * (j + 1)..<8 * (j + 1) + r}" by blast
    have "sint (word_of_int ((int i * 512 + int j) * 8 + int ?k - 1) + nr_1st_data_sect sb) = ?al"
      by (simp add: first_sect_def q algebra_simps)
    then have "alloc_bytes sb (int i) j (Suc n) mm 0 left = Inr (mm', ?al, left - int m)"
      using mm'(1) b(1) assms(4) m False by simp
    moreover have "buf_bit mm' x \<longleftrightarrow> buf_bit mm x \<or> x \<in> {q..<q + m}" if "x < 4096" for x
    proof -
      have "x \<in> {q..<q + m} \<longleftrightarrow> x \<in> {q..<q + m1} \<or> x \<in> {8 * (j + 1)..<8 * (j + 1) + r}"
      proof (cases "r = 0")
        case False
        with r0 have "q + m1 = 8 * (j + 1)" by blast
        with m show ?thesis by auto
      qed (use m in simp)
      then show ?thesis using mm'(2) [OF that] up [OF that] by blast
    qed
    ultimately show ?thesis by blast
  qed
qed simp

text \<open>A sector of the map with some of its bits set, written back.\<close>

lemma pending_buf_bit: "pending dev n s g = (if g div 4096 = n then buf_bit (fmem s) (g mod 4096) else disk_bit dev s g)"
proof -
  obtain n' k j where g: "k < 512" "j < 8" "g = 8 * (512 * n' + k) + j" using bit_place_ex by blast
  note place = bit_place [OF g]
  have "g mod 4096 mod 8 = j" using place(2) by (simp add: mod_mod_cancel)
  moreover have "n' \<noteq> n \<Longrightarrow> pending dev n s g = disk_bit dev s g" unfolding pending_def g(3) sect_bit_at [OF g(1, 2)] by simp
  moreover have "n' = n \<Longrightarrow> pending dev n s g = bit (fmem s (fsbuf + of_nat k)) j" unfolding g(3) using pending_bit [OF g(1, 2)] by simp
  ultimately show ?thesis unfolding place(3) buf_bit_def place(4) by simp
qed

lemma sector_range:
  assumes "u \<le> (v :: nat)" "v \<le> 4096"
  shows "g \<in> {4096 * n + u..<4096 * n + v} \<longleftrightarrow> g div 4096 = n \<and> g mod 4096 \<in> {u..<v}"
proof
  assume g: "g \<in> {4096 * n + u..<4096 * n + v}"
  then have "g div 4096 = n" using assms by (intro div_nat_eqI) auto
  then show "g div 4096 = n \<and> g mod 4096 \<in> {u..<v}" using g mult_div_mod_eq [of 4096 g] by auto
next
  assume "g div 4096 = n \<and> g mod 4096 \<in> {u..<v}"
  then show "g \<in> {4096 * n + u..<4096 * n + v}" using mult_div_mod_eq [of 4096 g] by auto
qed

lemma map_sector_written:
  assumes "disk_ok dev s1" "n < SECT_LIMIT" "pending dev n s1 = disk_bit dev s1" "u \<le> v" "v \<le> 4096"
    and "\<And>x. x < 4096 \<Longrightarrow> buf_bit mm x \<longleftrightarrow> buf_bit (fmem s1) x \<or> x \<in> {u..<v}"
  shows "\<exists>s'. WR_SECT dev (spos (int n)) (upd_fmem (\<lambda>_. mm) s1) = Inr s' \<and> disk_ok dev s' \<and> fs_rest s' = fs_rest s1 \<and>
    (\<forall>g. disk_bit dev s' g \<longleftrightarrow> disk_bit dev s1 g \<or> g \<in> {4096 * n + u..<4096 * n + v})"
proof -
  let ?s2 = "upd_fmem (\<lambda>_. mm) s1"
  have "disk_ok dev ?s2" "fs_rest ?s2 = fs_rest s1" using disk.upd_spec [OF assms(1)] by simp_all
  then obtain s' where s': "WR_SECT dev (spos (int n)) ?s2 = Inr s'" "disk_ok dev s'" "disk_bit dev s' = pending dev n ?s2"
    "fs_rest s' = fs_rest s1" using pending_wr [OF _ assms(2), of dev ?s2] by auto
  have "fmem ?s2 = mm" by (simp add: upd_fmem_def)
  then have "disk_bit dev s' g \<longleftrightarrow> disk_bit dev s1 g \<or> g \<in> {4096 * n + u..<4096 * n + v}" for g
    using assms(3) [THEN fun_cong, of g] assms(6) [of "g mod 4096"]
    unfolding s'(3) pending_buf_bit sector_range [OF assms(4, 5)] by auto
  with s' show ?thesis by blast
qed

lemma sector_bits:
  assumes "pending dev n s1 = disk_bit dev s" "x < 4096"
  shows "buf_bit (fmem s1) x = disk_bit dev s (4096 * n + x)"
proof -
  have "(4096 * n + x) div 4096 = n" "(4096 * n + x) mod 4096 = x" using assms(2) by simp_all
  with pending_buf_bit [of dev n s1 "4096 * n + x"] assms(1) show ?thesis by simp
qed

section \<open>Allocation over several map sectors\<close>

definition map_base :: "super_block \<Rightarrow> nat" where
  "map_base sb = 2 + unat (nr_inode_map_sects sb)"

lemma map_base_sint: "map_base sb < SECT_LIMIT \<Longrightarrow> sint (2 + nr_inode_map_sects sb) = int (map_base sb)"
proof -
  assume "map_base sb < SECT_LIMIT"
  then have "sint (of_nat (map_base sb) :: u32) = int (map_base sb)" by (intro sint_of_nat_u32) simp
  moreover have "2 + nr_inode_map_sects sb = of_nat (map_base sb)" by (simp add: map_base_def)
  ultimately show ?thesis by simp
qed

lemma alloc_sects_set:
  assumes "alloc \<noteq> 0" "map_base sb < SECT_LIMIT" "0 < k" "k \<le> 4096 * n" "disk_ok dev s" "map_base sb + i + n \<le> SECT_LIMIT"
    and "\<And>g. g \<in> {4096 * (map_base sb + i)..<4096 * (map_base sb + i) + k} \<Longrightarrow> \<not> disk_bit dev s g"
  shows "\<exists>s'. alloc_sects_loop dev sb n (int i) alloc (int k) s = Inr (alloc, s') \<and> disk_ok dev s' \<and> fs_rest s' = fs_rest s \<and>
    (\<forall>g. disk_bit dev s' g \<longleftrightarrow> disk_bit dev s g \<or> g \<in> {4096 * (map_base sb + i)..<4096 * (map_base sb + i) + k})"
  using assms(3-)
proof (induction n arbitrary: i k s)
  case (Suc n)
  define N where "N = map_base sb + i"
  have N: "N < SECT_LIMIT" "spos (sint (1 + 1 + nr_inode_map_sects sb) + int i) = spos (int N)"
    using Suc.prems(4) by (simp_all add: N_def map_base_sint [OF assms(2)])
  obtain s1 where s1: "RD_SECT dev (spos (int N)) s = Inr s1" "disk_ok dev s1" "disk_bit dev s1 = disk_bit dev s"
    "pending dev N s1 = disk_bit dev s" "fs_rest s1 = fs_rest s" using pending_rd [OF Suc.prems(3) N(1)] by auto
  define m where "m = min 4096 k"
  have m: "m \<le> 4096" "m \<le> k" "m = min (8 * 512) (nat (int k))" by (simp_all add: m_def)
  have "\<forall>x \<in> {8 * 0..<8 * 0 + m}. \<not> buf_bit (fmem s1) x"
    using Suc.prems(5) m sector_bits [OF s1(4)] by (auto simp: N_def [symmetric])
  from alloc_bytes_set [OF assms(1) _ _ m(3) this, of sb "int i"] obtain mm where
    mm: "alloc_bytes sb (int i) 0 512 (fmem s1) alloc (int k) = Inr (mm, alloc, int k - int m)"
      "\<And>x. x < 4096 \<Longrightarrow> buf_bit mm x \<longleftrightarrow> buf_bit (fmem s1) x \<or> x \<in> {0..<m}" by auto
  have "pending dev N s1 = disk_bit dev s1" using s1(3, 4) by simp
  from map_sector_written [OF s1(2) N(1) this _ m(1) mm(2)] obtain s3 where
    s3: "WR_SECT dev (spos (int N)) (upd_fmem (\<lambda>_. mm) s1) = Inr s3" "disk_ok dev s3" "fs_rest s3 = fs_rest s"
      "\<And>g. disk_bit dev s3 g \<longleftrightarrow> disk_bit dev s g \<or> g \<in> {4096 * N..<4096 * N + m}" using s1(3, 5) by auto
  have step: "alloc_sects_loop dev sb (Suc n) (int i) alloc (int k) s =
      (if int k - int m = 0 then Inr (alloc, s3) else alloc_sects_loop dev sb n (int i + 1) alloc (int k - int m) s3)"
    using N(2) s1(1) mm(1) s3(1) assms(1) by (simp add: Let_def)
  show ?case
  proof (cases "k \<le> 4096")
    case True
    then show ?thesis using step s3 by (auto simp: m_def N_def)
  next
    case False
    then have m4: "m = 4096" "int k - int m = int (k - 4096)" by (simp_all add: m_def)
    have clr: "\<not> disk_bit dev s3 g" if "g \<in> {4096 * (map_base sb + Suc i)..<4096 * (map_base sb + Suc i) + (k - 4096)}" for g
      using Suc.prems(5) [of g] s3(4) [of g] that False by (auto simp: N_def m4(1))
    have "0 < k - 4096" "k - 4096 \<le> 4096 * n" "map_base sb + Suc i + n \<le> SECT_LIMIT" using Suc.prems(2, 4) False by simp_all
    from Suc.IH [OF this(1, 2) s3(2) this(3) clr] obtain s' where
      s': "alloc_sects_loop dev sb n (int (Suc i)) alloc (int (k - 4096)) s3 = Inr (alloc, s')" "disk_ok dev s'" "fs_rest s' = fs_rest s3"
        "\<And>g. disk_bit dev s' g \<longleftrightarrow> disk_bit dev s3 g \<or>
          g \<in> {4096 * (map_base sb + Suc i)..<4096 * (map_base sb + Suc i) + (k - 4096)}"
      by blast
    have "alloc_sects_loop dev sb (Suc n) (int i) alloc (int k) s = Inr (alloc, s')"
      using step s'(1) m4 False by (simp add: add.commute)
    moreover have "disk_bit dev s' g \<longleftrightarrow> disk_bit dev s g \<or> g \<in> {4096 * (map_base sb + i)..<4096 * (map_base sb + i) + k}" for g
      using s'(4) [of g] s3(4) [of g] False by (auto simp: N_def m4(1))
    ultimately show ?thesis using s'(2, 3) s3(3) by auto
  qed
qed simp

text \<open>The search: the first clear bit of the map starts the run.\<close>

lemma alloc_sects_find:
  assumes "map_base sb < SECT_LIMIT" "0 < k" "disk_ok dev s" "map_base sb + i + n \<le> SECT_LIMIT" "4096 * i \<le> p" "p + k \<le> 4096 * (i + n)"
    and "\<And>x. x \<in> {4096 * i..<p} \<Longrightarrow> disk_bit dev s (4096 * map_base sb + x)"
    and "\<And>x. x \<in> {p..<p + k} \<Longrightarrow> \<not> disk_bit dev s (4096 * map_base sb + x)"
    and "first_sect sb p \<noteq> 0"
  shows "\<exists>s'. alloc_sects_loop dev sb n (int i) 0 (int k) s = Inr (first_sect sb p, s') \<and> disk_ok dev s' \<and> fs_rest s' = fs_rest s \<and>
    (\<forall>g. disk_bit dev s' g \<longleftrightarrow> disk_bit dev s g \<or> g \<in> {4096 * map_base sb + p..<4096 * map_base sb + p + k})"
  using assms(3-8)
proof (induction n arbitrary: i s)
  case (Suc n)
  define N where "N = map_base sb + i"
  have N: "N < SECT_LIMIT" "spos (sint (1 + 1 + nr_inode_map_sects sb) + int i) = spos (int N)"
    using Suc.prems(2) by (simp_all add: N_def map_base_sint [OF assms(1)])
  obtain s1 where s1: "RD_SECT dev (spos (int N)) s = Inr s1" "disk_ok dev s1" "disk_bit dev s1 = disk_bit dev s"
    "pending dev N s1 = disk_bit dev s" "fs_rest s1 = fs_rest s" using pending_rd [OF Suc.prems(1) N(1)] by auto
  have bits: "buf_bit (fmem s1) x = disk_bit dev s (4096 * map_base sb + (4096 * i + x))" if "x < 4096" for x
    using sector_bits [OF s1(4) that] by (simp add: N_def add.assoc add_mult_distrib2)
  show ?case
  proof (cases "4096 * Suc i \<le> p")
    case True
    then have "\<forall>x \<in> {8 * 0..<8 * (0 + 512)}. buf_bit (fmem s1) x" using bits Suc.prems(5) by auto
    from alloc_bytes_full [OF this] have full: "alloc_bytes sb (int i) 0 512 (fmem s1) 0 (int k) = Inr (fmem s1, 0, int k)" .
    let ?s2 = "upd_fmem (\<lambda>_. fmem s1) s1"
    have s2: "disk_ok dev ?s2" "fs_rest ?s2 = fs_rest s" "disk_bit dev ?s2 = disk_bit dev s"
      using disk.upd_spec [OF s1(2)] s1(3, 5) by simp_all
    have "alloc_sects_loop dev sb (Suc n) (int i) 0 (int k) s = alloc_sects_loop dev sb n (int (Suc i)) 0 (int k) ?s2"
      using N(2) s1(1) full assms(2) by (simp add: Let_def add.commute)
    moreover have "\<exists>s'. alloc_sects_loop dev sb n (int (Suc i)) 0 (int k) ?s2 = Inr (first_sect sb p, s') \<and> disk_ok dev s' \<and>
        fs_rest s' = fs_rest ?s2 \<and> (\<forall>g. disk_bit dev s' g \<longleftrightarrow> disk_bit dev ?s2 g \<or>
          g \<in> {4096 * map_base sb + p..<4096 * map_base sb + p + k})"
      using Suc.prems True s2 by (intro Suc.IH [OF s2(1)]) auto
    ultimately show ?thesis using s2 by simp
  next
    case False
    define q where "q = p - 4096 * i"
    then have q: "q < 4096" "p = 4096 * i + q" using False Suc.prems(3) by auto
    define m where "m = min (4096 - q) k"
    have m: "q + m \<le> 4096" "m \<le> k" "m = min (8 * (0 + 512) - q) (nat (int k))" using q(1) by (simp_all add: m_def)
    have "\<not> buf_bit (fmem s1) q" using bits [OF q(1)] Suc.prems(6) [of p] q(2) assms(2) by simp
    moreover have "\<forall>x \<in> {8 * 0..<q}. buf_bit (fmem s1) x" using bits Suc.prems(5) q by auto
    moreover have "\<forall>x \<in> {q..<q + m}. \<not> buf_bit (fmem s1) x"
    proof
      fix x assume x: "x \<in> {q..<q + m}"
      then have "x < 4096" "4096 * i + x \<in> {p..<p + k}" using m(1, 2) q(2) by auto
      then show "\<not> buf_bit (fmem s1) x" using bits Suc.prems(6) by blast
    qed
    ultimately obtain mm where
      mm: "alloc_bytes sb (int i) 0 512 (fmem s1) 0 (int k) = Inr (mm, first_sect sb p, int k - int m)"
        "\<And>x. x < 4096 \<Longrightarrow> buf_bit mm x \<longleftrightarrow> buf_bit (fmem s1) x \<or> x \<in> {q..<q + m}"
      using alloc_bytes_find [of q 0 512 "fmem s1" "int k" m sb i] q assms(2, 9) m(3) by auto
    have "pending dev N s1 = disk_bit dev s1" using s1(3, 4) by simp
    from map_sector_written [OF s1(2) N(1) this _ m(1) mm(2)] obtain s3 where
      s3: "WR_SECT dev (spos (int N)) (upd_fmem (\<lambda>_. mm) s1) = Inr s3" "disk_ok dev s3" "fs_rest s3 = fs_rest s"
        "\<And>g. disk_bit dev s3 g \<longleftrightarrow> disk_bit dev s g \<or> g \<in> {4096 * N + q..<4096 * N + (q + m)}" using s1(3, 5) by auto
    have step: "alloc_sects_loop dev sb (Suc n) (int i) 0 (int k) s =
        (if int k - int m = 0 then Inr (first_sect sb p, s3) else alloc_sects_loop dev sb n (int i + 1) (first_sect sb p) (int k - int m) s3)"
      using N(2) s1(1) mm(1) s3(1) assms(9) by (simp add: Let_def)
    have start: "4096 * N + q = 4096 * map_base sb + p" by (simp add: N_def q(2))
    then have "4096 * N + (q + m) = 4096 * map_base sb + p + m" by linarith
    then have s3_bits: "disk_bit dev s3 g \<longleftrightarrow> disk_bit dev s g \<or> g \<in> {4096 * map_base sb + p..<4096 * map_base sb + p + m}" for g
      using s3(4) [of g] by (simp only: start)
    show ?thesis
    proof (cases "m = k")
      case True
      then have "alloc_sects_loop dev sb (Suc n) (int i) 0 (int k) s = Inr (first_sect sb p, s3)" using step by simp
      then show ?thesis using s3(2, 3) s3_bits True by blast
    next
      case False
      then have m4: "q + m = 4096" "m < k" "int k - int m = int (k - m)" using m(2) q(1) by (auto simp: m_def)
      have e: "4096 * (map_base sb + Suc i) = 4096 * map_base sb + p + m" using m4(1) q(2) by simp
      have clr: "\<not> disk_bit dev s3 g" if "g \<in> {4096 * (map_base sb + Suc i)..<4096 * (map_base sb + Suc i) + (k - m)}" for g
      proof -
        have "4096 * map_base sb + (g - 4096 * map_base sb) = g" "g - 4096 * map_base sb \<in> {p..<p + k}"
          using that m4(2) unfolding e atLeastLessThan_iff by linarith+
        then have "\<not> disk_bit dev s g" using Suc.prems(6) by metis
        then show ?thesis using s3_bits [of g] that unfolding e by auto
      qed
      have "0 < k - m" "k - m \<le> 4096 * n" "map_base sb + Suc i + n \<le> SECT_LIMIT" using Suc.prems(2, 4) m4(1, 2) q(2) by simp_all
      from alloc_sects_set [OF assms(9, 1) this(1, 2) s3(2) this(3) clr] obtain s' where
        s': "alloc_sects_loop dev sb n (int (Suc i)) (first_sect sb p) (int (k - m)) s3 = Inr (first_sect sb p, s')" "disk_ok dev s'"
          "fs_rest s' = fs_rest s3" "\<And>g. disk_bit dev s' g \<longleftrightarrow> disk_bit dev s3 g \<or>
            g \<in> {4096 * (map_base sb + Suc i)..<4096 * (map_base sb + Suc i) + (k - m)}"
        by blast
      have "alloc_sects_loop dev sb (Suc n) (int i) 0 (int k) s = Inr (first_sect sb p, s')"
      proof -
        have nz: "int (k - m) \<noteq> 0" "int i + 1 = int (Suc i)" using m4(2) by simp_all
        show ?thesis unfolding step m4(3) if_not_P [OF nz(1)] nz(2) by (rule s'(1))
      qed
      moreover have "disk_bit dev s' g \<longleftrightarrow> disk_bit dev s g \<or> g \<in> {4096 * map_base sb + p..<4096 * map_base sb + p + k}" for g
      proof -
        have "g \<in> {4096 * map_base sb + p..<4096 * map_base sb + p + k} \<longleftrightarrow>
            g \<in> {4096 * map_base sb + p..<4096 * map_base sb + p + m} \<or>
            g \<in> {4096 * map_base sb + p + m..<4096 * map_base sb + p + m + (k - m)}" using m4(2) by auto
        then show ?thesis using s'(4) [of g] s3_bits [of g] unfolding e by blast
      qed
      ultimately show ?thesis using s'(2, 3) s3(3) by auto
    qed
  qed
qed (use assms(2) in simp)

section \<open>Release\<close>

lemma clear_first_byte_ok:
  assumes "k + n \<le> 8" "m = min n l" "\<forall>j \<in> {k..<k + m}. bit b j"
  shows "\<exists>b'. clear_first_byte n b k (int l) = Inr (b', int (l - m)) \<and> (\<forall>j < 8. bit b' j \<longleftrightarrow> bit b j \<and> j \<notin> {k..<k + m})"
  using assms
proof (induction n arbitrary: b k l m)
  case (Suc n)
  show ?case
  proof (cases l)
    case (Suc l')
    define m' where "m' = min n l'"
    have m: "m = Suc m'" using Suc.prems(2) Suc by (simp add: m'_def)
    have k: "k < 8" "bit b k" using Suc.prems(1, 3) m by auto
    have b: "bit (b AND NOT (2 ^ k)) j \<longleftrightarrow> bit b j \<and> j \<noteq> k" if "j < 8" for j using bit_and_not_one that by blast
    have "m' \<le> n" by (simp add: m'_def)
    then have "\<forall>j \<in> {k + 1..<k + 1 + m'}. bit (b AND NOT (2 ^ k)) j" using Suc.prems(1, 3) b m by auto
    from Suc.IH [OF _ m'_def this] Suc.prems(1) obtain b' where
      "clear_first_byte n (b AND NOT (2 ^ k)) (k + 1) (int l') = Inr (b', int (l' - m'))"
      "\<And>j. j < 8 \<Longrightarrow> bit b' j \<longleftrightarrow> bit (b AND NOT (2 ^ k)) j \<and> j \<notin> {k + 1..<k + 1 + m'}" by auto
    then show ?thesis using b m k Suc by (auto simp: drop_bit_and_one intro!: exI [of _ b'])
  qed (use Suc.prems in simp)
qed simp

lemma next_map_sector_ok:
  assumes "disk_ok dev s" "idx \<le> 512" "sect + 1 < SECT_LIMIT"
  shows "\<exists>idx' sect' s'. next_map_sector dev idx (int sect) s = Inr (idx', int sect', s') \<and> idx' < 512 \<and>
    512 * sect' + idx' = 512 * sect + idx \<and> disk_ok dev s' \<and> pending dev sect' s' = pending dev sect s \<and> fs_rest s' = fs_rest s"
proof (cases "idx = 512")
  case True
  have n: "sect < SECT_LIMIT" "spos (int sect + 1) = spos (int (sect + 1))" using assms(3) by (simp_all add: add.commute)
  obtain s1 where s1: "WR_SECT dev (spos (int sect)) s = Inr s1" "disk_ok dev s1" "disk_bit dev s1 = pending dev sect s"
    "fs_rest s1 = fs_rest s" using pending_wr [OF assms(1) n(1)] by auto
  obtain s2 where s2: "RD_SECT dev (spos (int (sect + 1))) s1 = Inr s2" "disk_ok dev s2" "pending dev (sect + 1) s2 = disk_bit dev s1"
    "fs_rest s2 = fs_rest s1" using pending_rd [OF s1(2) assms(3)] by auto
  have "next_map_sector dev idx (int sect) s = Inr (0, int (sect + 1), s2)"
    unfolding next_map_sector_def if_P [OF True] n(2) using s1(1) s2(1) by (simp add: add.commute)
  moreover have "512 * (sect + 1) + 0 = 512 * sect + idx" using True by simp
  ultimately show ?thesis using s2 s1(3, 4) by (intro exI [of _ 0] exI [of _ "sect + 1"] exI [of _ s2]) auto
qed (use assms in \<open>simp add: next_map_sector_def\<close>)

lemma clear_bytes_ok:
  assumes "disk_ok dev s" "idx \<le> 512" "512 * sect + idx + n < 512 * (SECT_LIMIT - 1)"
    and "\<And>g. g \<in> {8 * (512 * sect + idx)..<8 * (512 * sect + idx) + 8 * n} \<Longrightarrow> pending dev sect s g"
  shows "\<exists>idx' sect' s'. clear_bytes dev n idx (int sect) s = Inr (idx', int sect', s') \<and> idx' \<le> 512 \<and>
    512 * sect' + idx' = 512 * sect + idx + n \<and> disk_ok dev s' \<and> fs_rest s' = fs_rest s \<and>
    (\<forall>g. pending dev sect' s' g \<longleftrightarrow> pending dev sect s g \<and> g \<notin> {8 * (512 * sect + idx)..<8 * (512 * sect + idx) + 8 * n})"
  using assms
proof (induction n arbitrary: idx sect s)
  case (Suc n)
  have "sect + 1 < SECT_LIMIT" using Suc.prems(3) by linarith
  from next_map_sector_ok [OF Suc.prems(1, 2) this] obtain idx1 sect1 s1 where
    s1: "next_map_sector dev idx (int sect) s = Inr (idx1, int sect1, s1)" "idx1 < 512" "512 * sect1 + idx1 = 512 * sect + idx"
      "disk_ok dev s1" "pending dev sect1 s1 = pending dev sect s" "fs_rest s1 = fs_rest s" by blast
  let ?a = "fsbuf + of_nat idx1"
  define P where "P = 512 * sect + idx"
  have "bit (fmem s1 ?a) j" if "j < 8" for j
    using pending_bit [OF s1(2) that, of dev sect1 s1] Suc.prems(4) [of "8 * P + j"] that unfolding s1(3, 5) by (simp add: P_def)
  then have full: "fmem s1 ?a = 0xFF" by (simp only: full_byte) simp
  let ?s2 = "upd_fmem (\<lambda>mm. mm(?a := 0)) s1"
  have s2: "disk_ok dev ?s2" "fs_rest ?s2 = fs_rest s" using disk.upd_spec [OF s1(4)] s1(6) by simp_all
  have s2_bits: "pending dev sect1 ?s2 g \<longleftrightarrow> pending dev sect s g \<and> g \<notin> {8 * P..<8 * P + 8}" for g
  proof -
    have "g \<in> {8 * P..<8 * P + 8} \<longleftrightarrow> g div 8 = P" using byte_range [of 0 8 g P] by simp
    then show ?thesis using pending_byte [OF s1(2), of dev sect1 "\<lambda>_. 0" s1 g] unfolding s1(3, 5) P_def [symmetric] by simp
  qed
  have P1: "512 * sect1 + (idx1 + 1) = P + 1" using s1(3) by (simp add: P_def)
  have "pending dev sect1 ?s2 g" if "g \<in> {8 * (P + 1)..<8 * (P + 1) + 8 * n}" for g
    using s2_bits [of g] Suc.prems(4) [of g] that by (auto simp: P_def)
  moreover have "P + 1 + n < 512 * (SECT_LIMIT - 1)" "idx1 + 1 \<le> 512" using Suc.prems(3) s1(2) by (simp_all add: P_def)
  ultimately obtain idx' sect' s' where
    s': "clear_bytes dev n (idx1 + 1) (int sect1) ?s2 = Inr (idx', int sect', s')" "idx' \<le> 512" "512 * sect' + idx' = P + 1 + n"
      "disk_ok dev s'" "fs_rest s' = fs_rest ?s2"
      "\<And>g. pending dev sect' s' g \<longleftrightarrow> pending dev sect1 ?s2 g \<and> g \<notin> {8 * (P + 1)..<8 * (P + 1) + 8 * n}"
    using Suc.IH [OF s2(1), of "idx1 + 1" sect1] unfolding P1 by blast
  have "clear_bytes dev (Suc n) idx (int sect) s = Inr (idx', int sect', s')" using s1(1) s'(1) full by (simp add: Let_def)
  moreover have "pending dev sect' s' g \<longleftrightarrow> pending dev sect s g \<and> g \<notin> {8 * P..<8 * P + 8 * Suc n}" for g
    using s'(6) [of g] s2_bits [of g] by auto
  ultimately show ?case using s'(2-5) s2(2) unfolding P_def by auto
qed simp

end
