(* ===== verification/FsFree.thy ===== *)
theory FsFree
  imports FsMap
begin

text \<open>
  Release of a run of the sector map (\<^verbatim>\<open>clear_sector_map_bits\<close> of \<^verbatim>\<open>src/task/fs/unlink.c\<close>), and the round trip: what
  \<^verbatim>\<open>create_file\<close> allocates in the two maps, \<^verbatim>\<open>do_unlink\<close> gives back, so that the disk is as it was before.
\<close>

unbundle bit_operations_syntax

section \<open>Releasing a run\<close>

text \<open>The mask of the last byte, and the number of whole bytes between the first and the last.\<close>

lemma mask_bits:
  assumes "j < 8"
  shows "bit (NOT (push_bit l 0xFF) :: u8) j \<longleftrightarrow> j < l" "bit (push_bit l (NOT 0) :: u8) j \<longleftrightarrow> l \<le> j"
proof -
  have "l \<le> j \<Longrightarrow> bit (0xFF :: u8) (j - l)" using bit_full assms by simp
  then show "bit (NOT (push_bit l 0xFF) :: u8) j \<longleftrightarrow> j < l" using assms
    by (simp only: bit_not_iff bit_push_bit_iff possible_bit_word) auto
  show "bit (push_bit l (NOT 0) :: u8) j \<longleftrightarrow> l \<le> j" using assms
    by (simp only: bit_push_bit_iff bit_not_iff possible_bit_word bit_0_eq) auto
qed

lemma sdiv_small: "k0 < 8 \<Longrightarrow> 0 < k \<Longrightarrow> (int k - (8 - int k0)) sdiv 8 = int ((k - (8 - k0)) div 8)"
proof (cases "8 - k0 \<le> k")
  case True
  assume "k0 < 8"
  then have "int k - (8 - int k0) = int (k - (8 - k0))" using True by (simp add: of_nat_diff)
  then show ?thesis by (simp add: sdiv_nonneg zdiv_int)
qed (auto simp: signed_divide_int_def)

lemma clear_sector_map_bits_clears:
  assumes "disk_ok dev s" "get_super_block dev s = Inr sb" "inode_dev (inode_table s ! i) = dev"
    and "sint (inode_sect_start (inode_table s ! i) - nr_1st_data_sect sb + 1) = int b" "sint (inode_nr_sects (inode_table s ! i)) = int k"
    and "4096 * map_base sb + b + k \<le> 4096 * (SECT_LIMIT - 2)" "0 < k"
    and set: "\<And>g. g \<in> {4096 * map_base sb + b..<4096 * map_base sb + b + k} \<Longrightarrow> disk_bit dev s g"
  shows "\<exists>s'. clear_sector_map_bits i s = Inr s' \<and> disk_ok dev s' \<and> fs_rest s' = fs_rest s \<and>
    (\<forall>g. disk_bit dev s' g \<longleftrightarrow> disk_bit dev s g \<and> g \<notin> {4096 * map_base sb + b..<4096 * map_base sb + b + k})"
proof -
  define S where "S = 4096 * map_base sb + b"
  define k0 where "k0 = b mod 8"
  define b0 where "b0 = b div 8 mod 512"
  define N where "N = map_base sb + b div 8 div 512"
  define P where "P = 512 * map_base sb + b div 8"
  define m where "m = min (8 - k0) k"
  define c where "c = (k - (8 - k0)) div 8"
  define l where "l = k - m - 8 * c"
  have k0: "k0 < 8" and b0: "b0 < 512" by (simp_all add: k0_def b0_def)
  have P: "512 * N + b0 = P" and S: "8 * P + k0 = S" by (simp_all add: N_def b0_def P_def S_def k0_def)
  have lim: "S + k \<le> 4096 * (SECT_LIMIT - 2)" using assms(6) by (simp add: S_def)
  have N: "N + 1 < SECT_LIMIT" using lim S P k0 by linarith
  have parts: "k < 8 - k0 \<and> m = k \<and> c = 0 \<and> l = 0 \<or> m = 8 - k0 \<and> m + 8 * c + l = k \<and> l < 8"
  proof (cases "k < 8 - k0")
    case False
    then have "m = 8 - k0" "8 * c + (k - m) mod 8 = k - m" "m \<le> k" unfolding m_def c_def by simp_all
    then show ?thesis unfolding l_def by auto
  qed (simp add: m_def c_def l_def)
  obtain s1 where s1: "RD_SECT dev (spos (int N)) s = Inr s1" "disk_ok dev s1" "pending dev N s1 = disk_bit dev s"
    "fs_rest s1 = fs_rest s" using pending_rd [OF assms(1), of N] N by auto
  let ?a0 = "fsbuf + of_nat b0"
  have set0: "\<forall>j \<in> {k0..<k0 + m}. bit (fmem s1 ?a0) j"
  proof
    fix j assume j: "j \<in> {k0..<k0 + m}"
    then have "j < 8" "8 * P + j \<in> {S..<S + k}" using parts S by auto
    then show "bit (fmem s1 ?a0) j" using pending_bit [OF b0, of j dev N s1] set unfolding P s1(3) S_def by auto
  qed
  from clear_first_byte_ok [OF _ m_def set0] k0 obtain v where v: "clear_first_byte (8 - k0) (fmem s1 ?a0) k0 (int k) = Inr (v, int (k - m))"
    "\<And>j. j < 8 \<Longrightarrow> bit v j \<longleftrightarrow> bit (fmem s1 ?a0) j \<and> j \<notin> {k0..<k0 + m}" by auto
  let ?s2 = "upd_fmem (\<lambda>mm. mm(?a0 := v)) s1"
  have s2: "disk_ok dev ?s2" "fs_rest ?s2 = fs_rest s" using disk.upd_spec [OF s1(2)] s1(4) by simp_all
  have s2_bits: "pending dev N ?s2 g \<longleftrightarrow> disk_bit dev s g \<and> g \<notin> {S..<S + m}" for g
  proof -
    have "g \<in> {S..<S + m} \<longleftrightarrow> g div 8 = P \<and> g mod 8 \<in> {k0..<k0 + m}"
      unfolding S [symmetric] using k0 by (intro byte_range) (simp add: m_def)
    moreover have "g div 8 = P \<Longrightarrow> disk_bit dev s g = bit (fmem s1 ?a0) (g mod 8)"
      using pending_byte_at [OF b0, of g N dev s1] by (simp add: P s1(3))
    ultimately show ?thesis
      using pending_byte [OF b0, of dev N "\<lambda>_. v" s1 g] v(2) [of "g mod 8"] unfolding P s1(3) by auto
  qed
  have "c = 0 \<or> S + m = 8 * (P + 1) \<and> m + 8 * c \<le> k" using parts S k0 by auto
  then have "pending dev N ?s2 g" if "g \<in> {8 * (P + 1)..<8 * (P + 1) + 8 * c}" for g
    using that s2_bits [of g] set [of g] S k0 by (auto simp: S_def)
  moreover have "512 * N + (b0 + 1) = P + 1" using P by simp
  moreover have "P + 1 + c < 512 * (SECT_LIMIT - 1)" using lim S parts by linarith
  ultimately obtain idx3 N3 s3 where s3: "clear_bytes dev c (b0 + 1) (int N) ?s2 = Inr (idx3, int N3, s3)" "idx3 \<le> 512"
    "512 * N3 + idx3 = P + 1 + c" "disk_ok dev s3" "fs_rest s3 = fs_rest s"
    "\<And>g. pending dev N3 s3 g \<longleftrightarrow> pending dev N ?s2 g \<and> g \<notin> {8 * (P + 1)..<8 * (P + 1) + 8 * c}"
    using clear_bytes_ok [OF s2(1), of "b0 + 1" N c] b0 s2(2) by (metis Suc_eq_plus1 Suc_leI)
  have "N3 + 1 < SECT_LIMIT" using s3(3) lim S parts by linarith
  from next_map_sector_ok [OF s3(4, 2) this] obtain idx4 N4 s4 where
    s4: "next_map_sector dev idx3 (int N3) s3 = Inr (idx4, int N4, s4)" "idx4 < 512" "512 * N4 + idx4 = P + 1 + c" "disk_ok dev s4"
      "pending dev N4 s4 = pending dev N3 s3" "fs_rest s4 = fs_rest s" using s3(3, 5) by metis
  let ?a = "fsbuf + of_nat idx4"
  have l8: "l < 8" using parts by auto
  have "l = 0 \<or> S + m + 8 * c = 8 * (P + 1 + c) \<and> m + 8 * c + l = k" using parts S k0 by auto
  note last = this
  have "bit (fmem s4 ?a) j" if "j < l" for j
  proof -
    have "8 * (P + 1 + c) + j \<in> {S..<S + k}" "8 * (P + 1 + c) + j \<notin> {S..<S + m}"
      "8 * (P + 1 + c) + j \<notin> {8 * (P + 1)..<8 * (P + 1) + 8 * c}" using last that by auto
    then have "pending dev N4 s4 (8 * (P + 1 + c) + j)" unfolding s4(5) s3(6) s2_bits using set by (simp add: S_def)
    then show ?thesis using pending_bit [OF s4(2), of j dev N4 s4] that l8 unfolding s4(3) by simp
  qed
  then have mask: "fmem s4 ?a AND NOT (push_bit l 0xFF) = NOT (push_bit l 0xFF)"
    by (intro bit_word_eqI) (auto simp: bit_and_iff mask_bits simp del: bit_not_iff)
  let ?s5 = "upd_fmem (\<lambda>mm. mm(?a := mm ?a AND push_bit l (NOT 0))) s4"
  have s5: "disk_ok dev ?s5" "fs_rest ?s5 = fs_rest s" using disk.upd_spec [OF s4(4)] s4(6) by simp_all
  have s5_bits: "pending dev N4 ?s5 g \<longleftrightarrow> pending dev N3 s3 g \<and> g \<notin> {8 * (P + 1 + c)..<8 * (P + 1 + c) + l}" for g
  proof -
    have "g \<in> {8 * (P + 1 + c)..<8 * (P + 1 + c) + l} \<longleftrightarrow> g div 8 = P + 1 + c \<and> g mod 8 < l"
      using byte_range [of 0 l g "P + 1 + c"] l8 by simp
    moreover have "g div 8 = P + 1 + c \<Longrightarrow> pending dev N3 s3 g = bit (fmem s4 ?a) (g mod 8)"
      using pending_byte_at [OF s4(2), of g N4 dev s4] by (simp only: s4(3, 5))
    moreover have "bit (fmem s4 ?a AND push_bit l (NOT 0)) (g mod 8) \<longleftrightarrow> bit (fmem s4 ?a) (g mod 8) \<and> \<not> g mod 8 < l"
      using mask_bits(2) [of "g mod 8" l] by (simp only: bit_and_iff mod_less_divisor zero_less_numeral not_less)
    ultimately show ?thesis
      using pending_byte [OF s4(2), of dev N4 "\<lambda>mm. mm ?a AND push_bit l (NOT 0)" s4 g] unfolding s4(3, 5) by auto
  qed
  have "N4 < SECT_LIMIT" using s4(3) lim S parts by linarith
  from pending_wr [OF s5(1) this] obtain s' where s': "WR_SECT dev (spos (int N4)) ?s5 = Inr s'" "disk_ok dev s'"
    "disk_bit dev s' = pending dev N4 ?s5" "fs_rest s' = fs_rest s" using s5(2) by auto
  have num: "int b sdiv 8 = int (b div 8)" "int b smod 8 = int k0" "int (b div 8) sdiv 512 = int (b div 8 div 512)"
    "int (b div 8) smod 512 = int b0"
    by (simp_all only: k0_def b0_def sdiv_nonneg smod_nonneg of_nat_0_le_iff zero_less_numeral zdiv_int zmod_int of_nat_numeral)
  have "2 + nr_inode_map_sects sb + word_of_int (int (b div 8 div 512)) = of_nat N" by (simp add: N_def map_base_def)
  moreover have "sint (of_nat N :: u32) = int N" using N by (intro sint_of_nat_u32) simp
  ultimately have sect: "sint (2 + nr_inode_map_sects sb + word_of_int (int (b div 8 div 512))) = int N" by simp
  have cnt: "(int k - (8 - int k0)) sdiv 8 = int c" unfolding c_def by (rule sdiv_small [OF k0 assms(7)])
  have left: "nat (int (k - m) - 8 * max 0 (int c)) = l" by (simp add: l_def nat_diff_distrib)
  have "clear_sector_map_bits i s = Inr s'"
    unfolding clear_sector_map_bits_def Let_def assms(2-5) num sect cnt left obind_simps nat_int
    using s1(1) v(1) s3(1) s4(1) mask s'(1) left by simp
  moreover have "disk_bit dev s' g \<longleftrightarrow> disk_bit dev s g \<and> g \<notin> {S..<S + k}" for g
  proof -
    have "g \<in> {S..<S + k} \<longleftrightarrow> g \<in> {S..<S + m} \<or> g \<in> {8 * (P + 1)..<8 * (P + 1) + 8 * c} \<or> g \<in> {8 * (P + 1 + c)..<8 * (P + 1 + c) + l}"
      using parts S k0 by auto
    then show ?thesis unfolding s'(3) s5_bits s3(6) s2_bits by blast
  qed
  ultimately show ?thesis using s'(2, 4) unfolding S_def by blast
qed

lemma bit_numeral_7: "j < 8 \<Longrightarrow> bit (7 :: u8) j \<longleftrightarrow> j < 3"
proof -
  have "(7 :: u8) = mask 3" by (simp add: mask_eq_exp_minus_1)
  then show "j < 8 \<Longrightarrow> bit (7 :: u8) j \<longleftrightarrow> j < 3" by (simp only: bit_mask_iff possible_bit_word) simp
qed

section \<open>What is allocated can be released\<close>

text \<open>The first clear bit of the sector map is \<open>p\<close> and a run of \<open>k\<close> clear bits starts there.\<close>

definition free_run :: "int \<Rightarrow> super_block \<Rightarrow> fs \<Rightarrow> nat \<Rightarrow> nat \<Rightarrow> bool" where
  "free_run dev sb s p k \<longleftrightarrow> 0 < k \<and> p + k \<le> 4096 * unat (nr_sect_map_sects sb) \<and>
     (\<forall>x < p. disk_bit dev s (4096 * map_base sb + x)) \<and> (\<forall>x \<in> {p..<p + k}. \<not> disk_bit dev s (4096 * map_base sb + x))"

definition sect_map_ok :: "super_block \<Rightarrow> bool" where
  "sect_map_ok sb \<longleftrightarrow> layout_ok sb \<and> nr_inode_map_sects sb \<noteq> 0 \<and> nr_inode_sects sb \<noteq> 0 \<and> 1 < unat (nr_1st_data_sect sb)"

lemma sect_map_limit:
  assumes "sect_map_ok sb"
  shows "map_base sb + unat (nr_sect_map_sects sb) \<le> SECT_LIMIT - 2" "3 \<le> map_base sb"
proof -
  have "0 < unat (nr_inode_sects sb)" "0 < unat (nr_inode_map_sects sb)" using assms by (simp_all add: sect_map_ok_def unat_gt_0)
  then show "map_base sb + unat (nr_sect_map_sects sb) \<le> SECT_LIMIT - 2" "3 \<le> map_base sb"
    using assms by (simp_all add: sect_map_ok_def layout_ok_def map_base_def)
qed

lemma first_sect_eq:
  assumes "unat (nr_1st_data_sect sb) + p < 2147483648" "1 < unat (nr_1st_data_sect sb)"
  shows "first_sect sb p = int (unat (nr_1st_data_sect sb) + p - 1)"
proof -
  have "word_of_int (int p - 1) + nr_1st_data_sect sb = of_nat (unat (nr_1st_data_sect sb) + p - 1)"
    using assms(2) by (simp add: of_nat_diff)
  then have "first_sect sb p = sint (of_nat (unat (nr_1st_data_sect sb) + p - 1) :: u32)" unfolding first_sect_def by (rule arg_cong)
  also have "\<dots> = int (unat (nr_1st_data_sect sb) + p - 1)" using assms(1) by (intro sint_of_nat_u32) linarith
  finally show ?thesis .
qed

lemma alloc_sect_map_bit_takes:
  assumes "disk_ok dev s" "get_super_block dev s = Inr sb" "sect_map_ok sb" "free_run dev sb s p k"
    and "unat (nr_1st_data_sect sb) + p < 2147483648"
  shows "\<exists>s'. alloc_sect_map_bit dev (int k) s = Inr (int (unat (nr_1st_data_sect sb) + p - 1), s') \<and> disk_ok dev s' \<and>
    fs_rest s' = fs_rest s \<and> (\<forall>g. disk_bit dev s' g \<longleftrightarrow> disk_bit dev s g \<or> g \<in> {4096 * map_base sb + p..<4096 * map_base sb + p + k})"
proof -
  note lim = sect_map_limit [OF assms(3)]
  have st: "1 < unat (nr_1st_data_sect sb)" using assms(3) by (simp add: sect_map_ok_def)
  have nz: "first_sect sb p \<noteq> 0" using st unfolding first_sect_eq [OF assms(5) st] by linarith
  have "map_base sb < SECT_LIMIT" "map_base sb + 0 + unat (nr_sect_map_sects sb) \<le> SECT_LIMIT" using lim by linarith+
  note b = this
  have "0 < k" "p + k \<le> 4096 * (0 + unat (nr_sect_map_sects sb))"
    "\<And>x. x \<in> {4096 * 0..<p} \<Longrightarrow> disk_bit dev s (4096 * map_base sb + x)"
    "\<And>x. x \<in> {p..<p + k} \<Longrightarrow> \<not> disk_bit dev s (4096 * map_base sb + x)" using assms(4) by (auto simp: free_run_def)
  from alloc_sects_find [OF b(1) this(1) assms(1) b(2) _ this(2-4) nz] obtain s' where
    s': "alloc_sects_loop dev sb (unat (nr_sect_map_sects sb)) (int 0) 0 (int k) s = Inr (first_sect sb p, s')" "disk_ok dev s'"
      "fs_rest s' = fs_rest s"
      "\<forall>g. disk_bit dev s' g \<longleftrightarrow> disk_bit dev s g \<or> g \<in> {4096 * map_base sb + p..<4096 * map_base sb + p + k}" by auto
  then have "alloc_sect_map_bit dev (int k) s = Inr (int (unat (nr_1st_data_sect sb) + p - 1), s')"
    unfolding first_sect_eq [OF assms(5) st, symmetric] by (simp add: alloc_sect_map_bit_def assms(2))
  with s' show ?thesis by blast
qed

text \<open>C25: What create allocates, unlink gives back. With a free inode number and a free run of sectors, the lowest free
  number and the run are taken, exactly their bits of the maps are set, and releasing the inode that got them leaves
  every sector of the disk as it was before.\<close>

theorem allocation_released:
  assumes "disk_ok dev s" and "get_super_block dev s = Inr sb" and "sect_map_ok sb"
    and "m < 4096" and "\<not> disk_bit dev s (8192 + m)"
    and "free_run dev sb s p k" and "unat (nr_1st_data_sect sb) + p + k < 2147483648"
    and "i < length (inode_table s)" and "inode_dev (inode_table s ! i) = dev"
  shows "\<exists>n first s1 s2 s3 s4. alloc_inode_map_bit dev s = Inr (int n, s1) \<and> n < 4096 \<and> \<not> disk_bit dev s (8192 + n) \<and>
    (\<forall>j < n. disk_bit dev s (8192 + j)) \<and> alloc_sect_map_bit dev (int k) s1 = Inr (first, s2) \<and>
    first = int (unat (nr_1st_data_sect sb) + p - 1) \<and>
    (\<forall>g. disk_bit dev s2 g \<longleftrightarrow> disk_bit dev s g \<or> g = 8192 + n \<or> g \<in> {4096 * map_base sb + p..<4096 * map_base sb + p + k}) \<and>
    clear_inode_map_bit dev (int n)
      (upd_inode i (\<lambda>q. q\<lparr>inode_sect_start := word_of_int first, inode_nr_sects := word_of_int (int k)\<rparr>) s2) = Inr s3 \<and>
    clear_sector_map_bits i s3 = Inr s4 \<and> sector dev s4 = sector dev s"
proof -
  note lim = sect_map_limit [OF assms(3)]
  have st: "1 < unat (nr_1st_data_sect sb)" "nr_inode_map_sects sb \<noteq> 0" using assms(3) by (simp_all add: sect_map_ok_def)
  obtain n s1 where n: "alloc_inode_map_bit dev s = Inr (int n, s1)" "n < 4096" "\<not> disk_bit dev s (8192 + n)"
    "\<forall>j < n. disk_bit dev s (8192 + j)" "disk_ok dev s1" "fs_rest s1 = fs_rest s"
    "\<And>g. disk_bit dev s1 g \<longleftrightarrow> disk_bit dev s g \<or> g = 8192 + n"
    using alloc_inode_map_bit_takes [OF assms(1, 2) st(2) assms(4, 5)] by auto
  have apart: "4096 * map_base sb + x \<noteq> 8192 + n" for x using lim(2) n(2) by linarith
  then have "free_run dev sb s1 p k" using assms(6) by (simp add: free_run_def n(7))
  moreover have "get_super_block dev s1 = Inr sb" using assms(2) get_super_block_rest [OF n(6)] by simp
  moreover define first where "first = int (unat (nr_1st_data_sect sb) + p - 1)"
  ultimately obtain s2 where s2: "alloc_sect_map_bit dev (int k) s1 = Inr (first, s2)" "disk_ok dev s2" "fs_rest s2 = fs_rest s"
    "\<And>g. disk_bit dev s2 g \<longleftrightarrow> disk_bit dev s1 g \<or> g \<in> {4096 * map_base sb + p..<4096 * map_base sb + p + k}"
    using alloc_sect_map_bit_takes [OF n(5) _ assms(3), of p k] assms(7) n(6) by auto
  let ?f = "\<lambda>q. q\<lparr>inode_sect_start := word_of_int first, inode_nr_sects := word_of_int (int k)\<rparr>"
  let ?t = "upd_inode i ?f s2"
  have tab: "inode_table ?t = (inode_table s)[i := ?f (inode_table s ! i)]"
    using rest_upd_inode(1) [OF s2(3)] by (simp add: upd_inode_def)
  obtain s3 where s3: "clear_inode_map_bit dev (int n) ?t = Inr s3" "disk_ok dev s3" "fs_rest s3 = fs_rest ?t"
    "\<And>g. disk_bit dev s3 g \<longleftrightarrow> disk_bit dev s2 g \<and> g \<noteq> 8192 + n"
    using clear_inode_map_bit_clears [of dev ?t n] s2(2, 4) n(2, 7) by auto
  have inode: "inode_table s3 ! i = ?f (inode_table s ! i)" using rest_upd_inode(1) [OF s3(3)] tab assms(8) by simp
  have k: "0 < k" "p + k \<le> 4096 * unat (nr_sect_map_sects sb)"
    "\<And>x. x \<in> {p..<p + k} \<Longrightarrow> \<not> disk_bit dev s (4096 * map_base sb + x)" using assms(6) by (simp_all add: free_run_def)
  have "word_of_int first = nr_1st_data_sect sb + of_nat p - 1" using st(1) by (simp add: first_def of_nat_diff)
  moreover have "sint (of_nat p :: u32) = int p" "sint (word_of_int (int k) :: u32) = int k"
    using assms(7) sint_of_nat_u32 [of p] sint_of_nat_u32 [of k] by simp_all
  ultimately have start: "sint (inode_sect_start (inode_table s3 ! i) - nr_1st_data_sect sb + 1) = int p"
    "sint (inode_nr_sects (inode_table s3 ! i)) = int k" "inode_dev (inode_table s3 ! i) = dev" using inode assms(9) by simp_all
  have sb3: "get_super_block dev s3 = Inr sb"
    using assms(2) get_super_block_rest [OF s3(3)] get_super_block_rest [OF s2(3)] by simp
  have "4096 * map_base sb + p + k \<le> 4096 * (SECT_LIMIT - 2)" using lim(1) k(2) by linarith
  moreover have "disk_bit dev s3 g" if "g \<in> {4096 * map_base sb + p..<4096 * map_base sb + p + k}" for g
    using that s3(4) [of g] s2(4) [of g] apart [of "g - 4096 * map_base sb"] by auto
  ultimately obtain s4 where s4: "clear_sector_map_bits i s3 = Inr s4"
    "\<And>g. disk_bit dev s4 g \<longleftrightarrow> disk_bit dev s3 g \<and> g \<notin> {4096 * map_base sb + p..<4096 * map_base sb + p + k}"
    using clear_sector_map_bits_clears [OF s3(2) sb3 start(3, 1, 2) _ k(1)] by blast
  have "disk_bit dev s4 g = disk_bit dev s g" for g
  proof -
    have "\<not> disk_bit dev s g" if "g \<in> {4096 * map_base sb + p..<4096 * map_base sb + p + k}"
    proof -
      have "4096 * map_base sb + (g - 4096 * map_base sb) = g" "g - 4096 * map_base sb \<in> {p..<p + k}"
        using that unfolding atLeastLessThan_iff by linarith+
      then show ?thesis using k(3) by metis
    qed
    then show ?thesis using s4(2) [of g] s3(4) [of g] s2(4) [of g] n(3) n(7) [of g] by auto
  qed
  then have "sector dev s4 = sector dev s" by (rule sectors_eqI)
  moreover have "\<forall>g. disk_bit dev s2 g \<longleftrightarrow> disk_bit dev s g \<or> g = 8192 + n \<or>
      g \<in> {4096 * map_base sb + p..<4096 * map_base sb + p + k}" using s2(4) n(7) by blast
  ultimately show ?thesis using n(1-4) s2(1) first_def s3(1) s4(1) by blast
qed

lemma sample_bit:
  assumes "n < SECT_LIMIT" "j < 8"
  shows "disk_bit ROOT_DEV_NR sample_fs (4096 * n + j) = bit (sample_media (of_nat n) 0) j"
  using sect_bit_at [of 0 j "sector ROOT_DEV_NR sample_fs" n] assms sample_sector [of n 0] by simp

lemma sample_map_bits: "j < 8 \<Longrightarrow> disk_bit ROOT_DEV_NR sample_fs (12288 + j) \<longleftrightarrow> j < 3" "j < 8 \<Longrightarrow> disk_bit ROOT_DEV_NR sample_fs (8192 + j) \<longleftrightarrow> j < 3"
  using bit_numeral_7 [of j] sample_bit [of 3 j] sample_bit [of 2 j] by (simp_all add: sample_media_def)

lemma sample_sect_map_ok: "sect_map_ok sample_sb" "map_base sample_sb = 3"
  by (simp_all add: sect_map_ok_def layout_ok_def map_base_def sample_sb_def)

theorem allocation_released_witness:
  "\<exists>n s1 s2 s3 s4. alloc_inode_map_bit ROOT_DEV_NR sample_fs = Inr (int n, s1) \<and> alloc_sect_map_bit ROOT_DEV_NR (int 2) s1 = Inr (7, s2) \<and>
     clear_inode_map_bit ROOT_DEV_NR (int n)
       (upd_inode 1 (\<lambda>q. q\<lparr>inode_sect_start := word_of_int 7, inode_nr_sects := word_of_int (int 2)\<rparr>) s2) = Inr s3 \<and>
     clear_sector_map_bits 1 s3 = Inr s4 \<and> sector ROOT_DEV_NR s4 = sector ROOT_DEV_NR sample_fs"
proof -
  have "(3 :: nat) < 4096" "\<not> disk_bit ROOT_DEV_NR sample_fs (8192 + 3)" using sample_map_bits(2) [of 3] by simp_all
  note m = this
  have run: "free_run ROOT_DEV_NR sample_sb sample_fs 3 2"
    unfolding free_run_def sample_sect_map_ok(2) using sample_map_bits(1) by (simp add: sample_sb_def)
  have st: "unat (nr_1st_data_sect sample_sb) = 5" by (simp add: sample_sb_def)
  then have lim: "unat (nr_1st_data_sect sample_sb) + 3 + 2 < 2147483648" by simp
  have i: "1 < length (inode_table sample_fs)" "inode_dev (inode_table sample_fs ! 1) = ROOT_DEV_NR"
    by (simp_all add: sample_fs_def sample_file_def)
  have "int (5 + 3 - 1) = 7" by simp
  with allocation_released [OF sample_disk_ok sample_get_super_block sample_sect_map_ok(1) m run lim i] show ?thesis
    unfolding st by metis
qed

end
