(* ===== verification/FsFull.thy ===== *)
theory FsFull
  imports FsFree
begin

text \<open>
  Allocation when there is no room: a full inode map gives the number 0, and a first gap of the sector map that is too
  short fails an assertion, wherever larger gaps are.
\<close>

unbundle bit_operations_syntax

section \<open>A full inode map\<close>

lemma alloc_inode_map_bit_full:
  assumes "disk_ok dev s" "get_super_block dev s = Inr sb" "nr_inode_map_sects sb \<noteq> 0"
    and "\<And>i. i < 4096 \<Longrightarrow> disk_bit dev s (8192 + i)"
  shows "\<exists>s'. alloc_inode_map_bit dev s = Inr (0, s') \<and> sector dev s' = sector dev s"
proof -
  obtain s1 where s1: "RD_SECT dev (spos (int 2)) s = Inr s1" "disk_ok dev s1" "pending dev 2 s1 = disk_bit dev s"
    "disk_bit dev s1 = disk_bit dev s" "fs_rest s1 = fs_rest s" using pending_rd [OF assms(1), of 2] by auto
  have "fmem s1 (fsbuf + of_nat k) = 0xFF" if "k < 512" for k
  proof -
    have "bit (fmem s1 (fsbuf + of_nat k)) j" if "j < 8" for j
      using pending_bit [OF \<open>k < 512\<close> that, of dev 2 s1] assms(4) [of "8 * k + j"] \<open>k < 512\<close> that s1(3) by (simp add: add.assoc)
    then show ?thesis by (simp only: full_byte) simp
  qed
  then have "find_free_byte (fmem s1) 0 512 = None"
    using find_free_byte_cases [where mm = "fmem s1" and j = 0 and n = 512] by (auto split: option.splits)
  then have "alloc_inode_map_bit dev s = Inr (0, s1)" using s1(1) assms(2, 3) by (simp add: alloc_inode_map_bit_def)
  moreover have "sector dev s1 = sector dev s" using s1(4) by (intro sectors_eqI) simp
  ultimately show ?thesis by blast
qed

section \<open>A gap that is too short\<close>

lemma set_bits_fail:
  "0 < left \<Longrightarrow> k + n \<le> 8 \<Longrightarrow> j \<in> {k..<k + min n (nat left)} \<Longrightarrow> bit b j \<Longrightarrow> set_bits n b k left = Inl AssertFail"
proof (induction n arbitrary: b k left)
  case (Suc n)
  show ?case
  proof (cases "bit b k")
    case False
    have j: "j < 8" "j \<noteq> k" using Suc.prems False by auto
    then have "j \<in> {k + 1..<k + 1 + min n (nat (left - 1))}" "left \<noteq> 1" using Suc.prems(1, 3) by (auto simp: nat_diff_distrib)
    moreover have "bit (b OR 2 ^ k) j" using Suc.prems(4) bit_or_one [OF j(1)] by blast
    ultimately show ?thesis using Suc.IH [of "left - 1" "k + 1" "b OR 2 ^ k"] Suc.prems(1, 2) False by (simp add: drop_bit_and_one)
  qed (simp add: drop_bit_and_one)
qed simp

lemma alloc_bytes_set_fail:
  assumes "alloc \<noteq> 0" "j + n \<le> 512" "y \<in> {8 * j..<8 * j + min (8 * n) (nat left)}" "buf_bit mm y"
  shows "alloc_bytes sb i j n mm alloc left = Inl AssertFail"
  using assms(2-)
proof (induction n arbitrary: j left mm)
  case (Suc n)
  have left: "0 < left" using Suc.prems(2) by (cases "0 < left") auto
  let ?a = "fsbuf + of_nat j"
  define m where "m = min 8 (nat left)"
  have y: "8 * j \<le> y" "y < 8 * j + min (8 * Suc n) (nat left)" using Suc.prems(2) by auto
  show ?case
  proof (cases "\<exists>x \<in> {0..<0 + m}. bit (mm ?a) x")
    case True
    then have "set_bits 8 (mm ?a) 0 left = Inl AssertFail" using set_bits_fail [OF left, of 0 8] by (auto simp: m_def)
    then show ?thesis using left assms(1) by simp
  next
    case False
    then obtain b where b: "set_bits 8 (mm ?a) 0 left = Inr (b, left - int m)"
      using set_bits_ok [OF left, of 0 8 m "mm ?a"] by (auto simp: m_def)
    have ge: "8 * (j + 1) \<le> y"
    proof (rule ccontr)
      assume "\<not> ?thesis"
      then have "y = 8 * j + (y - 8 * j)" "y - 8 * j < 8" using y by auto
      then have "bit (mm ?a) (y - 8 * j)" using Suc.prems(3) by (metis buf_bit_at)
      moreover have "y - 8 * j < m" using y \<open>y - 8 * j < 8\<close> by (auto simp: m_def)
      ultimately show False using False by auto
    qed
    have lt: "y < 8 * (j + 1) + min (8 * n) (nat (left - int m))" using y ge left by (simp add: m_def min_def split: if_splits) linarith
    have bit: "buf_bit (mm(?a := b)) y" using Suc.prems(1, 3) y ge buf_bit_upd [of j y mm b] by (auto simp: div_less_iff_less_mult)
    have "alloc_bytes sb i (j + 1) n (mm(?a := b)) alloc (left - int m) = Inl AssertFail"
      using ge lt Suc.prems(1) by (intro Suc.IH [OF _ _ bit]) auto
    then show ?thesis using b left assms(1) by simp
  qed
qed simp

lemma alloc_bytes_find_fail:
  assumes "q \<in> {8 * j..<8 * (j + n)}" "\<not> buf_bit mm q" "\<forall>x \<in> {8 * j..<q}. buf_bit mm x"
    and "0 < left" "j + n \<le> 512" "y \<in> {q..<q + min (8 * (j + n) - q) (nat left)}" "buf_bit mm y"
    and "first_sect sb (4096 * i + q) \<noteq> 0"
  shows "alloc_bytes sb (int i) j n mm 0 left = Inl AssertFail"
  using assms(1, 3, 5, 6)
proof (induction n arbitrary: j)
  case (Suc n)
  let ?a = "fsbuf + of_nat j" let ?k = "lowest_clear (mm ?a)"
  show ?case
  proof (cases "mm ?a = 0xFF")
    case True
    have "8 * (j + 1) \<le> q" using first_clear_later [OF True assms(2)] Suc.prems(1) by simp
    with Suc.IH [of "j + 1"] Suc.prems True assms(4) show ?thesis by auto
  next
    case False
    note k = lowest_clear [OF False]
    have q: "q = 8 * j + ?k" using first_clear_here [OF False assms(2)] Suc.prems(1, 2) by simp
    define m where "m = min (8 - ?k) (nat left)"
    show ?thesis
    proof (cases "\<exists>x \<in> {?k..<?k + m}. bit (mm ?a) x")
      case True
      then have "set_bits (8 - ?k) (mm ?a) ?k left = Inl AssertFail"
        using set_bits_fail [OF assms(4), of ?k "8 - ?k"] k(1) by (auto simp: m_def)
      then show ?thesis using assms(4) False by simp
    next
      case none: False
      then obtain b where b: "set_bits (8 - ?k) (mm ?a) ?k left = Inr (b, left - int m)"
        using set_bits_ok [OF assms(4), of ?k "8 - ?k" m "mm ?a"] k(1) by (auto simp: m_def)
      have ge: "8 * (j + 1) \<le> y"
      proof (rule ccontr)
        assume "\<not> ?thesis"
        then have "y = 8 * j + (y - 8 * j)" "y - 8 * j < 8" using Suc.prems(4) q by auto
        then have "bit (mm ?a) (y - 8 * j)" using assms(7) by (metis buf_bit_at)
        moreover have "y - 8 * j \<in> {?k..<?k + m}" using Suc.prems(4) q \<open>y - 8 * j < 8\<close> by (auto simp: m_def)
        ultimately show False using none by blast
      qed
      have lt: "y < 8 * (j + 1) + min (8 * n) (nat (left - int m))"
      proof -
        obtain L where L: "left = int L" using assms(4) by (metis less_imp_le nonneg_int_cases)
        have "nat (left - int m) = L - m" by (simp add: L nat_diff_distrib m_def)
        moreover have "y < q + L" "y < 8 * (j + Suc n)" using Suc.prems(4) by (auto simp: L)
        moreover have "m = 8 - ?k \<or> m = L \<and> L \<le> 8 - ?k" by (auto simp: m_def L min_def)
        ultimately show ?thesis using q ge k(1) by auto
      qed
      have "y < 4096" using Suc.prems(3, 4) by auto
      then have bit: "buf_bit (mm(?a := b)) y"
        using Suc.prems(3) assms(7) ge buf_bit_upd [of j y mm b] by (auto simp: div_less_iff_less_mult)
      have "alloc_bytes sb (int i) (j + 1) n (mm(?a := b)) (first_sect sb (4096 * i + q)) (left - int m) = Inl AssertFail"
        using ge lt Suc.prems(3) by (intro alloc_bytes_set_fail [OF assms(8) _ _ bit]) auto
      moreover have "sint (word_of_int ((int i * 512 + int j) * 8 + int ?k - 1) + nr_1st_data_sect sb) = first_sect sb (4096 * i + q)"
        by (simp add: first_sect_def q algebra_simps)
      ultimately show ?thesis using b assms(4) False by simp
    qed
  qed
qed simp

lemma alloc_sects_set_fail:
  assumes "alloc \<noteq> 0" "map_base sb < SECT_LIMIT" "k \<le> 4096 * n" "disk_ok dev s" "map_base sb + i + n \<le> SECT_LIMIT"
    and "g \<in> {4096 * (map_base sb + i)..<4096 * (map_base sb + i) + k}" "disk_bit dev s g"
  shows "alloc_sects_loop dev sb n (int i) alloc (int k) s = Inl AssertFail"
  using assms(3-)
proof (induction n arbitrary: i k s)
  case (Suc n)
  define N where "N = map_base sb + i"
  have N: "N < SECT_LIMIT" "spos (sint (1 + 1 + nr_inode_map_sects sb) + int i) = spos (int N)"
    using Suc.prems(3) by (simp_all add: N_def map_base_sint [OF assms(2)])
  obtain s1 where s1: "RD_SECT dev (spos (int N)) s = Inr s1" "disk_ok dev s1" "disk_bit dev s1 = disk_bit dev s"
    "pending dev N s1 = disk_bit dev s" "fs_rest s1 = fs_rest s" using pending_rd [OF Suc.prems(2) N(1)] by auto
  define m where "m = min 4096 k"
  have m: "m \<le> 4096" "m \<le> k" "m = min (8 * 512) (nat (int k))" by (simp_all add: m_def)
  show ?case
  proof (cases "\<exists>y \<in> {8 * 0..<8 * 0 + m}. buf_bit (fmem s1) y")
    case True
    then have "alloc_bytes sb (int i) 0 512 (fmem s1) alloc (int k) = Inl AssertFail"
      using alloc_bytes_set_fail [OF assms(1), of 0 512] m(3) by auto
    then show ?thesis using N(2) s1(1) by (simp add: Let_def)
  next
    case False
    then have clear: "\<forall>x \<in> {8 * 0..<8 * 0 + m}. \<not> buf_bit (fmem s1) x" by blast
    from alloc_bytes_set [OF assms(1) _ _ m(3) this, of sb "int i"] obtain mm where
      mm: "alloc_bytes sb (int i) 0 512 (fmem s1) alloc (int k) = Inr (mm, alloc, int k - int m)"
        "\<And>x. x < 4096 \<Longrightarrow> buf_bit mm x \<longleftrightarrow> buf_bit (fmem s1) x \<or> x \<in> {0..<m}" by auto
    have "pending dev N s1 = disk_bit dev s1" using s1(3, 4) by simp
    from map_sector_written [OF s1(2) N(1) this _ m(1) mm(2)] obtain s3 where
      s3: "WR_SECT dev (spos (int N)) (upd_fmem (\<lambda>_. mm) s1) = Inr s3" "disk_ok dev s3"
        "\<And>g. disk_bit dev s3 g \<longleftrightarrow> disk_bit dev s g \<or> g \<in> {4096 * N..<4096 * N + m}" using s1(3) by auto
    have step: "alloc_sects_loop dev sb (Suc n) (int i) alloc (int k) s =
        (if int k - int m = 0 then Inr (alloc, s3) else alloc_sects_loop dev sb n (int i + 1) alloc (int k - int m) s3)"
      using N(2) s1(1) mm(1) s3(1) assms(1) by (simp add: Let_def)
    have "4096 * N + m \<le> g"
    proof (rule ccontr)
      assume "\<not> 4096 * N + m \<le> g"
      then have g: "g - 4096 * N < m" "4096 * N + (g - 4096 * N) = g" using Suc.prems(4) by (auto simp: N_def)
      then have "buf_bit (fmem s1) (g - 4096 * N)" using sector_bits [OF s1(4), of "g - 4096 * N"] Suc.prems(5) m(1) by simp
      with clear g(1) show False by auto
    qed
    then have k: "4096 < k" "m = 4096" "g \<in> {4096 * (map_base sb + Suc i)..<4096 * (map_base sb + Suc i) + (k - 4096)}"
      using Suc.prems(4) by (auto simp: N_def m_def min_def split: if_splits)
    then have rest: "int k - int m = int (k - 4096)" "int (k - 4096) \<noteq> 0" "int i + 1 = int (Suc i)" by simp_all
    have "k - 4096 \<le> 4096 * n" "map_base sb + Suc i + n \<le> SECT_LIMIT" using Suc.prems(1, 3) by simp_all
    from Suc.IH [OF this(1) s3(2) this(2) k(3)] have "alloc_sects_loop dev sb n (int (Suc i)) alloc (int (k - 4096)) s3 = Inl AssertFail"
      using s3(3) Suc.prems(5) by blast
    then show ?thesis unfolding step rest(1) if_not_P [OF rest(2)] rest(3) .
  qed
qed simp

lemma alloc_sects_find_fail:
  assumes "map_base sb < SECT_LIMIT" "disk_ok dev s" "map_base sb + i + n \<le> SECT_LIMIT" "4096 * i \<le> p" "p + k \<le> 4096 * (i + n)"
    and "\<And>x. x \<in> {4096 * i..<p} \<Longrightarrow> disk_bit dev s (4096 * map_base sb + x)"
    and "\<not> disk_bit dev s (4096 * map_base sb + p)" "y \<in> {p..<p + k}" "disk_bit dev s (4096 * map_base sb + y)"
    and "first_sect sb p \<noteq> 0"
  shows "alloc_sects_loop dev sb n (int i) 0 (int k) s = Inl AssertFail"
  using assms(2-7, 9)
proof (induction n arbitrary: i s)
  case (Suc n)
  have k: "0 < k" using assms(8) by auto
  define N where "N = map_base sb + i"
  have N: "N < SECT_LIMIT" "spos (sint (1 + 1 + nr_inode_map_sects sb) + int i) = spos (int N)"
    using Suc.prems(2) by (simp_all add: N_def map_base_sint [OF assms(1)])
  obtain s1 where s1: "RD_SECT dev (spos (int N)) s = Inr s1" "disk_ok dev s1" "disk_bit dev s1 = disk_bit dev s"
    "pending dev N s1 = disk_bit dev s" using pending_rd [OF Suc.prems(1) N(1)] by auto
  have bits: "buf_bit (fmem s1) x = disk_bit dev s (4096 * map_base sb + (4096 * i + x))" if "x < 4096" for x
    using sector_bits [OF s1(4) that] by (simp add: N_def add.assoc add_mult_distrib2)
  show ?case
  proof (cases "4096 * Suc i \<le> p")
    case True
    then have "\<forall>x \<in> {8 * 0..<8 * (0 + 512)}. buf_bit (fmem s1) x" using bits Suc.prems(5) by auto
    from alloc_bytes_full [OF this] have full: "alloc_bytes sb (int i) 0 512 (fmem s1) 0 (int k) = Inr (fmem s1, 0, int k)" .
    let ?s2 = "upd_fmem (\<lambda>_. fmem s1) s1"
    have s2: "disk_ok dev ?s2" "disk_bit dev ?s2 = disk_bit dev s" using disk.upd_spec [OF s1(2)] s1(3) by simp_all
    have "alloc_sects_loop dev sb (Suc n) (int i) 0 (int k) s = alloc_sects_loop dev sb n (int (Suc i)) 0 (int k) ?s2"
      using N(2) s1(1) full k by (simp add: Let_def add.commute)
    moreover have "alloc_sects_loop dev sb n (int (Suc i)) 0 (int k) ?s2 = Inl AssertFail"
      using Suc.prems True s2(2) by (intro Suc.IH [OF s2(1)]) auto
    ultimately show ?thesis by simp
  next
    case False
    define q where "q = p - 4096 * i"
    then have q: "q < 4096" "p = 4096 * i + q" using False Suc.prems(3) by auto
    define m where "m = min (4096 - q) k"
    have m: "q + m \<le> 4096" "m \<le> k" "m = min (8 * (0 + 512) - q) (nat (int k))" using q(1) by (simp_all add: m_def)
    have first: "\<not> buf_bit (fmem s1) q" "\<forall>x \<in> {8 * 0..<q}. buf_bit (fmem s1) x"
      using bits Suc.prems(5, 6) q by auto
    have range: "q \<in> {8 * 0..<8 * (0 + 512)}" "0 < int k" "first_sect sb (4096 * i + q) \<noteq> 0" using q assms(10) k by simp_all
    show ?thesis
    proof (cases "\<exists>x \<in> {q..<q + m}. buf_bit (fmem s1) x")
      case True
      then have "alloc_bytes sb (int i) 0 512 (fmem s1) 0 (int k) = Inl AssertFail"
        unfolding m(3) using alloc_bytes_find_fail [OF range(1) first range(2) _ _ _ range(3)] by auto
      then show ?thesis using N(2) s1(1) by (simp add: Let_def)
    next
      case none: False
      then have "\<forall>x \<in> {q..<q + m}. \<not> buf_bit (fmem s1) x" by blast
      from alloc_bytes_find [OF range(1) first range(2) _ m(3) this range(3)] obtain mm where
        mm: "alloc_bytes sb (int i) 0 512 (fmem s1) 0 (int k) = Inr (mm, first_sect sb p, int k - int m)"
          "\<And>x. x < 4096 \<Longrightarrow> buf_bit mm x \<longleftrightarrow> buf_bit (fmem s1) x \<or> x \<in> {q..<q + m}" using q(2) by auto
      have "pending dev N s1 = disk_bit dev s1" using s1(3, 4) by simp
      from map_sector_written [OF s1(2) N(1) this _ m(1) mm(2)] obtain s3 where
        s3: "WR_SECT dev (spos (int N)) (upd_fmem (\<lambda>_. mm) s1) = Inr s3" "disk_ok dev s3"
          "\<And>g. disk_bit dev s3 g \<longleftrightarrow> disk_bit dev s g \<or> g \<in> {4096 * N + q..<4096 * N + (q + m)}" using s1(3) by auto
      have step: "alloc_sects_loop dev sb (Suc n) (int i) 0 (int k) s =
          (if int k - int m = 0 then Inr (first_sect sb p, s3) else alloc_sects_loop dev sb n (int i + 1) (first_sect sb p) (int k - int m) s3)"
        using N(2) s1(1) mm(1) s3(1) assms(10) by (simp add: Let_def)
      have y: "p + m \<le> y"
      proof (rule ccontr)
        assume "\<not> p + m \<le> y"
        then have y: "y - 4096 * i \<in> {q..<q + m}" "4096 * i + (y - 4096 * i) = y" using assms(8) q(2) by auto
        then have "buf_bit (fmem s1) (y - 4096 * i)" using bits [of "y - 4096 * i"] Suc.prems(7) m(1) by simp
        with none y(1) show False by blast
      qed
      then have m4: "q + m = 4096" "m < k" using assms(8) q(1) by (auto simp: m_def min_def split: if_splits)
      then have rest: "int k - int m = int (k - m)" "int (k - m) \<noteq> 0" "int i + 1 = int (Suc i)" by simp_all
      have e: "4096 * (map_base sb + Suc i) = 4096 * map_base sb + p + m" using m4(1) q(2) by simp
      have "4096 * map_base sb + y \<in> {4096 * (map_base sb + Suc i)..<4096 * (map_base sb + Suc i) + (k - m)}"
        unfolding e using y assms(8) m4(2) by auto
      moreover have "k - m \<le> 4096 * n" "map_base sb + Suc i + n \<le> SECT_LIMIT" using Suc.prems(2, 4) m4 q(2) by simp_all
      moreover have "disk_bit dev s3 (4096 * map_base sb + y)" using s3(3) Suc.prems(7) by blast
      ultimately have "alloc_sects_loop dev sb n (int (Suc i)) (first_sect sb p) (int (k - m)) s3 = Inl AssertFail"
        using alloc_sects_set_fail [OF assms(10, 1) _ s3(2)] by blast
      then show ?thesis unfolding step rest(1) if_not_P [OF rest(2)] rest(3) .
    qed
  qed
qed (use assms(8) in auto)

text \<open>C26: Sectors are taken from the first gap of the map only. When the first clear bit of the sector map does not start a run of the
  length asked for, the allocation fails an assertion of the file system task, even if a longer gap follows.\<close>

theorem short_gap_fails:
  assumes "disk_ok dev s" and "get_super_block dev s = Inr sb" and "sect_map_ok sb"
    and "\<forall>x < p. disk_bit dev s (4096 * map_base sb + x)" and "\<not> disk_bit dev s (4096 * map_base sb + p)"
    and "y \<in> {p..<p + k}" and "disk_bit dev s (4096 * map_base sb + y)"
    and "p + k \<le> 4096 * unat (nr_sect_map_sects sb)" and "unat (nr_1st_data_sect sb) + p < 2147483648"
  shows "alloc_sect_map_bit dev (int k) s = Inl AssertFail"
proof -
  note lim = sect_map_limit [OF assms(3)]
  have st: "1 < unat (nr_1st_data_sect sb)" using assms(3) by (simp add: sect_map_ok_def)
  have nz: "first_sect sb p \<noteq> 0" using st unfolding first_sect_eq [OF assms(9) st] by linarith
  have b: "map_base sb < SECT_LIMIT" "map_base sb + 0 + unat (nr_sect_map_sects sb) \<le> SECT_LIMIT" using lim by linarith+
  have "alloc_sects_loop dev sb (unat (nr_sect_map_sects sb)) (int 0) 0 (int k) s = Inl AssertFail"
    using assms(4, 8) by (intro alloc_sects_find_fail [OF b(1) assms(1) b(2) _ _ _ assms(5-7) nz]) auto
  then show ?thesis by (simp add: alloc_sect_map_bit_def assms(2))
qed

text \<open>A disk whose sector map has a gap of one sector.\<close>

definition gap_fs :: fs where
  "gap_fs = sample_fs\<lparr>hds := xferred id (\<lambda>d. d\<lparr>media := sample_media(3 := (\<lambda>_. 0)(0 := 0x17))\<rparr>) (hds sample_fs)\<rparr>"

lemma gap_disk_ok: "disk_ok ROOT_DEV_NR gap_fs" "get_super_block ROOT_DEV_NR gap_fs = Inr sample_sb"
proof -
  show "disk_ok ROOT_DEV_NR gap_fs" unfolding gap_fs_def using sample_disk_ok by (subst disk_ok_xferred) simp_all
  have "fs_rest gap_fs = fs_rest sample_fs" by (simp add: gap_fs_def)
  then show "get_super_block ROOT_DEV_NR gap_fs = Inr sample_sb" by (simp only: get_super_block_rest sample_get_super_block)
qed

lemma gap_map_bits: "j < 8 \<Longrightarrow> disk_bit ROOT_DEV_NR gap_fs (12288 + j) = bit (0x17 :: u8) j"
proof -
  assume j: "j < 8"
  have "dev_start ROOT_DEV_NR gap_fs = 0"
    by (simp add: gap_fs_def) (simp add: dev_start_def ROOT_DEV_NR_eq GET_DEV_MINOR_NR_def sample_fs_def sample_hd_def part_of_minor_def DRIVE_OF_DEV_def
      nth_part_def signed_divide_int_def)
  then have "sector ROOT_DEV_NR gap_fs 3 0 = 0x17" by (simp add: sector_def gap_fs_def)
  then show ?thesis using sect_bit_at [of 0 j "sector ROOT_DEV_NR gap_fs" 3] j by simp
qed

theorem short_gap_fails_witness: "alloc_sect_map_bit ROOT_DEV_NR (int 2) gap_fs = Inl AssertFail"
proof -
  have "disk_bit ROOT_DEV_NR gap_fs (12288 + j)" if "j < 3" for j
  proof -
    have "j = 0 \<or> j = 1 \<or> j = 2" using that by auto
    then show ?thesis using gap_map_bits [of j] by auto
  qed
  moreover have "\<not> disk_bit ROOT_DEV_NR gap_fs (12288 + 3)" "disk_bit ROOT_DEV_NR gap_fs (12288 + 4)"
    using gap_map_bits [of 3] gap_map_bits [of 4] by simp_all
  moreover have "unat (nr_1st_data_sect sample_sb) = 5" "unat (nr_sect_map_sects sample_sb) = 1" by (simp_all add: sample_sb_def)
  ultimately show ?thesis
    using short_gap_fails [OF gap_disk_ok sample_sect_map_ok(1), of 3 4 2] by (simp add: sample_sect_map_ok(2))
qed

end
