(* ===== verification/FsFiles.thy ===== *)
theory FsFiles
  imports FsInode FsOps
begin

text \<open>
  Open files: every descriptor counts the process entries that point to it, every cached inode has at
  least as many references as its descriptors, and fork, exit, close and open keep it so.
\<close>

unbundle bit_operations_syntax

section \<open>Reference counts\<close>

text \<open>The entries of the process table that point to a descriptor.\<close>

definition users :: "kernel \<Rightarrow> nat \<Rightarrow> (nat \<times> nat) set" where
  "users k d = {(p, f). p < length (proc_table k) \<and> f < length (file_desc (proc_table k ! p)) \<and>
     file_desc (proc_table k ! p) ! f = Some d}"

definition refs :: "kernel \<Rightarrow> nat \<Rightarrow> int" where
  "refs k d = int (card (users k d))"

text \<open>What the open descriptors of an inode count together.\<close>

definition open_refs :: "file_desc list \<Rightarrow> nat \<Rightarrow> int" where
  "open_refs tbl i = (\<Sum>f \<leftarrow> tbl. if fd_inode f = Some i then fd_cnt f else 0)"

text \<open>The tables agree with reference counts \<open>R\<close>.\<close>

definition files_inv :: "(nat \<Rightarrow> int) \<Rightarrow> fs \<Rightarrow> bool" where
  "files_inv R s \<longleftrightarrow>
     (\<forall>d. 0 \<le> R d \<and> (0 < R d \<longleftrightarrow> d < length (file_desc_table s) \<and> fd_inode (file_desc_table s ! d) \<noteq> None)) \<and>
     (\<forall>d < length (file_desc_table s). \<forall>i. fd_inode (file_desc_table s ! d) = Some i \<longrightarrow>
        fd_cnt (file_desc_table s ! d) = R d \<and> i < length (inode_table s)) \<and>
     (\<forall>i < length (inode_table s). open_refs (file_desc_table s) i \<le> inode_cnt (inode_table s ! i))"

abbreviation files_ok :: "fs \<Rightarrow> bool" where
  "files_ok s \<equiv> files_inv (refs (fkern s)) s"

lemma finite_users [simp]: "finite (users k d)"
proof -
  have "users k d \<subseteq> (SIGMA p : {..<length (proc_table k)}. {..<length (file_desc (proc_table k ! p))})"
    by (auto simp: users_def)
  then show ?thesis by (rule finite_subset) simp
qed

lemma sum_list_update_int:
  "k < length xs \<Longrightarrow> (\<Sum>x \<leftarrow> xs[k := y]. f x) = (\<Sum>x \<leftarrow> xs. f x) - f (xs ! k) + (f y :: int)"
  by (induction xs arbitrary: k) (auto split: nat.split)

lemma open_refs_update:
  "d < length tbl \<Longrightarrow> open_refs (tbl[d := f]) i = open_refs tbl i
     - (if fd_inode (tbl ! d) = Some i then fd_cnt (tbl ! d) else 0) + (if fd_inode f = Some i then fd_cnt f else 0)"
  by (simp add: open_refs_def sum_list_update_int)

section \<open>One reference more or less\<close>

definition add_ref :: "nat \<Rightarrow> nat \<Rightarrow> fs \<Rightarrow> fs" where
  "add_ref d i s = upd_inode i (\<lambda>p. p\<lparr>inode_cnt := inode_cnt p + 1\<rparr>) (upd_fd d (\<lambda>f. f\<lparr>fd_cnt := fd_cnt f + 1\<rparr>) s)"

definition drop_ref :: "nat \<Rightarrow> nat \<Rightarrow> fs \<Rightarrow> fs" where
  "drop_ref d i s = (let s1 = upd_inode i (\<lambda>p. p\<lparr>inode_cnt := inode_cnt p - 1\<rparr>) s;
     s2 = upd_fd d (\<lambda>f. f\<lparr>fd_cnt := fd_cnt f - 1\<rparr>) s1
     in if fd_cnt (file_desc_table s2 ! d) = 0 then upd_fd d (\<lambda>f. f\<lparr>fd_inode := None\<rparr>) s2 else s2)"

lemma upd_fd_simps [simp]:
  "hds (upd_fd d f s) = hds s" "inode_table (upd_fd d f s) = inode_table s"
  "length (file_desc_table (upd_fd d f s)) = length (file_desc_table s)"
  by (simp_all add: upd_fd_def)

lemma ref_tables [simp]:
  "hds (add_ref d i s) = hds s" "hds (drop_ref d i s) = hds s"
  "length (file_desc_table (add_ref d i s)) = length (file_desc_table s)"
  "length (file_desc_table (drop_ref d i s)) = length (file_desc_table s)"
  "length (inode_table (add_ref d i s)) = length (inode_table s)"
  "length (inode_table (drop_ref d i s)) = length (inode_table s)"
  by (simp_all add: add_ref_def drop_ref_def Let_def)

lemma files_inv_refD:
  assumes "files_inv R s" "0 < R d"
  obtains i where "d < length (file_desc_table s)" "fd_inode (file_desc_table s ! d) = Some i"
    "fd_cnt (file_desc_table s ! d) = R d" "i < length (inode_table s)"
  using assms unfolding files_inv_def by blast

lemma add_ref_inv:
  assumes "files_inv R s" "0 < R d" "fd_inode (file_desc_table s ! d) = Some i"
  shows "files_inv (R(d := R d + 1)) (add_ref d i s)"
proof -
  from files_inv_refD [OF assms(1, 2)] assms(3)
  have d: "d < length (file_desc_table s)" "fd_cnt (file_desc_table s ! d) = R d" "i < length (inode_table s)" by auto
  have t: "file_desc_table (add_ref d i s) = (file_desc_table s)[d := (file_desc_table s ! d)\<lparr>fd_cnt := R d + 1\<rparr>]"
    "inode_table (add_ref d i s) = (inode_table s)[i := (inode_table s ! i)\<lparr>inode_cnt := inode_cnt (inode_table s ! i) + 1\<rparr>]"
    using d by (simp_all add: add_ref_def upd_fd_def upd_inode_def)
  show ?thesis
    using assms d unfolding files_inv_def t
    by (auto simp: nth_list_update open_refs_update)
qed

lemma drop_ref_inv:
  assumes "files_inv R s" "0 < R d" "fd_inode (file_desc_table s ! d) = Some i"
  shows "files_inv (R(d := R d - 1)) (drop_ref d i s)"
proof -
  from files_inv_refD [OF assms(1, 2)] assms(3)
  have d: "d < length (file_desc_table s)" "fd_cnt (file_desc_table s ! d) = R d" "i < length (inode_table s)" by auto
  have t: "file_desc_table (drop_ref d i s) = (file_desc_table s)[d := (file_desc_table s ! d)\<lparr>fd_cnt := R d - 1,
      fd_inode := if R d = 1 then None else Some i\<rparr>]"
    "inode_table (drop_ref d i s) = (inode_table s)[i := (inode_table s ! i)\<lparr>inode_cnt := inode_cnt (inode_table s ! i) - 1\<rparr>]"
    using d assms(3) by (cases "file_desc_table s ! d"; auto simp: drop_ref_def upd_fd_def upd_inode_def Let_def)+
  have inv: "\<forall>e. 0 \<le> R e \<and> (0 < R e \<longleftrightarrow> e < length (file_desc_table s) \<and> fd_inode (file_desc_table s ! e) \<noteq> None)"
    "\<forall>e < length (file_desc_table s). \<forall>j. fd_inode (file_desc_table s ! e) = Some j \<longrightarrow>
        fd_cnt (file_desc_table s ! e) = R e \<and> j < length (inode_table s)"
    "\<forall>j < length (inode_table s). open_refs (file_desc_table s) j \<le> inode_cnt (inode_table s ! j)"
    using assms(1) unfolding files_inv_def by blast+
  have le: "open_refs (file_desc_table s) i - 1 < inode_cnt (inode_table s ! i)" using inv(3) d(3) by force
  have pos: "0 < R d - 1 \<longleftrightarrow> R d \<noteq> 1" "0 \<le> R d - 1" using assms(2) by auto
  show ?thesis
    unfolding files_inv_def t
  proof (intro conjI)
    show "\<forall>e. 0 \<le> (R(d := R d - 1)) e \<and> (0 < (R(d := R d - 1)) e \<longleftrightarrow> e < length ((file_desc_table s)[d := (file_desc_table s ! d)
        \<lparr>fd_cnt := R d - 1, fd_inode := if R d = 1 then None else Some i\<rparr>]) \<and> fd_inode ((file_desc_table s)[d :=
        (file_desc_table s ! d)\<lparr>fd_cnt := R d - 1, fd_inode := if R d = 1 then None else Some i\<rparr>] ! e) \<noteq> None)"
      using inv(1) pos d(1) by (simp add: nth_list_update)
  qed (use inv(2, 3) le d assms(3) in \<open>auto simp: nth_list_update open_refs_update\<close>)
qed

section \<open>Fork and exit\<close>

text \<open>The loops of \<^verbatim>\<open>fs_fork\<close> and \<^verbatim>\<open>fs_exit\<close>, step by step.\<close>

lemma fork_files_step:
  assumes "files_inv R s" "0 < R d"
  shows "\<exists>i. fd_inode (file_desc_table s ! d) = Some i \<and> fork_files (Some d # fds) s = fork_files fds (add_ref d i s)"
proof -
  from files_inv_refD [OF assms] obtain i where "d < length (file_desc_table s)" "fd_inode (file_desc_table s ! d) = Some i"
    "i < length (inode_table s)" by metis
  then show ?thesis by (simp add: deref_def add_ref_def Let_def upd_fd_def)
qed

lemma ref_frame:
  "add_ref d i s = s\<lparr>file_desc_table := file_desc_table (add_ref d i s), inode_table := inode_table (add_ref d i s)\<rparr>"
  "drop_ref d i s = s\<lparr>file_desc_table := file_desc_table (drop_ref d i s), inode_table := inode_table (drop_ref d i s)\<rparr>"
  by (simp_all add: add_ref_def drop_ref_def upd_fd_def upd_inode_def Let_def)

lemma fork_files_inv:
  assumes "files_inv R s" "\<forall>d. Some d \<in> set fds \<longrightarrow> 0 < R d"
  shows "\<exists>ft it. fork_files fds s = Inr (s\<lparr>file_desc_table := ft, inode_table := it\<rparr>) \<and>
    files_inv (\<lambda>d. R d + int (count_list fds (Some d))) (s\<lparr>file_desc_table := ft, inode_table := it\<rparr>)"
  using assms
proof (induction fds arbitrary: R s)
  case Nil
  then show ?case by (intro exI [of _ "file_desc_table s"] exI [of _ "inode_table s"]) simp
next
  case (Cons x fds)
  show ?case
  proof (cases x)
    case None
    with Cons.IH [OF Cons.prems(1)] Cons.prems(2) show ?thesis by simp
  next
    case (Some d)
    then have d: "0 < R d" using Cons.prems(2) by simp
    from fork_files_step [OF Cons.prems(1) d, of fds] obtain i where
      i: "fd_inode (file_desc_table s ! d) = Some i" "fork_files (x # fds) s = fork_files fds (add_ref d i s)"
      using Some by auto
    let ?s1 = "add_ref d i s"
    have "\<exists>ft it. fork_files fds ?s1 = Inr (?s1\<lparr>file_desc_table := ft, inode_table := it\<rparr>) \<and>
        files_inv (\<lambda>e. (R(d := R d + 1)) e + int (count_list fds (Some e))) (?s1\<lparr>file_desc_table := ft, inode_table := it\<rparr>)"
      using Cons.prems(2) d by (intro Cons.IH [OF add_ref_inv [OF Cons.prems(1) d i(1)]]) auto
    moreover have "(\<lambda>e. (R(d := R d + 1)) e + int (count_list fds (Some e))) = (\<lambda>e. R e + int (count_list (x # fds) (Some e)))"
      using Some by (auto simp: fun_eq_iff)
    moreover have "?s1\<lparr>file_desc_table := ft, inode_table := it\<rparr> = s\<lparr>file_desc_table := ft, inode_table := it\<rparr>" for ft it
      by (subst ref_frame(1)) simp
    ultimately show ?thesis using i(2) by simp
  qed
qed

lemma exit_files_step:
  assumes "files_inv R s" "0 < R d"
  shows "\<exists>i. fd_inode (file_desc_table s ! d) = Some i \<and>
    exit_files pid fd (Some d # fds) s = exit_files pid (fd + 1) fds (set_file_desc pid fd None (drop_ref d i s))"
proof -
  from files_inv_refD [OF assms] obtain i where "d < length (file_desc_table s)" "fd_inode (file_desc_table s ! d) = Some i"
    "i < length (inode_table s)" by metis
  then show ?thesis by (simp add: deref_def drop_ref_def Let_def)
qed

lemma set_file_desc_simps [simp]:
  "file_desc_table (set_file_desc pid fd d s) = file_desc_table s" "inode_table (set_file_desc pid fd d s) = inode_table s"
  "length (proc_table (fkern (set_file_desc pid fd d s))) = length (proc_table (fkern s))"
  by (simp_all add: set_file_desc_def upd_kern_def)

lemma files_inv_set_file_desc [simp]: "files_inv R (set_file_desc pid fd d s) = files_inv R s"
  by (simp add: files_inv_def)

text \<open>Clearing an entry removes one user of its descriptor.\<close>

lemma file_desc_set:
  assumes "0 \<le> pid" "pid < int (length (proc_table (fkern s)))"
  shows "proc_table (fkern (set_file_desc pid fd d s)) = (proc_table (fkern s))[nat pid :=
    (proc_table (fkern s) ! nat pid)\<lparr>file_desc := (file_desc (proc_table (fkern s) ! nat pid))[fd := d]\<rparr>]"
  using assms by (simp add: set_file_desc_def upd_kern_def upd_proc_def put_proc_def proc_at_def)

lemma users_set:
  assumes "0 \<le> pid" "pid < int (length (proc_table (fkern s)))" "fd < length (file_desc (proc_table (fkern s) ! nat pid))"
  shows "users (fkern (set_file_desc pid fd x s)) e =
    (if x = Some e then insert (nat pid, fd) (users (fkern s) e) else users (fkern s) e - {(nat pid, fd)})"
  using assms by (auto simp: users_def file_desc_set nth_list_update split: if_splits)

lemma refs_clear:
  assumes "0 \<le> pid" "pid < int (length (proc_table (fkern s)))" "fd < length (file_desc (proc_table (fkern s) ! nat pid))"
    "file_desc (proc_table (fkern s) ! nat pid) ! fd = Some d"
  shows "refs (fkern (set_file_desc pid fd None s)) = (refs (fkern s))(d := refs (fkern s) d - 1)" "0 < refs (fkern s) d"
proof -
  have mem: "(nat pid, fd) \<in> users (fkern s) d" using assms by (simp add: users_def)
  then have "0 < card (users (fkern s) d)" by (auto simp: card_gt_0_iff)
  then show "0 < refs (fkern s) d" by (simp add: refs_def)
  have "refs (fkern (set_file_desc pid fd None s)) e = ((refs (fkern s))(d := refs (fkern s) d - 1)) e" for e
  proof (cases "e = d")
    case True
    with mem \<open>0 < card _\<close> show ?thesis by (simp add: refs_def users_set [OF assms(1-3)] of_nat_diff)
  next
    case False
    then have "(nat pid, fd) \<notin> users (fkern s) e" using assms(4) by (simp add: users_def)
    with False show ?thesis by (simp add: refs_def users_set [OF assms(1-3)])
  qed
  then show "refs (fkern (set_file_desc pid fd None s)) = (refs (fkern s))(d := refs (fkern s) d - 1)" by blast
qed

lemma set_file_desc_kern: "fkern (set_file_desc pid fd d s) = upd_proc pid (\<lambda>P. P\<lparr>file_desc := (file_desc P)[fd := d]\<rparr>) (fkern s)"
  by (simp add: set_file_desc_def upd_kern_def)

lemma upd_proc_proc_at [simp]: "proc_at (upd_proc pid f k) j = (if pid = j then f (proc_at k j) else proc_at k j)"
  by (simp add: upd_proc_def)

lemma put_proc_twice: "put_proc (put_proc k pid p) pid q = put_proc k pid q"
  by (simp add: put_proc_def)

lemma upd_proc_twice: "upd_proc pid f (upd_proc pid g k) = upd_proc pid (\<lambda>P. f (g P)) k"
  by (simp add: upd_proc_def put_proc_twice)

lemma upd_proc_same: "0 \<le> pid \<Longrightarrow> pid < int (length (proc_table k)) \<Longrightarrow> f (proc_at k pid) = proc_at k pid \<Longrightarrow> upd_proc pid f k = k"
  by (simp add: upd_proc_def put_proc_def proc_at_def)

lemma upd_proc_cong: "f (proc_at k pid) = g (proc_at k pid) \<Longrightarrow> upd_proc pid f k = upd_proc pid g k"
  by (simp add: upd_proc_def)

lemma upd_kern_twice: "upd_kern f (upd_kern g s) = upd_kern (\<lambda>k. f (g k)) s"
  by (simp add: upd_kern_def)

lemma upd_kern_simps [simp]:
  "fkern (upd_kern f s) = f (fkern s)" "file_desc_table (upd_kern f s) = file_desc_table s" "inode_table (upd_kern f s) = inode_table s"
  "fs_msg (upd_kern f s) = fs_msg s" "files_inv R (upd_kern f s) = files_inv R s"
  by (simp_all add: upd_kern_def files_inv_def)

lemma upd_kern_same: "f (fkern s) = fkern s \<Longrightarrow> upd_kern f s = s"
  by (simp add: upd_kern_def)

lemma exit_files_inv:
  assumes "files_ok s" "0 \<le> pid" "pid < int (length (proc_table (fkern s)))"
    and "file_desc (proc_at (fkern s) pid) = replicate n None @ fds"
  shows "\<exists>s' ft it. exit_files pid n fds s = Inr s' \<and> files_ok s' \<and>
    s' = upd_kern (upd_proc pid (\<lambda>P. P\<lparr>file_desc := replicate (n + length fds) None\<rparr>)) (s\<lparr>file_desc_table := ft, inode_table := it\<rparr>)"
  using assms
proof (induction fds arbitrary: n s)
  case Nil
  then have "upd_kern (upd_proc pid (\<lambda>P. P\<lparr>file_desc := replicate n None\<rparr>)) s = s"
    by (intro upd_kern_same upd_proc_same) auto
  with Nil.prems(1) show ?case
    by (intro exI [of _ s] exI [of _ "file_desc_table s"] exI [of _ "inode_table s"]) simp
next
  case (Cons x fds)
  show ?case
  proof (cases x)
    case None
    then have "file_desc (proc_at (fkern s) pid) = replicate (n + 1) None @ fds"
      using Cons.prems(4) by (simp add: replicate_append_same [symmetric])
    from Cons.IH [OF Cons.prems(1-3) this] None show ?thesis by simp
  next
    case (Some d)
    let ?k = "fkern s"
    have P: "proc_table ?k ! nat pid = proc_at ?k pid" using Cons.prems(2, 3) by (simp add: proc_at_def)
    have fd: "n < length (file_desc (proc_table ?k ! nat pid))" "file_desc (proc_table ?k ! nat pid) ! n = Some d"
      using Cons.prems(4) Some P by (simp_all add: nth_append)
    note rc = refs_clear [OF Cons.prems(2, 3) fd]
    from exit_files_step [OF Cons.prems(1) rc(2)] obtain i where i: "fd_inode (file_desc_table s ! d) = Some i"
      "exit_files pid n (x # fds) s = exit_files pid (n + 1) fds (set_file_desc pid n None (drop_ref d i s))" using Some by blast
    let ?s2 = "set_file_desc pid n None (drop_ref d i s)"
    have rc': "refs (fkern ?s2) = (refs ?k)(d := refs ?k d - 1)"
      using refs_clear(1) [of pid "drop_ref d i s" n d] Cons.prems(2, 3) fd by simp
    have ok: "files_ok ?s2" using drop_ref_inv [OF Cons.prems(1) rc(2) i(1)] rc' by simp
    have fds: "file_desc (proc_at (fkern ?s2) pid) = replicate (n + 1) None @ fds"
      using Cons.prems(4) Some by (simp add: set_file_desc_kern list_update_append replicate_append_same [symmetric])
    have "\<exists>s' ft it. exit_files pid (n + 1) fds ?s2 = Inr s' \<and> files_ok s' \<and>
        s' = upd_kern (upd_proc pid (\<lambda>P. P\<lparr>file_desc := replicate (n + 1 + length fds) None\<rparr>)) (?s2\<lparr>file_desc_table := ft, inode_table := it\<rparr>)"
      using Cons.prems(2, 3) by (intro Cons.IH [OF ok _ _ fds]) simp_all
    moreover have "upd_kern (upd_proc pid (\<lambda>P. P\<lparr>file_desc := fs\<rparr>)) (?s2\<lparr>file_desc_table := ft, inode_table := it\<rparr>) =
        upd_kern (upd_proc pid (\<lambda>P. P\<lparr>file_desc := fs\<rparr>)) (s\<lparr>file_desc_table := ft, inode_table := it\<rparr>)" for fs ft it
      by (subst ref_frame(2)) (simp add: set_file_desc_def upd_kern_def upd_proc_twice)
    ultimately show ?thesis using i(2) by auto
  qed
qed

text \<open>The entries of a process as a list.\<close>

lemma count_list_card: "count_list xs x = card {i. i < length xs \<and> xs ! i = x}"
  by (simp add: count_list_eq_length_filter length_filter_conv_card eq_commute)

lemma refs_put_proc:
  assumes "0 \<le> c" "c < int (length (proc_table k))" "set (file_desc (proc_at k c)) \<subseteq> {None}"
  shows "refs (put_proc k c P) d = refs k d + int (count_list (file_desc P) (Some d))"
proof -
  let ?new = "Pair (nat c) ` {f. f < length (file_desc P) \<and> file_desc P ! f = Some d}"
  have "\<not> (f < length (file_desc (proc_table k ! nat c)) \<and> file_desc (proc_table k ! nat c) ! f = Some d)" for f
    using assms by (auto simp: proc_at_def dest: nth_mem)
  then have "users (put_proc k c P) d = users k d \<union> ?new" "users k d \<inter> ?new = {}"
    using assms by (auto simp: users_def put_proc_def nth_list_update split: if_splits)
  moreover have "card ?new = count_list (file_desc P) (Some d)"
    by (subst card_image) (auto simp: inj_on_def count_list_card)
  ultimately show ?thesis by (simp add: refs_def card_Un_disjoint)
qed

text \<open>The turns of the file system on a fork and an exit.\<close>

lemma files_inv_msg [simp]: "files_inv R (s\<lparr>fs_msg := m, caller_proc := p\<rparr>) = files_inv R s"
  "files_inv R (s\<lparr>fs_msg := m\<rparr>) = files_inv R s"
  by (simp_all add: files_inv_def)

lemma fs_exit_turn:
  assumes "files_ok s" "0 \<le> pid" "pid < int (length (proc_table (fkern s)))"
  shows "\<exists>r s'. task_fs_round (zero_msg\<lparr>type := EXIT, PID := pid, source := src\<rparr>) s = Inr (Some (src, r), s') \<and> files_ok s' \<and>
    fkern s' = upd_proc pid (\<lambda>P. P\<lparr>file_desc := map (\<lambda>_. None) (file_desc P)\<rparr>) (fkern s)"
proof -
  let ?m = "zero_msg\<lparr>type := EXIT, PID := pid, source := src\<rparr>"
  let ?s0 = "s\<lparr>fs_msg := ?m, caller_proc := src\<rparr>"
  let ?fds = "file_desc (proc_at (fkern s) pid)"
  obtain s' ft it where s': "exit_files pid 0 ?fds ?s0 = Inr s'" "files_ok s'"
    "s' = upd_kern (upd_proc pid (\<lambda>P. P\<lparr>file_desc := replicate (0 + length ?fds) None\<rparr>)) (?s0\<lparr>file_desc_table := ft, inode_table := it\<rparr>)"
    using exit_files_inv [of ?s0 pid 0 ?fds] assms by auto
  have "map (\<lambda>_. None) ?fds = (replicate (length ?fds) None :: nat option list)" by (simp add: map_replicate_const)
  then have "fkern s' = upd_proc pid (\<lambda>P. P\<lparr>file_desc := map (\<lambda>_. None) (file_desc P)\<rparr>) (fkern s)"
    unfolding s'(3) by (simp add: upd_proc_def)
  moreover have "fs_exit ?s0 = Inr (0, s')" using s'(1) by (simp add: fs_exit_def)
  moreover have "type (fs_msg s') = EXIT" by (simp add: s'(3))
  ultimately show ?thesis using s'(2) by (simp add: task_fs_round_def fs_dispatch_def set_reply_def Let_def)
qed

text \<open>The child's entry is in the table already, but not yet counted.\<close>

lemma fs_fork_turn:
  assumes "files_inv R s" "fds = file_desc (proc_at (fkern s) child)" "\<forall>d. Some d \<in> set fds \<longrightarrow> 0 < R d"
    and "refs (fkern s) = (\<lambda>d. R d + int (count_list fds (Some d)))"
  shows "\<exists>r s'. task_fs_round (zero_msg\<lparr>type := FORK, PID := child, source := src\<rparr>) s = Inr (Some (src, r), s') \<and> files_ok s' \<and>
    fkern s' = fkern s"
proof -
  let ?m = "zero_msg\<lparr>type := FORK, PID := child, source := src\<rparr>"
  let ?s0 = "s\<lparr>fs_msg := ?m, caller_proc := src\<rparr>"
  obtain ft it where s': "fork_files fds ?s0 = Inr (?s0\<lparr>file_desc_table := ft, inode_table := it\<rparr>)"
    "files_inv (\<lambda>d. R d + int (count_list fds (Some d))) (?s0\<lparr>file_desc_table := ft, inode_table := it\<rparr>)"
    using fork_files_inv [of R ?s0 fds] assms(1, 3) by auto
  then have "fs_fork ?s0 = Inr (0, ?s0\<lparr>file_desc_table := ft, inode_table := it\<rparr>)" using assms(2) by (simp add: fs_fork_def)
  then show ?thesis using s'(2) assms(4) by (simp add: task_fs_round_def fs_dispatch_def set_reply_def Let_def files_inv_def)
qed

end
