(* ===== verification/Lib.thy ===== *)
theory Lib
  imports FsOps
begin

text \<open>
  The library functions a process calls to reach the file system, \<^verbatim>\<open>src/lib/fs\<close>: each fills a message, sends it to
  the file system task and returns a field of the reply. \<open>fs_call\<close> is the exchange of messages: the task's turn
  on the request. A terminal that has no line ready leaves the caller suspended: there is no reply yet, and
  the result is \<open>None\<close>.

  A field a function leaves unset holds what was on the stack; no request of the file system task looks at one, and
  the model has 0 there.
\<close>

unbundle bit_operations_syntax

definition fs_call :: "int \<Rightarrow> message \<Rightarrow> fs \<Rightarrow> (message option \<times> fs) outcome" where
  "fs_call pid msg s =
     obind (task_fs_round (msg\<lparr>source := pid\<rparr>) s) (\<lambda>(r, s').
       case r of
         None \<Rightarrow> Inr (None, s')
       | Some (dest, reply) \<Rightarrow> if dest = pid then Inr (Some reply, s') else Inl Diverges)"

text \<open>The length of a string at an address of the process.\<close>

definition user_strlen :: "int \<Rightarrow> u32 \<Rightarrow> fs \<Rightarrow> int outcome" where
  "user_strlen pid va s =
     obind (of_loop (strlen (fmem s) (ldt_idx_to_base_addr (proc_at (fkern s) pid) 1 + va))) (\<lambda>n. Inr (sint n))"

definition call_result :: "(message \<Rightarrow> bool) \<Rightarrow> (message \<Rightarrow> int) \<Rightarrow> message option \<times> fs \<Rightarrow> (int option \<times> fs) outcome" where
  "call_result chk f = (\<lambda>(r, s). case r of None \<Rightarrow> Inr (None, s) | Some m \<Rightarrow> c_assert (chk m) (Inr (Some (f m), s)))"

abbreviation is_ret :: "message \<Rightarrow> bool" where
  "is_ret m \<equiv> type m = SYSCALL_RET"

definition open_call :: "int \<Rightarrow> u32 \<Rightarrow> int \<Rightarrow> fs \<Rightarrow> (int option \<times> fs) outcome" where
  "open_call pid pathname flags s =
     obind (user_strlen pid pathname s) (\<lambda>n.
     obind (fs_call pid (zero_msg\<lparr>type := FS_OPEN, PATHNAME := pathname, NAME_LEN := n, FLAGS := flags\<rparr>) s) (call_result is_ret FD))"

definition close_call :: "int \<Rightarrow> int \<Rightarrow> fs \<Rightarrow> (int option \<times> fs) outcome" where
  "close_call pid fd s = obind (fs_call pid (zero_msg\<lparr>type := FS_CLOSE, FD := fd\<rparr>) s) (call_result (\<lambda>_. True) RETVAL)"

definition read_call :: "int \<Rightarrow> int \<Rightarrow> u32 \<Rightarrow> int \<Rightarrow> fs \<Rightarrow> (int option \<times> fs) outcome" where
  "read_call pid fd buf cnt s =
     obind (fs_call pid (zero_msg\<lparr>type := FS_READ, FD := fd, BUF := buf, CNT := cnt\<rparr>) s) (call_result (\<lambda>_. True) CNT)"

definition write_call :: "int \<Rightarrow> int \<Rightarrow> u32 \<Rightarrow> int \<Rightarrow> fs \<Rightarrow> (int option \<times> fs) outcome" where
  "write_call pid fd buf cnt s =
     obind (fs_call pid (zero_msg\<lparr>type := FS_WRITE, FD := fd, BUF := buf, CNT := cnt\<rparr>) s) (call_result (\<lambda>_. True) CNT)"

definition lseek_call :: "int \<Rightarrow> int \<Rightarrow> int \<Rightarrow> int \<Rightarrow> fs \<Rightarrow> (int option \<times> fs) outcome" where
  "lseek_call pid fd off whence s =
     obind (fs_call pid (zero_msg\<lparr>type := FS_LSEEK, FD := fd, OFFSET := off, WHENCE := whence\<rparr>) s) (call_result (\<lambda>_. True) OFFSET)"

definition stat_call :: "int \<Rightarrow> u32 \<Rightarrow> u32 \<Rightarrow> fs \<Rightarrow> (int option \<times> fs) outcome" where
  "stat_call pid path buf s =
     obind (user_strlen pid path s) (\<lambda>n.
     obind (fs_call pid (zero_msg\<lparr>type := FS_STAT, PATHNAME := path, BUF := buf, NAME_LEN := n\<rparr>) s) (call_result is_ret RETVAL))"

definition unlink_call :: "int \<Rightarrow> u32 \<Rightarrow> fs \<Rightarrow> (int option \<times> fs) outcome" where
  "unlink_call pid pathname s =
     obind (user_strlen pid pathname s) (\<lambda>n.
     obind (fs_call pid (zero_msg\<lparr>type := FS_UNLINK, PATHNAME := pathname, NAME_LEN := n\<rparr>) s) (call_result (\<lambda>_. True) RETVAL))"

end
