(* ===== verification/Pm.thy ===== *)
theory Pm
  imports Lib
begin

text \<open>
  The process manager, \<^verbatim>\<open>src/task/task_pm.c\<close> and \<^verbatim>\<open>src/task/pm\<close>: fork, exit, wait and exec.

  The state holds the file system with the kernel inside, the message being served, the size of memory and
  the messages sent so far, each with its destination: delivering them is the kernel's work. The requests
  to the file system task are its own turns. Waiting for a terminal is not modelled here: it counts as \<open>Diverges\<close>.
  The addresses of the local buffers of \<^verbatim>\<open>do_exec\<close> on the task's stack are part of the state. A process name
  or argument area that does not fit its array is \<open>OutOfBounds\<close>.
\<close>

unbundle bit_operations_syntax

abbreviation (input) PROC_BASE where "PROC_BASE \<equiv> 0xA00000 :: int"
abbreviation (input) PROC_SIZE where "PROC_SIZE \<equiv> 0x100000 :: int"
abbreviation (input) PROC_STACK_RESERVERD where "PROC_STACK_RESERVERD \<equiv> 0x400 :: int"
abbreviation (input) PT_LOAD where "PT_LOAD \<equiv> 1 :: u32"
abbreviation pm_buf where "pm_buf \<equiv> 0x700000 :: u32"
abbreviation (input) PM_BUF_SIZE where "PM_BUF_SIZE \<equiv> 0x100000 :: int"

record pm =
  pfs :: fs
  pm_msg :: message
  memory_size :: int
  pm_sent :: "(int \<times> message) list"
  pathname_addr :: u32
  stat_addr :: u32
  stackcopy_addr :: u32

abbreviation pkern :: "pm \<Rightarrow> kernel" where
  "pkern s \<equiv> fkern (pfs s)"

abbreviation pmem :: "pm \<Rightarrow> mem" where
  "pmem s \<equiv> kmem (pkern s)"

definition upd_pkern :: "(kernel \<Rightarrow> kernel) \<Rightarrow> pm \<Rightarrow> pm" where
  "upd_pkern f s = s\<lparr>pfs := upd_kern f (pfs s)\<rparr>"

definition upd_pproc :: "int \<Rightarrow> (proc \<Rightarrow> proc) \<Rightarrow> pm \<Rightarrow> pm" where
  "upd_pproc pid f = upd_pkern (upd_proc pid f)"

definition upd_pmem :: "(mem \<Rightarrow> mem) \<Rightarrow> pm \<Rightarrow> pm" where
  "upd_pmem f = upd_pkern (\<lambda>k. k\<lparr>kmem := f (kmem k)\<rparr>)"

definition pm_send :: "int \<Rightarrow> message \<Rightarrow> pm \<Rightarrow> pm" where
  "pm_send dest m s = s\<lparr>pm_sent := pm_sent s @ [(dest, m\<lparr>source := TASK_PM\<rparr>)]\<rparr>"

text \<open>A call of a library function by the process manager.\<close>

definition pm_call :: "(fs \<Rightarrow> ('a option \<times> fs) outcome) \<Rightarrow> pm \<Rightarrow> ('a \<times> pm) outcome" where
  "pm_call f s = obind (f (pfs s)) (\<lambda>(r, fs'). case r of None \<Rightarrow> Inl Diverges | Some v \<Rightarrow> Inr (v, s\<lparr>pfs := fs'\<rparr>))"

section \<open>Memory and process slots\<close>

definition alloc_mem :: "int \<Rightarrow> int \<Rightarrow> int \<Rightarrow> int outcome" where
  "alloc_mem memory pid memsize =
     c_assert (pid \<ge> NR_TASKS_NATIVE + NR_PROCS_NATIVE)
       (if memsize > PROC_SIZE then Inl PanicFail
        else let base = PROC_BASE + (pid - (NR_TASKS_NATIVE + NR_PROCS_NATIVE)) * PROC_SIZE
          in if base + memsize \<ge> memory then Inl PanicFail else Inr base)"

definition proc_cleanup :: "int \<Rightarrow> pm \<Rightarrow> pm" where
  "proc_cleanup pid s =
     (let P = proc_at (pkern s) pid
      in upd_pproc pid (\<lambda>P. P\<lparr>proc_state := FREE_SLOT\<rparr>)
           (pm_send (p_parent P) (zero_msg\<lparr>type := SYSCALL_RET, PID := pid, STATUS := exit_status P\<rparr>) s))"

section \<open>Fork\<close>

fun find_free_slot :: "proc list \<Rightarrow> nat \<Rightarrow> nat option" where
  "find_free_slot [] i = None"
| "find_free_slot (P # Ps) i = (if proc_state P = FREE_SLOT then Some i else find_free_slot Ps (i + 1))"

text \<open>The limit and the size of a segment as its descriptor has them.\<close>

definition seg_limit :: "gdt_desc \<Rightarrow> int" where
  "seg_limit d = sint (reassembly 0 0 (ucast (limit_high_attr2 d AND 0xF)) 16 (ucast (limit_low d)))"

definition seg_limit_high :: "gdt_desc \<Rightarrow> int" where
  "seg_limit_high d = sint (reassembly (ucast (limit_high_attr2 d AND 0xF)) 16 0 0 (ucast (limit_low d)))"

definition seg_size :: "int \<Rightarrow> gdt_desc \<Rightarrow> int" where
  "seg_size limit d = s32 ((limit + 1) * (if limit_high_attr2 d AND 0x80 \<noteq> 0 then 4096 else 1))"

definition child_proc :: "int \<Rightarrow> int \<Rightarrow> kernel \<Rightarrow> proc" where
  "child_proc parent child k =
     (let P = proc_at k parent
      in P\<lparr>ldt_sel := ldt_sel (proc_at k child), p_parent := parent, name := name P @ 95 # i2a child 10\<rparr>)"

definition child_ldts :: "u32 \<Rightarrow> gdt_desc list \<Rightarrow> gdt_desc list" where
  "child_ldts base ds =
     ds[0 := make_gdt_desc base (word_of_int ((PROC_SIZE - 1) div 4096)) (DA_LIMIT_4K OR DA_32 OR DA_C OR push_bit 5 PRIVILEGE_USER),
        1 := make_gdt_desc base (word_of_int ((PROC_SIZE - 1) div 4096)) (DA_LIMIT_4K OR DA_32 OR DA_DRW OR push_bit 5 PRIVILEGE_USER)]"

definition do_fork :: "pm \<Rightarrow> (int \<times> pm) outcome" where
  "do_fork s =
     (let parent = source (pm_msg s)
      in case find_free_slot (proc_table (pkern s)) 0 of
           None \<Rightarrow> Inr (-1, s)
         | Some c \<Rightarrow>
           let child = int c; C = child_proc parent child (pkern s);
               dT = ldts C ! 0; dD = ldts C ! 1;
               T_base = gdt_ldt_to_base_addr dT; T_limit = seg_limit dT; T_size = seg_size T_limit dT
           in if length (name C) \<ge> 16 then Inl OutOfBounds
              else c_assert (T_base = gdt_ldt_to_base_addr dD \<and> T_limit = seg_limit_high dD \<and> T_size = seg_size T_limit dD)
               (obind (alloc_mem (memory_size s) child T_size) (\<lambda>base.
                let s1 = upd_pmem (\<lambda>mm. phys_copy mm (word_of_int base) T_base (word_of_int T_size))
                          (upd_pproc child (\<lambda>_. C\<lparr>ldts := child_ldts (word_of_int base) (ldts C)\<rparr>) s)
                in obind (pm_call (fs_call TASK_PM (zero_msg\<lparr>type := FORK, PID := child\<rparr>)) s1) (\<lambda>(_, s2).
                   Inr (0, pm_send child (zero_msg\<lparr>type := SYSCALL_RET, RETVAL := 0, PID := 0\<rparr>)
                     (s2\<lparr>pm_msg := (pm_msg s2)\<lparr>PID := child\<rparr>\<rparr>))))))"

section \<open>Exit and wait\<close>

fun reparent :: "int list \<Rightarrow> int \<Rightarrow> pm \<Rightarrow> pm" where
  "reparent [] pid s = s"
| "reparent (i # is) pid s =
     (if p_parent (proc_at (pkern s) i) = pid then
        (let s1 = upd_pproc i (\<lambda>P. P\<lparr>p_parent := INIT\<rparr>) s
         in if proc_state (proc_at (pkern s1) INIT) AND WAITING \<noteq> 0 \<and> proc_state (proc_at (pkern s1) i) AND HANGING \<noteq> 0
            then reparent is pid (proc_cleanup i (upd_pproc INIT (\<lambda>P. P\<lparr>proc_state := proc_state P AND NOT WAITING\<rparr>) s1))
            else reparent is pid s1)
      else reparent is pid s)"

definition all_slots :: "int list" where
  "all_slots = map int [0..<nat (NR_TASKS_NATIVE + NR_PROCS_MAX)]"

definition do_exit :: "int \<Rightarrow> pm \<Rightarrow> pm outcome" where
  "do_exit status s =
     (let pid = source (pm_msg s); parent = p_parent (proc_at (pkern s) pid)
      in obind (pm_call (fs_call TASK_PM (zero_msg\<lparr>type := EXIT, PID := pid\<rparr>)) s) (\<lambda>(_, s1).
         let s2 = upd_pproc pid (\<lambda>P. P\<lparr>exit_status := status\<rparr>) s1;
             s3 = (if proc_state (proc_at (pkern s2) parent) AND WAITING \<noteq> 0
                   then proc_cleanup pid (upd_pproc parent (\<lambda>P. P\<lparr>proc_state := proc_state P AND NOT WAITING\<rparr>) s2)
                   else upd_pproc pid (\<lambda>P. P\<lparr>proc_state := proc_state P OR HANGING\<rparr>) s2)
         in Inr (reparent all_slots pid s3)))"

text \<open>The scan of \<^verbatim>\<open>do_wait\<close>: whether there are children, and the first one that hangs.\<close>

fun wait_scan :: "int list \<Rightarrow> int \<Rightarrow> kernel \<Rightarrow> bool \<Rightarrow> bool \<times> int option" where
  "wait_scan [] pid k has_children = (has_children, None)"
| "wait_scan (i # is) pid k has_children =
     (if p_parent (proc_at k i) = pid then
        (if proc_state (proc_at k i) AND HANGING \<noteq> 0 then (True, Some i) else wait_scan is pid k True)
      else wait_scan is pid k has_children)"

definition do_wait :: "pm \<Rightarrow> pm" where
  "do_wait s =
     (let pid = source (pm_msg s)
      in case wait_scan all_slots pid (pkern s) False of
           (_, Some i) \<Rightarrow> proc_cleanup i s
         | (True, None) \<Rightarrow> upd_pproc pid (\<lambda>P. P\<lparr>proc_state := proc_state P OR WAITING\<rparr>) s
         | (False, None) \<Rightarrow> pm_send pid (zero_msg\<lparr>source := SYSCALL_RET, PID := NO_TASK\<rparr>) s)"

section \<open>Exec\<close>

text \<open>Copy the loadable segments of the program in \<^verbatim>\<open>pm_buf\<close> into the process, from header \<open>i\<close> on.\<close>

lemma less_unat_u16: "i < unat (w :: u16) \<Longrightarrow> 65535 - i < 65536 - i"
  using unsigned_less [of w, where ?'a = nat] by simp

function load_segments :: "int \<Rightarrow> nat \<Rightarrow> pm \<Rightarrow> pm outcome" where
  "load_segments pid i s =
     (let mm = pmem s; e_phnum = unat (rd16 mm (pm_buf + 44));
          ph = pm_buf + rd32 mm (pm_buf + 28) + of_nat i * ucast (rd16 mm (pm_buf + 42))
      in if i < e_phnum then
           (if rd32 mm ph = PT_LOAD then
              if rd32 mm (ph + 8) + rd32 mm (ph + 20) < word_of_int PROC_SIZE then
                (case proc_va2la (pkern s) pid (rd32 mm (ph + 8)) of Inl e \<Rightarrow> Inl e
                 | Inr dst \<Rightarrow> (case proc_va2la (pkern s) TASK_PM (pm_buf + rd32 mm (ph + 4)) of Inl e \<Rightarrow> Inl e
                    | Inr src \<Rightarrow> load_segments pid (i + 1) (upd_pmem (\<lambda>mm. phys_copy mm dst src (rd32 mm (ph + 16))) s)))
              else Inl AssertFail
            else load_segments pid (i + 1) s)
         else Inr s)"
  by pat_completeness auto
termination
  by (relation "measure (\<lambda>(pid, i, s). 65536 - i)") (auto dest: less_unat_u16)

declare load_segments.simps [simp del]

text \<open>Move the argument pointers of the copied stack; the count of them.\<close>

fun rebase_args :: "nat \<Rightarrow> u32 \<Rightarrow> u32 \<Rightarrow> nat \<Rightarrow> mem \<Rightarrow> (nat \<times> mem) outcome" where
  "rebase_args 0 q delta argc mm = Inl OutOfBounds"
| "rebase_args (Suc n) q delta argc mm =
     (if rd32 mm q \<noteq> 0 then rebase_args n (q + 4) delta (argc + 1) (wr32 mm q (rd32 mm q + delta)) else Inr (argc, mm))"

definition setup_args :: "int \<Rightarrow> u32 \<Rightarrow> int \<Rightarrow> pm \<Rightarrow> (nat \<times> pm) outcome" where
  "setup_args pid buf len s =
     (let sp = word_of_int (PROC_SIZE - PROC_STACK_RESERVERD) :: u32
      in if len < 0 \<or> len > PROC_STACK_RESERVERD then Inl OutOfBounds
         else obind (proc_va2la (pkern s) TASK_PM (stackcopy_addr s)) (\<lambda>copy.
              obind (proc_va2la (pkern s) pid buf) (\<lambda>src.
              let mm = phys_copy (pmem s) copy src (word_of_int len)
              in obind (if len \<noteq> 0 then rebase_args 256 (stackcopy_addr s) (sp - buf) 0 mm else Inr (0, mm)) (\<lambda>(argc, mm').
                 obind (proc_va2la (pkern s) pid sp) (\<lambda>dst.
                 Inr (argc, upd_pmem (\<lambda>_. phys_copy mm' dst copy (word_of_int len)) s))))))"

definition start_program :: "int \<Rightarrow> nat \<Rightarrow> pm \<Rightarrow> pm" where
  "start_program pid argc s =
     (let sp = word_of_int (PROC_SIZE - PROC_STACK_RESERVERD) :: u32; entry = rd32 (pmem s) (pm_buf + 24)
      in upd_pproc pid (\<lambda>P. P\<lparr>regs := (regs P)\<lparr>ecx_reg := of_nat argc, eax_reg := sp, eip_reg := entry, esp_reg := sp\<rparr>\<rparr>) s)"

definition do_exec :: "pm \<Rightarrow> (int \<times> pm) outcome" where
  "do_exec s =
     (let m = pm_msg s; name_len = NAME_LEN m; pid = source m
      in c_assert (name_len < MAX_PATH)
        (if name_len < 0 then Inl OutOfBounds
         else obind (proc_va2la (pkern s) TASK_PM (pathname_addr s)) (\<lambda>dst.
           obind (proc_va2la (pkern s) pid (PATHNAME m)) (\<lambda>src.
           let s1 = upd_pmem (\<lambda>mm. (phys_copy mm dst src (word_of_int name_len))(pathname_addr s + word_of_int name_len := 0)) s
           in obind (pm_call (stat_call TASK_PM (pathname_addr s) (stat_addr s)) s1) (\<lambda>(ret, s2).
              if ret \<noteq> 0 then Inr (-1, s2)
              else obind (pm_call (open_call TASK_PM (pathname_addr s) O_RDWR) s2) (\<lambda>(fd, s3).
                if fd = -1 then Inr (-1, s3)
                else let sz = sint (rd32 (pmem s3) (stat_addr s + 16))
                  in c_assert (sz < PM_BUF_SIZE)
                    (obind (pm_call (read_call TASK_PM fd pm_buf sz) s3) (\<lambda>(_, s4).
                     obind (pm_call (close_call TASK_PM fd) s4) (\<lambda>(_, s5).
                     obind (load_segments pid 0 s5) (\<lambda>s6.
                     obind (setup_args pid (BUF m) (BUF_LEN m) s6) (\<lambda>(argc, s7).
                     let nm = takeWhile (\<lambda>b. b \<noteq> 0) (read_bytes (pmem s7) (pathname_addr s) 128)
                     in if length nm \<ge> 16 then Inl OutOfBounds
                        else Inr (0, upd_pproc pid (\<lambda>P. P\<lparr>name := nm\<rparr>) (start_program pid argc s7)))))))))))))"

section \<open>The message loop\<close>

definition init_pm :: "pm \<Rightarrow> pm outcome" where
  "init_pm s = obind (get_boot_params (pmem s)) (\<lambda>bp. Inr (s\<lparr>memory_size := sint (total_ram_size bp)\<rparr>))"

definition pm_reply :: "int \<Rightarrow> (int \<times> pm) outcome \<Rightarrow> pm outcome" where
  "pm_reply src r =
     obind r (\<lambda>(v, s). let m = (pm_msg s)\<lparr>RETVAL := v, type := SYSCALL_RET\<rparr> in Inr (pm_send src m (s\<lparr>pm_msg := m\<rparr>)))"

definition task_pm_round :: "message \<Rightarrow> pm \<Rightarrow> pm outcome" where
  "task_pm_round msg s0 =
     (let s = s0\<lparr>pm_msg := msg\<rparr>; src = source msg; ty = type msg
      in if ty = FORK then pm_reply src (do_fork s)
         else if ty = EXIT then do_exit (STATUS msg) s
         else if ty = EXEC then pm_reply src (do_exec s)
         else if ty = WAIT then Inr (do_wait s)
         else Inl AssertFail)"

end
