(* ===== verification/FsFrame.thy ===== *)
theory FsFrame
  imports FsFiles Pm
begin

text \<open>
  What the operations of the file system leave alone of the reference counts: a request that succeeds changes the
  counts of descriptors and inodes and the files of processes only where its definition says so.
\<close>

unbundle bit_operations_syntax

section \<open>The part of the state that the reference counts are about\<close>

definition fview :: "fs \<Rightarrow> (nat option \<times> int) list \<times> int list \<times> proc list \<times> int" where
  "fview s = (map (\<lambda>f. (fd_inode f, fd_cnt f)) (file_desc_table s), map inode_cnt (inode_table s),
     proc_table (fkern s), caller_proc s)"

lemma users_view: "proc_table k = proc_table k' \<Longrightarrow> users k = users k'"
  by (simp add: fun_eq_iff users_def)

lemma open_refs_view:
  "map (\<lambda>f. (fd_inode f, fd_cnt f)) tbl = map (\<lambda>f. (fd_inode f, fd_cnt f)) tbl' \<Longrightarrow> open_refs tbl = open_refs tbl'"
proof (rule ext)
  fix i assume eq: "map (\<lambda>f. (fd_inode f, fd_cnt f)) tbl = map (\<lambda>f. (fd_inode f, fd_cnt f)) tbl'"
  have "open_refs t i = (\<Sum>(p, c) \<leftarrow> map (\<lambda>f. (fd_inode f, fd_cnt f)) t. if p = Some i then c else 0)" for t
    by (simp add: open_refs_def comp_def)
  from this [of tbl] this [of tbl'] show "open_refs tbl i = open_refs tbl' i" unfolding eq by (rule trans [OF _ sym])
qed

lemma files_inv_view:
  assumes "map (\<lambda>f. (fd_inode f, fd_cnt f)) (file_desc_table s) = map (\<lambda>f. (fd_inode f, fd_cnt f)) (file_desc_table s')"
    "map inode_cnt (inode_table s) = map inode_cnt (inode_table s')"
  shows "files_inv R s = files_inv R s'"
proof -
  have l: "length (file_desc_table s) = length (file_desc_table s')" "length (inode_table s) = length (inode_table s')"
    using assms by (metis length_map)+
  have n: "fd_inode (file_desc_table s ! d) = fd_inode (file_desc_table s' ! d)" "fd_cnt (file_desc_table s ! d) = fd_cnt (file_desc_table s' ! d)"
    if "d < length (file_desc_table s')" for d
    using arg_cong [OF assms(1), of "\<lambda>xs. xs ! d"] that l(1) by simp_all
  have c: "inode_cnt (inode_table s ! i) = inode_cnt (inode_table s' ! i)" if "i < length (inode_table s')" for i
    using assms(2) that l(2) by (metis nth_map)
  show ?thesis unfolding files_inv_def l open_refs_view [OF assms(1)] using n c by (auto; metis)
qed

lemma files_ok_view:
  assumes "fview s = fview s'"
  shows "files_ok s = files_ok s'"
proof -
  have "refs (fkern s) = refs (fkern s')"
    using users_view [of "fkern s" "fkern s'"] assms by (simp add: fun_eq_iff refs_def fview_def)
  then show ?thesis using files_inv_view [of s s'] assms by (simp add: fview_def)
qed

text \<open>The drivers leave the tables as they are.\<close>

definition tview :: "fs \<Rightarrow> file_desc list \<times> inode list \<times> super_block list \<times> nat option \<times> proc list \<times> int" where
  "tview s = (file_desc_table s, inode_table s, super_block_table s, root_inode s, proc_table (fkern s), caller_proc s)"

lemma tview_fview: "tview s' = tview s \<Longrightarrow> fview s' = fview s"
  by (simp add: tview_def fview_def)

section \<open>The drivers\<close>

lemma fview_simps [simp]:
  "fview (upd_fmem f s) = fview s" "fview (s\<lparr>fs_msg := m\<rparr>) = fview s" "tview (upd_fmem f s) = tview s"
  by (simp_all add: fview_def tview_def upd_fmem_def upd_mem_def)

lemma map_same_update: "(i < length xs \<Longrightarrow> f y = f (xs ! i)) \<Longrightarrow> map f (xs[i := y]) = map f xs"
  by (cases "i < length xs") (auto simp: list_eq_iff_nth_eq nth_list_update list_update_beyond)

lemma fview_upd_inode: "(\<And>p. inode_cnt (f p) = inode_cnt p) \<Longrightarrow> fview (upd_inode i f s) = fview s"
  by (simp add: fview_def upd_inode_def map_same_update)

lemma fview_upd_fd: "(\<And>p. fd_inode (f p) = fd_inode p \<and> fd_cnt (f p) = fd_cnt p) \<Longrightarrow> fview (upd_fd i f s) = fview s"
  by (simp add: fview_def upd_fd_def map_same_update)

lemma hd_transfer_procs: "hd_transfer ty n la s = Inr s' \<Longrightarrow> proc_table (kern s') = proc_table (kern s)"
proof (induction ty n la s rule: hd_transfer.induct)
  case (1 ty n la s)
  show ?case using 1 by (subst (asm) (3) hd_transfer.simps)
    (auto simp: Let_def read_hdbuf_def write_data_def split: if_splits sum.splits)
qed

lemma get_part_table_procs: "get_part_table n s = Inr (es, s') \<Longrightarrow> proc_table (kern s') = proc_table (kern s)"
  by (auto simp: get_part_table_def hd_cmd_out_def wait_for_hd_int_def read_hdbuf_def Let_def outcome_iffs split: if_split_asm)

lemma read_logical_procs: "read_logical_partitions n s = Inr s' \<Longrightarrow> proc_table (kern s') = proc_table (kern s)"
proof -
  have "read_logical_loop k d e s = Inr s' \<Longrightarrow> proc_table (kern s') = proc_table (kern s)" for k d e s
    by (induction k arbitrary: d e s) (fastforce simp: Let_def outcome_iffs split: if_split_asm dest!: get_part_table_procs)+
  then show "read_logical_partitions n s = Inr s' \<Longrightarrow> ?thesis"
    by (auto simp: read_logical_partitions_def Let_def outcome_iffs split: if_split_asm)
qed

lemma read_primary_procs: "read_primary_loop m i es n s = Inr (k, s') \<Longrightarrow> proc_table (kern s') = proc_table (kern s)"
  by (induction es arbitrary: i n s) (fastforce simp: Let_def outcome_iffs split: if_split_asm dest!: read_logical_procs)+

lemma hd_open_procs: "hd_open n s = Inr s' \<Longrightarrow> proc_table (kern s') = proc_table (kern s)"
  by (auto simp: hd_open_def hd_identify_def read_partition_def read_primary_partitions_def Let_def outcome_iffs
      hd_cmd_out_def wait_for_hd_int_def read_hdbuf_def split: if_split_asm dest!: get_part_table_procs read_primary_procs read_logical_procs)

lemma task_hd_procs:
  assumes "task_hd_round m s = Inr (r, s')"
  shows "proc_table (kern s') = proc_table (kern s)"
  using assms by (auto simp: task_hd_round_def hd_read_write_def hd_close_def hd_ioctl_def Let_def hd_cmd_out_def outcome_iffs
      dest!: hd_transfer_procs hd_open_procs split: if_splits)

lemma drv_call_view:
  assumes "drv_call drv m s = Inr (r, s')"
  shows "tview s' = tview s"
proof (cases "drv = TASK_HD")
  case True
  with assms show ?thesis by (auto simp: drv_call_def Let_def tview_def dest!: task_hd_procs)
next
  case False
  with assms have "tty_exchange (m\<lparr>source := TASK_FS\<rparr>) s = Inr (r, s')" by (simp add: drv_call_def split: if_splits)
  then obtain t where "s' = upd_kern (\<lambda>k. k\<lparr>kmem := tmem t, screen := tscreen t\<rparr>) (s\<lparr>ttys := t\<lparr>tsent := []\<rparr>\<rparr>)"
    unfolding tty_exchange_def by (auto elim!: obind_InrE split: list.split_asm prod.split_asm if_split_asm)
  then show ?thesis by (simp add: tview_def) (simp add: upd_kern_def)
qed

lemma rd_wr_sector_view:
  assumes "rd_wr_sector io dev pos n pid buf s = Inr s'"
  shows "tview s' = tview s"
proof -
  from assms obtain drv r where "drv_call drv (zero_msg\<lparr>type := io, NR_DEV_MINOR := GET_DEV_MINOR_NR dev, POSITION := pos,
      BUF := buf, CNT := n, PROC_NR := pid\<rparr>) s = Inr (r, s')"
    unfolding rd_wr_sector_def by (auto simp: outcome_iffs)
  then show ?thesis by (rule drv_call_view)
qed

lemma sect_view [dest]:
  "RD_SECT dev pos s = Inr s' \<Longrightarrow> tview s' = tview s" "WR_SECT dev pos s = Inr s' \<Longrightarrow> tview s' = tview s"
  "RD_SECTS dev pos n s = Inr s' \<Longrightarrow> tview s' = tview s" "WR_SECTS dev pos n s = Inr s' \<Longrightarrow> tview s' = tview s"
  by (auto simp: RD_SECT_def WR_SECT_def RD_SECTS_def WR_SECTS_def dest: rd_wr_sector_view)

section \<open>The loops over sectors\<close>

lemma lookup_loop_view: "lookup_loop dev sect0 nm k n i e s = Inr (r, s') \<Longrightarrow> tview s' = tview s"
  by (induction n arbitrary: i e s)
    (fastforce elim!: obind_InrE split: prod.split_asm option.split_asm if_split_asm dest!: sect_view)+

lemma get_file_inode_nr_view: "get_file_inode_nr path s = Inr (r, s') \<Longrightarrow> tview s' = tview s"
  by (auto simp: get_file_inode_nr_def Let_def elim!: obind_InrE split: option.split_asm if_split_asm dest!: lookup_loop_view)

lemma write_inode_view: "write_inode i s = Inr s' \<Longrightarrow> tview s' = tview s"
  by (auto simp: write_inode_def Let_def elim!: obind_InrE dest!: sect_view)

lemma alloc_inode_map_bit_view: "alloc_inode_map_bit dev s = Inr (r, s') \<Longrightarrow> tview s' = tview s"
  by (auto simp: alloc_inode_map_bit_def Let_def elim!: obind_InrE split: option.split_asm if_split_asm dest!: sect_view)

lemma alloc_sects_loop_view: "alloc_sects_loop dev sb n i a l s = Inr (r, s') \<Longrightarrow> tview s' = tview s"
proof (induction n arbitrary: i a l s)
  case (Suc n)
  let ?pos = "spos (sint (1 + 1 + nr_inode_map_sects sb) + i)"
  from Suc.prems obtain s1 mm a' l' s3 where s: "RD_SECT dev ?pos s = Inr s1"
    "(if a' \<noteq> 0 then WR_SECT dev ?pos (upd_fmem (\<lambda>_. mm) s1) else Inr (upd_fmem (\<lambda>_. mm) s1)) = Inr s3"
    "(if l' = 0 then Inr (a', s3) else alloc_sects_loop dev sb n (i + 1) a' l' s3) = Inr (r, s')"
    by (simp only: alloc_sects_loop.simps Let_def obind_Inr_iff prod.case split_paired_Ex) blast
  then have "tview s3 = tview s" by (auto split: if_split_asm dest!: sect_view)
  with s(3) Suc.IH [of "i + 1" a' l' s3] show ?case by (auto split: if_split_asm)
qed (auto simp: outcome_iffs)

lemma alloc_sect_map_bit_view: "alloc_sect_map_bit dev n s = Inr (r, s') \<Longrightarrow> tview s' = tview s"
  by (auto simp: alloc_sect_map_bit_def elim!: obind_InrE dest!: alloc_sects_loop_view)

lemma free_entry_loop_view: "free_entry_loop dev sect0 k n i p e s = Inr (a, b, c, s') \<Longrightarrow> tview s' = tview s"
  by (induction n arbitrary: i p e s)
    (fastforce elim!: obind_InrE split: prod.split_asm if_split_asm dest!: sect_view)+

lemma next_map_sector_view: "next_map_sector dev idx n s = Inr (a, b, s') \<Longrightarrow> tview s' = tview s"
  by (auto simp: next_map_sector_def elim!: obind_InrE split: if_split_asm dest!: sect_view)

lemma clear_bytes_view: "clear_bytes dev n idx m s = Inr (a, b, s') \<Longrightarrow> tview s' = tview s"
  by (induction n arbitrary: idx m s) (fastforce simp: Let_def outcome_iffs dest!: next_map_sector_view)+

lemma clear_inode_map_bit_view: "clear_inode_map_bit dev nr s = Inr s' \<Longrightarrow> tview s' = tview s"
  by (auto simp: clear_inode_map_bit_def Let_def outcome_iffs split: if_split_asm dest!: sect_view)

lemma clear_sector_map_bits_view: "clear_sector_map_bits i s = Inr s' \<Longrightarrow> tview s' = tview s"
  by (auto simp: clear_sector_map_bits_def Let_def outcome_iffs split: if_split_asm prod.split_asm
      dest!: sect_view clear_bytes_view next_map_sector_view)

lemma clear_entry_loop_view: "clear_entry_loop dev sect0 nr k n i e z s = Inr (a, b, s') \<Longrightarrow> tview s' = tview s"
  by (induction n arbitrary: i e z s)
    (fastforce simp: Let_def elim!: obind_InrE split: prod.split_asm option.split_asm if_split_asm dest!: sect_view)+

section \<open>References to inodes\<close>

definition bump :: "nat \<Rightarrow> fs \<Rightarrow> fs" where
  "bump i = upd_inode i (\<lambda>p. p\<lparr>inode_cnt := inode_cnt p + 1\<rparr>)"

lemma fviewD:
  assumes "fview s' = fview s"
  shows "length (inode_table s') = length (inode_table s)" "length (file_desc_table s') = length (file_desc_table s)"
    "proc_table (fkern s') = proc_table (fkern s)" "caller_proc s' = caller_proc s"
    "i < length (inode_table s) \<Longrightarrow> inode_cnt (inode_table s' ! i) = inode_cnt (inode_table s ! i)"
    "d < length (file_desc_table s) \<Longrightarrow> fd_inode (file_desc_table s' ! d) = fd_inode (file_desc_table s ! d)"
    "map fd_inode (file_desc_table s') = map fd_inode (file_desc_table s)"
proof -
  have m: "map inode_cnt (inode_table s') = map inode_cnt (inode_table s)"
    "map (\<lambda>f. (fd_inode f, fd_cnt f)) (file_desc_table s') = map (\<lambda>f. (fd_inode f, fd_cnt f)) (file_desc_table s)"
    "proc_table (fkern s') = proc_table (fkern s)" "caller_proc s' = caller_proc s" using assms by (simp_all add: fview_def)
  show l: "length (inode_table s') = length (inode_table s)" "length (file_desc_table s') = length (file_desc_table s)"
    using m(1, 2) [THEN arg_cong, of length] by simp_all
  show "inode_cnt (inode_table s' ! i) = inode_cnt (inode_table s ! i)" if "i < length (inode_table s)"
    using m(1) [THEN arg_cong, of "\<lambda>xs. xs ! i"] that l(1) by simp
  show "fd_inode (file_desc_table s' ! d) = fd_inode (file_desc_table s ! d)" if "d < length (file_desc_table s)"
    using m(2) [THEN arg_cong, of "\<lambda>xs. xs ! d"] that l(2) by simp
  show "map fd_inode (file_desc_table s') = map fd_inode (file_desc_table s)" using m(2) [THEN arg_cong, of "map fst"] by (simp add: comp_def)
qed (use assms in \<open>simp_all add: fview_def\<close>)

lemma fview_upd_cnt:
  assumes "fview s' = fview s"
  shows "fview (upd_inode i (\<lambda>p. p\<lparr>inode_cnt := g (inode_cnt p)\<rparr>) s') = fview (upd_inode i (\<lambda>p. p\<lparr>inode_cnt := g (inode_cnt p)\<rparr>) s)"
proof (cases "i < length (inode_table s)")
  case True
  then show ?thesis using assms fviewD(1, 5) [OF assms] by (simp add: fview_def upd_inode_def map_update)
next
  case False
  then show ?thesis using assms fviewD(1) [OF assms] by (simp add: upd_inode_def list_update_beyond)
qed

lemma fview_bump: "fview s' = fview s \<Longrightarrow> fview (bump i s') = fview (bump i s)"
  unfolding bump_def by (rule fview_upd_cnt)

lemma find_inode_InlD: "find_inode dev nr ps k q = Inl j \<Longrightarrow> k \<le> j \<and> j < k + length ps \<and> caches dev nr (ps ! (j - k))"
proof (induction ps arbitrary: k q)
  case (Cons p ps)
  show ?case
  proof (cases "caches dev nr p")
    case False
    with Cons.prems obtain q' where "find_inode dev nr ps (k + 1) q' = Inl j" by (auto simp: caches_def split: if_splits)
    from Cons.IH [OF this] show ?thesis by (auto simp: nth_Cons split: nat.split) (metis Suc_diff_Suc Suc_le_lessD diff_Suc_1')
  qed (use Cons.prems in \<open>auto simp: caches_def\<close>)
qed simp

lemma find_inode_SomeD:
  "find_inode dev nr ps k q = Inr (Some j) \<Longrightarrow> q = Some j \<or> k \<le> j \<and> j < k + length ps \<and> inode_cnt (ps ! (j - k)) = 0"
proof (induction ps arbitrary: k q)
  case (Cons p ps)
  then obtain q' where q': "find_inode dev nr ps (k + 1) q' = Inr (Some j)" "q' = q \<or> q = None \<and> q' = Some k \<and> inode_cnt p = 0"
    by (auto split: if_splits)
  from Cons.IH [OF q'(1)] consider "q = Some j" | "j = k" "inode_cnt p = 0" | "k + 1 \<le> j" "j < k + 1 + length ps" "inode_cnt (ps ! (j - (k + 1))) = 0"
    using q'(2) by auto
  then show ?case
  proof cases
    case 3
    then have "j - k = Suc (j - (k + 1))" by simp
    with 3 show ?thesis by simp
  qed auto
qed simp

text \<open>Getting an inode adds one reference to one slot of the cache; a slot that did not hold it was free.\<close>

lemma get_file_inode_view:
  assumes "get_file_inode dev nr s = Inr (p, s')"
  shows "p = None \<and> s' = s \<or> (\<exists>i. p = Some i \<and> i < length (inode_table s) \<and> fview s' = fview (bump i s) \<and>
    super_block_table s' = super_block_table s \<and> root_inode s' = root_inode s \<and>
    (inode_cnt (inode_table s ! i) = 0 \<or> caches dev nr (inode_table s ! i)))"
proof (cases "nr = 0")
  case False
  show ?thesis
  proof (cases "find_inode dev nr (inode_table s) 0 None")
    case (Inl i)
    with find_inode_InlD [OF Inl] assms False show ?thesis by (auto simp: get_file_inode_def bump_def upd_inode_def)
  next
    case (Inr q)
    with assms False obtain i sb s2 where i: "q = Some i" "p = Some i"
      "RD_SECT dev (spos (inode_sect sb nr)) (upd_inode i (\<lambda>p. p\<lparr>inode_dev := dev, inode_nr := nr, inode_cnt := 1\<rparr>) s) = Inr s2"
      "s' = upd_inode i (\<lambda>p. p\<lparr>inode_file_type := rd32 (fmem s2) (inode_addr nr), inode_file_size := rd32 (fmem s2) (inode_addr nr + 4),
                  inode_sect_start := rd32 (fmem s2) (inode_addr nr + 8), inode_nr_sects := rd32 (fmem s2) (inode_addr nr + 12)\<rparr>) s2"
      by (auto simp: get_file_inode_def Let_def elim!: obind_InrE split: option.split_asm)
    from find_inode_SomeD [OF Inr [unfolded i(1)]] have z: "i < length (inode_table s)" "inode_cnt (inode_table s ! i) = 0" by auto
    from sect_view(1) [OF i(3)] have t2: "tview s2 = tview (upd_inode i (\<lambda>p. p\<lparr>inode_dev := dev, inode_nr := nr, inode_cnt := 1\<rparr>) s)" .
    have "fview s' = fview s2" unfolding i(4) by (rule fview_upd_inode) simp
    also have "\<dots> = fview (bump i s)"
      using tview_fview [OF t2] z by (simp add: fview_def bump_def upd_inode_def map_update)
    finally show ?thesis using z t2 i(2, 4) by (simp add: tview_def upd_inode_def)
  qed
qed (use assms in \<open>simp add: get_file_inode_def\<close>)

lemma put_inode_view:
  assumes "put_inode p s = Inr s'"
  shows "\<exists>i. p = Some i \<and> i < length (inode_table s) \<and> s' = upd_inode i (\<lambda>p. p\<lparr>inode_cnt := inode_cnt p - 1\<rparr>) s"
  using assms by (auto simp: put_inode_def deref_def outcome_iffs split: option.split_asm if_split_asm)

lemma bump_drop:
  assumes "fview s' = fview (bump i s)"
  shows "fview (upd_inode i (\<lambda>p. p\<lparr>inode_cnt := inode_cnt p - 1\<rparr>) s') = fview s"
proof -
  have "fview (upd_inode i (\<lambda>p. p\<lparr>inode_cnt := inode_cnt p - 1\<rparr>) s') = fview (upd_inode i (\<lambda>p. p\<lparr>inode_cnt := inode_cnt p - 1\<rparr>) (bump i s))"
    using assms by (rule fview_upd_cnt)
  also have "upd_inode i (\<lambda>p. p\<lparr>inode_cnt := inode_cnt p - 1\<rparr>) (bump i s) = s"
    by (cases "i < length (inode_table s)") (simp_all add: bump_def upd_inode_def list_update_beyond)
  finally show ?thesis .
qed

end
