(* ===== verification/FsTurns.thy ===== *)
theory FsTurns
  imports FsFrame
begin

text \<open>
  Every request a process can make of the file system keeps the reference counts consistent, and changes nothing of
  the process table but the files of the caller.
\<close>

unbundle bit_operations_syntax

section \<open>Requests that leave the counts alone\<close>

lemma rw_loop_view: "rw_loop d dev buf pid chunk mx i off rw left s = Inr (b, s') \<Longrightarrow> fview s' = fview s"
proof (induction d dev buf pid chunk mx i off rw left s arbitrary: b s' rule: rw_loop.induct)
  case (1 d dev buf pid chunk mx i off rw left s)
  show ?case
  proof (cases "i > mx \<or> chunk \<le> 0")
    case True
    with "1.prems" show ?thesis by (subst (asm) rw_loop.simps) (auto split: if_split_asm)
  next
    case False
    let ?bytes = "min left (chunk * SECTOR_SIZE - off)"
    let ?body = "obind (RD_SECTS dev (spos i) chunk s) (\<lambda>s1.
             obind (proc_va2la (fkern s1) pid (buf + word_of_int rw)) (\<lambda>la.
             obind (proc_va2la (fkern s1) TASK_FS (fsbuf + word_of_int off)) (\<lambda>fa.
             if type (fs_msg s) = FS_READ then
               Inr (upd_fmem (\<lambda>mm. phys_copy mm la fa (word_of_int ?bytes)) s1)
             else WR_SECTS dev (spos i) chunk (upd_fmem (\<lambda>mm. phys_copy mm fa la (word_of_int ?bytes)) s1))))"
    from "1.prems" False obtain s2 where s2: "?body = Inr s2" "rw_loop d dev buf pid chunk mx (i + chunk) 0 (rw + ?bytes) (left - ?bytes)
        (upd_fd d (\<lambda>f. f\<lparr>fd_pos := fd_pos f + ?bytes\<rparr>) s2) = Inr (b, s')"
      by (subst (asm) rw_loop.simps) (auto simp: Let_def split: sum.split_asm)
    have "fview s2 = fview s" using s2(1) by (intro tview_fview) (auto elim!: obind_InrE split: if_split_asm dest!: sect_view)
    moreover have nf: "\<not> i > mx" "\<not> chunk \<le> 0" using False by simp_all
    moreover note "1.IH" [OF nf refl s2]
    ultimately show ?thesis by (simp add: fview_upd_fd)
  qed
qed

lemma do_read_write_view: "do_read_write s = Inr (v, s') \<Longrightarrow> fview s' = fview s"
proof -
  assume run: "do_read_write s = Inr (v, s')"
  have special: "fview s' = fview s" if sp: "do_read_write_special i buf len pid s = Inr (v, s')" for i buf len pid
  proof -
    let ?dev = "sint (inode_sect_start (inode_table s ! i))"
    from sp obtain drv m r s1 where d: "GET_DEV_MAJOR_NR ?dev = 4" "driver_of ?dev = Inr drv" "drv_call drv m s = Inr (r, s1)" "s' = s1\<lparr>fs_msg := r\<rparr>"
      by (auto simp: do_read_write_special_def Let_def outcome_iffs)
    then have "drv \<noteq> TASK_HD" by (auto simp: driver_of_def dev_drv_map_def)
    with tview_fview [OF drv_call_view [OF d(3)]] d(4) show ?thesis by simp
  qed
  have grow: "fview t' = fview t" if "write_inode i (upd_inode i (inode_file_size_update (\<lambda>_. z)) t) = Inr t'" for i z t t'
    using tview_fview [OF write_inode_view [OF that]] by (simp add: fview_upd_inode)
  have regular: "fview s' = fview s" if "do_read_write_regular i buf len pid d s = Inr (v, s')" for i buf len pid d
    using that by (auto simp: do_read_write_regular_def Let_def outcome_iffs split: if_split_asm dest!: rw_loop_view grow)
  show ?thesis using run
    by (auto simp: do_read_write_def Let_def outcome_iffs split: if_split_asm option.split_asm dest: special regular)
qed

lemma do_lseek_view: "do_lseek s = Inr (v, s') \<Longrightarrow> fview s' = fview s"
  by (auto simp: do_lseek_def Let_def outcome_iffs fview_upd_fd split: if_split_asm)

lemma do_stat_view:
  assumes "do_stat s = Inr (v, s')"
  shows "fview s' = fview s"
proof -
  from assms obtain path nr s1 where s1: "get_file_inode_nr path s = Inr (nr, s1)" and
    cs: "s' = s1 \<or> (\<exists>dev p s2 s3 la i. get_file_inode dev nr s1 = Inr (p, s2) \<and> deref (inode_table s2) p = Inr i \<and>
      put_inode (Some i) s2 = Inr s3 \<and> s' = upd_fmem (put_stat (inode_table s2 ! i) la) s3)"
    by (auto simp: do_stat_def outcome_iffs split: if_split_asm) metis
  have "fview s' = fview s1" using cs
  proof
    assume "\<exists>dev p s2 s3 la i. get_file_inode dev nr s1 = Inr (p, s2) \<and> deref (inode_table s2) p = Inr i \<and>
      put_inode (Some i) s2 = Inr s3 \<and> s' = upd_fmem (put_stat (inode_table s2 ! i) la) s3"
    then obtain dev p s2 s3 la i where d: "get_file_inode dev nr s1 = Inr (p, s2)" "deref (inode_table s2) p = Inr i"
      "put_inode (Some i) s2 = Inr s3" "s' = upd_fmem (put_stat (inode_table s2 ! i) la) s3" by blast
    from d(2) have "p = Some i" by (auto simp: deref_def split: option.split_asm if_split_asm)
    with get_file_inode_view [OF d(1)] have "fview s2 = fview (bump i s1)" by auto
    with put_inode_view [OF d(3)] d(4) bump_drop show ?thesis by auto
  qed simp
  then show ?thesis using tview_fview [OF get_file_inode_nr_view [OF s1]] by simp
qed

section \<open>Requests that take a reference\<close>

lemma files_inv_bump:
  assumes "files_inv R s"
  shows "files_inv R (bump i s)"
    and "i < length (inode_table s) \<Longrightarrow> open_refs (file_desc_table s) i < inode_cnt (inode_table (bump i s) ! i)"
proof -
  have le: "\<forall>j < length (inode_table s). open_refs (file_desc_table s) j \<le> inode_cnt (inode_table s ! j)"
    using assms unfolding files_inv_def by blast
  have t: "file_desc_table (bump i s) = file_desc_table s"
    "inode_table (bump i s) = (inode_table s)[i := (inode_table s ! i)\<lparr>inode_cnt := inode_cnt (inode_table s ! i) + 1\<rparr>]"
    by (simp_all add: bump_def upd_inode_def)
  have "open_refs (file_desc_table s) j \<le> inode_cnt ((inode_table s)[i := (inode_table s ! i)\<lparr>inode_cnt := inode_cnt (inode_table s ! i) + 1\<rparr>] ! j)"
    if "j < length (inode_table s)" for j using le that by (cases "i = j") fastforce+
  then show "files_inv R (bump i s)" using assms unfolding files_inv_def t length_list_update by blast
  show "open_refs (file_desc_table s) i < inode_cnt (inode_table (bump i s) ! i)" if "i < length (inode_table s)"
    unfolding t using le that by fastforce
qed

lemma fkern_bump [simp]: "fkern (bump i s) = fkern s" "file_desc_table (bump i s) = file_desc_table s"
  "caller_proc (bump i s) = caller_proc s" "length (inode_table (bump i s)) = length (inode_table s)"
  by (simp_all add: bump_def upd_inode_def)

lemma fview_upd_inode_at:
  "(i < length (inode_table s) \<Longrightarrow> inode_cnt (f (inode_table s ! i)) = inode_cnt (inode_table s ! i)) \<Longrightarrow> fview (upd_inode i f s) = fview s"
  by (simp add: fview_def upd_inode_def map_same_update)

lemma clear_inode_fields_view:
  assumes "clear_inode_fields i s = Inr s'" "fview s = fview (bump i t)"
  shows "fview s' = fview t"
proof -
  let ?s1 = "upd_inode i (\<lambda>q. q\<lparr>inode_file_type := 0, inode_file_size := 0, inode_sect_start := 0, inode_nr_sects := 0\<rparr>) s"
  from assms(1) obtain s2 where s2: "write_inode i ?s1 = Inr s2" "put_inode (Some i) s2 = Inr s'"
    by (auto simp: clear_inode_fields_def outcome_iffs)
  have "fview s2 = fview (bump i t)" using tview_fview [OF write_inode_view [OF s2(1)]] assms(2) by (simp add: fview_upd_inode)
  with put_inode_view [OF s2(2)] bump_drop show ?thesis by auto
qed

lemma clear_directory_entry_view: "clear_directory_entry r nr s = Inr s' \<Longrightarrow> fview s' = fview s"
proof -
  assume "clear_directory_entry r nr s = Inr s'"
  then obtain dev sect0 k n a b s1 where l: "clear_entry_loop dev sect0 nr k n 0 0 0 s = Inr (a, b, s1)"
    and w: "s' = s1 \<or> write_inode r (upd_inode r (\<lambda>q. q\<lparr>inode_file_size := word_of_int b\<rparr>) s1) = Inr s'"
    by (force simp: clear_directory_entry_def Let_def outcome_iffs split: if_split_asm)
  from w have "fview s' = fview s1" using tview_fview [OF write_inode_view] by (fastforce simp: fview_upd_inode)
  with tview_fview [OF clear_entry_loop_view [OF l]] show ?thesis by simp
qed

lemma got_inode:
  assumes "get_file_inode_nr path s = Inr (nr, s1)" "get_file_inode dev nr s1 = Inr (p, s2)" "deref (inode_table s2) p = Inr i"
  shows "fview s2 = fview (bump i s)"
proof -
  have "p = Some i" using assms(3) by (auto simp: deref_def split: option.split_asm if_split_asm)
  with get_file_inode_view [OF assms(2)] have "fview s2 = fview (bump i s1)" by auto
  with fview_bump [OF tview_fview [OF get_file_inode_nr_view [OF assms(1)]]] show ?thesis by simp
qed

lemma removed_inode:
  assumes "clear_inode_map_bit dev nr s2 = Inr s3" "clear_sector_map_bits i s3 = Inr s4" "clear_inode_fields i s4 = Inr s5"
    "clear_directory_entry r nr s5 = Inr s'" "fview s2 = fview (bump i s)"
  shows "fview s' = fview s"
proof -
  have "fview s4 = fview (bump i s)"
    using tview_fview [OF clear_inode_map_bit_view [OF assms(1)]] tview_fview [OF clear_sector_map_bits_view [OF assms(2)]] assms(5) by simp
  with clear_inode_fields_view [OF assms(3)] clear_directory_entry_view [OF assms(4)] show ?thesis by simp
qed

lemma do_unlink_view:
  assumes "do_unlink s = Inr (v, s')"
  shows "fview s' = fview s \<or> (\<exists>i. fview s' = fview (bump i s))"
  using assms unfolding do_unlink_def
  by (auto elim!: obind_InrE split: if_split_asm)
    (use got_inode removed_inode in \<open>blast intro: tview_fview [OF get_file_inode_nr_view]\<close>)+

section \<open>Creating and opening\<close>

text \<open>The inode map does not hand out the number of an inode in the cache.\<close>

definition fresh_number :: "fs \<Rightarrow> bool" where
  "fresh_number s \<longleftrightarrow> (\<forall>r nr s'. deref (inode_table s) (root_inode s) = Inr r \<and>
     alloc_inode_map_bit (inode_dev (inode_table s ! r)) s = Inr (nr, s') \<longrightarrow>
     (\<forall>p \<in> set (inode_table s). \<not> caches (inode_dev (inode_table s ! r)) nr p))"

lemma make_new_inode_view:
  assumes "make_new_inode dev nr sect s = Inr (i, s')" "\<forall>p \<in> set (inode_table s). \<not> caches dev nr p"
  shows "i < length (inode_table s) \<and> fview s' = fview (bump i s)"
proof -
  let ?f = "\<lambda>q. q\<lparr>inode_file_type := 0x8000, inode_file_size := 0, inode_sect_start := word_of_int sect,
    inode_nr_sects := word_of_int NR_FILE_SECTS, inode_dev := dev, inode_cnt := 1, inode_nr := nr\<rparr>"
  from assms(1) obtain p s1 where s1: "get_file_inode dev nr s = Inr (p, s1)" "deref (inode_table s1) p = Inr i"
    "write_inode i (upd_inode i ?f s1) = Inr s'" by (auto simp: make_new_inode_def Let_def elim!: obind_InrE)
  have "p = Some i" using s1(2) by (auto simp: deref_def split: option.split_asm if_split_asm)
  with get_file_inode_view [OF s1(1)] assms(2) nth_mem have
    i: "i < length (inode_table s)" "fview s1 = fview (bump i s)" "inode_cnt (inode_table s ! i) = 0" by auto
  have "inode_cnt (inode_table s1 ! i) = 1" using fviewD(5) [OF i(2)] i(1, 3) by (simp add: bump_def upd_inode_def)
  then have "fview (upd_inode i ?f s1) = fview s1" by (intro fview_upd_inode_at) simp
  with tview_fview [OF write_inode_view [OF s1(3)]] i show ?thesis by simp
qed

lemma make_new_dir_entry_view:
  assumes "make_new_dir_entry r nr nm s = Inr s'"
  shows "fview s' = fview s"
proof -
  let ?sz = "upd_inode r (\<lambda>q. q\<lparr>inode_file_size := inode_file_size q + 16\<rparr>)"
  from assms obtain dev sect0 k n found p j s1 f pos s4 where
    l: "free_entry_loop dev sect0 k n 0 None 0 s = Inr (found, p, j, s1)"
    "WR_SECT dev pos (upd_fmem f (if found then s1 else ?sz s1)) = Inr s4" "write_inode r s4 = Inr s'"
    by (force simp: make_new_dir_entry_def Let_def elim!: obind_InrE split: option.split_asm)
  have "fview s4 = fview s1" using tview_fview [OF sect_view(2) [OF l(2)]] by (simp add: fview_upd_inode split: if_split_asm)
  with tview_fview [OF free_entry_loop_view [OF l(1)]] tview_fview [OF write_inode_view [OF l(3)]] show ?thesis by simp
qed

lemma create_file_view:
  assumes "create_file path s = Inr (p, s')" "fresh_number s"
  shows "p = None \<and> fview s' = fview s \<or> (\<exists>i. p = Some i \<and> i < length (inode_table s) \<and> fview s' = fview (bump i s))"
proof (cases "get_file_name path")
  case (Some nm)
  with assms(1) obtain r nr s1 sect s2 i s3 where c: "deref (inode_table s) (root_inode s) = Inr r"
    "alloc_inode_map_bit (inode_dev (inode_table s ! r)) s = Inr (nr, s1)"
    "alloc_sect_map_bit (inode_dev (inode_table s ! r)) NR_FILE_SECTS s1 = Inr (sect, s2)"
    "make_new_inode (inode_dev (inode_table s ! r)) nr sect s2 = Inr (i, s3)"
    "make_new_dir_entry r (inode_nr (inode_table s3 ! i)) nm s3 = Inr s'" "p = Some i"
    by (auto simp: create_file_def Let_def elim!: obind_InrE)
  have t: "tview s2 = tview s" using alloc_inode_map_bit_view [OF c(2)] alloc_sect_map_bit_view [OF c(3)] by simp
  then have "\<forall>q \<in> set (inode_table s2). \<not> caches (inode_dev (inode_table s ! r)) nr q"
    using assms(2) c(1, 2) by (auto simp: fresh_number_def tview_def)
  from make_new_inode_view [OF c(4) this] fview_bump [OF tview_fview [OF t]] make_new_dir_entry_view [OF c(5)] c(6) t
  show ?thesis by (simp add: tview_def)
qed (use assms(1) in \<open>simp add: create_file_def\<close>)

lemma open_inode_view:
  assumes "open_inode path flags nr s = Inr (p, s')" "flags AND O_CREAT \<noteq> 0 \<and> nr = INVALID_INODE \<longrightarrow> fresh_number s"
  shows "p = None \<and> fview s' = fview s \<or> (\<exists>i. p = Some i \<and> i < length (inode_table s) \<and> fview s' = fview (bump i s))"
proof (cases "nr = INVALID_INODE")
  case True
  with assms create_file_view [of path s p s'] show ?thesis by (auto simp: open_inode_def split: if_split_asm)
next
  case False
  with assms(1) have "p = None \<and> s' = s \<or> (\<exists>dev. get_file_inode dev nr s = Inr (p, s'))"
    by (auto simp: open_inode_def outcome_iffs split: if_split_asm option.split_asm)
  with get_file_inode_view show ?thesis by blast
qed

text \<open>The files of one process are all that a request changes in the process table.\<close>

definition files_of :: "int \<Rightarrow> kernel \<Rightarrow> kernel \<Rightarrow> bool" where
  "files_of c k k' \<longleftrightarrow> (\<exists>fds. proc_table k' = (proc_table k)[nat c := (proc_table k ! nat c)\<lparr>file_desc := fds\<rparr>])"

lemma files_of_same: "proc_table k' = proc_table k \<Longrightarrow> files_of c k k'"
  unfolding files_of_def by (intro exI [of _ "file_desc (proc_table k ! nat c)"]) simp

lemma files_of_cong: "files_of c k k' \<Longrightarrow> proc_table k1 = proc_table k \<Longrightarrow> proc_table k2 = proc_table k' \<Longrightarrow> files_of c k1 k2"
  by (simp add: files_of_def)

lemma first_none_SomeD: "first_none xs k = Some i \<Longrightarrow> k \<le> i \<and> i < k + length xs \<and> xs ! (i - k) = None"
proof (induction xs arbitrary: k)
  case (Cons x xs)
  show ?case
  proof (cases "x = None")
    case False
    with Cons.prems Cons.IH [of "k + 1"] have i: "k + 1 \<le> i" "i < k + 1 + length xs" "xs ! (i - (k + 1)) = None" by auto
    then have "i - k = Suc (i - (k + 1))" by simp
    with i show ?thesis by simp
  qed (use Cons.prems in auto)
qed simp

lemma refs_add:
  assumes "0 \<le> pid" "pid < int (length (proc_table (fkern s)))" "fd < length (file_desc (proc_table (fkern s) ! nat pid))"
    "file_desc (proc_table (fkern s) ! nat pid) ! fd = None"
  shows "refs (fkern (set_file_desc pid fd (Some d) s)) = (refs (fkern s))(d := refs (fkern s) d + 1)"
proof
  fix e
  have "(nat pid, fd) \<notin> users (fkern s) e" using assms(4) by (simp add: users_def)
  then show "refs (fkern (set_file_desc pid fd (Some d) s)) e = ((refs (fkern s))(d := refs (fkern s) d + 1)) e"
    using card_insert_disjoint [OF finite_users [of "fkern s" d], of "(nat pid, fd)"]
    by (cases "e = d") (simp_all add: refs_def users_set [OF assms(1-3)])
qed

lemma connected_ok:
  fixes flags :: int
  assumes "files_ok s" "i < length (inode_table s)" "open_refs (file_desc_table s) i < inode_cnt (inode_table s ! i)"
    and "d < length (file_desc_table s)" "fd_inode (file_desc_table s ! d) = None"
    and "0 \<le> c" "c < int (length (proc_table (fkern s)))" "fd < length (file_desc (proc_table (fkern s) ! nat c))"
    and "file_desc (proc_table (fkern s) ! nat c) ! fd = None"
  defines "s1 \<equiv> upd_fd d (\<lambda>f. f\<lparr>fd_inode := Some i, fd_mode := flags, fd_cnt := 1, fd_pos := 0\<rparr>) (set_file_desc c fd (Some d) s)"
  shows "files_ok s1" "files_of c (fkern s) (fkern s1)"
proof -
  let ?R = "refs (fkern s)"
  have "0 \<le> ?R d \<and> (0 < ?R d \<longleftrightarrow> d < length (file_desc_table s) \<and> fd_inode (file_desc_table s ! d) \<noteq> None)"
    using assms(1) unfolding files_inv_def by blast
  then have z: "?R d = 0" using assms(5) by auto
  have r: "refs (fkern s1) = ?R(d := 1)" using refs_add [OF assms(6-9)] z by (simp add: s1_def)
  have t: "file_desc_table s1 = (file_desc_table s)[d := (file_desc_table s ! d)\<lparr>fd_inode := Some i, fd_mode := flags, fd_cnt := 1, fd_pos := 0\<rparr>]"
    "inode_table s1 = inode_table s" by (simp_all add: s1_def upd_fd_def)
  have inv: "\<forall>e. 0 \<le> ?R e \<and> (0 < ?R e \<longleftrightarrow> e < length (file_desc_table s) \<and> fd_inode (file_desc_table s ! e) \<noteq> None)"
    "\<forall>e < length (file_desc_table s). \<forall>j. fd_inode (file_desc_table s ! e) = Some j \<longrightarrow> fd_cnt (file_desc_table s ! e) = ?R e \<and> j < length (inode_table s)"
    "\<forall>j < length (inode_table s). open_refs (file_desc_table s) j \<le> inode_cnt (inode_table s ! j)"
    using assms(1) unfolding files_inv_def by blast+
  show "files_ok s1" unfolding files_inv_def r t
  proof (intro conjI)
    show "\<forall>e. 0 \<le> (?R(d := 1)) e \<and> (0 < (?R(d := 1)) e \<longleftrightarrow> e < length ((file_desc_table s)[d := (file_desc_table s ! d)
        \<lparr>fd_inode := Some i, fd_mode := flags, fd_cnt := 1, fd_pos := 0\<rparr>]) \<and> fd_inode ((file_desc_table s)[d := (file_desc_table s ! d)
        \<lparr>fd_inode := Some i, fd_mode := flags, fd_cnt := 1, fd_pos := 0\<rparr>] ! e) \<noteq> None)"
      using inv(1) assms(4) by (simp add: nth_list_update)
  qed (use inv(2, 3) assms(2-5) in \<open>auto simp: nth_list_update open_refs_update\<close>)
  show "files_of c (fkern s) (fkern s1)" unfolding files_of_def using file_desc_set [OF assms(6, 7)] by (auto simp: s1_def)
qed

lemma connect_file_ok:
  assumes "connect_file fd d i flags s = Inr s'" "files_ok s" "i < length (inode_table s)"
    and "open_refs (file_desc_table s) i < inode_cnt (inode_table s ! i)"
    and "d < length (file_desc_table s)" "fd_inode (file_desc_table s ! d) = None" "c = caller_proc s"
    and "0 \<le> c" "c < int (length (proc_table (fkern s)))" "fd < length (file_desc (proc_table (fkern s) ! nat c))"
    and "file_desc (proc_table (fkern s) ! nat c) ! fd = None"
  shows "files_ok s' \<and> files_of c (fkern s) (fkern s')"
proof -
  let ?s1 = "upd_fd d (\<lambda>f. f\<lparr>fd_inode := Some i, fd_mode := flags, fd_cnt := 1, fd_pos := 0\<rparr>) (set_file_desc c fd (Some d) s)"
  have "driver_of dev \<noteq> Inr TASK_HD" if "GET_DEV_MAJOR_NR dev = 4" for dev using that by (simp add: driver_of_def dev_drv_map_def)
  then have "tview s' = tview ?s1"
    using assms(1, 7) by (auto simp: connect_file_def Let_def outcome_iffs split: if_split_asm dest!: drv_call_view)
  note v = this
  have "files_ok s'" using files_ok_view [OF tview_fview [OF v]] connected_ok(1) [OF assms(2-6, 8-11)] by blast
  moreover have "proc_table (fkern s') = proc_table (fkern ?s1)" using v by (simp only: tview_def prod.inject)
  ultimately show ?thesis using connected_ok(2) [OF assms(2-6, 8-11)] files_of_cong by blast
qed

lemma do_open_ok:
  assumes "do_open s = Inr (v, s')" "files_ok s" "c = caller_proc s" "0 \<le> c" "c < int (length (proc_table (fkern s)))"
    and "\<And>path nr s1. get_file_inode_nr path s = Inr (nr, s1) \<Longrightarrow> FLAGS (fs_msg s) AND O_CREAT \<noteq> 0 \<Longrightarrow> fresh_number s1"
  shows "files_ok s' \<and> files_of c (fkern s) (fkern s')"
proof -
  let ?flags = "FLAGS (fs_msg s)" and ?trunc = "\<lambda>i. upd_inode i (\<lambda>q. q\<lparr>inode_file_size := 0\<rparr>)"
  from assms(1) obtain path fd nr s1 p s2 where o: "first_none (file_desc (proc_at (fkern s) (caller_proc s))) 0 = Some fd"
    "get_file_inode_nr path s = Inr (nr, s1)" "open_inode path ?flags nr s1 = Inr (p, s2)" and
    e: "s' = s2 \<or> (\<exists>s3 d. (if ?flags AND O_TRUNC \<noteq> 0 then c_assert (p \<noteq> None) (let i = the p in write_inode i (?trunc i s2)) else Inr s2) = Inr s3 \<and>
      first_none (map fd_inode (file_desc_table s3)) 0 = Some d \<and>
      (s' = s3 \<or> (\<exists>i. p = Some i \<and> connect_file fd d i ?flags s3 = Inr s')))"
    unfolding do_open_def Let_def by (auto elim!: obind_InrE split: option.split_asm if_split_asm)
  have P: "proc_table (fkern s) ! nat c = proc_at (fkern s) c" using assms(4, 5) by (simp add: proc_at_def)
  have fd: "fd < length (file_desc (proc_table (fkern s) ! nat c))" "file_desc (proc_table (fkern s) ! nat c) ! fd = None"
    using first_none_SomeD [OF o(1)] assms(3) P by auto
  have v1: "fview s1 = fview s" by (rule tview_fview [OF get_file_inode_nr_view [OF o(2)]])
  have v2: "p = None \<and> fview s2 = fview s \<or> (\<exists>i. p = Some i \<and> i < length (inode_table s) \<and> fview s2 = fview (bump i s))"
    using open_inode_view [OF o(3)] assms(6) [OF o(2)] fview_bump [OF v1] v1 fviewD(1) [OF v1] by auto
  have ok: "files_ok t \<and> files_of c (fkern s) (fkern t)" if "fview t = fview s \<or> (\<exists>i. fview t = fview (bump i s))" for t
    using that files_ok_view [of t s] files_ok_view [of t "bump _ s"] files_inv_bump(1) [OF assms(2)] assms(2)
      fviewD(3) [of t s] fviewD(3) [of t "bump _ s"] files_of_same by (metis fkern_bump(1))
  from e show ?thesis
  proof
    assume "\<exists>s3 d. (if ?flags AND O_TRUNC \<noteq> 0 then c_assert (p \<noteq> None) (let i = the p in write_inode i (?trunc i s2)) else Inr s2) = Inr s3 \<and>
      first_none (map fd_inode (file_desc_table s3)) 0 = Some d \<and> (s' = s3 \<or> (\<exists>i. p = Some i \<and> connect_file fd d i ?flags s3 = Inr s'))"
    then obtain s3 d where s3: "(if ?flags AND O_TRUNC \<noteq> 0 then c_assert (p \<noteq> None) (let i = the p in write_inode i (?trunc i s2)) else Inr s2) = Inr s3"
      "first_none (map fd_inode (file_desc_table s3)) 0 = Some d" "s' = s3 \<or> (\<exists>i. p = Some i \<and> connect_file fd d i ?flags s3 = Inr s')" by blast
    have tr: "fview t = fview s2" if "write_inode i (?trunc i s2) = Inr t" for i t
      using tview_fview [OF write_inode_view [OF that]] by (simp add: fview_upd_inode)
    have v3: "fview s3 = fview s2" using s3(1) by (auto simp: Let_def outcome_iffs split: if_split_asm dest: tr)
    from s3(3) show ?thesis
    proof
      assume "\<exists>i. p = Some i \<and> connect_file fd d i ?flags s3 = Inr s'"
      then obtain i where i: "p = Some i" "connect_file fd d i ?flags s3 = Inr s'" by blast
      have v: "fview s3 = fview (bump i s)" "i < length (inode_table s)" using v2 v3 i(1) by auto
      have d: "d < length (file_desc_table s3)" "fd_inode (file_desc_table s3 ! d) = None" using first_none_SomeD [OF s3(2)] by auto
      have "open_refs (file_desc_table s3) i < inode_cnt (inode_table s3 ! i)"
        using files_inv_bump(2) [OF assms(2) v(2)] fviewD(5) [OF v(1)] v open_refs_view [of "file_desc_table s3" "file_desc_table (bump i s)"]
        by (simp add: fview_def)
      moreover have "files_ok s3" using ok v(1) by blast
      ultimately have "files_ok s' \<and> files_of c (fkern s3) (fkern s')"
        using connect_file_ok [OF i(2)] d v fviewD [OF v(1)] fd assms(3-5) by simp
      then show ?thesis using fviewD(3) [OF v(1)] files_of_cong [of c "fkern s3" "fkern s'" "fkern s" "fkern s'"] by simp
    qed (use ok v2 v3 in metis)
  qed (use ok v2 in metis)
qed

lemma do_close_ok:
  assumes "do_close s = Inr (v, s')" "files_ok s" "c = caller_proc s" "0 \<le> c" "c < int (length (proc_table (fkern s)))"
  shows "files_ok s' \<and> files_of c (fkern s) (fkern s')"
proof -
  let ?fd = "FD (fs_msg s)"
  have P: "proc_table (fkern s) ! nat c = proc_at (fkern s) c" using assms(4, 5) by (simp add: proc_at_def)
  from assms(1) obtain d s1 where d: "caller_fd ?fd s = Inr d" "put_inode (fd_inode (file_desc_table s ! d)) s = Inr s1"
    by (auto simp: do_close_def Let_def elim!: obind_InrE)
  from d(1) have fd: "nat ?fd < length (file_desc (proc_table (fkern s) ! nat c))" "file_desc (proc_table (fkern s) ! nat c) ! nat ?fd = Some d"
    unfolding P unfolding assms(3) by (auto simp: caller_fd_def Let_def deref_def split: if_split_asm option.split_asm)
  from put_inode_view [OF d(2)] obtain i where i: "fd_inode (file_desc_table s ! d) = Some i"
    "s1 = upd_inode i (\<lambda>p. p\<lparr>inode_cnt := inode_cnt p - 1\<rparr>) s" by blast
  have s': "s' = set_file_desc c (nat ?fd) None (drop_ref d i s)"
    using assms(1, 3) d i by (simp add: do_close_def Let_def drop_ref_def)
  note rc = refs_clear [OF assms(4, 5) fd]
  have "refs (fkern s') = (refs (fkern s))(d := refs (fkern s) d - 1)"
    using refs_clear(1) [of c "drop_ref d i s" "nat ?fd" d] assms(4, 5) fd by (simp add: s')
  then have "files_ok s'" using drop_ref_inv [OF assms(2) rc(2) i(1)] by (simp add: s')
  moreover have "files_of c (fkern s) (fkern s')"
    unfolding files_of_def s' using file_desc_set [of c "drop_ref d i s" "nat ?fd" None] assms(4, 5) by auto
  ultimately show ?thesis ..
qed

section \<open>A turn of the file system\<close>

text \<open>What the choice of a number for a new file depends on. A lookup on the disk does not change it.\<close>

definition disk_view :: "fs \<Rightarrow> (inode list \<times> nat option \<times> super_block list) \<times> (u32 \<Rightarrow> mem) \<times> part_info list \<times> part_info list \<times> u32 \<times> kernel" where
  "disk_view s = ((inode_table s, root_inode s, super_block_table s), media (drive (hds s)), primary (hds s), logical (hds s),
     hdbuf (hds s), (fkern s)\<lparr>kmem := (\<lambda>_. 0)\<rparr>)"

definition fresh_numbers :: "fs \<Rightarrow> bool" where
  "fresh_numbers s \<longleftrightarrow> (\<forall>s'. disk_view s' = disk_view s \<longrightarrow> fresh_number s')"

lemma hd_transfer_read_view:
  "hd_transfer DEV_READ n la s = Inr s' \<Longrightarrow> media (drive s') = media (drive s) \<and> primary s' = primary s \<and> logical s' = logical s \<and>
     hdbuf s' = hdbuf s \<and> (kern s')\<lparr>kmem := (\<lambda>_. 0)\<rparr> = (kern s)\<lparr>kmem := (\<lambda>_. 0)\<rparr>"
proof (induction "DEV_READ" n la s rule: hd_transfer.induct)
  case (1 n la s)
  show ?case
  proof (cases "n = 0")
    case True
    with "1.prems" show ?thesis by (subst (asm) hd_transfer.simps) simp
  next
    case False
    let ?s1 = "read_hdbuf s"
    from "1.prems" False obtain src where r: "xfer_left (drive s) \<noteq> 0" "proc_va2la (kern ?s1) TASK_HD (hdbuf ?s1) = Inr src"
      "hd_transfer DEV_READ (s32 (n - SECTOR_SIZE)) (la + 512) (upd_mem (\<lambda>mm. phys_copy mm la src (word_of_int (min SECTOR_SIZE n))) ?s1) = Inr s'"
      by (subst (asm) hd_transfer.simps) (auto simp: Let_def split: if_split_asm sum.split_asm)
    from "1.hyps"(1) [OF False refl refl r(1) refl r(2, 3)] show ?thesis by (simp add: read_hdbuf_def upd_mem_def ata_next_def)
  qed
qed

lemma RD_SECT_disk_view:
  assumes "RD_SECT dev pos s = Inr s'" "GET_DEV_MAJOR_NR dev = 3"
  shows "disk_view s' = disk_view s"
proof -
  have "driver_of dev = Inr TASK_HD" using assms(2) by (simp add: driver_of_def dev_drv_map_def)
  with assms(1) obtain h h1 n la where "s' = s\<lparr>hds := h\<rparr>" "h1 = (hds s)\<lparr>drive := ata_command (rw_cmd 0x20 (sector_count SECTOR_SIZE) n) (drive (hds s))\<rparr>"
    "hd_transfer DEV_READ SECTOR_SIZE la h1 = Inr h"
    by (auto simp: RD_SECT_def RD_SECTS_def rd_wr_sector_def drv_call_def task_hd_round_def hd_read_write_def hd_cmd_out_def Let_def outcome_iffs
        split: if_split_asm)
  with hd_transfer_read_view [of SECTOR_SIZE la h1 h] show ?thesis by (simp add: disk_view_def ata_command_def)
qed

lemma lookup_loop_disk_view:
  "lookup_loop dev sect0 nm k n i e s = Inr (r, s') \<Longrightarrow> GET_DEV_MAJOR_NR dev = 3 \<Longrightarrow> disk_view s' = disk_view s"
  by (induction n arbitrary: i e s)
    (fastforce elim!: obind_InrE split: prod.split_asm option.split_asm if_split_asm dest!: RD_SECT_disk_view)+

definition root_on_disk :: "fs \<Rightarrow> bool" where
  "root_on_disk s \<longleftrightarrow> (\<forall>r. root_inode s = Some r \<longrightarrow> GET_DEV_MAJOR_NR (inode_dev (inode_table s ! r)) = 3)"

lemma lookup_disk_view: "get_file_inode_nr path s = Inr (nr, s') \<Longrightarrow> root_on_disk s \<Longrightarrow> disk_view s' = disk_view s"
  by (auto simp: get_file_inode_nr_def Let_def root_on_disk_def deref_def elim!: obind_InrE split: option.split_asm if_split_asm
      dest!: lookup_loop_disk_view)

definition user_request :: "message \<Rightarrow> bool" where
  "user_request m \<longleftrightarrow> type m \<in> {FS_OPEN, FS_CLOSE, FS_READ, FS_WRITE, FS_LSEEK, FS_STAT, FS_UNLINK, RESUME_PROC}"

text \<open>A request may create a file only where the numbers of new files are fresh.\<close>

definition may_create :: "message \<Rightarrow> fs \<Rightarrow> bool" where
  "may_create m s \<longleftrightarrow> type m = FS_OPEN \<and> FLAGS m AND O_CREAT \<noteq> 0 \<longrightarrow> root_on_disk s \<and> fresh_numbers s"

lemma set_replyE:
  assumes "set_reply f r = Inr s"
  obtains v t where "r = Inr (v, t)" "fview s = fview t"
  using assms by (auto simp: set_reply_def elim!: obind_InrE)

lemma fs_turn_ok:
  assumes "task_fs_round m s = Inr (r, s')" "user_request m" "may_create m s" "files_ok s"
    and "0 \<le> source m" "source m < int (length (proc_table (fkern s)))"
  shows "files_ok s' \<and> files_of (source m) (fkern s) (fkern s')"
proof -
  let ?s = "s\<lparr>fs_msg := m, caller_proc := source m\<rparr>"
  from assms(1) obtain s1 where s1: "fs_dispatch (type m) ?s = Inr s1" "fview s' = fview s1"
    unfolding task_fs_round_def by (auto simp: Let_def elim!: obind_InrE split: if_split_asm)
  have ok: "files_ok ?s" using assms(4) by simp
  have view: "files_ok t \<and> files_of (source m) (fkern s) (fkern t)" if "fview t = fview ?s \<or> (\<exists>i. fview t = fview (bump i ?s))" for t
    using that files_ok_view [of t ?s] files_ok_view [of t "bump _ ?s"] files_inv_bump(1) [OF ok] ok
      fviewD(3) [of t ?s] fviewD(3) [of t "bump _ ?s"] files_of_same by (metis fkern_bump(1) fs.select_convs(1) fs.surjective fs.update_convs)
  have "disk_view ?s = disk_view s" "root_on_disk ?s = root_on_disk s" by (simp_all add: disk_view_def root_on_disk_def)
  with assms(3) lookup_disk_view [of _ ?s] have fresh: "fresh_number t"
    if "get_file_inode_nr path ?s = Inr (nr, t)" "FLAGS (fs_msg ?s) AND O_CREAT \<noteq> 0" "type m = FS_OPEN" for path nr t
    using that by (simp add: may_create_def fresh_numbers_def)
  have "\<exists>t. fview s1 = fview t \<and> files_ok t \<and> files_of (source m) (fkern s) (fkern t)"
  proof -
    from assms(2) consider "type m = FS_OPEN" | "type m = FS_CLOSE" | "type m = FS_READ \<or> type m = FS_WRITE" | "type m = FS_LSEEK" |
      "type m = FS_STAT" | "type m = FS_UNLINK" | "type m = RESUME_PROC" by (auto simp: user_request_def)
    then show ?thesis
    proof cases
      case 1
      with s1(1) obtain v t where "do_open ?s = Inr (v, t)" "fview s1 = fview t" by (auto simp: fs_dispatch_def elim!: set_replyE)
      with do_open_ok [of ?s v t "source m"] fresh 1 ok assms(5, 6) show ?thesis by auto
    next
      case 2
      with s1(1) obtain v t where "do_close ?s = Inr (v, t)" "fview s1 = fview t" by (auto simp: fs_dispatch_def elim!: set_replyE)
      with do_close_ok [of ?s v t "source m"] ok assms(5, 6) show ?thesis by auto
    next
      case 3
      with s1(1) obtain v t where "do_read_write ?s = Inr (v, t)" "fview s1 = fview t" by (auto simp: fs_dispatch_def elim!: set_replyE)
      with do_read_write_view view show ?thesis by blast
    next
      case 4
      with s1(1) obtain v t where "do_lseek ?s = Inr (v, t)" "fview s1 = fview t" by (auto simp: fs_dispatch_def elim!: set_replyE)
      with do_lseek_view view show ?thesis by blast
    next
      case 5
      with s1(1) obtain v t where "do_stat ?s = Inr (v, t)" "fview s1 = fview t" by (auto simp: fs_dispatch_def elim!: set_replyE)
      with do_stat_view view show ?thesis by blast
    next
      case 6
      with s1(1) obtain v t where "do_unlink ?s = Inr (v, t)" "fview s1 = fview t" by (auto simp: fs_dispatch_def elim!: set_replyE)
      with do_unlink_view view show ?thesis by blast
    next
      case 7
      with s1(1) have "s1 = ?s" by (simp add: fs_dispatch_def)
      with view [of ?s] show ?thesis by blast
    qed
  qed
  then obtain t where t: "fview s1 = fview t" "files_ok t \<and> files_of (source m) (fkern s) (fkern t)" by blast
  note t(2)
  moreover have "fview s' = fview t" using t(1) s1(2) by simp
  ultimately show ?thesis using files_ok_view [of s' t] fviewD(3) [of s' t] files_of_cong [of "source m" "fkern s" "fkern t" "fkern s"] by simp
qed

end
