(* ===== verification/PmLife.thy ===== *)
theory PmLife
  imports Pm FsFiles
begin

text \<open>
  The life of a process: what fork, exit and wait do to the process table, the messages and the open files.
  Exit and wait meet in either order with the same result; a forked child is a copy with its own memory and a
  share in the open files.
\<close>

unbundle bit_operations_syntax

section \<open>Process table updates\<close>

lemma upd_proc_commute:
  assumes "a \<noteq> b"
  shows "upd_proc a f (upd_proc b g k) = upd_proc b g (upd_proc a f k)"
proof -
  have "nat a \<noteq> nat b" if "0 \<le> a" "0 \<le> b" using assms that by auto
  then show ?thesis using assms
    by (auto simp: upd_proc_def put_proc_def proc_at_def list_update_swap fun_upd_twist)
qed

lemma upd_proc_table [simp]:
  "length (proc_table (upd_proc pid f k)) = length (proc_table k)" "kmem (upd_proc pid f k) = kmem k"
  by (simp_all add: upd_proc_def put_proc_def)

lemma upd_pproc_simps [simp]:
  "pkern (upd_pproc pid f s) = upd_proc pid f (pkern s)" "pm_sent (upd_pproc pid f s) = pm_sent s"
  "pm_msg (upd_pproc pid f s) = pm_msg s" "memory_size (upd_pproc pid f s) = memory_size s"
  "files_inv R (pfs (upd_pproc pid f s)) = files_inv R (pfs s)"
  by (simp_all add: upd_pproc_def upd_pkern_def)

lemma pm_send_simps [simp]:
  "pfs (pm_send dest m s) = pfs s" "pm_sent (pm_send dest m s) = pm_sent s @ [(dest, m\<lparr>source := TASK_PM\<rparr>)]"
  "pm_msg (pm_send dest m s) = pm_msg s"
  by (simp_all add: pm_send_def)

lemma refs_upd_proc [simp]:
  assumes "\<And>P. file_desc (f P) = file_desc P"
  shows "refs (upd_proc pid f k) = refs k"
proof -
  have "users (upd_proc pid f k) d = users k d" for d
    using assms by (auto simp: users_def upd_proc_def put_proc_def proc_at_def nth_list_update split: if_splits)
  then show ?thesis by (simp add: fun_eq_iff refs_def)
qed

lemma all_slots_set [simp]: "set all_slots = {0..<37}"
proof -
  have "set all_slots = int ` {0..<37}" by (simp add: all_slots_def)
  then show ?thesis by (simp add: image_int_atLeastLessThan)
qed

section \<open>Waiting for a child\<close>

abbreviation hangs :: "kernel \<Rightarrow> int \<Rightarrow> bool" where
  "hangs k i \<equiv> proc_state (proc_at k i) AND HANGING \<noteq> 0"

lemma wait_scan_hanging:
  assumes "c \<in> set is" "p_parent (proc_at k c) = pid" "hangs k c"
    and "\<forall>i \<in> set is. p_parent (proc_at k i) = pid \<and> hangs k i \<longrightarrow> i = c"
  shows "wait_scan is pid k h = (True, Some c)"
  using assms
proof (induction "is" arbitrary: h)
  case (Cons i "is")
  show ?case
  proof (cases "p_parent (proc_at k i) = pid \<and> hangs k i")
    case True
    with Cons.prems(4) show ?thesis by simp
  next
    case False
    with Cons.prems(1-3) have "c \<in> set is" by auto
    from Cons.IH [OF this Cons.prems(2, 3)] Cons.prems(4) False show ?thesis by simp
  qed
qed simp

lemma wait_scan_none:
  "\<forall>i \<in> set is. p_parent (proc_at k i) = pid \<longrightarrow> \<not> hangs k i \<Longrightarrow>
   wait_scan is pid k h = (h \<or> (\<exists>i \<in> set is. p_parent (proc_at k i) = pid), None)"
  by (induction "is" arbitrary: h) auto

lemma reparent_none: "\<forall>i \<in> set is. p_parent (proc_at (pkern s) i) \<noteq> pid \<Longrightarrow> reparent is pid s = s"
  by (induction "is") auto

lemma or_and_absorb: "(x OR w) AND w = (w :: u32)"
  by (auto simp: bit_eq_iff bit_simps)

lemma state_bits: "(x OR WAITING) AND WAITING \<noteq> 0" "(x OR HANGING) AND HANGING \<noteq> 0" for x :: u32
  by (simp_all only: or_and_absorb) simp_all

lemma state_clear:
  assumes "x AND w = 0"
  shows "(x OR w) AND NOT w = (x :: u32)"
proof (rule bit_eqI)
  fix n
  have "\<not> (bit x n \<and> bit w n)" using assms by (metis bit_and_iff bit_0_eq bot_apply bot_bool_def)
  then show "bit ((x OR w) AND NOT w) n = bit x n" if "possible_bit TYPE(u32) n" using that by (auto simp: bit_simps)
qed

text \<open>The file system closes the files of a process that exits.\<close>

lemma pm_exit_call:
  assumes "files_ok (pfs s)" "0 \<le> pid" "pid < int (length (proc_table (pkern s)))"
  shows "\<exists>r s'. pm_call (fs_call TASK_PM (zero_msg\<lparr>type := EXIT, PID := pid\<rparr>)) s = Inr (r, s') \<and> files_ok (pfs s') \<and>
    pkern s' = upd_proc pid (\<lambda>P. P\<lparr>file_desc := map (\<lambda>_. None) (file_desc P)\<rparr>) (pkern s) \<and>
    pm_sent s' = pm_sent s \<and> pm_msg s' = pm_msg s"
  using fs_exit_turn [OF assms, of TASK_PM] by (auto simp: pm_call_def fs_call_def)

section \<open>Exit\<close>

definition wait_msg :: "int \<Rightarrow> message" where
  "wait_msg pid = zero_msg\<lparr>source := pid, type := WAIT\<rparr>"

definition exit_msg :: "int \<Rightarrow> int \<Rightarrow> message" where
  "exit_msg pid status = zero_msg\<lparr>source := pid, type := EXIT, STATUS := status\<rparr>"

text \<open>A process that has exited: its files closed, its status kept, its state \<open>st\<close>.\<close>

definition gone :: "int \<Rightarrow> (u32 \<Rightarrow> u32) \<Rightarrow> proc \<Rightarrow> proc" where
  "gone status st P = P\<lparr>file_desc := map (\<lambda>_. None) (file_desc P), exit_status := status, proc_state := st (proc_state P)\<rparr>"

lemma gone_fun: "gone status st = (\<lambda>P. P\<lparr>file_desc := map (\<lambda>_. None) (file_desc P), exit_status := status, proc_state := st (proc_state P)\<rparr>)"
  by (simp add: fun_eq_iff gone_def)

definition exit_notice :: "int \<Rightarrow> int \<Rightarrow> message" where
  "exit_notice pid status = zero_msg\<lparr>source := TASK_PM, type := SYSCALL_RET, PID := pid, STATUS := status\<rparr>"

lemma pm_exit:
  assumes "files_ok (pfs s)" "length (proc_table (pkern s)) = 37" "0 \<le> c" "c < 37"
    and "p = p_parent (proc_at (pkern s) c)" "\<forall>i \<in> {0..<37}. p_parent (proc_at (pkern s) i) \<noteq> c"
  shows "\<exists>s'. task_pm_round (exit_msg c st) s = Inr s' \<and> files_ok (pfs s') \<and>
    (if proc_state (proc_at (pkern s) p) AND WAITING \<noteq> 0
     then pkern s' = upd_proc c (gone st (\<lambda>_. FREE_SLOT)) (upd_proc p (\<lambda>P. P\<lparr>proc_state := proc_state P AND NOT WAITING\<rparr>) (pkern s)) \<and>
       pm_sent s' = pm_sent s @ [(p, exit_notice c st)]
     else pkern s' = upd_proc c (gone st (\<lambda>w. w OR HANGING)) (pkern s) \<and> pm_sent s' = pm_sent s)"
proof -
  let ?s = "s\<lparr>pm_msg := exit_msg c st\<rparr>"
  have cp: "c \<noteq> p" using assms(6) [THEN bspec, of c] assms(3-5) by simp
  obtain r s1 where s1: "pm_call (fs_call TASK_PM (zero_msg\<lparr>type := EXIT, PID := c\<rparr>)) ?s = Inr (r, s1)" "files_ok (pfs s1)"
    "pkern s1 = upd_proc c (\<lambda>P. P\<lparr>file_desc := map (\<lambda>_. None) (file_desc P)\<rparr>) (pkern s)" "pm_sent s1 = pm_sent s"
    using pm_exit_call [of ?s c] assms(1-4) by auto
  let ?s2 = "upd_pproc c (\<lambda>P. P\<lparr>exit_status := st\<rparr>) s1"
  let ?s3 = "if proc_state (proc_at (pkern ?s2) p) AND WAITING \<noteq> 0
     then proc_cleanup c (upd_pproc p (\<lambda>P. P\<lparr>proc_state := proc_state P AND NOT WAITING\<rparr>) ?s2)
     else upd_pproc c (\<lambda>P. P\<lparr>proc_state := proc_state P OR HANGING\<rparr>) ?s2"
  have "reparent all_slots c ?s3 = ?s3"
    using assms(6) s1(3) by (intro reparent_none) (auto simp: proc_cleanup_def Let_def)
  moreover have "task_pm_round (exit_msg c st) s = Inr (reparent all_slots c ?s3)"
    using s1(1) unfolding assms(5) by (simp add: task_pm_round_def do_exit_def exit_msg_def Let_def del: upd_pproc_simps)
  ultimately have "task_pm_round (exit_msg c st) s = Inr ?s3" by (simp only:)
  moreover have "files_ok (pfs ?s3)" using s1(2) by (simp add: proc_cleanup_def Let_def)
  moreover have "pkern ?s3 = (if proc_state (proc_at (pkern s) p) AND WAITING \<noteq> 0
     then upd_proc c (gone st (\<lambda>_. FREE_SLOT)) (upd_proc p (\<lambda>P. P\<lparr>proc_state := proc_state P AND NOT WAITING\<rparr>) (pkern s))
     else upd_proc c (gone st (\<lambda>w. w OR HANGING)) (pkern s))"
    using cp by (simp add: s1(3) proc_cleanup_def Let_def gone_fun upd_proc_twice upd_proc_commute [of p c])
  moreover have "pm_sent ?s3 = (if proc_state (proc_at (pkern s) p) AND WAITING \<noteq> 0
     then pm_sent s @ [(p, exit_notice c st)] else pm_sent s)"
    using cp assms(5) by (simp add: s1(3, 4) proc_cleanup_def Let_def exit_notice_def)
  ultimately show ?thesis by (cases "proc_state (proc_at (pkern s) p) AND WAITING \<noteq> 0") simp_all
qed

lemma pm_wait_blocks:
  assumes "0 \<le> c" "c < 37" "p_parent (proc_at (pkern s) c) = p"
    and "\<forall>i \<in> {0..<37}. p_parent (proc_at (pkern s) i) = p \<longrightarrow> \<not> hangs (pkern s) i"
  shows "task_pm_round (wait_msg p) s = Inr (upd_pproc p (\<lambda>P. P\<lparr>proc_state := proc_state P OR WAITING\<rparr>) (s\<lparr>pm_msg := wait_msg p\<rparr>))"
proof -
  have "wait_scan all_slots p (pkern s) False = (True, None)" using wait_scan_none [of all_slots "pkern s" p False] assms by auto
  then show ?thesis by (simp add: task_pm_round_def do_wait_def wait_msg_def Let_def)
qed

lemma pm_wait_takes:
  assumes "0 \<le> c" "c < 37" "p_parent (proc_at (pkern s) c) = p" "hangs (pkern s) c"
    and "\<forall>i \<in> {0..<37}. p_parent (proc_at (pkern s) i) = p \<and> hangs (pkern s) i \<longrightarrow> i = c"
  shows "task_pm_round (wait_msg p) s = Inr (proc_cleanup c (s\<lparr>pm_msg := wait_msg p\<rparr>))"
proof -
  have "wait_scan all_slots p (pkern s) False = (True, Some c)"
  proof (rule wait_scan_hanging [OF _ assms(3, 4)])
    show "c \<in> set all_slots" using assms(1, 2) by simp
  qed (simp only: all_slots_set, rule assms(5))
  then show ?thesis by (simp add: task_pm_round_def do_wait_def wait_msg_def Let_def)
qed

text \<open>C34: Exit and wait meet in any order. Let a child without children exit and its parent, with no other dead
  child, wait for it. Whether the parent waits first or the child exits first, both requests succeed, the first one
  sends no message, the second one sends the parent exactly one, with the child's number and exit status; the
  process tables are then the same: the child's slot is free, its files are closed and the parent no longer
  waits. The open file counts stay consistent.\<close>

theorem exit_wait_any_order:
  assumes "files_ok (pfs s)" and "length (proc_table (pkern s)) = 37" and "0 \<le> p" and "p < 37" and "0 \<le> c" and "c < 37"
    and "p_parent (proc_at (pkern s) c) = p" and "\<forall>i \<in> {0..<37}. p_parent (proc_at (pkern s) i) \<noteq> c"
    and "\<forall>i \<in> {0..<37}. p_parent (proc_at (pkern s) i) = p \<longrightarrow> \<not> hangs (pkern s) i"
    and "proc_state (proc_at (pkern s) p) AND WAITING = 0"
  shows "\<exists>a1 a2 b1 b2. task_pm_round (wait_msg p) s = Inr a1 \<and> task_pm_round (exit_msg c st) a1 = Inr a2 \<and>
    task_pm_round (exit_msg c st) s = Inr b1 \<and> task_pm_round (wait_msg p) b1 = Inr b2 \<and>
    pm_sent a1 = pm_sent s \<and> pm_sent b1 = pm_sent s \<and> pm_sent a2 = pm_sent s @ [(p, exit_notice c st)] \<and> pm_sent b2 = pm_sent a2 \<and>
    pkern a2 = upd_proc c (gone st (\<lambda>_. FREE_SLOT)) (pkern s) \<and> pkern b2 = pkern a2 \<and> files_ok (pfs a2) \<and> files_ok (pfs b2)"
proof -
  have cp: "c \<noteq> p" using assms(8) [THEN bspec, of c] assms(5-7) by simp
  let ?a1 = "upd_pproc p (\<lambda>P. P\<lparr>proc_state := proc_state P OR WAITING\<rparr>) (s\<lparr>pm_msg := wait_msg p\<rparr>)"
  have a1: "task_pm_round (wait_msg p) s = Inr ?a1" by (rule pm_wait_blocks [OF assms(5-7, 9)])
  have pre: "files_ok (pfs ?a1)" "length (proc_table (pkern ?a1)) = 37" "proc_state (proc_at (pkern ?a1) p) AND WAITING \<noteq> 0"
    using assms(1, 2) by (simp_all add: or_and_absorb)
  have eq: "p_parent (proc_at (pkern ?a1) i) = p_parent (proc_at (pkern s) i)" for i by simp
  have par: "p = p_parent (proc_at (pkern ?a1) c)" "\<forall>i \<in> {0..<37}. p_parent (proc_at (pkern ?a1) i) \<noteq> c"
    unfolding eq by (rule assms(7) [symmetric], rule assms(8))
  obtain a2 where a2: "task_pm_round (exit_msg c st) ?a1 = Inr a2" "files_ok (pfs a2)" "pm_sent a2 = pm_sent ?a1 @ [(p, exit_notice c st)]"
    "pkern a2 = upd_proc c (gone st (\<lambda>_. FREE_SLOT)) (upd_proc p (\<lambda>P. P\<lparr>proc_state := proc_state P AND NOT WAITING\<rparr>) (pkern ?a1))"
    using pm_exit [OF pre(1, 2) assms(5, 6) par, of st] unfolding if_P [OF pre(3)] by (elim exE conjE)
  have "upd_proc p (\<lambda>P. P\<lparr>proc_state := proc_state P AND NOT WAITING\<rparr>) (pkern ?a1) = pkern s"
    using assms(2-4) state_clear [OF assms(10)] by (simp add: upd_proc_twice upd_proc_same)
  then have ka: "pkern a2 = upd_proc c (gone st (\<lambda>_. FREE_SLOT)) (pkern s)" using a2(4) by simp
  obtain b1 where b1: "task_pm_round (exit_msg c st) s = Inr b1" "files_ok (pfs b1)" "pm_sent b1 = pm_sent s"
    "pkern b1 = upd_proc c (gone st (\<lambda>w. w OR HANGING)) (pkern s)"
    using pm_exit [OF assms(1, 2, 5, 6) assms(7) [symmetric] assms(8), of st] assms(10) by auto
  let ?b2 = "proc_cleanup c (b1\<lparr>pm_msg := wait_msg p\<rparr>)"
  have b2: "task_pm_round (wait_msg p) b1 = Inr ?b2"
    using assms(5-7, 9) cp by (intro pm_wait_takes) (auto simp: b1(4) gone_def state_bits split: if_splits)
  have "files_ok (pfs ?b2)" using b1(2) by (simp add: proc_cleanup_def Let_def)
  moreover have "pkern ?b2 = upd_proc c (gone st (\<lambda>_. FREE_SLOT)) (pkern s)"
    by (simp add: proc_cleanup_def Let_def b1(4) upd_proc_twice gone_fun)
  moreover have "pm_sent ?b2 = pm_sent s @ [(p, exit_notice c st)]"
    using assms(7) by (simp add: proc_cleanup_def Let_def b1(3, 4) gone_def exit_notice_def)
  moreover have "pm_sent ?a1 = pm_sent s" by simp
  ultimately show ?thesis using a1 a2(1-3) b1(1, 3) b2 ka
    by (intro exI [of _ ?a1] exI [of _ a2] exI [of _ b1] exI [of _ ?b2] conjI) (simp_all only:)
qed

text \<open>C37: A parent that waits again after its child is gone. \<^verbatim>\<open>do_wait\<close> counts the free slot of a former child,
  because \<^verbatim>\<open>p_parent\<close> is still set there: the request is not answered with \<^verbatim>\<open>NO_TASK\<close>, the parent is marked as
  waiting although it has no child. A process that never had one gets the answer.\<close>

theorem stale_child_blocks_wait:
  assumes "0 \<le> c" and "c < 37" and "p_parent (proc_at (pkern s) c) = p" and "proc_state (proc_at (pkern s) c) = FREE_SLOT"
    and "\<forall>i \<in> {0..<37}. p_parent (proc_at (pkern s) i) = p \<longrightarrow> i = c" and "\<forall>i \<in> {0..<37}. p_parent (proc_at (pkern s) i) \<noteq> q"
  shows "\<exists>s1 s2. task_pm_round (wait_msg p) s = Inr s1 \<and> pm_sent s1 = pm_sent s \<and> proc_state (proc_at (pkern s1) p) AND WAITING \<noteq> 0 \<and>
    task_pm_round (wait_msg q) s = Inr s2 \<and> pm_sent s2 = pm_sent s @ [(q, zero_msg\<lparr>source := TASK_PM, PID := NO_TASK\<rparr>)] \<and> pkern s2 = pkern s"
proof -
  have hang: "\<not> hangs (pkern s) c" using assms(4) by simp
  have "\<forall>i \<in> {0..<37}. p_parent (proc_at (pkern s) i) = p \<longrightarrow> \<not> hangs (pkern s) i"
  proof (intro ballI impI)
    fix i assume i: "i \<in> {0..<37}" "p_parent (proc_at (pkern s) i) = p"
    with assms(5) have "i = c" by blast
    with hang show "\<not> hangs (pkern s) i" by simp
  qed
  from pm_wait_blocks [OF assms(1-3) this]
  have 1: "task_pm_round (wait_msg p) s = Inr (upd_pproc p (\<lambda>P. P\<lparr>proc_state := proc_state P OR WAITING\<rparr>) (s\<lparr>pm_msg := wait_msg p\<rparr>))" .
  have "wait_scan all_slots q (pkern s) False = (False, None)" using wait_scan_none [of all_slots "pkern s" q False] assms(6) by simp
  then have 2: "task_pm_round (wait_msg q) s = Inr (pm_send q (zero_msg\<lparr>source := SYSCALL_RET, PID := NO_TASK\<rparr>) (s\<lparr>pm_msg := wait_msg q\<rparr>))"
    by (simp add: task_pm_round_def do_wait_def wait_msg_def Let_def)
  show ?thesis unfolding 1 2 by (simp add: or_and_absorb)
qed

section \<open>Memory of processes\<close>

text \<open>C36: Every process above the native ones gets memory of its own: what \<^verbatim>\<open>alloc_mem\<close> returns for two different
  processes are areas that do not overlap, above all buffers and inside the memory of the machine; it succeeds
  whenever the size is at most one megabyte and the area ends below the end of memory.\<close>

theorem process_memory_disjoint:
  assumes "p \<ge> 9" and "q \<ge> 9" and "p \<noteq> q" and "0 \<le> n" and "n \<le> PROC_SIZE" and "0 \<le> k" and "k \<le> PROC_SIZE"
    and "PROC_BASE + (p - 9) * PROC_SIZE + n < mem_size" and "PROC_BASE + (q - 9) * PROC_SIZE + k < mem_size"
  shows "\<exists>a b. alloc_mem mem_size p n = Inr a \<and> alloc_mem mem_size q k = Inr b \<and> {a..<a + n} \<inter> {b..<b + k} = {} \<and>
    PROC_BASE \<le> a \<and> PROC_BASE \<le> b \<and> a + n < mem_size \<and> b + k < mem_size"
proof -
  have slot_mono: "(x - 9) * PROC_SIZE + PROC_SIZE \<le> (y - 9) * PROC_SIZE" if "x < y" for x y
    using mult_right_mono [of "x - 9 + 1" "y - 9" PROC_SIZE] that by (simp add: algebra_simps)
  let ?a = "PROC_BASE + (p - 9) * PROC_SIZE" and ?b = "PROC_BASE + (q - 9) * PROC_SIZE"
  have "?a + n \<le> ?b \<or> ?b + k \<le> ?a" 
  proof (cases "p < q")
    case True
    then show ?thesis using slot_mono [of p q] assms(5) by linarith
  next
    case False
    then show ?thesis using slot_mono [of q p] assms(3, 7) by linarith
  qed
  then have "{?a..<?a + n} \<inter> {?b..<?b + k} = {}" by auto
  then show ?thesis using assms by (simp add: alloc_mem_def Let_def)
qed

section \<open>Fork\<close>

definition fork_msg :: "int \<Rightarrow> message" where
  "fork_msg pid = zero_msg\<lparr>source := pid, type := FORK\<rparr>"

lemma find_free_slot_SomeD:
  "find_free_slot ps i = Some c \<Longrightarrow> i \<le> c \<and> c < i + length ps \<and> proc_state (ps ! (c - i)) = FREE_SLOT"
proof (induction ps arbitrary: i)
  case (Cons P ps)
  then show ?case by (cases "proc_state P = FREE_SLOT") (fastforce simp: nth_Cons' Suc_le_eq)+
qed simp

lemma find_free_slot_first:
  "c < length ps \<Longrightarrow> proc_state (ps ! c) = FREE_SLOT \<Longrightarrow> \<forall>j < c. proc_state (ps ! j) \<noteq> FREE_SLOT \<Longrightarrow> find_free_slot ps i = Some (i + c)"
proof (induction ps arbitrary: i c)
  case (Cons P ps)
  show ?case
  proof (cases c)
    case (Suc m)
    with Cons.prems(3) have "\<forall>j < m. proc_state (ps ! j) \<noteq> FREE_SLOT" "proc_state P \<noteq> FREE_SLOT" by fastforce+
    with Cons.IH [of m "i + 1"] Cons.prems(1, 2) Suc show ?thesis by simp
  qed (use Cons.prems in simp)
qed simp

text \<open>Segments as \<^verbatim>\<open>make_gdt_desc\<close> makes them: at most one megabyte in units of 4096 bytes.\<close>

lemma seg_of_desc:
  assumes "unat l < 256" "bit a 15"
  shows "seg_limit (make_gdt_desc b l a) = int (unat l)" "seg_limit_high (make_gdt_desc b l a) = int (unat l)"
    and "seg_size (int (unat l)) (make_gdt_desc b l a) = 4096 * (int (unat l) + 1)"
proof -
  have "take_bit 20 l = l" 
    by (rule word_unat_eq_iff [THEN iffD2]) (use assms(1) in \<open>simp add: unsigned_take_bit_eq take_bit_nat_eq_self\<close>)
  then have d: "desc_limit (make_gdt_desc b l a) = l" using limit_roundtrip [of b l a] by simp
  have "sint l = int (unat l)" using assms(1) by (intro sint_u32_unat) linarith
  then show lim: "seg_limit (make_gdt_desc b l a) = int (unat l)" using d by (simp add: seg_limit_def desc_limit_def)
  have "seg_limit_high (make_gdt_desc b l a) = seg_limit (make_gdt_desc b l a)"
    by (simp add: seg_limit_def seg_limit_high_def reassembly_def)
  with lim show "seg_limit_high (make_gdt_desc b l a) = int (unat l)" by simp
  show "seg_size (int (unat l)) (make_gdt_desc b l a) = 4096 * (int (unat l) + 1)"
  proof -
    have "- 2147483648 \<le> (int m + 1) * 4096" "(int m + 1) * 4096 < 2147483648" if "m < 256" for m using that by auto
    then have "s32 ((int (unat l) + 1) * 4096) = (int (unat l) + 1) * 4096" using assms(1) by (intro s32_id) blast+
    moreover have "limit_high_attr2 (make_gdt_desc b l a) AND 0x80 \<noteq> 0" using granularity_bit assms(2) by blast
    ultimately show ?thesis unfolding seg_size_def by (simp only: if_True not_False_eq_True mult.commute)
  qed
qed

text \<open>The file system counts the child's share in the open files.\<close>

lemma refs_kmem [simp]: "refs (k\<lparr>kmem := m\<rparr>) = refs k"
  by (simp add: fun_eq_iff refs_def users_def)

lemma pm_fork_call:
  assumes "files_ok (pfs s)" "length (proc_table (pkern s)) = 37" "0 \<le> parent" "parent < 37" "0 \<le> c" "c < 37" "c \<noteq> parent"
    and "set (file_desc (proc_at (pkern s) c)) \<subseteq> {None}" "file_desc C = file_desc (proc_at (pkern s) parent)"
  shows "\<exists>r s'. pm_call (fs_call TASK_PM (zero_msg\<lparr>type := FORK, PID := c\<rparr>)) (upd_pmem f (upd_pproc c (\<lambda>_. C) s)) = Inr (r, s') \<and>
    files_ok (pfs s') \<and> pkern s' = pkern (upd_pmem f (upd_pproc c (\<lambda>_. C) s)) \<and> pm_sent s' = pm_sent s \<and> pm_msg s' = pm_msg s"
proof -
  let ?s1 = "upd_pmem f (upd_pproc c (\<lambda>_. C) s)" and ?R = "refs (pkern s)"
  have k1: "pkern ?s1 = (put_proc (pkern s) c C)\<lparr>kmem := f (pmem s)\<rparr>" by (simp add: upd_pmem_def upd_pkern_def upd_proc_def)
  have inv: "files_inv ?R (pfs ?s1)" using assms(1) by (simp add: upd_pmem_def upd_pkern_def)
  have fds: "file_desc C = file_desc (proc_at (pkern ?s1) c)" by (simp add: k1)
  have used: "\<forall>d. Some d \<in> set (file_desc C) \<longrightarrow> 0 < ?R d"
  proof (intro allI impI)
    fix d assume "Some d \<in> set (file_desc C)"
    then obtain i where "i < length (file_desc (proc_at (pkern s) parent))" "file_desc (proc_at (pkern s) parent) ! i = Some d"
      using assms(9) by (metis in_set_conv_nth)
    then show "0 < ?R d" using assms(2-4) by (intro refs_clear(2) [of parent _ i]) (simp_all add: proc_at_def)
  qed
  have cnt: "refs (pkern ?s1) = (\<lambda>d. ?R d + int (count_list (file_desc C) (Some d)))"
    using refs_put_proc [of c "pkern s" C] assms(2, 5, 6, 8) by (simp add: k1 fun_eq_iff)
  from fs_fork_turn [OF inv fds used cnt, of TASK_PM] show ?thesis
    by (auto simp: pm_call_def fs_call_def upd_pmem_def upd_pkern_def)
qed

text \<open>C35: Fork makes a copy. When there is a free slot, the new name fits, and the parent's segments and the memory
  of the machine allow it, a fork request succeeds: the child has the parent's registers, files and state, its own
  segments at its own memory, which holds a copy of the parent's memory; every address of the child is translated
  into that memory. No other process changes, both are told the result, the child with number 0 and the parent
  with the child's number, and the open files count the child as a user.\<close>

theorem fork_makes_copy:
  assumes "files_ok (pfs s)" and "length (proc_table (pkern s)) = 37" and "0 \<le> parent" and "parent < 37"
    and "find_free_slot (proc_table (pkern s)) 0 = Some c" and "9 \<le> c" and "P = proc_at (pkern s) parent"
    and "proc_state P \<noteq> FREE_SLOT" and "set (file_desc (proc_at (pkern s) (int c))) \<subseteq> {None}"
    and "length (name P) + length (i2a (int c) 10) < 15"
    and "ldts P = [make_gdt_desc b l a1, make_gdt_desc b l a2]" and "bit a1 15" and "bit a2 15" and "unat l < 256"
    and "memsize = 4096 * (int (unat l) + 1)" and "base = PROC_BASE + (int c - 9) * PROC_SIZE" and "base + memsize < memory_size s"
    and "apart (word_of_int base) (nat memsize) b (nat memsize)"
  shows "\<exists>s'. task_pm_round (fork_msg parent) s = Inr s' \<and> files_ok (pfs s') \<and>
    proc_at (pkern s') (int c) = P\<lparr>ldt_sel := ldt_sel (proc_at (pkern s) (int c)), p_parent := parent,
      name := name P @ 95 # i2a (int c) 10, ldts := child_ldts (word_of_int base) (ldts P)\<rparr> \<and>
    (\<forall>j. j \<noteq> int c \<longrightarrow> proc_at (pkern s') j = proc_at (pkern s) j) \<and>
    (\<forall>va. proc_va2la (pkern s') (int c) va = Inr (word_of_int base + va)) \<and>
    read_bytes (pmem s') (word_of_int base) (nat memsize) = read_bytes (pmem s) b (nat memsize) \<and>
    pm_sent s' = pm_sent s @ [(int c, zero_msg\<lparr>source := TASK_PM, type := SYSCALL_RET\<rparr>),
      (parent, zero_msg\<lparr>source := TASK_PM, type := SYSCALL_RET, PID := int c\<rparr>)]"
proof -
  have c: "c < 37" "proc_state (proc_at (pkern s) (int c)) = FREE_SLOT"
    using find_free_slot_SomeD [OF assms(5)] assms(2) by (simp_all add: proc_at_def)
  then have ne: "int c \<noteq> parent" using assms(7, 8) by auto
  let ?s = "s\<lparr>pm_msg := fork_msg parent\<rparr>"
  let ?C = "child_proc parent (int c) (pkern s)"
  let ?C' = "?C\<lparr>ldts := child_ldts (word_of_int base) (ldts ?C)\<rparr>"
  let ?f = "\<lambda>mm. phys_copy mm (word_of_int base) b (word_of_int memsize)"
  have C: "ldts ?C = [make_gdt_desc b l a1, make_gdt_desc b l a2]" "length (name ?C) < 16" "file_desc ?C' = file_desc P"
    using assms(7, 10, 11) by (simp_all add: child_proc_def Let_def)
  have sz: "0 < memsize" "memsize \<le> PROC_SIZE" 
  proof -
    have "0 < 4096 * (int m + 1)" "4096 * (int m + 1) \<le> PROC_SIZE" if "m < 256" for m using that by auto
    from this [OF assms(14)] show "0 < memsize" "memsize \<le> PROC_SIZE" unfolding assms(15) by blast+
  qed
  have alloc: "alloc_mem (memory_size s) (int c) memsize = Inr base"
    using assms(6, 16, 17) sz by (simp add: alloc_mem_def Let_def)
  obtain r s1 where s1: "pm_call (fs_call TASK_PM (zero_msg\<lparr>type := FORK, PID := int c\<rparr>)) (upd_pmem ?f (upd_pproc (int c) (\<lambda>_. ?C') ?s)) = Inr (r, s1)"
    "files_ok (pfs s1)" "pkern s1 = pkern (upd_pmem ?f (upd_pproc (int c) (\<lambda>_. ?C') ?s))" "pm_sent s1 = pm_sent s" "pm_msg s1 = fork_msg parent"
    using pm_fork_call [of ?s parent "int c" ?C' ?f] assms(1-4, 7, 9) c(1) ne C(3) by auto
  have k1: "pkern s1 = (upd_proc (int c) (\<lambda>_. ?C') (pkern s))\<lparr>kmem := ?f (pmem s)\<rparr>"
    using s1(3) by (simp add: upd_pmem_def upd_pkern_def)
  have "do_fork ?s = Inr (0, pm_send (int c) (zero_msg\<lparr>type := SYSCALL_RET, RETVAL := 0, PID := 0\<rparr>)
      (s1\<lparr>pm_msg := (pm_msg s1)\<lparr>PID := int c\<rparr>\<rparr>))"
    using assms(5) C(1, 2) s1(1) alloc seg_of_desc [OF assms(14, 12)] seg_of_desc [OF assms(14, 13)] assms(15)
    by (simp add: do_fork_def Let_def fork_msg_def base_roundtrip)
  then have "task_pm_round (fork_msg parent) s = Inr (pm_send parent (zero_msg\<lparr>source := parent, type := SYSCALL_RET, PID := int c\<rparr>)
      (pm_send (int c) (zero_msg\<lparr>type := SYSCALL_RET, RETVAL := 0, PID := 0\<rparr>) s1\<lparr>pm_msg := zero_msg\<lparr>source := parent, type := SYSCALL_RET, PID := int c\<rparr>\<rparr>))"
    (is "_ = Inr ?s'") using s1(5)
    by (simp add: task_pm_round_def fork_msg_def pm_reply_def Let_def pm_send_def zero_msg_def)
  moreover have "pkern ?s' = pkern s1" "files_ok (pfs ?s')" using s1(2) by simp_all
  moreover have "proc_at (pkern s1) (int c) = ?C'" "\<And>j. j \<noteq> int c \<Longrightarrow> proc_at (pkern s1) j = proc_at (pkern s) j"
    by (simp_all add: k1)
  moreover have "proc_va2la (pkern s1) (int c) va = Inr (word_of_int base + va)" for va
    using assms(6) C(1) base_roundtrip [of "word_of_int base"]
    by (simp add: proc_va2la_def k1 Let_def ldt_idx_to_base_addr_def child_ldts_def gdt_ldt_to_base_addr_def)
  moreover have "read_bytes (kmem (pkern s1)) (word_of_int base) (nat memsize) = read_bytes (pmem s) b (nat memsize)"
  proof -
    have "unat (word_of_int memsize :: u32) = nat memsize" using sz by (simp add: unat_word_of_int_u32)
    then show ?thesis using memcpy_read [of "word_of_int base" b "word_of_int memsize" "pmem s"] assms(18) by (simp add: k1 apart_def)
  qed
  moreover have "pm_sent ?s' = pm_sent s @ [(int c, zero_msg\<lparr>source := TASK_PM, type := SYSCALL_RET\<rparr>),
      (parent, zero_msg\<lparr>source := TASK_PM, type := SYSCALL_RET, PID := int c\<rparr>)]"
    using s1(4) by (simp add: zero_msg_def)
  moreover have "?C' = P\<lparr>ldt_sel := ldt_sel (proc_at (pkern s) (int c)), p_parent := parent,
      name := name P @ 95 # i2a (int c) 10, ldts := child_ldts (word_of_int base) (ldts P)\<rparr>"
    using assms(7) by (simp add: child_proc_def Let_def)
  ultimately show ?thesis by (intro exI [of _ ?s']) simp
qed

section \<open>A sample\<close>

text \<open>Process 5 with an open file has the child 9, and slot 10 is free; it was used by a child of process 7.\<close>

definition sample_pm :: pm where
  "sample_pm = \<lparr>pfs = upd_kern (\<lambda>k. k\<lparr>proc_table := (proc_table k)
       [5 := zero_proc\<lparr>file_desc := (replicate 64 None)[0 := Some 0], ldts := [make_gdt_desc 0 15 0xC0F8, make_gdt_desc 0 15 0xC0F2]\<rparr>,
        9 := zero_proc\<lparr>p_parent := 5\<rparr>, 10 := zero_proc\<lparr>proc_state := FREE_SLOT, p_parent := 7\<rparr>]\<rparr>) sample_fs,
     pm_msg = zero_msg, memory_size = 0x2000000, pm_sent = [], pathname_addr = 0x50000, stat_addr = 0x50100, stackcopy_addr = 0x50200\<rparr>"

lemma sample_pm_table: "proc_table (pkern sample_pm) = (replicate 37 zero_proc)
    [5 := zero_proc\<lparr>file_desc := (replicate 64 None)[0 := Some 0], ldts := [make_gdt_desc 0 15 0xC0F8, make_gdt_desc 0 15 0xC0F2]\<rparr>,
     9 := zero_proc\<lparr>p_parent := 5\<rparr>, 10 := zero_proc\<lparr>proc_state := FREE_SLOT, p_parent := 7\<rparr>]"
  by (simp add: sample_pm_def sample_fs_def sample_machine_def)

lemma sample_pm_proc: "i \<in> {0..<37} \<Longrightarrow> proc_at (pkern sample_pm) i =
    (if i = 5 then zero_proc\<lparr>file_desc := (replicate 64 None)[0 := Some 0], ldts := [make_gdt_desc 0 15 0xC0F8, make_gdt_desc 0 15 0xC0F2]\<rparr>
     else if i = 9 then zero_proc\<lparr>p_parent := 5\<rparr> else if i = 10 then zero_proc\<lparr>proc_state := FREE_SLOT, p_parent := 7\<rparr> else zero_proc)"
  by (auto simp: proc_at_def sample_pm_table nth_list_update)

lemma sample_pm_refs: "refs (pkern sample_pm) d = (if d = 0 then 1 else 0)"
proof -
  have "users (pkern sample_pm) d = (if d = 0 then {(5, 0)} else {})"
    by (auto simp: users_def sample_pm_table nth_list_update zero_proc_def split: if_splits)
  then show ?thesis by (simp add: refs_def)
qed

lemma sample_pm_files: "files_ok (pfs sample_pm)"
proof -
  have fd: "file_desc_table (pfs sample_pm) = \<lparr>fd_mode = 2, fd_pos = 0, fd_cnt = 1, fd_inode = Some 1\<rparr> # replicate 63 free_fd"
    and it: "inode_table (pfs sample_pm) = sample_root # sample_file # replicate 62 free_inode"
    by (simp_all add: sample_pm_def sample_fs_def)
  have nth: "(x # replicate n y) ! i = (if i = 0 then x else y)" if "i < Suc n" for x y :: file_desc and i n
    using that by (cases i) auto
  have "open_refs (file_desc_table (pfs sample_pm)) i = (if i = 1 then 1 else 0)" for i
    by (simp add: open_refs_def fd free_fd_def sum_list_replicate)
  moreover have "0 \<le> inode_cnt (inode_table (pfs sample_pm) ! i)" if "i < 64" for i
    using that by (cases i; cases "i - 1") (auto simp: it sample_root_def sample_file_def free_inode_def)
  moreover have "inode_cnt (inode_table (pfs sample_pm) ! 1) = 1" by (simp add: it sample_file_def)
  ultimately show ?thesis
    by (auto simp: files_inv_def sample_pm_refs fd it nth free_fd_def)
qed

lemma sample_pm_length: "length (proc_table (pkern sample_pm)) = 37"
  by (simp add: sample_pm_table)

theorem exit_wait_any_order_witness:
  "\<exists>a1 a2 b1 b2. task_pm_round (wait_msg 5) sample_pm = Inr a1 \<and> task_pm_round (exit_msg 9 42) a1 = Inr a2 \<and>
    task_pm_round (exit_msg 9 42) sample_pm = Inr b1 \<and> task_pm_round (wait_msg 5) b1 = Inr b2 \<and>
    pm_sent a2 = [(5, exit_notice 9 42)] \<and> pm_sent b2 = [(5, exit_notice 9 42)]"
proof -
  have "pm_sent sample_pm = []" by (simp add: sample_pm_def)
  moreover have "p_parent (proc_at (pkern sample_pm) 9) = 5" "\<forall>i \<in> {0..<37}. p_parent (proc_at (pkern sample_pm) i) \<noteq> 9"
    "\<forall>i \<in> {0..<37}. p_parent (proc_at (pkern sample_pm) i) = 5 \<longrightarrow> \<not> hangs (pkern sample_pm) i"
    "proc_state (proc_at (pkern sample_pm) 5) AND WAITING = 0"
    by (auto simp: sample_pm_proc zero_proc_def split: if_splits)
  ultimately show ?thesis using exit_wait_any_order [OF sample_pm_files sample_pm_length, of 5 9 42] by auto
qed

theorem stale_child_blocks_wait_witness:
  "\<exists>s1 s2. task_pm_round (wait_msg 7) sample_pm = Inr s1 \<and> pm_sent s1 = [] \<and>
    task_pm_round (wait_msg 11) sample_pm = Inr s2 \<and> pm_sent s2 = [(11, zero_msg\<lparr>source := TASK_PM, PID := NO_TASK\<rparr>)]"
proof -
  have "pm_sent sample_pm = []" by (simp add: sample_pm_def)
  moreover have "p_parent (proc_at (pkern sample_pm) 10) = 7" "proc_state (proc_at (pkern sample_pm) 10) = FREE_SLOT"
    "\<forall>i \<in> {0..<37}. p_parent (proc_at (pkern sample_pm) i) = 7 \<longrightarrow> i = 10" "\<forall>i \<in> {0..<37}. p_parent (proc_at (pkern sample_pm) i) \<noteq> 11"
    by (auto simp: sample_pm_proc zero_proc_def split: if_splits)
  ultimately show ?thesis using stale_child_blocks_wait [of 10 sample_pm 7 11] by auto
qed

theorem process_memory_disjoint_witness:
  "\<exists>a b. alloc_mem 0x2000000 9 0x100000 = Inr a \<and> alloc_mem 0x2000000 10 4096 = Inr b \<and>
     {a..<a + 0x100000} \<inter> {b..<b + 4096} = {}"
  using process_memory_disjoint [of 9 10 "0x100000" 4096 "0x2000000"] by auto

theorem fork_makes_copy_witness:
  "\<exists>s'. task_pm_round (fork_msg 5) sample_pm = Inr s' \<and> files_ok (pfs s') \<and>
    pm_sent s' = [(10, zero_msg\<lparr>source := TASK_PM, type := SYSCALL_RET\<rparr>), (5, zero_msg\<lparr>source := TASK_PM, type := SYSCALL_RET, PID := 10\<rparr>)]"
proof -
  let ?P = "proc_at (pkern sample_pm) 5"
  have free: "find_free_slot (proc_table (pkern sample_pm)) 0 = Some 10"
    using find_free_slot_first [of 10 "proc_table (pkern sample_pm)" 0] by (simp add: sample_pm_table nth_list_update zero_proc_def)
  have i2a: "i2a 10 10 = [49, 48]" by (simp add: i2a.simps [of 10] i2a.simps [of 1] hex_char_def signed_divide_int_def signed_modulo_int_def)
  have P: "ldts ?P = [make_gdt_desc 0 15 0xC0F8, make_gdt_desc 0 15 0xC0F2]" "name ?P = []" "proc_state ?P \<noteq> FREE_SLOT"
    "set (file_desc (proc_at (pkern sample_pm) (int 10))) \<subseteq> {None}"
    by (simp_all add: sample_pm_proc zero_proc_def)
  have m: "memory_size sample_pm = 0x2000000" "pm_sent sample_pm = []" by (simp_all add: sample_pm_def)
  have "bit (0xC0F8 :: u16) 15" "bit (0xC0F2 :: u16) 15" by simp_all
  moreover have "apart (word_of_int 0xB00000) (nat 65536) 0 (nat 65536)" by (simp add: apart_def unat_u32_uminus)
  ultimately show ?thesis
    using fork_makes_copy [OF sample_pm_files sample_pm_length _ _ free _ refl, of 5 0 15 "0xC0F8" "0xC0F2" 65536 "0xB00000"] P m i2a by auto
qed

end
