(* ===== verification/OsInv.thy ===== *)
theory OsInv
  imports FsTurns PmLife IpcInv
begin

text \<open>
  The process manager, the file system and the kernel together: every sequence of their turns keeps the open files
  consistent, and a process that is dead or not there has no open files.
\<close>

unbundle bit_operations_syntax

section \<open>The state\<close>

definition dead_state :: "u32 \<Rightarrow> bool" where
  "dead_state w \<longleftrightarrow> w AND (HANGING OR FREE_SLOT) \<noteq> 0"

abbreviation dead :: "proc \<Rightarrow> bool" where
  "dead P \<equiv> dead_state (proc_state P)"

definition os_ok :: "pm \<Rightarrow> bool" where
  "os_ok s \<longleftrightarrow> files_ok (pfs s) \<and> length (proc_table (pkern s)) = NR_PROC_SLOTS \<and>
     (\<forall>i. valid_pid i \<and> dead (proc_at (pkern s) i) \<longrightarrow> set (file_desc (proc_at (pkern s) i)) \<subseteq> {None}) \<and>
     \<not> dead (proc_at (pkern s) TASK_PM)"

text \<open>
  A turn of the file system on a request of a live process, a turn of the process manager on a request of a live
  process other than itself, or a step of the kernel: a system call, an interrupt or a change of memory.
\<close>

inductive os_step :: "pm \<Rightarrow> pm \<Rightarrow> bool" where
  fs_turn: "\<lbrakk>user_request m; may_create m (pfs s); valid_pid (source m); \<not> dead (proc_at (pkern s) (source m));
     task_fs_round m (pfs s) = Inr (r, f)\<rbrakk> \<Longrightarrow> os_step s (s\<lparr>pfs := f\<rparr>)"
| pm_turn: "\<lbrakk>valid_pid (source m); source m \<noteq> TASK_PM; \<not> dead (proc_at (pkern s) (source m)); task_pm_round m s = Inr s'\<rbrakk>
     \<Longrightarrow> os_step s s'"
| kernel_turn: "kstep (pkern s) k \<Longrightarrow> os_step s (upd_pkern (\<lambda>_. k) s)"

inductive_cases os_stepE: "os_step s s'"

inductive os_reachable :: "pm \<Rightarrow> pm \<Rightarrow> bool" for s0 where
  start: "os_reachable s0 s0"
| step: "\<lbrakk>os_reachable s0 s; os_step s s'\<rbrakk> \<Longrightarrow> os_reachable s0 s'"

section \<open>Parts of turns\<close>

lemma dead_free: "proc_state P = FREE_SLOT \<Longrightarrow> dead P"
  by (simp add: dead_state_def)

lemma dead_hangs: "proc_state P AND HANGING \<noteq> 0 \<Longrightarrow> dead P"
  unfolding dead_state_def by (simp only: bit.conj_disj_distrib or_eq_0_iff) simp

text \<open>The other bits of the state do not matter.\<close>

lemma dead_state_other:
  assumes "w AND (HANGING OR FREE_SLOT) = 0"
  shows "dead_state (x OR w) = dead_state x" "dead_state (x AND NOT w) = dead_state x"
proof -
  have "NOT w AND k = k" if "w AND k = 0" for k
  proof (rule bit_eqI)
    fix n
    have "\<not> (bit w n \<and> bit k n)" using that by (metis bit_and_iff bit_0_eq bot_apply bot_bool_def)
    then show "bit (NOT w AND k) n = bit k n" if "possible_bit TYPE(u32) n" using that by (auto simp: bit_simps)
  qed
  from this [OF assms] assms show "dead_state (x OR w) = dead_state x" "dead_state (x AND NOT w) = dead_state x"
    by (simp_all only: dead_state_def bit.conj_disj_distrib2 or.right_neutral and.assoc)
qed

lemma dead_state_bits [simp]:
  "dead_state (x OR SENDING) = dead_state x" "dead_state (x AND NOT SENDING) = dead_state x"
  "dead_state (x OR RECEIVING) = dead_state x" "dead_state (x AND NOT RECEIVING) = dead_state x"
  "dead_state (x OR WAITING) = dead_state x" "dead_state (x AND NOT WAITING) = dead_state x"
  by (rule dead_state_other, simp)+

lemma dead_state_masks [simp]:
  "dead_state (x AND - 3) = dead_state x" "dead_state (x AND - 5) = dead_state x" "dead_state (x AND - 9) = dead_state x"
  using dead_state_bits(2, 4, 6) [of x] by simp_all

lemma os_ok_upd:
  assumes "os_ok s" "\<And>P. file_desc (f P) = file_desc P" "\<And>P. dead (f P) = dead P"
  shows "os_ok (upd_pproc pid f s)"
  using assms unfolding os_ok_def by (simp add: refs_upd_proc)

lemma os_ok_dies:
  assumes "os_ok s" "\<And>P. file_desc (f P) = file_desc P" "set (file_desc (proc_at (pkern s) pid)) \<subseteq> {None}" "pid \<noteq> TASK_PM"
  shows "os_ok (upd_pproc pid f s)"
  using assms unfolding os_ok_def by (simp add: refs_upd_proc)

lemma os_ok_send [simp]: "os_ok (pm_send d m s) = os_ok s" "os_ok (s\<lparr>pm_msg := m\<rparr>) = os_ok s"
  by (simp_all add: os_ok_def)

declare proc_at_kmem [simp]

lemma os_ok_mem [simp]: "os_ok (upd_pmem f s) = os_ok s"
proof -
  have "refs (k\<lparr>kmem := m\<rparr>) = refs k" for k m by (simp add: refs_def users_def fun_eq_iff)
  then show ?thesis by (simp add: os_ok_def upd_pmem_def upd_pkern_def)
qed

lemma files_of_at:
  assumes "files_of c k k'" "0 \<le> c" "c < int (length (proc_table k))"
  shows "length (proc_table k') = length (proc_table k)" "i \<noteq> c \<Longrightarrow> 0 \<le> i \<Longrightarrow> i < int (length (proc_table k)) \<Longrightarrow> proc_at k' i = proc_at k i"
    "proc_state (proc_at k' c) = proc_state (proc_at k c)"
  using assms by (auto simp: files_of_def proc_at_def nth_list_update)

lemma fs_turn_os_ok:
  assumes "os_ok s" "user_request m" "may_create m (pfs s)" "valid_pid (source m)" "\<not> dead (proc_at (pkern s) (source m))"
    and "task_fs_round m (pfs s) = Inr (r, f)"
  shows "os_ok (s\<lparr>pfs := f\<rparr>)"
proof -
  have len: "source m < int (length (proc_table (pkern s)))" using assms(1, 4) by (simp add: os_ok_def)
  have ok: "files_ok f" "files_of (source m) (pkern s) (fkern f)"
    using fs_turn_ok [OF assms(6, 2, 3) _ _ len] assms(1, 4) by (auto simp: os_ok_def)
  note at = files_of_at [OF ok(2) _ len]
  have st: "dead (proc_at (fkern f) i) = dead (proc_at (pkern s) i)" if "valid_pid i" for i
  proof (cases "i = source m")
    case True
    then show ?thesis using at(3) assms(4) by simp
  next
    case False
    then show ?thesis using at(2) [of i] assms(1, 4) that by (simp add: os_ok_def)
  qed
  have "set (file_desc (proc_at (fkern f) i)) \<subseteq> {None}" if i: "valid_pid i" "dead (proc_at (fkern f) i)" for i
  proof -
    have "dead (proc_at (pkern s) i)" using i st by blast
    moreover from this have "i \<noteq> source m" using assms(5) by auto
    ultimately show ?thesis using at(2) [of i] assms(1, 4) i(1) by (auto simp: os_ok_def)
  qed
  then show ?thesis using ok(1) at(1) st [of TASK_PM] assms(1, 4) by (simp add: os_ok_def)
qed

section \<open>Exit and wait\<close>

lemma proc_cleanup_ok:
  assumes "os_ok s" "valid_pid i" "dead (proc_at (pkern s) i)"
  shows "os_ok (proc_cleanup i s)"
proof -
  have "i \<noteq> TASK_PM" "set (file_desc (proc_at (pkern s) i)) \<subseteq> {None}" using assms by (auto simp: os_ok_def)
  then show ?thesis unfolding proc_cleanup_def Let_def by (intro os_ok_dies) (use assms(1) in simp_all)
qed

lemma reparent_ok: "os_ok s \<Longrightarrow> set is \<subseteq> {i. valid_pid i} \<Longrightarrow> os_ok (reparent is pid s)"
proof (induction "is" arbitrary: s)
  case (Cons i "is")
  let ?s1 = "upd_pproc i (\<lambda>P. P\<lparr>p_parent := INIT\<rparr>) s"
  have 1: "os_ok ?s1" using Cons.prems(1) by (rule os_ok_upd) simp_all
  show ?case
  proof (cases "proc_state (proc_at (pkern ?s1) INIT) AND WAITING \<noteq> 0 \<and> proc_state (proc_at (pkern ?s1) i) AND HANGING \<noteq> 0")
    case True
    let ?s2 = "upd_pproc INIT (\<lambda>P. P\<lparr>proc_state := proc_state P AND NOT WAITING\<rparr>) ?s1"
    have 2: "os_ok ?s2" using 1 by (rule os_ok_upd) simp_all
    have "dead (proc_at (pkern ?s1) i)" using True by (simp add: dead_hangs)
    moreover have "dead (proc_at (pkern ?s2) i) = dead (proc_at (pkern ?s1) i)"
      unfolding upd_pproc_simps(1) [of INIT] by simp
    ultimately have "dead (proc_at (pkern ?s2) i)" by simp
    then have "os_ok (proc_cleanup i ?s2)" using 2 Cons.prems(2) by (intro proc_cleanup_ok) simp_all
    then show ?thesis using True Cons.IH [of "proc_cleanup i ?s2"] Cons.IH [of s] Cons.prems by simp
  next
    case False
    then show ?thesis using Cons.IH [OF 1] Cons.IH [OF Cons.prems(1)] Cons.prems by auto
  qed
qed simp

lemma wait_scan_SomeD: "wait_scan is pid k h = (b, Some i) \<Longrightarrow> i \<in> set is \<and> hangs k i"
  by (induction "is" arbitrary: h) (auto split: if_split_asm)

lemma do_wait_ok: "os_ok s \<Longrightarrow> os_ok (do_wait s)"
proof -
  assume ok: "os_ok s"
  obtain h r where sc: "wait_scan all_slots (source (pm_msg s)) (pkern s) False = (h, r)" by fastforce
  show ?thesis
  proof (cases r)
    case (Some i)
    with sc have i: "i \<in> set all_slots" "hangs (pkern s) i" using wait_scan_SomeD by fast+
    have "os_ok (proc_cleanup i s)" using i(1) dead_hangs [OF i(2)] by (intro proc_cleanup_ok [OF ok]) simp_all
    then show ?thesis using sc Some by (cases h) (simp_all add: do_wait_def)
  next
    case None
    have "os_ok (upd_pproc (source (pm_msg s)) (\<lambda>P. P\<lparr>proc_state := proc_state P OR WAITING\<rparr>) s)"
      using ok by (rule os_ok_upd) simp_all
    then show ?thesis using sc None ok by (cases h) (simp_all add: do_wait_def)
  qed
qed

lemma do_exit_ok:
  assumes "os_ok s" "do_exit st s = Inr s'" "pid = source (pm_msg s)" "valid_pid pid" "pid \<noteq> TASK_PM"
  shows "os_ok s'"
proof -
  let ?parent = "p_parent (proc_at (pkern s) pid)"
  have "files_ok (pfs s)" "pid < int (length (proc_table (pkern s)))" "0 \<le> pid" using assms(1, 4) by (simp_all add: os_ok_def)
  from pm_exit_call [OF this(1, 3, 2)] obtain r s1 where s1: "pm_call (fs_call TASK_PM (zero_msg\<lparr>type := EXIT, PID := pid\<rparr>)) s = Inr (r, s1)"
    "files_ok (pfs s1)" "pkern s1 = upd_proc pid (\<lambda>P. P\<lparr>file_desc := map (\<lambda>_. None) (file_desc P)\<rparr>) (pkern s)" by blast
  have ok1: "os_ok s1" using assms(1) s1(2, 3) by (auto simp: os_ok_def)
  let ?s2 = "upd_pproc pid (\<lambda>P. P\<lparr>exit_status := st\<rparr>) s1"
  have ok2: "os_ok ?s2" using ok1 by (rule os_ok_upd) simp_all
  let ?w = "upd_pproc ?parent (\<lambda>P. P\<lparr>proc_state := proc_state P AND NOT WAITING\<rparr>) ?s2"
  have okw: "os_ok ?w" using ok2 by (rule os_ok_upd) simp_all
  have none: "set (file_desc (proc_at (pkern ?w) pid)) \<subseteq> {None}" "set (file_desc (proc_at (pkern ?s2) pid)) \<subseteq> {None}"
    by (auto simp: s1(3))
  have "os_ok (proc_cleanup pid ?w)"
    unfolding proc_cleanup_def Let_def using okw none(1) assms(5) by (intro os_ok_dies) simp_all
  moreover have "os_ok (upd_pproc pid (\<lambda>P. P\<lparr>proc_state := proc_state P OR HANGING\<rparr>) ?s2)"
    by (rule os_ok_dies [OF ok2 _ none(2) assms(5)]) simp
  moreover have "s' = reparent all_slots pid (if proc_state (proc_at (pkern ?s2) ?parent) AND WAITING \<noteq> 0 then proc_cleanup pid ?w
      else upd_pproc pid (\<lambda>P. P\<lparr>proc_state := proc_state P OR HANGING\<rparr>) ?s2)"
    using assms(2) s1(1) unfolding do_exit_def assms(3) [symmetric] Let_def by (simp only: obind_simps prod.case sum.inject)
  ultimately show ?thesis by (auto intro!: reparent_ok)
qed

section \<open>Fork\<close>

lemma alive_not_free: "\<not> dead P \<Longrightarrow> proc_state P \<noteq> FREE_SLOT"
  using dead_free by blast

lemma do_fork_ok:
  assumes "os_ok s" "do_fork s = Inr (v, s')" "pid = source (pm_msg s)" "valid_pid pid" "\<not> dead (proc_at (pkern s) pid)"
  shows "os_ok s'"
proof (cases "find_free_slot (proc_table (pkern s)) 0")
  case None
  then show ?thesis using assms(1, 2) by (simp add: do_fork_def Let_def)
next
  case (Some c)
  have ok: "files_ok (pfs s)" "length (proc_table (pkern s)) = 37" "\<not> dead (proc_at (pkern s) TASK_PM)" using assms(1) by (simp_all add: os_ok_def)
  have c: "c < 37" "proc_state (proc_at (pkern s) (int c)) = FREE_SLOT"
    using find_free_slot_SomeD [OF Some] ok(2) by (simp_all add: proc_at_def)
  then have d: "dead (proc_at (pkern s) (int c))" by (intro dead_free)
  then have ne: "int c \<noteq> pid" "int c \<noteq> TASK_PM" using assms(5) ok(3) by auto
  have none: "set (file_desc (proc_at (pkern s) (int c))) \<subseteq> {None}" using d c(1) assms(1) by (simp add: os_ok_def)
  let ?C = "child_proc pid (int c) (pkern s)"
  from assms(2, 3) Some obtain base r s2 f where s2: "pm_call (fs_call TASK_PM (zero_msg\<lparr>type := FORK, PID := int c\<rparr>))
      (upd_pmem f (upd_pproc (int c) (\<lambda>_. ?C\<lparr>ldts := child_ldts (word_of_int base) (ldts ?C)\<rparr>) s)) = Inr (r, s2)"
    "os_ok s' = os_ok s2"
    by (auto simp: do_fork_def Let_def c_assert_Inr_iff elim!: obind_InrE split: if_split_asm)
  let ?C' = "?C\<lparr>ldts := child_ldts (word_of_int base) (ldts ?C)\<rparr>"
  have C: "file_desc ?C' = file_desc (proc_at (pkern s) pid)" "dead ?C' = dead (proc_at (pkern s) pid)"
    by (simp_all add: child_proc_def Let_def)
  obtain k2: "files_ok (pfs s2)" "pkern s2 = pkern (upd_pmem f (upd_pproc (int c) (\<lambda>_. ?C') s))"
    using pm_fork_call [OF ok(1, 2) _ _ _ _ ne(1) none C(1), of f] s2(1) assms(4) c(1) by auto
  have at: "proc_at (pkern s2) i = (if i = int c then ?C' else proc_at (pkern s) i)" for i
    unfolding k2(2) by (simp add: upd_pmem_def upd_pkern_def)
  have len: "length (proc_table (pkern s2)) = 37" unfolding k2(2) using ok(2) by (simp add: upd_pmem_def upd_pkern_def)
  have "os_ok s2" using k2(1) len ok(3) ne(2) C(2) assms(1, 5) by (auto simp: os_ok_def at)
  then show ?thesis using s2(2) by simp
qed

section \<open>Exec\<close>

lemma fs_callD: "fs_call pid m f = Inr (r, f') \<Longrightarrow> \<exists>r'. task_fs_round (m\<lparr>source := pid\<rparr>) f = Inr (r', f')"
  by (auto simp: fs_call_def elim!: obind_InrE split: option.split_asm if_split_asm)

lemma pm_fs_call_ok:
  assumes "os_ok s" "fs_call TASK_PM m (pfs s) = Inr (r, f)" "user_request (m\<lparr>source := TASK_PM\<rparr>)" "may_create (m\<lparr>source := TASK_PM\<rparr>) (pfs s)"
  shows "os_ok (s\<lparr>pfs := f\<rparr>)"
proof -
  from fs_callD [OF assms(2)] obtain r' where r: "task_fs_round (m\<lparr>source := TASK_PM\<rparr>) (pfs s) = Inr (r', f)" by blast
  show ?thesis by (rule fs_turn_os_ok [OF assms(1, 3, 4) _ _ r]) (use assms(1) in \<open>simp_all add: os_ok_def\<close>)
qed

lemma pm_calls_ok:
  assumes "os_ok s"
  shows "pm_call (stat_call TASK_PM p b) s = Inr (v, s') \<Longrightarrow> os_ok s'"
    "pm_call (open_call TASK_PM p O_RDWR) s = Inr (v, s') \<Longrightarrow> os_ok s'"
    "pm_call (read_call TASK_PM fd a n) s = Inr (v, s') \<Longrightarrow> os_ok s'"
    "pm_call (close_call TASK_PM fd) s = Inr (v, s') \<Longrightarrow> os_ok s'"
  using pm_fs_call_ok [OF assms]
  by (force simp: pm_call_def stat_call_def open_call_def read_call_def close_call_def call_result_def c_assert_Inr_iff user_request_def may_create_def
      elim!: obind_InrE split: option.split_asm)+

lemma load_segments_step:
  assumes "load_segments pid i s = Inr s'"
  shows "s' = s \<or> i < 65536 \<and> ((\<exists>g. load_segments pid (Suc i) (upd_pmem g s) = Inr s') \<or> load_segments pid (Suc i) s = Inr s')"
proof -
  have "i < 65536" if "i < unat (w :: u16)" for w using that unsigned_less [of w, where ?'a = nat] by simp
  then show ?thesis using assms by (subst (asm) load_segments.simps) (auto simp: Let_def split: if_split_asm sum.split_asm)
qed

lemma load_segments_ok: "load_segments pid i s = Inr s' \<Longrightarrow> os_ok s \<Longrightarrow> os_ok s'"
proof (induction "65536 - i" arbitrary: i s)
  case (Suc n)
  then have "n = 65536 - Suc i" by simp
  then show ?case using load_segments_step [OF Suc.prems(1)] Suc.hyps(1) [of "Suc i"] Suc.prems(2) by auto
qed (use load_segments_step in fastforce)

lemma setup_args_ok: "setup_args pid b n s = Inr (argc, s') \<Longrightarrow> os_ok s \<Longrightarrow> os_ok s'"
  by (auto simp: setup_args_def Let_def elim!: obind_InrE split: if_split_asm)

lemma start_program_ok: "os_ok s \<Longrightarrow> os_ok (upd_pproc pid (\<lambda>P. P\<lparr>name := nm\<rparr>) (start_program pid argc s))"
  unfolding start_program_def Let_def by (intro os_ok_upd) simp_all

lemma do_exec_ok:
  assumes "os_ok s" "do_exec s = Inr (v, s')"
  shows "os_ok s'"
proof -
  have "os_ok (upd_pmem g s)" for g using assms(1) by simp
  note stat = pm_calls_ok(1) [OF this] and "open" = pm_calls_ok(2) and read = pm_calls_ok(3) and close = pm_calls_ok(4)
  from assms(2) show ?thesis unfolding do_exec_def Let_def c_assert_Inr_iff
    by (auto simp: c_assert_Inr_iff elim!: obind_InrE split: if_split_asm)
      (metis stat, metis stat "open", metis stat "open" read close load_segments_ok setup_args_ok start_program_ok)
qed

section \<open>The kernel\<close>

text \<open>No step of the kernel opens or closes files, and nobody dies or is born in one.\<close>

definition keeps :: "kernel \<Rightarrow> kernel \<Rightarrow> bool" where
  "keeps s s' \<longleftrightarrow> length (proc_table s') = length (proc_table s) \<and>
     (\<forall>i. file_desc (proc_at s' i) = file_desc (proc_at s i) \<and> dead (proc_at s' i) = dead (proc_at s i))"

lemma keeps_refl [simp]: "keeps s s"
  by (simp add: keeps_def)

lemma keeps_trans: "keeps s s' \<Longrightarrow> keeps s' s'' \<Longrightarrow> keeps s s''"
  by (simp add: keeps_def)

lemma keeps_upd:
  assumes "\<And>P. file_desc (f P) = file_desc P" "\<And>P. dead (f P) = dead P" "keeps s s'"
  shows "keeps s (upd_proc i f s')"
  using assms by (simp add: keeps_def)

lemma keeps_fields [simp]:
  "keeps s (s'\<lparr>kmem := m\<rparr>) = keeps s s'" "keeps s (s'\<lparr>screen := v\<rparr>) = keeps s s'" "keeps s (s'\<lparr>key_pressed := b\<rparr>) = keeps s s'"
  "keeps s (s'\<lparr>sys_ticks := t\<rparr>) = keeps s s'"
  by (simp_all add: keeps_def proc_at_def)

lemma keeps_from_mem [simp]: "keeps (s\<lparr>kmem := m\<rparr>) s' = keeps s s'"
  by (simp add: keeps_def proc_at_def)

lemma keeps_schedule:
  assumes "schedule s' = Some s''" "keeps s s'"
  shows "keeps s s''"
proof -
  have "file_desc p = file_desc q" if "ipc_view p = ipc_view q" for p q
    using arg_cong [OF that, of file_desc] by (simp add: ipc_view_def)
  then have "file_desc (proc_at s'' i) = file_desc (proc_at s' i) \<and> proc_state (proc_at s'' i) = proc_state (proc_at s' i)" for i
    using schedule_frame(1) [OF assms(1), of i] ipc_viewD(1) by blast
  then show ?thesis using assms schedule_frame(2) [OF assms(1)] by (simp add: keeps_def)
qed

lemma keeps_block: "block p s' = Inr s'' \<Longrightarrow> keeps s s' \<Longrightarrow> keeps s s''"
  using block_cases(2) keeps_schedule by blast

lemma keeps_append: "append_sender c r s' = Inr s'' \<Longrightarrow> keeps s s' \<Longrightarrow> keeps s s''"
  by (auto simp: append_sender_def elim!: obind_InrE split: option.split_asm intro!: keeps_upd)

lemma keeps_deliver: "send_deliver c r m s = Inr s' \<Longrightarrow> keeps s s'"
  by (auto simp: send_deliver_def Let_def outcome_iffs simp del: proc_at_upd upd_proc_proc_at intro!: keeps_upd)

lemma keeps_send_wait: "send_wait c r m s = Inr s' \<Longrightarrow> keeps s s'"
  by (auto simp: send_wait_def Let_def outcome_iffs simp del: proc_at_upd upd_proc_proc_at elim!: keeps_block keeps_append intro!: keeps_upd)

lemma keeps_send: "kernel_msg_send c r m s = Inr (s', v) \<Longrightarrow> keeps s s'"
  by (auto simp: kernel_msg_send_def Let_def outcome_iffs split: if_split_asm dest: keeps_deliver keeps_send_wait)

lemma keeps_unlink: "unlink_sender r c p s = Inr s' \<Longrightarrow> keeps s s'"
  by (auto simp: unlink_sender_def Let_def outcome_iffs simp del: proc_at_upd upd_proc_proc_at split: if_split_asm option.split_asm intro!: keeps_upd)

lemma keeps_rcv:
  assumes "kernel_msg_rcv c r m s = Inr (s', v)"
  shows "keeps s s'"
proof -
  have "keeps s t" if "rcv_interrupt c m s = Inr t" for t
    using that by (auto simp: rcv_interrupt_def Let_def outcome_iffs simp del: proc_at_upd upd_proc_proc_at intro!: keeps_upd)
  moreover have "keeps s t" if "rcv_copy c x p m s = Inr t" for t x p
    using that by (auto simp: rcv_copy_def Let_def outcome_iffs simp del: proc_at_upd upd_proc_proc_at intro!: keeps_upd dest!: keeps_unlink)
  moreover have "keeps s t" if "rcv_wait c r m s = Inr t" for t
    using that by (auto simp: rcv_wait_def Let_def outcome_iffs simp del: proc_at_upd upd_proc_proc_at elim!: keeps_block intro!: keeps_upd)
  ultimately show ?thesis using assms by (auto simp: kernel_msg_rcv_def outcome_iffs split: if_split_asm option.split_asm)
qed

lemma keeps_notification: "hw_int_notification t s = Inr s' \<Longrightarrow> keeps s0 s \<Longrightarrow> keeps s0 s'"
  by (auto simp: hw_int_notification_def Let_def outcome_iffs simp del: proc_at_upd upd_proc_proc_at split: if_split_asm intro!: keeps_upd)

lemma keeps_clock: "clock_handler s = Inr s' \<Longrightarrow> keeps s s'"
proof -
  assume c: "clock_handler s = Inr s'"
  have t: "keeps s (clock_tick s)" by (auto simp: clock_tick_def Let_def intro!: keeps_upd)
  from c obtain s3 where "keeps s s3" "s' = s3 \<or> schedule s3 = Some s'"
    unfolding clock_handler_def Let_def wake_up_tty_def
    by (auto simp: outcome_iffs split: if_split_asm dest: keeps_notification [OF _ t] intro: t)
  then show ?thesis using keeps_schedule by blast
qed

lemma kstep_keeps: "kstep s s' \<Longrightarrow> keeps s s'"
proof (erule kstepE, goal_cases)
  case (1 fn pid m ret)
  then show ?case
    by (auto simp: sys_send_rcv_handler_def sys_printx_def Let_def outcome_iffs split: if_split_asm dest: keeps_send keeps_rcv)
qed (auto dest: keeps_clock keeps_notification [OF _ keeps_refl])

section \<open>All turns\<close>

lemma pm_replyE:
  assumes "pm_reply src r = Inr s'"
  obtains v s where "r = Inr (v, s)" "os_ok s' = os_ok s"
  using assms by (auto simp: pm_reply_def Let_def elim!: obind_InrE)

lemma pm_turn_ok:
  assumes "os_ok s" "task_pm_round m s = Inr s'" "valid_pid (source m)" "source m \<noteq> TASK_PM" "\<not> dead (proc_at (pkern s) (source m))"
  shows "os_ok s'"
proof -
  let ?s = "s\<lparr>pm_msg := m\<rparr>"
  have ok: "os_ok ?s" using assms(1) by simp
  have "pm_reply (source m) (do_fork ?s) = Inr s' \<or> do_exit (STATUS m) ?s = Inr s' \<or> pm_reply (source m) (do_exec ?s) = Inr s' \<or> s' = do_wait ?s"
    using assms(2) unfolding task_pm_round_def Let_def by (simp only: sum.inject sum.distinct simp_thms split: if_split_asm)
  then consider "pm_reply (source m) (do_fork ?s) = Inr s'" | "do_exit (STATUS m) ?s = Inr s'" | "pm_reply (source m) (do_exec ?s) = Inr s'" | "s' = do_wait ?s"
    by blast
  then show ?thesis
  proof cases
    case 1
    then show ?thesis using do_fork_ok [OF ok _ _ assms(3)] assms(5) by (auto elim!: pm_replyE)
  next
    case 2
    then show ?thesis using do_exit_ok [OF ok 2 _ assms(3, 4)] by simp
  next
    case 3
    then show ?thesis using do_exec_ok [OF ok] by (auto elim!: pm_replyE)
  next
    case 4
    then show ?thesis using do_wait_ok [OF ok] by simp
  qed
qed

lemma kernel_turn_ok:
  assumes "os_ok s" "kstep (pkern s) k"
  shows "os_ok (upd_pkern (\<lambda>_. k) s)"
proof -
  note k = kstep_keeps [OF assms(2), unfolded keeps_def]
  have "file_desc (proc_table k ! i) = file_desc (proc_table (pkern s) ! i)" if "i < 37" for i
    using k(1) that assms(1) by (auto simp: proc_at_def os_ok_def dest!: spec [of _ "int i"])
  then have "refs k = refs (pkern s)"
    using assms(1) k by (auto simp: fun_eq_iff refs_def users_def os_ok_def intro!: arg_cong [where f = card])
  then show ?thesis using assms(1) k by (simp add: os_ok_def upd_pkern_def)
qed

lemma os_step_ok: "os_step s s' \<Longrightarrow> os_ok s \<Longrightarrow> os_ok s'"
  by (erule os_stepE) (auto intro: fs_turn_os_ok pm_turn_ok kernel_turn_ok)

lemma os_reachable_ok: "os_reachable s0 s \<Longrightarrow> os_ok s0 \<Longrightarrow> os_ok s"
  by (induction rule: os_reachable.induct) (auto intro: os_step_ok)

end
