(* ===== verification/OsBoot.thy ===== *)
theory OsBoot
  imports OsInv FsInit
begin

text \<open>
  From start-up on: after \<^verbatim>\<open>init_process\<close> and \<^verbatim>\<open>init_fs\<close> no process has an open file, so the tables are consistent in
  every state the file system, the process manager and the kernel reach from there.
\<close>

unbundle bit_operations_syntax

section \<open>Making a file system touches no table\<close>

lemma zero_map_sects_view: "zero_map_sects sb is s = Inr s' \<Longrightarrow> tview s' = tview s"
  by (induction "is" arbitrary: s) (fastforce simp: outcome_iffs dest!: sect_view)+

lemma tar_bits_loop_view: "tar_bits_loop sb n b c s = Inr s' \<Longrightarrow> tview s' = tview s"
  by (induction n arbitrary: b c s) (fastforce simp: Let_def outcome_iffs split: if_split_asm dest!: sect_view)+

lemma mkfs_parts_view:
  "get_partition_info a s = Inr (pi, s') \<Longrightarrow> tview s' = tview s"
  "create_super_block pi s = Inr (sb, s') \<Longrightarrow> tview s' = tview s"
  "create_inode_map s = Inr s' \<Longrightarrow> tview s' = tview s"
  "create_sector_map sb s = Inr s' \<Longrightarrow> tview s' = tview s"
  "create_cmd_dot_tar sb s = Inr s' \<Longrightarrow> tview s' = tview s"
  "create_inode_array sb s = Inr s' \<Longrightarrow> tview s' = tview s"
  "create_root_directory sb s = Inr s' \<Longrightarrow> tview s' = tview s"
  by (auto simp: get_partition_info_def create_super_block_def create_inode_map_def create_sector_map_def create_cmd_dot_tar_def
      create_inode_array_def create_root_directory_def Let_def outcome_iffs split: if_split_asm
      dest!: drv_call_view sect_view zero_map_sects_view tar_bits_loop_view)

lemma mkfs_view: "mkfs a s = Inr s' \<Longrightarrow> tview s' = tview s"
  by (auto simp: mkfs_def outcome_iffs dest!: mkfs_parts_view)

section \<open>The tables after start-up\<close>

lemma read_super_block_view: "read_super_block dev s = Inr s' \<Longrightarrow> fview s' = fview s"
  by (auto simp: read_super_block_def Let_def outcome_iffs fview_def tview_def split: option.split_asm if_split_asm dest!: sect_view)

definition clean_tables :: "fs \<Rightarrow> fs" where
  "clean_tables s = s\<lparr>file_desc_table := replicate NR_FILE_DESC zero_file_desc, inode_table := replicate NR_INODE (new_inode 0 0 0 0)\<rparr>"

lemma init_fs_view:
  assumes "init_fs a s = Inr s'"
  shows "fview s' = fview (clean_tables s) \<or> (\<exists>i. fview s' = fview (bump i (clean_tables s)))"
proof -
  let ?s0 = "s\<lparr>file_desc_table := replicate NR_FILE_DESC zero_file_desc, inode_table := replicate NR_INODE (new_inode 0 0 0 0),
                 super_block_table := map (\<lambda>sb. sb\<lparr>sb_dev := NR_MAJOR_NO_DEV\<rparr>) (super_block_table s)\<rparr>"
  have clean: "fview t = fview (clean_tables s)" if "tview t = tview ?s0" for t
    using tview_fview [OF that] by (simp add: fview_def clean_tables_def)
  from assms obtain s4 p s5 where i: "fview s4 = fview (clean_tables s)" "get_file_inode ROOT_DEV_NR ROOT_INODE_NR s4 = Inr (p, s5)"
    "fview s' = fview s5"
  proof -
    from assms obtain drv m r s1 s2 s3 where 1: "drv_call drv m ?s0 = Inr (r, s1)" "RD_SECT ROOT_DEV_NR (spos 1) s1 = Inr s2"
      "s3 = s2 \<or> mkfs a s2 = Inr s3" and 2: "\<exists>s4 p s5. read_super_block ROOT_DEV_NR s3 = Inr s4 \<and>
         get_file_inode ROOT_DEV_NR ROOT_INODE_NR s4 = Inr (p, s5) \<and> s' = s5\<lparr>root_inode := p\<rparr>"
      unfolding init_fs_def Let_def by (auto simp: outcome_iffs split: if_split_asm) blast+
    have "fview s3 = fview (clean_tables s)"
      using drv_call_view [OF 1(1)] sect_view(1) [OF 1(2)] 1(3) mkfs_view [of a s2 s3] by (intro clean) auto
    moreover have "fview (s5\<lparr>root_inode := p\<rparr>) = fview s5" for s5 p by (simp add: fview_def)
    ultimately show ?thesis using 2 read_super_block_view that by metis
  qed
  from get_file_inode_view [OF i(2)] show ?thesis using i(1, 3) fview_bump [OF i(1)] by metis
qed

lemma clean_files:
  assumes "users (fkern s) = (\<lambda>_. {})"
  shows "files_ok (clean_tables s)"
proof -
  have z: "open_refs (replicate n zero_file_desc) i = 0" for n i
    by (simp add: open_refs_def zero_file_desc_def sum_list_replicate)
  have fd: "fd_inode (replicate n zero_file_desc ! d) = None" "inode_cnt (replicate n (new_inode 0 0 0 0) ! d) = 0" if "d < n" for n d
    using that by (simp_all add: zero_file_desc_def new_inode_def)
  have "refs (fkern s) = (\<lambda>_. 0)" using assms by (simp add: fun_eq_iff refs_def)
  then show ?thesis by (simp add: files_inv_def clean_tables_def z, simp add: zero_file_desc_def new_inode_def)
qed

lemma no_users:
  assumes "\<And>P. P \<in> set (proc_table k) \<Longrightarrow> set (file_desc P) \<subseteq> {None}"
  shows "users k = (\<lambda>_. {})"
proof -
  have "file_desc (proc_table k ! p) ! i \<noteq> Some d" if "p < length (proc_table k)" "i < length (file_desc (proc_table k ! p))" for p i d
    using assms [OF nth_mem [OF that(1)]] nth_mem [OF that(2)] by auto
  then show ?thesis by (auto simp: users_def fun_eq_iff)
qed

lemma reachable_keeps: "reachable k0 k \<Longrightarrow> keeps k0 k"
  by (induction rule: reachable.induct) (auto intro: keeps_trans kstep_keeps)

text \<open>The kernel has started, has run for a while, and the file system task has initialised itself. Memory that
  holds the process table was 0 before: no slot had open files.\<close>

lemma boot_os_ok:
  assumes "init_process entry stk k = Inr k0" "length (proc_table k) = NR_PROC_SLOTS" "\<forall>P \<in> set (proc_table k). set (file_desc P) \<subseteq> {None}"
    and "reachable k0 (fkern f)" "init_fs a f = Inr (pfs s)"
  shows "os_ok s"
proof -
  note sp = init_process_spec [OF assms(1)]
  have native: "i < 9 \<Longrightarrow> 0 \<le> i \<Longrightarrow> proc_state (proc_at k0 i) = RUNNABLE \<and> file_desc (proc_at k0 i) = replicate 64 None" for i
    using sp(2) [of i] by (auto simp: booted_def booted_native_def fill_proc_def)
  have free: "9 \<le> i \<Longrightarrow> i < 37 \<Longrightarrow> file_desc (proc_at k0 i) = file_desc (proc_table k ! nat i)" for i
    using sp(2) [of i] assms(2) by (auto simp: booted_def proc_at_def)
  have none: "set (file_desc (proc_at k0 i)) \<subseteq> {None}" if "valid_pid i" for i
  proof (cases "i < 9")
    case False
    then have "proc_table k ! nat i \<in> set (proc_table k)" "9 \<le> i" "i < 37" using that assms(2) by simp_all
    then show ?thesis using free [of i] assms(3) by auto
  qed (use native that in auto)
  have kp: "keeps k0 (fkern f)" by (rule reachable_keeps [OF assms(4)])
  have len: "length (proc_table (fkern f)) = 37" using kp sp(1) assms(2) by (simp add: keeps_def)
  have fnone: "set (file_desc (proc_at (fkern f) i)) \<subseteq> {None}" if "valid_pid i" for i
    using none [OF that] kp by (simp add: keeps_def)
  have "set (file_desc P) \<subseteq> {None}" if "P \<in> set (proc_table (fkern f))" for P
  proof -
    from that obtain i where "i < 37" "P = proc_table (fkern f) ! i" using len by (metis in_set_conv_nth)
    then show ?thesis using fnone [of "int i"] len by (simp add: proc_at_def)
  qed
  then have ok: "files_ok (clean_tables f)" by (intro clean_files no_users)
  from init_fs_view [OF assms(5)] have "files_ok (pfs s) \<and> proc_table (pkern s) = proc_table (fkern (clean_tables f))"
    using ok files_inv_bump(1) [OF ok] files_ok_view fviewD(3) fkern_bump(1) by metis
  then have s: "files_ok (pfs s)" "proc_table (pkern s) = proc_table (fkern f)" by (simp_all add: clean_tables_def)
  have at: "valid_pid i \<Longrightarrow> proc_at (pkern s) i = proc_at (fkern f) i" for i using s(2) len by (simp add: proc_at_def)
  have "\<not> dead (proc_at (fkern f) TASK_PM)" using native [of TASK_PM] kp by (simp add: keeps_def dead_state_def)
  then show ?thesis using s len fnone at by (simp add: os_ok_def)
qed


lemma sample_pm_ok: "os_ok sample_pm"
  using sample_pm_files sample_pm_length
  by (auto simp: os_ok_def sample_pm_proc dead_state_def zero_proc_def split: if_splits)


end
