(* ===== verification/Fair.thy ===== *)
theory Fair
  imports Ipc
begin

text \<open>
  Progress under the clock: while processes only compute, clock interrupts give every runnable process with a
  positive priority its turn, within a number of ticks that the ticks and priorities in the table bound.
\<close>

section \<open>A run of clock interrupts\<close>

fun clock_ticks :: "nat \<Rightarrow> kernel \<Rightarrow> kernel outcome" where
  "clock_ticks 0 s = Inr s"
| "clock_ticks (Suc n) s = obind (clock_handler s) (clock_ticks n)"

text \<open>What the runnable processes have left together, and what a refill gives them.\<close>

definition ticks_left :: "proc list \<Rightarrow> nat" where
  "ticks_left ps = (\<Sum>p \<leftarrow> ps. if proc_state p = RUNNABLE then nat (ticks p) else 0)"

definition ticks_full :: "proc list \<Rightarrow> nat" where
  "ticks_full ps = (\<Sum>p \<leftarrow> ps. if proc_state p = RUNNABLE then nat (priority p) else 0)"

definition computing :: "kernel \<Rightarrow> bool" where
  "computing s \<longleftrightarrow> key_pressed s = 0 \<and> nested_int s = 0 \<and>
     (\<exists>c < length (proc_table s). p_proc_ready s = int c \<and> proc_state (proc_table s ! c) = RUNNABLE \<and> 0 \<le> ticks (proc_table s ! c))"

lemma sum_list_update_nat:
  "k < length xs \<Longrightarrow> (\<Sum>x \<leftarrow> xs[k := y]. f x) + f (xs ! k) = (\<Sum>x \<leftarrow> xs. f x) + (f y :: nat)"
  by (induction xs arbitrary: k) (auto split: nat.split)

lemma ticks_left_charge:
  assumes "c < length ps" "proc_state (ps ! c) = RUNNABLE" "0 < ticks (ps ! c)"
  shows "Suc (ticks_left (ps[c := (ps ! c)\<lparr>ticks := ticks (ps ! c) - 1\<rparr>])) = ticks_left ps"
proof -
  have "nat (ticks (ps ! c)) = Suc (nat (ticks (ps ! c) - 1))" using assms(3) by linarith
  then show ?thesis
    using sum_list_update_nat [OF assms(1), of "\<lambda>p. if proc_state p = RUNNABLE then nat (ticks p) else 0"
        "(ps ! c)\<lparr>ticks := ticks (ps ! c) - 1\<rparr>"] assms(2)
    unfolding ticks_left_def by simp
qed

lemma ticks_full_charge: "c < length ps \<Longrightarrow> ticks_full (ps[c := (ps ! c)\<lparr>ticks := t\<rparr>]) = ticks_full ps"
  using sum_list_update_nat [of c ps "\<lambda>p. if proc_state p = RUNNABLE then nat (priority p) else 0" "(ps ! c)\<lparr>ticks := t\<rparr>"]
  unfolding ticks_full_def by (simp split: if_splits)

lemma ticks_left_refill: "ticks_left (sched_refill ps) = ticks_full ps"
  unfolding ticks_left_def ticks_full_def sched_refill_def by (induction ps) auto

text \<open>One interrupt charges the current process and goes on with it while it has ticks; otherwise the scheduler
  makes its choice.\<close>

definition charged :: "kernel \<Rightarrow> proc list" where
  "charged s = (let c = nat (p_proc_ready s); p = proc_table s ! c
     in if ticks p = 0 then proc_table s else (proc_table s)[c := p\<lparr>ticks := ticks p - 1\<rparr>])"

lemma clock_handler_computing:
  assumes "computing s" "0 < ticks (charged s ! nat (p_proc_ready s)) \<or> has_ticks (charged s) \<or> has_priority (charged s)"
  shows "\<exists>s'. clock_handler s = Inr s' \<and> key_pressed s' = 0 \<and> nested_int s' = 0 \<and>
    (0 < ticks (charged s ! nat (p_proc_ready s)) \<and> proc_table s' = charged s \<and> p_proc_ready s' = p_proc_ready s \<or>
     (has_ticks (charged s) \<and> proc_table s' = charged s \<or> \<not> has_ticks (charged s) \<and> proc_table s' = sched_refill (charged s)) \<and>
       is_choice (proc_table s') (p_proc_ready s'))"
proof -
  obtain c where c: "c < length (proc_table s)" "p_proc_ready s = int c" "key_pressed s = 0" "nested_int s = 0"
    using assms(1) by (auto simp: computing_def)
  let ?t = "clock_tick s"
  have t: "proc_table ?t = charged s" "p_proc_ready ?t = int c" "key_pressed ?t = 0" "nested_int ?t = 0"
    using c by (simp_all add: clock_tick_def charged_def Let_def upd_proc_def put_proc_def proc_at_def)
  have at: "proc_at ?t (p_proc_ready ?t) = charged s ! c" "c < length (charged s)"
    using c t(1, 2) by (simp_all add: proc_at_def) (simp_all add: charged_def Let_def)
  show ?thesis
  proof (cases "0 < ticks (charged s ! c)")
    case True
    then have "clock_handler s = Inr ?t" using t at by (simp add: clock_handler_def Let_def)
    with True t c(2) show ?thesis by auto
  next
    case False
    then have run: "clock_handler s = of_loop (schedule ?t)" using t at by (simp add: clock_handler_def Let_def)
    from False assms(2) c(2) have "has_ticks (proc_table ?t) \<or> has_priority (proc_table ?t)" by (simp add: t(1))
    then obtain s' where s': "schedule ?t = Some s'" "has_ticks (charged s) \<and> proc_table s' = charged s \<or>
        \<not> has_ticks (charged s) \<and> proc_table s' = sched_refill (charged s)"
      using schedule_ready [of ?t] schedule_ready [of "?t\<lparr>proc_table := sched_refill (proc_table ?t)\<rparr>"] schedule_refills [of ?t]
      by (cases "has_ticks (proc_table ?t)") (auto simp: has_ticks_refill t(1))
    with run schedule_frame [OF s'(1)] t show ?thesis by auto
  qed
qed

section \<open>Waiting for a turn\<close>

text \<open>The interrupts until every runnable process has used up its ticks.\<close>

definition round_left :: "kernel \<Rightarrow> nat" where
  "round_left s = ticks_left (proc_table s) + (if ticks (proc_table s ! nat (p_proc_ready s)) = 0 then 1 else 0)"

definition ready_at :: "kernel \<Rightarrow> nat \<Rightarrow> bool" where
  "ready_at s i \<longleftrightarrow> i < length (proc_table s) \<and> proc_state (proc_table s ! i) = RUNNABLE \<and>
     (0 < ticks (proc_table s ! i) \<or> 0 < priority (proc_table s ! i))"

text \<open>As long as another process is current, an interrupt shortens the round or starts a new one.\<close>

lemma clock_step:
  assumes "computing s" "ready_at s i" "p_proc_ready s \<noteq> int i"
  shows "\<exists>s'. clock_handler s = Inr s' \<and> computing s' \<and> ready_at s' i \<and> ticks_full (proc_table s') = ticks_full (proc_table s) \<and>
    (Suc (round_left s') = round_left s \<and> ticks (proc_table s' ! i) = ticks (proc_table s ! i) \<or>
     ticks (proc_table s ! i) \<le> 0 \<and> round_left s' = ticks_full (proc_table s) \<and> 0 < round_left s \<and> 0 < ticks (proc_table s' ! i))"
proof -
  obtain c where c: "c < length (proc_table s)" "p_proc_ready s = int c" "proc_state (proc_table s ! c) = RUNNABLE"
    "0 \<le> ticks (proc_table s ! c)" using assms(1) by (auto simp: computing_def)
  let ?ps = "charged s"
  have ic: "i \<noteq> c" using assms(3) c(2) by auto
  have len: "length ?ps = length (proc_table s)" by (simp add: charged_def Let_def)
  have i: "i < length ?ps" "?ps ! i = proc_table s ! i" using assms(2) ic c(2) by (auto simp: charged_def Let_def ready_at_def)
  have cc: "proc_state (?ps ! c) = RUNNABLE" "0 \<le> ticks (?ps ! c)" using c by (simp_all add: charged_def Let_def)
  have full: "ticks_full ?ps = ticks_full (proc_table s)" using c by (simp add: charged_def Let_def ticks_full_charge)
  have left: "Suc (ticks_left ?ps) = round_left s"
    using c ticks_left_charge [OF c(1, 3)] by (auto simp: charged_def Let_def round_left_def)
  have "has_ticks ?ps \<or> has_priority ?ps"
    using i assms(2) unfolding has_ticks_def has_priority_def ready_at_def by (metis nth_mem)
  with clock_handler_computing [OF assms(1)] obtain s' where s': "clock_handler s = Inr s'" "key_pressed s' = 0" "nested_int s' = 0"
    "0 < ticks (?ps ! c) \<and> proc_table s' = ?ps \<and> p_proc_ready s' = int c \<or>
     (has_ticks ?ps \<and> proc_table s' = ?ps \<or> \<not> has_ticks ?ps \<and> proc_table s' = sched_refill ?ps) \<and> is_choice (proc_table s') (p_proc_ready s')"
    unfolding c(2) by auto
  then obtain c' where c': "c' < length (proc_table s')" "p_proc_ready s' = int c'" "proc_state (proc_table s' ! c') = RUNNABLE"
    "0 < ticks (proc_table s' ! c')" using cc c(1) len by (auto simp: is_choice_def)
  then have comp: "computing s'" "round_left s' = ticks_left (proc_table s')" using s'(2, 3) by (auto simp: computing_def round_left_def)
  show ?thesis
  proof (cases "proc_table s' = ?ps")
    case True
    with s'(1) comp left full i assms(2) show ?thesis by (auto simp: ready_at_def)
  next
    case False
    then have new: "\<not> has_ticks ?ps" "proc_table s' = sched_refill ?ps" using s'(4) by auto
    then have "\<not> 0 < ticks (?ps ! i)" using i assms(2) nth_mem unfolding has_ticks_def ready_at_def by metis
    moreover have "proc_table s' ! i = (?ps ! i)\<lparr>ticks := priority (?ps ! i)\<rparr>"
      using i assms(2) by (simp add: new(2) sched_refill_def ready_at_def)
    moreover have "ticks_full (sched_refill ps) = ticks_full ps" for ps
      unfolding ticks_full_def sched_refill_def by (induction ps) auto
    ultimately show ?thesis using s'(1) comp left full i assms(2) len
      by (auto simp: ready_at_def new(2) ticks_left_refill)
  qed
qed

lemma runs_in_round:
  assumes "computing s" "ready_at s i" "0 < ticks (proc_table s ! i)"
  shows "\<exists>n s'. n \<le> round_left s \<and> clock_ticks n s = Inr s' \<and> p_proc_ready s' = int i"
  using assms
proof (induction "round_left s" arbitrary: s rule: less_induct)
  case less
  show ?case
  proof (cases "p_proc_ready s = int i")
    case False
    with less.prems obtain s1 where s1: "clock_handler s = Inr s1" "computing s1" "ready_at s1 i" "Suc (round_left s1) = round_left s"
      "0 < ticks (proc_table s1 ! i)" using clock_step [of s i] by auto
    with less.hyps [of s1] obtain n s' where "n \<le> round_left s1" "clock_ticks n s1 = Inr s'" "p_proc_ready s' = int i" by auto
    with s1 show ?thesis by (intro exI [of _ "Suc n"] exI [of _ s']) auto
  qed (auto intro!: exI [of _ 0])
qed

lemma runs_eventually:
  assumes "computing s" "ready_at s i"
  shows "\<exists>n s'. n \<le> round_left s + ticks_full (proc_table s) \<and> clock_ticks n s = Inr s' \<and> p_proc_ready s' = int i"
  using assms
proof (induction "round_left s" arbitrary: s rule: less_induct)
  case less
  show ?case
  proof (cases "p_proc_ready s = int i")
    case False
    from clock_step [OF less.prems False] obtain s1 where s1: "clock_handler s = Inr s1" "computing s1" "ready_at s1 i"
      "ticks_full (proc_table s1) = ticks_full (proc_table s)" and
      d: "Suc (round_left s1) = round_left s \<or> round_left s1 = ticks_full (proc_table s) \<and> 0 < round_left s \<and> 0 < ticks (proc_table s1 ! i)"
      by blast
    from d have "\<exists>n s'. Suc n \<le> round_left s + ticks_full (proc_table s) \<and> clock_ticks n s1 = Inr s' \<and> p_proc_ready s' = int i"
    proof
      assume eq: "Suc (round_left s1) = round_left s"
      with less.hyps [OF _ s1(2, 3)] obtain n s' where
        "n \<le> round_left s1 + ticks_full (proc_table s1)" "clock_ticks n s1 = Inr s'" "p_proc_ready s' = int i" by auto
      with eq s1(4) show ?thesis by (intro exI [of _ n] exI [of _ s']) linarith
    next
      assume new: "round_left s1 = ticks_full (proc_table s) \<and> 0 < round_left s \<and> 0 < ticks (proc_table s1 ! i)"
      with runs_in_round [OF s1(2, 3)] obtain n s' where
        "n \<le> round_left s1" "clock_ticks n s1 = Inr s'" "p_proc_ready s' = int i" by blast
      with new show ?thesis by (intro exI [of _ n] exI [of _ s']) linarith
    qed
    then obtain n s' where "Suc n \<le> round_left s + ticks_full (proc_table s)" "clock_ticks n s1 = Inr s'" "p_proc_ready s' = int i" by blast
    with s1(1) show ?thesis by (intro exI [of _ "Suc n"] exI [of _ s']) simp
  qed (auto intro!: exI [of _ 0])
qed

text \<open>C9: No runnable process starves. While processes only compute and no key is pressed, a runnable process with
  ticks left or a positive priority becomes the current process after at most as many clock interrupts as the
  runnable processes have ticks and priority together, and one more.\<close>

theorem no_starvation:
  assumes "key_pressed s = 0" and "nested_int s = 0" and "c < length (proc_table s)" and "p_proc_ready s = int c"
    and "proc_state (proc_table s ! c) = RUNNABLE" and "0 \<le> ticks (proc_table s ! c)"
    and "i < length (proc_table s)" and "proc_state (proc_table s ! i) = RUNNABLE"
    and "0 < ticks (proc_table s ! i) \<or> 0 < priority (proc_table s ! i)"
  shows "\<exists>n s'. n \<le> ticks_left (proc_table s) + ticks_full (proc_table s) + 1 \<and> clock_ticks n s = Inr s' \<and> p_proc_ready s' = int i"
proof -
  have "computing s" "ready_at s i" using assms by (auto simp: computing_def ready_at_def)
  from runs_eventually [OF this] obtain n s' where
    "n \<le> round_left s + ticks_full (proc_table s)" "clock_ticks n s = Inr s'" "p_proc_ready s' = int i" by blast
  moreover have "round_left s \<le> ticks_left (proc_table s) + 1" by (simp add: round_left_def)
  ultimately show ?thesis by (intro exI [of _ n] exI [of _ s']) auto
qed

theorem no_starvation_witness:
  "\<exists>n s'. n \<le> 18 \<and> clock_ticks n (sample_sched\<lparr>p_proc_ready := 1\<rparr>) = Inr s' \<and> p_proc_ready s' = 0"
  using no_starvation [of "sample_sched\<lparr>p_proc_ready := 1\<rparr>" 1 0]
  by (simp add: sample_sched_def zero_proc_def ticks_left_def ticks_full_def)

end
