(* ===== verification/FsData.thy ===== *)
theory FsData
  imports FsInode FsOps
begin

text \<open>
  The contents of files: a device as a sequence of bytes, what reading and writing several sectors at once does to
  it, and what \<^verbatim>\<open>do_read_write_regular\<close> transfers between a process and a file.
\<close>

unbundle bit_operations_syntax

section \<open>A device as bytes\<close>

definition dev_byte :: "int \<Rightarrow> fs \<Rightarrow> nat \<Rightarrow> u8" where
  "dev_byte dev s x = sector dev s (x div 512) (of_nat (x mod 512))"

lemma buffer_sector_at: "j < 512 * k \<Longrightarrow> mm (buf + of_nat j) = sector_at mm (buf + 512 * of_nat (j div 512)) (of_nat (j mod 512))"
  by (simp add: sector_at_split)

lemma rd_sectors_bytes:
  assumes "disk_ok dev s" "n + k \<le> SECT_LIMIT" "0 < k" "k \<le> 256" "buffer_ok pid buf s"
  shows "\<exists>s'. rd_wr_sector DEV_READ dev (spos (int n)) (512 * int k) pid buf s = Inr s' \<and> disk_ok dev s' \<and> sector dev s' = sector dev s \<and> fs_rest s' = fs_rest s \<and>
    (\<forall>j < 512 * k. fmem s' (buf + of_nat j) = dev_byte dev s (512 * n + j)) \<and>
    (\<forall>x. 512 * k \<le> unat (x - buf) \<and> 512 \<le> unat (x - hdbuf (hds s)) \<longrightarrow> fmem s' x = fmem s x)"
proof -
  let ?r = "read_n (media (drive (hds s))) (hdbuf (hds s)) (dev_start dev s + of_nat n) buf k"
  obtain g where g: "rd_wr_sector DEV_READ dev (spos (int n)) (512 * int k) pid buf s = Inr (s\<lparr>hds := xferred ?r g (hds s)\<rparr>)" "same_disk (drive (hds s)) (g (drive (hds s)))"
    using rd_sectors_eq [OF assms] by blast
  have k: "k < 4194304" using assms(4) by simp
  have clear: "512 \<le> unat (buf + of_nat i - hdbuf (hds s))" if "i < 512 * k" for i
    using buffer_clear [OF assms(5), of i] that assms(4) by simp
  have "?r (fmem s) (buf + of_nat j) = dev_byte dev s (512 * n + j)" if j: "j < 512 * k" for j
  proof -
    have "n + j div 512 < SECT_LIMIT" using j assms(2) by (simp add: less_mult_imp_div_less mult.commute)
    moreover have "unat (of_nat (j mod 512) :: u32) < 512" by (subst unat_of_nat_u32) (auto intro: less_trans [OF mod_less_divisor])
    ultimately show ?thesis using read_n_data [OF j k clear] by (simp add: dev_byte_def sector_def add.assoc)
  qed
  moreover have "?r (fmem s) x = fmem s x" if "512 * k \<le> unat (x - buf)" "512 \<le> unat (x - hdbuf (hds s))" for x
    using read_n_frame k that by simp
  ultimately show ?thesis using g assms(1)
    by (intro exI [of _ "s\<lparr>hds := xferred ?r g (hds s)\<rparr>"]) (simp add: disk_ok_xferred sector_xferred same_disk_def)
qed

lemma wr_sectors_bytes:
  assumes "disk_ok dev s" "n + k \<le> SECT_LIMIT" "0 < k" "k \<le> 256" "buffer_ok pid buf s"
  shows "\<exists>s'. rd_wr_sector DEV_WRITE dev (spos (int n)) (512 * int k) pid buf s = Inr s' \<and> disk_ok dev s' \<and> fs_rest s' = fs_rest s \<and> fmem s' = fmem s \<and>
    (\<forall>x. dev_byte dev s' x = (if 512 * n \<le> x \<and> x < 512 * (n + k) then fmem s (buf + of_nat (x - 512 * n)) else dev_byte dev s x)) \<and>
    (\<forall>i. i < n \<or> n + k \<le> i \<longrightarrow> sector dev s' i = sector dev s i)"
proof -
  obtain g where g: "rd_wr_sector DEV_WRITE dev (spos (int n)) (512 * int k) pid buf s = Inr (s\<lparr>hds := xferred id g (hds s)\<rparr>)"
    "media (g (drive (hds s))) = write_n (media (drive (hds s))) (dev_start dev s + of_nat n) buf k (fmem s)"
    "busy (g (drive (hds s))) = busy (drive (hds s))" using wr_sectors_eq [OF assms] by blast
  let ?s = "s\<lparr>hds := xferred id g (hds s)\<rparr>"
  have sec: "sector dev ?s i = (if n \<le> i \<and> i < n + k then sector_at (fmem s) (buf + 512 * of_nat (i - n)) else sector dev s i)" for i
  proof -
    have "unat (dev_start dev s + of_nat i - (dev_start dev s + of_nat n)) < k \<longleftrightarrow> n \<le> i \<and> i < n + k" if "i < SECT_LIMIT"
    proof -
      have "dev_start dev s + of_nat i - (dev_start dev s + of_nat n) = (of_nat i - of_nat n :: u32)" by simp
      moreover have "unat (of_nat i :: u32) = i" "unat (of_nat n :: u32) = n" using that assms(2, 3) by (auto intro: unat_of_nat_u32)
      ultimately show ?thesis using that assms(2-4) by (simp add: unat_sub_if') auto
    qed
    moreover have "dev_start dev s + of_nat i - (dev_start dev s + of_nat n) = (of_nat (i - n) :: u32)" if "n \<le> i"
      using that by (simp add: of_nat_diff)
    ultimately show ?thesis using assms(2, 4)
      by (auto simp: sector_def g(2) write_n_eq sector_at_def fun_eq_iff)
  qed
  have "dev_byte dev ?s x = (if 512 * n \<le> x \<and> x < 512 * (n + k) then fmem s (buf + of_nat (x - 512 * n)) else dev_byte dev s x)" for x
  proof (cases "512 * n \<le> x \<and> x < 512 * (n + k)")
    case True
    then obtain y where y: "x = 512 * n + y" "y < 512 * k" using le_Suc_ex by fastforce
    then have "y div 512 < k" by (simp add: less_mult_imp_div_less mult.commute)
    then show ?thesis using True y sector_at_split [of "fmem s" buf y] by (simp add: dev_byte_def sec)
  next
    case False
    then have "\<not> (n \<le> x div 512 \<and> x div 512 < n + k)" by (auto simp: less_eq_div_iff_mult_less_eq div_less_iff_less_mult mult.commute)
    with False show ?thesis by (auto simp: dev_byte_def sec)
  qed
  then show ?thesis using g assms(1) sec by (intro exI [of _ ?s]) (auto simp: disk_ok_xferred)
qed

lemma RD_SECTS_bytes:
  assumes "disk_ok dev s" "n + k \<le> SECT_LIMIT" "0 < k" "k \<le> 256"
  shows "\<exists>s'. RD_SECTS dev (spos (int n)) (int k) s = Inr s' \<and> disk_ok dev s' \<and> sector dev s' = sector dev s \<and> fs_rest s' = fs_rest s \<and>
    (\<forall>j < 512 * k. fmem s' (fsbuf + of_nat j) = dev_byte dev s (512 * n + j)) \<and>
    (\<forall>x. 512 * k \<le> unat (x - fsbuf) \<and> 512 \<le> unat (x - hdbuf (hds s)) \<longrightarrow> fmem s' x = fmem s x)"
  using rd_sectors_bytes [OF assms fsbuf_ok [OF assms(1)]] by (simp add: RD_SECTS_def mult.commute)

lemma WR_SECTS_bytes:
  assumes "disk_ok dev s" "n + k \<le> SECT_LIMIT" "0 < k" "k \<le> 256"
  shows "\<exists>s'. WR_SECTS dev (spos (int n)) (int k) s = Inr s' \<and> disk_ok dev s' \<and> fs_rest s' = fs_rest s \<and> fmem s' = fmem s \<and>
    (\<forall>x. dev_byte dev s' x = (if 512 * n \<le> x \<and> x < 512 * (n + k) then fmem s (fsbuf + of_nat (x - 512 * n)) else dev_byte dev s x)) \<and>
    (\<forall>i. i < n \<or> n + k \<le> i \<longrightarrow> sector dev s' i = sector dev s i)"
  using wr_sectors_bytes [OF assms fsbuf_ok [OF assms(1)]] by (simp add: WR_SECTS_def mult.commute)

lemma dev_byte_cong: "sector dev s' = sector dev s \<Longrightarrow> dev_byte dev s' = dev_byte dev s"
  by (simp add: fun_eq_iff dev_byte_def)

lemma rest_va2la: "fs_rest s' = fs_rest s \<Longrightarrow> proc_va2la (fkern s') pid a = proc_va2la (fkern s) pid a"
proof -
  assume "fs_rest s' = fs_rest s"
  then have "(fkern s')\<lparr>kmem := (\<lambda>_. 0)\<rparr> = (fkern s)\<lparr>kmem := (\<lambda>_. 0)\<rparr>" by (simp add: fs_rest_def)
  moreover have "proc_va2la (k\<lparr>kmem := m\<rparr>) = proc_va2la k" for k m by (simp add: fun_eq_iff proc_va2la_def)
  ultimately show ?thesis by metis
qed

lemma buffer_ok_rest: "fs_rest s' = fs_rest s \<Longrightarrow> buffer_ok pid buf s' = buffer_ok pid buf s"
  using rest_va2la [of s' s] by (simp add: buffer_ok_def fs_rest_def)

section \<open>Changing part of some sectors\<close>

text \<open>The copied part of a buffer and the bytes elsewhere do not overlap.\<close>

lemma copy_clear:
  fixes buf :: u32
  assumes "apart la b buf 0x100000" "off + b \<le> 131072"
  shows "b \<le> unat (la - (buf + of_nat off))" "b \<le> unat (buf + of_nat off - la)"
proof -
  have "unat (la - buf - of_nat off) = unat (la - buf) - off"
    using assms unat_of_nat_u32 [of off] unat_sub [of "of_nat off" "la - buf"] by (simp add: apart_def word_le_nat_alt)
  then show "b \<le> unat (la - (buf + of_nat off))" using assms by (simp add: apart_def diff_diff_eq) linarith
  show "b \<le> unat (buf + of_nat off - la)" using assms apart_offset [OF assms(1), of off] by simp
qed

text \<open>Read \<open>k\<close> sectors, copy \<open>b\<close> bytes from \<open>la\<close> into the buffer at offset \<open>o'\<close>, write the sectors back.\<close>

lemma update_sectors:
  assumes "disk_ok dev s" "n + k \<le> SECT_LIMIT" "0 < k" "k \<le> 256" "buffer_ok pid buf s"
    and "apart la b buf 0x100000" "apart la b (hdbuf (hds s)) 512" "o' + b \<le> 512 * k"
  shows "\<exists>s1 s3. rd_wr_sector DEV_READ dev (spos (int n)) (512 * int k) pid buf s = Inr s1 \<and>
    rd_wr_sector DEV_WRITE dev (spos (int n)) (512 * int k) pid buf (upd_fmem (\<lambda>mm. phys_copy mm (buf + of_nat o') la (of_nat b)) s1) = Inr s3 \<and>
    fs_rest s1 = fs_rest s \<and> disk_ok dev s3 \<and> fs_rest s3 = fs_rest s \<and>
    (\<forall>x. dev_byte dev s3 x = (if 512 * n + o' \<le> x \<and> x < 512 * n + o' + b
      then fmem s (la + of_nat (x - (512 * n + o'))) else dev_byte dev s x)) \<and>
    (\<forall>x. 512 * k \<le> unat (x - buf) \<and> 512 \<le> unat (x - hdbuf (hds s)) \<longrightarrow> fmem s3 x = fmem s x)"
proof -
  have ob: "o' + b \<le> 131072" "unat (of_nat b :: u32) = b" using assms(4, 8) by (auto intro!: unat_of_nat_u32)
  obtain s1 where s1: "rd_wr_sector DEV_READ dev (spos (int n)) (512 * int k) pid buf s = Inr s1" "disk_ok dev s1" "sector dev s1 = sector dev s"
    "fs_rest s1 = fs_rest s" "\<forall>j < 512 * k. fmem s1 (buf + of_nat j) = dev_byte dev s (512 * n + j)"
    "\<forall>x. 512 * k \<le> unat (x - buf) \<and> 512 \<le> unat (x - hdbuf (hds s)) \<longrightarrow> fmem s1 x = fmem s x"
    using rd_sectors_bytes [OF assms(1-5)] by blast
  let ?f = "\<lambda>mm. phys_copy mm (buf + of_nat o') la (of_nat b)"
  let ?s2 = "upd_fmem ?f s1"
  have u: "disk_ok dev ?s2" "sector dev ?s2 = sector dev s" "fs_rest ?s2 = fs_rest s" "fmem ?s2 = ?f (fmem s1)"
    using disk.upd_spec [OF s1(2)] s1(3, 4) by (simp_all add: upd_fmem_xferred)
  have bok: "buffer_ok pid buf ?s2" by (rule buffer_ok_rest [OF u(3), THEN iffD2, OF assms(5)])
  have user: "fmem s1 (la + of_nat j) = fmem s (la + of_nat j)" if "j < b" for j
    using s1(6) apart_offset [OF apart_sym [OF assms(6)] that] apart_offset [OF apart_sym [OF assms(7)] that] assms(4) by simp
  have copy: "?f (fmem s1) x = (if unat (x - (buf + of_nat o')) < b then fmem s1 (la + (x - (buf + of_nat o'))) else fmem s1 x)" for x
    using memcpy_eq [of "buf + of_nat o'" la "of_nat b" "fmem s1"] copy_clear(2) [OF assms(6) ob(1)] ob(2) by simp
  have jo: "unat (of_nat j :: u32) = j" if "j \<le> 131072" for j using that by (intro unat_of_nat_u32) simp
  have buffer: "?f (fmem s1) (buf + of_nat j) = (if o' \<le> j \<and> j < o' + b then fmem s (la + of_nat (j - o')) else dev_byte dev s (512 * n + j))"
    if j: "j < 512 * k" for j
  proof -
    have in_range: "unat (buf + of_nat j - (buf + of_nat o')) < b \<longleftrightarrow> o' \<le> j \<and> j < o' + b"
      using jo [of j] jo [of o'] j ob(1) assms(4) by (simp add: unat_sub_if') linarith
    show ?thesis
    proof (cases "o' \<le> j \<and> j < o' + b")
      case True
      then have "buf + of_nat j - (buf + of_nat o') = (of_nat (j - o') :: u32)" by (simp add: of_nat_diff)
      with True copy in_range user [of "j - o'"] show ?thesis by auto
    qed (use copy in_range s1(5) j in auto)
  qed
  obtain s3 where s3: "rd_wr_sector DEV_WRITE dev (spos (int n)) (512 * int k) pid buf ?s2 = Inr s3" "disk_ok dev s3" "fs_rest s3 = fs_rest ?s2"
    "fmem s3 = fmem ?s2"
    "\<forall>x. dev_byte dev s3 x = (if 512 * n \<le> x \<and> x < 512 * (n + k) then fmem ?s2 (buf + of_nat (x - 512 * n)) else dev_byte dev ?s2 x)"
    using wr_sectors_bytes [OF u(1) assms(2-4) bok] by blast
  have "dev_byte dev s3 x = (if 512 * n + o' \<le> x \<and> x < 512 * n + o' + b
      then fmem s (la + of_nat (x - (512 * n + o'))) else dev_byte dev s x)" for x
  proof (cases "512 * n \<le> x \<and> x < 512 * (n + k)")
    case True
    then obtain j where j: "x = 512 * n + j" "j < 512 * k" using le_Suc_ex by fastforce
    have "dev_byte dev s3 x = ?f (fmem s1) (buf + of_nat j)" using s3(5) True j u(4) by simp
    then show ?thesis using buffer [OF j(2)] j(1) by simp
  next
    case False
    then show ?thesis using s3(5) assms(8) dev_byte_cong [OF u(2)] by auto
  qed
  moreover have "fmem s3 x = fmem s x" if "512 * k \<le> unat (x - buf)" "512 \<le> unat (x - hdbuf (hds s))" for x
  proof -
    have "b \<le> unat (x - (buf + of_nat o'))"
    proof -
      have "unat (x - buf - of_nat o') = unat (x - buf) - o'"
        using that(1) assms(8) jo [of o'] ob(1) unat_sub [of "of_nat o'" "x - buf"] by (simp add: word_le_nat_alt)
      then show ?thesis using that(1) assms(8) by (simp add: diff_diff_eq)
    qed
    then show ?thesis using s3(4) u(4) copy s1(6) that by simp
  qed
  ultimately show ?thesis using s1(1, 4) s3(1-3) u(3) by (intro exI [of _ s1] exI [of _ s3]) simp
qed

section \<open>The part of a file a request is about\<close>

text \<open>A request at position \<open>pos\<close> for \<open>n\<close> bytes touches \<open>span pos n\<close> sectors of the file.\<close>

definition span :: "nat \<Rightarrow> nat \<Rightarrow> nat" where
  "span pos n = (pos + n) div 512 - pos div 512 + 1"

text \<open>The transfer ends at position \<open>pos + e\<close> and copies \<open>b\<close> bytes.\<close>

definition rw_ready :: "int \<Rightarrow> nat \<Rightarrow> nat \<Rightarrow> u32 \<Rightarrow> u32 \<Rightarrow> int \<Rightarrow> nat \<Rightarrow> nat \<Rightarrow> nat \<Rightarrow> fs \<Rightarrow> bool" where
  "rw_ready dev i d buf la pid pos e b s \<longleftrightarrow> disk_ok dev s \<and> i < length (inode_table s) \<and> inode_dev (inode_table s ! i) = dev \<and>
     inode_file_type (inode_table s ! i) = TYPE_REGULAR \<and> d < length (file_desc_table s) \<and> fd_pos (file_desc_table s ! d) = int pos \<and>
     proc_va2la (fkern s) pid buf = Inr la \<and> apart la b fsbuf 0x100000 \<and> apart la b (hdbuf (hds s)) 512 \<and>
     unat (inode_sect_start (inode_table s ! i)) + (pos + e) div 512 < SECT_LIMIT \<and> span pos e \<le> 256"

abbreviation first_byte :: "nat \<Rightarrow> fs \<Rightarrow> nat" where
  "first_byte i s \<equiv> 512 * unat (inode_sect_start (inode_table s ! i))"

lemma va2la_task: "proc_va2la k pid a = Inr a \<Longrightarrow> pid < 9 \<Longrightarrow> proc_va2la k pid b = Inr b"
  by (simp add: proc_va2la_def Let_def c_assert_def split: if_splits)

lemma span_bytes: "pos mod 512 + n \<le> 512 * span pos n"
proof -
  have "pos + n < 512 * ((pos + n) div 512) + 512" using dividend_less_times_div [of 512 "pos + n"] by simp
  moreover have "512 * (pos div 512) + pos mod 512 = pos" by simp
  moreover have "pos div 512 \<le> (pos + n) div 512" by (simp add: div_le_mono)
  then have "512 * span pos n = 512 * ((pos + n) div 512) - 512 * (pos div 512) + 512" by (simp add: span_def diff_mult_distrib2)
  ultimately show ?thesis by linarith
qed

lemma sect_of_pos:
  assumes "unat st + m < SECT_LIMIT"
  shows "sint (st + word_of_int (int m) :: u32) = int (unat st + m)"
proof -
  have "st + word_of_int (int m) = (of_nat (unat st + m) :: u32)" by simp
  moreover have "sint (of_nat (unat st + m) :: u32) = int (unat st + m)" using assms by (intro sint_of_nat_u32) simp
  ultimately show ?thesis by simp
qed

text \<open>The transfer loop makes one round: it reads the sectors, copies and, when writing, writes them back.\<close>

lemma rw_loop_once:
  assumes "rw_ready dev i d buf la pid pos e b s" "b = min n (512 * span pos e - pos mod 512)"
  defines "m \<equiv> unat (inode_sect_start (inode_table s ! i)) + pos div 512"
  shows "rw_loop d dev buf pid (int (span pos e)) (int m + int (span pos e) - 1) (int m) (int (pos mod 512)) 0 (int n) s =
    obind (RD_SECTS dev (spos (int m)) (int (span pos e)) s) (\<lambda>s1.
    obind (if type (fs_msg s) = FS_READ then Inr (upd_fmem (\<lambda>mm. phys_copy mm la (fsbuf + of_nat (pos mod 512)) (of_nat b)) s1)
           else WR_SECTS dev (spos (int m)) (int (span pos e)) (upd_fmem (\<lambda>mm. phys_copy mm (fsbuf + of_nat (pos mod 512)) la (of_nat b)) s1)) (\<lambda>s2.
    Inr (int b, upd_fd d (\<lambda>f. f\<lparr>fd_pos := fd_pos f + int b\<rparr>) s2)))"
    and "m + span pos e \<le> SECT_LIMIT" "0 < span pos e" "span pos e \<le> 256"
proof -
  show sp: "0 < span pos e" "span pos e \<le> 256" using assms(1) by (simp_all add: span_def rw_ready_def)
  have "pos div 512 \<le> (pos + e) div 512" by (simp add: div_le_mono)
  then show lim: "m + span pos e \<le> SECT_LIMIT" using assms(1) by (simp add: rw_ready_def m_def span_def)
  have ok: "disk_ok dev s" using assms(1) by (simp add: rw_ready_def)
  obtain s1 where s1: "RD_SECTS dev (spos (int m)) (int (span pos e)) s = Inr s1" "fs_rest s1 = fs_rest s"
    using RD_SECTS_bytes [OF ok lim sp] by blast
  have la: "proc_va2la (fkern s1) pid buf = Inr la" "proc_va2la (fkern s1) TASK_FS (fsbuf + of_nat (pos mod 512)) = Inr (fsbuf + of_nat (pos mod 512))"
    using assms(1) rest_va2la [OF s1(2)] va2la_task [of "fkern s" TASK_FS fsbuf] by (simp_all add: rw_ready_def disk_ok_def)
  have "pos mod 512 < 512" by simp
  then have "pos mod 512 \<le> 512 * span pos e" using sp(1) by linarith
  then have min: "min (int n) (int (span pos e) * SECTOR_SIZE - int (pos mod 512)) = int b"
    using assms(2) by (simp add: min_def of_nat_diff) linarith
  have last: "rw_loop d dev buf pid (int (span pos e)) (int m + int (span pos e) - 1) (int m + int (span pos e)) 0 b l t = Inr (b, t)" for b l t
    using sp(1) by (subst rw_loop.simps) simp
  show "rw_loop d dev buf pid (int (span pos e)) (int m + int (span pos e) - 1) (int m) (int (pos mod 512)) 0 (int n) s =
    obind (RD_SECTS dev (spos (int m)) (int (span pos e)) s) (\<lambda>s1.
    obind (if type (fs_msg s) = FS_READ then Inr (upd_fmem (\<lambda>mm. phys_copy mm la (fsbuf + of_nat (pos mod 512)) (of_nat b)) s1)
           else WR_SECTS dev (spos (int m)) (int (span pos e)) (upd_fmem (\<lambda>mm. phys_copy mm (fsbuf + of_nat (pos mod 512)) la (of_nat b)) s1)) (\<lambda>s2.
    Inr (int b, upd_fd d (\<lambda>f. f\<lparr>fd_pos := fd_pos f + int b\<rparr>) s2)))"
    using sp(1) s1(1) la min
    by (subst rw_loop.simps) (auto simp: Let_def last obind_def split: sum.split)
qed

text \<open>The end position of a request: the limit is the file size when reading, the space of the file when writing.\<close>

definition rw_limit :: "nat \<Rightarrow> fs \<Rightarrow> u32" where
  "rw_limit i s = (if type (fs_msg s) = FS_READ then inode_file_size (inode_table s ! i) else inode_nr_sects (inode_table s ! i) * 512)"

lemma umin_eq:
  assumes "x < 2147483648" "unat y < 2147483648"
  shows "umin (int x) y = int (min x (unat y))"
proof -
  have "word_of_int (int x) < y \<longleftrightarrow> x < unat y" using assms(1) unat_of_nat_u32 [of x] by (simp add: word_less_nat_alt)
  moreover have "sint y = int (unat y)" using assms(2) by (rule sint_u32_unat)
  ultimately show ?thesis by (simp add: umin_def)
qed

lemma rw_regular:
  assumes "rw_ready dev i d buf la pid pos e b s" "b = min n (512 * span pos e - pos mod 512)"
    and "type (fs_msg s) = FS_READ \<or> type (fs_msg s) = FS_WRITE" "pos + n < 2147483648" "unat (rw_limit i s) < 2147483648"
    and "pos + e = min (pos + n) (unat (rw_limit i s))"
  defines "m \<equiv> unat (inode_sect_start (inode_table s ! i)) + pos div 512"
  shows "do_read_write_regular i buf (int n) pid d s =
    obind (rw_loop d dev buf pid (int (span pos e)) (int m + int (span pos e) - 1) (int m) (int (pos mod 512)) 0 (int n) s) (\<lambda>(bytes_rw, s1).
      let fpos = fd_pos (file_desc_table s1 ! d)
      in if word_of_int fpos > inode_file_size (inode_table s1 ! i)
         then obind (write_inode i (upd_inode i (\<lambda>q. q\<lparr>inode_file_size := word_of_int fpos\<rparr>) s1)) (\<lambda>s2. Inr (bytes_rw, s2))
         else Inr (bytes_rw, s1))"
proof -
  let ?p = "inode_table s ! i"
  have r: "inode_file_type ?p = TYPE_REGULAR" "inode_dev ?p = dev" "fd_pos (file_desc_table s ! d) = int pos"
    "unat (inode_sect_start ?p) + (pos + e) div 512 < SECT_LIMIT" "span pos e \<le> 256" using assms(1) by (simp_all add: rw_ready_def)
  have le: "pos div 512 \<le> (pos + e) div 512" by (simp add: div_le_mono)
  have "s32 (int pos + int n) = int (pos + n)" using assms(4) by (simp add: s32_id)
  then have pend: "umin (s32 (int pos + int n)) (rw_limit i s) = int (pos + e)" using umin_eq [OF assms(4, 5)] assms(6) by simp
  have smin: "sint (inode_sect_start ?p + word_of_int (int pos div SECTOR_SIZE)) = int m"
    using sect_of_pos [of "inode_sect_start ?p" "pos div 512"] r(4) le by (simp add: zdiv_int m_def)
  have smax: "sint (inode_sect_start ?p + word_of_int (int (pos + e) div SECTOR_SIZE)) = int m + int (span pos e) - 1"
    using sect_of_pos [of "inode_sect_start ?p" "(pos + e) div 512"] r(4) le by (simp add: zdiv_int m_def span_def)
  have off: "int pos smod SECTOR_SIZE = int (pos mod 512)" by (simp add: smod_nonneg zmod_int)
  have chunk: "min (int m + int (span pos e) - 1 - int m + 1) (FS_BUF_SIZE div SECTOR_SIZE) = int (span pos e)" using r(5) by simp
  show ?thesis
    using assms(3) r(1-3) unfolding do_read_write_regular_def Let_def r(2, 3) rw_limit_def [symmetric] pend smin smax off chunk by auto
qed

section \<open>What is transferred\<close>

definition moved :: "nat \<Rightarrow> nat \<Rightarrow> fs \<Rightarrow> fs" where
  "moved d b = upd_fd d (\<lambda>f. f\<lparr>fd_pos := fd_pos f + int b\<rparr>)"

lemma upd_fd_disk [simp]:
  "disk_ok dev (upd_fd d f s) = disk_ok dev s" "sector dev (upd_fd d f s) = sector dev s" "fmem (upd_fd d f s) = fmem s"
  by (simp_all add: upd_fd_def disk_ok_def sector_def dev_start_def fun_eq_iff)

lemma fs_rest_upd_fd: "fs_rest s' = fs_rest s \<Longrightarrow> fs_rest (upd_fd d f s') = fs_rest (upd_fd d f s)"
  by (simp add: fs_rest_def upd_fd_def)

lemma rw_size:
  assumes "b = min n (512 * span pos e - pos mod 512)" "span pos e \<le> 256"
  shows "pos mod 512 + b \<le> 131072" "pos mod 512 + b \<le> 512 * span pos e" "unat (of_nat b :: u32) = b"
proof -
  have "pos mod 512 < 512" by simp
  moreover have "0 < span pos e" by (simp add: span_def)
  ultimately have off: "pos mod 512 \<le> 512 * span pos e" by linarith
  then show le: "pos mod 512 + b \<le> 512 * span pos e" using assms(1) by simp
  then show "pos mod 512 + b \<le> 131072" using assms(2) by linarith
  then show "unat (of_nat b :: u32) = b" by (intro unat_of_nat_u32) simp
qed

lemma read_transfer:
  assumes "rw_ready dev i d buf la pid pos e b s" "b = min n (512 * span pos e - pos mod 512)" "type (fs_msg s) = FS_READ"
  defines "m \<equiv> unat (inode_sect_start (inode_table s ! i)) + pos div 512"
  shows "\<exists>s1. rw_loop d dev buf pid (int (span pos e)) (int m + int (span pos e) - 1) (int m) (int (pos mod 512)) 0 (int n) s = Inr (int b, s1) \<and>
    read_bytes (fmem s1) la b = map (\<lambda>j. dev_byte dev s (first_byte i s + pos + j)) [0..<b] \<and>
    disk_ok dev s1 \<and> sector dev s1 = sector dev s \<and> fs_rest s1 = fs_rest (moved d b s)"
proof -
  note once = rw_loop_once [OF assms(1, 2), folded m_def]
  have r: "disk_ok dev s" "apart la b fsbuf 0x100000" using assms(1) by (simp_all add: rw_ready_def)
  note sz = rw_size [OF assms(2) once(4)]
  obtain s1 where s1: "RD_SECTS dev (spos (int m)) (int (span pos e)) s = Inr s1" "disk_ok dev s1" "sector dev s1 = sector dev s"
    "fs_rest s1 = fs_rest s" "\<forall>j < 512 * span pos e. fmem s1 (fsbuf + of_nat j) = dev_byte dev s (512 * m + j)"
    using RD_SECTS_bytes [OF r(1) once(2-4)] by blast
  let ?f = "\<lambda>mm. phys_copy mm la (fsbuf + of_nat (pos mod 512)) (of_nat b)"
  have "read_bytes (?f (fmem s1)) la b = read_bytes (fmem s1) (fsbuf + of_nat (pos mod 512)) b"
    using memcpy_read [of la "fsbuf + of_nat (pos mod 512)" "of_nat b" "fmem s1"] copy_clear(1) [OF r(2) sz(1)] sz(3) by simp
  also have "\<dots> = map (\<lambda>j. dev_byte dev s (first_byte i s + pos + j)) [0..<b]"
  proof (unfold read_bytes_def, rule map_cong [OF refl])
    fix j assume "j \<in> set [0..<b]"
    then have "pos mod 512 + j < 512 * span pos e" using sz(2) by simp
    then have "fmem s1 (fsbuf + of_nat (pos mod 512 + j)) = dev_byte dev s (512 * m + (pos mod 512 + j))" using s1(5) by blast
    moreover have "512 * m + (pos mod 512 + j) = first_byte i s + pos + j" by (simp add: m_def distrib_left)
    ultimately show "fmem s1 (fsbuf + of_nat (pos mod 512) + of_nat j) = dev_byte dev s (first_byte i s + pos + j)" by (simp add: add.assoc)
  qed
  finally have "read_bytes (fmem (moved d b (upd_fmem ?f s1))) la b = map (\<lambda>j. dev_byte dev s (first_byte i s + pos + j)) [0..<b]"
    by (simp add: moved_def upd_fmem_xferred)
  moreover have "disk_ok dev (upd_fmem ?f s1)" "sector dev (upd_fmem ?f s1) = sector dev s" "fs_rest (upd_fmem ?f s1) = fs_rest s"
    using disk.upd_spec [OF s1(2)] s1(3, 4) by simp_all
  moreover from this(3) have "fs_rest (moved d b (upd_fmem ?f s1)) = fs_rest (moved d b s)" unfolding moved_def by (rule fs_rest_upd_fd)
  moreover have "rw_loop d dev buf pid (int (span pos e)) (int m + int (span pos e) - 1) (int m) (int (pos mod 512)) 0 (int n) s =
      Inr (int b, moved d b (upd_fmem ?f s1))" unfolding once(1) s1(1) assms(3) by (simp add: moved_def)
  ultimately show ?thesis by (intro exI [of _ "moved d b (upd_fmem ?f s1)"]) (simp add: moved_def)
qed

lemma write_transfer:
  assumes "rw_ready dev i d buf la pid pos e b s" "b = min n (512 * span pos e - pos mod 512)" "type (fs_msg s) = FS_WRITE"
  defines "m \<equiv> unat (inode_sect_start (inode_table s ! i)) + pos div 512"
  shows "\<exists>s1. rw_loop d dev buf pid (int (span pos e)) (int m + int (span pos e) - 1) (int m) (int (pos mod 512)) 0 (int n) s = Inr (int b, s1) \<and>
    (\<forall>x. dev_byte dev s1 x = (if first_byte i s + pos \<le> x \<and> x < first_byte i s + pos + b
      then fmem s (la + of_nat (x - (first_byte i s + pos))) else dev_byte dev s x)) \<and>
    disk_ok dev s1 \<and> fs_rest s1 = fs_rest (moved d b s)"
proof -
  note once = rw_loop_once [OF assms(1, 2), folded m_def]
  have r: "disk_ok dev s" "apart la b fsbuf 0x100000" "apart la b (hdbuf (hds s)) 512" using assms(1) by (simp_all add: rw_ready_def)
  let ?o = "pos mod 512" and ?k = "span pos e"
  let ?f = "\<lambda>mm. phys_copy mm (fsbuf + of_nat ?o) la (of_nat b)"
  obtain s1 s3 where s3: "RD_SECTS dev (spos (int m)) (int ?k) s = Inr s1" "WR_SECTS dev (spos (int m)) (int ?k) (upd_fmem ?f s1) = Inr s3"
    "disk_ok dev s3" "fs_rest s3 = fs_rest s" "\<forall>x. dev_byte dev s3 x = (if 512 * m + ?o \<le> x \<and> x < 512 * m + ?o + b
      then fmem s (la + of_nat (x - (512 * m + ?o))) else dev_byte dev s x)"
    using update_sectors [OF r(1) once(2-4) fsbuf_ok [OF r(1)] r(2, 3) rw_size(2) [OF assms(2) once(4)]]
    by (auto simp: RD_SECTS_def WR_SECTS_def mult.commute)
  have F: "first_byte i s + pos = 512 * m + ?o" by (simp add: m_def distrib_left)
  have "rw_loop d dev buf pid (int ?k) (int m + int ?k - 1) (int m) (int ?o) 0 (int n) s = Inr (int b, moved d b s3)"
    unfolding once(1) s3(1) using s3(2) assms(3) by (simp add: moved_def)
  moreover have "fs_rest (moved d b s3) = fs_rest (moved d b s)" unfolding moved_def by (rule fs_rest_upd_fd [OF s3(4)])
  moreover have "dev_byte dev (moved d b s3) = dev_byte dev s3" by (rule dev_byte_cong) (simp add: moved_def)
  ultimately show ?thesis using s3(3, 5) unfolding F by (intro exI [of _ "moved d b s3"]) (simp add: moved_def)
qed

end
