(* ===== verification/Sys.thy ===== *)
theory Sys
  imports Format Tty
begin

text \<open>
  The system task, \<^verbatim>\<open>src/task/task_sys.c\<close>, and its callers \<^verbatim>\<open>get_ticks\<close> (\<^verbatim>\<open>src/kernel/klib.c\<close>), \<^verbatim>\<open>getpid\<close>
  (\<^verbatim>\<open>src/lib/sys/getpid.c\<close>) and \<^verbatim>\<open>m_delay\<close> (\<^verbatim>\<open>src/device/timer.c\<close>).

  The CMOS clock is a function from register numbers to bytes. The task's turn on a message yields the kernel with
  memory changed and the reply with its destination, if there is one; \<open>t_addr\<close> is the address of its local
  structure.
\<close>

unbundle bit_operations_syntax

abbreviation (input) YEAR where "YEAR \<equiv> 9 :: u8"
abbreviation (input) MONTH where "MONTH \<equiv> 8 :: u8"
abbreviation (input) DAY where "DAY \<equiv> 7 :: u8"
abbreviation (input) HOUR where "HOUR \<equiv> 4 :: u8"
abbreviation (input) MINUTE where "MINUTE \<equiv> 2 :: u8"
abbreviation (input) SECOND where "SECOND \<equiv> 0 :: u8"
abbreviation (input) CLK_STATUS where "CLK_STATUS \<equiv> 0x0B :: u8"

record rtc_time =
  year :: u32
  month :: u32
  day :: u32
  hour :: u32
  minute :: u32
  second :: u32

definition BCD_TO_DEC :: "u32 \<Rightarrow> u32" where
  "BCD_TO_DEC x = drop_bit 4 x * 10 + (x AND 0x0F)"

definition CMOS_READ :: "(u8 \<Rightarrow> u8) \<Rightarrow> u8 \<Rightarrow> u32" where
  "CMOS_READ cmos reg = ucast (cmos reg)"

definition get_rtc_time :: "(u8 \<Rightarrow> u8) \<Rightarrow> rtc_time" where
  "get_rtc_time cmos =
     (let t = \<lparr>year = CMOS_READ cmos YEAR, month = CMOS_READ cmos MONTH, day = CMOS_READ cmos DAY,
               hour = CMOS_READ cmos HOUR, minute = CMOS_READ cmos MINUTE, second = CMOS_READ cmos SECOND\<rparr>;
          t' = (if CMOS_READ cmos CLK_STATUS AND 4 = 0
                then \<lparr>year = BCD_TO_DEC (year t), month = BCD_TO_DEC (month t), day = BCD_TO_DEC (day t),
                      hour = BCD_TO_DEC (hour t), minute = BCD_TO_DEC (minute t), second = BCD_TO_DEC (second t)\<rparr>
                else t)
      in t'\<lparr>year := year t' + 2000\<rparr>)"

definition put_rtc_time :: "rtc_time \<Rightarrow> u32 \<Rightarrow> mem \<Rightarrow> mem" where
  "put_rtc_time t a mm = wr32 (wr32 (wr32 (wr32 (wr32 (wr32 mm a (year t)) (a + 4) (month t)) (a + 8) (day t))
     (a + 12) (hour t)) (a + 16) (minute t)) (a + 20) (second t)"

definition task_sys_round :: "(u8 \<Rightarrow> u8) \<Rightarrow> u32 \<Rightarrow> message \<Rightarrow> kernel \<Rightarrow> ((int \<times> message) option \<times> kernel) outcome" where
  "task_sys_round cmos t_addr msg k =
     (let src = source msg
      in if type msg = SYS_GET_TICKS then Inr (Some (src, msg\<lparr>RETVAL := sys_ticks k, source := TASK_SYS\<rparr>), k)
         else if type msg = SYS_GET_PID then Inr (Some (src, msg\<lparr>type := SYSCALL_RET, PID := src, source := TASK_SYS\<rparr>), k)
         else if type msg = SYS_GET_RTC_TIME then
           (let k1 = k\<lparr>kmem := put_rtc_time (get_rtc_time cmos) t_addr (kmem k)\<rparr>
            in obind (proc_va2la k1 src (BUF msg)) (\<lambda>dst.
               obind (proc_va2la k1 TASK_SYS t_addr) (\<lambda>from.
               Inr (Some (src, msg\<lparr>type := SYSCALL_RET, source := TASK_SYS\<rparr>),
                    k1\<lparr>kmem := phys_copy (kmem k1) dst from 24\<rparr>))))
         else Inr (None, k))"

text \<open>A request and the wait for its reply.\<close>

definition sys_call :: "(u8 \<Rightarrow> u8) \<Rightarrow> u32 \<Rightarrow> int \<Rightarrow> message \<Rightarrow> kernel \<Rightarrow> (message \<times> kernel) outcome" where
  "sys_call cmos t_addr pid msg k =
     obind (task_sys_round cmos t_addr (msg\<lparr>source := pid\<rparr>) k) (\<lambda>(r, k').
       case r of Some (dest, m) \<Rightarrow> if dest = pid then Inr (m, k') else Inl Diverges | None \<Rightarrow> Inl Diverges)"

definition get_ticks :: "(u8 \<Rightarrow> u8) \<Rightarrow> u32 \<Rightarrow> int \<Rightarrow> kernel \<Rightarrow> (int \<times> kernel) outcome" where
  "get_ticks cmos t_addr pid k =
     obind (sys_call cmos t_addr pid (zero_msg\<lparr>type := SYS_GET_TICKS\<rparr>) k) (\<lambda>(m, k'). Inr (RETVAL m, k'))"

definition getpid :: "(u8 \<Rightarrow> u8) \<Rightarrow> u32 \<Rightarrow> int \<Rightarrow> kernel \<Rightarrow> (int \<times> kernel) outcome" where
  "getpid cmos t_addr pid k =
     obind (sys_call cmos t_addr pid (zero_msg\<lparr>type := SYS_GET_PID\<rparr>) k) (\<lambda>(m, k').
       c_assert (type m = SYSCALL_RET) (Inr (PID m, k')))"

text \<open>The loop of \<^verbatim>\<open>m_delay\<close> polls the tick counter; \<open>ts\<close> are the values it reads in turn. It returns how many were read.\<close>

fun m_delay_loop :: "int \<Rightarrow> int \<Rightarrow> int list \<Rightarrow> nat option" where
  "m_delay_loop milli_sec init_ticks [] = None"
| "m_delay_loop milli_sec init_ticks (t # ts) =
     (if s32 (s32 (t - init_ticks) * 1000) sdiv 100 < milli_sec then map_option Suc (m_delay_loop milli_sec init_ticks ts) else Some 1)"

section \<open>The date\<close>

text \<open>The byte a clock register holds for a number below 100, in binary or binary coded decimal.\<close>

definition clock_byte :: "bool \<Rightarrow> nat \<Rightarrow> u8" where
  "clock_byte bcd n = (if bcd then of_nat (16 * (n div 10) + n mod 10) else of_nat n)"

definition shows_date :: "(u8 \<Rightarrow> u8) \<Rightarrow> nat \<times> nat \<times> nat \<times> nat \<times> nat \<times> nat \<Rightarrow> bool" where
  "shows_date cmos = (\<lambda>(y, mo, d, h, mi, s). let bcd = (cmos CLK_STATUS AND 4 = 0) in
     cmos YEAR = clock_byte bcd y \<and> cmos MONTH = clock_byte bcd mo \<and> cmos DAY = clock_byte bcd d \<and>
     cmos HOUR = clock_byte bcd h \<and> cmos MINUTE = clock_byte bcd mi \<and> cmos SECOND = clock_byte bcd s)"

lemma ucast_byte: "k < 256 \<Longrightarrow> ucast (of_nat k :: u8) = (of_nat k :: u32)"
  by (rule word_unat_eq_iff [THEN iffD2]) (simp add: unsigned_of_nat unsigned_ucast_eq take_bit_nat_eq_self)

lemma BCD_TO_DEC_of_nat:
  assumes "k < 256"
  shows "BCD_TO_DEC (of_nat k) = of_nat (k div 16 * 10 + k mod 16)"
proof -
  have u: "unat (of_nat k :: u32) = k" using assms by (intro unat_of_nat_u32) simp
  have "unat (drop_bit 4 (of_nat k :: u32)) = k div 16" by (simp add: drop_bit_eq_div unat_div u)
  moreover have "unat ((of_nat k :: u32) AND 0x0F) = k mod 16"
    using u by (simp add: and_low_ones take_bit_eq_mod unat_mod)
  ultimately have "drop_bit 4 (of_nat k :: u32) = of_nat (k div 16)" "(of_nat k :: u32) AND 0x0F = of_nat (k mod 16)"
    using assms unat_of_nat_u32 [of "k div 16"] unat_of_nat_u32 [of "k mod 16"] by (simp_all only: word_unat_eq_iff)
  then show ?thesis by (simp only: BCD_TO_DEC_def) simp
qed

lemma BCD_TO_DEC_byte:
  assumes "n < 100"
  shows "BCD_TO_DEC (ucast (clock_byte True n)) = of_nat n"
proof -
  define k where "k = 16 * (n div 10) + n mod 10"
  have k: "k < 256" "k div 16 = n div 10" "k mod 16 = n mod 10" using assms by (simp_all add: k_def)
  have "clock_byte True n = of_nat k" by (simp add: clock_byte_def k_def)
  then have "BCD_TO_DEC (ucast (clock_byte True n)) = of_nat (k div 16 * 10 + k mod 16)"
    using BCD_TO_DEC_of_nat [OF k(1)] ucast_byte [OF k(1)] by (simp only:)
  also have "k div 16 * 10 + k mod 16 = n" unfolding k by simp
  finally show ?thesis .
qed

text \<open>Whatever the registers hold, the parts of the date are small.\<close>

lemma CMOS_READ_small:
  obtains k where "k < 256" "CMOS_READ cmos reg = of_nat k" "BCD_TO_DEC (CMOS_READ cmos reg) = of_nat (k div 16 * 10 + k mod 16)"
proof -
  define k where "k = unat (cmos reg)"
  have k: "k < 256" unfolding k_def using unsigned_less [of "cmos reg", where ?'a = nat] by simp
  have "cmos reg = of_nat k" by (simp add: k_def)
  then have c: "CMOS_READ cmos reg = of_nat k" using ucast_byte [OF k] by (simp only: CMOS_READ_def)
  with k BCD_TO_DEC_of_nat [OF k] that show ?thesis by simp
qed

lemma CMOS_READ_date:
  assumes "n < 100" "cmos reg = clock_byte bcd n"
  shows "(if bcd then BCD_TO_DEC (CMOS_READ cmos reg) else CMOS_READ cmos reg) = of_nat n"
  using assms BCD_TO_DEC_byte [OF assms(1)] ucast_byte [of n] by (auto simp: CMOS_READ_def clock_byte_def)

lemma get_rtc_time_date:
  assumes "shows_date cmos (y, mo, d, h, mi, s)" "y < 100" "mo < 100" "d < 100" "h < 100" "mi < 100" "s < 100"
  shows "get_rtc_time cmos = \<lparr>year = of_nat (2000 + y), month = of_nat mo, day = of_nat d, hour = of_nat h, minute = of_nat mi, second = of_nat s\<rparr>"
proof -
  have "CMOS_READ cmos CLK_STATUS AND 4 = 0 \<longleftrightarrow> cmos CLK_STATUS AND 4 = 0"
  proof -
    have "ucast (cmos CLK_STATUS) AND 4 = (0 :: u32) \<longleftrightarrow> \<not> bit (ucast (cmos CLK_STATUS) :: u32) 2"
      using and_exp_eq_0_iff_not_bit [of "ucast (cmos CLK_STATUS) :: u32" 2] by simp
    moreover have "cmos CLK_STATUS AND 4 = 0 \<longleftrightarrow> \<not> bit (cmos CLK_STATUS) 2"
      using and_exp_eq_0_iff_not_bit [of "cmos CLK_STATUS" 2] by simp
    ultimately show ?thesis by (simp add: CMOS_READ_def bit_simps)
  qed
  with assms CMOS_READ_date [of _ cmos _ "cmos CLK_STATUS AND 4 = 0"] show ?thesis
    by (auto simp: get_rtc_time_def shows_date_def Let_def)
qed

text \<open>The words of the structure at its address.\<close>

definition rtc_at :: "mem \<Rightarrow> u32 \<Rightarrow> rtc_time" where
  "rtc_at mm a = \<lparr>year = rd32 mm a, month = rd32 mm (a + 4), day = rd32 mm (a + 8), hour = rd32 mm (a + 12),
     minute = rd32 mm (a + 16), second = rd32 mm (a + 20)\<rparr>"

lemma rtc_at_put: "rtc_at (put_rtc_time t a mm) a = t"
  by (simp add: rtc_at_def put_rtc_time_def msg_offsets unat_u32_uminus)

lemma rtc_at_copy:
  assumes "dst = src \<or> 24 \<le> unat (dst - src)"
  shows "rtc_at (phys_copy mm dst src 24) dst = rtc_at mm src"
proof -
  have "rd32 (phys_copy mm dst src 24) (dst + of_nat k) = rd32 mm (src + of_nat k)" if "k \<le> 20" for k
  proof (rule rd32_cong)
    fix i assume i: "i < (4 :: nat)"
    have "unat (of_nat (k + i) :: u32) = k + i" using i that by (intro unat_of_nat_u32) simp
    then show "phys_copy mm dst src 24 (dst + of_nat k + of_nat i) = mm (src + of_nat k + of_nat i)"
      using i that assms by (simp add: memcpy_eq add.assoc)
  qed
  from this [of 0] this [of 4] this [of 8] this [of 12] this [of 16] this [of 20] show ?thesis by (simp add: rtc_at_def)
qed

text \<open>The date reaches the caller. When the clock shows a date, in binary or in binary coded decimal as its
  status register says, a process that asks the system task for the time gets an answer and finds the date in
  its buffer, the year counted from 2000.\<close>

theorem date_delivered:
  assumes "shows_date cmos (y, mo, d, h, mi, s)" and "y < 100" and "mo < 100" and "d < 100" and "h < 100" and "mi < 100" and "s < 100"
    and "proc_va2la k pid buf = Inr dst" and "proc_va2la k TASK_SYS t_addr = Inr t_addr" and "dst = t_addr \<or> 24 \<le> unat (dst - t_addr)"
  shows "\<exists>m k'. sys_call cmos t_addr pid (zero_msg\<lparr>type := SYS_GET_RTC_TIME, BUF := buf\<rparr>) k = Inr (m, k') \<and> type m = SYSCALL_RET \<and>
    rtc_at (kmem k') dst = \<lparr>year = of_nat (2000 + y), month = of_nat mo, day = of_nat d, hour = of_nat h, minute = of_nat mi, second = of_nat s\<rparr>"
proof -
  have "proc_va2la (k\<lparr>kmem := mm\<rparr>) p a = proc_va2la k p a" for mm p a by (simp add: proc_va2la_def)
  then show ?thesis
    using assms(8, 9) rtc_at_copy [OF assms(10)] get_rtc_time_date [OF assms(1-7)]
    by (simp add: sys_call_def task_sys_round_def Let_def rtc_at_put)
qed

theorem date_delivered_witness:
  "\<exists>m k'. sys_call ((\<lambda>_. 0)(9 := 0x24, 8 := 0x11, 7 := 0x18, 4 := 0x15, 2 := 0x59)) 0x50000 5
      (zero_msg\<lparr>type := SYS_GET_RTC_TIME, BUF := 0x60000\<rparr>) sample_machine = Inr (m, k') \<and>
    rtc_at (kmem k') 0x60000 = \<lparr>year = 2024, month = 11, day = 18, hour = 15, minute = 59, second = 0\<rparr>"
proof -
  have "proc_va2la sample_machine p a = Inr a" if "0 \<le> p" "p < 9" for p a
    using that by (simp add: proc_va2la_def Let_def proc_at_def ldt_idx_to_base_addr_def sample_machine_def zero_proc_def zero_gdt_desc_def)
  then show ?thesis
    using date_delivered [of "(\<lambda>_. 0)(9 := 0x24, 8 := 0x11, 7 := 0x18, 4 := 0x15, 2 := 0x59)" 24 11 18 15 59 0
        sample_machine 5 "0x60000" "0x60000" "0x50000"]
    by (auto simp: shows_date_def clock_byte_def)
qed

end
