(* ===== verification/Sprintf.thy ===== *)
theory Sprintf
  imports Format
begin

text \<open>
  Formatting with arguments given as values: \<open>fmt_out\<close> walks over the format as \<^verbatim>\<open>vsprintf\<close> does, but takes the arguments from
  a list, so that code which formats its own variables with a literal format need not lay them out on a stack.
  It agrees with \<^verbatim>\<open>vsprintf\<close> of \<^verbatim>\<open>src/lib/misc/vsprintf.c\<close> on every memory that holds the format and the arguments.
\<close>

unbundle bit_operations_syntax

datatype fmt_arg = Num int | Str "u8 list"

text \<open>One conversion; \<open>None\<close> when the argument is missing or of the wrong kind. Other letters print nothing.\<close>

fun fmt_conv :: "u8 \<Rightarrow> fmt_arg list \<Rightarrow> (u8 list \<times> fmt_arg list) option" where
  "fmt_conv c [] = (if c \<in> {99, 120, 100, 115} then None else Some ([], []))"
| "fmt_conv c (Num v # as) =
     (if c = 99 then Some ([word_of_int v], as)
      else if c = 120 then Some (i2a v 16, as)
      else if c = 100 then Some (if v < 0 then 45 # i2a (s32 (v * -1)) 10 else i2a v 10, as)
      else if c = 115 then None else Some ([], Num v # as))"
| "fmt_conv c (Str bs # as) = (if c = 115 then Some (bs, as) else if c \<in> {99, 120, 100} then None else Some ([], Str bs # as))"

function fmt_out :: "u8 list \<Rightarrow> fmt_arg list \<Rightarrow> u8 list option" where
  "fmt_out [] as = Some []"
| "fmt_out (c # fs) as =
     (if c \<noteq> 37 then map_option (\<lambda>r. c # r) (fmt_out fs as)
      else if take 1 fs = [37] then map_option (\<lambda>r. 37 # r) (fmt_out (drop 1 fs) as)
      else
        (let zero = (take 1 fs = [48]); fs1 = (if zero then drop 1 fs else fs)
         in case dropWhile is_digit fs1 of [] \<Rightarrow> None
            | k # fs2 \<Rightarrow>
              (case fmt_conv k as of None \<Rightarrow> None
               | Some (q, as') \<Rightarrow>
                   map_option (\<lambda>r. pad_inner (if zero then 48 else 32) (width_of (takeWhile is_digit fs1)) q @ r) (fmt_out fs2 as'))))"
  by pat_completeness auto
termination
proof (relation "measure (\<lambda>(fs, as). length fs)")
  fix c :: u8 and fs as zero fs1 k fs2
  assume "zero = (take 1 fs = [48])" "fs1 = (if zero then drop 1 fs else fs)" "dropWhile is_digit fs1 = k # fs2"
  then have "length (k # fs2) \<le> length fs" by (metis length_dropWhile_le length_drop diff_le_self le_trans)
  then show "((fs2, as'), (c # fs, as)) \<in> measure (\<lambda>(fs, as). length fs)" for as' :: "fmt_arg list" by simp
qed auto

declare fmt_out.simps(2) [simp del]

section \<open>Arguments in memory\<close>

fun arg_at :: "mem \<Rightarrow> u32 \<Rightarrow> fmt_arg \<Rightarrow> bool" where
  "arg_at m a (Num v) \<longleftrightarrow> sint (rd32 m a) = v"
| "arg_at m a (Str bs) \<longleftrightarrow> is_cstr m (rd32 m a) bs"

fun args_at :: "mem \<Rightarrow> u32 \<Rightarrow> fmt_arg list \<Rightarrow> bool" where
  "args_at m a [] \<longleftrightarrow> True"
| "args_at m a (x # xs) \<longleftrightarrow> arg_at m a x \<and> args_at m (a + 4) xs"

lemma read_cstr_is: "is_cstr m a bs \<Longrightarrow> read_cstr m a = Some bs"
  by (induction m a bs rule: is_cstr.induct) (subst read_cstr.simps, simp)+

lemma low_byte_arg: "m a = word_of_int (sint (rd32 m a))"
proof (rule bit_word_eqI)
  fix n assume "n < LENGTH(8)"
  then show "bit (m a) n = bit (word_of_int (sint (rd32 m a)) :: u8) n"
    by (simp add: rd32_def bit_simps)
qed

lemma fmt_conv_convert:
  assumes "args_at m a as" "fmt_conv c as = Some (q, as')"
  shows "\<exists>a'. convert m c a = Some (q, a') \<and> args_at m a' as'"
  using assms
proof (cases as)
  case (Cons x xs)
  then show ?thesis using assms low_byte_arg [of m a]
    by (cases x) (auto simp: convert_def Let_def read_cstr_is split: if_split_asm)
qed (auto simp: convert_def split: if_split_asm)

text \<open>One directive of the loop.\<close>

lemma vsprintf_directive:
  assumes "is_cstr m fmt (37 # fs)" "take 1 fs \<noteq> [37]" "zero = (take 1 fs = [48])" "fs1 = (if zero then drop 1 fs else fs)"
    and "dropWhile is_digit fs1 = k # fs2" "convert m k a = Some (q, a')"
  shows "\<exists>f2. is_cstr m f2 fs2 \<and>
    vsprintf_loop m fmt a out = vsprintf_loop m f2 a' (out @ pad_inner (if zero then 48 else 32) (width_of (takeWhile is_digit fs1)) q)"
proof -
  let ?f1 = "if zero then fmt + 1 + 1 else fmt + 1" and ?ds = "takeWhile is_digit fs1"
  obtain x xs where fs: "fs = x # xs" using assms(4, 5) by (cases fs) (auto split: if_split_asm)
  then have x: "m fmt = 37" "m (fmt + 1) \<noteq> 37" "m (fmt + 1) = 48 \<longleftrightarrow> zero" using assms(1-3) by auto
  have split: "fs1 = ?ds @ k # fs2" using takeWhile_dropWhile_id [of is_digit fs1] assms(5) by simp
  have "is_cstr m ?f1 fs1" using assms(1, 4) fs by (auto simp: add.assoc)
  then have str: "is_cstr m ?f1 (?ds @ k # fs2)" using split by simp
  have "\<not> is_digit k" using assms(5) by (metis dropWhile_eq_Cons_conv)
  moreover have "list_all is_digit ?ds" by (auto simp: list_all_iff dest: set_takeWhileD)
  ultimately have scan: "scan_width m ?f1 0 = Some (width_of ?ds, ?f1 + of_nat (length ?ds))"
    using scan_width_digits [OF _ _ str] by (simp add: width_of_def)
  have tail: "m (?f1 + of_nat (length ?ds)) = k" "is_cstr m (?f1 + of_nat (length ?ds) + 1) fs2"
    using str by (simp_all add: is_cstr_append)
  have "vsprintf_loop m fmt a out = vsprintf_loop m (?f1 + of_nat (length ?ds) + 1) a'
      (out @ pad_inner (if zero then 48 else 32) (width_of ?ds) q)"
    using x scan tail(1) assms(6) by (subst vsprintf_loop.simps) (simp add: Let_def)
  then show ?thesis using tail(2) by blast
qed

lemma fmt_out_vsprintf:
  "is_cstr m fmt fs \<Longrightarrow> args_at m a as \<Longrightarrow> fmt_out fs as = Some r \<Longrightarrow> vsprintf_loop m fmt a out = Some (out @ r)"
proof (induction fs as arbitrary: fmt a out r rule: fmt_out.induct)
  case (1 as)
  then show ?case by (subst vsprintf_loop.simps) simp
next
  case (2 c fs as)
  have str: "m fmt = c" "c \<noteq> 0" "is_cstr m (fmt + 1) fs" using "2.prems"(1) by auto
  show ?case
  proof (cases "c \<noteq> 37 \<or> take 1 fs = [37]")
    case True
    then consider "c \<noteq> 37" | "c = 37" "take 1 fs = [37]" by blast
    then show ?thesis
    proof cases
      case 1
      then obtain r' where r': "fmt_out fs as = Some r'" "r = c # r'" using "2.prems"(3) by (auto simp: fmt_out.simps)
      have "vsprintf_loop m (fmt + 1) a (out @ [c]) = Some ((out @ [c]) @ r')" by (rule "2.IH"(1) [OF 1 str(3) "2.prems"(2) r'(1)])
      then show ?thesis using 1 str r'(2) by (subst vsprintf_loop.simps) simp
    next
      case 2
      then obtain r' fs' where r': "fmt_out fs' as = Some r'" "r = 37 # r'" "fs = 37 # fs'"
        using "2.prems"(3) by (cases fs) (auto simp: fmt_out.simps(2) [of 37 "37 # _"])
      have "vsprintf_loop m (fmt + 1 + 1) a (out @ [37]) = Some ((out @ [37]) @ r')"
        by (rule "2.IH"(2)) (use 2 str "2.prems"(2) r' in auto)
      then show ?thesis using 2 str r' by (subst vsprintf_loop.simps) simp
    qed
  next
    case False
    define zero where "zero = (take 1 fs = [48])"
    define fs1 where "fs1 = (if zero then drop 1 fs else fs)"
    obtain k fs2 q as' r' where k: "dropWhile is_digit fs1 = k # fs2" "fmt_conv k as = Some (q, as')" "fmt_out fs2 as' = Some r'"
      "r = pad_inner (if zero then 48 else 32) (width_of (takeWhile is_digit fs1)) q @ r'"
      using False "2.prems"(3) unfolding fmt_out.simps(2) [of c] Let_def zero_def [symmetric] fs1_def [symmetric]
      by (auto split: list.split_asm option.split_asm)
    obtain a' where a': "convert m k a = Some (q, a')" "args_at m a' as'" using fmt_conv_convert [OF "2.prems"(2) k(2)] by blast
    obtain f2 where f2: "is_cstr m f2 fs2"
      "vsprintf_loop m fmt a out = vsprintf_loop m f2 a' (out @ pad_inner (if zero then 48 else 32) (width_of (takeWhile is_digit fs1)) q)"
      using vsprintf_directive [OF _ _ zero_def fs1_def k(1) a'(1)] "2.prems"(1) False by blast
    have "vsprintf_loop m f2 a' (out @ pad_inner (if zero then 48 else 32) (width_of (takeWhile is_digit fs1)) q) =
        Some ((out @ pad_inner (if zero then 48 else 32) (width_of (takeWhile is_digit fs1)) q) @ r')"
      by (rule "2.IH"(3) [OF _ _ zero_def fs1_def k(1, 2) refl f2(1) a'(2) k(3)]) (use False in auto)
    then show ?thesis using f2(2) k(4) by simp
  qed
qed

text \<open>C literals: \<open>^n\<close>, \<open>^t\<close> and \<open>^q\<close> stand for the escapes of a new line, a tabulator and a double quote. The text of a literal
  ends at its first 0.\<close>

fun c_chars :: "string \<Rightarrow> string" where
  "c_chars [] = []"
| "c_chars (c # cs) =
     (if c = CHR 0x5E \<and> cs \<noteq> []
      then (if hd cs = CHR ''n'' then CHR 0x0A else if hd cs = CHR ''t'' then CHR 0x09 else CHR 0x22) # c_chars (tl cs)
      else c # c_chars cs)"

definition c_text :: "string \<Rightarrow> u8 list" where
  "c_text cs = takeWhile (\<lambda>b. b \<noteq> 0) (map of_char (c_chars cs))"

text \<open>\<^verbatim>\<open>sprintf\<close> with a literal format: the text, without the terminating 0. The arguments of a call in the code are always of the kinds
  its format asks for; a call that is not has no meaning and yields the empty text.\<close>

definition sprintf_text :: "string \<Rightarrow> fmt_arg list \<Rightarrow> u8 list" where
  "sprintf_text f as = (case fmt_out (c_text f) as of None \<Rightarrow> [] | Some r \<Rightarrow> r)"

text \<open>A formatted text holds no 0.\<close>

lemma pad_inner_nz: "c \<noteq> 0 \<Longrightarrow> 0 \<notin> set (pad_inner c n q)"
  by (auto simp: pad_inner_def Let_def dest: set_takeWhileD)

lemma fmt_out_nz: "fmt_out fs as = Some r \<Longrightarrow> 0 \<notin> set fs \<Longrightarrow> 0 \<notin> set r"
proof (induction fs as arbitrary: r rule: fmt_out.induct)
  case (2 c fs as)
  have nz: "0 \<notin> set (drop 1 fs)" "0 \<notin> set fs" "c \<noteq> 0" using "2.prems"(2) by (auto dest: in_set_dropD)
  consider "c \<noteq> 37" | "c = 37" "take 1 fs = [37]" | "c = 37" "take 1 fs \<noteq> [37]" by blast
  then show ?case
  proof cases
    case 1
    then obtain q where "fmt_out fs as = Some q" "r = c # q" using "2.prems"(1) by (auto simp: fmt_out.simps(2) [of c])
    then show ?thesis using "2.IH"(1) [OF 1 _ nz(2)] nz(3) by simp
  next
    case 2
    then obtain q where "fmt_out (drop 1 fs) as = Some q" "r = 37 # q"
      using "2.prems"(1) unfolding fmt_out.simps(2) [of c] by auto
    then show ?thesis using "2.IH"(2) [OF _ 2(2) _ nz(1)] 2(1) by simp
  next
    case 3
    define zero where "zero = (take 1 fs = [48])"
    define fs1 where "fs1 = (if zero then drop 1 fs else fs)"
    obtain k fs2 q as' r' where k: "dropWhile is_digit fs1 = k # fs2" "fmt_conv k as = Some (q, as')" "fmt_out fs2 as' = Some r'"
      "r = pad_inner (if zero then 48 else 32) (width_of (takeWhile is_digit fs1)) q @ r'"
      using 3 "2.prems"(1) unfolding fmt_out.simps(2) [of c] Let_def zero_def [symmetric] fs1_def [symmetric]
      by (auto split: list.split_asm option.split_asm)
    have "0 \<notin> set fs1" using nz(1, 2) by (simp add: fs1_def)
    then have "0 \<notin> set fs2" using k(1) by (metis list.set_intros(2) set_dropWhileD)
    then have "0 \<notin> set r'" using "2.IH"(3) [OF _ 3(2) zero_def fs1_def k(1, 2) refl k(3)] 3(1) by simp
    then show ?thesis using k(4) by (simp add: pad_inner_nz)
  qed
qed simp

lemma c_text_nz: "0 \<notin> set (c_text f)"
  by (auto simp: c_text_def dest: set_takeWhileD)

lemma sprintf_text_nz [simp]: "0 \<notin> set (sprintf_text f as)"
proof (cases "fmt_out (c_text f) as")
  case (Some r)
  then show ?thesis using fmt_out_nz [OF Some c_text_nz] by (simp add: sprintf_text_def)
qed (simp add: sprintf_text_def)

theorem sprintf_text_vsprintf:
  assumes "is_cstr m fmt (c_text f)" "args_at m a as" "fmt_out (c_text f) as \<noteq> None"
  shows "vsprintf m buf fmt a = Some (int (length (sprintf_text f as)), write_bytes m buf (sprintf_text f as @ [0]))"
  using fmt_out_vsprintf [OF assms(1, 2), of _ "[]"] assms(3) by (auto simp: vsprintf_def sprintf_text_def)

end
