(* ===== verification/DiskLog.thy ===== *)
theory DiskLog
  imports FsData FsFrame Sys Sprintf
begin

text \<open>
  The log on disk, \<^verbatim>\<open>disklog\<close> of \<^verbatim>\<open>src/task/fs/disklog.c\<close> and \<^verbatim>\<open>syslog\<close> of \<^verbatim>\<open>src/lib/fs/syslog.c\<close>: the last 2048 sectors of
  the root device hold a header of 64 bytes and the text logged so far.

  The state adds the static variable \<^verbatim>\<open>pos\<close> to the file system's. \<open>env\<close> has what a call depends on: the CMOS clock, the
  address of the system task's local time structure, the process that calls, and the address of the local variable \<^verbatim>\<open>t\<close>.
\<close>

unbundle bit_operations_syntax

abbreviation logbuf where "logbuf \<equiv> 0x800000 :: u32"
abbreviation (input) LOG_BUF_SIZE where "LOG_BUF_SIZE \<equiv> 0x100000 :: int"
abbreviation logdiskbuf where "logdiskbuf \<equiv> 0x900000 :: u32"
abbreviation (input) LOGDISKBUF_SIZE where "LOGDISKBUF_SIZE \<equiv> 0x100000 :: int"
abbreviation (input) LOG_SECTS where "LOG_SECTS \<equiv> 2048 :: int"
abbreviation (input) MAX_IO_BYTES where "MAX_IO_BYTES \<equiv> 256 :: int"

record log_env =
  log_cmos :: "u8 \<Rightarrow> u8"
  log_sys_t :: u32
  log_pid :: int
  log_t :: u32

record dlog =
  lfs :: fs
  log_pos :: nat

section \<open>The code\<close>

definition log_getpid :: "log_env \<Rightarrow> fs \<Rightarrow> (int \<times> fs) outcome" where
  "log_getpid e s = obind (getpid (log_cmos e) (log_sys_t e) (log_pid e) (fkern s)) (\<lambda>(pid, k). Inr (pid, upd_kern (\<lambda>_. k) s))"

definition DISKLOG_RD_SECT :: "log_env \<Rightarrow> int \<Rightarrow> int \<Rightarrow> fs \<Rightarrow> fs outcome" where
  "DISKLOG_RD_SECT e dev sect_nr s =
     obind (log_getpid e s) (\<lambda>(pid, s1). rd_wr_sector DEV_READ dev (spos sect_nr) SECTOR_SIZE pid logdiskbuf s1)"

definition DISKLOG_WR_SECT :: "log_env \<Rightarrow> int \<Rightarrow> int \<Rightarrow> fs \<Rightarrow> fs outcome" where
  "DISKLOG_WR_SECT e dev sect_nr s =
     obind (log_getpid e s) (\<lambda>(pid, s1). rd_wr_sector DEV_WRITE dev (spos sect_nr) SECTOR_SIZE pid logdiskbuf s1)"

text \<open>Mark the sectors of the log in the sector map: \<open>p\<close> is the bit in the sector at hand, \<^verbatim>\<open>byte_off\<close> and \<^verbatim>\<open>bit_off\<close> together.
  The number of bits still to set is returned with the buffer.\<close>

fun log_smap_bits :: "nat \<Rightarrow> nat \<Rightarrow> mem \<Rightarrow> (nat \<times> mem) outcome" where
  "log_smap_bits 0 p mm = Inr (0, mm)"
| "log_smap_bits (Suc bits_left) p mm =
     (if p \<ge> 4096 then Inr (Suc bits_left, mm)
      else let a = logdiskbuf + of_nat (p div 8)
        in c_assert (drop_bit (p mod 8) (mm a) AND 1 = 0)
             (log_smap_bits bits_left (p + 1) (mm(a := mm a OR push_bit (p mod 8) 1))))"

fun log_smap_sects :: "log_env \<Rightarrow> int \<Rightarrow> nat \<Rightarrow> int \<Rightarrow> nat \<Rightarrow> nat \<Rightarrow> fs \<Rightarrow> (nat \<times> fs) outcome" where
  "log_smap_sects e dev 0 sect_nr p bits_left s = Inr (bits_left, s)"
| "log_smap_sects e dev (Suc n) sect_nr p bits_left s =
     obind (DISKLOG_RD_SECT e dev sect_nr s) (\<lambda>s1.
     obind (log_smap_bits bits_left p (fmem s1)) (\<lambda>(left, mm).
     obind (DISKLOG_WR_SECT e dev sect_nr (upd_fmem (\<lambda>_. mm) s1)) (\<lambda>s2.
       if left = 0 then Inr (0, s2) else log_smap_sects e dev n (sect_nr + 1) 0 left s2)))"

definition log_smap :: "log_env \<Rightarrow> int \<Rightarrow> super_block \<Rightarrow> int \<Rightarrow> fs \<Rightarrow> fs outcome" where
  "log_smap e dev sb blk0 s =
     (let bits_per_sect = SECTOR_SIZE * 8; smap_blk0_nr = sint (1 + 1 + nr_inode_map_sects sb);
          sect_nr = smap_blk0_nr + blk0 sdiv bits_per_sect; sect_cnt = LOG_SECTS sdiv bits_per_sect + 2
      in if blk0 < 0 then Inl OutOfBounds
         else obind (log_smap_sects e dev (nat sect_cnt) sect_nr (nat (blk0 smod bits_per_sect)) (nat LOG_SECTS) s) (\<lambda>(left, s').
           c_assert (left = 0) (Inr s')))"

text \<open>Fill the log with blanks, a chunk of sectors at a time.\<close>

fun log_fill :: "log_env \<Rightarrow> int \<Rightarrow> nat \<Rightarrow> int \<Rightarrow> fs \<Rightarrow> fs outcome" where
  "log_fill e dev 0 i s = Inr s"
| "log_fill e dev (Suc n) i s =
     (let chunk = min MAX_IO_BYTES (LOGDISKBUF_SIZE div SECTOR_SIZE); s1 = upd_fmem (\<lambda>mm. memset mm logdiskbuf 0x20 (word_of_int (chunk * SECTOR_SIZE))) s
      in c_assert (chunk = 256)
        (obind (log_getpid e s1) (\<lambda>(pid, s2).
         obind (rd_wr_sector DEV_WRITE dev (spos i) (chunk * SECTOR_SIZE) pid logdiskbuf s2) (log_fill e dev n (i + chunk)))))"

text \<open>The first call.\<close>

definition log_start :: "log_env \<Rightarrow> int \<Rightarrow> super_block \<Rightarrow> int \<Rightarrow> dlog \<Rightarrow> dlog outcome" where
  "log_start e dev sb blk0 s =
     (if log_pos s \<noteq> 0 then Inr s
      else obind (log_smap e dev sb blk0 (lfs s)) (\<lambda>f1.
           obind (log_fill e dev 8 blk0 f1) (\<lambda>f2. Inr (s\<lparr>lfs := f2, log_pos := 0x40\<rparr>))))"

text \<open>The text: each sector is read, changed and written back.\<close>

function log_text :: "log_env \<Rightarrow> int \<Rightarrow> int \<Rightarrow> u32 \<Rightarrow> nat \<Rightarrow> dlog \<Rightarrow> dlog outcome" where
  "log_text e dev sect_nr p bytes_left s =
     (if bytes_left = 0 then Inr s
      else obind (DISKLOG_RD_SECT e dev sect_nr (lfs s)) (\<lambda>f1.
        let off = log_pos s mod 512; bytes = min bytes_left (512 - off)
        in obind (DISKLOG_WR_SECT e dev sect_nr (upd_fmem (\<lambda>mm. memcpy mm (logdiskbuf + of_nat off) p (of_nat bytes)) f1)) (\<lambda>f2.
           log_text e dev (sect_nr + 1) (p + of_nat bytes) (bytes_left - bytes) (s\<lparr>lfs := f2, log_pos := log_pos s + bytes\<rparr>))))"
  by pat_completeness auto
termination
  by (relation "measure (\<lambda>(e, dev, n, p, left, s). left)") (auto simp: min_def)

declare log_text.simps [simp del]

definition log_header :: "nat \<Rightarrow> rtc_time \<Rightarrow> mem \<Rightarrow> mem" where
  "log_header pos t mm =
     (let m1 = write_bytes mm logdiskbuf (sprintf_text ''%8d^n'' [Num (int pos)] @ [0]);
          m2 = (memset m1 (logdiskbuf + 9) 32 22)(logdiskbuf + 31 := 10);
          m3 = write_bytes m2 (logdiskbuf + 32) (sprintf_text ''<%d-%02d-%02d %02d:%02d:%02d>^n''
                 (map (\<lambda>w. Num (sint w)) [year t, month t, day t, hour t, minute t, second t]) @ [0])
      in (memset m3 (logdiskbuf + 32 + 22) 32 9)(logdiskbuf + 63 := 10))"

definition log_time :: "log_env \<Rightarrow> fs \<Rightarrow> (rtc_time \<times> fs) outcome" where
  "log_time e s =
     obind (sys_call (log_cmos e) (log_sys_t e) (log_pid e) (zero_msg\<lparr>type := SYS_GET_RTC_TIME, BUF := log_t e\<rparr>) (fkern s)) (\<lambda>(_, k).
       Inr (rtc_at (kmem k) (log_t e), upd_kern (\<lambda>_. k) s))"

text \<open>After the text: the time, the header sector and the last sector.\<close>

definition log_finish :: "log_env \<Rightarrow> int \<Rightarrow> int \<Rightarrow> nat \<Rightarrow> fs \<Rightarrow> fs outcome" where
  "log_finish e dev blk0 pos s =
     obind (log_time e s) (\<lambda>(t, f3).
     obind (DISKLOG_RD_SECT e dev blk0 f3) (\<lambda>f4.
     obind (DISKLOG_WR_SECT e dev blk0 (upd_fmem (log_header pos t) f4)) (\<lambda>f5.
     DISKLOG_WR_SECT e dev (blk0 + LOG_SECTS - 1)
       (upd_fmem (\<lambda>mm. memset mm (logdiskbuf + 64) (mm (logdiskbuf + 32 + 19)) (512 - 64)) f5))))"

definition disklog :: "log_env \<Rightarrow> u32 \<Rightarrow> dlog \<Rightarrow> (int \<times> dlog) outcome" where
  "disklog e logstr s =
     obind (deref (inode_table (lfs s)) (root_inode (lfs s))) (\<lambda>r.
     let dev = inode_dev (inode_table (lfs s) ! r)
     in obind (get_super_block dev (lfs s)) (\<lambda>sb.
        let blk0 = sint (nr_sects sb - word_of_int LOG_SECTS)
        in obind (log_start e dev sb blk0 s) (\<lambda>s1.
           obind (of_loop (strlen (fmem (lfs s1)) logstr)) (\<lambda>n.
           obind (log_text e dev (blk0 + int (log_pos s1 div 512)) logstr (unat n) s1) (\<lambda>s2.
           obind (log_finish e dev blk0 (log_pos s2) (lfs s2)) (\<lambda>f.
           Inr (int (log_pos s2), s2\<lparr>lfs := f\<rparr>)))))))"

definition syslog :: "log_env \<Rightarrow> u32 \<Rightarrow> u32 \<Rightarrow> u32 \<Rightarrow> dlog \<Rightarrow> (int \<times> dlog) outcome" where
  "syslog e buf fmt args s =
     obind (of_loop (vsprintf (fmem (lfs s)) buf fmt args)) (\<lambda>(i, mm).
       if i \<ge> 1024 then Inl OutOfBounds
       else obind (of_loop (strlen mm buf)) (\<lambda>n.
         c_assert (sint n = i) (disklog e buf (s\<lparr>lfs := upd_fmem (\<lambda>_. mm) (lfs s)\<rparr>))))"

section \<open>Sectors of the log\<close>

lemma log_getpid_eq [simp]: "log_getpid e s = Inr (log_pid e, s)"
  by (simp add: log_getpid_def getpid_def sys_call_def task_sys_round_def Let_def upd_kern_def)

lemma apart_drop:
  assumes "apart a n b k" "j < n"
  shows "apart (a + of_nat j) (n - j) b k"
proof -
  have "n \<le> unat (b - a)" using assms(1) by (simp add: apart_def)
  moreover from this have "unat (of_nat j :: u32) = j" using assms(2) unat_u32_less [of "b - a"] by (intro unat_of_nat_u32) linarith
  ultimately have "unat (b - a - of_nat j) = unat (b - a) - j"
    using assms(2) unat_sub [of "of_nat j" "b - a"] by (simp add: word_le_nat_alt)
  then show ?thesis using assms apart_offset [OF apart_sym [OF assms(1)] assms(2)] by (simp add: apart_def diff_diff_eq diff_le_mono)
qed

lemma log_text_spec:
  assumes "disk_ok dev (lfs s)" "buffer_ok (log_pid e) logdiskbuf (lfs s)" "blk + (log_pos s + n) div 512 < SECT_LIMIT"
    and "apart p n logdiskbuf 0x100000" "apart p n (hdbuf (hds (lfs s))) 512"
  shows "\<exists>s'. log_text e dev (int (blk + log_pos s div 512)) p n s = Inr s' \<and> log_pos s' = log_pos s + n \<and>
    disk_ok dev (lfs s') \<and> fs_rest (lfs s') = fs_rest (lfs s) \<and>
    (\<forall>x. dev_byte dev (lfs s') x = (if 512 * blk + log_pos s \<le> x \<and> x < 512 * blk + log_pos s + n
      then fmem (lfs s) (p + of_nat (x - (512 * blk + log_pos s))) else dev_byte dev (lfs s) x)) \<and>
    (\<forall>x. 512 \<le> unat (x - logdiskbuf) \<and> 512 \<le> unat (x - hdbuf (hds (lfs s))) \<longrightarrow> fmem (lfs s') x = fmem (lfs s) x)"
  using assms
proof (induction n arbitrary: p s rule: less_induct)
  case (less n)
  show ?case
  proof (cases "n = 0")
    case True
    then show ?thesis using less.prems by (intro exI [of _ s]) (subst log_text.simps, auto)
  next
    case False
    let ?pos = "log_pos s" and ?o = "log_pos s mod 512" and ?m = "blk + log_pos s div 512"
    define b where "b = min n (512 - ?o)"
    have o: "?o < 512" by simp
    have b: "0 < b" "b \<le> n" "?o + b \<le> 512 * 1" using False o unfolding b_def by (auto simp: min_def)
    have "?pos div 512 \<le> (?pos + n) div 512" by (simp add: div_le_mono)
    then have lim: "?m + 1 \<le> SECT_LIMIT" using less.prems(3) by linarith
    have "unat (of_nat b :: u32) = b" using b(3) by (intro unat_of_nat_u32) simp
    have ap: "apart p b logdiskbuf 0x100000" "apart p b (hdbuf (hds (lfs s))) 512" using less.prems(4, 5) b(2) by (auto simp: apart_def)
    obtain f1 f3 where f: "DISKLOG_RD_SECT e dev (int ?m) (lfs s) = Inr f1"
      "DISKLOG_WR_SECT e dev (int ?m) (upd_fmem (\<lambda>mm. memcpy mm (logdiskbuf + of_nat ?o) p (of_nat b)) f1) = Inr f3"
      "disk_ok dev f3" "fs_rest f3 = fs_rest (lfs s)"
      "\<forall>x. dev_byte dev f3 x = (if 512 * ?m + ?o \<le> x \<and> x < 512 * ?m + ?o + b then fmem (lfs s) (p + of_nat (x - (512 * ?m + ?o))) else dev_byte dev (lfs s) x)"
      "\<forall>x. 512 \<le> unat (x - logdiskbuf) \<and> 512 \<le> unat (x - hdbuf (hds (lfs s))) \<longrightarrow> fmem f3 x = fmem (lfs s) x"
      using update_sectors [OF less.prems(1) lim _ _ less.prems(2) ap b(3)] by (auto simp: DISKLOG_RD_SECT_def DISKLOG_WR_SECT_def)
    let ?s = "s\<lparr>lfs := f3, log_pos := ?pos + b\<rparr>"
    have F: "512 * ?m + ?o = 512 * blk + ?pos" by (simp add: distrib_left)
    have mem: "fmem f3 (p + of_nat j) = fmem (lfs s) (p + of_nat j)" if "j < n" for j
      using f(6) apart_offset [OF apart_sym [OF less.prems(4)] that] apart_offset [OF apart_sym [OF less.prems(5)] that] by simp
    have step: "log_text e dev (int ?m) p n s = log_text e dev (int ?m + 1) (p + of_nat b) (n - b) ?s"
      using False f(1, 2) by (subst log_text.simps) (simp add: Let_def b_def)
    show ?thesis
    proof (cases "b = n")
      case True
      have "log_text e dev (int ?m) p n s = Inr ?s" unfolding step using True by (subst log_text.simps) simp
      then show ?thesis using f(3-6) True unfolding F by (intro exI [of _ ?s]) simp
    next
      case False
      then have ob: "b = 512 - ?o" unfolding b_def by (simp add: min_def split: if_splits)
      have p1: "(?pos + b) div 512 = ?pos div 512 + 1" "(?pos + b) mod 512 = 0"
      proof -
        have "p + (512 - c) = 512 * (a + 1)" if "p = 512 * a + c" "c < 512" for p a c :: nat using that by simp
        from this [of ?pos "?pos div 512" ?o] have "?pos + b = 512 * (?pos div 512 + 1)" using ob by simp
        then show "(?pos + b) div 512 = ?pos div 512 + 1" "(?pos + b) mod 512 = 0" by simp_all
      qed
      have ap': "apart (p + of_nat b) (n - b) x k" if "apart p n x k" for x k
        by (rule apart_drop [OF that]) (use False b(2) in simp)
      have rest: "hdbuf (hds f3) = hdbuf (hds (lfs s))" using f(4) by (simp add: fs_rest_def)
      have "\<exists>s'. log_text e dev (int (blk + log_pos ?s div 512)) (p + of_nat b) (n - b) ?s = Inr s' \<and> log_pos s' = log_pos ?s + (n - b) \<and>
        disk_ok dev (lfs s') \<and> fs_rest (lfs s') = fs_rest (lfs ?s) \<and>
        (\<forall>x. dev_byte dev (lfs s') x = (if 512 * blk + log_pos ?s \<le> x \<and> x < 512 * blk + log_pos ?s + (n - b)
          then fmem (lfs ?s) (p + of_nat b + of_nat (x - (512 * blk + log_pos ?s))) else dev_byte dev (lfs ?s) x)) \<and>
        (\<forall>x. 512 \<le> unat (x - logdiskbuf) \<and> 512 \<le> unat (x - hdbuf (hds (lfs ?s))) \<longrightarrow> fmem (lfs s') x = fmem (lfs ?s) x)"
        using less.prems b f(3, 4) rest ap' buffer_ok_rest [OF f(4)] by (intro less.IH) simp_all
      then obtain s' where r: "log_text e dev (int (blk + log_pos ?s div 512)) (p + of_nat b) (n - b) ?s = Inr s'" "log_pos s' = log_pos ?s + (n - b)"
        "disk_ok dev (lfs s')" "fs_rest (lfs s') = fs_rest (lfs ?s)"
        "\<forall>x. dev_byte dev (lfs s') x = (if 512 * blk + log_pos ?s \<le> x \<and> x < 512 * blk + log_pos ?s + (n - b)
          then fmem (lfs ?s) (p + of_nat b + of_nat (x - (512 * blk + log_pos ?s))) else dev_byte dev (lfs ?s) x)"
        "\<forall>x. 512 \<le> unat (x - logdiskbuf) \<and> 512 \<le> unat (x - hdbuf (hds (lfs ?s))) \<longrightarrow> fmem (lfs s') x = fmem (lfs ?s) x" by blast
      have sl: "lfs ?s = f3" "log_pos ?s = ?pos + b" by simp_all
      have nr: "int (blk + (?pos + b) div 512) = int ?m + 1" by (simp add: p1(1))
      have s': "log_text e dev (int ?m + 1) (p + of_nat b) (n - b) ?s = Inr s'" "log_pos s' = ?pos + n" "fs_rest (lfs s') = fs_rest (lfs s)"
        using r(1, 2, 4) b(2) f(4) unfolding sl nr by simp_all
      note r5 = r(5) [unfolded sl]
      have "dev_byte dev (lfs s') x = (if 512 * blk + ?pos \<le> x \<and> x < 512 * blk + ?pos + n
          then fmem (lfs s) (p + of_nat (x - (512 * blk + ?pos))) else dev_byte dev (lfs s) x)" for x
      proof (cases "512 * blk + (?pos + b) \<le> x \<and> x < 512 * blk + ?pos + n")
        case True
        define j where "j = x - (512 * blk + (?pos + b))"
        have j: "x - (512 * blk + ?pos) = b + j" "b + j < n" using True by (auto simp: j_def)
        have "dev_byte dev (lfs s') x = fmem f3 (p + of_nat b + of_nat j)" unfolding j_def using r5 True b(2) by simp
        then have "dev_byte dev (lfs s') x = fmem f3 (p + of_nat (b + j))" by (simp add: add.assoc)
        then show ?thesis using True j mem [OF j(2)] by simp
      next
        case False
        then show ?thesis using r5 f(5) b(2) unfolding F by auto
      qed
      moreover have "fmem (lfs s') x = fmem (lfs s) x" if "512 \<le> unat (x - logdiskbuf)" "512 \<le> unat (x - hdbuf (hds (lfs s)))" for x
        using r(6) [unfolded sl rest] f(6) that by simp
      ultimately show ?thesis using s' r(3) step by (intro exI [of _ s']) simp
    qed
  qed
qed

section \<open>The header\<close>

lemma i2a_length: "0 \<le> v \<Longrightarrow> v < 10 ^ Suc k \<Longrightarrow> length (i2a v 10) \<le> Suc k"
proof (induction k arbitrary: v)
  case 0
  then have "v sdiv 10 = 0" by (simp add: signed_divide_int_def)
  then show ?case by (subst i2a.simps) simp
next
  case (Suc k)
  have q: "v sdiv 10 = v div 10" using Suc.prems by (cases "v = 0") (simp_all add: signed_divide_int_def)
  have "v div 10 < 10 ^ Suc k" "0 \<le> v div 10" using Suc.prems by auto
  from Suc.IH [OF this(2, 1)] show ?case by (subst i2a.simps) (simp add: q Let_def)
qed

lemma log_pos_text: "fmt_out (c_text ''%8d^n'') [Num (int n)] = Some (pad_inner 32 8 (i2a (int n) 10) @ [10])"
  by (simp add: c_text_def fmt_out.simps is_digit_def width_of_def)

lemma log_stamp_text:
  assumes "0 \<le> y" "0 \<le> mo" "0 \<le> d" "0 \<le> h" "0 \<le> mi" "0 \<le> s"
  shows "fmt_out (c_text ''<%d-%02d-%02d %02d:%02d:%02d>^n'') (map Num [y, mo, d, h, mi, s]) =
    Some (60 # pad_inner 32 0 (i2a y 10) @ 45 # pad_inner 48 2 (i2a mo 10) @ 45 # pad_inner 48 2 (i2a d 10) @ 32 # pad_inner 48 2 (i2a h 10) @
      58 # pad_inner 48 2 (i2a mi 10) @ 58 # pad_inner 48 2 (i2a s 10) @ [62, 10])"
  using assms by (simp add: c_text_def fmt_out.simps is_digit_def width_of_def)

lemma length_pad_inner: "length (pad_inner c n q) = max (nat n) (length (takeWhile (\<lambda>b. b \<noteq> 0) q))"
  by (auto simp: pad_inner_def Let_def max_def)

lemma length_pad_le: "length q \<le> k \<Longrightarrow> nat n \<le> k \<Longrightarrow> length (pad_inner c n q) \<le> k"
  using length_takeWhile_le [of "\<lambda>b. b \<noteq> 0" q] by (simp add: length_pad_inner)

definition small_time :: "rtc_time \<Rightarrow> bool" where
  "small_time t \<longleftrightarrow> 0 \<le> sint (year t) \<and> sint (year t) < 10000 \<and>
     (\<forall>w \<in> {month t, day t, hour t, minute t, second t}. 0 \<le> sint w \<and> sint w < 1000)"

lemma get_rtc_time_small: "small_time (get_rtc_time cmos)"
proof -
  have s: "sint (of_nat k :: u32) = int k" if "k < 4096" for k using that by (intro sint_of_nat_u32) simp
  have bcd: "k div 16 * 10 + k mod 16 < 256" if "k < 256" for k :: nat using that by auto
  have field: "0 \<le> sint w \<and> sint w < 1000 \<and> 0 \<le> sint (w + 2000) \<and> sint (w + 2000) < 10000"
    if w: "w = CMOS_READ cmos reg \<or> w = BCD_TO_DEC (CMOS_READ cmos reg)" for w reg
  proof -
    obtain x where x: "x < 256" "CMOS_READ cmos reg = of_nat x" "BCD_TO_DEC (CMOS_READ cmos reg) = of_nat (x div 16 * 10 + x mod 16)"
      by (rule CMOS_READ_small [of cmos reg])
    then obtain k where "k < 256" "w = of_nat k" using w bcd [OF x(1)] by metis
    then show ?thesis using s [of k] s [of "k + 2000"] by simp
  qed
  note field = field [OF disjI1 [OF refl]] field [OF disjI2 [OF refl]]
  show ?thesis by (simp add: small_time_def get_rtc_time_def Let_def field)
qed

lemma log_texts:
  assumes "small_time t" "n < 100000000"
  shows "sprintf_text ''%8d^n'' [Num (int n)] = pad_inner 32 8 (i2a (int n) 10) @ [10]" "length (sprintf_text ''%8d^n'' [Num (int n)]) = 9"
    "length (sprintf_text ''<%d-%02d-%02d %02d:%02d:%02d>^n'' (map (\<lambda>w. Num (sint w)) [year t, month t, day t, hour t, minute t, second t])) \<le> 27"
proof -
  show e: "sprintf_text ''%8d^n'' [Num (int n)] = pad_inner 32 8 (i2a (int n) 10) @ [10]" by (simp only: sprintf_text_def log_pos_text option.case)
  have "length (i2a (int n) 10) \<le> 8" using i2a_length [of "int n" 7] assms(2) by simp
  then show "length (sprintf_text ''%8d^n'' [Num (int n)]) = 9"
    using length_takeWhile_le [of "\<lambda>b. b \<noteq> 0" "i2a (int n) 10"] unfolding e by (simp add: length_pad_inner)
  have y: "length (pad_inner 32 0 (i2a (sint (year t)) 10)) \<le> 4"
    using i2a_length [of "sint (year t)" 3] assms(1) by (intro length_pad_le) (simp_all add: small_time_def)
  have f: "length (pad_inner 48 2 (i2a (sint w) 10)) \<le> 3" if "w \<in> {month t, day t, hour t, minute t, second t}" for w
    using i2a_length [of "sint w" 2] assms(1) that by (intro length_pad_le) (auto simp: small_time_def)
  show "length (sprintf_text ''<%d-%02d-%02d %02d:%02d:%02d>^n'' (map (\<lambda>w. Num (sint w)) [year t, month t, day t, hour t, minute t, second t])) \<le> 27"
    using log_stamp_text [of "sint (year t)" "sint (month t)" "sint (day t)" "sint (hour t)" "sint (minute t)" "sint (second t)"] assms(1)
      y f [of "month t"] f [of "day t"] f [of "hour t"] f [of "minute t"] f [of "second t"]
    by (simp add: sprintf_text_def small_time_def)
qed

lemma log_header_frame:
  assumes "small_time t" "n < 100000000" "64 \<le> unat (x - logdiskbuf)"
  shows "log_header n t mm x = mm x"
proof -
  note off = unat_minus_offset [of _ x logdiskbuf]
  have ne: "x \<noteq> logdiskbuf + of_nat k" if "k < 64" for k
    using assms(3) that unat_of_nat_u32 [of k] by auto
  show ?thesis
    using log_texts(2, 3) [OF assms(1, 2)] assms(3) off [of 9] off [of 32] off [of 54] ne [of 31] ne [of 63]
    by (auto simp: log_header_def Let_def memset_eq write_bytes_eq)
qed

lemma log_header_pos:
  assumes "small_time t" "n < 100000000" "j < 9"
  shows "log_header n t mm (logdiskbuf + of_nat j) = (pad_inner 32 8 (i2a (int n) 10) @ [10]) ! j"
proof -
  have u: "unat (of_nat j :: u32) = j" using assms(3) by (intro unat_of_nat_u32) simp
  have neg: "unat (of_nat j - of_nat k :: u32) = 4294967296 + j - k" if "9 \<le> k" "k < 64" for k
    using that assms(3) u unat_of_nat_u32 [of k] unat_sub_if' [of "of_nat j :: u32" "of_nat k"] by auto
  have ne: "(of_nat j :: u32) \<noteq> of_nat k" if "9 \<le> k" "k < 64" for k
    using u unat_of_nat_u32 [of k] that assms(3) by auto
  show ?thesis
    using log_texts [OF assms(1, 2)] u assms(3) neg [of 9] neg [of 32] neg [of 54] ne [of 31] ne [of 63]
    by (simp add: log_header_def Let_def memset_eq write_bytes_eq nth_append)
qed

section \<open>Logging\<close>

text \<open>The memory that logging leaves alone: all but its sector buffer, the buffer of the disk driver and the two time structures.\<close>

definition log_leaves :: "log_env \<Rightarrow> fs \<Rightarrow> u32 \<Rightarrow> bool" where
  "log_leaves e s x \<longleftrightarrow> 512 \<le> unat (x - logdiskbuf) \<and> 512 \<le> unat (x - hdbuf (hds s)) \<and> 24 \<le> unat (x - log_t e) \<and> 24 \<le> unat (x - log_sys_t e)"

lemma put_rtc_time_frame: "24 \<le> unat (x - a) \<Longrightarrow> put_rtc_time t a mm x = mm x"
  using unat_minus_offset [of 4 x a] unat_minus_offset [of 8 x a] unat_minus_offset [of 12 x a] unat_minus_offset [of 16 x a] unat_minus_offset [of 20 x a]
  by (simp add: put_rtc_time_def wr32_other)

lemma log_time_eq:
  assumes "proc_va2la (fkern s) (log_pid e) (log_t e) = Inr (log_t e)" "proc_va2la (fkern s) TASK_SYS (log_sys_t e) = Inr (log_sys_t e)"
    and "log_t e = log_sys_t e \<or> 24 \<le> unat (log_t e - log_sys_t e)"
  shows "\<exists>g. log_time e s = Inr (get_rtc_time (log_cmos e), upd_fmem g s) \<and> (\<forall>x. log_leaves e s x \<longrightarrow> g (fmem s) x = fmem s x)"
proof -
  let ?m = "phys_copy (put_rtc_time (get_rtc_time (log_cmos e)) (log_sys_t e) (fmem s)) (log_t e) (log_sys_t e) 24"
  have va: "proc_va2la (k\<lparr>kmem := mm\<rparr>) p a = proc_va2la k p a" for k mm p a by (simp add: proc_va2la_def)
  have "log_time e s = Inr (rtc_at ?m (log_t e), upd_kern (\<lambda>_. (fkern s)\<lparr>kmem := ?m\<rparr>) s)"
    using assms(1, 2) by (simp add: log_time_def sys_call_def task_sys_round_def Let_def va)
  moreover have "upd_kern (\<lambda>_. (fkern s)\<lparr>kmem := ?m\<rparr>) s = upd_fmem (\<lambda>_. ?m) s" by (simp add: upd_kern_def upd_fmem_def upd_mem_def)
  moreover have "?m x = fmem s x" if "log_leaves e s x" for x
    using that memcpy_eq [of "log_t e" "log_sys_t e" 24] assms(3) put_rtc_time_frame [of x "log_sys_t e"] by (auto simp: log_leaves_def)
  ultimately show ?thesis using rtc_at_copy [OF assms(3)] by (intro exI [of _ "\<lambda>_. ?m"]) (auto simp: rtc_at_put)
qed

text \<open>The log occupies 2048 sectors from \<open>blk\<close> on, and the tasks involved see memory as it is.\<close>

definition log_ready :: "log_env \<Rightarrow> int \<Rightarrow> nat \<Rightarrow> fs \<Rightarrow> bool" where
  "log_ready e dev blk s \<longleftrightarrow> disk_ok dev s \<and> buffer_ok (log_pid e) logdiskbuf s \<and> blk + 2048 \<le> SECT_LIMIT \<and>
     (\<exists>r sb. root_inode s = Some r \<and> r < length (inode_table s) \<and> inode_dev (inode_table s ! r) = dev \<and>
       get_super_block dev s = Inr sb \<and> sint (nr_sects sb - 2048) = int blk) \<and>
     proc_va2la (fkern s) (log_pid e) (log_t e) = Inr (log_t e) \<and> proc_va2la (fkern s) TASK_SYS (log_sys_t e) = Inr (log_sys_t e) \<and>
     (log_t e = log_sys_t e \<or> 24 \<le> unat (log_t e - log_sys_t e))"

lemma log_ready_rest:
  assumes "log_ready e dev blk s" "fs_rest s' = fs_rest s" "disk_ok dev s'"
  shows "log_ready e dev blk s'"
  using assms buffer_ok_rest [OF assms(2)] rest_va2la [OF assms(2)] get_super_block_rest [OF assms(2)]
  by (auto simp: log_ready_def fs_rest_def)

lemma log_finish_spec:
  assumes "log_ready e dev blk s" "pos < 100000000"
  shows "\<exists>s'. log_finish e dev (int blk) pos s = Inr s' \<and> disk_ok dev s' \<and> fs_rest s' = fs_rest s \<and>
    (\<forall>j < 9. dev_byte dev s' (512 * blk + j) = (pad_inner 32 8 (i2a (int pos) 10) @ [10]) ! j) \<and>
    (\<forall>x. x < 512 * blk \<or> 512 * blk + 64 \<le> x \<and> x < 512 * (blk + 2047) \<longrightarrow> dev_byte dev s' x = dev_byte dev s x) \<and>
    (\<forall>x. log_leaves e s x \<longrightarrow> fmem s' x = fmem s x)"
proof -
  have r: "disk_ok dev s" "buffer_ok (log_pid e) logdiskbuf s" "blk + 2048 \<le> SECT_LIMIT" using assms(1) by (simp_all add: log_ready_def)
  obtain g where tm: "log_time e s = Inr (get_rtc_time (log_cmos e), upd_fmem g s)" "\<forall>x. log_leaves e s x \<longrightarrow> g (fmem s) x = fmem s x"
    using log_time_eq [of s e] assms(1) by (auto simp: log_ready_def)
  let ?t = "get_rtc_time (log_cmos e)" and ?f3 = "upd_fmem g s"
  note tx = get_rtc_time_small [of "log_cmos e"]
  have u3: "disk_ok dev ?f3" "sector dev ?f3 = sector dev s" "fs_rest ?f3 = fs_rest s" using disk.upd_spec [OF r(1)] by auto
  have b3: "buffer_ok (log_pid e) logdiskbuf ?f3" using buffer_ok_rest [OF u3(3)] r(2) by simp
  obtain f4 where f4: "DISKLOG_RD_SECT e dev (int blk) ?f3 = Inr f4" "disk_ok dev f4" "sector dev f4 = sector dev ?f3" "fs_rest f4 = fs_rest ?f3"
    "\<forall>j < 512. fmem f4 (logdiskbuf + of_nat j) = dev_byte dev ?f3 (512 * blk + j)"
    "\<forall>x. 512 \<le> unat (x - logdiskbuf) \<and> 512 \<le> unat (x - hdbuf (hds ?f3)) \<longrightarrow> fmem f4 x = fmem ?f3 x"
    using rd_sectors_bytes [OF u3(1), of blk 1, OF _ _ _ b3] r(3) by (auto simp: DISKLOG_RD_SECT_def)
  let ?h = "upd_fmem (log_header pos ?t) f4"
  have u4: "disk_ok dev ?h" "sector dev ?h = sector dev s" "fs_rest ?h = fs_rest s" "fmem ?h = log_header pos ?t (fmem f4)"
    using disk.upd_spec [OF f4(2)] f4(3, 4) u3 by (simp_all add: upd_fmem_xferred)
  have b4: "buffer_ok (log_pid e) logdiskbuf ?h" using buffer_ok_rest [OF u4(3)] r(2) by simp
  obtain f5 where f5: "DISKLOG_WR_SECT e dev (int blk) ?h = Inr f5" "disk_ok dev f5" "fs_rest f5 = fs_rest ?h"
    "fmem f5 = fmem ?h" "\<forall>x. dev_byte dev f5 x = (if 512 * blk \<le> x \<and> x < 512 * (blk + 1) then fmem ?h (logdiskbuf + of_nat (x - 512 * blk)) else dev_byte dev ?h x)"
    using wr_sectors_bytes [OF u4(1), of blk 1, OF _ _ _ b4] r(3) by (auto simp: DISKLOG_WR_SECT_def)
  let ?l = "upd_fmem (\<lambda>mm. memset mm (logdiskbuf + 64) (mm (logdiskbuf + 32 + 19)) (512 - 64)) f5"
  have u5: "disk_ok dev ?l" "sector dev ?l = sector dev f5" "fs_rest ?l = fs_rest s" using disk.upd_spec [OF f5(2)] f5(3) u4(3) by auto
  have b5: "buffer_ok (log_pid e) logdiskbuf ?l" using buffer_ok_rest [OF u5(3)] r(2) by simp
  obtain s' where s': "DISKLOG_WR_SECT e dev (int (blk + 2047)) ?l = Inr s'" "disk_ok dev s'" "fs_rest s' = fs_rest ?l"
    "fmem s' = fmem ?l" "\<forall>x. dev_byte dev s' x = (if 512 * (blk + 2047) \<le> x \<and> x < 512 * (blk + 2047 + 1) then fmem ?l (logdiskbuf + of_nat (x - 512 * (blk + 2047))) else dev_byte dev ?l x)"
    using wr_sectors_bytes [OF u5(1), of "blk + 2047" 1, OF _ _ _ b5] r(3) by (auto simp: DISKLOG_WR_SECT_def)
  have "log_finish e dev (int blk) pos s = Inr s'" using tm(1) f4(1) f5(1) s'(1) by (simp add: log_finish_def add.commute)
  moreover have low: "dev_byte dev s' x = dev_byte dev f5 x" if "x < 512 * (blk + 2047)" for x
    using s'(5) that dev_byte_cong [OF u5(2)] by simp
  moreover have "dev_byte dev f5 (512 * blk + j) = (pad_inner 32 8 (i2a (int pos) 10) @ [10]) ! j" if "j < 9" for j
    using f5(5) that u4(4) log_header_pos [OF tx assms(2) that] by simp
  moreover have "dev_byte dev f5 x = dev_byte dev s x" if "x < 512 * blk \<or> 512 * blk + 64 \<le> x" for x
  proof (cases "512 * blk \<le> x \<and> x < 512 * (blk + 1)")
    case True
    define j where "j = x - 512 * blk"
    have j: "x = 512 * blk + j" "64 \<le> j" "j < 512" using True that by (auto simp: j_def)
    have "unat (of_nat j :: u32) = j" using j(3) by (intro unat_of_nat_u32) simp
    then have "fmem ?h (logdiskbuf + of_nat j) = fmem f4 (logdiskbuf + of_nat j)"
      unfolding u4(4) using j(2) by (intro log_header_frame [OF tx assms(2)]) simp
    then show ?thesis using f5(5) True f4(5) j dev_byte_cong [OF u3(2)] by simp
  next
    case False
    then show ?thesis using f5(5) dev_byte_cong [OF u4(2)] by auto
  qed
  moreover have "fmem s' x = fmem s x" if "log_leaves e s x" for x
  proof -
    have x: "512 \<le> unat (x - logdiskbuf)" "512 \<le> unat (x - hdbuf (hds s))" using that by (simp_all add: log_leaves_def)
    have "fmem ?l x = fmem f5 x" using disk.upd_spec [OF f5(2)] x(1) unat_minus_offset [of 64 x logdiskbuf] by (auto simp: upd_fmem_xferred memset_eq)
    also have "\<dots> = fmem f4 x" unfolding f5(4) u4(4) using x(1) by (intro log_header_frame [OF tx assms(2)]) simp
    also have "\<dots> = g (fmem s) x" using f4(6) x by (simp add: upd_fmem_def upd_mem_def)
    finally show ?thesis using s'(4) tm(2) that by simp
  qed
  ultimately show ?thesis using s'(2, 3) u5(3) by (intro exI [of _ s']) auto
qed

lemma disklog_eq:
  assumes "log_ready e dev blk (lfs s)" "log_pos s \<noteq> 0" "is_cstr (fmem (lfs s)) logstr bs" "length bs < 1048576"
  shows "disklog e logstr s = obind (log_text e dev (int (blk + log_pos s div 512)) logstr (length bs) s) (\<lambda>s2.
    obind (log_finish e dev (int blk) (log_pos s2) (lfs s2)) (\<lambda>f6. Inr (int (log_pos s2), s2\<lparr>lfs := f6\<rparr>)))"
proof -
  have n: "unat (of_nat (length bs) :: u32) = length bs" using assms(4) by (intro unat_of_nat_u32) simp
  show ?thesis using assms(1, 2) strlen_cstr [OF assms(3)] n
    by (auto simp: disklog_def log_ready_def log_start_def Let_def deref_def)
qed

lemma disklog_spec:
  assumes "log_ready e dev blk (lfs s)" and "64 \<le> log_pos s" and "log_pos s + length bs \<le> 512 * 2047"
    and "is_cstr (fmem (lfs s)) logstr bs" and "apart logstr (length bs) logdiskbuf 0x100000" and "apart logstr (length bs) (hdbuf (hds (lfs s))) 512"
  shows "\<exists>s'. disklog e logstr s = Inr (int (log_pos s + length bs), s') \<and> log_pos s' = log_pos s + length bs \<and>
    (\<forall>i < length bs. dev_byte dev (lfs s') (512 * blk + log_pos s + i) = bs ! i) \<and>
    (\<forall>x. x < 512 * blk \<or> 512 * blk + 64 \<le> x \<and> x < 512 * blk + log_pos s \<longrightarrow> dev_byte dev (lfs s') x = dev_byte dev (lfs s) x) \<and>
    (\<forall>j < 8. dev_byte dev (lfs s') (512 * blk + j) = pad_inner 32 8 (i2a (int (log_pos s + length bs)) 10) ! j) \<and>
    disk_ok dev (lfs s') \<and> fs_rest (lfs s') = fs_rest (lfs s) \<and> (\<forall>x. log_leaves e (lfs s) x \<longrightarrow> fmem (lfs s') x = fmem (lfs s) x)"
proof -
  let ?n = "length bs" and ?pos = "log_pos s"
  have r: "disk_ok dev (lfs s)" "buffer_ok (log_pid e) logdiskbuf (lfs s)" "blk + 2048 \<le> SECT_LIMIT" using assms(1) by (simp_all add: log_ready_def)
  have "(?pos + ?n) div 512 \<le> 2047" using assms(3) by (metis div_le_mono nonzero_mult_div_cancel_left zero_neq_numeral)
  then have lim: "blk + (?pos + ?n) div 512 < SECT_LIMIT" using r(3) by linarith
  obtain s2 where s2: "log_text e dev (int (blk + ?pos div 512)) logstr ?n s = Inr s2" "log_pos s2 = ?pos + ?n" "disk_ok dev (lfs s2)"
    "fs_rest (lfs s2) = fs_rest (lfs s)" "\<forall>x. dev_byte dev (lfs s2) x = (if 512 * blk + ?pos \<le> x \<and> x < 512 * blk + ?pos + ?n
      then fmem (lfs s) (logstr + of_nat (x - (512 * blk + ?pos))) else dev_byte dev (lfs s) x)"
    "\<forall>x. 512 \<le> unat (x - logdiskbuf) \<and> 512 \<le> unat (x - hdbuf (hds (lfs s))) \<longrightarrow> fmem (lfs s2) x = fmem (lfs s) x"
    using log_text_spec [OF r(1, 2) lim assms(5, 6)] by blast
  have rdy: "log_ready e dev blk (lfs s2)" by (rule log_ready_rest [OF assms(1) s2(4, 3)])
  have small: "?pos + ?n < 100000000" using assms(3) by simp
  obtain f where f: "log_finish e dev (int blk) (?pos + ?n) (lfs s2) = Inr f"
    "\<forall>j < 9. dev_byte dev f (512 * blk + j) = (pad_inner 32 8 (i2a (int (?pos + ?n)) 10) @ [10]) ! j"
    "\<forall>x. x < 512 * blk \<or> 512 * blk + 64 \<le> x \<and> x < 512 * (blk + 2047) \<longrightarrow> dev_byte dev f x = dev_byte dev (lfs s2) x"
    "disk_ok dev f" "fs_rest f = fs_rest (lfs s2)" "\<forall>x. log_leaves e (lfs s2) x \<longrightarrow> fmem f x = fmem (lfs s2) x"
    using log_finish_spec [OF rdy small] by blast
  have "disklog e logstr s = Inr (int (?pos + ?n), s2\<lparr>lfs := f\<rparr>)"
    using disklog_eq [OF assms(1) _ assms(4)] assms(2, 3) s2(1, 2) f(1) by simp
  moreover have "dev_byte dev f (512 * blk + ?pos + i) = bs ! i" if "i < ?n" for i
  proof -
    have "512 * blk + 64 \<le> 512 * blk + ?pos + i" "512 * blk + ?pos + i < 512 * (blk + 2047)" using that assms(2, 3) by (simp_all add: distrib_left)
    then have "dev_byte dev f (512 * blk + ?pos + i) = dev_byte dev (lfs s2) (512 * blk + ?pos + i)" using f(3) by blast
    then show ?thesis using s2(5) that is_cstr_nth [OF assms(4) that] by simp
  qed
  moreover have "dev_byte dev f x = dev_byte dev (lfs s) x" if "x < 512 * blk \<or> 512 * blk + 64 \<le> x \<and> x < 512 * blk + ?pos" for x
  proof -
    have "x < 512 * blk \<or> 512 * blk + 64 \<le> x \<and> x < 512 * (blk + 2047)" using that assms(3) by (auto simp: distrib_left)
    then have "dev_byte dev f x = dev_byte dev (lfs s2) x" using f(3) by blast
    then show ?thesis using s2(5) that by auto
  qed
  moreover have "dev_byte dev f (512 * blk + j) = pad_inner 32 8 (i2a (int (?pos + ?n)) 10) ! j" if "j < 8" for j
  proof -
    have "8 \<le> length (pad_inner 32 8 (i2a (int (?pos + ?n)) 10))" by (simp add: length_pad_inner)
    then show ?thesis using f(2) that by (simp add: nth_append)
  qed
  moreover have "fmem f x = fmem (lfs s) x" if "log_leaves e (lfs s) x" for x
  proof -
    have "log_leaves e (lfs s2) x" using that s2(4) by (simp add: log_leaves_def fs_rest_def)
    then show ?thesis using f(6) s2(6) that by (simp add: log_leaves_def)
  qed
  ultimately show ?thesis using s2(2, 4) f(4, 5) by (intro exI [of _ "s2\<lparr>lfs := f\<rparr>"]) simp
qed

text \<open>C32: The log keeps what is logged. When the log has been started and has room before its last sector, \<^verbatim>\<open>disklog\<close> writes the string
  behind what was logged before and returns the new length. The text logged earlier and every byte of the device before the
  log are unchanged, and the header begins with the new length as a decimal number of eight places.\<close>

theorem disklog_appends:
  assumes "log_ready e dev blk (lfs s)" and "64 \<le> log_pos s" and "log_pos s + length bs \<le> 512 * 2047"
    and "is_cstr (fmem (lfs s)) logstr bs" and "apart logstr (length bs) logdiskbuf 0x100000" and "apart logstr (length bs) (hdbuf (hds (lfs s))) 512"
  shows "\<exists>s'. disklog e logstr s = Inr (int (log_pos s + length bs), s') \<and> log_pos s' = log_pos s + length bs \<and>
    (\<forall>i < length bs. dev_byte dev (lfs s') (512 * blk + log_pos s + i) = bs ! i) \<and>
    (\<forall>x. x < 512 * blk \<or> 512 * blk + 64 \<le> x \<and> x < 512 * blk + log_pos s \<longrightarrow> dev_byte dev (lfs s') x = dev_byte dev (lfs s) x) \<and>
    (\<forall>j < 8. dev_byte dev (lfs s') (512 * blk + j) = pad_inner 32 8 (i2a (int (log_pos s + length bs)) 10) ! j)"
  using disklog_spec [OF assms] by blast

text \<open>The sample disk with 3000 sectors and a string in memory.\<close>

definition sample_log :: dlog where
  "sample_log = \<lparr>lfs = upd_fmem (\<lambda>m. m(0x50000 := 104, 0x50001 := 105, 0x50002 := 0)) (sample_fs\<lparr>super_block_table := [sample_sb\<lparr>nr_sects := 3000\<rparr>]\<rparr>), log_pos = 64\<rparr>"

definition sample_env :: log_env where
  "sample_env = \<lparr>log_cmos = (\<lambda>_. 0), log_sys_t = 0x51000, log_pid = TASK_FS, log_t = 0x52000\<rparr>"

lemma sample_log_ready: "log_ready sample_env ROOT_DEV_NR 952 (lfs sample_log)"
proof -
  let ?s = "sample_fs\<lparr>super_block_table := [sample_sb\<lparr>nr_sects := 3000\<rparr>]\<rparr>"
  have d: "disk_ok ROOT_DEV_NR ?s" using sample_disk_ok by (simp add: disk_ok_def)
  have sb: "get_super_block ROOT_DEV_NR ?s = Inr (sample_sb\<lparr>nr_sects := 3000\<rparr>)" by (simp add: get_super_block_def sample_sb_def)
  have "log_ready sample_env ROOT_DEV_NR 952 ?s"
    using d sb sample_fs_va2la [of TASK_FS] sample_fs_va2la [of TASK_SYS]
    by (simp add: log_ready_def sample_env_def buffer_ok_def apart_def) (simp add: sample_fs_def sample_hd_def sample_root_def unat_u32_uminus)
  then show ?thesis using disk.upd_spec [OF d] by (auto simp: sample_log_def intro: log_ready_rest)
qed

theorem disklog_appends_witness:
  "\<exists>s'. disklog sample_env 0x50000 sample_log = Inr (66, s') \<and> dev_byte ROOT_DEV_NR (lfs s') (512 * 952 + 64) = 104 \<and>
     dev_byte ROOT_DEV_NR (lfs s') (512 * 952 + 65) = 105"
proof -
  have m: "fmem (lfs sample_log) 0x50000 = 104" "fmem (lfs sample_log) 0x50001 = 105" "fmem (lfs sample_log) 0x50002 = 0"
    by (simp_all add: sample_log_def upd_fmem_def upd_mem_def sample_fs_def sample_machine_def)
  have h: "hdbuf (hds (lfs sample_log)) = hdbuf sample_hd" "log_pos sample_log = 64" by (simp_all add: sample_log_def upd_fmem_def upd_mem_def sample_fs_def)
  have a: "apart 0x50000 (length [104 :: u8, 105]) logdiskbuf 0x100000" "apart 0x50000 (length [104 :: u8, 105]) (hdbuf (hds (lfs sample_log))) 512"
    unfolding h by (simp_all add: apart_def sample_hd_def unat_u32_uminus)
  have c: "is_cstr (fmem (lfs sample_log)) 0x50000 [104, 105]" using m by simp
  have "64 \<le> log_pos sample_log" "log_pos sample_log + length [104 :: u8, 105] \<le> 512 * 2047" by (simp_all add: h)
  from disklog_appends [OF sample_log_ready this c a]
  obtain s' where s': "disklog sample_env 0x50000 sample_log = Inr (int (64 + length [104 :: u8, 105]), s')"
    "\<forall>i < length [104 :: u8, 105]. dev_byte ROOT_DEV_NR (lfs s') (512 * 952 + 64 + i) = [104, 105] ! i"
    unfolding h by blast
  from s'(2) [THEN spec, of 0] s'(2) [THEN spec, of 1] s'(1) show ?thesis by (intro exI [of _ s']) simp
qed

end
