(* ===== verification/FdGraph.thy ===== *)
theory FdGraph
  imports DiskLog
begin

text \<open>
  The dump of the process, descriptor and inode tables and of the disk's maps as a graph,
  \<^verbatim>\<open>dump_fd_graph\<close> of \<^verbatim>\<open>src/task/fs/disklog.c\<close>. The text is collected in \<^verbatim>\<open>logbuf\<close> and then logged in pieces of
  511 bytes; in the meantime every process but the drivers and the caller is kept from running by taking its ticks
  and its priority away.

  The static buffer \<^verbatim>\<open>_buf\<close> and the arrays of arrows are lists. \<open>genv\<close> has what the calls of \<^verbatim>\<open>disklog\<close> depend on, and beside it
  stand the addresses of the local strings \<^verbatim>\<open>title\<close> and \<^verbatim>\<open>tmp\<close> and the last byte of \<^verbatim>\<open>filename\<close>, which the code never
  sets. The store to \<^verbatim>\<open>proc_state[FREE_SLOT]\<close> lies behind the end of that array; what it does depends on the frame the
  compiler lays out, and is the argument \<open>past\<close>. The messages of \<^verbatim>\<open>printl\<close> are left out.
\<close>

unbundle bit_operations_syntax

record graph_env =
  genv :: log_env
  g_title :: u32
  g_tmp :: u32
  g_fname_end :: u8

record dump =
  gdl :: dlog
  logbufpos :: nat
  graph_idx :: int

record links =
  ppm :: "(int \<times> int) list"
  pfm :: "(int \<times> int \<times> int) list"
  fim :: "(int \<times> int) list"
  msd :: "(int \<times> int \<times> u32) list"

abbreviation gfs :: "dump \<Rightarrow> fs" where
  "gfs d \<equiv> lfs (gdl d)"

definition upd_gfs :: "(fs \<Rightarrow> fs) \<Rightarrow> dump \<Rightarrow> dump" where
  "upd_gfs f d = d\<lparr>gdl := (gdl d)\<lparr>lfs := f (gfs d)\<rparr>\<rparr>"

text \<open>\<^verbatim>\<open>logbufpos += sprintf(logbuf + logbufpos, ...)\<close>, for one call or for several in a row.\<close>

definition emit :: "u8 list \<Rightarrow> dump \<Rightarrow> dump" where
  "emit t d = (upd_gfs (upd_fmem (\<lambda>mm. write_bytes mm (logbuf + of_nat (logbufpos d)) (t @ [0]))) d)\<lparr>logbufpos := logbufpos d + length t\<rparr>"

section \<open>The processes at rest\<close>

definition spared :: "int \<Rightarrow> int \<Rightarrow> proc \<Rightarrow> bool" where
  "spared callerpid i p \<longleftrightarrow> proc_state p = FREE_SLOT \<or> i = TASK_TTY \<or> i = TASK_SYS \<or> i = TASK_HD \<or> i = callerpid"

fun freeze :: "int \<Rightarrow> int \<Rightarrow> proc list \<Rightarrow> (int \<times> int) option list \<times> proc list" where
  "freeze callerpid i [] = ([], [])"
| "freeze callerpid i (p # ps) =
     (let (saved, qs) = freeze callerpid (i + 1) ps
      in if spared callerpid i p then (None # saved, p # qs)
         else (Some (ticks p, priority p) # saved, p\<lparr>ticks := 0, priority := 0\<rparr> # qs))"

text \<open>A slot that was not saved has no value to be restored.\<close>

fun thaw :: "int \<Rightarrow> int \<Rightarrow> (int \<times> int) option list \<Rightarrow> proc list \<Rightarrow> proc list outcome" where
  "thaw pid i saved [] = Inr []"
| "thaw pid i [] (p # ps) = Inl OutOfBounds"
| "thaw pid i (sv # saved) (p # ps) =
     obind (if spared pid i p then Inr p else case sv of None \<Rightarrow> Inl OutOfBounds | Some (tck, prio) \<Rightarrow> Inr (p\<lparr>ticks := tck, priority := prio\<rparr>)) (\<lambda>q.
     obind (thaw pid (i + 1) saved ps) (\<lambda>qs. Inr (q # qs)))"

section \<open>The text\<close>

definition node_end :: "u8 list" where
  "node_end = sprintf_text ''^t^q^n'' [] @ sprintf_text ''^t^t^tshape = ^qrecord^q^n'' [] @ sprintf_text ''^t^t];^n'' []"

definition graph_head :: "int \<Rightarrow> u8 list" where
  "graph_head idx =
     sprintf_text ''digraph filedesc%02d {^n'' [Num idx] @ sprintf_text ''^tgraph [^n'' [] @ sprintf_text ''^t^trankdir = ^qLR^q^n'' [] @
     sprintf_text ''^t];^n'' [] @ sprintf_text ''^tnode [^n'' [] @ sprintf_text ''^t^tfontsize = ^q16^q^n'' [] @
     sprintf_text ''^t^tshape = ^qellipse^q^n'' [] @ sprintf_text ''^t];^n'' [] @ sprintf_text ''^tedge [^n'' [] @ sprintf_text ''^t];^n'' []"

definition cluster_end :: "string \<Rightarrow> u8 list" where
  "cluster_end lb = sprintf_text (''^t^tlabel = ^q'' @ lb @ ''^q;^n'') [] @ sprintf_text ''^t}^n'' []"

text \<open>Processes, with their arrows.\<close>

definition proc_states :: "string list" where
  "proc_states = (replicate 32 ''__NOT_DEFINED__'')[0 := ''RUNNING'', 2 := ''SENDING'', 4 := ''RECEIVING'', 8 := ''WAITING'', 16 := ''HANGING'',
     10 := ''SENDING, WAITING'', 12 := ''RECEIVING, WAITING'', 20 := ''RECEIVING, HANGING'']"

definition state_name :: "u32 \<Rightarrow> u8 list outcome" where
  "state_name st = (if unat st < length proc_states then Inr (c_text (proc_states ! unat st)) else Inl OutOfBounds)"

fun graph_filps :: "int \<Rightarrow> int \<Rightarrow> int \<Rightarrow> nat option list \<Rightarrow> u8 list \<times> (int \<times> int \<times> int) list" where
  "graph_filps i k fnr [] = ([], [])"
| "graph_filps i k fnr (None # ds) = graph_filps i (k + 1) fnr ds"
| "graph_filps i k fnr (Some fdesc_tbl_idx # ds) =
     (let (t, ms) = graph_filps i (k + 1) (fnr + 1) ds
      in (sprintf_text ''^t|<f%d> filp[%d]: %d'' [Num fnr, Num k, Num (int fdesc_tbl_idx)] @ t, (i, fnr, int fdesc_tbl_idx) # ms))"

definition proc_links :: "int \<Rightarrow> proc \<Rightarrow> links \<Rightarrow> links" where
  "proc_links i p l =
     l\<lparr>ppm := ppm l @ (if p_parent p \<noteq> NO_TASK then [(i, p_parent p)] else []),
       msd := msd l @ (if proc_state p AND RECEIVING \<noteq> 0 then [(pid_recvingfrom p, i, RECEIVING)] else []) @
                      (if proc_state p AND SENDING \<noteq> 0 then [(i, pid_sendingto p, SENDING)] else []),
       pfm := pfm l @ snd (graph_filps i 0 3 (file_desc p))\<rparr>"

definition graph_proc :: "int \<Rightarrow> proc \<Rightarrow> links \<Rightarrow> (u8 list \<times> links) outcome" where
  "graph_proc i p l =
     obind (state_name (proc_state p)) (\<lambda>st.
       let l' = proc_links i p l
       in if length (pfm l') > 256 then Inl OutOfBounds
          else Inr (sprintf_text (''^t^t^qproc%d^q [^n'' @ ''^t^t^tlabel = ^q<f0>%s (%d) '' @ ''|<f1> proc_state:%d(%s)'' @ ''|<f2> p_parent:%d%s'' @ ''|<f3> eip:0x%x'')
                [Num i, Str (name p), Num i, Num (sint (proc_state p)), Str st, Num (p_parent p),
                 Str (if p_parent p = NO_TASK then c_text ''(NO_TASK)'' else []), Num (sint (eip_reg (regs p)))] @
              fst (graph_filps i 0 3 (file_desc p)) @ node_end, l'))"

fun graph_procs :: "int \<Rightarrow> proc list \<Rightarrow> links \<Rightarrow> (u8 list \<times> links) outcome" where
  "graph_procs i [] l = Inr ([], l)"
| "graph_procs i (p # ps) l =
     (if proc_state p = FREE_SLOT then graph_procs (i + 1) ps l
      else obind (graph_proc i p l) (\<lambda>(t, l1). obind (graph_procs (i + 1) ps l1) (\<lambda>(u, l2). Inr (t @ u, l2))))"

definition cluster_procs :: "proc list \<Rightarrow> (u8 list \<times> links) outcome" where
  "cluster_procs ps =
     obind (graph_procs 0 ps \<lparr>ppm = [], pfm = [], fim = [], msd = []\<rparr>) (\<lambda>(t, l).
       Inr (sprintf_text ''^n^tsubgraph cluster_0 {^n'' [] @ t @ sprintf_text ''^t^t^qproc%d^q [^n'' [Num ANY] @
            sprintf_text ''^t^t^tlabel = ^q<f0>ANY |<f1> '' [] @ node_end @ cluster_end ''procs'', l))"

text \<open>File descriptors and inodes.\<close>

fun graph_fds :: "int \<Rightarrow> file_desc list \<Rightarrow> u8 list \<times> (int \<times> int) list" where
  "graph_fds i [] = ([], [])"
| "graph_fds i (f # fs) =
     (case fd_inode f of None \<Rightarrow> graph_fds (i + 1) fs
      | Some inode_tbl_idx \<Rightarrow>
        let (t, ms) = graph_fds (i + 1) fs
        in (sprintf_text ''^t^t^qfiledesc%d^q [^n'' [Num i] @
            sprintf_text (''^t^t^tlabel = ^q<f0>filedesc %d'' @ ''|<f1> fd_mode:%d'' @ ''|<f2> fd_pos:%d'' @ ''|<f3> fd_cnt:%d'' @ ''|<f4> fd_inode:%d'')
              [Num i, Num (fd_mode f), Num (fd_pos f), Num (fd_cnt f), Num (int inode_tbl_idx)] @ node_end @ t, (i, int inode_tbl_idx) # ms))"

definition cluster_fds :: "file_desc list \<Rightarrow> u8 list" where
  "cluster_fds fs = sprintf_text ''^n^tsubgraph cluster_1 {^n'' [] @ fst (graph_fds 0 fs) @ cluster_end ''filedescs''"

fun graph_inodes :: "int \<Rightarrow> inode list \<Rightarrow> u8 list" where
  "graph_inodes i [] = []"
| "graph_inodes i (p # ps) =
     (if inode_cnt p = 0 then []
      else sprintf_text ''^t^t^qinode%d^q [^n'' [Num i] @
        sprintf_text (''^t^t^tlabel = ^q<f0>inode %d'' @ ''|<f1> inode_file_type:0x%x'' @ ''|<f2> inode_file_size:0x%x'' @ ''|<f3> inode_sect_start:0x%x'' @
            ''|<f4> inode_nr_sects:0x%x'' @ ''|<f5> inode_dev:0x%x'' @ ''|<f6> inode_cnt:%d'' @ ''|<f7> inode_nr:%d'')
          [Num i, Num (sint (inode_file_type p)), Num (sint (inode_file_size p)), Num (sint (inode_sect_start p)), Num (sint (inode_nr_sects p)),
           Num (inode_dev p), Num (inode_cnt p), Num (inode_nr p)] @ node_end) @ graph_inodes (i + 1) ps"

definition cluster_inodes :: "inode list \<Rightarrow> u8 list" where
  "cluster_inodes ps = sprintf_text ''^n^tsubgraph cluster_2 {^n'' [] @ graph_inodes 0 ps @ cluster_end ''inodes''"

text \<open>The maps on the disk. \<open>n\<close> is the number of the first bit.\<close>

definition filled :: "string \<Rightarrow> u8 list" where
  "filled c = sprintf_text (''^n^tsubgraph '' @ c @ '' {^n'') [] @ sprintf_text ''^n^t^tstyle=filled;^n'' [] @ sprintf_text ''^n^t^tcolor=lightgrey;^n'' []"

definition bits_of :: "u8 list \<Rightarrow> bool list" where
  "bits_of buf = concat (map (\<lambda>b. map (\<lambda>k. drop_bit k b AND 1 \<noteq> 0) [0..<8]) buf)"

definition smap_node :: "nat \<Rightarrow> nat \<Rightarrow> u8 list" where
  "smap_node bit_start bit_end =
     sprintf_text ''^t^t^qsector %xh^q [^n'' [Num (s32 (int bit_start))] @
     sprintf_text ''^t^t^tlabel = ^q<f0>sect %xh-%xh'' [Num (s32 (int bit_start)), Num (s32 (int bit_end))] @ node_end"

fun smap_bits :: "nat \<Rightarrow> bool list \<Rightarrow> bool \<times> nat \<Rightarrow> u8 list \<times> bool \<times> nat" where
  "smap_bits n [] st = ([], st)"
| "smap_bits n (b # bs) (smap_flag, bit_start) =
     (if \<not> smap_flag then smap_bits (n + 1) bs (if b then (True, n) else (False, bit_start))
      else if b then smap_bits (n + 1) bs (True, bit_start)
      else let (t, st) = smap_bits (n + 1) bs (False, bit_start) in (smap_node bit_start (n - 1) @ t, st))"

definition smap_sect :: "nat \<Rightarrow> u8 list \<Rightarrow> bool \<times> nat \<Rightarrow> (u8 list \<times> bool \<times> nat) outcome" where
  "smap_sect i buf st = Inr (smap_bits (4096 * i) (bits_of buf) st)"

fun imap_bits :: "nat \<Rightarrow> bool list \<Rightarrow> u8 list" where
  "imap_bits n [] = []"
| "imap_bits n (b # bs) = (if b then sprintf_text ''| %xh '' [Num (s32 (int n))] else []) @ imap_bits (n + 1) bs"

definition imap_sect :: "nat \<Rightarrow> u8 list \<Rightarrow> unit \<Rightarrow> (u8 list \<times> unit) outcome" where
  "imap_sect i buf u = Inr (imap_bits (4096 * i) (bits_of buf), u)"

text \<open>The first sector of the inode array: \<open>sizeof(inode)\<close> is 44, so the loop has 11 rounds, but the inodes are 32 bytes apart.\<close>

definition buf_mem :: "u8 list \<Rightarrow> mem" where
  "buf_mem buf = (\<lambda>a. if unat a < length buf then buf ! unat a else 0)"

definition array_node :: "super_block \<Rightarrow> u8 list \<Rightarrow> nat \<Rightarrow> u8 list outcome" where
  "array_node sb buf i =
     (let w = (\<lambda>off. rd32 (buf_mem buf) (of_nat (32 * i + off))); ty = w 0; size = w 4; start = w 8; cnt = w 12; nr = Num (int i + 1);
          node = (\<lambda>f a b. sprintf_text ''^t^t^qinodearray%d^q [^n'' [nr] @
            sprintf_text (''^t^t^tlabel = ^q<f0> %d'' @ ''|<f2> inode_file_size:0x%x'' @ f) [nr, Num (sint size), Num a, Num b] @ node_end)
      in if start = 0 then Inr []
         else if ty \<noteq> 0 then
           if start < nr_1st_data_sect sb then Inl PanicFail
           else let start_sect = start - nr_1st_data_sect sb + 1; end_sect = start_sect + cnt - 1
             in Inr (node ''|<f3> sect: %xh-%xh'' (sint start_sect) (sint end_sect))
         else Inr (node ''|<f3> dev nr: (%xh,%xh)'' (GET_DEV_MAJOR_NR (uint start)) (GET_DEV_MINOR_NR (uint start))))"

fun array_nodes :: "super_block \<Rightarrow> u8 list \<Rightarrow> nat list \<Rightarrow> u8 list outcome" where
  "array_nodes sb buf [] = Inr []"
| "array_nodes sb buf (i # is) = obind (array_node sb buf i) (\<lambda>t. obind (array_nodes sb buf is) (\<lambda>u. Inr (t @ u)))"

definition array_sect :: "super_block \<Rightarrow> nat \<Rightarrow> u8 list \<Rightarrow> unit \<Rightarrow> (u8 list \<times> unit) outcome" where
  "array_sect sb i buf u = obind (array_nodes sb buf [0..<512 div 44]) (\<lambda>t. Inr (t, u))"

text \<open>The root directory.\<close>

text \<open>A string in an array must end in it.\<close>

definition array_str :: "u8 list \<Rightarrow> u8 list outcome" where
  "array_str bs = (if 0 \<in> set bs then Inr (takeWhile (\<lambda>b. b \<noteq> 0) bs) else Inl OutOfBounds)"

definition dir_node :: "u8 \<Rightarrow> u8 list \<Rightarrow> nat \<Rightarrow> u8 list outcome" where
  "dir_node fname_end buf j =
     (let nr = Num (sint (rd32 (buf_mem buf) (of_nat (16 * j)))); raw = take MAX_FILENAME_LEN (drop (16 * j + 4) buf);
          filename = (if hd raw = 46 then 47 # tl raw else raw) @ [fname_end]
      in if nr = Num 0 then Inr []
         else obind (array_str filename) (\<lambda>nm.
           Inr (sprintf_text ''^t^t^qrootdirent%d^q [^n'' [nr] @ sprintf_text (''^t^t^tlabel = ^q<f0> %d'' @ ''|<f2> %s'') [nr, Str nm] @ node_end @
             sprintf_text (''^t'' @ ''^qinodearray%d^q:f0'' @ '' -> '' @ ''^qrootdirent%d^q:f0'' @ '';^n'') [nr, nr])))"

fun dir_nodes :: "u8 \<Rightarrow> u8 list \<Rightarrow> nat list \<Rightarrow> u8 list outcome" where
  "dir_nodes fe buf [] = Inr []"
| "dir_nodes fe buf (j # js) = obind (dir_node fe buf j) (\<lambda>t. obind (dir_nodes fe buf js) (\<lambda>u. Inr (t @ u)))"

definition dir_sect :: "u8 \<Rightarrow> nat \<Rightarrow> u8 list \<Rightarrow> unit \<Rightarrow> (u8 list \<times> unit) outcome" where
  "dir_sect fe i buf u = obind (dir_nodes fe buf [0..<512 div 16]) (\<lambda>t. Inr (t, u))"

text \<open>A round of reading sectors: \<open>g\<close> turns the contents of each into text.\<close>

fun scan_sects :: "log_env \<Rightarrow> int \<Rightarrow> (nat \<Rightarrow> u8 list \<Rightarrow> 'a \<Rightarrow> (u8 list \<times> 'a) outcome) \<Rightarrow> int \<Rightarrow> nat \<Rightarrow> nat \<Rightarrow> 'a \<Rightarrow> dump \<Rightarrow> ('a \<times> dump) outcome" where
  "scan_sects e dev g sect0 0 i st d = Inr (st, d)"
| "scan_sects e dev g sect0 (Suc n) i st d =
     obind (DISKLOG_RD_SECT e dev (sect0 + int i) (gfs d)) (\<lambda>f.
     obind (g i (read_bytes (fmem f) logdiskbuf 512) st) (\<lambda>(t, st').
     scan_sects e dev g sect0 n (i + 1) st' (emit t (upd_gfs (\<lambda>_. f) d))))"

definition cluster_smap :: "log_env \<Rightarrow> int \<Rightarrow> super_block \<Rightarrow> dump \<Rightarrow> dump outcome" where
  "cluster_smap e dev sb d =
     obind (scan_sects e dev smap_sect (sint (1 + 1 + nr_inode_map_sects sb)) (unat (nr_sect_map_sects sb)) 0 (False, 0) (emit (filled ''cluster_3'') d)) (\<lambda>(_, d1).
       Inr (emit (sprintf_text ''^t^tlabel = ^qsector map (dev size: %xh)^q;^n'' [Num (sint (nr_sects sb))] @ sprintf_text ''^t}^n'' []) d1))"

definition cluster_imap :: "log_env \<Rightarrow> int \<Rightarrow> super_block \<Rightarrow> dump \<Rightarrow> dump outcome" where
  "cluster_imap e dev sb d =
     obind (scan_sects e dev imap_sect (1 + 1) (unat (nr_inode_map_sects sb)) 0 ()
              (emit (filled ''cluster_4'' @ sprintf_text ''^t^t^qimap^q [^n'' [] @ sprintf_text ''^t^t^tlabel = ^q<f0>bits'' []) d)) (\<lambda>(_, d1).
       Inr (emit (node_end @ cluster_end ''inode map'') d1))"

definition cluster_array :: "log_env \<Rightarrow> int \<Rightarrow> super_block \<Rightarrow> dump \<Rightarrow> dump outcome" where
  "cluster_array e dev sb d =
     obind (scan_sects e dev (array_sect sb) (sint (1 + 1 + nr_inode_map_sects sb + nr_sect_map_sects sb)) 1 0 () (emit (filled ''cluster_5'') d)) (\<lambda>(_, d1).
       Inr (emit (cluster_end ''inode array'') d1))"

definition cluster_dir :: "log_env \<Rightarrow> u8 \<Rightarrow> int \<Rightarrow> inode \<Rightarrow> dump \<Rightarrow> dump outcome" where
  "cluster_dir e fe dev root d =
     obind (scan_sects e dev (dir_sect fe) (sint (inode_sect_start root)) (nat (sint ((inode_file_size root + 512 - 1) div 512))) 0 () (emit (filled ''cluster_6'') d)) (\<lambda>(_, d1).
       Inr (emit (cluster_end ''root dir'') d1))"

text \<open>The arrows and the tail.\<close>

definition msg_arrow :: "nat \<times> int \<times> int \<times> u32 \<Rightarrow> u8 list" where
  "msg_arrow a =
     (case a of (i, src, dst, dir) \<Rightarrow>
        if dir = RECEIVING then
          sprintf_text (''^t^qproc%d^q:f0 -> ^qproc%d^q:f0 '' @ ''[arrowhead=^qcrow^q, color=^qgreen^q, label=^q%d^q];^n'') [Num dst, Num src, Num (int i)]
        else sprintf_text (''^t^qproc%d^q:f0 -> ^qproc%d^q:f0 '' @ ''[arrowhead=^qvee^q, color=^qblue^q, label=^q%d^q];^n'') [Num src, Num dst, Num (int i)])"

fun inode_arrows :: "int \<Rightarrow> inode list \<Rightarrow> u8 list" where
  "inode_arrows i [] = []"
| "inode_arrows i (p # ps) =
     (if inode_cnt p \<noteq> 0 then sprintf_text ''^t^qinode%d^q:f7 -> ^qinodearray%d^q:f0;^n'' [Num i, Num (inode_nr p)] else []) @ inode_arrows (i + 1) ps"

definition graph_arrows :: "links \<Rightarrow> inode list \<Rightarrow> u8 list" where
  "graph_arrows l ps =
     concat (map msg_arrow (enumerate 0 (msd l))) @
     concat (map (\<lambda>(pid, ppid). sprintf_text (''^t^qproc%d^q:f0 -> ^qproc%d^q:f0 '' @ ''[arrowhead=^qdot^q, color=^qivory3^q];^n'') [Num ppid, Num pid]) (ppm l)) @
     concat (map (\<lambda>(pid, filp, desc). sprintf_text ''^t^qproc%d^q:f%d -> ^qfiledesc%d^q:f3;^n'' [Num pid, Num filp, Num desc]) (pfm l)) @
     concat (map (\<lambda>(desc, ino). sprintf_text ''^t^qfiledesc%d^q:f4 -> ^qinode%d^q:f6;^n'' [Num desc, Num ino]) (fim l)) @
     inode_arrows 0 ps"

definition graph_tail :: "u8 list \<Rightarrow> u8 list" where
  "graph_tail ttl = sprintf_text ''^tlabel = ^q%s^q;^n'' [Str ttl] @ sprintf_text ''}^n'' [] @ sprintf_text ''--separator--^n'' []"

section \<open>The dump\<close>

function log_chunks :: "graph_env \<Rightarrow> nat \<Rightarrow> nat \<Rightarrow> dlog \<Rightarrow> dlog outcome" where
  "log_chunks e pos bytes_left s =
     (if bytes_left = 0 then Inr s
      else let bytes = min bytes_left (1024 div 2 - 1);
               f = upd_fmem (\<lambda>mm. (memcpy mm (g_tmp e) (logbuf + of_nat pos) (of_nat bytes))(g_tmp e + of_nat bytes := 0)) (lfs s)
        in obind (disklog (genv e) (g_tmp e) (s\<lparr>lfs := f\<rparr>)) (\<lambda>(_, s'). log_chunks e (pos + bytes) (bytes_left - bytes) s'))"
  by pat_completeness auto
termination
  by (relation "measure (\<lambda>(e, pos, left, s). left)") auto

declare log_chunks.simps [simp del]

definition graph_tables :: "dump \<Rightarrow> (links \<times> dump) outcome" where
  "graph_tables d =
     obind (cluster_procs (proc_table (fkern (gfs d)))) (\<lambda>(t, l).
       Inr (l\<lparr>fim := snd (graph_fds 0 (file_desc_table (gfs d)))\<rparr>,
            emit (t @ cluster_fds (file_desc_table (gfs d)) @ cluster_inodes (inode_table (gfs d))) d))"

definition graph_disk :: "graph_env \<Rightarrow> dump \<Rightarrow> dump outcome" where
  "graph_disk e d =
     obind (deref (inode_table (gfs d)) (root_inode (gfs d))) (\<lambda>r.
     let root = inode_table (gfs d) ! r; dev = inode_dev root
     in obind (get_super_block dev (gfs d)) (\<lambda>sb.
        obind (cluster_smap (genv e) dev sb d) (\<lambda>d1.
        obind (cluster_imap (genv e) dev sb d1) (\<lambda>d2.
        obind (cluster_array (genv e) dev sb d2) (\<lambda>d3.
        cluster_dir (genv e) (g_fname_end e) dev root d3)))))"

definition graph_flush :: "graph_env \<Rightarrow> dump \<Rightarrow> dump outcome" where
  "graph_flush e d =
     c_assert (int (logbufpos d) < LOG_BUF_SIZE)
       (obind (log_chunks e 0 (logbufpos d)
          ((gdl d)\<lparr>lfs := upd_fmem (\<lambda>mm. mm(logbuf + of_nat (logbufpos d) := 0)) (gfs d)\<rparr>)) (\<lambda>s. Inr (d\<lparr>gdl := s\<rparr>)))"

definition thaw_dump :: "graph_env \<Rightarrow> (int \<times> int) option list \<Rightarrow> dump \<Rightarrow> dump outcome" where
  "thaw_dump e saved d =
     obind (log_getpid (genv e) (gfs d)) (\<lambda>(pid, f).
     obind (thaw pid 0 saved (proc_table (fkern f))) (\<lambda>ps.
       Inr (upd_gfs (\<lambda>_. upd_kern (\<lambda>k. k\<lparr>proc_table := ps\<rparr>) f) d)))"

definition dump_fd_graph :: "graph_env \<Rightarrow> (dump \<Rightarrow> dump outcome) \<Rightarrow> u32 \<Rightarrow> u32 \<Rightarrow> dump \<Rightarrow> dump outcome" where
  "dump_fd_graph e past fmt arg d =
     obind (of_loop (vsprintf (fmem (gfs d)) (g_title e) fmt arg)) (\<lambda>(i, mm).
     if i \<ge> 1024 then Inl OutOfBounds
     else obind (of_loop (strlen mm (g_title e))) (\<lambda>n. c_assert (sint n = i)
      (obind (log_getpid (genv e) (upd_fmem (\<lambda>_. mm) (gfs d))) (\<lambda>(callerpid, f).
       let (saved, ps) = freeze callerpid 0 (proc_table (fkern f));
           d1 = (upd_gfs (\<lambda>_. upd_kern (\<lambda>k. k\<lparr>proc_table := ps\<rparr>) f) d)\<lparr>logbufpos := 0\<rparr>
       in obind (past d1) (\<lambda>d2.
          obind (graph_tables ((emit (graph_head (graph_idx d2)) d2)\<lparr>graph_idx := s32 (graph_idx d2 + 1)\<rparr>)) (\<lambda>(l, d3).
          obind (graph_disk e d3) (\<lambda>d4.
          let d5 = emit (graph_arrows l (inode_table (gfs d4))) d4
          in obind (of_loop (read_cstr (fmem (gfs d5)) (g_title e))) (\<lambda>ttl.
             obind (graph_flush e (emit (graph_tail ttl) d5)) (thaw_dump e saved)))))))))"

end
