(* ===== verification/FdDump.thy ===== *)
theory FdDump
  imports FdGraph
begin

text \<open>
  What the dump of the tables does: the text of the graph is appended to the log as a whole, every process gets its ticks and
  its priority back, and nothing else of the device or of the tables changes. The runs of the sector map.
\<close>

section \<open>Processes at rest and restored\<close>

lemma thaw_freeze: "thaw c i (fst (freeze c i ps)) (snd (freeze c i ps)) = Inr ps"
proof (induction ps arbitrary: i)
  case (Cons p ps)
  have "spared c i (p\<lparr>ticks := t, priority := q\<rparr>) = spared c i p" for t q by (simp add: spared_def)
  with Cons [of "i + 1"] show ?case by (cases "freeze c (i + 1) ps") (simp add: Let_def)
qed simp

lemma freeze_nth:
  "j < length ps \<Longrightarrow> snd (freeze c i ps) ! j = (if spared c (i + int j) (ps ! j) then ps ! j else (ps ! j)\<lparr>ticks := 0, priority := 0\<rparr>)"
proof (induction ps arbitrary: i j)
  case (Cons p ps)
  show ?case using Cons.IH [of "j - 1" "i + 1"] Cons.prems
    by (cases j) (auto simp: Let_def add.commute add.left_commute split: prod.split)
qed simp

lemma freeze_length [simp]: "length (snd (freeze c i ps)) = length ps"
  by (induction ps arbitrary: i) (auto simp: Let_def split: prod.split, metis snd_conv)

lemma freeze_same: "cluster_procs (snd (freeze c i ps)) = cluster_procs ps"
proof -
  have "graph_procs j (snd (freeze c i ps)) l = graph_procs j ps l" for j l
  proof (induction ps arbitrary: i j l)
    case (Cons p ps)
    have "graph_proc j (p\<lparr>ticks := 0, priority := 0\<rparr>) l = graph_proc j p l" for l by (simp add: graph_proc_def proc_links_def cong: if_cong)
    moreover have "graph_procs (j + 1) (snd (freeze c (i + 1) ps)) l = graph_procs (j + 1) ps l" for l by (rule Cons)
    ultimately show ?case by (cases "freeze c (i + 1) ps") (simp add: Let_def)
  qed simp
  then show ?thesis by (simp add: cluster_procs_def)
qed

lemma freeze_va2la:
  "proc_table k' = snd (freeze c 0 (proc_table k)) \<Longrightarrow> beyond k' = beyond k \<Longrightarrow> proc_va2la k' pid a = proc_va2la k pid a"
proof -
  assume "proc_table k' = snd (freeze c 0 (proc_table k))" "beyond k' = beyond k"
  then have "ldts (proc_at k' pid) = ldts (proc_at k pid)" by (auto simp: proc_at_def freeze_nth)
  then show ?thesis by (simp add: proc_va2la_def ldt_idx_to_base_addr_def)
qed

section \<open>Collecting the text\<close>

text \<open>The strings of the caller and the text buffer, and what logging writes to, do not overlap.\<close>

definition dump_ready :: "graph_env \<Rightarrow> int \<Rightarrow> nat \<Rightarrow> fs \<Rightarrow> bool" where
  "dump_ready e dev blk s \<longleftrightarrow> log_ready (genv e) dev blk s \<and>
     (\<forall>(a, n) \<in> {(logbuf, 0x100000), (g_tmp e, 512)}. apart a n (hdbuf (hds s)) 512 \<and> apart a n (log_t (genv e)) 24 \<and> apart a n (log_sys_t (genv e)) 24) \<and>
     apart (g_title e) 1024 (hdbuf (hds s)) 512 \<and> apart (g_title e) 1024 logbuf 0x100000 \<and> apart (g_title e) 1024 logdiskbuf 0x100000 \<and>
     apart (g_tmp e) 512 logbuf 0x100000 \<and> apart (g_tmp e) 512 logdiskbuf 0x100000"

lemma dump_ready_rest:
  assumes "dump_ready e dev blk s" "fs_rest s' = fs_rest s" "disk_ok dev s'"
  shows "dump_ready e dev blk s'"
  using assms log_ready_rest [OF _ assms(2, 3)] by (auto simp: dump_ready_def fs_rest_def)

text \<open>The text \<open>t\<close> stands in the buffer, and the rest is as in \<open>d0\<close>.\<close>

definition collected :: "graph_env \<Rightarrow> int \<Rightarrow> dump \<Rightarrow> u8 list \<Rightarrow> dump \<Rightarrow> bool" where
  "collected e dev d0 t d \<longleftrightarrow> logbufpos d = length t \<and> (\<forall>i < length t. fmem (gfs d) (logbuf + of_nat i) = t ! i) \<and>
     disk_ok dev (gfs d) \<and> sector dev (gfs d) = sector dev (gfs d0) \<and> fs_rest (gfs d) = fs_rest (gfs d0) \<and>
     log_pos (gdl d) = log_pos (gdl d0) \<and> graph_idx d = graph_idx d0 \<and>
     (\<forall>j < 1024. fmem (gfs d) (g_title e + of_nat j) = fmem (gfs d0) (g_title e + of_nat j))"

lemma upd_gfs_simps [simp]:
  "gfs (upd_gfs f d) = f (gfs d)" "log_pos (gdl (upd_gfs f d)) = log_pos (gdl d)" "graph_idx (upd_gfs f d) = graph_idx d"
  "logbufpos (upd_gfs f d) = logbufpos d"
  by (simp_all add: upd_gfs_def)

lemma fmem_upd_fmem [simp]: "fmem (upd_fmem f s) = f (fmem s)"
  by (simp add: upd_fmem_def upd_mem_def)

lemma collected_emit:
  assumes "dump_ready e dev blk (gfs d0)" "collected e dev d0 t d" "length t + length u < 0x100000"
  shows "collected e dev d0 (t @ u) (emit u d)"
proof -
  let ?w = "\<lambda>mm. write_bytes mm (logbuf + of_nat (length t)) (u @ [0])"
  have c: "logbufpos d = length t" "\<forall>i < length t. fmem (gfs d) (logbuf + of_nat i) = t ! i" "disk_ok dev (gfs d)"
    "sector dev (gfs d) = sector dev (gfs d0)" "fs_rest (gfs d) = fs_rest (gfs d0)" "log_pos (gdl d) = log_pos (gdl d0)" "graph_idx d = graph_idx d0"
    "\<forall>j < 1024. fmem (gfs d) (g_title e + of_nat j) = fmem (gfs d0) (g_title e + of_nat j)"
    using assms(2) by (simp_all add: collected_def)
  have g: "gfs (emit u d) = upd_fmem ?w (gfs d)" by (simp add: emit_def c(1))
  have w: "?w mm x = (if unat (x - (logbuf + of_nat (length t))) < Suc (length u) then (u @ [0]) ! unat (x - (logbuf + of_nat (length t))) else mm x)" for mm x
    using assms(3) by (subst write_bytes_eq) simp_all
  have "?w mm (logbuf + of_nat i) = (if i < length t then mm (logbuf + of_nat i) else u ! (i - length t))" if "i < length t + length u" for i mm
  proof -
    have "unat (logbuf + of_nat i - (logbuf + of_nat (length t))) = (if length t \<le> i then i - length t else i + 4294967296 - length t)"
      using that assms(3) unat_of_nat_u32 [of i] unat_of_nat_u32 [of "length t"] by (simp add: unat_sub_if')
    then show ?thesis unfolding w using that assms(3) by (auto simp: nth_append)
  qed
  moreover have "?w mm (g_title e + of_nat j) = mm (g_title e + of_nat j)" if "j < 1024" for j mm
  proof -
    have ap: "apart (g_title e) 1024 logbuf 0x100000" using assms(1) by (simp add: dump_ready_def)
    have "0x100000 \<le> unat (g_title e + of_nat j - logbuf)" using apart_offset [OF apart_sym [OF ap] that] by simp
    then have "unat (g_title e + of_nat j - (logbuf + of_nat (length t))) = unat (g_title e + of_nat j - logbuf) - length t" and
      "0x100000 \<le> unat (g_title e + of_nat j - logbuf)"
      using assms(3) by (auto intro!: unat_minus_offset)
    then have "\<not> unat (g_title e + of_nat j - (logbuf + of_nat (length t))) < Suc (length u)" using assms(3) by linarith
    then show ?thesis unfolding w by simp
  qed
  ultimately show ?thesis
    using c disk.upd_spec [OF c(3), of ?w] unfolding collected_def g by (auto simp: emit_def nth_append)
qed

definition sect_bytes :: "int \<Rightarrow> fs \<Rightarrow> nat \<Rightarrow> u8 list" where
  "sect_bytes dev s n = map (\<lambda>j. dev_byte dev s (512 * n + j)) [0..<512]"

lemma collected_read:
  assumes "dump_ready e dev blk (gfs d0)" "collected e dev d0 t d" "length t < 0x100000" "n < SECT_LIMIT"
  shows "\<exists>f. DISKLOG_RD_SECT (genv e) dev (int n) (gfs d) = Inr f \<and> read_bytes (fmem f) logdiskbuf 512 = sect_bytes dev (gfs d0) n \<and>
    collected e dev d0 t (upd_gfs (\<lambda>_. f) d)"
proof -
  have c: "disk_ok dev (gfs d)" "sector dev (gfs d) = sector dev (gfs d0)" "fs_rest (gfs d) = fs_rest (gfs d0)"
    using assms(2) by (simp_all add: collected_def)
  have rdy: "dump_ready e dev blk (gfs d)" by (rule dump_ready_rest [OF assms(1) c(3, 1)])
  then have b: "buffer_ok (log_pid (genv e)) logdiskbuf (gfs d)" by (simp add: dump_ready_def log_ready_def)
  obtain f where f: "DISKLOG_RD_SECT (genv e) dev (int n) (gfs d) = Inr f" "disk_ok dev f" "sector dev f = sector dev (gfs d)" "fs_rest f = fs_rest (gfs d)"
    "\<forall>j < 512. fmem f (logdiskbuf + of_nat j) = dev_byte dev (gfs d) (512 * n + j)"
    "\<forall>x. 512 \<le> unat (x - logdiskbuf) \<and> 512 \<le> unat (x - hdbuf (hds (gfs d))) \<longrightarrow> fmem f x = fmem (gfs d) x"
    using rd_sectors_bytes [OF c(1), of n 1, OF _ _ _ b] assms(4) by (auto simp: DISKLOG_RD_SECT_def)
  have keep: "fmem f (a + of_nat j) = fmem (gfs d) (a + of_nat j)" if "apart a k logdiskbuf 0x100000" "apart a k (hdbuf (hds (gfs d))) 512" "j < k" for a k j
    using f(6) apart_offset [OF apart_sym [OF that(1)] that(3)] apart_offset [OF apart_sym [OF that(2)] that(3)] by simp
  have lb: "apart logbuf 0x100000 logdiskbuf 0x100000" by (simp add: apart_def unat_u32_uminus)
  have "read_bytes (fmem f) logdiskbuf 512 = sect_bytes dev (gfs d0) n"
    using f(5) dev_byte_cong [OF c(2)] by (simp add: list_eq_iff_nth_eq sect_bytes_def)
  moreover have "collected e dev d0 t (upd_gfs (\<lambda>_. f) d)"
    using assms(2, 3) f(2-4) keep [OF lb] keep [of "g_title e" 1024] rdy unfolding collected_def by (auto simp: dump_ready_def)
  ultimately show ?thesis using f(1) by blast
qed

section \<open>The text of the disk\<close>

fun scan_text :: "(nat \<Rightarrow> u8 list \<Rightarrow> 'a \<Rightarrow> (u8 list \<times> 'a) outcome) \<Rightarrow> (nat \<Rightarrow> u8 list) \<Rightarrow> nat \<Rightarrow> nat \<Rightarrow> 'a \<Rightarrow> (u8 list \<times> 'a) outcome" where
  "scan_text g bs 0 i st = Inr ([], st)"
| "scan_text g bs (Suc n) i st =
     obind (g i (bs i) st) (\<lambda>(t, st1). obind (scan_text g bs n (i + 1) st1) (\<lambda>(u, st2). Inr (t @ u, st2)))"

lemma scan_sects_text:
  assumes "dump_ready e dev blk (gfs d0)" "collected e dev d0 t d" "sect0 + i + n \<le> SECT_LIMIT"
    and "scan_text g (\<lambda>i. sect_bytes dev (gfs d0) (sect0 + i)) n i st = Inr (u, st')" "length t + length u < 0x100000"
  shows "\<exists>d'. scan_sects (genv e) dev g (int sect0) n i st d = Inr (st', d') \<and> collected e dev d0 (t @ u) d'"
  using assms(2-5)
proof (induction n arbitrary: i st t d u)
  case (Suc n)
  obtain t1 st1 u1 where g: "g i (sect_bytes dev (gfs d0) (sect0 + i)) st = Inr (t1, st1)"
    "scan_text g (\<lambda>i. sect_bytes dev (gfs d0) (sect0 + i)) n (i + 1) st1 = Inr (u1, st')" "u = t1 @ u1"
    using Suc.prems(3) by (auto elim!: obind_InrE)
  obtain f where f: "DISKLOG_RD_SECT (genv e) dev (int (sect0 + i)) (gfs d) = Inr f" "read_bytes (fmem f) logdiskbuf 512 = sect_bytes dev (gfs d0) (sect0 + i)"
    "collected e dev d0 t (upd_gfs (\<lambda>_. f) d)"
    using collected_read [OF assms(1) Suc.prems(1), of "sect0 + i"] Suc.prems(2, 4) by auto
  have "collected e dev d0 (t @ t1) (emit t1 (upd_gfs (\<lambda>_. f) d))"
    using collected_emit [OF assms(1) f(3)] Suc.prems(4) g(3) by simp
  from Suc.IH [OF this _ g(2)] Suc.prems(2, 4) g(3) obtain d' where
    "scan_sects (genv e) dev g (int sect0) n (i + 1) st1 (emit t1 (upd_gfs (\<lambda>_. f) d)) = Inr (st', d')" "collected e dev d0 ((t @ t1) @ u1) d'" by auto
  then show ?case using f(1, 2) g(1, 3) by simp
qed auto

text \<open>Where the maps and the root directory are.\<close>

definition maps_ok :: "super_block \<Rightarrow> inode \<Rightarrow> bool" where
  "maps_ok sb root \<longleftrightarrow> unat (nr_inode_map_sects sb) + unat (nr_sect_map_sects sb) + 3 \<le> SECT_LIMIT \<and>
     unat (inode_sect_start root) + unat ((inode_file_size root + 511) div 512) \<le> SECT_LIMIT"

definition disk_text :: "u8 \<Rightarrow> int \<Rightarrow> super_block \<Rightarrow> inode \<Rightarrow> (nat \<Rightarrow> u8 list) \<Rightarrow> u8 list outcome" where
  "disk_text fe dev sb root sect =
     (let im = unat (nr_inode_map_sects sb); sm = unat (nr_sect_map_sects sb)
      in obind (scan_text smap_sect (\<lambda>i. sect (2 + im + i)) sm 0 (False, 0)) (\<lambda>(t3, _).
         obind (scan_text imap_sect (\<lambda>i. sect (2 + i)) im 0 ()) (\<lambda>(t4, _).
         obind (scan_text (array_sect sb) (\<lambda>i. sect (2 + im + sm + i)) 1 0 ()) (\<lambda>(t5, _).
         obind (scan_text (dir_sect fe) (\<lambda>i. sect (unat (inode_sect_start root) + i)) (unat ((inode_file_size root + 511) div 512)) 0 ()) (\<lambda>(t6, _).
           Inr (filled ''cluster_3'' @ t3 @ sprintf_text ''^t^tlabel = ^qsector map (dev size: %xh)^q;^n'' [Num (sint (nr_sects sb))] @ sprintf_text ''^t}^n'' [] @
                filled ''cluster_4'' @ sprintf_text ''^t^t^qimap^q [^n'' [] @ sprintf_text ''^t^t^tlabel = ^q<f0>bits'' [] @ t4 @ node_end @ cluster_end ''inode map'' @
                filled ''cluster_5'' @ t5 @ cluster_end ''inode array'' @
                filled ''cluster_6'' @ t6 @ cluster_end ''root dir''))))))"

text \<open>One cluster: some text, the text of the sectors, some text.\<close>

lemma cluster_text:
  assumes "dump_ready e dev blk (gfs d0)" "collected e dev d0 t d" "sect0 + n \<le> SECT_LIMIT"
    and "scan_text g (\<lambda>i. sect_bytes dev (gfs d0) (sect0 + i)) n 0 st = Inr (u, st')" "length t + length a + length u + length b < 0x100000"
  shows "\<exists>d'. obind (scan_sects (genv e) dev g (int sect0) n 0 st (emit a d)) (\<lambda>(_, d1). Inr (emit b d1)) = Inr d' \<and>
    collected e dev d0 (t @ a @ u @ b) d'"
proof -
  have a: "collected e dev d0 (t @ a) (emit a d)" using collected_emit [OF assms(1, 2)] assms(5) by simp
  obtain d1 where d1: "scan_sects (genv e) dev g (int sect0) n 0 st (emit a d) = Inr (st', d1)" "collected e dev d0 ((t @ a) @ u) d1"
    using scan_sects_text [OF assms(1) a _ assms(4)] assms(3, 5) by auto
  show ?thesis using d1(1) collected_emit [OF assms(1) d1(2), of b] assms(5) by simp
qed

lemma graph_disk_text:
  assumes "dump_ready e dev blk (gfs d0)" "collected e dev d0 t d" "root_inode (gfs d0) = Some r" "r < length (inode_table (gfs d0))"
    and "inode_dev (inode_table (gfs d0) ! r) = dev" "get_super_block dev (gfs d0) = Inr sb" "maps_ok sb (inode_table (gfs d0) ! r)"
    and "disk_text (g_fname_end e) dev sb (inode_table (gfs d0) ! r) (sect_bytes dev (gfs d0)) = Inr u" "length t + length u < 0x100000"
  shows "\<exists>d'. graph_disk e d = Inr d' \<and> collected e dev d0 (t @ u) d'"
proof -
  let ?root = "inode_table (gfs d0) ! r" and ?im = "unat (nr_inode_map_sects sb)" and ?sm = "unat (nr_sect_map_sects sb)"
  note m = assms(7) [unfolded maps_ok_def]
  have n1: "sint (1 + 1 + nr_inode_map_sects sb) = int (2 + ?im)" "sint (1 + 1 + nr_inode_map_sects sb + nr_sect_map_sects sb) = int (2 + ?im + ?sm)"
    using m sint_of_nat_u32 [of "2 + ?im"] sint_of_nat_u32 [of "2 + ?im + ?sm"] by (simp_all add: add.assoc)
  have n2: "sint (inode_sect_start ?root) = int (unat (inode_sect_start ?root))" using m by (intro sint_u32_unat) linarith
  have n3: "nat (sint ((inode_file_size ?root + 512 - 1) div 512)) = unat ((inode_file_size ?root + 511) div 512)"
  proof -
    have e: "inode_file_size ?root + 512 - 1 = inode_file_size ?root + 511" by simp
    show ?thesis unfolding e using m sint_u32_unat [of "(inode_file_size ?root + 511) div 512"] by simp
  qed
  obtain t3 s3 t4 t5 t6 where tx: "scan_text smap_sect (\<lambda>i. sect_bytes dev (gfs d0) (2 + ?im + i)) ?sm 0 (False, 0) = Inr (t3, s3)"
    "scan_text imap_sect (\<lambda>i. sect_bytes dev (gfs d0) (2 + i)) ?im 0 () = Inr (t4, ())"
    "scan_text (array_sect sb) (\<lambda>i. sect_bytes dev (gfs d0) (2 + ?im + ?sm + i)) 1 0 () = Inr (t5, ())"
    "scan_text (dir_sect (g_fname_end e)) (\<lambda>i. sect_bytes dev (gfs d0) (unat (inode_sect_start ?root) + i)) (unat ((inode_file_size ?root + 511) div 512)) 0 () = Inr (t6, ())"
    "u = filled ''cluster_3'' @ t3 @ sprintf_text ''^t^tlabel = ^qsector map (dev size: %xh)^q;^n'' [Num (sint (nr_sects sb))] @ sprintf_text ''^t}^n'' [] @
       filled ''cluster_4'' @ sprintf_text ''^t^t^qimap^q [^n'' [] @ sprintf_text ''^t^t^tlabel = ^q<f0>bits'' [] @ t4 @ node_end @ cluster_end ''inode map'' @
       filled ''cluster_5'' @ t5 @ cluster_end ''inode array'' @ filled ''cluster_6'' @ t6 @ cluster_end ''root dir''"
    using assms(8) unfolding disk_text_def Let_def by (auto elim!: obind_InrE)
  let ?e3 = "sprintf_text ''^t^tlabel = ^qsector map (dev size: %xh)^q;^n'' [Num (sint (nr_sects sb))] @ sprintf_text ''^t}^n'' []"
  let ?a4 = "filled ''cluster_4'' @ sprintf_text ''^t^t^qimap^q [^n'' [] @ sprintf_text ''^t^t^tlabel = ^q<f0>bits'' []"
  have u: "u = filled ''cluster_3'' @ t3 @ ?e3 @ ?a4 @ t4 @ (node_end @ cluster_end ''inode map'') @ filled ''cluster_5'' @ t5 @ cluster_end ''inode array'' @
    filled ''cluster_6'' @ t6 @ cluster_end ''root dir''" using tx(5) by (simp only: append_assoc)
  note len = assms(9) [unfolded u length_append]
  obtain d1 where d1: "cluster_smap (genv e) dev sb d = Inr d1" "collected e dev d0 (t @ filled ''cluster_3'' @ t3 @ ?e3) d1"
    using cluster_text [OF assms(1, 2) _ tx(1), of "filled ''cluster_3''" ?e3] m len unfolding cluster_smap_def n1 by auto
  obtain d2 where d2: "cluster_imap (genv e) dev sb d1 = Inr d2"
    "collected e dev d0 ((t @ filled ''cluster_3'' @ t3 @ ?e3) @ ?a4 @ t4 @ (node_end @ cluster_end ''inode map'')) d2"
    using cluster_text [OF assms(1) d1(2) _ tx(2), of ?a4 "node_end @ cluster_end ''inode map''"] m len unfolding cluster_imap_def by auto
  let ?t2 = "(t @ filled ''cluster_3'' @ t3 @ ?e3) @ ?a4 @ t4 @ (node_end @ cluster_end ''inode map'')"
  obtain d3 where d3: "cluster_array (genv e) dev sb d2 = Inr d3" "collected e dev d0 (?t2 @ filled ''cluster_5'' @ t5 @ cluster_end ''inode array'') d3"
    using cluster_text [OF assms(1) d2(2) _ tx(3), of "filled ''cluster_5''" "cluster_end ''inode array''"] m len unfolding cluster_array_def n1 by auto
  obtain d4 where d4: "cluster_dir (genv e) (g_fname_end e) dev ?root d3 = Inr d4"
    "collected e dev d0 ((?t2 @ filled ''cluster_5'' @ t5 @ cluster_end ''inode array'') @ filled ''cluster_6'' @ t6 @ cluster_end ''root dir'') d4"
    using cluster_text [OF assms(1) d3(2) _ tx(4), of "filled ''cluster_6''" "cluster_end ''root dir''"] m len unfolding cluster_dir_def n2 n3 by auto
  have rest: "fs_rest (gfs d) = fs_rest (gfs d0)" using assms(2) by (simp add: collected_def)
  then have tb: "inode_table (gfs d) = inode_table (gfs d0)" "root_inode (gfs d) = root_inode (gfs d0)" "get_super_block dev (gfs d) = Inr sb"
    using get_super_block_rest [OF rest] assms(6) by (simp_all add: fs_rest_def)
  have "graph_disk e d = Inr d4" using d1(1) d2(1) d3(1) d4(1) tb assms(3-5) by (simp add: graph_disk_def deref_def Let_def)
  then show ?thesis using d4(2) u by (auto simp: append_assoc)
qed

section \<open>Logging the text\<close>

lemma is_cstr_bytes: "(\<And>i. i < length bs \<Longrightarrow> m (a + of_nat i) = bs ! i) \<Longrightarrow> 0 \<notin> set bs \<Longrightarrow> m (a + of_nat (length bs)) = 0 \<Longrightarrow> is_cstr m a bs"
  using is_cstr_append [of m a bs "[]"] by (auto simp: in_set_conv_nth)

text \<open>One piece in the local buffer.\<close>

lemma tmp_piece:
  fixes mm :: mem
  assumes "b < 512" "apart tmp 512 logbuf 0x100000" "pos + b \<le> 0x100000" "\<And>i. i < b \<Longrightarrow> mm (logbuf + of_nat (pos + i)) = bs ! i" "length bs = b" "0 \<notin> set bs"
  defines "m1 \<equiv> (memcpy mm tmp (logbuf + of_nat pos) (of_nat b))(tmp + of_nat b := 0)"
  shows "is_cstr m1 tmp bs" "j < 0x100000 \<Longrightarrow> m1 (logbuf + of_nat j) = mm (logbuf + of_nat j)"
proof -
  have ub: "unat (of_nat b :: u32) = b" using assms(1) by (intro unat_of_nat_u32) simp
  have "b \<le> unat (tmp - (logbuf + of_nat pos))"
    using assms(1-3) unat_minus_offset [of pos tmp logbuf] by (auto simp: apart_def)
  then have cp: "memcpy mm tmp (logbuf + of_nat pos) (of_nat b) x = (if unat (x - tmp) < b then mm (logbuf + of_nat pos + (x - tmp)) else mm x)" for x
    using memcpy_eq [of tmp "logbuf + of_nat pos" "of_nat b" mm] ub by simp
  show "is_cstr m1 tmp bs"
  proof (rule is_cstr_bytes)
    fix i assume "i < length bs"
    then have i: "i < b" "unat (of_nat i :: u32) = i" using assms(1, 5) by (auto intro!: unat_of_nat_u32)
    then have "(of_nat i :: u32) \<noteq> of_nat b" using ub by auto
    then show "m1 (tmp + of_nat i) = bs ! i" using i assms(4) [OF i(1)] by (simp add: m1_def cp add.assoc)
  qed (use assms(5, 6) in \<open>auto simp: m1_def\<close>)
  show "m1 (logbuf + of_nat j) = mm (logbuf + of_nat j)" if "j < 0x100000"
  proof -
    have "512 \<le> unat (logbuf + of_nat j - tmp)" using apart_offset [OF assms(2) that] by simp
    moreover from this have "logbuf + of_nat j \<noteq> tmp + of_nat b" using ub assms(1) by auto
    ultimately show ?thesis using assms(1) by (simp add: m1_def cp)
  qed
qed

lemma log_chunks_spec:
  assumes "dump_ready e dev blk (lfs s)" "64 \<le> log_pos s" "log_pos s + length bs \<le> 512 * 2047" "pos + length bs \<le> 0x100000"
    and "\<And>i. i < length bs \<Longrightarrow> fmem (lfs s) (logbuf + of_nat (pos + i)) = bs ! i" "0 \<notin> set bs"
  shows "\<exists>s'. log_chunks e pos (length bs) s = Inr s' \<and> log_pos s' = log_pos s + length bs \<and> disk_ok dev (lfs s') \<and> fs_rest (lfs s') = fs_rest (lfs s) \<and>
    (\<forall>i < length bs. dev_byte dev (lfs s') (512 * blk + log_pos s + i) = bs ! i) \<and>
    (\<forall>x. x < 512 * blk \<or> 512 * blk + 64 \<le> x \<and> x < 512 * blk + log_pos s \<longrightarrow> dev_byte dev (lfs s') x = dev_byte dev (lfs s) x)"
  using assms
proof (induction bs arbitrary: pos s rule: length_induct)
  case (1 bs)
  show ?case
  proof (cases "bs = []")
    case True
    then show ?thesis using "1.prems"(1) by (subst log_chunks.simps) (auto simp: dump_ready_def log_ready_def)
  next
    case False
    define b where "b = min (length bs) 511"
    have b: "0 < b" "b \<le> length bs" "b < 512" using False by (auto simp: b_def)
    let ?h = "take b bs" and ?t = "drop b bs" and ?w = "\<lambda>mm. (memcpy mm (g_tmp e) (logbuf + of_nat pos) (of_nat b))(g_tmp e + of_nat b := 0)"
    let ?f = "upd_fmem ?w (lfs s)"
    note rdy = "1.prems"(1) [unfolded dump_ready_def]
    have d0: "disk_ok dev (lfs s)" using rdy by (simp add: log_ready_def)
    have u: "disk_ok dev ?f" "sector dev ?f = sector dev (lfs s)" "fs_rest ?f = fs_rest (lfs s)" using disk.upd_spec [OF d0] by auto
    have hb: "hdbuf (hds ?f) = hdbuf (hds (lfs s))" using u(3) by (simp add: fs_rest_def)
    have lh: "length ?h = b" "0 \<notin> set ?h" using b "1.prems"(6) by (auto dest: in_set_takeD)
    have src: "pos + b \<le> 0x100000" "\<And>i. i < b \<Longrightarrow> fmem (lfs s) (logbuf + of_nat (pos + i)) = ?h ! i" using "1.prems"(4, 5) b(2) by auto
    have tl: "apart (g_tmp e) 512 logbuf 0x100000" using rdy by blast
    have lb: "?w (fmem (lfs s)) (logbuf + of_nat j) = fmem (lfs s) (logbuf + of_nat j)" if "j < 0x100000" for j
      by (rule tmp_piece(2) [OF b(3) tl src lh]) (use that in auto)
    have "is_cstr (fmem ?f) (g_tmp e) ?h" unfolding fmem_upd_fmem by (rule tmp_piece(1) [OF b(3) tl src lh])
    moreover have lr: "log_ready (genv e) dev blk ?f" using log_ready_rest [OF _ u(3, 1)] rdy by blast
    moreover have "apart (g_tmp e) (length ?h) logdiskbuf 0x100000" "apart (g_tmp e) (length ?h) (hdbuf (hds ?f)) 512"
      using rdy b by (auto simp: apart_def hb)
    ultimately obtain s1 where s1: "disklog (genv e) (g_tmp e) (s\<lparr>lfs := ?f\<rparr>) = Inr (int (log_pos s + length ?h), s1)" "log_pos s1 = log_pos s + length ?h"
      "\<forall>i < length ?h. dev_byte dev (lfs s1) (512 * blk + log_pos s + i) = ?h ! i"
      "\<forall>x. x < 512 * blk \<or> 512 * blk + 64 \<le> x \<and> x < 512 * blk + log_pos s \<longrightarrow> dev_byte dev (lfs s1) x = dev_byte dev ?f x"
      "disk_ok dev (lfs s1)" "fs_rest (lfs s1) = fs_rest ?f" "\<forall>x. log_leaves (genv e) ?f x \<longrightarrow> fmem (lfs s1) x = fmem ?f x"
      using disklog_spec [of "genv e" dev blk "s\<lparr>lfs := ?f\<rparr>" ?h "g_tmp e"] "1.prems"(2, 3) b(2) by auto
    have step: "log_chunks e pos (length bs) s = log_chunks e (pos + b) (length ?t) s1"
      using False s1(1) by (subst log_chunks.simps) (simp add: Let_def b_def)
    have mem: "fmem (lfs s1) (logbuf + of_nat (pos + b + i)) = ?t ! i" if "i < length ?t" for i
    proof -
      let ?j = "pos + b + i"
      have j: "?j < 0x100000" using that "1.prems"(4) b(2) by simp
      have lb2: "apart logbuf 0x100000 logdiskbuf 0x100000" by (simp add: apart_def unat_u32_uminus)
      have off: "k \<le> unat (logbuf + of_nat ?j - a)" if "apart logbuf 0x100000 a k" for a k by (rule apart_offset [OF apart_sym [OF that] j])
      have "512 \<le> unat (logbuf + of_nat ?j - logdiskbuf)" by (rule order_trans [OF _ off [OF lb2]]) simp
      moreover have "apart logbuf 0x100000 (hdbuf (hds (lfs s))) 512" "apart logbuf 0x100000 (log_t (genv e)) 24" "apart logbuf 0x100000 (log_sys_t (genv e)) 24"
        using rdy by auto
      ultimately have "log_leaves (genv e) ?f (logbuf + of_nat ?j)" unfolding log_leaves_def hb by (blast intro: off)
      then have "fmem (lfs s1) (logbuf + of_nat ?j) = fmem (lfs s) (logbuf + of_nat ?j)" using s1(7) lb [OF j] by (simp only: fmem_upd_fmem)
      then show ?thesis using "1.prems"(5) [of "b + i"] that b(2) by (simp add: add.assoc)
    qed
    have rdy1: "dump_ready e dev blk (lfs s1)" using dump_ready_rest [OF "1.prems"(1) _ s1(5)] s1(6) u(3) by simp
    have "length ?t < length bs" using b by simp
    from "1.IH" [rule_format, OF this rdy1, of "pos + b"] obtain s' where s': "log_chunks e (pos + b) (length ?t) s1 = Inr s'"
      "log_pos s' = log_pos s1 + length ?t" "disk_ok dev (lfs s')" "fs_rest (lfs s') = fs_rest (lfs s1)"
      "\<forall>i < length ?t. dev_byte dev (lfs s') (512 * blk + log_pos s1 + i) = ?t ! i"
      "\<forall>x. x < 512 * blk \<or> 512 * blk + 64 \<le> x \<and> x < 512 * blk + log_pos s1 \<longrightarrow> dev_byte dev (lfs s') x = dev_byte dev (lfs s1) x"
      using mem s1(2) lh(1) "1.prems"(2-4, 6) b(2) by (auto dest: in_set_dropD)
    have "dev_byte dev (lfs s') (512 * blk + log_pos s + i) = bs ! i" if "i < length bs" for i
    proof (cases "i < b")
      case True
      then have "dev_byte dev (lfs s') (512 * blk + log_pos s + i) = dev_byte dev (lfs s1) (512 * blk + log_pos s + i)"
        using s'(6) s1(2) lh(1) "1.prems"(2) by simp
      then show ?thesis using s1(3) True lh(1) by simp
    next
      case False
      then have e: "512 * blk + log_pos s + i = 512 * blk + log_pos s1 + (i - b)" "bs ! i = ?t ! (i - b)" "i - b < length ?t"
        using s1(2) lh(1) that by simp_all
      then show ?thesis using s'(5) by metis
    qed
    moreover have "dev_byte dev (lfs s') x = dev_byte dev (lfs s) x" if "x < 512 * blk \<or> 512 * blk + 64 \<le> x \<and> x < 512 * blk + log_pos s" for x
      using s'(6) s1(2, 4) that dev_byte_cong [OF u(2)] by auto
    ultimately show ?thesis using step s' s1(2, 6) lh(1) b(2) u(3) by (intro exI [of _ s']) simp
  qed
qed

section \<open>The whole dump\<close>

definition graph_text :: "u8 \<Rightarrow> int \<Rightarrow> u8 list \<Rightarrow> fs \<Rightarrow> u8 list outcome" where
  "graph_text fe idx ttl s =
     obind (cluster_procs (proc_table (fkern s))) (\<lambda>(t, l).
     obind (deref (inode_table s) (root_inode s)) (\<lambda>r.
     let root = inode_table s ! r; dev = inode_dev root
     in obind (get_super_block dev s) (\<lambda>sb.
        obind (disk_text fe dev sb root (sect_bytes dev s)) (\<lambda>u.
        Inr (graph_head idx @ (t @ cluster_fds (file_desc_table s) @ cluster_inodes (inode_table s)) @ u @
             graph_arrows (l\<lparr>fim := snd (graph_fds 0 (file_desc_table s))\<rparr>) (inode_table s) @ graph_tail ttl)))))"

lemma concat_nz: "(\<And>x. x \<in> set xs \<Longrightarrow> 0 \<notin> set (f x)) \<Longrightarrow> 0 \<notin> set (concat (map f xs))"
  by auto

lemma texts_nz:
  "0 \<notin> set node_end" "0 \<notin> set (graph_head idx)" "0 \<notin> set (cluster_end lb)" "0 \<notin> set (filled c)" "0 \<notin> set (graph_tail ttl)"
  "0 \<notin> set (fst (graph_filps i k n ds))" "0 \<notin> set (fst (graph_fds i fs))" "0 \<notin> set (graph_inodes i ps)" "0 \<notin> set (inode_arrows i ps)"
proof -
  show ne: "0 \<notin> set node_end" "0 \<notin> set (graph_head idx)" "0 \<notin> set (cluster_end lb)" "0 \<notin> set (filled c)" "0 \<notin> set (graph_tail ttl)"
    by (simp_all add: node_end_def graph_head_def cluster_end_def filled_def graph_tail_def)
  show "0 \<notin> set (fst (graph_filps i k n ds))" by (induction i k n ds rule: graph_filps.induct) (simp_all add: Let_def split_beta)
  show "0 \<notin> set (fst (graph_fds i fs))" by (induction i fs rule: graph_fds.induct) (auto simp: Let_def ne(1) split_beta split: option.split)
  show "0 \<notin> set (graph_inodes i ps)" by (induction i ps rule: graph_inodes.induct) (simp_all add: ne(1))
  show "0 \<notin> set (inode_arrows i ps)" by (induction i ps rule: inode_arrows.induct) simp_all
qed

lemma graph_arrows_nz: "0 \<notin> set (graph_arrows l ps)"
  unfolding graph_arrows_def set_append by (auto simp: msg_arrow_def texts_nz)

lemma cluster_procs_nz: "cluster_procs ps = Inr (t, l) \<Longrightarrow> 0 \<notin> set t"
proof -
  have p: "graph_proc i p k = Inr (u, k') \<Longrightarrow> 0 \<notin> set u" for i p k u k'
    by (auto simp: graph_proc_def Let_def texts_nz elim!: obind_InrE split: if_split_asm)
  have "graph_procs i ps k = Inr (u, k') \<Longrightarrow> 0 \<notin> set u" for i k u k'
    by (induction i ps k arbitrary: u k' rule: graph_procs.induct) (auto elim!: obind_InrE dest!: p split: if_split_asm)
  then show "cluster_procs ps = Inr (t, l) \<Longrightarrow> ?thesis" by (auto simp: cluster_procs_def texts_nz elim!: obind_InrE)
qed

lemma scan_text_nz:
  assumes "\<And>i bs st u st'. g i bs st = Inr (u, st') \<Longrightarrow> 0 \<notin> set u"
  shows "scan_text g bs n i st = Inr (t, st') \<Longrightarrow> 0 \<notin> set t"
  by (induction n arbitrary: i st t) (auto elim!: obind_InrE dest!: assms)

lemma sect_texts_nz:
  "smap_sect i buf st = Inr (u, st') \<Longrightarrow> 0 \<notin> set u" "imap_sect i buf x = Inr (v, y) \<Longrightarrow> 0 \<notin> set v"
  "array_sect sb i buf x = Inr (w, y) \<Longrightarrow> 0 \<notin> set w" "dir_sect fe i buf x = Inr (z, y) \<Longrightarrow> 0 \<notin> set z"
proof -
  have "0 \<notin> set (fst (smap_bits n bs st))" for n bs st
    by (induction n bs st rule: smap_bits.induct) (auto simp: Let_def smap_node_def texts_nz split_beta)
  then show "smap_sect i buf st = Inr (u, st') \<Longrightarrow> 0 \<notin> set u" by (metis smap_sect_def sum.inject(2) fst_conv)
  have "0 \<notin> set (imap_bits n bs)" for n bs by (induction n bs rule: imap_bits.induct) auto
  then show "imap_sect i buf x = Inr (v, y) \<Longrightarrow> 0 \<notin> set v" by (auto simp: imap_sect_def)
  have "array_node sb buf j = Inr t \<Longrightarrow> 0 \<notin> set t" for j t by (auto simp: array_node_def Let_def texts_nz split: if_split_asm)
  then have "array_nodes sb buf js = Inr t \<Longrightarrow> 0 \<notin> set t" for js t by (induction js arbitrary: t) (auto elim!: obind_InrE)
  then show "array_sect sb i buf x = Inr (w, y) \<Longrightarrow> 0 \<notin> set w" by (auto simp: array_sect_def elim!: obind_InrE)
  have "dir_node fe buf j = Inr t \<Longrightarrow> 0 \<notin> set t" for j t by (auto simp: dir_node_def Let_def texts_nz elim!: obind_InrE split: if_split_asm)
  then have "dir_nodes fe buf js = Inr t \<Longrightarrow> 0 \<notin> set t" for js t by (induction js arbitrary: t) (auto elim!: obind_InrE)
  then show "dir_sect fe i buf x = Inr (z, y) \<Longrightarrow> 0 \<notin> set z" by (auto simp: dir_sect_def elim!: obind_InrE)
qed

lemma scan_texts_nz:
  "scan_text smap_sect bs n i st = Inr (t, st') \<Longrightarrow> 0 \<notin> set t" "scan_text imap_sect bs n i x = Inr (t, y) \<Longrightarrow> 0 \<notin> set t"
  "scan_text (array_sect sb) bs n i x = Inr (t, y) \<Longrightarrow> 0 \<notin> set t" "scan_text (dir_sect fe) bs n i x = Inr (t, y) \<Longrightarrow> 0 \<notin> set t"
  by (erule scan_text_nz [rotated], erule sect_texts_nz)+

lemma disk_text_nz: "disk_text fe dev sb root sect = Inr u \<Longrightarrow> 0 \<notin> set u"
  unfolding disk_text_def Let_def
  by (auto simp: texts_nz simp del: scan_text.simps elim!: obind_InrE dest!: scan_texts_nz)

lemma graph_text_nz: "graph_text fe idx ttl s = Inr t \<Longrightarrow> 0 \<notin> set t"
  unfolding graph_text_def Let_def
  by (auto simp: texts_nz graph_arrows_nz cluster_fds_def cluster_inodes_def elim!: obind_InrE dest!: cluster_procs_nz disk_text_nz)

text \<open>The state while the processes are at rest.\<close>

definition frozen :: "int \<Rightarrow> fs \<Rightarrow> fs" where
  "frozen c s = upd_kern (\<lambda>k. k\<lparr>proc_table := snd (freeze c 0 (proc_table k))\<rparr>) s"

lemma frozen_simps [simp]:
  "inode_table (frozen c s) = inode_table s" "root_inode (frozen c s) = root_inode s" "file_desc_table (frozen c s) = file_desc_table s"
  "super_block_table (frozen c s) = super_block_table s" "proc_table (fkern (frozen c s)) = snd (freeze c 0 (proc_table (fkern s)))"
  "fmem (frozen c s) = fmem s" "hdbuf (hds (frozen c s)) = hdbuf (hds s)" "drive (hds (frozen c s)) = drive (hds s)"
  "part_of_minor m (hds (frozen c s)) = part_of_minor m (hds s)" "get_super_block dev (frozen c s) = get_super_block dev s"
  by (simp_all add: frozen_def upd_kern_def part_of_minor_def get_super_block_def cong: option.case_cong)

lemma frozen_va2la [simp]: "proc_va2la (fkern (frozen c s)) pid a = proc_va2la (fkern s) pid a"
  by (rule freeze_va2la [of _ c]) (simp_all add: frozen_def upd_kern_def)

lemma frozen_sector [simp]: "sector dev (frozen c s) = sector dev s"
  by (simp add: fun_eq_iff sector_def dev_start_def)

lemma frozen_ready: "dump_ready e dev blk (frozen c s) = dump_ready e dev blk s"
  by (simp add: dump_ready_def log_ready_def disk_ok_def buffer_ok_def)

lemma frozen_thawed:
  assumes "fs_rest f = fs_rest (frozen c s)"
  shows "thaw c 0 (fst (freeze c 0 (proc_table (fkern s)))) (proc_table (fkern f)) = Inr (proc_table (fkern s))"
    and "fs_rest (upd_kern (\<lambda>k. k\<lparr>proc_table := proc_table (fkern s)\<rparr>) f) = fs_rest s"
proof -
  have k: "(fkern f)\<lparr>kmem := (\<lambda>_. 0)\<rparr> = (fkern (frozen c s))\<lparr>kmem := (\<lambda>_. 0)\<rparr>" using assms by (simp add: fs_rest_def)
  then have "proc_table (fkern f) = proc_table (fkern (frozen c s))" by (metis (no_types, lifting) kernel.select_convs(2) kernel.surjective kernel.update_convs(8))
  then show "thaw c 0 (fst (freeze c 0 (proc_table (fkern s)))) (proc_table (fkern f)) = Inr (proc_table (fkern s))" by (simp add: thaw_freeze)
  have "(fkern f)\<lparr>proc_table := x, kmem := (\<lambda>_. 0)\<rparr> = ((fkern f)\<lparr>kmem := (\<lambda>_. 0)\<rparr>)\<lparr>proc_table := x\<rparr>" for x by simp
  then show "fs_rest (upd_kern (\<lambda>k. k\<lparr>proc_table := proc_table (fkern s)\<rparr>) f) = fs_rest s"
    using assms unfolding fs_rest_def upd_kern_def by (simp add: k) (simp add: frozen_def upd_kern_def)
qed

text \<open>The tables.\<close>

lemma graph_tables_text:
  assumes "dump_ready e dev blk (gfs d0)" "collected e dev d0 t d" "cluster_procs (proc_table (fkern (gfs d0))) = Inr (u, l)"
    and "length t + length (u @ cluster_fds (file_desc_table (gfs d0)) @ cluster_inodes (inode_table (gfs d0))) < 0x100000"
  shows "\<exists>d'. graph_tables d = Inr (l\<lparr>fim := snd (graph_fds 0 (file_desc_table (gfs d0)))\<rparr>, d') \<and>
    collected e dev d0 (t @ u @ cluster_fds (file_desc_table (gfs d0)) @ cluster_inodes (inode_table (gfs d0))) d'"
proof -
  have rest: "fs_rest (gfs d) = fs_rest (gfs d0)" using assms(2) by (simp add: collected_def)
  then have "(fkern (gfs d))\<lparr>kmem := (\<lambda>_. 0)\<rparr> = (fkern (gfs d0))\<lparr>kmem := (\<lambda>_. 0)\<rparr>" by (simp add: fs_rest_def)
  then have "proc_table (fkern (gfs d)) = proc_table (fkern (gfs d0))"
    by (metis (no_types, lifting) kernel.select_convs(2) kernel.surjective kernel.update_convs(8))
  then show ?thesis using collected_emit [OF assms(1, 2, 4)] assms(3) rest by (simp add: graph_tables_def fs_rest_def)
qed

lemma graph_flush_text:
  assumes "dump_ready e dev blk (gfs d0)" "collected e dev d0 t d" "length t < 0x100000" "0 \<notin> set t" "64 \<le> log_pos (gdl d0)" "log_pos (gdl d0) + length t \<le> 512 * 2047"
  shows "\<exists>d'. graph_flush e d = Inr d' \<and> log_pos (gdl d') = log_pos (gdl d0) + length t \<and> graph_idx d' = graph_idx d0 \<and> fs_rest (gfs d') = fs_rest (gfs d0) \<and>
    (\<forall>i < length t. dev_byte dev (gfs d') (512 * blk + log_pos (gdl d0) + i) = t ! i) \<and>
    (\<forall>x. x < 512 * blk \<or> 512 * blk + 64 \<le> x \<and> x < 512 * blk + log_pos (gdl d0) \<longrightarrow> dev_byte dev (gfs d') x = dev_byte dev (gfs d0) x)"
proof -
  note c = assms(2) [unfolded collected_def]
  let ?w = "\<lambda>mm. mm(logbuf + of_nat (length t) := (0 :: u8))"
  let ?s = "(gdl d)\<lparr>lfs := upd_fmem ?w (gfs d)\<rparr>"
  have u: "disk_ok dev (lfs ?s)" "sector dev (lfs ?s) = sector dev (gfs d0)" "fs_rest (lfs ?s) = fs_rest (gfs d0)"
    using disk.upd_spec [of dev "gfs d" ?w] c by auto
  have mem: "fmem (lfs ?s) (logbuf + of_nat (0 + i)) = t ! i" if "i < length t" for i
  proof -
    have "unat (of_nat i :: u32) = i" "unat (of_nat (length t) :: u32) = length t" using that assms(3) by (auto intro!: unat_of_nat_u32)
    then have "(of_nat i :: u32) \<noteq> of_nat (length t)" using that by auto
    then show ?thesis using c that by simp
  qed
  obtain s' where s': "log_chunks e 0 (length t) ?s = Inr s'" "log_pos s' = log_pos ?s + length t" "fs_rest (lfs s') = fs_rest (lfs ?s)"
    "\<forall>i < length t. dev_byte dev (lfs s') (512 * blk + log_pos ?s + i) = t ! i"
    "\<forall>x. x < 512 * blk \<or> 512 * blk + 64 \<le> x \<and> x < 512 * blk + log_pos ?s \<longrightarrow> dev_byte dev (lfs s') x = dev_byte dev (lfs ?s) x"
    using log_chunks_spec [OF dump_ready_rest [OF assms(1) u(3, 1)], of t 0] mem assms(3-6) c by auto
  have "graph_flush e d = Inr (d\<lparr>gdl := s'\<rparr>)" using s'(1) assms(3) c by (simp add: graph_flush_def)
  then show ?thesis using s' u(3) c dev_byte_cong [OF u(2)] by simp
qed

lemma title_kept:
  assumes "collected e dev d0 t d" "is_cstr (fmem (gfs d0)) (g_title e) bs" "length bs < 1024"
  shows "read_cstr (fmem (gfs d)) (g_title e) = Some bs"
  using assms by (intro read_cstr_is is_cstr_cong [OF assms(2)]) (auto simp: collected_def)


text \<open>A small system: process 5 computes and has a file open, the log occupies the last 2048 of 3000 sectors.\<close>

definition sample_procs :: "proc list" where
  "sample_procs = zero_proc # replicate 4 (zero_proc\<lparr>proc_state := FREE_SLOT\<rparr>) @
     zero_proc\<lparr>file_desc := Some 0 # replicate 63 None, ticks := 3, priority := 5\<rparr> # replicate 31 (zero_proc\<lparr>proc_state := FREE_SLOT\<rparr>)"

definition sample_dump_fs :: fs where
  "sample_dump_fs = upd_kern (\<lambda>k. k\<lparr>proc_table := sample_procs\<rparr>) (upd_fmem (\<lambda>m. m(0x50000 := 120, 0x50001 := 0))
     (sample_fs\<lparr>super_block_table := [sample_sb\<lparr>nr_sects := 3000, nr_inode_map_sects := 0, nr_sect_map_sects := 0\<rparr>],
       inode_table := sample_root\<lparr>inode_file_size := 0\<rparr> # sample_file # replicate 62 free_inode\<rparr>))"

definition sample_graph_env :: graph_env where
  "sample_graph_env = \<lparr>genv = sample_env, g_title = 0x53000, g_tmp = 0x54000, g_fname_end = 0\<rparr>"

definition sample_dump :: dump where
  "sample_dump = \<lparr>gdl = \<lparr>lfs = sample_dump_fs, log_pos = 64\<rparr>, logbufpos = 0, graph_idx = 0\<rparr>"

lemmas text_eval = sprintf_text_def c_text_def fmt_out.simps is_digit_def width_of_def pad_inner_def Let_def i2a.simps
  signed_divide_int_def signed_modulo_int_def hex_char_def

lemma free_texts:
  "graph_procs i (replicate n (p\<lparr>proc_state := FREE_SLOT\<rparr>) @ ps) l = graph_procs (i + int n) ps l"
  "graph_filps i k m (replicate n None) = ([], [])" "graph_fds i (replicate n free_fd) = ([], [])"
  "graph_inodes i (replicate n free_inode) = []" "inode_arrows i (replicate n free_inode) = []"
proof -
  show "graph_procs i (replicate n (p\<lparr>proc_state := FREE_SLOT\<rparr>) @ ps) l = graph_procs (i + int n) ps l"
    by (induction n arbitrary: i) (simp_all add: add.assoc)
  show "graph_filps i k m (replicate n None) = ([], [])" by (induction n arbitrary: k) simp_all
  show "graph_fds i (replicate n free_fd) = ([], [])" by (induction n arbitrary: i) (simp_all add: free_fd_def)
  show "graph_inodes i (replicate n free_inode) = []" "inode_arrows i (replicate n free_inode) = []"
    by (induction n arbitrary: i) (simp_all add: free_inode_def)
qed

lemma sample_tables:
  "proc_table (fkern sample_dump_fs) = sample_procs" "root_inode sample_dump_fs = Some 0"
  "inode_table sample_dump_fs = sample_root\<lparr>inode_file_size := 0\<rparr> # sample_file # replicate 62 free_inode"
  "file_desc_table sample_dump_fs = \<lparr>fd_mode = 2, fd_pos = 0, fd_cnt = 1, fd_inode = Some 1\<rparr> # replicate 63 free_fd"
  "get_super_block ROOT_DEV_NR sample_dump_fs = Inr (sample_sb\<lparr>nr_sects := 3000, nr_inode_map_sects := 0, nr_sect_map_sects := 0\<rparr>)"
  by (simp_all add: sample_dump_fs_def upd_kern_def upd_fmem_def upd_mem_def sample_fs_def get_super_block_def sample_sb_def)

lemma sample_procs_text: "\<exists>t. cluster_procs sample_procs = Inr (t, \<lparr>ppm = [(0, 0), (5, 0)], pfm = [(5, 3, 0)], fim = [], msd = []\<rparr>) \<and> length t \<le> 2000"
proof -
  note fr = free_texts(1) [of _ _ _ "[]", simplified]
  have z: "proc_state zero_proc = 0" "name zero_proc = []" "p_parent zero_proc = 0" "file_desc zero_proc = replicate 64 None" "eip_reg (regs zero_proc) = 0"
    by (simp_all add: zero_proc_def zero_stackframe_def)
  show ?thesis
    by (simp add: cluster_procs_def sample_procs_def free_texts fr graph_proc_def proc_links_def state_name_def proc_states_def z)
       (simp add: text_eval node_end_def cluster_end_def)
qed

lemma sample_other_texts:
  "length (graph_head 0) \<le> 300"
  "length (cluster_fds (file_desc_table sample_dump_fs)) \<le> 500" "length (cluster_inodes (inode_table sample_dump_fs)) \<le> 1000"
  "length (graph_arrows \<lparr>ppm = [(0, 0), (5, 0)], pfm = [(5, 3, 0)], fim = snd (graph_fds 0 (file_desc_table sample_dump_fs)), msd = []\<rparr> (inode_table sample_dump_fs)) \<le> 1000"
  "length (graph_tail (sprintf_text ''x'' [])) \<le> 100"
  by (simp_all add: graph_head_def graph_tail_def cluster_fds_def cluster_inodes_def graph_arrows_def sample_tables free_texts sample_root_def sample_file_def ROOT_DEV_NR_eq
      text_eval node_end_def cluster_end_def)

lemma sample_disk_text:
  "\<exists>u. disk_text 0 ROOT_DEV_NR (sample_sb\<lparr>nr_sects := 3000, nr_inode_map_sects := 0, nr_sect_map_sects := 0\<rparr>) (sample_root\<lparr>inode_file_size := 0\<rparr>)
     (sect_bytes ROOT_DEV_NR sample_dump_fs) = Inr u \<and> length u \<le> 2000"
proof -
  have sec: "sector ROOT_DEV_NR sample_dump_fs 2 x = (if unat x < 512 then sample_media 2 x else 0)" for x
    using sample_sector [of 2 x] by (auto simp: sector_def dev_start_def sample_dump_fs_def upd_kern_def upd_fmem_def upd_mem_def part_of_minor_def)
  have "buf_mem (sect_bytes ROOT_DEV_NR sample_dump_fs 2) x = 0" if "x \<noteq> 0" for x
  proof (cases "unat x < 512")
    case True
    moreover have "(1024 + n) div 512 = 2 \<and> (1024 + n) mod 512 = n" if "n < 512" for n :: nat
      using that div_mult_self1 [of 512 n 2] mod_mult_self1 [of n 2 512] by (simp add: add.commute)
    ultimately show ?thesis using that by (simp add: buf_mem_def sect_bytes_def dev_byte_def sec sample_media_def)
  qed (simp add: buf_mem_def sect_bytes_def)
  then have "rd32 (buf_mem (sect_bytes ROOT_DEV_NR sample_dump_fs 2)) (of_nat (32 * i + 8)) = 0" if "i < 11" for i
  proof -
    have "unat (of_nat (32 * i + 8) + of_nat j :: u32) = 32 * i + 8 + j" if "j < 4" for j
      using \<open>i < 11\<close> that unat_of_nat_u32 [of "32 * i + 8 + j"] by simp
    then have "of_nat (32 * i + 8) + of_nat j \<noteq> (0 :: u32)" if "j < 4" for j using that by (metis add_eq_0_iff_both_eq_0 unat_0 zero_neq_numeral)
    from this [of 0] this [of 1] this [of 2] this [of 3] show ?thesis using \<open>\<And>x. x \<noteq> 0 \<Longrightarrow> _\<close> by (simp add: rd32_def)
  qed
  then have "array_node sb (sect_bytes ROOT_DEV_NR sample_dump_fs 2) i = Inr []" if "i \<in> {0..<11}" for i sb using that by (simp add: array_node_def Let_def)
  then have "array_nodes sb (sect_bytes ROOT_DEV_NR sample_dump_fs 2) js = Inr []" if "set js \<subseteq> {0..<11}" for js sb using that by (induction js) auto
  then have "array_sect sb 0 (sect_bytes ROOT_DEV_NR sample_dump_fs 2) () = Inr ([], ())" for sb by (simp add: array_sect_def)
  then show ?thesis by (simp add: disk_text_def sample_root_def numeral_2_eq_2 [symmetric]) (simp add: filled_def text_eval node_end_def cluster_end_def)
qed

lemma sample_graph_text: "\<exists>t. graph_text 0 0 (sprintf_text ''x'' []) sample_dump_fs = Inr t \<and> length t \<le> 8000"
proof -
  obtain t l where t: "cluster_procs sample_procs = Inr (t, l)" "l = \<lparr>ppm = [(0, 0), (5, 0)], pfm = [(5, 3, 0)], fim = [], msd = []\<rparr>" "length t \<le> 2000"
    using sample_procs_text by auto
  have root: "deref (inode_table sample_dump_fs) (root_inode sample_dump_fs) = Inr 0" "inode_table sample_dump_fs ! 0 = sample_root\<lparr>inode_file_size := 0\<rparr>"
    "inode_dev (sample_root\<lparr>inode_file_size := 0\<rparr>) = ROOT_DEV_NR" by (simp_all add: sample_tables deref_def sample_root_def)
  obtain u where u: "disk_text 0 ROOT_DEV_NR (sample_sb\<lparr>nr_sects := 3000, nr_inode_map_sects := 0, nr_sect_map_sects := 0\<rparr>) (sample_root\<lparr>inode_file_size := 0\<rparr>)
     (sect_bytes ROOT_DEV_NR sample_dump_fs) = Inr u" "length u \<le> 2000" using sample_disk_text by blast
  have "l\<lparr>fim := x\<rparr> = \<lparr>ppm = [(0, 0), (5, 0)], pfm = [(5, 3, 0)], fim = x, msd = []\<rparr>" for x by (simp add: t(2))
  then show ?thesis using t(1, 3) u sample_other_texts unfolding graph_text_def sample_tables(1) Let_def
    by (simp add: root sample_tables(5))
qed

lemma sample_dump_ready: "dump_ready sample_graph_env ROOT_DEV_NR 952 (gfs sample_dump)"
proof -
  have hb: "hdbuf (hds sample_dump_fs) = 0x40000" "drive (hds sample_dump_fs) = drive (hds sample_fs)" "part_of_minor m (hds sample_dump_fs) = part_of_minor m (hds sample_fs)" for m
    by (simp_all add: sample_dump_fs_def upd_kern_def upd_fmem_def upd_mem_def sample_fs_def sample_hd_def part_of_minor_def)
  have "ldts (proc_at (fkern sample_dump_fs) pid) = ldts zero_proc" for pid
    by (auto simp: sample_dump_fs_def upd_kern_def upd_fmem_def upd_mem_def sample_fs_def sample_machine_def proc_at_def sample_procs_def nth_append nth_Cons')
  then have va: "proc_va2la (fkern sample_dump_fs) pid a = Inr a" if "pid < 9" for pid a
    using that by (simp add: proc_va2la_def Let_def ldt_idx_to_base_addr_def zero_proc_def zero_gdt_desc_def)
  have d: "disk_ok ROOT_DEV_NR sample_dump_fs" using sample_disk_ok va by (simp add: disk_ok_def hb) (simp add: apart_def unat_u32_uminus)
  have sb: "sint (nr_sects (sample_sb\<lparr>nr_sects := 3000, nr_inode_map_sects := 0, nr_sect_map_sects := 0\<rparr>) - 2048) = int 952" by simp
  have "log_ready sample_env ROOT_DEV_NR 952 sample_dump_fs"
    unfolding log_ready_def using d sb va sample_tables(2, 3, 5) by (auto simp: sample_env_def buffer_ok_def hb apart_def sample_root_def unat_u32_uminus)
  then show ?thesis by (simp add: dump_ready_def sample_dump_def sample_graph_env_def hb sample_env_def apart_def unat_u32_uminus)
qed


section \<open>The runs of the sector map\<close>

text \<open>The runs of set bits that a clear bit ends, from left to right: each has its end and goes back to its start.\<close>

fun run_start :: "bool list \<Rightarrow> nat \<Rightarrow> nat" where
  "run_start bs 0 = 0"
| "run_start bs (Suc c) = (if bs ! c then run_start bs c else Suc c)"

definition runs :: "bool list \<Rightarrow> (nat \<times> nat) list" where
  "runs bs = map (\<lambda>c. (run_start bs c, c)) (filter (\<lambda>c. bs ! c \<and> \<not> bs ! Suc c) [0..<length bs - 1])"

definition is_run :: "bool list \<Rightarrow> nat \<Rightarrow> nat \<Rightarrow> bool" where
  "is_run bs a c \<longleftrightarrow> a \<le> c \<and> Suc c < length bs \<and> (\<forall>i \<in> {a..c}. bs ! i) \<and> (a = 0 \<or> \<not> bs ! (a - 1)) \<and> \<not> bs ! Suc c"

lemma run_start_spec: "run_start bs c \<le> c \<and> (\<forall>i. run_start bs c \<le> i \<and> i < c \<longrightarrow> bs ! i) \<and> (run_start bs c = 0 \<or> \<not> bs ! (run_start bs c - 1))"
  by (induction c) (auto simp: less_Suc_eq)

lemma run_start_cong: "(\<And>i. i < c \<Longrightarrow> bs ! i = bs' ! i) \<Longrightarrow> run_start bs c = run_start bs' c"
  by (induction c) auto

lemma runs_exact: "(a, c) \<in> set (runs bs) \<longleftrightarrow> is_run bs a c"
proof
  assume "(a, c) \<in> set (runs bs)"
  then show "is_run bs a c" using run_start_spec [of bs c] by (auto simp: runs_def is_run_def le_less)
next
  assume r: "is_run bs a c"
  have "a = run_start bs c"
  proof (rule ccontr)
    assume "a \<noteq> run_start bs c"
    then consider "a < run_start bs c" | "run_start bs c < a" by linarith
    then show False
    proof cases
      case 1
      then have "run_start bs c - 1 \<in> {a..c}" using run_start_spec [of bs c] by auto
      then have "bs ! (run_start bs c - 1)" using r unfolding is_run_def by blast
      then show ?thesis using run_start_spec [of bs c] 1 by simp
    next
      case 2
      then show ?thesis using run_start_spec [of bs c] r by (auto simp: is_run_def)
    qed
  qed
  then show "(a, c) \<in> set (runs bs)" using r by (auto simp: runs_def is_run_def)
qed

lemma runs_snoc:
  "runs (bs @ [b]) = runs bs @ (if bs \<noteq> [] \<and> last bs \<and> \<not> b then [(run_start bs (length bs - 1), length bs - 1)] else [])"
proof (cases bs rule: rev_cases)
  case (snoc xs x)
  have "run_start ((xs @ [x]) @ [b]) c = run_start (xs @ [x]) c" if "c \<le> length xs" for c using that by (intro run_start_cong) (simp add: nth_append)
  moreover have "filter (\<lambda>c. ((xs @ [x]) @ [b]) ! c \<and> \<not> ((xs @ [x]) @ [b]) ! Suc c) [0..<length xs] =
      filter (\<lambda>c. (xs @ [x]) ! c \<and> \<not> (xs @ [x]) ! Suc c) [0..<length xs]" by (rule filter_cong) (auto simp: nth_append)
  ultimately show ?thesis unfolding snoc runs_def by (auto simp: nth_append)
qed (simp add: runs_def)

lemma smap_bits_append:
  "smap_bits n (xs @ ys) st = (let (t, st1) = smap_bits n xs st; (u, st2) = smap_bits (n + length xs) ys st1 in (t @ u, st2))"
  by (induction n xs st rule: smap_bits.induct) (simp_all add: Let_def split_beta)

text \<open>The scan is in a run exactly when the last bit was set, and then it knows where the run started.\<close>

lemma smap_bits_runs:
  "fst (smap_bits 0 bs (False, 0)) = concat (map (\<lambda>(a, c). smap_node a c) (runs bs)) \<and>
   fst (snd (smap_bits 0 bs (False, 0))) = (bs \<noteq> [] \<and> last bs) \<and>
   (bs \<noteq> [] \<and> last bs \<longrightarrow> snd (snd (smap_bits 0 bs (False, 0))) = run_start bs (length bs - 1))"
proof (induction bs rule: rev_induct)
  case (snoc b bs)
  obtain t fl st where s: "smap_bits 0 bs (False, 0) = (t, fl, st)" by (cases "smap_bits 0 bs (False, 0)") auto
  have IH: "t = concat (map (\<lambda>(a, c). smap_node a c) (runs bs))" "fl = (bs \<noteq> [] \<and> last bs)" "fl \<Longrightarrow> st = run_start bs (length bs - 1)"
    using snoc s by auto
  have start: "run_start (bs @ [b]) (length bs) = (if fl then run_start bs (length bs - 1) else length bs)"
  proof (cases bs rule: rev_cases)
    case (snoc xs x)
    have "run_start ((xs @ [x]) @ [b]) (length xs) = run_start (xs @ [x]) (length xs)" by (intro run_start_cong) (simp add: nth_append)
    then show ?thesis using IH(2) snoc by (cases x) (simp_all add: nth_append)
  qed (simp add: IH(2))
  show ?case using IH start by (cases b; cases fl) (auto simp: smap_bits_append s runs_snoc)
qed (simp add: runs_def)

text \<open>Sector by sector is bit by bit.\<close>

lemma bits_of_length [simp]: "length (bits_of buf) = 8 * length buf"
  by (induction buf) (simp_all add: bits_of_def)

lemma scan_smap:
  assumes "\<And>i. length (sect i) = 512"
  shows "scan_text smap_sect sect n i st = Inr (smap_bits (4096 * i) (concat (map (\<lambda>j. bits_of (sect j)) [i..<i + n])) st)"
proof (induction n arbitrary: i st)
  case (Suc n)
  have "[i..<i + Suc n] = i # [i + 1..<(i + 1) + n]" by (simp add: upt_rec [of i])
  then show ?case using Suc [of "i + 1"] assms by (simp add: smap_sect_def smap_bits_append Let_def split_beta add.commute)
qed simp

definition map_bits :: "int \<Rightarrow> fs \<Rightarrow> nat \<Rightarrow> nat \<Rightarrow> bool list" where
  "map_bits dev s k n = concat (map (\<lambda>i. bits_of (sect_bytes dev s (k + i))) [0..<n])"

text \<open>The sector map in the graph. Whatever the \<open>n\<close> sectors of the map on the disk hold, the cluster of the sector map has exactly one node for
  every maximal run of set bits that ends before the last bit of the map, in the order of the map; a run up to its very end has none.\<close>

theorem sector_map_runs:
  "\<exists>st. scan_text smap_sect (\<lambda>i. sect_bytes dev s (k + i)) n 0 (False, 0) = Inr (concat (map (\<lambda>(a, c). smap_node a c) (runs (map_bits dev s k n))), st) \<and>
    (\<forall>a c. (a, c) \<in> set (runs (map_bits dev s k n)) \<longleftrightarrow> is_run (map_bits dev s k n) a c) \<and>
    sorted (map snd (runs (map_bits dev s k n))) \<and> distinct (runs (map_bits dev s k n))"
proof -
  have so: "sorted (map snd (runs x))" for x using sorted_filter [of "\<lambda>c. c" "[0..<length x - 1]"] by (simp add: runs_def comp_def)
  have di: "distinct (runs x)" for x by (simp add: runs_def distinct_map inj_on_def)
  have "length (sect_bytes dev s i) = 512" for i by (simp add: sect_bytes_def)
  then have "scan_text smap_sect (\<lambda>i. sect_bytes dev s (k + i)) n 0 (False, 0) = Inr (smap_bits 0 (map_bits dev s k n) (False, 0))"
    using scan_smap [of "\<lambda>i. sect_bytes dev s (k + i)" n 0 "(False, 0)"] by (simp add: map_bits_def)
  then show ?thesis using smap_bits_runs [of "map_bits dev s k n"] so di runs_exact by (metis prod.collapse)
qed

end
