(* ===== verification/Display.thy ===== *)
theory Display
  imports Desc Sprintf
begin

text \<open>
  Output before and beside the terminals: \<^verbatim>\<open>disp_str\<close> and \<^verbatim>\<open>disp_color_str\<close> of \<^verbatim>\<open>src/kernel/kliba.asm\<close>, \<^verbatim>\<open>disp_int\<close> of
  \<^verbatim>\<open>src/kernel/klib.c\<close> and the report of an exception, \<^verbatim>\<open>exception_handler\<close> of \<^verbatim>\<open>src/kernel/descriptor.c\<close>.

  The state is the video memory, indexed by the offset in the segment of \<^verbatim>\<open>gs\<close>, and the global \<^verbatim>\<open>disp_pos\<close>. A new line divides the
  position by 160 in eight bits; a quotient that does not fit raises a divide error, after which the kernel does not go on.
\<close>

unbundle bit_operations_syntax

record display =
  dvram :: mem
  disp_pos :: u32

section \<open>The code\<close>

definition next_row :: "u32 \<Rightarrow> u32 outcome" where
  "next_row pos =
     (let al = unat (ucast pos :: u16) div 160
      in if al > 255 then Inl PanicFail else Inr (of_nat ((al + 1) mod 256 * 160)))"

fun disp_color_str :: "u8 list \<Rightarrow> u8 \<Rightarrow> display \<Rightarrow> display outcome" where
  "disp_color_str [] color d = Inr d"
| "disp_color_str (al # info) color d =
     (if al = 0x0A then obind (next_row (disp_pos d)) (\<lambda>p. disp_color_str info color (d\<lparr>disp_pos := p\<rparr>))
      else disp_color_str info color
        (d\<lparr>dvram := (dvram d)(disp_pos d := al, disp_pos d + 1 := color), disp_pos := disp_pos d + 2\<rparr>))"

definition disp_str :: "u8 list \<Rightarrow> display \<Rightarrow> display outcome" where
  "disp_str info d = disp_color_str info 0x0F d"

definition disp_int :: "u32 \<Rightarrow> display \<Rightarrow> display outcome" where
  "disp_int input d = disp_str (itoa input) d"

text \<open>Entries 2 and 15 begin with a dash, three bytes in the encoding of the source.\<close>

definition err_description :: "u8 list list" where
  "err_description =
     [c_text ''#DE Divide Error'', c_text ''#DB RESERVED'', [0xE2, 0x80, 0x94] @ c_text ''  NMI Interrupt'', c_text ''#BP Breakpoint'',
      c_text ''#OF Overflow'', c_text ''#BR BOUND Range Exceeded'', c_text ''#UD Invalid Opcode (Undefined Opcode)'',
      c_text ''#NM Device Not Available (No Math Coprocessor)'', c_text ''#DF Double Fault'', c_text ''    Coprocessor Segment Overrun (reserved)'',
      c_text ''#TS Invalid TSS'', c_text ''#NP Segment Not Present'', c_text ''#SS Stack-Segment Fault'', c_text ''#GP General Protection'',
      c_text ''#PF Page Fault'', [0xE2, 0x80, 0x94] @ c_text ''  (Intel reserved. Do not use.)'', c_text ''#MF x87 FPU Floating-Point Error (Math Fault)'',
      c_text ''#AC Alignment Check'', c_text ''#MC Machine Check'', c_text ''#XF SIMD Floating-Point Exception'']"

fun disp_blanks :: "nat \<Rightarrow> display \<Rightarrow> display outcome" where
  "disp_blanks 0 d = Inr d"
| "disp_blanks (Suc n) d = obind (disp_str (c_text '' '') d) (disp_blanks n)"

definition exception_handler :: "int \<Rightarrow> u32 \<Rightarrow> u32 \<Rightarrow> u32 \<Rightarrow> u32 \<Rightarrow> display \<Rightarrow> display outcome" where
  "exception_handler vec_no err_code eip cs eflags d =
     (let text_color = 0x74
      in obind (disp_blanks (80 * 5) (d\<lparr>disp_pos := 0\<rparr>)) (\<lambda>d1.
         obind (disp_color_str (c_text ''Exception! --> '') text_color (d1\<lparr>disp_pos := 0\<rparr>)) (\<lambda>d2.
         if vec_no < 0 \<or> 20 \<le> vec_no then Inl OutOfBounds
         else obind (disp_color_str (err_description ! nat vec_no) text_color d2) (\<lambda>d3.
         obind (disp_color_str (c_text ''^n^n'') text_color d3) (\<lambda>d4.
         obind (disp_color_str (c_text ''EFLAGS:'') text_color d4) (\<lambda>d5.
         obind (disp_int eflags d5) (\<lambda>d6.
         obind (disp_color_str (c_text ''CS:'') text_color d6) (\<lambda>d7.
         obind (disp_int cs d7) (\<lambda>d8.
         obind (disp_color_str (c_text ''EIP:'') text_color d8) (\<lambda>d9.
         obind (disp_int eip d9) (\<lambda>d10.
         if err_code \<noteq> 0xFFFFFFFF then
           obind (disp_color_str (c_text ''Error code:'') text_color d10) (disp_int err_code)
         else Inr d10)))))))))))"

section \<open>What is on the screen\<close>

text \<open>Characters in a colour, as bytes of video memory.\<close>

definition cells :: "u8 \<Rightarrow> u8 list \<Rightarrow> u8 list" where
  "cells color bs = concat (map (\<lambda>b. [b, color]) bs)"

lemma cells_simps [simp]: "cells c [] = []" "cells c (b # bs) = b # c # cells c bs" "cells c (as @ bs) = cells c as @ cells c bs" "length (cells c bs) = 2 * length bs"
  by (induction bs) (simp_all add: cells_def)

lemma disp_line: "10 \<notin> set bs \<Longrightarrow> disp_color_str bs c d = Inr \<lparr>dvram = write_bytes (dvram d) (disp_pos d) (cells c bs), disp_pos = disp_pos d + 2 * of_nat (length bs)\<rparr>"
  by (induction bs arbitrary: d) (simp_all add: algebra_simps)

lemma disp_blanks_eq: "disp_blanks n d = Inr \<lparr>dvram = write_bytes (dvram d) (disp_pos d) (cells 0x0F (replicate n 32)), disp_pos = disp_pos d + 2 * of_nat n\<rparr>"
proof (induction n arbitrary: d)
  case (Suc n)
  have "c_text '' '' = [32]" by (simp add: c_text_def)
  then have "disp_str (c_text '' '') d = Inr \<lparr>dvram = write_bytes (dvram d) (disp_pos d) (cells 0x0F [32]), disp_pos = disp_pos d + 2\<rparr>"
    using disp_line [of "[32]" "0x0F" d] by (simp add: disp_str_def)
  then show ?case using Suc by (simp add: add.assoc distrib_left fun_upd_def)
qed simp

lemma itoa_plain: "10 \<notin> set (itoa v)" "length (itoa v) \<le> 10"
proof -
  have step: "(let c = (ucast (drop_bit i v AND 0xF) :: u8) + 48 in if 57 < c then c + 7 else c) \<noteq> 10" (is "?x i \<noteq> 10") for i
  proof
    assume eq: "?x i = 10"
    have "(ucast (drop_bit i v AND 0xF) :: u8) \<le> 15" using uint_nibble [of i v] by (simp add: word_le_def nibble_def)
    from nibble_char [OF this] have "0 \<le> digit_val (?x i)" by simp
    then show False unfolding eq by (simp add: digit_val_def)
  qed
  have "10 \<notin> set (itoa_loop v js fl)" for fl js
  proof (induction js arbitrary: fl)
    case (Cons i js)
    then show ?case using step [of i] by (auto simp: Let_def)
  qed simp
  then show "10 \<notin> set (itoa v)" by (simp add: itoa_def del: itoa_loop.simps)
  have "length (itoa_loop v js fl) \<le> length js" for fl js by (induction v js fl rule: itoa_loop.induct) (auto simp: Let_def)
  from this [of "[28, 24, 20, 16, 12, 8, 4, 0]" False] show "length (itoa v) \<le> 10" by (simp add: itoa_def)
qed

definition blanks :: "nat \<Rightarrow> u8 list" where
  "blanks n = cells 0x0F (replicate n 32)"

lemma blanks_add: "blanks (a + b) = blanks a @ blanks b"
  by (simp add: blanks_def replicate_add)

lemma blanks_simps [simp]: "length (blanks n) = 2 * n" "take (2 * k) (blanks n) = blanks (min k n)" "drop (2 * k) (blanks n) = blanks (n - k)"
proof -
  note ap = blanks_add
  show "length (blanks n) = 2 * n" by (simp add: blanks_def)
  show "take (2 * k) (blanks n) = blanks (min k n)" "drop (2 * k) (blanks n) = blanks (n - k)"
    using ap [of k "n - k"] by (cases "k \<le> n"; simp add: blanks_def min_def)+
qed

text \<open>The five rows of a report, each of 80 characters.\<close>

definition row :: "u8 list \<Rightarrow> u8 list" where
  "row cs = cs @ blanks (80 - length cs div 2)"

definition report_row :: "u32 \<Rightarrow> u32 \<Rightarrow> u32 \<Rightarrow> u32 \<Rightarrow> u8 list" where
  "report_row err_code eip cs eflags =
     cells 0x74 (c_text ''EFLAGS:'') @ cells 0x0F (itoa eflags) @ cells 0x74 (c_text ''CS:'') @ cells 0x0F (itoa cs) @ cells 0x74 (c_text ''EIP:'') @ cells 0x0F (itoa eip) @
     (if err_code \<noteq> 0xFFFFFFFF then cells 0x74 (c_text ''Error code:'') @ cells 0x0F (itoa err_code) else [])"

lemma description_plain: "v < 20 \<Longrightarrow> 10 \<notin> set (err_description ! v) \<and> length (err_description ! v) \<le> 60"
proof -
  have "list_all (\<lambda>bs. 10 \<notin> set bs \<and> length bs \<le> 60) err_description" by (simp add: err_description_def c_text_def)
  moreover have "length err_description = 20" by (simp add: err_description_def)
  ultimately show "v < 20 \<Longrightarrow> ?thesis" by (simp add: list_all_length)
qed

text \<open>A sequence of plain texts from the current position on.\<close>

fun disp_texts :: "(u8 \<times> u8 list) list \<Rightarrow> display \<Rightarrow> display outcome" where
  "disp_texts [] d = Inr d"
| "disp_texts ((c, bs) # ts) d = obind (disp_color_str bs c d) (disp_texts ts)"

lemma disp_texts_fun: "disp_texts [] = Inr" "disp_texts ((c, bs) # ts) = (\<lambda>d. obind (disp_color_str bs c d) (disp_texts ts))"
  by (simp_all add: fun_eq_iff)

lemma disp_texts_eq:
  "\<forall>(c, bs) \<in> set ts. 10 \<notin> set bs \<Longrightarrow> disp_texts ts d =
     Inr \<lparr>dvram = write_bytes (dvram d) (disp_pos d) (concat (map (\<lambda>(c, bs). cells c bs) ts)), disp_pos = disp_pos d + of_nat (length (concat (map (\<lambda>(c, bs). cells c bs) ts)))\<rparr>"
  by (induction ts arbitrary: d) (auto simp: disp_line write_bytes_append algebra_simps)

text \<open>C14: The report of an exception. For each of the twenty exceptions the handler returns, and the first five rows of the screen show exactly the
  description of the exception in the first row and the flags, the code segment, the address and, when there is one, the error code as hexadecimal numbers in
  the third; the rest of video memory is unchanged.\<close>

theorem exception_report:
  assumes "0 \<le> vec_no" and "vec_no < 20"
  shows "\<exists>d'. exception_handler vec_no err_code eip cs eflags d = Inr d' \<and>
    read_bytes (dvram d') 0 800 = row (cells 0x74 (c_text ''Exception! --> '' @ err_description ! nat vec_no)) @ row [] @ row (report_row err_code eip cs eflags) @ row [] @ row [] \<and>
    (\<forall>x. 800 \<le> unat x \<longrightarrow> dvram d' x = dvram d x)"
proof -
  let ?e = "c_text ''Exception! --> ''" and ?v = "err_description ! nat vec_no"
  have e: "10 \<notin> set ?e" "length ?e = 15" "10 \<notin> set (c_text ''EFLAGS:'')" "10 \<notin> set (c_text ''CS:'')" "10 \<notin> set (c_text ''EIP:'')" "10 \<notin> set (c_text ''Error code:'')"
    "length (c_text ''EFLAGS:'') = 7" "length (c_text ''CS:'') = 3" "length (c_text ''EIP:'') = 4" "length (c_text ''Error code:'') = 11" "c_text ''^n^n'' = [10, 10]"
    by (simp_all add: c_text_def)
  have v: "10 \<notin> set ?v" "length ?v \<le> 60" using description_plain [of "nat vec_no"] assms by auto
  let ?r0 = "cells 0x74 (?e @ ?v)" and ?r2 = "report_row err_code eip cs eflags"
  let ?m1 = "write_bytes (dvram d) 0 (blanks 400)"
  let ?m2 = "write_bytes ?m1 0 ?r0"
  have l: "length ?r0 \<le> 150" "even (length ?r0)" "length ?r2 \<le> 150" "even (length ?r2)"
    using e v itoa_plain(2) [of eflags] itoa_plain(2) [of cs] itoa_plain(2) [of eip] itoa_plain(2) [of err_code] by (auto simp: report_row_def)
  have b: "disp_blanks 400 (d\<lparr>disp_pos := 0\<rparr>) = Inr \<lparr>dvram = ?m1, disp_pos = 800\<rparr>" by (simp add: disp_blanks_eq blanks_def)
  have row0: "disp_texts [(0x74, ?e), (0x74, ?v)] \<lparr>dvram = ?m1, disp_pos = 0\<rparr> = Inr \<lparr>dvram = ?m2, disp_pos = of_nat (length ?r0)\<rparr>"
    using disp_texts_eq [of "[(0x74, ?e), (0x74, ?v)]" "\<lparr>dvram = ?m1, disp_pos = 0\<rparr>"] e v by simp
  have rows: "disp_color_str [10, 10] c \<lparr>dvram = ?m2, disp_pos = of_nat (length ?r0)\<rparr> = Inr \<lparr>dvram = ?m2, disp_pos = 320\<rparr>" for c
  proof -
    have "unat (ucast (of_nat k :: u32) :: u16) div 160 = 0" if "k \<le> 150" for k
      using that by (simp add: unsigned_of_nat unsigned_ucast_eq take_bit_nat_eq_self)
    from this [OF l(1)] show ?thesis by (simp add: next_row_def Let_def)
  qed
  let ?ts = "[(0x74, c_text ''EFLAGS:''), (0x0F, itoa eflags), (0x74, c_text ''CS:''), (0x0F, itoa cs), (0x74, c_text ''EIP:''), (0x0F, itoa eip)] @
    (if err_code \<noteq> 0xFFFFFFFF then [(0x74, c_text ''Error code:''), (0x0F, itoa err_code)] else [])"
  have row2: "disp_texts ?ts \<lparr>dvram = ?m2, disp_pos = 320\<rparr> = Inr \<lparr>dvram = write_bytes ?m2 320 ?r2, disp_pos = 320 + of_nat (length ?r2)\<rparr>"
    using disp_texts_eq [of ?ts "\<lparr>dvram = ?m2, disp_pos = 320\<rparr>"] e itoa_plain(1) by (auto simp: report_row_def)
  have "exception_handler vec_no err_code eip cs eflags d = obind (disp_blanks 400 (d\<lparr>disp_pos := 0\<rparr>)) (\<lambda>d1.
      obind (disp_texts [(0x74, ?e), (0x74, ?v)] (d1\<lparr>disp_pos := 0\<rparr>)) (\<lambda>d3. obind (disp_color_str [10, 10] 0x74 d3) (disp_texts ?ts)))"
    using assms by (simp add: exception_handler_def e(11) disp_int_def [abs_def] disp_str_def [abs_def] obind_assoc obind_right Let_def disp_texts_fun
      del: disp_color_str.simps disp_texts.simps)
  then have "exception_handler vec_no err_code eip cs eflags d = Inr \<lparr>dvram = write_bytes ?m2 320 ?r2, disp_pos = 320 + of_nat (length ?r2)\<rparr>"
    using row0 rows row2 b by (simp only: obind_simps) simp
  moreover have "read_bytes (write_bytes ?m2 320 ?r2) 0 800 = row ?r0 @ row [] @ row ?r2 @ row [] @ row []"
  proof -
    obtain j where j: "length ?r2 = 2 * j" using l(4) by (auto elim!: evenE)
    define k where "k = length (?e @ ?v)"
    have k: "length ?r0 = 2 * k" "length ?r2 = 2 * j" "k \<le> 75" "j \<le> 75" using l(1, 3) j by (simp_all add: k_def)
    have m2: "read_bytes ?m2 0 800 = ?r0 @ blanks (400 - k)"
      using read_written [of 0 ?r0 800 ?m1] read_written [of 0 "blanks 400" 800 "dvram d"] k by simp
    have t: "320 = 2 * k + 2 * (160 - k)" "320 + 2 * j = 2 * k + 2 * (160 - k + j)" using k by simp_all
    have "2 * (160 - k) + 2 * j = 2 * (160 - k + j)" "400 - k - (160 - k + j) = 240 - j" using k by simp_all
    then have dr: "drop (2 * (160 - k) + 2 * j) (blanks (400 - k)) = blanks (240 - j)" by (simp only: blanks_simps)
    have "read_bytes (write_bytes ?m2 320 ?r2) 0 800 = take 320 (?r0 @ blanks (400 - k)) @ ?r2 @ drop (320 + 2 * j) (?r0 @ blanks (400 - k))"
      using read_written [of 320 ?r2 800 ?m2] k unfolding m2 by simp
    also have "\<dots> = ?r0 @ blanks (160 - k) @ ?r2 @ blanks (240 - j)"
      using k dr unfolding t take_append drop_append by simp
    finally show ?thesis using k blanks_add [of "80 - k" 80] blanks_add [of "80 - j" 160] blanks_add [of 80 80] by (simp add: row_def)
  qed
  moreover have "write_bytes ?m2 320 ?r2 x = dvram d x" if "800 \<le> unat x" for x
  proof -
    have "unat (x - 320) = unat x - 320" using unat_minus_offset [of 320 x 0] that by simp
    then have "\<not> unat (x - 320) < length ?r2" using that l(3) by linarith
    then show ?thesis using that l by (simp add: write_bytes_eq)
  qed
  ultimately show ?thesis by auto
qed

theorem exception_report_witness:
  "\<exists>d'. exception_handler 13 0x18 0x30400 8 0x202 \<lparr>dvram = (\<lambda>_. 0), disp_pos = 6\<rparr> = Inr d' \<and> dvram d' 800 = 0"
  using exception_report [of 13 "0x18" "0x30400" 8 "0x202" "\<lparr>dvram = (\<lambda>_. 0), disp_pos = 6\<rparr>"] by auto

end
