(* ===== verification/Start.thy ===== *)
theory Start
  imports Boot Display
begin

text \<open>
  The first steps of the kernel: \<^verbatim>\<open>init_gdtr_idtr\<close> and \<^verbatim>\<open>init_descriptors\<close> of \<^verbatim>\<open>src/kernel/descriptor.c\<close>, called by \<^verbatim>\<open>main\<close> before
  anything else. The global descriptor table of the loader is copied, the registers are pointed to the kernel's own tables, and the
  tables are filled.

  The state adds to the kernel's the interrupt table, the task state segment, the boot screen, the variables \<^verbatim>\<open>gdtr\<close> and \<^verbatim>\<open>idtr\<close>, and the
  processor's registers they are loaded into. The addresses of the variables are parameters.
\<close>

unbundle bit_operations_syntax

record dtr =
  dt_limit :: u16
  dt_base :: u32

record start =
  sk :: kernel
  idt :: "gate_desc list"
  stss :: tss
  sdisp :: display
  gdtr :: dtr
  idtr :: dtr
  cpu_gdtr :: dtr
  cpu_idtr :: dtr
  cpu_tr :: u16

record start_addrs =
  gdt_addr :: u32
  idt_addr :: u32
  tss_addr :: u32
  ldts_addr :: "int \<Rightarrow> u32"
  entry_addr :: "string \<Rightarrow> u32"

abbreviation (input) SELECTOR_TSS where "SELECTOR_TSS \<equiv> 0x20 :: u16"

section \<open>The code\<close>

text \<open>A descriptor as its eight bytes.\<close>

definition desc_bytes :: "gdt_desc \<Rightarrow> u8 list" where
  "desc_bytes d = [ucast (limit_low d), ucast (drop_bit 8 (limit_low d)), ucast (base_low d), ucast (drop_bit 8 (base_low d)),
     base_mid d, attr1 d, limit_high_attr2 d, base_high d]"

definition bytes_desc :: "u8 list \<Rightarrow> gdt_desc" where
  "bytes_desc bs = \<lparr>limit_low = ucast (bs ! 0) OR push_bit 8 (ucast (bs ! 1)), base_low = ucast (bs ! 2) OR push_bit 8 (ucast (bs ! 3)),
     base_mid = bs ! 4, attr1 = bs ! 5, limit_high_attr2 = bs ! 6, base_high = bs ! 7\<rparr>"

text \<open>\<^verbatim>\<open>memcpy\<close> of \<open>n\<close> bytes at \<open>base\<close> over the table.\<close>

definition copy_gdt :: "mem \<Rightarrow> u32 \<Rightarrow> nat \<Rightarrow> gdt_desc list \<Rightarrow> gdt_desc list outcome" where
  "copy_gdt m base n tbl =
     (if n > 8 * length tbl then Inl OutOfBounds
      else Inr (map (\<lambda>j. bytes_desc (map (\<lambda>i. if 8 * j + i < n then m (base + of_nat (8 * j + i)) else desc_bytes (tbl ! j) ! i) [0..<8])) [0..<length tbl]))"

definition init_gdtr_idtr :: "start_addrs \<Rightarrow> start \<Rightarrow> start outcome" where
  "init_gdtr_idtr a s =
     obind (disp_str (replicate 16 10) (sdisp s)) (\<lambda>d.
     obind (copy_gdt (kmem (sk s)) (dt_base (gdtr s)) (unat (dt_limit (gdtr s)) + 1) (gdt (sk s))) (\<lambda>tbl.
       Inr (s\<lparr>sdisp := d, sk := (sk s)\<lparr>gdt := tbl\<rparr>,
         gdtr := \<lparr>dt_limit = of_nat (GDT_SIZE * 8 - 1), dt_base = gdt_addr a\<rparr>,
         idtr := \<lparr>dt_limit = of_nat (IDT_SIZE * 8 - 1), dt_base = idt_addr a\<rparr>\<rparr>)))"

definition load_gdtr_ldtr_tr :: "start \<Rightarrow> start" where
  "load_gdtr_ldtr_tr s = s\<lparr>cpu_gdtr := gdtr s, cpu_idtr := idtr s, cpu_tr := SELECTOR_TSS\<rparr>"

definition init_descriptors :: "start_addrs \<Rightarrow> start \<Rightarrow> start outcome" where
  "init_descriptors a s =
     obind (init_gdtr_idtr a s) (\<lambda>s1.
     let s2 = s1\<lparr>idt := init_idt_desc (entry_addr a) (idt s1)\<rparr>;
         (t, tbl) = init_tss_desc (tss_addr a) (gdt (sk s2))
     in obind (init_ldt_desc (ldts_addr a) ((sk s2)\<lparr>gdt := tbl\<rparr>)) (\<lambda>k.
        Inr (load_gdtr_ldtr_tr (s2\<lparr>stss := t, sk := k\<rparr>))))"

section \<open>Descriptors in memory\<close>

text \<open>The descriptor that the loader put at an address.\<close>

definition desc_at :: "mem \<Rightarrow> u32 \<Rightarrow> gdt_desc" where
  "desc_at m a = bytes_desc (read_bytes m a 8)"

lemma bytes_desc_bytes: "bytes_desc (desc_bytes d) = d"
proof -
  have "(ucast (ucast w :: u8) :: u16) OR push_bit 8 (ucast (ucast (drop_bit 8 w) :: u8)) = w" for w :: u16
    by (rule bit_word_eqI) (auto simp: bit_simps)
  then show ?thesis by (simp add: bytes_desc_def desc_bytes_def)
qed

lemma copy_gdt_spec:
  assumes "n \<le> 8 * length tbl"
  shows "\<exists>t. copy_gdt m base n tbl = Inr t \<and> length t = length tbl \<and> (\<forall>j. 8 * j + 8 \<le> n \<longrightarrow> t ! j = desc_at m (base + of_nat (8 * j))) \<and>
    (\<forall>j. n \<le> 8 * j \<and> j < length tbl \<longrightarrow> t ! j = tbl ! j)"
proof -
  have a: "map (\<lambda>i. if 8 * j + i < n then m (base + of_nat (8 * j + i)) else x i) [0..<8] = read_bytes m (base + of_nat (8 * j)) 8" if "8 * j + 8 \<le> n" for j x
    using that by (simp add: list_eq_iff_nth_eq add.assoc)
  have b: "map (\<lambda>i. if 8 * j + i < n then y i else desc_bytes d ! i) [0..<8] = desc_bytes d" if "n \<le> 8 * j" for j y d
    using that by (simp add: list_eq_iff_nth_eq desc_bytes_def)
  let ?e = "\<lambda>j. bytes_desc (map (\<lambda>i. if 8 * j + i < n then m (base + of_nat (8 * j + i)) else desc_bytes (tbl ! j) ! i) [0..<8])"
  have nth: "map ?e [0..<length tbl] ! j = ?e j" if "j < length tbl" for j using that by (subst nth_map_upt) (simp_all cong: if_cong)
  have "map ?e [0..<length tbl] ! j = desc_at m (base + of_nat (8 * j))" if "8 * j + 8 \<le> n" for j
    using nth [of j] a [OF that] that assms by (simp only: desc_at_def)
  moreover have "map ?e [0..<length tbl] ! j = tbl ! j" if "n \<le> 8 * j" "j < length tbl" for j
    unfolding nth [OF that(2)] b [OF that(1)] by (rule bytes_desc_bytes)
  ultimately show ?thesis using assms unfolding copy_gdt_def by (intro exI [of _ "map ?e [0..<length tbl]"]) simp
qed

section \<open>The local tables\<close>

definition kds_base :: "gdt_desc list \<Rightarrow> u32" where
  "kds_base tbl = gdt_ldt_to_base_addr (tbl ! 2)"

lemma init_ldt_loop_spec:
  assumes "0 \<le> k" "k \<le> 37" "length (gdt s) = 128"
  shows "\<exists>s'. init_ldt_loop la [k..36] s = Inr s' \<and> length (gdt s') = 128 \<and> length (proc_table s') = length (proc_table s) \<and>
    (\<forall>i. proc_at s' i = (if k \<le> i \<and> i \<le> 36 then zero_proc\<lparr>ldt_sel := 0x28 + push_bit 3 (word_of_int i)\<rparr> else proc_at s i)) \<and>
    (\<forall>j. gdt s' ! j = (if nat k + 5 \<le> j \<and> j \<le> 41 then make_gdt_desc (kds_base (gdt s) + la (int j - 5)) 15 DA_LDT else gdt s ! j))"
  using assms
proof (induction "nat (37 - k)" arbitrary: k s)
  case 0
  then show ?case by auto
next
  case (Suc n)
  let ?p = "zero_proc\<lparr>ldt_sel := 0x28 + push_bit 3 (word_of_int k)\<rparr>"
  let ?s = "(put_proc s k ?p)\<lparr>gdt := (gdt s)[5 + nat k := make_gdt_desc (kds_base (gdt s) + la k) 15 DA_LDT]\<rparr>"
  have k: "k \<le> 36" "nat k + 5 < 128" using Suc.hyps(2) by simp_all
  have up: "[k..36] = k # [k + 1..36]" using k(1) by (rule upto_rec1)
  have st: "init_ldt_step la k s = Inr ?s"
    using k by (simp add: init_ldt_step_def Let_def get_linear_addr_def gdt_seg_to_base_addr_def kds_base_def)
  have kb: "kds_base (gdt ?s) = kds_base (gdt s)" by (simp add: kds_base_def)
  have pg: "proc_at (t\<lparr>gdt := g\<rparr>) = proc_at t" for t g by (simp add: proc_at_def fun_eq_iff)
  have pa: "proc_at ?s i = (if i = k then ?p else proc_at s i)" for i unfolding pg by auto
  have n: "n = nat (37 - (k + 1))" and pk: "0 \<le> k + 1" "k + 1 \<le> 37" "length (gdt ?s) = 128" using Suc.hyps(2) Suc.prems k by simp_all
  obtain s' where s': "init_ldt_loop la [k + 1..36] ?s = Inr s'" "length (gdt s') = 128" "length (proc_table s') = length (proc_table s)"
    "\<forall>i. proc_at s' i = (if k + 1 \<le> i \<and> i \<le> 36 then zero_proc\<lparr>ldt_sel := 0x28 + push_bit 3 (word_of_int i)\<rparr> else proc_at ?s i)"
    "\<forall>j. gdt s' ! j = (if nat (k + 1) + 5 \<le> j \<and> j \<le> 41 then make_gdt_desc (kds_base (gdt s) + la (int j - 5)) 15 DA_LDT else gdt ?s ! j)"
    using Suc.hyps(1) [OF n pk] unfolding kb by auto
  have "gdt s' ! j = (if nat k + 5 \<le> j \<and> j \<le> 41 then make_gdt_desc (kds_base (gdt s) + la (int j - 5)) 15 DA_LDT else gdt s ! j)" for j
    using s'(5) Suc.prems k by (cases "j = 5 + nat k") (auto simp: nat_add_distrib)
  moreover have "proc_at s' i = (if k \<le> i \<and> i \<le> 36 then zero_proc\<lparr>ldt_sel := 0x28 + push_bit 3 (word_of_int i)\<rparr> else proc_at s i)" for i
    using s'(4) pa k by (cases "i = k") auto
  ultimately show ?case using up st s'(1-3) by simp
qed

section \<open>The tables after start-up\<close>

lemma disp_newlines: "k \<le> 16 \<Longrightarrow> unat (disp_pos d) + 160 * k < 40000 \<Longrightarrow> \<exists>d'. disp_color_str (replicate k 10) c d = Inr d' \<and> dvram d' = dvram d"
proof (induction k arbitrary: d)
  case (Suc k)
  let ?q = "unat (disp_pos d) div 160"
  have lt: "unat (disp_pos d) < 65536" "?q < 250" using Suc.prems by auto
  have u: "unat (ucast (disp_pos d) :: u16) = unat (disp_pos d)" using lt(1) by (simp add: unsigned_ucast_eq take_bit_nat_eq_self)
  have nr: "next_row (disp_pos d) = Inr (of_nat ((?q + 1) * 160))" using lt(2) by (simp add: next_row_def u Let_def)
  have "unat (of_nat ((?q + 1) * 160) :: u32) = (?q + 1) * 160" using lt(2) by (intro unat_of_nat_u32) simp
  moreover have "?q * 160 \<le> unat (disp_pos d)" by simp
  ultimately have "unat (of_nat ((?q + 1) * 160) :: u32) + 160 * k < 40000" using Suc.prems(2) by simp
  then obtain d' where "disp_color_str (replicate k 10) c (d\<lparr>disp_pos := of_nat ((?q + 1) * 160)\<rparr>) = Inr d'" "dvram d' = dvram d"
    using Suc.IH [of "d\<lparr>disp_pos := of_nat ((?q + 1) * 160)\<rparr>"] Suc.prems(1) by auto
  then show ?case using nr by (simp del: of_nat_mult)
qed simp


definition sample_start :: start where
  "sample_start = \<lparr>sk = sample_machine, idt = replicate 256 zero_gate_desc, stss = \<lparr>ss0 = 0, iobase = 0\<rparr>, sdisp = \<lparr>dvram = (\<lambda>_. 0), disp_pos = 0\<rparr>,
     gdtr = \<lparr>dt_limit = 0x3F, dt_base = 0x90000\<rparr>, idtr = \<lparr>dt_limit = 0, dt_base = 0\<rparr>, cpu_gdtr = \<lparr>dt_limit = 0x3F, dt_base = 0x90000\<rparr>,
     cpu_idtr = \<lparr>dt_limit = 0, dt_base = 0\<rparr>, cpu_tr = 0\<rparr>"

definition sample_addrs :: start_addrs where
  "sample_addrs = \<lparr>gdt_addr = 0x36000, idt_addr = 0x37000, tss_addr = 0x38000, ldts_addr = (\<lambda>i. 0x39000 + 0x100 * word_of_int i), entry_addr = (\<lambda>_. 0x30400)\<rparr>"


end
