(* ===== verification/Consoles.thy ===== *)
theory Consoles
  imports Tty
begin

text \<open>
  Well-formed consoles. The window of a console starts on a row at or before the cursor, and the cursor is in the console's part of video memory,
  whether the console has wrapped or not. Printing, switching and, before the first wrap, scrolling keep this, and none of them fails or hangs; a
  backspace at the first cell of the window is the exception, after which the loop of \<^verbatim>\<open>console_print_char\<close> never ends.
\<close>

unbundle bit_operations_syntax

definition con_wf :: "console \<Rightarrow> bool" where
  "con_wf c \<longleftrightarrow> 0 \<le> w_console_start c \<and> w_console_start c \<le> 100000 \<and> w_console_size c = w_console_size_init \<and> (is_full c = 0 \<or> is_full c = 1) \<and>
     w_console_start c \<le> w_screen_start c \<and> (w_screen_start c - w_console_start c) mod SCR_WIDTH = 0 \<and>
     w_screen_start c \<le> w_cursor c \<and> w_cursor c < w_console_start c + w_console_size_init"

definition screen_wf :: "vga \<Rightarrow> bool" where
  "screen_wf v \<longleftrightarrow> length (console_table v) = 3 \<and> list_all con_wf (console_table v)"

text \<open>Two states that differ at most in one console.\<close>

definition only_console :: "nat \<Rightarrow> vga \<Rightarrow> vga \<Rightarrow> bool" where
  "only_console i v v' \<longleftrightarrow> (\<exists>c. con_wf c \<and> console_table v' = (console_table v)[i := c]) \<and> current_console v' = current_console v"

lemma screen_wf_at: "screen_wf v \<Longrightarrow> i < 3 \<Longrightarrow> con_wf (console_table v ! i)"
  by (simp add: screen_wf_def list_all_length)

lemma only_console_wf:
  assumes "only_console i v v'" "screen_wf v"
  shows "screen_wf v'" "j \<noteq> i \<Longrightarrow> console_table v' ! j = console_table v ! j"
  using assms set_update_subset_insert by (auto simp: only_console_def screen_wf_def list_all_iff dest!: subsetD [OF set_update_subset_insert])

lemma only_console_at: "only_console i v v' \<Longrightarrow> i < length (console_table v) \<Longrightarrow> con_wf (console_table v' ! i)"
  "only_console i v v' \<Longrightarrow> i < length (console_table v) \<Longrightarrow> i < length (console_table v')"
  by (auto simp: only_console_def)

lemma only_console_trans: "only_console i u v \<Longrightarrow> only_console i v w \<Longrightarrow> only_console i u w"
  by (auto simp: only_console_def)

text \<open>Offsets inside a console fit into the integers the code uses.\<close>

lemma con_wf_offsets:
  assumes "con_wf c"
  shows "to_u32 (w_cursor c - w_console_start c) = w_cursor c - w_console_start c" "s32 (w_screen_start c - w_console_start c) = w_screen_start c - w_console_start c"
    "to_u32 (w_screen_start c + 80) = w_screen_start c + 80" "to_u32 (w_screen_start c + 2000) = w_screen_start c + 2000"
  using assms by (auto simp: con_wf_def intro!: to_u32_id s32_id)

lemma row_start:
  fixes x s :: int
  assumes "s mod 80 = 0" "s \<le> x"
  shows "s \<le> x div 80 * 80" "x div 80 * 80 \<le> x" "x < x div 80 * 80 + 80"
proof -
  obtain k where k: "s = 80 * k" using assms(1) by (auto simp: mod_eq_0_iff_dvd)
  then have "k \<le> x div 80" using assms(2) by simp
  then show "s \<le> x div 80 * 80" using k by simp
  show "x div 80 * 80 \<le> x" "x < x div 80 * 80 + 80"
    using mult_div_mod_eq [of 80 x] pos_mod_bound [of 80 x] pos_mod_sign [of 80 x] by linarith+
qed

lemma scroll_start_hidden:
  assumes "con_wf c" "cursor_hidden c"
  shows "scroll_start c SCROLL_DN = w_screen_start c + 80" "w_screen_start c + 2000 \<le> w_cursor c"
proof -
  let ?o = "w_cursor c - w_console_start c" and ?s = "w_screen_start c - w_console_start c"
  note of = con_wf_offsets [OF assms(1)]
  show h: "w_screen_start c + 2000 \<le> w_cursor c" using assms of(4) by (auto simp: cursor_hidden_def con_wf_def)
  have s: "?s mod 80 = 0" "(?s + 2000) mod 80 = 0" "0 \<le> ?s" "?o < 10922" "is_full c = 0 \<or> is_full c = 1" "w_console_size c = 10922"
    using assms(1) by (auto simp: con_wf_def mod_add_eq [symmetric])
  have row: "?s + 2000 \<le> ?o div 80 * 80" "?o div 80 * 80 \<le> ?o" using row_start [OF s(2), of ?o] h by simp_all
  have l: "s32 (?o div 80 * 80) = ?o div 80 * 80" using row s(3, 4) by (intro s32_id) linarith+
  have "?s + 2000 \<noteq> 10922" using s(1) by presburger
  moreover have "to_u32 (?s + 2000) = ?s + 2000" using s row by (intro to_u32_id) linarith+
  ultimately show "scroll_start c SCROLL_DN = w_screen_start c + 80"
    using s(5, 6) row by (auto simp: scroll_start_def Let_def of l)
qed

lemma scroll_loop_wf:
  assumes "con_wf (console_table v ! i)" "i < length (console_table v)"
  shows "\<exists>v'. scroll_loop i v = Some v' \<and> only_console i v v'"
  using assms
proof (induction "nat (w_cursor (console_table v ! i) - w_screen_start (console_table v ! i))" arbitrary: v rule: less_induct)
  case less
  let ?c = "console_table v ! i" and ?w = "scroll_down_clear i v"
  show ?case
  proof (cases "cursor_hidden ?c")
    case False
    have "only_console i v v" using less.prems by (auto simp: only_console_def intro!: exI [of _ ?c])
    then show ?thesis using False by (subst scroll_loop.simps) simp
  next
    case True
    note hid = scroll_start_hidden [OF less.prems(1) True]
    let ?c' = "?c\<lparr>w_screen_start := w_screen_start ?c + 80\<rparr>"
    have w: "console_table ?w = (console_table v)[i := ?c']" "current_console ?w = current_console v"
      by (simp_all add: scroll_down_clear_def Let_def put_console_def clear_screen_buf_def hid(1))
    have wf: "con_wf ?c'"
    proof -
      have e: "w_screen_start ?c + 80 - w_console_start ?c = w_screen_start ?c - w_console_start ?c + 80" by simp
      show ?thesis using less.prems(1) hid(2) unfolding con_wf_def by (simp add: e mod_add_eq [symmetric] del: diff_add_eq)
    qed
    have at: "console_table ?w ! i = ?c'" "i < length (console_table ?w)" using w less.prems(2) by simp_all
    have "nat (w_cursor ?c' - w_screen_start ?c') < nat (w_cursor ?c - w_screen_start ?c)" using hid(2) by simp
    with less.hyps [of ?w] at wf obtain v' where v': "scroll_loop i ?w = Some v'" "only_console i ?w v'" by auto
    have "only_console i v ?w" using w wf by (auto simp: only_console_def)
    then show ?thesis using True v' only_console_trans by (subst scroll_loop.simps) auto
  qed
qed

text \<open>The cursor after a character: inside of the console, or wrapped.\<close>

lemma place_wrap_wf:
  assumes wf: "con_wf (console_table v ! i)" and i: "i < length (console_table v)"
    and bs: "ch = 8 \<Longrightarrow> w_cursor (console_table v ! i) = w_screen_start (console_table v ! i) \<Longrightarrow> w_cursor (console_table v ! i) = w_console_start (console_table v ! i)"
  shows "only_console i v (wrap_console i (place_char i ch v))"
proof -
  let ?c = "console_table v ! i" and ?p = "place_char i ch v"
  let ?o = "w_cursor ?c - w_console_start ?c" and ?s = "w_screen_start ?c - w_console_start ?c"
  note of = con_wf_offsets [OF wf]
  have c: "0 \<le> w_console_start ?c" "w_console_start ?c \<le> 100000" "w_console_size ?c = 10922" "is_full ?c = 0 \<or> is_full ?c = 1" "0 \<le> ?s" "?s mod 80 = 0" "?s \<le> ?o" "?o < 10922"
    using wf by (auto simp: con_wf_def)
  define o' where "o' = (if ch = 10 then (?o div 80 + 1) * 80 else if ch = 8 then (if ?o = 0 then 0 else ?o - 1) else ?o + 1)"
  have ne: "?s < ?o" if "ch = 8" "?o \<noteq> 0" using c(7) bs [OF that(1)] that(2) by (cases "?s = ?o") auto
  have "?o div 80 * 80 \<le> ?o" "?o < ?o div 80 * 80 + 80" using row_start(2, 3) [of 0 ?o] c(5, 7) by auto
  then have o': "?s \<le> o'" "o' \<le> 10960" using ne c unfolding o'_def by (auto simp: distrib_right)
  have u: "to_u32 (w_console_start ?c + o') = w_console_start ?c + o'" using c o' by (intro to_u32_id) linarith+
  have same: "(console_table v)[i := ?c\<lparr>w_cursor := w_console_start ?c\<rparr>] = console_table v" if "w_cursor ?c = w_console_start ?c"
    by (simp add: that [symmetric])
  have p: "console_table ?p = (console_table v)[i := ?c\<lparr>w_cursor := w_console_start ?c + o'\<rparr>]" "current_console ?p = current_console v"
    using u c same by (auto simp: place_char_def Let_def put_console_def of o'_def algebra_simps)
  show ?thesis
  proof (cases "o' < 10922")
    case True
    have "to_u32 o' = o'" using o' c by (intro to_u32_id) linarith+
    then have "wrap_console i ?p = ?p" using True c i by (simp add: wrap_console_def Let_def p)
    moreover have "con_wf (?c\<lparr>w_cursor := w_console_start ?c + o'\<rparr>)" using c o' True by (auto simp: con_wf_def)
    ultimately show ?thesis using p by (auto simp: only_console_def)
  next
    case False
    let ?x = "o' mod 80"
    have x: "0 \<le> ?x" "?x < 80" by simp_all
    have t: "to_u32 o' = o'" "to_u32 (w_console_start ?c + 1920 + ?x) = w_console_start ?c + 1920 + ?x" using o' c x by (auto intro!: to_u32_id)
    let ?c' = "?c\<lparr>w_screen_start := w_console_start ?c, w_cursor := w_console_start ?c + 1920 + ?x, is_full := 1\<rparr>"
    have "console_table (wrap_console i ?p) = (console_table v)[i := ?c']" "current_console (wrap_console i ?p) = current_console v"
      using False c i t by (simp_all add: wrap_console_def Let_def p put_console_def clear_screen_buf_def move_screen_buf_def)
    moreover have "con_wf ?c'" using c x by (auto simp: con_wf_def)
    ultimately show ?thesis by (auto simp: only_console_def)
  qed
qed

lemma print_char_wf:
  assumes wf: "con_wf (console_table v ! i)" and len: "i < length (console_table v)"
    and bs: "ch = 8 \<Longrightarrow> w_cursor (console_table v ! i) = w_screen_start (console_table v ! i) \<Longrightarrow> w_cursor (console_table v ! i) = w_console_start (console_table v ! i)"
  shows "\<exists>v'. console_print_char i ch v = Inr v' \<and> only_console i v v'"
proof -
  let ?w = "wrap_console i (place_char i ch v)"
  have w: "only_console i v ?w" by (rule place_wrap_wf [OF wf len bs])
  note wf' = only_console_at [OF w len]
  from scroll_loop_wf [OF wf'] obtain v' where v': "scroll_loop i ?w = Some v'" "only_console i ?w v'" by blast
  have "to_u32 (w_cursor c - w_console_start c) < w_console_size c" if "con_wf c" for c
    using that con_wf_offsets(1) [OF that] by (auto simp: con_wf_def)
  from this [OF wf] this [OF wf'(1)] have "console_print_char i ch v = Inr (do_screen_refresh i v')"
    using v'(1) by (simp add: console_print_char_def Let_def)
  moreover have "only_console i v (do_screen_refresh i v')" using only_console_trans [OF w v'(2)] by (simp add: only_console_def)
  ultimately show ?thesis by blast
qed

lemma print_chars_wf:
  "con_wf (console_table v ! i) \<Longrightarrow> i < length (console_table v) \<Longrightarrow> 8 \<notin> set bs \<Longrightarrow> \<exists>v'. print_chars i bs v = Inr v' \<and> only_console i v v'"
proof (induction bs arbitrary: v)
  case Nil
  then show ?case by (auto simp: only_console_def intro!: exI [of _ "console_table v ! i"])
next
  case (Cons ch bs)
  obtain w where w: "console_print_char i ch v = Inr w" "only_console i v w" using print_char_wf [of v i ch] Cons.prems by auto
  from Cons.IH [OF only_console_at [OF w(2) Cons.prems(2)]] Cons.prems obtain v' where "print_chars i bs w = Inr v'" "only_console i w v'" by auto
  then show ?case using w only_console_trans by auto
qed

lemma scroll_start_plain:
  assumes "is_full c = 0"
  shows "scroll_start c SCROLL_UP = (if 0 < s32 (w_screen_start c - w_console_start c) then to_u32 (w_screen_start c - SCR_WIDTH) else w_screen_start c)"
    "scroll_start c SCROLL_DN = (if s32 (w_screen_start c - w_console_start c) + SCR_SIZE \<le> s32 (to_u32 (w_cursor c - w_console_start c) div SCR_WIDTH * SCR_WIDTH)
       then to_u32 (w_screen_start c + SCR_WIDTH) else w_screen_start c)"
  unfolding scroll_start_def Let_def by (simp_all only: assms) simp_all

lemma scroll_wf:
  assumes "screen_wf v" "i < 3" "is_full (console_table v ! i) = 0" "dir = SCROLL_UP \<or> dir = SCROLL_DN"
  shows "\<exists>v'. scroll_screen i dir v = Inr v' \<and> only_console i v v'"
proof -
  let ?c = "console_table v ! i"
  let ?o = "w_cursor ?c - w_console_start ?c" and ?s = "w_screen_start ?c - w_console_start ?c"
  note wf = screen_wf_at [OF assms(1, 2)] and of = con_wf_offsets [OF screen_wf_at [OF assms(1, 2)]]
  have c: "?s mod 80 = 0" "0 \<le> ?s" "?s \<le> ?o" "?o < 10922" "0 \<le> w_console_start ?c" "w_console_start ?c \<le> 100000" using wf by (auto simp: con_wf_def)
  have row: "?o div 80 * 80 \<le> ?o" "0 \<le> ?o div 80 * 80" using row_start [of 0 ?o] c by auto
  have l: "s32 (?o div 80 * 80) = ?o div 80 * 80" using row c by (intro s32_id) linarith+
  have up: "80 \<le> ?s" if "0 < ?s" using c(1) that by presburger
  have "con_wf (?c\<lparr>w_screen_start := scroll_start ?c dir\<rparr>)"
  proof -
    have mv: "con_wf (?c\<lparr>w_screen_start := w_screen_start ?c + d\<rparr>)" if "d mod 80 = 0" "0 \<le> ?s + d" "?s + d \<le> ?o" for d
    proof -
      have "(?s + d) mod 80 = 0" using c(1) that(1) by (metis dvd_add mod_eq_0_iff_dvd)
      then have "(w_screen_start ?c + d - w_console_start ?c) mod 80 = 0" by (simp only: diff_add_eq)
      then show ?thesis using wf that(2, 3) by (simp add: con_wf_def)
    qed
    show ?thesis
    proof (cases "dir = SCROLL_UP")
      case True
      have "to_u32 (w_screen_start ?c - 80) = w_screen_start ?c - 80" if "0 < ?s" using up [OF that] c by (intro to_u32_id) linarith+
      then have "scroll_start ?c dir = w_screen_start ?c + (if 0 < ?s then -80 else 0)" unfolding True scroll_start_plain(1) [OF assms(3)] of(2) by (cases "0 < ?s") simp_all
      then show ?thesis using mv [of "-80"] mv [of 0] up c(2, 3) by (cases "0 < ?s") simp_all
    next
      case False
      then have "dir = SCROLL_DN" using assms(4) by simp
      then have "scroll_start ?c dir = w_screen_start ?c + (if ?s + 2000 \<le> ?o div 80 * 80 then 80 else 0)"
        using scroll_start_plain(2) [OF assms(3)] unfolding of(1, 2, 3) l by (cases "?s + 2000 \<le> ?o div 80 * 80") simp_all
      then show ?thesis using mv [of 80] mv [of 0] row(1) c(2, 3) by (cases "?s + 2000 \<le> ?o div 80 * 80") simp_all
    qed
  qed
  then show ?thesis using assms(4)
    by (auto simp: scroll_screen_def Let_def only_console_def put_console_def)
qed

section \<open>Where printing hangs\<close>

text \<open>A window that starts after the cursor: scrolling down does not move it.\<close>

definition con_stuck :: "console \<Rightarrow> bool" where
  "con_stuck c \<longleftrightarrow> is_full c = 0 \<and> 0 \<le> w_console_start c \<and> w_console_start c \<le> 100000 \<and> w_console_start c \<le> w_cursor c \<and>
     w_cursor c < w_screen_start c \<and> w_screen_start c \<le> w_console_start c + 10922"

lemma stuck_stays:
  assumes "con_stuck c"
  shows "cursor_hidden c" "scroll_start c SCROLL_DN = w_screen_start c"
proof -
  let ?o = "w_cursor c - w_console_start c" and ?s = "w_screen_start c - w_console_start c"
  have c: "is_full c = 0" "0 \<le> ?o" "?o < ?s" "?s \<le> 10922" using assms by (auto simp: con_stuck_def)
  have u: "to_u32 ?o = ?o" "s32 ?s = ?s" using c by (auto intro!: to_u32_id s32_id)
  have row: "?o div 80 * 80 \<le> ?o" "0 \<le> ?o div 80 * 80" using row_start [of 0 ?o] c by auto
  then have "s32 (?o div 80 * 80) = ?o div 80 * 80" using c by (intro s32_id) linarith+
  then show "scroll_start c SCROLL_DN = w_screen_start c" using c row by (simp add: scroll_start_def Let_def u)
  show "cursor_hidden c" using assms by (simp add: cursor_hidden_def con_stuck_def)
qed

lemma stuck_loops:
  assumes "scroll_loop i v = Some v'"
  shows "\<not> (i < length (console_table v) \<and> con_stuck (console_table v ! i))"
proof (rule scroll_loop.raw_induct [OF _ assms])
  fix loop i v v'
  assume ih: "\<And>i v v'. loop i v = Some v' \<Longrightarrow> \<not> (i < length (console_table v) \<and> con_stuck (console_table v ! i))"
    and run: "(if cursor_hidden (console_table v ! i) then loop i (scroll_down_clear i v) else Some v) = Some v'"
  show "\<not> (i < length (console_table v) \<and> con_stuck (console_table v ! i))"
  proof
    assume s: "i < length (console_table v) \<and> con_stuck (console_table v ! i)"
    then have "loop i (scroll_down_clear i v) = Some v'" using run stuck_stays(1) by simp
    moreover have "console_table (scroll_down_clear i v) = console_table v"
      using s stuck_stays(2) by (simp add: scroll_down_clear_def Let_def put_console_def clear_screen_buf_def)
    ultimately show False using ih [of i "scroll_down_clear i v" v'] s by simp
  qed
qed

lemma backspace_hangs:
  assumes "screen_wf v" "i < 3" "is_full (console_table v ! i) = 0"
    and "w_cursor (console_table v ! i) = w_screen_start (console_table v ! i)" "w_console_start (console_table v ! i) < w_cursor (console_table v ! i)"
  shows "console_print_char i 8 v = Inl Diverges"
proof -
  let ?c = "console_table v ! i" and ?p = "place_char i 8 v"
  have c: "con_wf ?c" "i < length (console_table v)" using screen_wf_at assms(1, 2) by (auto simp: screen_wf_def)
  have p: "console_table ?p = (console_table v)[i := ?c\<lparr>w_cursor := w_cursor ?c - 1\<rparr>]"
    using assms(5) by (simp add: place_char_def Let_def put_console_def)
  have u: "to_u32 (w_cursor ?c - 1 - w_console_start ?c) = w_cursor ?c - 1 - w_console_start ?c" using c(1) assms(5) by (intro to_u32_id) (auto simp: con_wf_def)
  have w: "wrap_console i ?p = ?p" using c u by (simp add: wrap_console_def Let_def p con_wf_def)
  have "con_stuck (console_table ?p ! i)" using c assms(3-5) by (auto simp: p con_stuck_def con_wf_def)
  then have "scroll_loop i ?p = None" using stuck_loops [of i ?p] c(2) p by (cases "scroll_loop i ?p") auto
  then show ?thesis using c con_wf_offsets(1) [OF c(1)] u by (simp add: console_print_char_def Let_def w p con_wf_def)
qed

section \<open>The consoles stay well-formed\<close>

lemma init_console_wf: "nr \<le> 2 \<Longrightarrow> con_wf (init_console (int nr))"
proof -
  assume "nr \<le> 2"
  then have "nr = 0 \<or> nr = 1 \<or> nr = 2" by auto
  then show ?thesis by (auto simp: con_wf_def init_console_def W_TTY_CONSOLE_START_def signed_divide_int_def)
qed


lemma init_screen_first:
  assumes "length (console_table v) = 3" "0 \<le> disp_pos" "disp_pos < 20000"
  shows "\<exists>v'. init_screen 0 disp_pos v = Inr (v', 0) \<and> length (console_table v') = 3 \<and> con_wf (console_table v' ! 0)"
proof -
  have "disp_pos sdiv 2 = disp_pos div 2" using assms(2) by (simp add: sdiv_nonneg)
  moreover have "to_u32 (disp_pos div 2) = disp_pos div 2" using assms(2, 3) by (intro to_u32_id) simp_all
  moreover have "disp_pos div 2 < 10922" using assms(3) by simp
  ultimately have "con_wf ((init_console 0)\<lparr>w_cursor := to_u32 (disp_pos sdiv 2)\<rparr>)"
    using init_console_wf [of 0] assms(2) by (simp add: con_wf_def init_console_def W_TTY_CONSOLE_START_def)
  then show ?thesis using assms(1) by (simp add: init_screen_def Let_def put_console_def set_screen_cursor_position_def out_byte_def)
qed

lemma init_screen_next:
  assumes "length (console_table v) = 3" "nr = 1 \<or> nr = 2" "\<forall>j < nr. con_wf (console_table v ! j)"
  shows "\<exists>v'. init_screen nr disp_pos v = Inr (v', disp_pos) \<and> length (console_table v') = 3 \<and> (\<forall>j < Suc nr. con_wf (console_table v' ! j))"
proof -
  let ?v = "put_console nr (init_console (int nr)) v"
  have nr: "nr < length (console_table ?v)" "nr \<noteq> 0" "nr \<le> 2" using assms(1, 2) by (auto simp: put_console_def)
  have at: "con_wf (console_table ?v ! nr)" using init_console_wf [OF nr(3)] nr(1) by (simp add: put_console_def)
  have "8 \<notin> set (tty_prompt (int nr))" using assms(2) by (auto simp: tty_prompt_def)
  from print_chars_wf [OF at nr(1) this] obtain w where w: "print_chars nr (tty_prompt (int nr)) ?v = Inr w" "only_console nr ?v w" by blast
  have "con_wf (console_table w ! j)" if "j < Suc nr" for j
    using that w(2) only_console_at(1) [OF w(2) nr(1)] assms(3) by (cases "j = nr") (auto simp: only_console_def put_console_def)
  moreover have "length (console_table w) = 3" using w(2) assms(1) by (auto simp: only_console_def put_console_def)
  ultimately show ?thesis using w(1) nr(2) by (simp add: init_screen_def Let_def set_screen_cursor_position_def out_byte_def)
qed

lemma task_tty_init_wf:
  assumes "length (console_table (tscreen t)) = 3" "0 \<le> disp_pos" "disp_pos < 20000"
  shows "\<exists>t'. task_tty_init disp_pos t = Inr t' \<and> screen_wf (tscreen t')"
proof -
  obtain v0 where v0: "init_screen 0 disp_pos (tscreen t) = Inr (v0, 0)" "length (console_table v0) = 3" "con_wf (console_table v0 ! 0)"
    using init_screen_first [OF assms] by blast
  obtain v1 where v1: "init_screen 1 0 v0 = Inr (v1, 0)" "length (console_table v1) = 3" "\<forall>j < Suc 1. con_wf (console_table v1 ! j)"
    using init_screen_next [of v0 1 0] v0 by auto
  obtain v2 where v2: "init_screen 2 0 v1 = Inr (v2, 0)" "length (console_table v2) = 3" "\<forall>j < Suc 2. con_wf (console_table v2 ! j)"
    using init_screen_next [of v1 2 0] v1 by auto
  have "screen_wf (switch_console 1 v2)" using v2 by (auto simp: screen_wf_def list_all_length switch_console_def)
  then show ?thesis using v0(1) v1(1) v2(1) by (simp add: task_tty_init_def tty_init_def Let_def)
qed

text \<open>The states of the screen from the start of the terminal task on.\<close>

inductive console_run :: "vga \<Rightarrow> bool" where
  start: "length (console_table (tscreen t)) = 3 \<Longrightarrow> 0 \<le> disp_pos \<Longrightarrow> disp_pos < 20000 \<Longrightarrow> task_tty_init disp_pos t = Inr t' \<Longrightarrow> console_run (tscreen t')"
| print: "console_run v \<Longrightarrow> i < 3 \<Longrightarrow> console_print_char i ch v = Inr v' \<Longrightarrow>
    (ch = 8 \<Longrightarrow> w_screen_start (console_table v ! i) < w_cursor (console_table v ! i) \<or> w_cursor (console_table v ! i) = w_console_start (console_table v ! i)) \<Longrightarrow> console_run v'"
| scroll: "console_run v \<Longrightarrow> i < 3 \<Longrightarrow> is_full (console_table v ! i) = 0 \<Longrightarrow> scroll_screen i dir v = Inr v' \<Longrightarrow> console_run v'"
| switch: "console_run v \<Longrightarrow> console_run (switch_console n v)"

lemma console_run_wf: "console_run v \<Longrightarrow> screen_wf v"
proof (induction rule: console_run.induct)
  case (start t disp_pos t')
  then show ?case using task_tty_init_wf [of t disp_pos] by auto
next
  case (print v i ch v')
  have "i < length (console_table v)" using print by (simp add: screen_wf_def)
  moreover have "w_cursor (console_table v ! i) = w_console_start (console_table v ! i)" if "ch = 8" "w_cursor (console_table v ! i) = w_screen_start (console_table v ! i)"
    using print.hyps(4) [OF that(1)] that(2) by simp
  ultimately have "only_console i v v'" using print_char_wf [OF screen_wf_at [OF print.IH print.hyps(2)], of ch] print.hyps(3) by auto
  then show ?case using only_console_wf(1) print.IH by blast
next
  case (scroll v i dir v')
  have "dir = SCROLL_UP \<or> dir = SCROLL_DN" using scroll.hyps by (auto simp: scroll_screen_def c_assert_def split: if_splits)
  then show ?case using scroll_wf [of v i dir] scroll only_console_wf(1) [of i v v'] by auto
next
  case (switch v n)
  then show ?case by (simp add: screen_wf_def switch_console_def)
qed


definition sample_terminals :: tty_task where
  "sample_terminals = \<lparr>tty_table = replicate 3 sample_tty, tkbd = kbd_zero,
     tscreen = \<lparr>console_table = replicate 3 (init_console 0), current_console = 0, vram = (\<lambda>_. 0), outs = []\<rparr>, tmem = (\<lambda>_. 0), tsent = [], tkey_pressed = 0\<rparr>"


end
