(* ===== verification/Debug.thy ===== *)
theory Debug
  imports Consoles Sprintf Display
begin

text \<open>
  Diagnostic output: \<^verbatim>\<open>printl\<close> of \<^verbatim>\<open>src/lib/misc/printf.c\<close>, which prints through the kernel without the terminal task, what a failed
  assertion prints (\<^verbatim>\<open>src/lib/misc/assert.c\<close>), and \<^verbatim>\<open>panic\<close>, \<^verbatim>\<open>dump_proc\<close> and \<^verbatim>\<open>dump_msg\<close> of \<^verbatim>\<open>src/kernel/debug.c\<close>.

  \<open>printl\<close> works on the caller's memory: the addresses of its local buffer and message are parameters. \<open>printl_text\<close> is the effect of a call
  with a literal format on the screen. \<open>panic\<close> and \<open>assertion_failure\<close> give the state in which the machine executes \<^verbatim>\<open>ud2\<close> and the process
  starts to spin; elsewhere in the development they are the left values of \<open>outcome\<close>.
\<close>

unbundle bit_operations_syntax

abbreviation (input) MAG_CH_PANIC where "MAG_CH_PANIC \<equiv> 2 :: int"
abbreviation (input) MAG_CH_ASSERT where "MAG_CH_ASSERT \<equiv> 3 :: int"

section \<open>The code\<close>

definition printl :: "int \<Rightarrow> u32 \<Rightarrow> u32 \<Rightarrow> u32 \<Rightarrow> u32 \<Rightarrow> kernel \<Rightarrow> (kernel \<times> int) outcome" where
  "printl pid buf fmt args msg s =
     (let base = ldt_idx_to_base_addr (proc_at s pid) 1
      in obind (of_loop (vsprintf (\<lambda>a. kmem s (base + a)) buf fmt args)) (\<lambda>(write_len, um).
         if write_len \<ge> 1024 then Inl OutOfBounds
         else
           let m1 = (\<lambda>a. um (a - base)); m2 = wr32 (wr32 m1 (base + msg + 4) PRINTX) (base + msg + 44) buf
           in obind (ipc_msg_send_rcv (\<lambda>fn dest m. sys_send_rcv_handler fn dest m pid) (\<lambda>f k. k\<lparr>kmem := f (kmem k)\<rparr>) SEND TASK_TTY msg
                (s\<lparr>kmem := m2\<rparr>)) (\<lambda>(s', _). Inr (s', write_len))))"

definition printl_text :: "string \<Rightarrow> fmt_arg list \<Rightarrow> kernel \<Rightarrow> kernel outcome" where
  "printl_text f as s = obind (print_chars 0 (sprintf_text f as) (screen s)) (\<lambda>v. Inr (s\<lparr>screen := v\<rparr>))"

definition spin :: "u8 list \<Rightarrow> kernel \<Rightarrow> kernel outcome" where
  "spin func_name = printl_text ''^nspinning in %s ...^n'' [Str func_name]"

definition assertion_failure :: "u8 list \<Rightarrow> u8 list \<Rightarrow> u8 list \<Rightarrow> int \<Rightarrow> kernel \<Rightarrow> kernel outcome" where
  "assertion_failure exp file base_file line s =
     obind (printl_text ''%c  assert(%s) failed: file: %s, base_file: %s, ln%d'' [Num MAG_CH_ASSERT, Str exp, Str file, Str base_file, Num line] s)
       (spin (c_text ''assertion_failure()''))"

definition panic :: "string \<Rightarrow> fmt_arg list \<Rightarrow> kernel \<Rightarrow> kernel outcome" where
  "panic f as s =
     (let buf = sprintf_text f as
      in if length buf \<ge> 256 then Inl OutOfBounds else printl_text ''%c !!panic!! %s'' [Num MAG_CH_PANIC, Str buf] s)"

definition dump_msg :: "u8 list \<Rightarrow> u32 \<Rightarrow> message \<Rightarrow> kernel \<Rightarrow> kernel outcome" where
  "dump_msg title addr m s =
     printl_text ''{%s}<0x%x>{%ssrc:%s(%d),%stype:%d,%s(0x%x, 0x%x, 0x%x, 0x%x, 0x%x, 0x%x)%s}%s''
       [Str title, Num (sint addr), Str (c_text ''^n        ''), Str (name (proc_at s (source m))), Num (source m), Str (c_text ''^n        ''),
        Num (type m), Str (c_text ''^n        ''), Num (m3i1 m), Num (m3i2 m), Num (m3i3 m), Num (m3i4 m), Num (sint (m3p1 m)), Num (sint (m3p2 m)),
        Str (c_text ''^n''), Str (c_text ''^n'')] s"

text \<open>\<^verbatim>\<open>dump_proc\<close>: the ports it writes and what it shows. \<open>bytes\<close> are the bytes of the structure in memory.\<close>

definition disp_fmt :: "string \<Rightarrow> fmt_arg list \<Rightarrow> display \<Rightarrow> display outcome" where
  "disp_fmt f as = disp_color_str (sprintf_text f as) 0x24"

fun dump_bytes :: "u8 list \<Rightarrow> display \<Rightarrow> display outcome" where
  "dump_bytes [] d = Inr d"
| "dump_bytes (b # bs) d = obind (disp_fmt ''%x.'' [Num (uint b)] d) (dump_bytes bs)"

definition dump_proc :: "int \<Rightarrow> u8 list \<Rightarrow> proc \<Rightarrow> display \<Rightarrow> ((u16 \<times> u8) list \<times> display) outcome" where
  "dump_proc idx bytes p d =
     obind (disp_fmt ''byte dump of proc_table[%d]:^n'' [Num idx] d) (\<lambda>d1.
     obind (dump_bytes bytes d1) (\<lambda>d2.
     obind (disp_fmt ''^n^n'' [] d2) (\<lambda>d3.
     obind (disp_fmt ''ANY: 0x%x.^n'' [Num ANY] d3) (\<lambda>d4.
     obind (disp_fmt ''NO_TASK: 0x%x.^n'' [Num NO_TASK] d4) (\<lambda>d5.
     obind (disp_fmt ''^n'' [] d5) (\<lambda>d6.
     obind (disp_fmt ''ldt_sel: 0x%x.  '' [Num (uint (ldt_sel p))] d6) (\<lambda>d7.
     obind (disp_fmt ''ticks: 0x%x.  '' [Num (ticks p)] d7) (\<lambda>d8.
     obind (disp_fmt ''priority: 0x%x.  '' [Num (priority p)] d8) (\<lambda>d9.
     obind (disp_fmt ''name: %s.  '' [Str (name p)] d9) (\<lambda>d10.
     obind (disp_fmt ''^n'' [] d10) (\<lambda>d11.
     obind (disp_fmt ''proc_state: 0x%x.  '' [Num (sint (proc_state p))] d11) (\<lambda>d12.
     obind (disp_fmt ''pid_recvingfrom: 0x%x.  '' [Num (pid_recvingfrom p)] d12) (\<lambda>d13.
     obind (disp_fmt ''pid_sendingto: 0x%x.  '' [Num (pid_sendingto p)] d13) (\<lambda>d14.
     obind (disp_fmt ''^n'' [] d14) (\<lambda>d15.
     obind (disp_fmt ''has_int_msg: 0x%x.  '' [Num (has_int_msg p)] d15) (\<lambda>d16.
       Inr ([(CRTC_ADDR_REG, 0xC), (CRTC_DATA_REG, 0), (CRTC_ADDR_REG, 0xD), (CRTC_DATA_REG, 0)], d16)))))))))))))))))"

section \<open>What printl shows\<close>

lemma printx_loop_chars:
  "is_cstr mm p bs \<Longrightarrow> print_chars 0 bs v = Inr v' \<Longrightarrow> printx_loop mm p v = Some (Inr v')"
proof (induction mm p bs arbitrary: v rule: is_cstr.induct)
  case (1 m a)
  then show ?case by (subst printx_loop.simps) simp
next
  case (2 m a b bs)
  then show ?case by (subst printx_loop.simps) (auto simp: obind_Inr_iff)
qed

lemma written_cstr:
  assumes "0 \<notin> set bs" "length bs < 4294967295"
  shows "is_cstr (write_bytes m a (bs @ [0])) a bs"
  using assms
proof (induction bs arbitrary: a m)
  case (Cons b bs)
  have len: "length (bs @ [0]) < 4294967296" using Cons.prems(2) by simp
  have "unat (a - (a + 1)) = 4294967295" by simp
  then have "write_bytes (m(a := b)) (a + 1) (bs @ [0]) a = b" using write_bytes_eq [OF len, of "m(a := b)" "a + 1" a] Cons.prems(2) by simp
  then show ?case using Cons by simp
qed simp

text \<open>C19: A diagnostic message always appears. When a task or the first process calls \<^verbatim>\<open>printl\<close> with a format and arguments in its memory, the call
  returns the length of the text and the text, and nothing else, is printed on the console of the first terminal, whatever that console shows and
  however much it has to scroll. The terminal task takes no part in it: processes and messages are unchanged, and so is memory outside of the local
  variables of the call.\<close>

theorem printl_shows_text:
  assumes "screen_wf (screen s)" and "ldt_idx_to_base_addr (proc_at s pid) 1 = 0"
    and "is_cstr (kmem s) fmt (c_text f)" and "args_at (kmem s) args as" and "fmt_out (c_text f) as \<noteq> None"
    and "length (sprintf_text f as) < 1024" and "8 \<notin> set (sprintf_text f as)" and "apart buf 1024 msg 48"
  shows "\<exists>s'. printl pid buf fmt args msg s = Inr (s', int (length (sprintf_text f as))) \<and>
    printl_text f as s = Inr (s'\<lparr>kmem := kmem s\<rparr>) \<and> screen_wf (screen s') \<and>
    (\<forall>x. 1024 \<le> unat (x - buf) \<and> 48 \<le> unat (x - msg) \<longrightarrow> kmem s' x = kmem s x)"
proof -
  let ?out = "sprintf_text f as"
  let ?um = "write_bytes (kmem s) buf (?out @ [0])"
  let ?m = "wr32 (wr32 ?um (msg + 4) PRINTX) (msg + 44) buf"
  have wf: "con_wf (console_table (screen s) ! 0)" "0 < length (console_table (screen s))"
    using screen_wf_at [OF assms(1), of 0] assms(1) by (simp_all add: screen_wf_def)
  obtain v where v: "print_chars 0 ?out (screen s) = Inr v" "only_console 0 (screen s) v" using print_chars_wf [OF wf assms(7)] by blast
  have far: "?m x = ?um x" if "48 \<le> unat (x - msg)" for x
  proof -
    have "(4 :: u32) \<le> x - msg" "(44 :: u32) \<le> x - msg" using that by (simp_all add: word_le_nat_alt)
    then have "unat (x - msg - 4) = unat (x - msg) - 4" "unat (x - msg - 44) = unat (x - msg) - 44" by (simp_all add: unat_sub)
    then have "4 \<le> unat (x - (msg + 4))" "4 \<le> unat (x - (msg + 44))" using that by (simp_all add: diff_diff_eq)
    then show ?thesis by (simp add: wr32_other)
  qed
  have str: "is_cstr ?m buf ?out"
  proof (rule is_cstr_cong [OF written_cstr])
    fix j assume "j \<le> length ?out"
    then have "j < 1024" using assms(6) by simp
    then have "48 \<le> unat (buf + of_nat j - msg)" using apart_offset [OF apart_sym [OF assms(8)]] by simp
    then show "?m (buf + of_nat j) = ?um (buf + of_nat j)" by (rule far)
  qed (use assms(6) in simp_all)
  have ty: "msg_type ?m msg = PRINTX" "msg_buf ?m msg = buf"
    by (simp_all add: msg_type_def msg_buf_def rd32_wr32_offset unat_u32_uminus)
  have loop: "printx_loop ?m buf (screen s) = Some (Inr v)" by (rule printx_loop_chars [OF str v(1)])
  have va: "obind (if nested_int s = 0 then proc_va2la (s\<lparr>kmem := ?m\<rparr>) pid buf else Inr buf) g = g buf" for g :: "u32 \<Rightarrow> kernel outcome"
    using assms(2) by (simp add: proc_va2la_def Let_def proc_at_kmem)
  let ?s = "s\<lparr>kmem := ?m, screen := v\<rparr>"
  have "sys_printx pid buf (s\<lparr>kmem := ?m\<rparr>) = Inr ?s" using loop va by (simp add: sys_printx_def)
  then have "sys_send_rcv_handler SEND TASK_TTY msg pid (s\<lparr>kmem := ?m\<rparr>) = Inr (?s, 0)" using ty by (simp add: sys_send_rcv_handler_def)
  then have run: "printl pid buf fmt args msg s = Inr (?s, int (length ?out))"
    using assms(6) sprintf_text_vsprintf [OF assms(3-5), of buf] unfolding printl_def assms(2) by (simp add: ipc_msg_send_rcv_def Let_def)
  moreover have "printl_text f as s = Inr (?s\<lparr>kmem := kmem s\<rparr>)" using v(1) by (simp add: printl_text_def)
  moreover have "?m x = kmem s x" if "1024 \<le> unat (x - buf)" "48 \<le> unat (x - msg)" for x
    unfolding far [OF that(2)] using write_bytes_eq [of "?out @ [0]" "kmem s" buf x] that(1) assms(6) by simp
  ultimately show ?thesis using only_console_wf(1) [OF v(2) assms(1)] by auto
qed

definition talking_machine :: kernel where
  "talking_machine = sample_machine\<lparr>kmem := (\<lambda>_. 0)(0x100 := 37, 0x101 := 100, 0x200 := 42),
     screen := \<lparr>console_table = map (\<lambda>nr. init_console (int nr)) [0, 1, 2], current_console = 1, vram = (\<lambda>_. 0), outs = []\<rparr>\<rparr>"

theorem printl_shows_text_witness:
  "\<exists>s'. printl 3 0x10000 0x100 0x200 0x20000 talking_machine = Inr (s', 2) \<and> print_chars 0 [52, 50] (screen talking_machine) = Inr (screen s')"
proof -
  have wf: "screen_wf (screen talking_machine)" using init_console_wf [of 0] init_console_wf [of 1] init_console_wf [of 2]
    by (simp add: talking_machine_def screen_wf_def)
  have base: "ldt_idx_to_base_addr (proc_at talking_machine 3) 1 = 0"
    by (simp add: talking_machine_def sample_machine_def proc_at_def ldt_idx_to_base_addr_def zero_proc_def zero_gdt_desc_def)
  have "c_text ''%d'' = [37, 100]" "rd32 (kmem talking_machine) 0x200 = 42" by (simp_all add: c_text_def talking_machine_def rd32_def)
  moreover have "i2a 42 10 = [52, 50]" by code_simp
  ultimately have mem: "is_cstr (kmem talking_machine) 0x100 (c_text ''%d'')" "args_at (kmem talking_machine) 0x200 [Num 42]"
    "fmt_out (c_text ''%d'') [Num 42] \<noteq> None" "sprintf_text ''%d'' [Num 42] = [52, 50]"
    by (simp_all add: sprintf_text_def fmt_out.simps is_digit_def pad_inner_def width_of_def Let_def) (simp add: talking_machine_def)
  have "apart 0x10000 1024 0x20000 (48 :: nat)" by (simp add: apart_def unat_u32_uminus)
  from printl_shows_text [OF wf base mem(1-3) _ _ this] mem(4) obtain s' where
    "printl 3 0x10000 0x100 0x200 0x20000 talking_machine = Inr (s', 2)" "printl_text ''%d'' [Num 42] talking_machine = Inr (s'\<lparr>kmem := kmem talking_machine\<rparr>)"
    by auto
  then show ?thesis using mem(4) by (auto simp: printl_text_def obind_Inr_iff dest!: arg_cong [where f = screen])
qed

end
