(* ===== verification/Ports.thy ===== *)
theory Ports
  imports Debug Hd
begin

text \<open>
  Polling loops of the drivers, and what the disk driver prints when it starts: \<^verbatim>\<open>wait_for_status\<close>, \<^verbatim>\<open>print_partition\<close> and
  \<^verbatim>\<open>print_identify_info\<close> of \<^verbatim>\<open>src/device/hd.c\<close>; \<^verbatim>\<open>kb_wait\<close>, \<^verbatim>\<open>kb_ack\<close> and \<^verbatim>\<open>set_leds\<close> of \<^verbatim>\<open>src/device/keyboard.c\<close>.

  The values that a loop reads from a port are a list; a loop that has not ended when the list ends has no result. The driver theories use the
  effect of these loops: \<open>busy\<close> in \<open>Hd\<close>, and the bytes sent to the keyboard in \<open>Keyboard\<close>, which are those that \<open>set_leds_io\<close> writes.
\<close>

unbundle bit_operations_syntax

abbreviation (input) KB_DATA where "KB_DATA \<equiv> 0x60 :: u16"
abbreviation (input) KB_IN_BUFFER_EMPTY where "KB_IN_BUFFER_EMPTY \<equiv> 0x02 :: u8"
abbreviation (input) KB_ACK where "KB_ACK \<equiv> 0xFA :: u8"

section \<open>Polling\<close>

fun kb_wait :: "u8 list \<Rightarrow> u8 list option" where
  "kb_wait [] = None"
| "kb_wait (kb_read # rs) = (if kb_read AND KB_IN_BUFFER_EMPTY \<noteq> 0 then kb_wait rs else Some rs)"

fun kb_ack :: "u8 list \<Rightarrow> u8 list option" where
  "kb_ack [] = None"
| "kb_ack (kb_read # rs) = (if kb_read \<noteq> KB_ACK then kb_ack rs else Some rs)"

definition set_leds_io :: "kbd \<Rightarrow> u8 list \<Rightarrow> ((u16 \<times> u8) list \<times> u8 list) option" where
  "set_leds_io k rs =
     (let leds = word_of_int (push_bit 2 (caps_lock k) OR push_bit 1 (num_lock k) OR scroll_lock k)
      in Option.bind (kb_wait rs) (\<lambda>r1. Option.bind (kb_ack r1) (\<lambda>r2. Option.bind (kb_wait r2) (\<lambda>r3. Option.bind (kb_ack r3) (\<lambda>r4.
         Some ([(KB_DATA, LED_CODE), (KB_DATA, leds)], r4))))))"

text \<open>The readings of \<^verbatim>\<open>wait_for_status\<close>: the tick counter, and the status register when it is looked at.\<close>

fun wait_for_status :: "int \<Rightarrow> int \<Rightarrow> int \<Rightarrow> int \<Rightarrow> (int \<times> u8) list \<Rightarrow> bool option" where
  "wait_for_status msk val timeout t [] = None"
| "wait_for_status msk val timeout t ((now, st) # rs) =
     (if s32 (s32 (now - t) * 1000) sdiv 100 < timeout
      then (if uint st AND msk = val then Some True else wait_for_status msk val timeout t rs)
      else Some False)"

section \<open>Printing\<close>

fun print_primaries :: "nat \<Rightarrow> part_info list \<Rightarrow> kernel \<Rightarrow> kernel outcome" where
  "print_primaries i [] k = Inr k"
| "print_primaries i (p # ps) k =
     obind (printl_text ''HD:  %sPRIMARY_PART(%d): base %d(0x%x), size %d(0x%x)^n''
       [Str (if i = 0 then c_text '' '' else c_text ''   ''), Num (int i), Num (sint (start_sect p)), Num (sint (start_sect p)), Num (sint (sect_cnt p)), Num (sint (sect_cnt p))] k)
       (print_primaries (i + 1) ps)"

fun print_logicals :: "nat \<Rightarrow> part_info list \<Rightarrow> kernel \<Rightarrow> kernel outcome" where
  "print_logicals i [] k = Inr k"
| "print_logicals i (p # ps) k =
     obind (if sect_cnt p = 0 then Inr k
            else printl_text ''HD:       LOGICAL_PART(%d): base %d(0x%x), size %d(0x%x)^n''
              [Num (int i), Num (sint (start_sect p)), Num (sint (start_sect p)), Num (sint (sect_cnt p)), Num (sint (sect_cnt p))] k)
       (print_logicals (i + 1) ps)"

definition print_partition :: "hdsys \<Rightarrow> hdsys outcome" where
  "print_partition s =
     obind (printl_text ''^nHD:   [Size in sector]:^n'' [] (kern s)) (\<lambda>k1.
     obind (print_primaries 0 (take 5 (primary s)) k1) (\<lambda>k2.
     obind (print_logicals 0 (take 64 (logical s)) k2) (\<lambda>k3. Inr (s\<lparr>kern := k3\<rparr>))))"

text \<open>A string of the identification: the bytes of each word are swapped.\<close>

definition ident_ascii :: "mem \<Rightarrow> u32 \<Rightarrow> nat \<Rightarrow> u8 list" where
  "ident_ascii mm a len = concat (map (\<lambda>j. [mm (a + of_nat (2 * j + 1)), mm (a + of_nat (2 * j))]) [0..<len div 2])"

definition print_identify_info :: "u32 \<Rightarrow> kernel \<Rightarrow> kernel outcome" where
  "print_identify_info hdinfo k =
     (let mm = kmem k; word = \<lambda>i. rd16 mm (hdinfo + of_nat (2 * i));
          sectors = s32 (uint (push_bit 16 (ucast (word 61) :: u32)) + uint (word 60))
      in obind (printl_text ''HD:   %s: %s^n'' [Str (c_text ''HD SN''), Str (ident_ascii mm (hdinfo + 20) 20)] k) (\<lambda>k1.
         obind (printl_text ''HD:   %s: %s^n'' [Str (c_text ''HD Model''), Str (ident_ascii mm (hdinfo + 54) 40)] k1) (\<lambda>k2.
         obind (printl_text ''HD:   LBA supported: %s^n'' [Str (if word 49 AND 0x0200 \<noteq> 0 then c_text ''Yes'' else c_text ''No'')] k2) (\<lambda>k3.
         obind (printl_text ''HD:   LBA48 supported: %s^n'' [Str (if word 83 AND 0x0400 \<noteq> 0 then c_text ''Yes'' else c_text ''No'')] k3) (\<lambda>k4.
           printl_text ''HD:   HD  size: %dMB^n'' [Num (s32 (sectors * 512) sdiv 1000000)] k4)))))"

section \<open>What the loops do\<close>

text \<open>The bytes sent to the keyboard are those the driver theory records, whenever the keyboard answers.\<close>

lemma set_leds_io_outs:
  "set_leds_io k rs = Some (out, rest) \<Longrightarrow> led_outs (set_leds k) = led_outs k @ map snd out"
  by (auto simp: set_leds_io_def set_leds_def Let_def bind_eq_Some_conv)

text \<open>A wait for status bits succeeds exactly when they show before the time is up.\<close>

lemma wait_for_status_True:
  "wait_for_status msk val timeout t rs = Some True \<longleftrightarrow>
     (\<exists>n < length rs. uint (snd (rs ! n)) AND msk = val \<and> (\<forall>j \<le> n. s32 (s32 (fst (rs ! j) - t) * 1000) sdiv 100 < timeout))"
proof (induction rs)
  case (Cons r rs)
  obtain now st where r: "r = (now, st)" by (cases r)
  have ex: "(\<exists>n < length (r # rs). P n) \<longleftrightarrow> P 0 \<or> (\<exists>n < length rs. P (Suc n))" for P by (simp add: Ex_less_Suc2)
  have all: "(\<forall>j \<le> Suc n. Q j) \<longleftrightarrow> Q 0 \<and> (\<forall>j \<le> n. Q (Suc j))" for Q n by (metis Suc_le_mono le0 not0_implies_Suc)
  show ?case unfolding ex all using Cons by (auto simp: r)
qed simp

end
