(* ===== verification/Irq.thy ===== *)
theory Irq
  imports Format Hd
begin

text \<open>
  The interrupt controller, \<^verbatim>\<open>src/device/8259.c\<close>, with \<^verbatim>\<open>init_clock\<close> of \<^verbatim>\<open>src/device/timer.c\<close>, \<^verbatim>\<open>enable_irq\<close> and
  \<^verbatim>\<open>disable_irq\<close> of \<^verbatim>\<open>src/kernel/kliba.asm\<close> and the interrupt part of the start-up of the keyboard and disk
  drivers.

  The state has the two mask registers, the handler table (a handler is its name) and the bytes written to
  the ports in order.
\<close>

unbundle bit_operations_syntax

abbreviation (input) INT_M_CTL where "INT_M_CTL \<equiv> 0x20 :: u16"
abbreviation (input) INT_M_CTLMASK where "INT_M_CTLMASK \<equiv> 0x21 :: u16"
abbreviation (input) INT_S_CTL where "INT_S_CTL \<equiv> 0xA0 :: u16"
abbreviation (input) INT_S_CTLMASK where "INT_S_CTLMASK \<equiv> 0xA1 :: u16"
abbreviation (input) TIMER0 where "TIMER0 \<equiv> 0x40 :: u16"
abbreviation (input) TIMER_MODE where "TIMER_MODE \<equiv> 0x43 :: u16"
abbreviation (input) RATE_GENERATOR where "RATE_GENERATOR \<equiv> 0x34 :: u8"
abbreviation (input) TIMER_FREQ where "TIMER_FREQ \<equiv> 1193182 :: int"
abbreviation (input) HZ where "HZ \<equiv> 100 :: int"
abbreviation (input) INT_VECTOR_IRQ0 where "INT_VECTOR_IRQ0 \<equiv> 0x20 :: u8"
abbreviation (input) INT_VECTOR_IRQ8 where "INT_VECTOR_IRQ8 \<equiv> 0x28 :: u8"
abbreviation (input) NR_IRQ where "NR_IRQ \<equiv> 16 :: nat"
abbreviation (input) IRQ_TIMER where "IRQ_TIMER \<equiv> 0 :: nat"
abbreviation (input) IRQ_KEYBOARD where "IRQ_KEYBOARD \<equiv> 1 :: nat"
abbreviation (input) IRQ_CASCADE where "IRQ_CASCADE \<equiv> 2 :: nat"
abbreviation (input) IRQ_AT_WINI where "IRQ_AT_WINI \<equiv> 14 :: nat"

record pic =
  m_mask :: u8
  s_mask :: u8
  irq_table :: "string list"
  port_writes :: "(u16 \<times> u8) list"

text \<open>A byte written to a port. The mask register of a chip is what the last write to its mask port was, once
  the chip has its four initialisation words.\<close>

definition out_byte :: "u16 \<Rightarrow> u8 \<Rightarrow> pic \<Rightarrow> pic" where
  "out_byte port v s = s\<lparr>port_writes := port_writes s @ [(port, v)],
     m_mask := (if port = INT_M_CTLMASK then v else m_mask s), s_mask := (if port = INT_S_CTLMASK then v else s_mask s)\<rparr>"

text \<open>The bit of a line: \<^verbatim>\<open>rol ah, cl\<close> of 1.\<close>

definition irq_bit :: "nat \<Rightarrow> u8" where
  "irq_bit irq = push_bit (irq mod 8) 1"

definition disable_irq :: "nat \<Rightarrow> pic \<Rightarrow> pic" where
  "disable_irq irq s =
     (if irq < 8 then if m_mask s AND irq_bit irq \<noteq> 0 then s else out_byte INT_M_CTLMASK (m_mask s OR irq_bit irq) s
      else if s_mask s AND irq_bit irq \<noteq> 0 then s else out_byte INT_S_CTLMASK (s_mask s OR irq_bit irq) s)"

definition enable_irq :: "nat \<Rightarrow> pic \<Rightarrow> pic" where
  "enable_irq irq s =
     (if irq < 8 then out_byte INT_M_CTLMASK (m_mask s AND NOT (irq_bit irq)) s
      else out_byte INT_S_CTLMASK (s_mask s AND NOT (irq_bit irq)) s)"

definition set_irq_handler :: "nat \<Rightarrow> string \<Rightarrow> pic \<Rightarrow> pic" where
  "set_irq_handler irq handler s = (let s1 = disable_irq irq s in s1\<lparr>irq_table := (irq_table s1)[irq := handler]\<rparr>)"

definition set_default_irq_handler :: "pic \<Rightarrow> pic" where
  "set_default_irq_handler s = fold (\<lambda>i. set_irq_handler i ''default_irq_handler'') [0..<NR_IRQ] s"

definition init_8259A :: "pic \<Rightarrow> pic" where
  "init_8259A s = set_default_irq_handler (fold (\<lambda>(p, v). out_byte p v)
     [(INT_M_CTL, 0x11), (INT_S_CTL, 0x11), (INT_M_CTLMASK, INT_VECTOR_IRQ0), (INT_S_CTLMASK, INT_VECTOR_IRQ8),
      (INT_M_CTLMASK, 4), (INT_S_CTLMASK, 2), (INT_M_CTLMASK, 1), (INT_S_CTLMASK, 1), (INT_M_CTLMASK, 0xFF), (INT_S_CTLMASK, 0xFF)] s)"

definition init_clock :: "pic \<Rightarrow> pic" where
  "init_clock s =
     (let s1 = out_byte TIMER_MODE RATE_GENERATOR s;
          s2 = out_byte TIMER0 (word_of_int (TIMER_FREQ div HZ)) s1;
          s3 = out_byte TIMER0 (word_of_int (TIMER_FREQ div HZ div 256)) s2
      in enable_irq IRQ_TIMER (set_irq_handler IRQ_TIMER ''clock_handler'' s3))"

text \<open>The interrupt set-up in \<^verbatim>\<open>init_keyboard\<close> and \<^verbatim>\<open>hd_init\<close>.\<close>

definition keyboard_irq :: "pic \<Rightarrow> pic" where
  "keyboard_irq s = enable_irq IRQ_KEYBOARD (set_irq_handler IRQ_KEYBOARD ''keyboard_handler'' s)"

definition hd_irq :: "pic \<Rightarrow> pic" where
  "hd_irq s = enable_irq IRQ_AT_WINI (enable_irq IRQ_CASCADE (set_irq_handler IRQ_AT_WINI ''hd_handler'' s))"

text \<open>The part of \<^verbatim>\<open>main\<close> that sets up interrupts.\<close>

definition main_irqs :: "pic \<Rightarrow> pic" where
  "main_irqs s = keyboard_irq (init_clock (init_8259A s))"

section \<open>The enabled lines\<close>

definition line_enabled :: "pic \<Rightarrow> nat \<Rightarrow> bool" where
  "line_enabled s irq \<longleftrightarrow> \<not> bit (if irq < 8 then m_mask s else s_mask s) (irq mod 8)"

lemma out_byte_simps [simp]:
  "irq_table (out_byte p v s) = irq_table s" "m_mask (out_byte p v s) = (if p = INT_M_CTLMASK then v else m_mask s)"
  "s_mask (out_byte p v s) = (if p = INT_S_CTLMASK then v else s_mask s)"
  by (simp_all add: out_byte_def)

text \<open>Setting a handler switches the line off; enabling a line switches on that line only.\<close>

lemma irq_bit_set: "bit (irq_bit irq) n \<longleftrightarrow> n = irq mod 8"
  using mod_less_divisor [of 8 irq] by (auto simp: irq_bit_def bit_simps simp del: mod_less_divisor)

lemma and_irq_bit: "x AND irq_bit irq \<noteq> 0 \<longleftrightarrow> bit x (irq mod 8)"
  using and_exp_eq_0_iff_not_bit [of x "irq mod 8"] by (simp add: irq_bit_def push_bit_eq_mult)

lemma same_line: "irq < 16 \<Longrightarrow> j < 16 \<Longrightarrow> (irq < 8 \<longleftrightarrow> j < 8) \<Longrightarrow> irq mod 8 = j mod 8 \<longleftrightarrow> irq = (j :: nat)"
  by (auto simp: mod_if split: if_splits)

lemma disable_irq_line:
  assumes "irq < 16" "j < 16"
  shows "line_enabled (disable_irq irq s) j \<longleftrightarrow> j \<noteq> irq \<and> line_enabled s j"
  using same_line [OF assms] and_irq_bit [of "m_mask s" irq] and_irq_bit [of "s_mask s" irq]
  by (auto simp: disable_irq_def line_enabled_def bit_or_iff irq_bit_set)

lemma enable_irq_line:
  assumes "irq < 16" "j < 16"
  shows "line_enabled (enable_irq irq s) j \<longleftrightarrow> j = irq \<or> line_enabled s j"
  using same_line [OF assms] mod_less_divisor [of 8 j]
  by (auto simp: enable_irq_def line_enabled_def bit_and_iff bit_not_iff irq_bit_set)

lemma set_irq_handler_line:
  assumes "irq < 16" "j < 16"
  shows "line_enabled (set_irq_handler irq h s) j \<longleftrightarrow> j \<noteq> irq \<and> line_enabled s j"
  using disable_irq_line [OF assms, of s] by (auto simp: set_irq_handler_def Let_def line_enabled_def)

lemma irq_table_simps [simp]:
  "irq_table (disable_irq irq s) = irq_table s" "irq_table (enable_irq irq s) = irq_table s"
  "irq_table (set_irq_handler irq h s) = (irq_table s)[irq := h]"
  by (simp_all add: disable_irq_def enable_irq_def set_irq_handler_def Let_def)

lemma default_handlers:
  assumes "length (irq_table s) = 16" "n \<le> 16" "\<forall>j < 16. \<not> line_enabled s j"
  shows "irq_table (fold (\<lambda>i. set_irq_handler i ''default_irq_handler'') [0..<n] s) = replicate n ''default_irq_handler'' @ drop n (irq_table s) \<and>
    (\<forall>j < 16. \<not> line_enabled (fold (\<lambda>i. set_irq_handler i ''default_irq_handler'') [0..<n] s) j)"
  using assms(2)
proof (induction n)
  case 0
  then show ?case using assms(3) by simp
next
  case (Suc n)
  have "(replicate n x @ drop n xs)[n := x] = replicate (Suc n) x @ drop (Suc n) xs" if "length xs = 16" for x :: string and xs
    using that Suc.prems by (simp add: list_update_append replicate_append_same [symmetric] Cons_nth_drop_Suc [symmetric])
  then show ?case using Suc assms(1) set_irq_handler_line [of n] by simp
qed

text \<open>C38: The interrupt lines. After \<^verbatim>\<open>main\<close> and the disk driver have set up interrupts, exactly the lines of the
  timer, the keyboard, the cascade and the disk are enabled, and the handler table has the handlers of the timer, the
  keyboard and the disk; every other line has the default handler.\<close>

theorem irq_lines:
  assumes "length (irq_table s) = 16"
  shows "(\<forall>j < 16. line_enabled (hd_irq (main_irqs s)) j \<longleftrightarrow> j \<in> {IRQ_TIMER, IRQ_KEYBOARD, IRQ_CASCADE, IRQ_AT_WINI}) \<and>
    irq_table (hd_irq (main_irqs s)) = (replicate 16 ''default_irq_handler'')
      [IRQ_TIMER := ''clock_handler'', IRQ_KEYBOARD := ''keyboard_handler'', IRQ_AT_WINI := ''hd_handler'']"
proof -
  let ?t = "fold (\<lambda>(p, v). out_byte p v)
     [(INT_M_CTL, 0x11), (INT_S_CTL, 0x11), (INT_M_CTLMASK, INT_VECTOR_IRQ0), (INT_S_CTLMASK, INT_VECTOR_IRQ8),
      (INT_M_CTLMASK, 4), (INT_S_CTLMASK, 2), (INT_M_CTLMASK, 1), (INT_S_CTLMASK, 1), (INT_M_CTLMASK, 0xFF), (INT_S_CTLMASK, 0xFF)] s"
  have all_set: "\<not> line_enabled t j" if "m_mask t = - 1" "s_mask t = - 1" for t j using that by (simp add: line_enabled_def)
  have "m_mask ?t = - 1" "s_mask ?t = - 1" "irq_table ?t = irq_table s" by simp_all
  with all_set [of ?t] assms have "\<forall>j < 16. \<not> line_enabled ?t j" "length (irq_table ?t) = 16" by (blast, simp only:)
  from default_handlers [OF this(2) le_refl this(1)] this(2)
  have pic: "irq_table (init_8259A s) = replicate 16 ''default_irq_handler''" "\<forall>j < 16. \<not> line_enabled (init_8259A s) j"
    unfolding init_8259A_def set_default_irq_handler_def by auto
  have line: "line_enabled (out_byte TIMER0 v t) j = line_enabled t j" "line_enabled (out_byte TIMER_MODE v t) j = line_enabled t j" for v t j
    by (simp_all add: line_enabled_def)
  show ?thesis
    using pic by (auto simp: hd_irq_def main_irqs_def keyboard_irq_def init_clock_def Let_def
        enable_irq_line set_irq_handler_line line)
qed

theorem irq_lines_witness:
  "irq_table (hd_irq (main_irqs \<lparr>m_mask = 0, s_mask = 0, irq_table = replicate 16 [], port_writes = []\<rparr>)) ! 14 = ''hd_handler'' \<and>
   \<not> line_enabled (hd_irq (main_irqs \<lparr>m_mask = 0, s_mask = 0, irq_table = replicate 16 [], port_writes = []\<rparr>)) 6"
  using irq_lines [of "\<lparr>m_mask = 0, s_mask = 0, irq_table = replicate 16 [], port_writes = []\<rparr>"] by simp

end
