(* ===== verification/FsRw.thy ===== *)
theory FsRw
  imports FsData
begin

text \<open>
  Read and write requests on an open file: what they return, what they do to the file, the descriptor and the rest
  of the device, and the round trip write, seek, read.
\<close>

unbundle bit_operations_syntax

section \<open>An open regular file\<close>

text \<open>The caller's entry \<open>fd\<close> is descriptor \<open>d\<close>, open for reading and writing on the regular file in slot \<open>i\<close> of the
  inode cache, whose sectors follow the inode array.\<close>

definition open_on :: "int \<Rightarrow> super_block \<Rightarrow> int \<Rightarrow> nat \<Rightarrow> nat \<Rightarrow> fs \<Rightarrow> bool" where
  "open_on dev sb fd d i s \<longleftrightarrow>
     (let fds = file_desc (proc_at (fkern s) (caller_proc s)); f = file_desc_table s ! d; p = inode_table s ! i
      in disk_ok dev s \<and> get_super_block dev s = Inr sb \<and> layout_ok sb \<and>
         0 \<le> fd \<and> fd < int (length fds) \<and> fds ! nat fd = Some d \<and> d < length (file_desc_table s) \<and>
         fd_mode f AND 2 \<noteq> 0 \<and> fd_inode f = Some i \<and> i < length (inode_table s) \<and>
         inode_dev p = dev \<and> inode_file_type p = 0x8000 \<and> inode_valid sb (inode_nr p) \<and>
         nat (inode_sect sb (inode_nr p)) < unat (inode_sect_start p) \<and>
         unat (inode_sect_start p) + unat (inode_nr_sects p) < SECT_LIMIT \<and>
         unat (inode_file_size p) \<le> 512 * unat (inode_nr_sects p))"

text \<open>The memory of a process that a request names, away from the buffers of the tasks.\<close>

definition user_area :: "int \<Rightarrow> u32 \<Rightarrow> u32 \<Rightarrow> nat \<Rightarrow> fs \<Rightarrow> bool" where
  "user_area pid buf la n s \<longleftrightarrow> proc_va2la (fkern s) pid buf = Inr la \<and> apart la n fsbuf 0x100000 \<and> apart la n (hdbuf (hds s)) 512"

definition file_size :: "nat \<Rightarrow> fs \<Rightarrow> nat" where
  "file_size i s = unat (inode_file_size (inode_table s ! i))"

text \<open>The sector of the inode array that holds the inode of a cached file.\<close>

abbreviation inode_place :: "super_block \<Rightarrow> nat \<Rightarrow> fs \<Rightarrow> nat" where
  "inode_place sb i s \<equiv> nat (inode_sect sb (inode_nr (inode_table s ! i)))"

definition resize :: "nat \<Rightarrow> nat \<Rightarrow> fs \<Rightarrow> fs" where
  "resize i x = upd_inode i (\<lambda>q. q\<lparr>inode_file_size := of_nat x\<rparr>)"

definition request :: "message \<Rightarrow> fs \<Rightarrow> fs" where
  "request m s = s\<lparr>fs_msg := m\<rparr>"

lemma do_read_write_file:
  assumes "open_on dev sb (FD (fs_msg s)) d i s"
  shows "do_read_write s = do_read_write_regular i (BUF (fs_msg s)) (CNT (fs_msg s)) (source (fs_msg s)) d s"
  using assms by (simp add: open_on_def Let_def do_read_write_def)

text \<open>The bytes of a file, and those behind it, are not in the sector of its inode.\<close>

lemma open_on_place:
  assumes "open_on dev sb fd d i s" "512 * unat (inode_sect_start (inode_table s ! i)) \<le> x"
  shows "x div 512 \<noteq> inode_place sb i s"
proof -
  have "inode_place sb i s < unat (inode_sect_start (inode_table s ! i))" using assms(1) by (simp add: open_on_def Let_def)
  moreover have "unat (inode_sect_start (inode_table s ! i)) \<le> x div 512" using assms(2) by (simp add: less_eq_div_iff_mult_less_eq mult.commute)
  ultimately show ?thesis by simp
qed

lemma do_lseek_file:
  assumes "open_on dev sb (FD (fs_msg s)) d i s" "WHENCE (fs_msg s) = 1" "OFFSET (fs_msg s) = int pos" "pos \<le> file_size i s"
  shows "do_lseek s = Inr (int pos, upd_fd d (\<lambda>f. f\<lparr>fd_pos := int pos\<rparr>) s)"
proof -
  have "unat (inode_file_size (inode_table s ! i)) < 2147483648" using assms(1) by (simp add: open_on_def Let_def)
  then have "sint (inode_file_size (inode_table s ! i)) = int (file_size i s)" unfolding file_size_def by (rule sint_u32_unat)
  with assms show ?thesis by (simp add: do_lseek_def open_on_def Let_def caller_fd_def deref_def)
qed

section \<open>What requests keep\<close>

lemma rest_proc: "fs_rest s' = fs_rest s \<Longrightarrow> proc_at (fkern s') = proc_at (fkern s)"
proof -
  assume "fs_rest s' = fs_rest s"
  then have "(fkern s')\<lparr>kmem := (\<lambda>_. 0)\<rparr> = (fkern s)\<lparr>kmem := (\<lambda>_. 0)\<rparr>" by (simp add: fs_rest_def)
  then show ?thesis by (metis proc_at_kmem)
qed

lemma rest_parts:
  assumes "fs_rest s' = fs_rest s"
  shows "caller_proc s' = caller_proc s" "fs_msg s' = fs_msg s" "hdbuf (hds s') = hdbuf (hds s)"
    "file_desc_table s' = file_desc_table s" "inode_table s' = inode_table s"
  using assms by (simp_all add: fs_rest_def)

lemma open_on_rest:
  assumes "open_on dev sb fd d i s" "fs_rest s' = fs_rest s" "disk_ok dev s'"
  shows "open_on dev sb fd d i s'"
  using assms(1, 3) rest_parts [OF assms(2)] rest_proc [OF assms(2)] get_super_block_rest [OF assms(2)]
  by (simp add: open_on_def Let_def)

lemma user_area_rest: "fs_rest s' = fs_rest s \<Longrightarrow> user_area pid buf la n s' = user_area pid buf la n s"
  using rest_va2la [of s' s] rest_parts(3) [of s' s] by (simp add: user_area_def)

lemma open_on_moved:
  assumes "open_on dev sb fd d i s" "x \<le> 512 * unat (inode_nr_sects (inode_table s ! i))"
  shows "open_on dev sb fd d i (resize i x (upd_fd d (\<lambda>f. f\<lparr>fd_pos := g f\<rparr>) s))"
proof -
  have "unat (of_nat x :: u32) = x" using assms by (intro unat_of_nat_u32) (simp add: open_on_def Let_def)
  with assms show ?thesis
    by (simp add: open_on_def Let_def resize_def upd_inode_def upd_fd_def get_super_block_def disk_ok_def cong: option.case_cong)
qed

lemma request_simps [simp]:
  "fs_msg (request m s) = m" "hds (request m s) = hds s" "file_desc_table (request m s) = file_desc_table s"
  "inode_table (request m s) = inode_table s" "caller_proc (request m s) = caller_proc s"
  "get_super_block dev (request m s) = get_super_block dev s" "disk_ok dev (request m s) = disk_ok dev s"
  "sector dev (request m s) = sector dev s" "file_size i (request m s) = file_size i s"
  by (simp_all add: request_def get_super_block_def disk_ok_def sector_def dev_start_def file_size_def fun_eq_iff cong: option.case_cong)

lemma open_on_keeps [simp]:
  "open_on dev sb fd d i (request m s) = open_on dev sb fd d i s"
  "open_on dev sb fd d i (upd_fd d (\<lambda>f. f\<lparr>fd_pos := x\<rparr>) s) = open_on dev sb fd d i s"
  "user_area pid buf la n (request m s) = user_area pid buf la n s"
  "user_area pid buf la n (upd_fd d g s) = user_area pid buf la n s"
  "user_area pid buf la n (upd_inode i h s) = user_area pid buf la n s"
  by (auto simp: open_on_def user_area_def Let_def) (auto simp: upd_fd_def get_super_block_def upd_inode_def cong: option.case_cong)

section \<open>The size of the file after a transfer\<close>

lemma finish_transfer:
  assumes "open_on dev sb fd d i s" "fd_pos (file_desc_table s ! d) = int pos" "pos + b < 2147483648"
    and "disk_ok dev s1" "fs_rest s1 = fs_rest (moved d b s)"
  shows "\<exists>s2. (let fpos = fd_pos (file_desc_table s1 ! d)
      in if word_of_int fpos > inode_file_size (inode_table s1 ! i)
         then obind (write_inode i (upd_inode i (\<lambda>q. q\<lparr>inode_file_size := word_of_int fpos\<rparr>) s1)) (\<lambda>s2. Inr (r, s2))
         else Inr (r, s1)) = Inr (r :: int, s2) \<and> disk_ok dev s2 \<and>
    fs_rest s2 = fs_rest (resize i (max (file_size i s) (pos + b)) (moved d b s)) \<and>
    (\<forall>k. k \<noteq> inode_place sb i s \<longrightarrow> sector dev s2 k = sector dev s1 k) \<and> (pos + b \<le> file_size i s \<longrightarrow> s2 = s1)"
proof -
  have o: "d < length (file_desc_table s)" "i < length (inode_table s)" "get_super_block dev s = Inr sb" "layout_ok sb"
    "inode_dev (inode_table s ! i) = dev" "inode_valid sb (inode_nr (inode_table s ! i))"
    using assms(1) by (simp_all add: open_on_def Let_def)
  have tab: "inode_table s1 = inode_table s" using rest_parts(5) [OF assms(5)] by (simp add: moved_def upd_fd_def)
  have pos: "fd_pos (file_desc_table s1 ! d) = int (pos + b)"
    using rest_parts(4) [OF assms(5)] o(1) assms(2) by (simp add: moved_def upd_fd_def)
  have u: "unat (of_nat (pos + b) :: u32) = pos + b" using assms(3) by (intro unat_of_nat_u32) simp
  have gt: "of_nat (pos + b) > inode_file_size (inode_table s ! i) \<longleftrightarrow> file_size i s < pos + b"
    using u by (simp only: word_less_nat_alt file_size_def)
  show ?thesis
  proof (cases "file_size i s < pos + b")
    case False
    then have mx: "max (file_size i s) (pos + b) = file_size i s" by simp
    have "resize i (file_size i s) t = t" if "inode_table t = inode_table s" for t
      using that by (simp add: resize_def upd_inode_def file_size_def)
    then have "fs_rest s1 = fs_rest (resize i (max (file_size i s) (pos + b)) (moved d b s))"
      unfolding mx using assms(5) by (simp add: moved_def upd_fd_def)
    then show ?thesis using False assms(4) gt
      by (intro exI [of _ s1]) (simp only: pos tab Let_def of_int_of_nat_eq if_False simp_thms)
  next
    case True
    let ?s = "upd_inode i (\<lambda>q. q\<lparr>inode_file_size := of_nat (pos + b)\<rparr>) s1"
    have sb: "get_super_block dev ?s = Inr sb"
      using get_super_block_rest [OF assms(5)] o(3) by (simp add: moved_def upd_fd_def get_super_block_def cong: option.case_cong)
    have ino: "inode_table ?s ! i = (inode_table s ! i)\<lparr>inode_file_size := of_nat (pos + b)\<rparr>" using o(2) tab by (simp add: upd_inode_def)
    have ok: "disk_ok dev ?s" using assms(4) by simp
    obtain s2 where s2: "write_inode i ?s = Inr s2" "disk_ok dev s2" "fs_rest s2 = fs_rest ?s"
      "\<forall>k. k \<noteq> nat (inode_sect sb (inode_nr (inode_table s ! i))) \<longrightarrow> sector dev s2 k = sector dev ?s k"
      using write_inode_disk [OF ok sb o(4) ino [symmetric]] o(5, 6) by auto
    have "fs_rest ?s = fs_rest (resize i (max (file_size i s) (pos + b)) (moved d b s))"
      using True assms(5) by (simp add: resize_def upd_inode_def fs_rest_def max_def)
    moreover have "sector dev s2 k = sector dev s1 k" if "k \<noteq> inode_place sb i s" for k
      using s2(4) that by simp
    ultimately show ?thesis using True gt s2(1-3)
      by (intro exI [of _ s2]) (simp add: pos tab del: of_nat_add)
  qed
qed

section \<open>The requests\<close>

abbreviation space :: "nat \<Rightarrow> fs \<Rightarrow> nat" where
  "space i s \<equiv> 512 * unat (inode_nr_sects (inode_table s ! i))"

lemma span_le: "n \<le> 130048 \<Longrightarrow> e \<le> n \<Longrightarrow> span pos e \<le> 256"
  unfolding span_def by linarith

lemma span_all: "n \<le> 512 * span pos n - pos mod 512"
  using span_bytes [of pos n] by linarith

lemma rw_ready_file:
  assumes "open_on dev sb fd d i s" "fd_pos (file_desc_table s ! d) = int pos" "user_area pid buf la b s"
    and "pos + e \<le> space i s" "e \<le> n" "n \<le> 130048"
  shows "rw_ready dev i d buf la pid pos e b s"
proof -
  have "(pos + e) div 512 \<le> unat (inode_nr_sects (inode_table s ! i))" using assms(4) by linarith
  with assms span_le [OF assms(6, 5)] show ?thesis by (simp add: rw_ready_def open_on_def Let_def user_area_def)
qed

text \<open>How much a transfer moves when the end position is cut at \<open>lim\<close>: everything up to the end of the sector that holds
  the end position.\<close>

definition rw_count :: "nat \<Rightarrow> nat \<Rightarrow> nat \<Rightarrow> nat" where
  "rw_count n pos lim = min n (512 * span pos (min (pos + n) lim - pos) - pos mod 512)"

lemma rw_count_all: "pos + n \<le> lim \<Longrightarrow> rw_count n pos lim = n"
  using span_all [of n pos] by (simp add: rw_count_def)

lemma rw_count_past:
  assumes "pos \<le> lim" "lim < pos + n"
  shows "pos + rw_count n pos lim = min (pos + n) (512 * (lim div 512 + 1))" "lim < pos + rw_count n pos lim"
proof -
  have arith: "p + (512 * (q - a + 1) - c) = 512 * (q + 1)" if "p = 512 * a + c" "c < 512" "a \<le> q" for p a c q :: nat
    using that by (simp add: diff_mult_distrib2)
  have "pos + (512 * span pos (min (pos + n) lim - pos) - pos mod 512) = 512 * (lim div 512 + 1)"
    using arith [of pos "pos div 512" "pos mod 512" "lim div 512"] assms by (simp only: span_def div_le_mono le_add_diff_inverse min_absorb2 less_imp_le mult_div_mod_eq mod_less_divisor)
  then show eq: "pos + rw_count n pos lim = min (pos + n) (512 * (lim div 512 + 1))" by (simp add: rw_count_def min_def)
  have "lim < 512 * (lim div 512 + 1)" using dividend_less_times_div [of 512 lim] by simp
  with assms(2) show "lim < pos + rw_count n pos lim" unfolding eq by simp
qed

lemma write_request_any:
  assumes "open_on dev sb (FD (fs_msg s)) d i s" "fd_pos (file_desc_table s ! d) = int pos" "type (fs_msg s) = FS_WRITE"
    and "CNT (fs_msg s) = int n" "b = rw_count n pos (space i s)" "user_area (source (fs_msg s)) (BUF (fs_msg s)) la b s"
    and "pos \<le> space i s" "n \<le> 130048" "pos + n < 2147483648"
  shows "\<exists>s'. do_read_write s = Inr (int b, s') \<and> disk_ok dev s' \<and>
    fs_rest s' = fs_rest (resize i (max (file_size i s) (pos + b)) (moved d b s)) \<and>
    (\<forall>x. x div 512 \<noteq> inode_place sb i s \<longrightarrow> dev_byte dev s' x = (if first_byte i s + pos \<le> x \<and> x < first_byte i s + pos + b
      then fmem s (la + of_nat (x - (first_byte i s + pos))) else dev_byte dev s x))"
proof -
  let ?e = "min (pos + n) (space i s) - pos"
  have sp: "unat (inode_sect_start (inode_table s ! i)) + unat (inode_nr_sects (inode_table s ! i)) < SECT_LIMIT"
    using assms(1) by (simp add: open_on_def Let_def)
  then have lim: "unat (rw_limit i s) = space i s"
    using assms(3) by (simp add: rw_limit_def unat_word_ariths)
  have bn: "b \<le> n" by (simp add: assms(5) rw_count_def)
  have lt: "pos + n < 2147483648" "unat (rw_limit i s) < 2147483648" "pos + b < 2147483648" using assms(9) sp lim bn by linarith+
  have e: "pos + ?e = min (pos + n) (space i s)" "?e \<le> n" "pos + ?e \<le> space i s" using assms(7) by linarith+
  have rdy: "rw_ready dev i d (BUF (fs_msg s)) la (source (fs_msg s)) pos ?e b s"
    by (rule rw_ready_file [OF assms(1, 2, 6) e(3, 2) assms(8)])
  have b: "b = min n (512 * span pos ?e - pos mod 512)" using assms(5) by (simp only: rw_count_def)
  obtain s1 where s1: "rw_loop d dev (BUF (fs_msg s)) (source (fs_msg s)) (int (span pos ?e))
      (int (unat (inode_sect_start (inode_table s ! i)) + pos div 512) + int (span pos ?e) - 1)
      (int (unat (inode_sect_start (inode_table s ! i)) + pos div 512)) (int (pos mod 512)) 0 (int n) s = Inr (int b, s1)"
    "\<forall>x. dev_byte dev s1 x = (if first_byte i s + pos \<le> x \<and> x < first_byte i s + pos + b
      then fmem s (la + of_nat (x - (first_byte i s + pos))) else dev_byte dev s x)" "disk_ok dev s1" "fs_rest s1 = fs_rest (moved d b s)"
    using write_transfer [OF rdy b assms(3)] by blast
  obtain s2 where s2: "(let fpos = fd_pos (file_desc_table s1 ! d)
      in if word_of_int fpos > inode_file_size (inode_table s1 ! i)
         then obind (write_inode i (upd_inode i (\<lambda>q. q\<lparr>inode_file_size := word_of_int fpos\<rparr>) s1)) (\<lambda>s2. Inr (int b, s2))
         else Inr (int b, s1)) = Inr (int b, s2)" "disk_ok dev s2"
    "fs_rest s2 = fs_rest (resize i (max (file_size i s) (pos + b)) (moved d b s))"
    "\<forall>k. k \<noteq> inode_place sb i s \<longrightarrow> sector dev s2 k = sector dev s1 k"
    using finish_transfer [OF assms(1, 2) lt(3) s1(3, 4), of "int b"] by blast
  have "do_read_write s = Inr (int b, s2)"
    unfolding do_read_write_file [OF assms(1)] assms(4)
      rw_regular [OF rdy b disjI2 [OF assms(3)] lt(1, 2), unfolded lim, OF e(1)] s1(1) obind_simps(1) prod.case
    by (rule s2(1))
  moreover have "dev_byte dev s2 x = dev_byte dev s1 x" if "x div 512 \<noteq> inode_place sb i s" for x
    using s2(4) that by (simp add: dev_byte_def)
  ultimately show ?thesis using s1(2) s2(2, 3) by (intro exI [of _ s2]) simp
qed

lemma write_request:
  assumes "open_on dev sb (FD (fs_msg s)) d i s" "fd_pos (file_desc_table s ! d) = int pos" "type (fs_msg s) = FS_WRITE"
    and "CNT (fs_msg s) = int n" "user_area (source (fs_msg s)) (BUF (fs_msg s)) la n s" "pos + n \<le> space i s" "n \<le> 130048"
  shows "\<exists>s'. do_read_write s = Inr (int n, s') \<and> disk_ok dev s' \<and>
    fs_rest s' = fs_rest (resize i (max (file_size i s) (pos + n)) (moved d n s)) \<and>
    (\<forall>x. x div 512 \<noteq> inode_place sb i s \<longrightarrow> dev_byte dev s' x = (if first_byte i s + pos \<le> x \<and> x < first_byte i s + pos + n
      then fmem s (la + of_nat (x - (first_byte i s + pos))) else dev_byte dev s x))"
  using write_request_any [OF assms(1-4) rw_count_all [OF assms(6), symmetric] assms(5)] assms(1, 6, 7) by (simp add: open_on_def Let_def)

lemma read_request:
  assumes "open_on dev sb (FD (fs_msg s)) d i s" "fd_pos (file_desc_table s ! d) = int pos" "type (fs_msg s) = FS_READ"
    and "CNT (fs_msg s) = int n" "b = rw_count n pos (file_size i s)" "user_area (source (fs_msg s)) (BUF (fs_msg s)) la b s"
    and "pos \<le> file_size i s" "n \<le> 130048" "pos + n < 2147483648"
  shows "\<exists>s1 s'. do_read_write s = Inr (int b, s') \<and> disk_ok dev s' \<and>
    fs_rest s' = fs_rest (resize i (max (file_size i s) (pos + b)) (moved d b s)) \<and>
    (\<forall>x. x div 512 \<noteq> inode_place sb i s \<longrightarrow> dev_byte dev s' x = dev_byte dev s x) \<and>
    read_bytes (fmem s1) la b = map (\<lambda>j. dev_byte dev s (first_byte i s + pos + j)) [0..<b] \<and>
    sector dev s1 = sector dev s \<and> (pos + b \<le> file_size i s \<longrightarrow> s' = s1)"
proof -
  let ?e = "min (pos + n) (file_size i s) - pos"
  have sp: "unat (inode_sect_start (inode_table s ! i)) + unat (inode_nr_sects (inode_table s ! i)) < SECT_LIMIT" "file_size i s \<le> space i s"
    using assms(1) by (simp_all add: open_on_def Let_def file_size_def)
  have e: "pos + ?e = min (pos + n) (file_size i s)" "?e \<le> n" "pos + ?e \<le> space i s" using assms(7) sp(2) by linarith+
  have lim: "unat (rw_limit i s) = file_size i s" using assms(3) by (simp add: rw_limit_def file_size_def)
  have lt: "pos + n < 2147483648" "unat (rw_limit i s) < 2147483648" using assms(9) sp lim by linarith+
  have rdy: "rw_ready dev i d (BUF (fs_msg s)) la (source (fs_msg s)) pos ?e b s"
    using rw_ready_file [OF assms(1, 2, 6) e(3, 2) assms(8)] .
  have b: "b = min n (512 * span pos ?e - pos mod 512)" using assms(5) by (simp only: rw_count_def)
  then have "pos + b < 2147483648" using lt(1) by linarith
  obtain s1 where s1: "rw_loop d dev (BUF (fs_msg s)) (source (fs_msg s)) (int (span pos ?e))
      (int (unat (inode_sect_start (inode_table s ! i)) + pos div 512) + int (span pos ?e) - 1)
      (int (unat (inode_sect_start (inode_table s ! i)) + pos div 512)) (int (pos mod 512)) 0 (int n) s = Inr (int b, s1)"
    "read_bytes (fmem s1) la b = map (\<lambda>j. dev_byte dev s (first_byte i s + pos + j)) [0..<b]"
    "disk_ok dev s1" "sector dev s1 = sector dev s" "fs_rest s1 = fs_rest (moved d b s)"
    using read_transfer [OF rdy b assms(3)] by blast
  obtain s2 where s2: "(let fpos = fd_pos (file_desc_table s1 ! d)
      in if word_of_int fpos > inode_file_size (inode_table s1 ! i)
         then obind (write_inode i (upd_inode i (\<lambda>q. q\<lparr>inode_file_size := word_of_int fpos\<rparr>) s1)) (\<lambda>s2. Inr (int b, s2))
         else Inr (int b, s1)) = Inr (int b, s2)" "disk_ok dev s2"
    "fs_rest s2 = fs_rest (resize i (max (file_size i s) (pos + b)) (moved d b s))"
    "\<forall>k. k \<noteq> inode_place sb i s \<longrightarrow> sector dev s2 k = sector dev s1 k" "pos + b \<le> file_size i s \<longrightarrow> s2 = s1"
    using finish_transfer [OF assms(1, 2) \<open>pos + b < 2147483648\<close> s1(3, 5), of "int b"] by blast
  have "do_read_write s = Inr (int b, s2)"
    unfolding do_read_write_file [OF assms(1)] assms(4)
      rw_regular [OF rdy b disjI1 [OF assms(3)] lt, unfolded lim, OF e(1)] s1(1) obind_simps(1) prod.case
    by (rule s2(1))
  moreover have "dev_byte dev s2 x = dev_byte dev s x" if "x div 512 \<noteq> inode_place sb i s" for x
    using s2(4) s1(4) that by (simp add: dev_byte_def)
  ultimately show ?thesis using s1(2, 4) s2(2, 3, 5) by (intro exI [of _ s1] exI [of _ s2]) simp
qed

lemma resized_size:
  assumes "fs_rest s' = fs_rest (resize i x (moved d b s))" "i < length (inode_table s)" "d < length (file_desc_table s)" "x < 4294967296"
  shows "file_size i s' = x" "fd_pos (file_desc_table s' ! d) = fd_pos (file_desc_table s ! d) + int b"
  using rest_parts [OF assms(1)] assms(2-4) unat_of_nat_u32 [OF assms(4)]
  by (simp_all add: file_size_def resize_def moved_def upd_inode_def upd_fd_def)

section \<open>Round trip\<close>

text \<open>C27: A process that writes to an open file, seeks back and reads gets back what it wrote. Each of the three
  requests succeeds and reports the full count or position; the file grows to the end of the written part if it was
  shorter, and outside of the written part and the sector of the file's inode no byte of the device is changed.\<close>

theorem file_write_read_back:
  assumes "open_on dev sb fd d i s" and "fd_pos (file_desc_table s ! d) = int pos" and "pos + n \<le> space i s" and "n \<le> 130048"
    and "type w = FS_WRITE" and "FD w = fd" and "CNT w = int n" and "user_area (source w) (BUF w) la n s"
    and "FD k = fd" and "WHENCE k = 1" and "OFFSET k = int pos"
    and "type r = FS_READ" and "FD r = fd" and "CNT r = int n" and "user_area (source r) (BUF r) la' n s"
  shows "\<exists>s1 s2 s3. do_read_write (request w s) = Inr (int n, s1) \<and> do_lseek (request k s1) = Inr (int pos, s2) \<and>
    do_read_write (request r s2) = Inr (int n, s3) \<and> read_bytes (fmem s3) la' n = read_bytes (fmem s) la n \<and>
    file_size i s3 = max (file_size i s) (pos + n) \<and> fd_pos (file_desc_table s3 ! d) = int (pos + n) \<and>
    (\<forall>x. x div 512 \<noteq> inode_place sb i s \<and> (x < first_byte i s + pos \<or> first_byte i s + pos + n \<le> x) \<longrightarrow> dev_byte dev s3 x = dev_byte dev s x)"
proof -
  let ?x = "max (file_size i s) (pos + n)" and ?F = "first_byte i s"
  have o: "i < length (inode_table s)" "d < length (file_desc_table s)" "file_size i s \<le> space i s" "space i s < 2147483648"
    using assms(1) by (simp_all add: open_on_def Let_def file_size_def)
  then have x: "?x \<le> space i s" "?x < 4294967296" using assms(3) by linarith+
  obtain s1 where s1: "do_read_write (request w s) = Inr (int n, s1)" "disk_ok dev s1" "fs_rest s1 = fs_rest (resize i ?x (moved d n (request w s)))"
    "\<forall>x. x div 512 \<noteq> inode_place sb i s \<longrightarrow> dev_byte dev s1 x = (if ?F + pos \<le> x \<and> x < ?F + pos + n then fmem s (la + of_nat (x - (?F + pos))) else dev_byte dev s x)"
    using write_request [of dev sb "request w s" d i pos n la] assms(1-8) by (auto simp: dev_byte_def)
  have t1: "file_size i s1 = ?x" "length (inode_table s1) = length (inode_table s)" "length (file_desc_table s1) = length (file_desc_table s)"
    "first_byte i s1 = ?F" "inode_nr (inode_table s1 ! i) = inode_nr (inode_table s ! i)"
    using resized_size [OF s1(3)] rest_parts [OF s1(3)] o x by (simp_all add: resize_def moved_def upd_inode_def upd_fd_def)
  have op1: "open_on dev sb fd d i s1"
    using open_on_rest [OF _ s1(3, 2)] open_on_moved [of dev sb fd d i "request w s" ?x] assms(1) x(1) by (simp add: moved_def)
  have area: "user_area (source r) (BUF r) la' n s1" using user_area_rest [OF s1(3)] assms(15) by (simp add: resize_def moved_def)
  let ?s2 = "upd_fd d (\<lambda>f. f\<lparr>fd_pos := int pos\<rparr>) (request k s1)"
  have seek: "do_lseek (request k s1) = Inr (int pos, ?s2)"
    using do_lseek_file [of dev sb "request k s1" d i pos] op1 assms(9-11) t1(1) by simp
  have t2: "file_size i ?s2 = ?x" "first_byte i ?s2 = ?F" "sector dev ?s2 = sector dev s1" "i < length (inode_table ?s2)" "d < length (file_desc_table ?s2)"
    "fd_pos (file_desc_table ?s2 ! d) = int pos" "inode_table ?s2 = inode_table s1"
    using t1 o by (simp_all add: file_size_def) (simp_all add: upd_fd_def request_def file_size_def)
  have "\<exists>s' s3. do_read_write (request r ?s2) = Inr (int n, s3) \<and> disk_ok dev s3 \<and>
    fs_rest s3 = fs_rest (resize i (max ?x (pos + n)) (moved d n (request r ?s2))) \<and>
    (\<forall>x. x div 512 \<noteq> inode_place sb i s \<longrightarrow> dev_byte dev s3 x = dev_byte dev s1 x) \<and>
    read_bytes (fmem s') la' n = map (\<lambda>j. dev_byte dev s1 (?F + pos + j)) [0..<n] \<and> sector dev s' = sector dev s1 \<and> (pos + n \<le> ?x \<longrightarrow> s3 = s')"
    using read_request [of dev sb "request r ?s2" d i pos n n la'] op1 area assms(3, 4, 12-14) t1(5) t2 o x
    by (simp add: rw_count_all dev_byte_cong [OF t2(3)] dev_byte_cong [of dev "request r ?s2" ?s2])
  then obtain s3 where s3: "do_read_write (request r ?s2) = Inr (int n, s3)" "fs_rest s3 = fs_rest (resize i ?x (moved d n (request r ?s2)))"
    "\<forall>x. x div 512 \<noteq> inode_place sb i s \<longrightarrow> dev_byte dev s3 x = dev_byte dev s1 x"
    "read_bytes (fmem s3) la' n = map (\<lambda>j. dev_byte dev s1 (?F + pos + j)) [0..<n]" by auto
  have "read_bytes (fmem s3) la' n = read_bytes (fmem s) la n"
    using s1(4) open_on_place [OF assms(1)] by (subst s3(4)) (simp add: read_bytes_def)
  then show ?thesis using s1(1, 4) seek s3(1, 3) resized_size [OF s3(2)] t2 x by auto
qed

text \<open>The open file of the sample file system, with memory that holds the low byte of each address.\<close>

definition filled_fs :: fs where
  "filled_fs = upd_fmem (\<lambda>_ a. ucast a) sample_fs"

lemma filled_open: "open_on ROOT_DEV_NR sample_sb 0 0 1 filled_fs"
proof -
  have "open_on ROOT_DEV_NR sample_sb 0 0 1 sample_fs"
    using sample_disk_ok sample_get_super_block inode_sect_eq [of sample_sb 2]
    by (simp add: open_on_def Let_def sample_proc layout_ok_def inode_valid_def)
      (simp add: sample_fs_def sample_file_def sample_sb_def zero_proc_def)
  then show ?thesis unfolding filled_fs_def
    using disk.upd_spec [OF sample_disk_ok] by (auto intro: open_on_rest)
qed

lemma filled_area: "pid = 5 \<Longrightarrow> n \<le> 4096 \<Longrightarrow> a = 0x900000 \<or> a = 0x901000 \<Longrightarrow> user_area pid a a n filled_fs"
  using user_area_rest [of filled_fs sample_fs] disk.upd_spec [OF sample_disk_ok, of "\<lambda>_ a. ucast a"] sample_fs_va2la [of 5 a]
  by (auto simp: filled_fs_def user_area_def apart_def) (simp_all add: sample_fs_def sample_hd_def unat_u32_uminus)

lemma filled_fields: "fd_pos (file_desc_table filled_fs ! 0) = 0" "file_size 1 filled_fs = 10" "space 1 filled_fs = 1024"
  "fmem filled_fs = ucast"
  by (simp_all add: filled_fs_def upd_fmem_def file_size_def fun_eq_iff) (simp_all add: sample_fs_def sample_file_def upd_mem_def)

theorem file_write_read_back_witness:
  "\<exists>s1 s2 s3. do_read_write (request (zero_msg\<lparr>type := FS_WRITE, source := 5, CNT := 12, BUF := 0x900000\<rparr>) filled_fs) = Inr (12, s1) \<and>
     do_lseek (request (zero_msg\<lparr>WHENCE := 1\<rparr>) s1) = Inr (0, s2) \<and>
     do_read_write (request (zero_msg\<lparr>type := FS_READ, source := 5, CNT := 12, BUF := 0x901000\<rparr>) s2) = Inr (12, s3) \<and>
     read_bytes (fmem s3) 0x901000 12 = [0, 1, 2, 3, 4, 5, 6, 7, 8, 9, 10, 11] \<and> file_size 1 s3 = 12"
proof -
  have "read_bytes ucast 0x900000 12 = [0, 1, 2, 3, 4, 5, 6, 7, 8, 9, 10, 11]" by code_simp
  then show ?thesis
    using file_write_read_back [OF filled_open, of 0 12 "zero_msg\<lparr>type := FS_WRITE, source := 5, CNT := 12, BUF := 0x900000\<rparr>" "0x900000"
        "zero_msg\<lparr>WHENCE := 1\<rparr>" "zero_msg\<lparr>type := FS_READ, source := 5, CNT := 12, BUF := 0x901000\<rparr>" "0x901000"]
      filled_area [of 5 12] filled_fields by (auto simp: zero_msg_def)
qed

text \<open>C30: A read that asks for bytes after the end of a file gets them. It returns everything asked for up to the end
  of the sector that holds the end of the file, always more than was left, also at the end of the file; and the
  file then has the new position as its size.\<close>

theorem read_past_end_grows_file:
  assumes "open_on dev sb (FD m) d i s" and "fd_pos (file_desc_table s ! d) = int pos" and "type m = FS_READ" and "CNT m = int n"
    and "pos \<le> file_size i s" and "file_size i s < pos + n" and "n \<le> 130048" and "pos + n < 2147483648"
    and "user_area (source m) (BUF m) la n s"
  shows "\<exists>b s'. do_read_write (request m s) = Inr (int b, s') \<and> pos + b = min (pos + n) (512 * (file_size i s div 512 + 1)) \<and>
    file_size i s - pos < b \<and> file_size i s' = pos + b \<and> fd_pos (file_desc_table s' ! d) = int (pos + b)"
proof -
  let ?b = "rw_count n pos (file_size i s)"
  have le: "?b \<le> n" by (simp add: rw_count_def)
  then have area: "user_area (source m) (BUF m) la ?b s" using assms(9) by (auto simp: user_area_def apart_def)
  have o: "i < length (inode_table s)" "d < length (file_desc_table s)" using assms(1) by (simp_all add: open_on_def Let_def)
  note past = rw_count_past [OF assms(5, 6)]
  then have "max (file_size i s) (pos + ?b) = pos + ?b" by simp
  then obtain s' where s': "do_read_write (request m s) = Inr (int ?b, s')" "fs_rest s' = fs_rest (resize i (pos + ?b) (moved d ?b (request m s)))"
    using read_request [of dev sb "request m s" d i pos n ?b la] assms(1-5, 7, 8) area by auto
  have "pos + ?b < 4294967296" using le assms(8) by linarith
  with resized_size [OF s'(2)] o assms(2) have "file_size i s' = pos + ?b" "fd_pos (file_desc_table s' ! d) = int (pos + ?b)" by simp_all
  moreover have "file_size i s - pos < ?b" using past(2) assms(5) by linarith
  ultimately show ?thesis using s'(1) past(1) by (intro exI [of _ ?b] exI [of _ s']) simp
qed

theorem read_past_end_grows_file_witness:
  "\<exists>s'. do_read_write (request (zero_msg\<lparr>type := FS_READ, source := 5, CNT := 20, BUF := 0x901000\<rparr>) filled_fs) = Inr (20, s') \<and>
     file_size 1 filled_fs = 10 \<and> file_size 1 s' = 20"
  using read_past_end_grows_file [of ROOT_DEV_NR sample_sb "zero_msg\<lparr>type := FS_READ, source := 5, CNT := 20, BUF := 0x901000\<rparr>" 0 1 filled_fs 0 20 "0x901000"]
    filled_open filled_area [of 5 20] filled_fields by (auto simp: zero_msg_def)

text \<open>C28: A write that asks for more than a file has room for overwrites what follows it on the disk. The end position is cut
  at the end of the file's sectors, but the bytes are counted up to the end of the sector that holds the end position,
  which is the first one behind the file: up to 512 bytes of the next file are replaced, and the file has the new position as its size.\<close>

theorem write_past_space_overruns:
  assumes "open_on dev sb (FD m) d i s" and "fd_pos (file_desc_table s ! d) = int pos" and "type m = FS_WRITE" and "CNT m = int n"
    and "pos \<le> space i s" and "space i s < pos + n" and "n \<le> 130048" and "pos + n < 2147483648" and "user_area (source m) (BUF m) la n s"
  shows "\<exists>b s'. do_read_write (request m s) = Inr (int b, s') \<and> pos + b = min (pos + n) (space i s + 512) \<and> file_size i s' = pos + b \<and>
    (\<forall>x. first_byte i s + space i s \<le> x \<and> x < first_byte i s + pos + b \<longrightarrow>
      dev_byte dev s' x = fmem s (la + of_nat (x - (first_byte i s + pos))))"
proof -
  let ?b = "rw_count n pos (space i s)"
  note past = rw_count_past [OF assms(5, 6)]
  have o: "i < length (inode_table s)" "d < length (file_desc_table s)" "file_size i s \<le> space i s" "space i s < 2147483648"
    using assms(1) by (simp_all add: open_on_def Let_def file_size_def)
  have le: "?b \<le> n" by (simp add: rw_count_def)
  then have area: "user_area (source m) (BUF m) la ?b s" using assms(9) by (auto simp: user_area_def apart_def)
  have "max (file_size i s) (pos + ?b) = pos + ?b" using past(2) o(3) by simp
  then obtain s' where s': "do_read_write (request m s) = Inr (int ?b, s')" "fs_rest s' = fs_rest (resize i (pos + ?b) (moved d ?b (request m s)))"
    "\<forall>x. x div 512 \<noteq> inode_place sb i s \<longrightarrow> dev_byte dev s' x = (if first_byte i s + pos \<le> x \<and> x < first_byte i s + pos + ?b
      then fmem s (la + of_nat (x - (first_byte i s + pos))) else dev_byte dev s x)"
    using write_request_any [of dev sb "request m s" d i pos n ?b la] assms(1-5, 7, 8) area by (auto simp: dev_byte_def)
  have "pos + ?b < 4294967296" using le assms(5, 7) o(4) by linarith
  with resized_size [OF s'(2)] o have "file_size i s' = pos + ?b" by simp
  moreover have "pos + ?b = min (pos + n) (space i s + 512)" using past(1) by (simp add: algebra_simps)
  moreover have "dev_byte dev s' x = fmem s (la + of_nat (x - (first_byte i s + pos)))"
    if "first_byte i s + space i s \<le> x" "x < first_byte i s + pos + ?b" for x
    using s'(3) open_on_place [OF assms(1), of x] that assms(5) by simp
  ultimately show ?thesis using s'(1) by (intro exI [of _ ?b] exI [of _ s']) blast
qed

theorem write_past_space_overruns_witness:
  "\<exists>s'. do_read_write (request (zero_msg\<lparr>type := FS_WRITE, source := 5, CNT := 1025, BUF := 0x900000\<rparr>) filled_fs) = Inr (1025, s') \<and>
     space 1 filled_fs = 1024 \<and> file_size 1 s' = 1025 \<and> dev_byte ROOT_DEV_NR s' (first_byte 1 filled_fs + 1024) = 0"
  using write_past_space_overruns [of ROOT_DEV_NR sample_sb "zero_msg\<lparr>type := FS_WRITE, source := 5, CNT := 1025, BUF := 0x900000\<rparr>" 0 1 filled_fs 0 1025 "0x900000"]
    filled_open filled_area [of 5 1025] filled_fields by (auto simp: zero_msg_def)

end
