(* ===== verification/UserLib.thy ===== *)
theory UserLib
  imports Pm
begin

text \<open>
  The library functions over the process manager, \<^verbatim>\<open>src/lib/pm\<close>, and formatted output, \<^verbatim>\<open>printf\<close> of
  \<^verbatim>\<open>src/lib/misc/printf.c\<close>.

  A process sees memory through its segment: \<open>user_mem\<close> is memory from its base on. The process manager's reply is
  the first message it sends the caller during its turn; without one the caller stays blocked and the result
  is \<open>None\<close>. Local arrays are at addresses that are parameters.
\<close>

unbundle bit_operations_syntax

abbreviation (input) STR_BUFFER_LEN where "STR_BUFFER_LEN \<equiv> 1024 :: int"

section \<open>Memory of a process\<close>

definition user_base :: "int \<Rightarrow> fs \<Rightarrow> u32" where
  "user_base pid s = ldt_idx_to_base_addr (proc_at (fkern s) pid) 1"

definition user_mem :: "int \<Rightarrow> fs \<Rightarrow> mem" where
  "user_mem pid s = (\<lambda>a. fmem s (user_base pid s + a))"

definition put_user_mem :: "int \<Rightarrow> mem \<Rightarrow> fs \<Rightarrow> fs" where
  "put_user_mem pid um s = upd_fmem (\<lambda>_ a. um (a - user_base pid s)) s"

section \<open>Processes\<close>

definition pm_request :: "int \<Rightarrow> message \<Rightarrow> pm \<Rightarrow> (message option \<times> pm) outcome" where
  "pm_request pid msg s =
     obind (task_pm_round (msg\<lparr>source := pid\<rparr>) s) (\<lambda>s'.
       Inr (map_option snd (find (\<lambda>(dest, m). dest = pid) (drop (length (pm_sent s)) (pm_sent s'))), s'))"

definition fork_call :: "int \<Rightarrow> pm \<Rightarrow> (int option \<times> pm) outcome" where
  "fork_call pid s =
     obind (pm_request pid (zero_msg\<lparr>type := FORK\<rparr>) s) (\<lambda>(r, s').
       case r of None \<Rightarrow> Inr (None, s')
       | Some m \<Rightarrow> c_assert (is_ret m) (c_assert (RETVAL m = 0) (Inr (Some (PID m), s'))))"

definition exit_call :: "int \<Rightarrow> int \<Rightarrow> pm \<Rightarrow> (unit option \<times> pm) outcome" where
  "exit_call pid status s =
     obind (pm_request pid (zero_msg\<lparr>type := EXIT, STATUS := status\<rparr>) s) (\<lambda>(r, s').
       case r of None \<Rightarrow> Inr (None, s') | Some m \<Rightarrow> c_assert (is_ret m) (Inr (Some (), s')))"

text \<open>The result of \<^verbatim>\<open>wait\<close> and what it stores in \<^verbatim>\<open>*status\<close>.\<close>

definition wait_call :: "int \<Rightarrow> pm \<Rightarrow> ((int \<times> int) option \<times> pm) outcome" where
  "wait_call pid s =
     obind (pm_request pid (zero_msg\<lparr>type := WAIT\<rparr>) s) (\<lambda>(r, s').
       case r of None \<Rightarrow> Inr (None, s')
       | Some m \<Rightarrow> Inr (Some (if PID m = NO_TASK then -1 else PID m, STATUS m), s'))"

definition exec_request :: "int \<Rightarrow> u32 \<Rightarrow> u32 \<Rightarrow> int \<Rightarrow> pm \<Rightarrow> (int option \<times> pm) outcome" where
  "exec_request pid path buf len s =
     obind (user_strlen pid path (pfs s)) (\<lambda>n.
     obind (pm_request pid (zero_msg\<lparr>type := EXEC, PATHNAME := path, NAME_LEN := n, BUF := buf, BUF_LEN := len\<rparr>) s) (\<lambda>(r, s').
       case r of None \<Rightarrow> Inr (None, s') | Some m \<Rightarrow> c_assert (is_ret m) (Inr (Some (RETVAL m), s'))))"

definition exec_call :: "int \<Rightarrow> u32 \<Rightarrow> pm \<Rightarrow> (int option \<times> pm) outcome" where
  "exec_call pid path s = exec_request pid path 0 0 s"

text \<open>The first loop of \<^verbatim>\<open>execv\<close>: the size of the pointer array.\<close>

function argv_count :: "mem \<Rightarrow> u32 \<Rightarrow> int \<Rightarrow> int outcome" where
  "argv_count um p len =
     (if rd32 um p = 0 then Inr len
      else if len + 8 < PROC_STACK_RESERVERD then argv_count um (p + 4) (len + 4) else Inl AssertFail)"
  by pat_completeness auto
termination
  by (relation "measure (\<lambda>(um, p, len). nat (PROC_STACK_RESERVERD - len))") auto

declare argv_count.simps [simp del]

text \<open>The second loop: the address and the bytes of each string.\<close>

function argv_copy :: "u32 \<Rightarrow> mem \<Rightarrow> u32 \<Rightarrow> u32 \<Rightarrow> int \<Rightarrow> (mem \<times> int) outcome" where
  "argv_copy argv_stack um p q len =
     (if rd32 um p = 0 then Inr (um, len)
      else let a = argv_stack + word_of_int len; um1 = wr32 um q a; str = rd32 um1 p
        in case strlen um1 str of None \<Rightarrow> Inl Diverges
           | Some n \<Rightarrow>
             if sint n < 0 then Inl OutOfBounds
             else if len + sint n + 1 < PROC_STACK_RESERVERD then
               (case strcpy um1 a str of None \<Rightarrow> Inl Diverges
                | Some um2 \<Rightarrow> argv_copy argv_stack (um2(argv_stack + word_of_int (len + sint n) := 0)) (p + 4) (q + 4) (len + sint n + 1))
             else Inl AssertFail)"
  by pat_completeness auto
termination
  by (relation "measure (\<lambda>(a, um, p, q, len). nat (PROC_STACK_RESERVERD - len))") auto

declare argv_copy.simps [simp del]

definition execv_call :: "int \<Rightarrow> u32 \<Rightarrow> u32 \<Rightarrow> u32 \<Rightarrow> pm \<Rightarrow> (int option \<times> pm) outcome" where
  "execv_call pid path argv argv_stack s =
     (let um = user_mem pid (pfs s)
      in obind (argv_count um argv 0) (\<lambda>len.
         obind (argv_copy argv_stack (wr32 um (argv_stack + word_of_int len) 0) argv argv_stack (len + 4)) (\<lambda>(um', len').
         exec_request pid path argv_stack len' (s\<lparr>pfs := put_user_mem pid um' (pfs s)\<rparr>))))"

section \<open>Formatted output\<close>

definition printf_call :: "int \<Rightarrow> u32 \<Rightarrow> u32 \<Rightarrow> u32 \<Rightarrow> fs \<Rightarrow> (int option \<times> fs) outcome" where
  "printf_call pid buf fmt args s =
     obind (of_loop (vsprintf (user_mem pid s) buf fmt args)) (\<lambda>(write_len, um).
       if write_len \<ge> STR_BUFFER_LEN then Inl OutOfBounds
       else obind (write_call pid 1 buf write_len (put_user_mem pid um s)) (\<lambda>(r, s').
         case r of None \<Rightarrow> Inr (None, s')
         | Some written_len \<Rightarrow> c_assert (write_len = written_len) (Inr (Some write_len, s'))))"

end
