(* ===== verification/Untar.thy ===== *)
theory Untar
  imports FsRw UserLib Sprintf
begin

text \<open>
  The extraction of the command archive, \<^verbatim>\<open>untar\<close> of \<^verbatim>\<open>src/kernel/process.c\<close>, which the first process runs at every start.

  The process works on its own memory through the library calls. \<^verbatim>\<open>printf\<close> with a literal format is \<open>printf_text\<close>, which agrees with
  \<^verbatim>\<open>printf\<close> on every memory that holds the format and the arguments; \<open>pbuf\<close> is the address of its local buffer. None of these requests
  is suspended, since only reading from a terminal suspends, so a call without an answer is a wait that never ends. The loop over the
  headers of the archive is a partial function; the loop that copies one file ends for every length.
\<close>

unbundle bit_operations_syntax

section \<open>The code\<close>

definition answered :: "(int option \<times> fs) outcome \<Rightarrow> (int \<times> fs) outcome" where
  "answered r = obind r (\<lambda>(v, s). case v of None \<Rightarrow> Inl Diverges | Some x \<Rightarrow> Inr (x, s))"

definition printf_text :: "int \<Rightarrow> u32 \<Rightarrow> string \<Rightarrow> fmt_arg list \<Rightarrow> fs \<Rightarrow> fs outcome" where
  "printf_text pid pbuf f as s =
     (let out = sprintf_text f as
      in if int (length out) \<ge> STR_BUFFER_LEN then Inl OutOfBounds
         else obind (answered (write_call pid 1 pbuf (int (length out)) (put_user_mem pid (write_bytes (user_mem pid s) pbuf (out @ [0])) s))) (\<lambda>(written_len, s').
           c_assert (int (length out) = written_len) (Inr s')))"

text \<open>The size of a file in the header: octal digits up to a 0.\<close>

partial_function (option) untar_octal :: "mem \<Rightarrow> u32 \<Rightarrow> int \<Rightarrow> int option" where
  "untar_octal um p f_len = (if um p = 0 then Some f_len else untar_octal um (p + 1) (s32 (f_len * 8 + (sint (um p) - 48))))"

text \<open>The inner loop: copy the data of one file in chunks of 16 sectors.\<close>

function untar_copy :: "int \<Rightarrow> int \<Rightarrow> int \<Rightarrow> u32 \<Rightarrow> int \<Rightarrow> fs \<Rightarrow> fs outcome" where
  "untar_copy pid fd fdout buf bytes_left s =
     (if bytes_left = 0 then Inr s
      else let iobytes = min (SECTOR_SIZE * 16) bytes_left
        in obind (answered (read_call pid fd buf (((iobytes - 1) sdiv SECTOR_SIZE + 1) * SECTOR_SIZE) s)) (\<lambda>(_, s1).
           obind (answered (write_call pid fdout buf iobytes s1)) (\<lambda>(bytes, s2).
           c_assert (bytes = iobytes) (untar_copy pid fd fdout buf (bytes_left - iobytes) s2))))"
  by pat_completeness auto
termination
  by (relation "measure (\<lambda>(pid, fd, fdout, buf, bytes_left, s). nat \<bar>bytes_left\<bar>)") auto

declare untar_copy.simps [simp del]

datatype untar_next = Extracted | Finished | Aborted

definition untar_step :: "int \<Rightarrow> u32 \<Rightarrow> u32 \<Rightarrow> u8 list \<Rightarrow> int \<Rightarrow> int \<Rightarrow> fs \<Rightarrow> (untar_next \<times> fs) outcome" where
  "untar_step pid pbuf buf filename fd i s =
     obind (answered (read_call pid fd buf SECTOR_SIZE s)) (\<lambda>(bytes, s1).
     c_assert (bytes = SECTOR_SIZE)
       (if user_mem pid s1 buf = 0 then
          (if i = 0 then obind (printf_text pid pbuf ''      %s has already extracted, no need to unpack again.^n'' [Str filename] s1) (\<lambda>s2. Inr (Finished, s2))
           else Inr (Finished, s1))
        else
          obind (of_loop (untar_octal (user_mem pid s1) (buf + 124) 0)) (\<lambda>f_len.
          obind (answered (open_call pid buf (O_CREAT OR O_RDWR OR O_TRUNC) s1)) (\<lambda>(fdout, s2).
          obind (of_loop (read_cstr (user_mem pid s2) buf)) (\<lambda>name.
          if fdout = -1 then
            obind (printf_text pid pbuf ''    failed to extract file: %s^n'' [Str name] s2) (\<lambda>s3.
            obind (printf_text pid pbuf '' aborted]^n'' [] s3) (\<lambda>s4.
            obind (answered (close_call pid fd s4)) (\<lambda>(_, s5). Inr (Aborted, s5))))
          else
            obind (printf_text pid pbuf ''      %d: %s^n'' [Num (i + 1), Str name] s2) (\<lambda>s3.
            obind (untar_copy pid fd fdout buf f_len s3) (\<lambda>s4.
            obind (answered (close_call pid fdout s4)) (\<lambda>(_, s5). Inr (Extracted, s5)))))))))"

partial_function (option) untar_loop :: "int \<Rightarrow> u32 \<Rightarrow> u32 \<Rightarrow> u8 list \<Rightarrow> int \<Rightarrow> int \<Rightarrow> fs \<Rightarrow> (untar_next \<times> int \<times> fs) outcome option" where
  "untar_loop pid pbuf buf filename fd i s =
     (case untar_step pid pbuf buf filename fd i s of
        Inl e \<Rightarrow> Some (Inl e)
      | Inr (next, s') \<Rightarrow> if next = Extracted then untar_loop pid pbuf buf filename fd (i + 1) s' else Some (Inr (next, i, s')))"

definition untar :: "int \<Rightarrow> u32 \<Rightarrow> u32 \<Rightarrow> u32 \<Rightarrow> fs \<Rightarrow> fs outcome" where
  "untar pid pbuf buf filename s =
     obind (of_loop (read_cstr (user_mem pid s) filename)) (\<lambda>name.
     obind (printf_text pid pbuf (''Init: Extracting `%s'' @ [CHR 39] @ ''^n'') [Str name] s) (\<lambda>s1.
     obind (answered (open_call pid filename O_RDWR s1)) (\<lambda>(fd, s2).
     c_assert (fd \<noteq> -1)
       (obind (of_loop (untar_loop pid pbuf buf name fd 0 s2)) (\<lambda>r. obind r (\<lambda>(next, i, s3).
        if next = Aborted then Inr s3
        else
          obind (if i \<noteq> 0 then
                   obind (answered (lseek_call pid fd 0 SEEK_SET s3)) (\<lambda>(_, s4).
                   obind (answered (write_call pid fd buf 1 (put_user_mem pid ((user_mem pid s4)(buf := 0)) s4))) (\<lambda>(bytes, s5).
                   c_assert (bytes = 1) (printf_text pid pbuf ''Init: Extracting done, %d files extracted^n'' [Num i] s5)))
                 else Inr s3) (\<lambda>s6.
          obind (answered (close_call pid fd s6)) (\<lambda>(_, s7). Inr s7))))))))"

section \<open>Formatted output\<close>

lemma printf_text_call:
  assumes "is_cstr (user_mem pid s) fmt (c_text f)" "args_at (user_mem pid s) args as" "fmt_out (c_text f) as \<noteq> None"
  shows "printf_text pid pbuf f as s = obind (answered (printf_call pid pbuf fmt args s)) (\<lambda>(_, s'). Inr s')"
proof -
  let ?out = "sprintf_text f as"
  note v = sprintf_text_vsprintf [OF assms, of pbuf]
  show ?thesis
    by (auto simp: printf_text_def printf_call_def v Let_def answered_def obind_assoc c_assert_def intro!: arg_cong [where f = "obind _"] ext split: option.split)
qed

section \<open>Requests of a process on a file\<close>

text \<open>All of the state but memory, the drive, and the message and caller of the last request.\<close>

definition files_rest where
  "files_rest s = fs_rest (s\<lparr>fs_msg := zero_msg, caller_proc := 0\<rparr>)"

lemma rw_call:
  assumes "type m = FS_READ \<or> type m = FS_WRITE" "do_read_write (request (m\<lparr>source := pid\<rparr>) (s\<lparr>caller_proc := pid\<rparr>)) = Inr (v, s')"
    and "type (fs_msg s') \<noteq> SUSPEND_PROC"
  shows "\<exists>m'. obind (fs_call pid m s) (call_result (\<lambda>_. True) CNT) = Inr (Some v, s'\<lparr>fs_msg := m'\<rparr>)"
proof -
  have "s\<lparr>fs_msg := m\<lparr>source := pid\<rparr>, caller_proc := pid\<rparr> = request (m\<lparr>source := pid\<rparr>) (s\<lparr>caller_proc := pid\<rparr>)" by (simp add: request_def)
  then show ?thesis using assms
    by (auto simp: fs_call_def task_fs_round_def fs_dispatch_def set_reply_def call_result_def Let_def)
qed

lemma files_restD:
  assumes "files_rest s' = files_rest s"
  shows "proc_at (fkern s') = proc_at (fkern s)" "hdbuf (hds s') = hdbuf (hds s)" "file_desc_table s' = file_desc_table s" "inode_table s' = inode_table s"
    "get_super_block dev s' = get_super_block dev s" "user_area pid buf la n s' = user_area pid buf la n s"
proof -
  let ?f = "\<lambda>s. s\<lparr>fs_msg := zero_msg, caller_proc := 0\<rparr>"
  have r: "fs_rest (?f s') = fs_rest (?f s)" using assms by (simp add: files_rest_def)
  show "proc_at (fkern s') = proc_at (fkern s)" "hdbuf (hds s') = hdbuf (hds s)" "file_desc_table s' = file_desc_table s" "inode_table s' = inode_table s"
    using rest_proc [OF r] rest_parts [OF r] by simp_all
  show "get_super_block dev s' = get_super_block dev s"
    using get_super_block_rest [OF r, of dev] by (simp add: get_super_block_def cong: option.case_cong)
  show "user_area pid buf la n s' = user_area pid buf la n s"
    using user_area_rest [OF r, of pid buf la n] by (simp add: user_area_def)
qed

lemma files_rest_of: "fs_rest s' = fs_rest (s\<lparr>fs_msg := m, caller_proc := c\<rparr>) \<Longrightarrow> files_rest (s'\<lparr>fs_msg := m'\<rparr>) = files_rest s"
  by (simp add: files_rest_def fs_rest_def)

text \<open>A file that a process has open, whoever made the last request.\<close>

definition opened :: "int \<Rightarrow> int \<Rightarrow> super_block \<Rightarrow> int \<Rightarrow> nat \<Rightarrow> nat \<Rightarrow> fs \<Rightarrow> bool" where
  "opened pid dev sb fd d i s \<longleftrightarrow> open_on dev sb fd d i (s\<lparr>caller_proc := pid\<rparr>)"

lemma caller_simps [simp]:
  "disk_ok dev (s\<lparr>caller_proc := c\<rparr>) = disk_ok dev s" "sector dev (s\<lparr>caller_proc := c\<rparr>) = sector dev s" "dev_byte dev (s\<lparr>caller_proc := c\<rparr>) = dev_byte dev s"
  "disk_ok dev (s\<lparr>fs_msg := m\<rparr>) = disk_ok dev s" "sector dev (s\<lparr>fs_msg := m\<rparr>) = sector dev s" "dev_byte dev (s\<lparr>fs_msg := m\<rparr>) = dev_byte dev s"
  "file_size i (s\<lparr>caller_proc := c\<rparr>) = file_size i s" "user_area pid buf la n (s\<lparr>caller_proc := c\<rparr>) = user_area pid buf la n s"
  by (simp_all add: disk_ok_def sector_def dev_byte_def dev_start_def file_size_def user_area_def fun_eq_iff)

lemma opened_rest: "opened pid dev sb fd d i s \<Longrightarrow> files_rest s' = files_rest s \<Longrightarrow> disk_ok dev s' \<Longrightarrow> opened pid dev sb fd d i s'"
  using files_restD [of s' s]
  by (simp add: opened_def open_on_def Let_def get_super_block_def cong: option.case_cong)

lemma opened_upd:
  assumes "opened pid dev sb fd d i s" "j = i \<Longrightarrow> x \<le> space i s"
  shows "opened pid dev sb fd d i (resize j x (moved e b s))"
proof -
  have "unat (of_nat x :: u32) = x" if "j = i"
    using assms by (intro unat_of_nat_u32) (simp add: opened_def open_on_def Let_def that)
  with assms show ?thesis
    by (cases "j = i"; cases "e = d")
      (simp_all add: opened_def open_on_def Let_def resize_def moved_def upd_inode_def upd_fd_def get_super_block_def disk_ok_def cong: option.case_cong)
qed

lemma opened_facts:
  assumes "opened pid dev sb fd d i s"
  shows "disk_ok dev s" "d < length (file_desc_table s)" "i < length (inode_table s)" "file_size i s \<le> space i s" "space i s < 2147483648"
  using assms by (simp_all add: opened_def open_on_def Let_def file_size_def)

lemma read_call_file:
  assumes op: "opened pid dev sb fd d i s" and pos: "fd_pos (file_desc_table s ! d) = int p" and n: "p + n \<le> file_size i s" "n \<le> 130048"
    and ua: "user_area pid buf la n s"
  shows "\<exists>s'. read_call pid fd buf (int n) s = Inr (Some (int n), s') \<and> disk_ok dev s' \<and> files_rest s' = files_rest (moved d n s) \<and>
    sector dev s' = sector dev s \<and> read_bytes (fmem s') la n = map (\<lambda>j. dev_byte dev s (first_byte i s + p + j)) [0..<n]"
proof -
  let ?m = "zero_msg\<lparr>type := FS_READ, FD := fd, BUF := buf, CNT := int n\<rparr>"
  let ?r = "request (?m\<lparr>source := pid\<rparr>) (s\<lparr>caller_proc := pid\<rparr>)"
  note of = opened_facts [OF op]
  obtain s' where s': "do_read_write ?r = Inr (int n, s')" "disk_ok dev s'" "fs_rest s' = fs_rest (resize i (file_size i s) (moved d n ?r))"
    "sector dev s' = sector dev s" "read_bytes (fmem s') la n = map (\<lambda>j. dev_byte dev s (first_byte i s + p + j)) [0..<n]"
    using read_request [of dev sb ?r d i p n n la] op pos n ua of
    by (auto simp: opened_def rw_count_all max_def dev_byte_cong [of dev ?r s])
  have "resize i (file_size i s) (moved d n ?r) = (moved d n s)\<lparr>fs_msg := ?m\<lparr>source := pid\<rparr>, caller_proc := pid\<rparr>"
    by (simp add: resize_def moved_def upd_inode_def upd_fd_def request_def file_size_def)
  then have r: "fs_rest s' = fs_rest ((moved d n s)\<lparr>fs_msg := ?m\<lparr>source := pid\<rparr>, caller_proc := pid\<rparr>)" using s'(3) by simp
  then have "type (fs_msg s') \<noteq> SUSPEND_PROC" using rest_parts(2) [OF r] by simp
  from rw_call [OF _ s'(1) this] obtain m' where "read_call pid fd buf (int n) s = Inr (Some (int n), s'\<lparr>fs_msg := m'\<rparr>)"
    by (auto simp: read_call_def)
  then show ?thesis using s'(2, 4, 5) files_rest_of [OF r, of m'] by auto
qed

lemma write_call_file:
  assumes op: "opened pid dev sb fd d i s" and pos: "fd_pos (file_desc_table s ! d) = int p" and n: "p + n \<le> space i s" "n \<le> 130048"
    and ua: "user_area pid buf la n s"
  shows "\<exists>s'. write_call pid fd buf (int n) s = Inr (Some (int n), s') \<and> disk_ok dev s' \<and>
    files_rest s' = files_rest (resize i (max (file_size i s) (p + n)) (moved d n s)) \<and>
    (\<forall>x. x div 512 \<noteq> inode_place sb i s \<longrightarrow> dev_byte dev s' x = (if first_byte i s + p \<le> x \<and> x < first_byte i s + p + n
      then fmem s (la + of_nat (x - (first_byte i s + p))) else dev_byte dev s x))"
proof -
  let ?m = "zero_msg\<lparr>type := FS_WRITE, FD := fd, BUF := buf, CNT := int n\<rparr>" and ?z = "max (file_size i s) (p + n)"
  let ?r = "request (?m\<lparr>source := pid\<rparr>) (s\<lparr>caller_proc := pid\<rparr>)"
  obtain s' where s': "do_read_write ?r = Inr (int n, s')" "disk_ok dev s'" "fs_rest s' = fs_rest (resize i ?z (moved d n ?r))"
    "\<forall>x. x div 512 \<noteq> inode_place sb i s \<longrightarrow> dev_byte dev s' x = (if first_byte i s + p \<le> x \<and> x < first_byte i s + p + n
      then fmem s (la + of_nat (x - (first_byte i s + p))) else dev_byte dev s x)"
    using write_request [of dev sb ?r d i p n la] op pos n ua by (auto simp: opened_def dev_byte_cong [of dev ?r s])
  have r: "fs_rest s' = fs_rest ((resize i ?z (moved d n s))\<lparr>fs_msg := ?m\<lparr>source := pid\<rparr>, caller_proc := pid\<rparr>)"
    using s'(3) by (simp add: resize_def moved_def upd_inode_def upd_fd_def request_def fs_rest_def)
  then have "type (fs_msg s') \<noteq> SUSPEND_PROC" using rest_parts(2) [OF r] by simp
  from rw_call [OF _ s'(1) this] obtain m' where "write_call pid fd buf (int n) s = Inr (Some (int n), s'\<lparr>fs_msg := m'\<rparr>)"
    by (auto simp: write_call_def)
  then show ?thesis using s'(2, 4) files_rest_of [OF r, of m'] by auto
qed

section \<open>Copying a file\<close>

text \<open>The bytes that the sectors of \<open>n\<close> bytes hold.\<close>

definition padded :: "nat \<Rightarrow> nat" where
  "padded n = 512 * ((n + 511) div 512)"

lemma padded_chunk:
  assumes "0 < n"
  shows "padded n = padded (min 8192 n) + padded (n - min 8192 n)" "min 8192 n \<le> padded (min 8192 n)" "padded (min 8192 n) \<le> 8192"
    "((int (min 8192 n) - 1) sdiv 512 + 1) * 512 = int (padded (min 8192 n))"
proof -
  show "padded n = padded (min 8192 n) + padded (n - min 8192 n)"
  proof (cases "n \<le> 8192")
    case False
    then have "n + 511 = 8192 + (n - 8192 + 511)" by simp
    then have "(n + 511) div 512 = 16 + (n - 8192 + 511) div 512" using div_mult_self1 [of 512 "n - 8192 + 511" 16] by simp
    then show ?thesis using False by (simp add: padded_def)
  qed (simp add: padded_def)
  have le: "c \<le> padded c" "padded c \<le> 8192" if "c \<le> 8192" for c
  proof -
    show "c \<le> padded c" unfolding padded_def by linarith
    have "(c + 511) div 512 \<le> 16" using that by linarith
    then show "padded c \<le> 8192" by (simp add: padded_def)
  qed
  then show "min 8192 n \<le> padded (min 8192 n)" "padded (min 8192 n) \<le> 8192" by simp_all
  define c where "c = min 8192 n"
  have "0 < c" using assms by (simp add: c_def)
  then obtain k where k: "c = Suc k" by (cases c) auto
  then have "(int c - 1) sdiv 512 = int (k div 512)" by (simp add: sdiv_nonneg zdiv_int)
  moreover have "(c + 511) div 512 = k div 512 + 1" using k by simp
  ultimately show "((int (min 8192 n) - 1) sdiv 512 + 1) * 512 = int (padded (min 8192 n))"
    unfolding c_def [symmetric] by (simp add: padded_def)
qed

lemma opened_moved:
  assumes "opened pid dev sb fd d i s"
  shows "opened pid dev sb fd d i (moved e b s)"
  using assms by (cases "e = d")
    (simp_all add: opened_def open_on_def Let_def moved_def upd_fd_def get_super_block_def disk_ok_def cong: option.case_cong)

lemma user_area_less: "user_area pid buf la n s \<Longrightarrow> k \<le> n \<Longrightarrow> user_area pid buf la k s"
  by (auto simp: user_area_def apart_def)

text \<open>One chunk.\<close>

definition copying :: "int \<Rightarrow> int \<Rightarrow> super_block \<Rightarrow> int \<Rightarrow> nat \<Rightarrow> nat \<Rightarrow> int \<Rightarrow> nat \<Rightarrow> nat \<Rightarrow> u32 \<Rightarrow> u32 \<Rightarrow> nat \<Rightarrow> nat \<Rightarrow> nat \<Rightarrow> fs \<Rightarrow> bool" where
  "copying pid dev sb fd d i fdout d' i' buf la p q n s \<longleftrightarrow>
     opened pid dev sb fd d i s \<and> opened pid dev sb fdout d' i' s \<and> d \<noteq> d' \<and> i \<noteq> i' \<and>
     fd_pos (file_desc_table s ! d) = int p \<and> fd_pos (file_desc_table s ! d') = int q \<and>
     p + padded n \<le> file_size i s \<and> q \<le> file_size i' s \<and> q + n \<le> space i' s \<and> user_area pid buf la 8192 s \<and>
     inode_place sb i' s < unat (inode_sect_start (inode_table s ! i)) \<and>
     (first_byte i s + p + padded n \<le> first_byte i' s + q \<or> first_byte i' s + q + n \<le> first_byte i s + p)"

lemma copy_chunk:
  assumes cp: "copying pid dev sb fd d i fdout d' i' buf la p q n s" and n: "0 < n"
  defines "c \<equiv> min 8192 n"
  defines "r \<equiv> padded c"
  shows "\<exists>s1 s2. read_call pid fd buf (int r) s = Inr (Some (int r), s1) \<and> write_call pid fdout buf (int c) s1 = Inr (Some (int c), s2) \<and>
    files_rest s2 = files_rest (resize i' (max (file_size i' s) (q + c)) (moved d' c (moved d r s))) \<and>
    copying pid dev sb fd d i fdout d' i' buf la (p + r) (q + c) (n - c) s2 \<and>
    (\<forall>x. x div 512 \<noteq> inode_place sb i' s \<longrightarrow> dev_byte dev s2 x = (if first_byte i' s + q \<le> x \<and> x < first_byte i' s + q + c
      then dev_byte dev s (first_byte i s + p + (x - (first_byte i' s + q))) else dev_byte dev s x))"
proof -
  note pc = padded_chunk [OF n, folded c_def, folded r_def]
  have op: "opened pid dev sb fd d i s" "opened pid dev sb fdout d' i' s" and ne: "d \<noteq> d'" "i \<noteq> i'" and ua: "user_area pid buf la 8192 s"
    and pq: "fd_pos (file_desc_table s ! d) = int p" "fd_pos (file_desc_table s ! d') = int q"
    and sz: "p + r + padded (n - c) \<le> file_size i s" "q \<le> file_size i' s" "q + n \<le> space i' s" and pl: "inode_place sb i' s < unat (inode_sect_start (inode_table s ! i))"
    and dj: "first_byte i s + p + r + padded (n - c) \<le> first_byte i' s + q \<or> first_byte i' s + q + n \<le> first_byte i s + p"
    using cp pc(1) by (auto simp: copying_def)
  have cn: "c \<le> n" "c \<le> 8192" "c \<le> r" "r \<le> 8192" using pc by (simp_all add: c_def)
  note of = opened_facts [OF op(1)] opened_facts [OF op(2)]
  obtain s1 where s1: "read_call pid fd buf (int r) s = Inr (Some (int r), s1)" "disk_ok dev s1" "files_rest s1 = files_rest (moved d r s)"
    "sector dev s1 = sector dev s" "read_bytes (fmem s1) la r = map (\<lambda>j. dev_byte dev s (first_byte i s + p + j)) [0..<r]"
    using read_call_file [OF op(1) pq(1) _ _ user_area_less [OF ua cn(4)]] sz(1) cn by auto
  have t1: "file_desc_table s1 = file_desc_table (moved d r s)" "inode_table s1 = inode_table s"
    using files_restD(3, 4) [OF s1(3)] by (simp_all add: moved_def upd_fd_def)
  have op1: "opened pid dev sb fd d i s1" "opened pid dev sb fdout d' i' s1"
    using opened_rest [OF opened_moved s1(3, 2)] op by blast+
  have ua1: "user_area pid buf la 8192 s1" using files_restD(6) [OF s1(3)] ua by (simp add: moved_def)
  have pos1: "fd_pos (file_desc_table s1 ! d') = int q" "fd_pos (file_desc_table s1 ! d) = int (p + r)"
    using t1(1) ne(1) of pq by (simp_all add: moved_def upd_fd_def)
  have le: "q + c \<le> space i' s1" using sz(3) cn(1) t1(2) by simp
  obtain s2 where s2: "write_call pid fdout buf (int c) s1 = Inr (Some (int c), s2)" "disk_ok dev s2"
    "files_rest s2 = files_rest (resize i' (max (file_size i' s1) (q + c)) (moved d' c s1))"
    "\<forall>x. x div 512 \<noteq> inode_place sb i' s1 \<longrightarrow> dev_byte dev s2 x = (if first_byte i' s1 + q \<le> x \<and> x < first_byte i' s1 + q + c
      then fmem s1 (la + of_nat (x - (first_byte i' s1 + q))) else dev_byte dev s1 x)"
    using write_call_file [OF op1(2) pos1(1) le _ user_area_less [OF ua1 cn(2)]] cn by auto
  let ?z = "max (file_size i' s) (q + c)"
  have fs1: "file_size k s1 = file_size k s" for k using t1(2) by (simp add: file_size_def)
  have z: "?z \<le> space i' s1" using of(9) le fs1 t1(2) by simp
  have op2: "opened pid dev sb fd d i s2" "opened pid dev sb fdout d' i' s2"
    using opened_rest [OF opened_upd s2(3, 2)] op1 ne z fs1 by simp_all
  have t2: "file_desc_table s2 = file_desc_table (moved d' c s1)" "inode_table s2 = inode_table (resize i' ?z s)"
    using files_restD(3, 4) [OF s2(3)] t1(2) fs1 by (simp_all add: moved_def upd_fd_def resize_def upd_inode_def)
  have "unat (of_nat ?z :: u32) = ?z" using z of(10) t1(2) by (intro unat_of_nat_u32) simp
  then have fs2: "file_size i s2 = file_size i s" "file_size i' s2 = ?z" "first_byte i s2 = first_byte i s" "first_byte i' s2 = first_byte i' s"
    "space i' s2 = space i' s" "inode_place sb i' s2 = inode_place sb i' s" "inode_sect_start (inode_table s2 ! i) = inode_sect_start (inode_table s ! i)"
    using t2(2) ne(2) of by (simp_all add: file_size_def resize_def upd_inode_def)
  have pos2: "fd_pos (file_desc_table s2 ! d) = int (p + r)" "fd_pos (file_desc_table s2 ! d') = int (q + c)"
    using t2(1) pos1 ne(1) of t1(1) by (simp_all add: moved_def upd_fd_def)
  have ua2: "user_area pid buf la 8192 s2" using files_restD(6) [OF s2(3)] ua1 by (simp add: moved_def resize_def)
  have "copying pid dev sb fd d i fdout d' i' buf la (p + r) (q + c) (n - c) s2"
    unfolding copying_def fs2 using op2 ne pos2 sz cn pl dj ua2 by auto
  moreover have "dev_byte dev s2 x = (if first_byte i' s + q \<le> x \<and> x < first_byte i' s + q + c
      then dev_byte dev s (first_byte i s + p + (x - (first_byte i' s + q))) else dev_byte dev s x)" if "x div 512 \<noteq> inode_place sb i' s" for x
  proof -
    have k: "fmem s1 (la + of_nat j) = dev_byte dev s (first_byte i s + p + j)" if "j < r" for j
      using that arg_cong [OF s1(5), of "\<lambda>l. l ! j"] by (simp add: read_bytes_def)
    have "fmem s1 (la + of_nat (x - (first_byte i' s + q))) = dev_byte dev s (first_byte i s + p + (x - (first_byte i' s + q)))"
      if "x < first_byte i' s + q + c" "first_byte i' s + q \<le> x" by (rule k) (use that cn(3) in linarith)
    with s2(4) that show ?thesis unfolding t1(2) dev_byte_cong [OF s1(4)] by simp
  qed
  moreover have "files_rest s2 = files_rest (resize i' ?z (moved d' c (moved d r s)))"
    using s1(3) unfolding s2(3) fs1 by (simp add: files_rest_def fs_rest_def resize_def moved_def upd_inode_def upd_fd_def)
  ultimately show ?thesis using s1(1) s2(1) by blast
qed

lemma opened_place:
  "opened pid dev sb fd d i s \<Longrightarrow> first_byte i s \<le> x \<Longrightarrow> x div 512 \<noteq> inode_place sb i s"
  using open_on_place [of dev sb fd d i "s\<lparr>caller_proc := pid\<rparr>" x] by (simp add: opened_def)

definition copied :: "int \<Rightarrow> super_block \<Rightarrow> nat \<Rightarrow> nat \<Rightarrow> nat \<Rightarrow> nat \<Rightarrow> nat \<Rightarrow> nat \<Rightarrow> nat \<Rightarrow> fs \<Rightarrow> fs \<Rightarrow> bool" where
  "copied dev sb d i d' i' p q n s s' \<longleftrightarrow>
     (\<forall>j < n. dev_byte dev s' (first_byte i' s + q + j) = dev_byte dev s (first_byte i s + p + j)) \<and>
     (\<forall>x. x div 512 \<noteq> inode_place sb i' s \<and> (x < first_byte i' s + q \<or> first_byte i' s + q + n \<le> x) \<longrightarrow> dev_byte dev s' x = dev_byte dev s x) \<and>
     file_size i' s' = max (file_size i' s) (q + n) \<and> file_size i s' = file_size i s \<and>
     fd_pos (file_desc_table s' ! d) = int (p + padded n) \<and> fd_pos (file_desc_table s' ! d') = int (q + n)"

lemma untar_copy_copies:
  "copying pid dev sb fd d i fdout d' i' buf la p q n s \<Longrightarrow> \<exists>s'. untar_copy pid fd fdout buf (int n) s = Inr s' \<and> copied dev sb d i d' i' p q n s s'"
proof (induction n arbitrary: p q s rule: less_induct)
  case (less n)
  show ?case
  proof (cases "n = 0")
    case True
    then show ?thesis using less.prems by (intro exI [of _ s]) (simp add: untar_copy.simps copied_def copying_def padded_def max_def)
  next
    case False
    define c where "c = min 8192 n"
    define r where "r = padded c"
    have n: "0 < n" using False by simp
    note pc = padded_chunk [OF n, folded c_def, folded r_def]
    have c: "0 < c" "c \<le> n" using n by (simp_all add: c_def)
    have cr: "r = c" if "c < n"
    proof -
      have "c = 8192" using that by (auto simp: c_def min_def split: if_splits)
      then show ?thesis by (simp add: r_def padded_def)
    qed
    obtain s1 s2 where st: "read_call pid fd buf (int r) s = Inr (Some (int r), s1)" "write_call pid fdout buf (int c) s1 = Inr (Some (int c), s2)"
      "files_rest s2 = files_rest (resize i' (max (file_size i' s) (q + c)) (moved d' c (moved d r s)))"
      "copying pid dev sb fd d i fdout d' i' buf la (p + r) (q + c) (n - c) s2"
      and by2: "\<forall>x. x div 512 \<noteq> inode_place sb i' s \<longrightarrow> dev_byte dev s2 x = (if first_byte i' s + q \<le> x \<and> x < first_byte i' s + q + c
        then dev_byte dev s (first_byte i s + p + (x - (first_byte i' s + q))) else dev_byte dev s x)"
      using copy_chunk [OF less.prems n] unfolding c_def r_def by blast
    obtain s' where s': "untar_copy pid fd fdout buf (int (n - c)) s2 = Inr s'" "copied dev sb d i d' i' (p + r) (q + c) (n - c) s2 s'"
      using less.IH [OF _ st(4)] c by auto
    have "min (SECTOR_SIZE * 16) (int n) = int c" by (simp add: c_def)
    then have run: "untar_copy pid fd fdout buf (int n) s = Inr s'"
      using s'(1) st(1, 2) n c pc(4) by (subst untar_copy.simps) (simp add: answered_def Let_def of_nat_diff)
    have cp: "opened pid dev sb fd d i s" "opened pid dev sb fdout d' i' s" "i \<noteq> i'" "q \<le> file_size i' s" "inode_place sb i' s < unat (inode_sect_start (inode_table s ! i))"
      "first_byte i s + p + padded n \<le> first_byte i' s + q \<or> first_byte i' s + q + n \<le> first_byte i s + p" "q + n \<le> space i' s"
      using less.prems by (simp_all add: copying_def)
    note of = opened_facts [OF cp(1)] opened_facts [OF cp(2)]
    have t2: "inode_table s2 = inode_table (resize i' (max (file_size i' s) (q + c)) s)"
      using files_restD(4) [OF st(3)] by (simp add: moved_def upd_fd_def resize_def upd_inode_def)
    have "max (file_size i' s) (q + c) < 4294967296" using of(9, 10) cp(7) c(2) by simp
    then have "unat (of_nat (max (file_size i' s) (q + c)) :: u32) = max (file_size i' s) (q + c)" by (intro unat_of_nat_u32)
    then have f2: "first_byte i s2 = first_byte i s" "first_byte i' s2 = first_byte i' s" "inode_place sb i' s2 = inode_place sb i' s"
      "file_size i s2 = file_size i s" "file_size i' s2 = max (file_size i' s) (q + c)"
      using t2 cp(3) of by (simp_all add: file_size_def resize_def upd_inode_def)
    note cd = s'(2) [unfolded copied_def f2]
    have bytes: "dev_byte dev s' (first_byte i' s + q + j) = dev_byte dev s (first_byte i s + p + j)" if "j < n" for j
    proof (cases "j < c")
      case True
      have "(first_byte i' s + q + j) div 512 \<noteq> inode_place sb i' s" by (rule opened_place [OF cp(2)]) simp
      with cd by2 True show ?thesis by simp
    next
      case False
      then have rc: "r = c" using cr that by simp
      let ?x = "first_byte i s + p + j"
      have "unat (inode_sect_start (inode_table s ! i)) \<le> ?x div 512" by (simp add: less_eq_div_iff_mult_less_eq mult.commute)
      then have "?x div 512 \<noteq> inode_place sb i' s" using cp(5) by simp
      moreover have "n \<le> padded n" unfolding padded_def by linarith
      then have "\<not> (first_byte i' s + q \<le> ?x \<and> ?x < first_byte i' s + q + c)" using cp(6) c(2) that by auto
      ultimately have "dev_byte dev s2 ?x = dev_byte dev s ?x" using by2 by metis
      moreover have "dev_byte dev s' (first_byte i' s + (q + c) + (j - c)) = dev_byte dev s2 (first_byte i s + (p + r) + (j - c))"
        using cd diff_less_mono [of j n c] that False by (meson not_le_imp_less not_less)
      moreover have "first_byte i' s + (q + c) + (j - c) = first_byte i' s + q + j" "first_byte i s + (p + r) + (j - c) = ?x" using False rc by simp_all
      ultimately show ?thesis by (simp only:)
    qed
    have frame: "dev_byte dev s' x = dev_byte dev s x" if "x div 512 \<noteq> inode_place sb i' s" "x < first_byte i' s + q \<or> first_byte i' s + q + n \<le> x" for x
    proof -
      have "dev_byte dev s' x = dev_byte dev s2 x" using cd that c(2) by auto
      also have "\<dots> = dev_byte dev s x" using by2 that c(2) by auto
      finally show ?thesis .
    qed
    have "copied dev sb d i d' i' p q n s s'"
      using bytes frame cd c pc(1) unfolding copied_def by (auto simp: max_def)
    then show ?thesis using run by blast
  qed
qed

text \<open>C29: The extraction copies a file out of the archive. Whatever the length of the file, the loop ends with every request answered in full; the
  output file then has, from its position on, exactly the bytes of the archive from its position on; the archive is left at the next sector, where
  the next header is; the output file has grown to the end of the copy; and apart from the copy and the sector of the output file's inode no byte
  of the disk has changed.\<close>

theorem untar_copies_file:
  assumes "opened pid dev sb fd d i s" and "opened pid dev sb fdout d' i' s" and "d \<noteq> d'" and "i \<noteq> i'"
    and "fd_pos (file_desc_table s ! d) = int p" and "fd_pos (file_desc_table s ! d') = int q"
    and "p + padded n \<le> file_size i s" and "q \<le> file_size i' s" and "q + n \<le> space i' s" and "user_area pid buf la 8192 s"
    and "inode_place sb i' s < unat (inode_sect_start (inode_table s ! i))"
    and "first_byte i s + p + padded n \<le> first_byte i' s + q \<or> first_byte i' s + q + n \<le> first_byte i s + p"
  shows "\<exists>s'. untar_copy pid fd fdout buf (int n) s = Inr s' \<and>
     (\<forall>j < n. dev_byte dev s' (first_byte i' s + q + j) = dev_byte dev s (first_byte i s + p + j)) \<and>
     (\<forall>x. x div 512 \<noteq> inode_place sb i' s \<and> (x < first_byte i' s + q \<or> first_byte i' s + q + n \<le> x) \<longrightarrow> dev_byte dev s' x = dev_byte dev s x) \<and>
     file_size i' s' = max (file_size i' s) (q + n) \<and>
     fd_pos (file_desc_table s' ! d) = int (p + padded n) \<and> fd_pos (file_desc_table s' ! d') = int (q + n)"
proof -
  have "copying pid dev sb fd d i fdout d' i' buf la p q n s" using assms by (simp add: copying_def)
  from untar_copy_copies [OF this] show ?thesis by (auto simp: copied_def)
qed

text \<open>A process with two files open: an archive of two sectors and an empty file behind it.\<close>

definition archive_fs :: fs where
  "archive_fs = (upd_kern (\<lambda>k. k\<lparr>proc_table := (proc_table k)[5 := zero_proc\<lparr>file_desc := (replicate 64 None)[0 := Some 0, 1 := Some 1]\<rparr>]\<rparr>) sample_fs)
     \<lparr>file_desc_table := [\<lparr>fd_mode = 2, fd_pos = 0, fd_cnt = 1, fd_inode = Some 1\<rparr>, \<lparr>fd_mode = 2, fd_pos = 0, fd_cnt = 1, fd_inode = Some 2\<rparr>],
      inode_table := [sample_root, sample_file\<lparr>inode_file_size := 1024\<rparr>, sample_file\<lparr>inode_nr := 3, inode_sect_start := 8, inode_file_size := 0\<rparr>]\<rparr>"

lemma archive_proc: "proc_at (fkern archive_fs) pid = (if pid = 5 then zero_proc\<lparr>file_desc := (replicate 64 None)[0 := Some 0, 1 := Some 1]\<rparr> else zero_proc)"
  by (auto simp: archive_fs_def upd_kern_def sample_fs_def sample_machine_def proc_at_def nth_list_update)

lemma archive_va2la: "pid < NR_TASKS_NATIVE + NR_PROCS_NATIVE \<Longrightarrow> proc_va2la (fkern archive_fs) pid a = Inr a"
  by (simp add: proc_va2la_def Let_def archive_proc ldt_idx_to_base_addr_def zero_proc_def zero_gdt_desc_def)

lemma archive_parts: "part_of_minor m (hds archive_fs) = part_of_minor m (hds sample_fs)" "drive (hds archive_fs) = drive (hds sample_fs)"
  "hdbuf (hds archive_fs) = hdbuf (hds sample_fs)" "super_block_table archive_fs = super_block_table sample_fs"
  by (simp_all add: archive_fs_def upd_kern_def part_of_minor_def)

lemma archive_disk: "disk_ok ROOT_DEV_NR archive_fs" "get_super_block ROOT_DEV_NR archive_fs = Inr sample_sb" "sector ROOT_DEV_NR archive_fs = sector ROOT_DEV_NR sample_fs"
  using sample_disk_ok sample_get_super_block archive_va2la [of TASK_FS] archive_va2la [of TASK_HD]
  by (simp_all add: archive_parts disk_ok_def get_super_block_def sector_def dev_start_def fun_eq_iff cong: option.case_cong)

lemma archive_opened: "opened 5 ROOT_DEV_NR sample_sb 0 0 1 archive_fs" "opened 5 ROOT_DEV_NR sample_sb 1 1 2 archive_fs"
  using archive_disk(1, 2) inode_sect_eq [of sample_sb 2] inode_sect_eq [of sample_sb 3]
  by (simp_all add: opened_def open_on_def Let_def archive_proc layout_ok_def inode_valid_def get_super_block_def cong: option.case_cong)
    (simp_all add: archive_fs_def sample_file_def sample_sb_def)

theorem untar_copies_file_witness:
  "\<exists>s'. untar_copy 5 0 1 0x900000 10 archive_fs = Inr s' \<and> map (dev_byte ROOT_DEV_NR s') [4096..<4106] = [0, 1, 2, 3, 4, 5, 6, 7, 8, 9] \<and> file_size 2 s' = 10"
proof -
  have tab: "inode_table archive_fs ! 1 = sample_file\<lparr>inode_file_size := 1024\<rparr>"
    "inode_table archive_fs ! 2 = sample_file\<lparr>inode_nr := 3, inode_sect_start := 8, inode_file_size := 0\<rparr>"
    "fd_pos (file_desc_table archive_fs ! 0) = 0" "fd_pos (file_desc_table archive_fs ! 1) = 0" by (simp_all add: archive_fs_def)
  have ua: "user_area 5 0x900000 0x900000 8192 archive_fs"
    using archive_va2la [of 5] by (simp add: user_area_def apart_def archive_fs_def upd_kern_def sample_fs_def sample_hd_def unat_u32_uminus)
  have pl: "inode_place sample_sb 2 archive_fs < 6" using inode_sect_eq [of sample_sb 3] by (simp add: tab sample_sb_def layout_ok_def inode_valid_def)
  obtain s' where s': "untar_copy 5 0 1 0x900000 10 archive_fs = Inr s'" "\<forall>j < 10. dev_byte ROOT_DEV_NR s' (4096 + j) = dev_byte ROOT_DEV_NR archive_fs (3072 + j)"
    "file_size 2 s' = 10"
    using untar_copies_file [OF archive_opened, of 0 0 10 "0x900000" "0x900000"] tab ua pl
    by (auto simp: sample_file_def file_size_def padded_def)
  have low: "ucast (of_nat j :: u32) = (of_nat j :: u8)" for j
    by (rule bit_word_eqI) (auto simp: bit_simps)
  have "dev_byte ROOT_DEV_NR archive_fs (3072 + j) = of_nat j" if "j < 10" for j
    using that low sample_sector [of 6 "of_nat j"] div_mult_self1 [of 512 j 6] mod_mult_self1 [of j 6 512] by (simp add: dev_byte_def archive_disk(3) sample_media_def unat_of_nat_u32 add.commute [of 3072])
  then have "dev_byte ROOT_DEV_NR s' (4096 + j) = of_nat j" if "j < 10" for j using s'(2) that by simp
  then have "map (dev_byte ROOT_DEV_NR s') (map ((+) 4096) [0..<10]) = map of_nat [0..<10]" by simp
  then show ?thesis using s' by (simp add: upt_rec)
qed

end
