(* ===== verification/Shell.thy ===== *)
theory Shell
  imports UserLib
begin

text \<open>
  The shell, \<^verbatim>\<open>src/shell/shell.c\<close>.

  The shell works on its own memory. A line is split in place: \<open>tokens\<close> is the loop, which writes a 0 after each word
  and collects the addresses of the words. \<open>shell_prompt\<close> and \<open>shell_line\<close> are the shell before and after the read
  from the terminal, which suspends it; \<open>lit\<close> gives the addresses of string literals.
\<close>

unbundle bit_operations_syntax

abbreviation (input) FD_STDIN where "FD_STDIN \<equiv> 0 :: int"
abbreviation (input) FD_STDOUT where "FD_STDOUT \<equiv> 1 :: int"
abbreviation (input) STDIN_LEN where "STDIN_LEN \<equiv> 128 :: int"

partial_function (option) tokens :: "mem \<Rightarrow> u32 \<Rightarrow> u32 \<Rightarrow> bool \<Rightarrow> u32 list \<Rightarrow> (mem \<times> u32 list) option" where
  "tokens um p s word' argv =
     (let ch = um p; start = ch \<noteq> 32 \<and> ch \<noteq> 0 \<and> \<not> word';
          s1 = (if start then p else s); word1 = (start \<or> word');
          stop = (ch = 32 \<or> ch = 0) \<and> word1;
          um1 = (if stop then um(p := 0) else um); argv1 = (if stop then argv @ [s1] else argv)
      in if ch \<noteq> 0 then tokens um1 (p + 1) s1 (word1 \<and> \<not> stop) argv1 else Some (um1, argv1))"

definition shell_start :: "int \<Rightarrow> u32 \<Rightarrow> fs \<Rightarrow> fs outcome" where
  "shell_start pid tty_name s =
     obind (open_call pid tty_name O_RDWR s) (\<lambda>(fd_stdin, s1).
     c_assert (fd_stdin = Some 0)
       (obind (open_call pid tty_name O_RDWR s1) (\<lambda>(fd_stdout, s2).
        c_assert (fd_stdout = Some 1) (Inr s2))))"

definition shell_prompt :: "int \<Rightarrow> (string \<Rightarrow> u32) \<Rightarrow> u32 \<Rightarrow> fs \<Rightarrow> (int option \<times> fs) outcome" where
  "shell_prompt pid lit rdbuf s =
     obind (write_call pid FD_STDOUT (lit ''[kz@localhost /]$ '') 17 s) (\<lambda>(_, s1).
       read_call pid FD_STDIN rdbuf STDIN_LEN s1)"

text \<open>What the shell does with a line: nothing more, or run a program with these arguments.\<close>

datatype shell_action = NotFound | Run "u32 list"

definition shell_line :: "int \<Rightarrow> (string \<Rightarrow> u32) \<Rightarrow> u32 \<Rightarrow> int \<Rightarrow> fs \<Rightarrow> (shell_action \<times> fs) outcome" where
  "shell_line pid lit rdbuf r s =
     (if r < 0 \<or> r \<ge> STDIN_LEN then Inl OutOfBounds
      else obind (of_loop (tokens ((user_mem pid s)(rdbuf + word_of_int r := 0)) rdbuf 0 False [])) (\<lambda>(um, argv).
        let s1 = put_user_mem pid um s; argv0 = (case argv of [] \<Rightarrow> 0 | a # _ \<Rightarrow> a)
        in obind (open_call pid argv0 O_RDWR s1) (\<lambda>(fd, s2).
           if fd = Some (-1) then
             (if um rdbuf \<noteq> 0 then
                obind (write_call pid FD_STDOUT (lit [CHR 34]) 1 s2) (\<lambda>(_, s3).
                obind (write_call pid FD_STDOUT rdbuf r s3) (\<lambda>(_, s4).
                obind (write_call pid FD_STDOUT (lit ([CHR 34] @ '' not found '' @ [CHR 10])) 13 s4) (\<lambda>(_, s5). Inr (NotFound, s5))))
              else Inr (NotFound, s2))
           else obind (close_call pid (the fd) s2) (\<lambda>(_, s3). Inr (Run argv, s3)))))"

text \<open>Running a program: the parent forks and waits, the child executes it.\<close>

definition shell_parent :: "int \<Rightarrow> pm \<Rightarrow> ((int \<times> int) option \<times> pm) outcome" where
  "shell_parent pid s =
     obind (fork_call pid s) (\<lambda>(r, s1). case r of None \<Rightarrow> Inr (None, s1) | Some child \<Rightarrow> wait_call pid s1)"

definition shell_child :: "int \<Rightarrow> u32 list \<Rightarrow> u32 \<Rightarrow> u32 \<Rightarrow> pm \<Rightarrow> (int option \<times> pm) outcome" where
  "shell_child pid argv argv_addr argv_stack s = execv_call pid (case argv of [] \<Rightarrow> 0 | a # _ \<Rightarrow> a) argv_addr argv_stack s"

section \<open>Splitting a line\<close>

text \<open>The words of a line, with the letters of the current word so far.\<close>

fun words_from :: "u8 list \<Rightarrow> u8 list \<Rightarrow> u8 list list" where
  "words_from w [] = (if w = [] then [] else [w])"
| "words_from w (c # cs) =
     (if c = 32 then (if w = [] then words_from [] cs else w # words_from [] cs) else words_from (w @ [c]) cs)"

lemma words_from_letters: "concat (words_from w cs) = w @ filter (\<lambda>c. c \<noteq> 32) cs"
  by (induction w cs rule: words_from.induct) auto

lemma words_from_words: "32 \<notin> set w \<Longrightarrow> v \<in> set (words_from w cs) \<Longrightarrow> v \<noteq> [] \<and> 32 \<notin> set v"
  by (induction w cs rule: words_from.induct) (auto split: if_splits)

text \<open>The loop from a position \<open>p\<close> on, when the letters \<open>w\<close> of the current word are just before it.\<close>

lemma unat_minus_of_nat:
  assumes "0 < k" "k < 4294967296"
  shows "unat (- of_nat k :: u32) = 4294967296 - k"
proof -
  have u: "unat (of_nat k :: u32) = k" using assms(2) by (rule unat_of_nat_u32)
  with assms(1) have "(of_nat k :: u32) \<noteq> 0" by auto
  with u show ?thesis by (simp add: unat_u32_uminus)
qed

lemma before_position:
  assumes "i < n" "n < 2147483648"
  shows "2147483648 < unat (p - of_nat n + of_nat i - p :: u32)" "p - of_nat n + of_nat i \<noteq> (p :: u32)"
    "2147483648 \<le> unat (p - of_nat n + of_nat i - (p + 1) :: u32)"
proof -
  have eq: "p - of_nat n + of_nat i - p = - of_nat (n - i)" using assms(1) by (simp add: of_nat_diff)
  show far: "2147483648 < unat (p - of_nat n + of_nat i - p)"
    unfolding eq using assms by (subst unat_minus_of_nat) auto
  then show ne: "p - of_nat n + of_nat i \<noteq> p" by auto
  from unat_step_back(1) [OF ne] far show "2147483648 \<le> unat (p - of_nat n + of_nat i - (p + 1))" by simp
qed

lemma tokens_words:
  assumes "is_cstr um p cs" "32 \<notin> set w" "length w + length cs < 2147483648"
    and "w \<noteq> [] \<longrightarrow> s = p - of_nat (length w) \<and> (\<forall>i < length w. um (s + of_nat i) = w ! i \<and> w ! i \<noteq> 0)"
  shows "\<exists>um' ps. tokens um p s (w \<noteq> []) argv = Some (um', argv @ ps) \<and> (\<forall>x. length cs < unat (x - p) \<longrightarrow> um' x = um x) \<and>
    list_all2 (is_cstr um') ps (words_from w cs)"
  using assms
proof (induction cs arbitrary: um p s w argv)
  case Nil
  show ?case
  proof (cases "w = []")
    case True
    then show ?thesis using Nil.prems(1) by (intro exI [of _ um] exI [of _ "[]"]) (subst tokens.simps, simp)
  next
    case False
    have "is_cstr (um(p := 0)) s (w @ [])"
      unfolding is_cstr_append using Nil.prems(3, 4) False before_position(2) [of _ "length w" p] by auto
    then show ?thesis using Nil.prems(1) False
      by (intro exI [of _ "um(p := 0)"] exI [of _ "[s]"]) (subst tokens.simps, simp)
  qed
next
  case (Cons c cs)
  have c: "um p = c" "c \<noteq> 0" "is_cstr um (p + 1) cs" using Cons.prems(1) by simp_all
  have far: "length (c # cs) < unat (x - p) \<Longrightarrow> length cs < unat (x - (p + 1))" for x
    using unat_step_back [of x p] by (cases "x = p") auto
  show ?case
  proof (cases "c = 32")
    case False
    let ?s = "if w = [] then p else s"
    have step: "tokens um p s (w \<noteq> []) argv = tokens um (p + 1) ?s (w @ [c] \<noteq> []) argv"
      using c False by (subst tokens.simps) (auto simp: Let_def)
    have len: "?s = p + 1 - of_nat (length (w @ [c]))" using Cons.prems(4) by auto
    have "\<forall>i < length (w @ [c]). um (?s + of_nat i) = (w @ [c]) ! i \<and> (w @ [c]) ! i \<noteq> 0"
      using Cons.prems(4) c(1, 2) by (auto simp: nth_append less_Suc_eq)
    with len have "\<exists>um' ps. tokens um (p + 1) ?s (w @ [c] \<noteq> []) argv = Some (um', argv @ ps) \<and>
        (\<forall>x. length cs < unat (x - (p + 1)) \<longrightarrow> um' x = um x) \<and> list_all2 (is_cstr um') ps (words_from (w @ [c]) cs)"
      using Cons.prems(2, 3) False by (intro Cons.IH [OF c(3)]) auto
    then show ?thesis unfolding step using False far by auto
  next
    case True
    let ?um = "if w = [] then um else um(p := 0)" and ?argv = "if w = [] then argv else argv @ [s]"
    have step: "tokens um p s (w \<noteq> []) argv = tokens ?um (p + 1) s ([] \<noteq> ([] :: u8 list)) ?argv"
      using c True by (subst tokens.simps) (auto simp: Let_def)
    have "length cs < unat (p - (p + 1))" using Cons.prems(3) by (simp add: unat_u32_minus_one)
    with c(3) have "is_cstr ?um (p + 1) cs" by (simp add: is_cstr_upd)
    from Cons.IH [OF this, of "[]" s ?argv] Cons.prems(3) obtain um' ps where
      um': "tokens ?um (p + 1) s ([] \<noteq> ([] :: u8 list)) ?argv = Some (um', ?argv @ ps)"
      "\<forall>x. length cs < unat (x - (p + 1)) \<longrightarrow> um' x = ?um x" "list_all2 (is_cstr um') ps (words_from [] cs)" by auto
    have frame: "um' x = um x" if "length (c # cs) < unat (x - p)" for x
    proof -
      have "x \<noteq> p" using that by auto
      with um'(2) far [OF that] show ?thesis by simp
    qed
    show ?thesis
    proof (cases "w = []")
      case True
      with um' frame \<open>c = 32\<close> show ?thesis unfolding step by auto
    next
      case False
      have "is_cstr (um(p := 0)) s (w @ [])"
        unfolding is_cstr_append using Cons.prems(3, 4) False before_position(2) [of _ "length w" p] by auto
      then have "is_cstr um' s (w @ [])"
      proof (rule is_cstr_cong)
        fix i assume "i \<le> length (w @ [])"
        then have i: "i < length w \<or> i = length w" by auto
        have "length cs < unat (s + of_nat i - (p + 1))"
          using i before_position(3) [of i "length w" p] Cons.prems(3, 4) False by (auto simp: unat_u32_minus_one)
        with um'(2) False show "um' (s + of_nat i) = (um(p := 0)) (s + of_nat i)" by simp
      qed
      with um' frame \<open>c = 32\<close> False show ?thesis unfolding step by (intro exI [of _ um'] exI [of _ "s # ps"]) simp
    qed
  qed
qed

text \<open>C39: The shell splits a line into its words. For every line the loop ends; the argument addresses are, in order,
  those of the words of the line, each a string of its own now; the words together have exactly the characters of
  the line that are not spaces, no word is empty and none has a space, and memory outside of the line is unchanged.\<close>

theorem shell_splits_line:
  assumes "is_cstr um p line" and "length line < 2147483648"
  shows "\<exists>um' argv. tokens um p s False [] = Some (um', argv) \<and> list_all2 (is_cstr um') argv (words_from [] line) \<and>
    concat (words_from [] line) = filter (\<lambda>c. c \<noteq> 32) line \<and> (\<forall>w \<in> set (words_from [] line). w \<noteq> [] \<and> 32 \<notin> set w) \<and>
    (\<forall>x. length line < unat (x - p) \<longrightarrow> um' x = um x)"
  using tokens_words [OF assms(1), of "[]" s "[]"] assms(2) words_from_letters [of "[]" line] words_from_words [of "[]" _ line] by auto

theorem shell_splits_line_witness:
  "\<exists>um' a b. tokens ((\<lambda>_. 0)(0x100 := 97, 0x101 := 98, 0x102 := 32, 0x103 := 32, 0x104 := 99)) 0x100 0 False [] = Some (um', [a, b]) \<and>
     is_cstr um' a [97, 98] \<and> is_cstr um' b [99]"
  using shell_splits_line [of "(\<lambda>_. 0)(0x100 := 97, 0x101 := 98, 0x102 := 32, 0x103 := 32, 0x104 := 99)" "0x100" "[97, 98, 32, 32, 99]" 0]
  by (auto simp: list_all2_Cons2)

end
