(* ===== verification/Programs.thy ===== *)
theory Programs
  imports Untar Consoles Shell Sys
begin

text \<open>
  The programs: \<^verbatim>\<open>Init\<close> of \<^verbatim>\<open>src/kernel/process.c\<close>, and \<^verbatim>\<open>echo\<close> and \<^verbatim>\<open>pwd\<close> of \<^verbatim>\<open>src/app\<close>, with what a write to a terminal does.

  A program runs from one library call to the next. \<^verbatim>\<open>Init\<close> is split where processes are split: \<open>init_begin\<close> up to the first fork, \<open>init_spawn\<close>
  in the parent, \<open>init_child\<close> in a child up to the shell's loop, and \<open>init_reap\<close> for one round of the loop that waits for children. The strings of the
  arguments of a program are read from its memory; \<open>lit\<close> gives the addresses of string literals.
\<close>

unbundle bit_operations_syntax

section \<open>The code\<close>

definition init_begin :: "int \<Rightarrow> (string \<Rightarrow> u32) \<Rightarrow> u32 \<Rightarrow> u32 \<Rightarrow> fs \<Rightarrow> fs outcome" where
  "init_begin pid lit pbuf buf s =
     obind (answered (open_call pid (lit ''/dev_tty0'') O_RDWR s)) (\<lambda>(fd_stdin, s1).
     obind (answered (open_call pid (lit ''/dev_tty0'') O_RDWR s1)) (\<lambda>(fd_stdout, s2).
     c_assert (fd_stdin = 0) (c_assert (fd_stdout = 1)
       (obind (printf_text pid pbuf ''^nInit: First process is running^n'' [] s2) (\<lambda>s3.
        obind (untar pid pbuf buf (lit ''/cmd.tar'') s3) (\<lambda>s4. printf_text pid pbuf ''^n'' [] s4))))))"

definition tty_list :: "string list" where
  "tty_list = [''/dev_tty1'', ''/dev_tty2'']"

definition init_fork :: "int \<Rightarrow> u32 \<Rightarrow> pm \<Rightarrow> pm outcome" where
  "init_fork pid pbuf s =
     obind (fork_call pid s) (\<lambda>(r, s1).
       case r of None \<Rightarrow> Inl Diverges
       | Some child \<Rightarrow> obind (printf_text pid pbuf ''Init: Parent is running, forked child pid:%d^n'' [Num child] (pfs s1)) (\<lambda>f. Inr (s1\<lparr>pfs := f\<rparr>)))"

fun init_spawn :: "int \<Rightarrow> u32 \<Rightarrow> string list \<Rightarrow> pm \<Rightarrow> pm outcome" where
  "init_spawn pid pbuf [] s = Inr s"
| "init_spawn pid pbuf (tty # rest) s = obind (init_fork pid pbuf s) (init_spawn pid pbuf rest)"

definition init_child :: "(u8 \<Rightarrow> u8) \<Rightarrow> u32 \<Rightarrow> int \<Rightarrow> (string \<Rightarrow> u32) \<Rightarrow> u32 \<Rightarrow> string \<Rightarrow> fs \<Rightarrow> fs outcome" where
  "init_child cmos t_addr pid lit pbuf tty s =
     obind (getpid cmos t_addr pid (fkern s)) (\<lambda>(p, k).
     obind (printf_text pid pbuf ''Init: Child  is running, pid:%d^n'' [Num p] (upd_kern (\<lambda>_. k) s)) (\<lambda>s1.
     obind (answered (close_call pid 0 s1)) (\<lambda>(_, s2).
     obind (answered (close_call pid 1 s2)) (\<lambda>(_, s3). shell_start pid (lit tty) s3))))"

definition init_reap :: "int \<Rightarrow> u32 \<Rightarrow> pm \<Rightarrow> (unit option \<times> pm) outcome" where
  "init_reap pid pbuf s =
     obind (wait_call pid s) (\<lambda>(r, s1).
       case r of None \<Rightarrow> Inr (None, s1)
       | Some (child, status) \<Rightarrow>
           obind (printf_text pid pbuf ''child (%d) exited with status: %d.^n'' [Num child, Num status] (pfs s1)) (\<lambda>f. Inr (Some (), s1\<lparr>pfs := f\<rparr>)))"

function echo_loop :: "int \<Rightarrow> u32 \<Rightarrow> u32 \<Rightarrow> int \<Rightarrow> int \<Rightarrow> fs \<Rightarrow> fs outcome" where
  "echo_loop pid pbuf argv argc i s =
     (if i < argc then
        obind (of_loop (read_cstr (user_mem pid s) (rd32 (user_mem pid s) (argv + word_of_int (4 * i))))) (\<lambda>arg.
        obind (printf_text pid pbuf ''%s%s'' [Str (if i = 1 then [] else [32]), Str arg] s) (echo_loop pid pbuf argv argc (i + 1)))
      else Inr s)"
  by pat_completeness auto
termination
  by (relation "measure (\<lambda>(pid, pbuf, argv, argc, i, s). nat (argc - i))") auto

declare echo_loop.simps [simp del]

definition echo_main :: "int \<Rightarrow> u32 \<Rightarrow> int \<Rightarrow> u32 \<Rightarrow> fs \<Rightarrow> (int \<times> fs) outcome" where
  "echo_main pid pbuf argc argv s =
     obind (echo_loop pid pbuf argv argc 1 s) (\<lambda>s1. obind (printf_text pid pbuf ''^n'' [] s1) (\<lambda>s2. Inr (0, s2)))"

definition pwd_main :: "int \<Rightarrow> u32 \<Rightarrow> int \<Rightarrow> u32 \<Rightarrow> fs \<Rightarrow> (int \<times> fs) outcome" where
  "pwd_main pid pbuf argc argv s = obind (printf_text pid pbuf ''/^n'' [] s) (\<lambda>s1. Inr (0, s1))"

section \<open>Writing to a terminal\<close>

text \<open>Entry \<open>fd\<close> of the process is open for writing on terminal \<open>k\<close>.\<close>

definition on_terminal :: "int \<Rightarrow> int \<Rightarrow> nat \<Rightarrow> fs \<Rightarrow> bool" where
  "on_terminal pid fd k s \<longleftrightarrow> k < 3 \<and> screen_wf (screen (fkern s)) \<and> 0 \<le> fd \<and> fd < int (length (file_desc (proc_at (fkern s) pid))) \<and>
     (\<exists>d i. file_desc (proc_at (fkern s) pid) ! nat fd = Some d \<and> d < length (file_desc_table s) \<and> fd_mode (file_desc_table s ! d) AND 2 \<noteq> 0 \<and>
        fd_inode (file_desc_table s ! d) = Some i \<and> i < length (inode_table s) \<and>
        inode_file_type (inode_table s ! i) AND TYPE_MASK = TYPE_SPECIAL_CHAR \<and> sint (inode_sect_start (inode_table s ! i)) = 1024 + int k)"

definition displays :: "int \<Rightarrow> nat \<Rightarrow> u8 list \<Rightarrow> fs \<Rightarrow> fs \<Rightarrow> bool" where
  "displays pid k text s s' \<longleftrightarrow> print_chars k text (screen (fkern s)) = Inr (screen (fkern s')) \<and> screen_wf (screen (fkern s')) \<and>
     proc_at (fkern s') = proc_at (fkern s) \<and> file_desc_table s' = file_desc_table s \<and> inode_table s' = inode_table s"

lemma on_terminal_displays: "on_terminal pid fd k s \<Longrightarrow> displays pid k text s s' \<Longrightarrow> on_terminal pid fd k s'"
  by (simp add: on_terminal_def displays_def)

lemma proc_at_screen: "proc_at (k\<lparr>kmem := m, screen := v\<rparr>) = proc_at k"
  by (simp add: fun_eq_iff proc_at_def)

lemma write_call_terminal:
  assumes t: "on_terminal pid fd k s" and la: "proc_va2la (fkern s) pid buf = Inr la" and bs: "8 \<notin> set (read_bytes (fmem s) la n)"
  shows "\<exists>s'. write_call pid fd buf (int n) s = Inr (Some (int n), s') \<and> displays pid k (read_bytes (fmem s) la n) s s' \<and> fmem s' = fmem s"
proof -
  obtain d i where di: "file_desc (proc_at (fkern s) pid) ! nat fd = Some d" "d < length (file_desc_table s)" "fd_mode (file_desc_table s ! d) AND 2 \<noteq> 0"
    "fd_inode (file_desc_table s ! d) = Some i" "i < length (inode_table s)"
    "inode_file_type (inode_table s ! i) AND TYPE_MASK = TYPE_SPECIAL_CHAR" "sint (inode_sect_start (inode_table s ! i)) = 1024 + int k"
    and k: "k < 3" and wf: "screen_wf (screen (fkern s))" and fd: "0 \<le> fd" "fd < int (length (file_desc (proc_at (fkern s) pid)))"
    using t by (auto simp: on_terminal_def)
  have "k < length (console_table (screen (fkern s)))" using k wf by (simp add: screen_wf_def)
  then obtain v where v: "print_chars k (read_bytes (fmem s) la n) (screen (fkern s)) = Inr v" "only_console k (screen (fkern s)) v"
    using print_chars_wf [OF screen_wf_at [OF wf k] _ bs] by blast
  note wf' = only_console_wf(1) [OF v(2) wf]
  have "k = 0 \<or> k = 1 \<or> k = 2" using k by linarith
  then have "(1024 + int k) div 256 = 4" "(1024 + int k) mod 256 = int k" by auto
  then have dev: "GET_DEV_MAJOR_NR (1024 + int k) = 4" "GET_DEV_MINOR_NR (1024 + int k) = int k" by (simp_all add: GET_DEV_MAJOR_NR_def GET_DEV_MINOR_NR_def)
  then have drv: "driver_of (1024 + int k) = Inr TASK_TTY" by (simp add: driver_of_def dev_drv_map_def)
  let ?m = "zero_msg\<lparr>type := FS_WRITE, FD := fd, BUF := buf, CNT := int n, source := pid\<rparr>" and ?s = "\<lambda>m. s\<lparr>fs_msg := m, caller_proc := pid\<rparr>"
  have "\<exists>s' r. do_read_write (?s ?m) = Inr (int n, s') \<and> displays pid k (read_bytes (fmem s) la n) s s' \<and> fmem s' = fmem s \<and> type (fs_msg s') = SYSCALL_RET"
    using di fd la v(1) wf' dev drv
    by (simp add: do_read_write_def do_read_write_special_def Let_def drv_call_def tty_exchange_def tty_handle_msg_def tty_do_write_def tsend_def
        upd_kern_def displays_def zero_msg_def proc_at_screen)
  then show ?thesis
    by (auto simp: write_call_def fs_call_def task_fs_round_def fs_dispatch_def set_reply_def call_result_def Let_def displays_def)
qed

text \<open>A process of its own segment prints.\<close>

lemma user_va2la: "9 \<le> pid \<Longrightarrow> proc_va2la (fkern s) pid a = Inr (user_base pid s + a)"
  by (simp add: proc_va2la_def user_base_def Let_def)

lemma put_user_mem_simps [simp]:
  "fkern (put_user_mem pid um s) = (fkern s)\<lparr>kmem := (\<lambda>a. um (a - user_base pid s))\<rparr>" "file_desc_table (put_user_mem pid um s) = file_desc_table s"
  "inode_table (put_user_mem pid um s) = inode_table s" "user_base p (put_user_mem pid um s) = user_base p s" "user_mem pid (put_user_mem pid um s) = um"
  by (simp_all add: put_user_mem_def upd_fmem_def upd_mem_def user_base_def proc_at_kmem user_mem_def)

lemma read_own:
  assumes "length (xs @ ys) < 4294967296"
  shows "read_bytes (write_bytes m a (xs @ ys)) a (length xs) = xs"
proof (rule nth_equalityI)
  fix i assume i: "i < length (read_bytes (write_bytes m a (xs @ ys)) a (length xs))"
  then have "unat (of_nat i :: u32) = i" using assms by (intro unat_of_nat_u32) simp
  then show "read_bytes (write_bytes m a (xs @ ys)) a (length xs) ! i = xs ! i"
    using i write_bytes_eq [OF assms, of m a "a + of_nat i"] by (simp add: nth_append)
qed simp

lemma displays_base: "displays pid k text s s' \<Longrightarrow> user_base p s' = user_base p s"
  by (simp add: displays_def user_base_def)

lemma printf_text_terminal:
  assumes t: "on_terminal pid 1 k s" and pid: "9 \<le> pid" and out: "length (sprintf_text f as) < 1024" "8 \<notin> set (sprintf_text f as)"
  shows "\<exists>s'. printf_text pid pbuf f as s = Inr s' \<and> displays pid k (sprintf_text f as) s s' \<and>
    user_mem pid s' = write_bytes (user_mem pid s) pbuf (sprintf_text f as @ [0])"
proof -
  let ?out = "sprintf_text f as"
  let ?um = "write_bytes (user_mem pid s) pbuf (?out @ [0])"
  let ?s = "put_user_mem pid ?um s"
  have t1: "on_terminal pid 1 k ?s" using t by (simp add: on_terminal_def proc_at_kmem)
  have "read_bytes (fmem ?s) (user_base pid s + pbuf) (length ?out) = read_bytes ?um pbuf (length ?out)"
    by (simp add: read_bytes_def algebra_simps)
  also have "\<dots> = ?out" using out(1) by (intro read_own) simp
  finally have bytes: "read_bytes (fmem ?s) (user_base pid s + pbuf) (length ?out) = ?out" .
  have la: "proc_va2la (fkern ?s) pid pbuf = Inr (user_base pid s + pbuf)" using user_va2la [OF pid, of ?s] by simp
  obtain s' where s': "write_call pid 1 pbuf (int (length ?out)) ?s = Inr (Some (int (length ?out)), s')" "displays pid k ?out ?s s'" "fmem s' = fmem ?s"
    using write_call_terminal [OF t1 la, of "length ?out"] out(2) unfolding bytes by blast
  have "printf_text pid pbuf f as s = Inr s'" using s'(1) out(1) by (simp add: printf_text_def answered_def Let_def)
  moreover have "displays pid k ?out s s'" using s'(2) by (simp add: displays_def proc_at_kmem)
  moreover have "user_mem pid s' = ?um" using s'(3) displays_base [OF s'(2), of pid] by (simp add: user_mem_def fun_eq_iff)
  ultimately show ?thesis by blast
qed

section \<open>echo\<close>

lemma print_chars_append: "print_chars k (as @ bs) v = obind (print_chars k as v) (print_chars k bs)"
proof (induction as arbitrary: v)
  case (Cons a as)
  then have "print_chars k (as @ bs) = (\<lambda>x. obind (print_chars k as x) (print_chars k bs))" by (simp add: fun_eq_iff)
  then show ?case by (simp add: obind_assoc)
qed simp

lemma displays_trans: "displays pid k as s s1 \<Longrightarrow> displays pid k bs s1 s2 \<Longrightarrow> displays pid k (as @ bs) s s2"
  by (simp add: displays_def print_chars_append)

lemma displays_nothing: "on_terminal pid fd k s \<Longrightarrow> displays pid k [] s s"
  by (simp add: displays_def on_terminal_def)

text \<open>The arguments of a program in its memory, outside of the buffer of \<^verbatim>\<open>printf\<close>.\<close>

definition args_in :: "mem \<Rightarrow> u32 \<Rightarrow> u32 \<Rightarrow> u8 list list \<Rightarrow> bool" where
  "args_in um pbuf argv ws \<longleftrightarrow> (\<forall>j < length ws. let a = argv + of_nat (4 * j); p = rd32 um a
     in (\<forall>n < 4. 1024 \<le> unat (a + of_nat n - pbuf)) \<and> is_cstr um p (ws ! j) \<and> (\<forall>n \<le> length (ws ! j). 1024 \<le> unat (p + of_nat n - pbuf)))"

lemma args_in_keep:
  assumes "args_in um pbuf argv ws" "\<And>x. 1024 \<le> unat (x - pbuf) \<Longrightarrow> um' x = um x"
  shows "args_in um' pbuf argv ws"
proof -
  have "rd32 um' a = rd32 um a" if "\<forall>n < 4. 1024 \<le> unat (a + of_nat n - pbuf)" for a
    by (rule rd32_cong) (use that assms(2) in blast)
  moreover have "is_cstr um' p w" if "is_cstr um p w" "\<forall>n \<le> length w. 1024 \<le> unat (p + of_nat n - pbuf)" for p w
    by (rule is_cstr_cong [OF that(1)]) (use that(2) assms(2) in blast)
  ultimately show ?thesis using assms(1) by (simp add: args_in_def Let_def)
qed

fun echo_text :: "u8 list list \<Rightarrow> u8 list" where
  "echo_text [] = []"
| "echo_text (w # ws) = w @ concat (map (\<lambda>v. 32 # v) ws)"

lemma takeWhile_nz: "0 \<notin> set bs \<Longrightarrow> takeWhile (\<lambda>b. b \<noteq> (0 :: u8)) bs = bs"
  by (auto simp: takeWhile_eq_all_conv)

lemma cstr_nz: "is_cstr m p bs \<Longrightarrow> 0 \<notin> set bs"
  by (induction m p bs rule: is_cstr.induct) auto

lemma sprintf_two: "0 \<notin> set a \<Longrightarrow> 0 \<notin> set b \<Longrightarrow> sprintf_text ''%s%s'' [Str a, Str b] = a @ b"
  by (simp add: sprintf_text_def c_text_def fmt_out.simps pad_inner_def width_of_def is_digit_def Let_def takeWhile_nz)

lemma sprintf_newline: "sprintf_text ''^n'' [] = [10]"
  by (simp add: sprintf_text_def c_text_def fmt_out.simps)

lemma echo_loop_shows:
  assumes "on_terminal pid 1 k s" "9 \<le> pid" "args_in (user_mem pid s) pbuf argv ws" "\<forall>w \<in> set ws. length w < 1000 \<and> 8 \<notin> set w" "1 \<le> i"
  shows "\<exists>s'. echo_loop pid pbuf argv (int (length ws)) (int i) s = Inr s' \<and>
    displays pid k (if i = 1 then echo_text (drop i ws) else concat (map (\<lambda>v. 32 # v) (drop i ws))) s s'"
  using assms
proof (induction "length ws - i" arbitrary: i s)
  case 0
  then show ?case using displays_nothing by (intro exI [of _ s]) (simp add: echo_loop.simps)
next
  case (Suc n)
  then have i: "i < length ws" by simp
  let ?um = "user_mem pid s" and ?w = "ws ! i" and ?sep = "if i = 1 then [] else [32 :: u8]"
  let ?out = "sprintf_text ''%s%s'' [Str ?sep, Str ?w]"
  have w: "length ?w < 1000" "8 \<notin> set ?w" using Suc.prems(4) i nth_mem by blast+
  have str: "is_cstr ?um (rd32 ?um (argv + of_nat (4 * i))) ?w" using Suc.prems(3) i by (simp add: args_in_def Let_def)
  have out: "?out = ?sep @ ?w" using cstr_nz [OF str] by (intro sprintf_two) simp_all
  then have sz: "length ?out < 1024" "8 \<notin> set ?out" using w by (cases "i = 1"; simp)+
  have a: "argv + word_of_int (4 * int i) = argv + of_nat (4 * i)" by simp
  from str have rd: "read_cstr ?um (rd32 ?um (argv + word_of_int (4 * int i))) = Some ?w" unfolding a by (rule read_cstr_is)
  obtain s1 where s1: "printf_text pid pbuf ''%s%s'' [Str ?sep, Str ?w] s = Inr s1" "displays pid k ?out s s1" "user_mem pid s1 = write_bytes ?um pbuf (?out @ [0])"
    using printf_text_terminal [OF Suc.prems(1, 2) sz] by blast
  have "user_mem pid s1 x = ?um x" if "1024 \<le> unat (x - pbuf)" for x
    unfolding s1(3) using write_bytes_eq [of "?out @ [0]" ?um pbuf x] that sz(1) by simp
  then have ar: "args_in (user_mem pid s1) pbuf argv ws" by (rule args_in_keep [OF Suc.prems(3)])
  have "n = length ws - Suc i" using Suc.hyps(2) by simp
  from Suc.hyps(1) [OF this on_terminal_displays [OF Suc.prems(1) s1(2)] Suc.prems(2) ar Suc.prems(4)] Suc.prems(5) obtain s' where
    s': "echo_loop pid pbuf argv (int (length ws)) (int (Suc i)) s1 = Inr s'" "displays pid k (concat (map (\<lambda>v. 32 # v) (drop (Suc i) ws))) s1 s'" by auto
  have "echo_loop pid pbuf argv (int (length ws)) (int i) s = Inr s'"
    using i rd s1(1) s'(1) by (subst echo_loop.simps) (simp add: add.commute)
  moreover have "displays pid k ((?sep @ ?w) @ concat (map (\<lambda>v. 32 # v) (drop (Suc i) ws))) s s'"
    using displays_trans [OF s1(2) s'(2)] unfolding out .
  moreover have "drop i ws = ?w # drop (Suc i) ws" using i by (simp add: Cons_nth_drop_Suc)
  ultimately show ?case by (cases "i = 1") simp_all
qed

text \<open>C40: \<^verbatim>\<open>echo\<close> shows its arguments. A process of the user whose standard output is a terminal, with its argument vector in its memory, runs to the
  end, and the screen is what printing the arguments from the second on, separated by single blanks, and a newline on the console of that terminal makes of it;
  the tables of processes, descriptors and inodes stay as they are.\<close>

theorem echo_shows_arguments:
  assumes "on_terminal pid 1 k s" and "9 \<le> pid" and "args_in (user_mem pid s) pbuf argv ws" and "\<forall>w \<in> set ws. length w < 1000 \<and> 8 \<notin> set w"
  shows "\<exists>s'. echo_main pid pbuf (int (length ws)) argv s = Inr (0, s') \<and>
    print_chars k (echo_text (drop 1 ws) @ [10]) (screen (fkern s)) = Inr (screen (fkern s')) \<and>
    proc_at (fkern s') = proc_at (fkern s) \<and> file_desc_table s' = file_desc_table s \<and> inode_table s' = inode_table s"
proof -
  obtain s1 where s1: "echo_loop pid pbuf argv (int (length ws)) 1 s = Inr s1" "displays pid k (echo_text (drop 1 ws)) s s1"
    using echo_loop_shows [OF assms, of 1] by auto
  obtain s2 where s2: "printf_text pid pbuf ''^n'' [] s1 = Inr s2" "displays pid k [10] s1 s2"
    using printf_text_terminal [OF on_terminal_displays [OF assms(1) s1(2)] assms(2), of "''^n''" "[]" pbuf] by (auto simp: sprintf_newline)
  have "echo_main pid pbuf (int (length ws)) argv s = Inr (0, s2)" using s1(1) s2(1) by (simp add: echo_main_def)
  then show ?thesis using displays_trans [OF s1(2) s2(2)] by (auto simp: displays_def)
qed

text \<open>A process with \<^verbatim>\<open>echo hi\<close> in its memory, on the second terminal.\<close>

definition echo_mem :: mem where
  "echo_mem = (\<lambda>_. 0)(0x101 := 2, 0x104 := 0x10, 0x105 := 2, 0x200 := 101, 0x201 := 99, 0x202 := 104, 0x203 := 111, 0x210 := 104, 0x211 := 105)"

definition echo_fs :: fs where
  "echo_fs = (upd_kern (\<lambda>k. k\<lparr>proc_table := (proc_table k)[9 := zero_proc\<lparr>file_desc := (replicate 64 None)[1 := Some 0]\<rparr>], kmem := echo_mem,
       screen := \<lparr>console_table = map (\<lambda>nr. init_console (int nr)) [0, 1, 2], current_console = 1, vram = (\<lambda>_. 0), outs = []\<rparr>\<rparr>) sample_fs)
     \<lparr>file_desc_table := [\<lparr>fd_mode = 2, fd_pos = 0, fd_cnt = 1, fd_inode = Some 0\<rparr>],
      inode_table := [sample_file\<lparr>inode_file_type := TYPE_SPECIAL_CHAR, inode_sect_start := 1025\<rparr>]\<rparr>"

theorem echo_shows_arguments_witness:
  "\<exists>s'. echo_main 9 0x10000 2 0x100 echo_fs = Inr (0, s') \<and> print_chars 1 [104, 105, 10] (screen (fkern echo_fs)) = Inr (screen (fkern s'))"
proof -
  have proc: "proc_at (fkern echo_fs) 9 = zero_proc\<lparr>file_desc := (replicate 64 None)[1 := Some 0]\<rparr>"
    by (simp add: echo_fs_def upd_kern_def sample_fs_def sample_machine_def proc_at_def)
  have "screen_wf (screen (fkern echo_fs))" using init_console_wf [of 0] init_console_wf [of 1] init_console_wf [of 2]
    by (simp add: echo_fs_def upd_kern_def screen_wf_def)
  then have t: "on_terminal 9 1 1 echo_fs" unfolding on_terminal_def proc by (simp add: echo_fs_def)
  have "user_base 9 echo_fs = 0" by (simp add: user_base_def proc ldt_idx_to_base_addr_def zero_proc_def zero_gdt_desc_def)
  then have um: "user_mem 9 echo_fs = echo_mem" by (simp add: user_mem_def) (simp add: echo_fs_def upd_kern_def)
  have rd: "rd32 echo_mem 0x100 = 0x200" "rd32 echo_mem 0x104 = 0x210" by (simp_all add: echo_mem_def rd32_def)
  have str: "is_cstr echo_mem 0x200 [101, 99, 104, 111]" "is_cstr echo_mem 0x210 [104, 105]" by (simp_all add: echo_mem_def)
  have far: "1024 \<le> unat (a + of_nat n - 0x10000 :: u32)" if "unat a \<le> 0x210" "n \<le> 4" for a n
  proof -
    have "a + of_nat n - 0x10000 = of_nat (4294967296 - 0x10000 + (unat a + n))" by simp
    moreover have "unat a + n < 0x300" using that by simp
    ultimately show ?thesis by (simp only: unat_of_nat_u32)
  qed
  have "args_in (user_mem 9 echo_fs) 0x10000 0x100 [[101, 99, 104, 111], [104, 105]]"
    unfolding um args_in_def
  proof (intro allI impI)
    fix j assume "j < length [[101, 99, 104, 111], [104 :: u8, 105]]"
    then consider "j = 0" | "j = 1" by fastforce
    then show "let a = 0x100 + of_nat (4 * j); p = rd32 echo_mem a in (\<forall>n < 4. 1024 \<le> unat (a + of_nat n - 0x10000)) \<and>
        is_cstr echo_mem p ([[101, 99, 104, 111], [104, 105]] ! j) \<and> (\<forall>n \<le> length ([[101, 99, 104, 111], [104 :: u8, 105]] ! j). 1024 \<le> unat (p + of_nat n - 0x10000))"
      using str far [of "0x100"] far [of "0x104"] far [of "0x200"] far [of "0x210"] by cases (simp_all add: Let_def rd del: is_cstr.simps)
  qed
  from echo_shows_arguments [OF t _ this] show ?thesis by auto
qed

end
