(* ===== verification/Spec2Isabelle.thy ===== *)
theory Spec2Isabelle
  imports IpcQueue FsInit FsDir FsFull OsBoot Fair FdDump Start Ports Irq Programs
begin

text \<open>
  A verification library for kOS, a small x86 micro-kernel operating system. A kernel schedules processes and
  passes messages between them; device drivers and server tasks (terminal, system, hard disk, file system, process
  manager) do everything else, and user programs reach them by messages only.

  \<^bold>\<open>How the parts interact.\<close> A library function of \<^verbatim>\<open>src/lib\<close> fills a message and traps into \<^verbatim>\<open>sys_send_rcv_handler\<close>
  (\<^verbatim>\<open>src/kernel/ipc.c\<close>), which hands it to a waiting receiver or blocks the caller in the receiver's queue. Each task
  under \<^verbatim>\<open>src/task\<close> is a loop that receives a request, changes its own tables and answers. The file system task asks the
  disk task for sectors and the terminal task for characters; the process manager asks the file system about the
  open files of a process that forks or exits. Interrupts reach tasks as messages from \<^verbatim>\<open>INTERRUPT\<close> or as flags that a
  task polls. All C code shares one flat memory of bytes; a process address is made linear by \<^verbatim>\<open>proc_va2la\<close>.

  \<^bold>\<open>Conventions.\<close> A \<^verbatim>\<open>u8\<close>, \<^verbatim>\<open>u16\<close>, \<^verbatim>\<open>u32\<close> or \<^verbatim>\<open>u64\<close> is a word of that width; an \<^verbatim>\<open>int\<close> is an HOL integer, brought back to 32 bits
  by \<open>s32\<close> where the code can leave the range. A failed \<^verbatim>\<open>assert\<close>, a \<^verbatim>\<open>panic\<close>, an access outside of a table and a wait that
  never ends are the left values of the type \<open>outcome\<close>; every function that can meet one returns an \<open>outcome\<close>. A loop
  that may run forever is a partial function into \<open>option\<close>, and the theorems that it returns say so. Pointers to
  entries of a table are indices, with \<open>None\<close> for the null pointer; pointers into memory are addresses.

  \<^bold>\<open>Theories and the code they model.\<close>

  \<^item> \<open>Prelude\<close>: the integer types, \<open>outcome\<close> with its sequencing \<open>obind\<close>, \<^verbatim>\<open>assert\<close>, the collections of simplification rules.
  \<^item> \<open>Memory\<close>: byte memory, \<^verbatim>\<open>memcpy\<close> and \<^verbatim>\<open>memset\<close> of \<^verbatim>\<open>src/lib/misc/string_a.asm\<close>, areas that are \<open>apart\<close>.
  \<^item> \<open>Strings\<close>: \<^verbatim>\<open>strlen\<close>, \<^verbatim>\<open>strcpy\<close>, \<^verbatim>\<open>memcmp\<close>, \<^verbatim>\<open>strcmp\<close>, \<^verbatim>\<open>strcat\<close>. \<open>Format\<close>: \<^verbatim>\<open>i2a\<close>, \<^verbatim>\<open>vsprintf\<close>, \<^verbatim>\<open>itoa\<close>.
    \<open>Sprintf\<close>: the same formatting with arguments given as values, for code with literal formats.
  \<^item> \<open>Desc\<close>: segment, gate and task-state descriptors, \<^verbatim>\<open>src/kernel/descriptor.c\<close>.
  \<^item> \<open>Screen\<close>: the consoles, \<^verbatim>\<open>src/device/console.c\<close>. The record \<open>vga\<close> has the console table, video memory and the ports written.
    \<open>Consoles\<close>: their well-formedness over every sequence of operations. \<open>Display\<close>: \<^verbatim>\<open>disp_str\<close> of \<^verbatim>\<open>src/kernel/kliba.asm\<close> and the report of an exception.
  \<^item> \<open>Proc\<close>: the record \<open>kernel\<close> (descriptor table, process table, current process, ticks, memory, screen), \<^verbatim>\<open>schedule\<close> and
    \<^verbatim>\<open>proc_va2la\<close> of \<^verbatim>\<open>src/kernel/process.c\<close>, the clock. \<open>Fair\<close>: runs of the clock interrupt. \<open>Boot\<close>: \<^verbatim>\<open>init_process\<close>, the boot parameters and the kernel's extent.
    \<open>Start\<close>: \<^verbatim>\<open>init_descriptors\<close>, from the loader's descriptor table to the kernel's.
  \<^item> \<open>Ipc\<close>: \<^verbatim>\<open>src/kernel/ipc.c\<close>, one definition per function. \<open>IpcInv\<close>: the steps of the kernel (\<open>kstep\<close>, \<open>reachable\<close>) and their
    invariant. \<open>IpcQueue\<close>: the linked queues of senders against lists. \<open>Msg\<close>: the layout of messages.
  \<^item> \<open>Ring\<close>: the locale \<open>bounded_queue\<close>. \<open>Keyboard\<close>: \<^verbatim>\<open>src/device/keyboard.c\<close> with its key map. \<open>Tty\<close>: \<^verbatim>\<open>src/task/task_tty.c\<close>.
  \<^item> \<open>Irq\<close>: \<^verbatim>\<open>src/device/8259.c\<close> and the interrupt set-up of \<^verbatim>\<open>main\<close>. \<open>Sys\<close>: \<^verbatim>\<open>src/task/task_sys.c\<close> with the CMOS clock.
  \<^item> \<open>Hd\<close>: \<^verbatim>\<open>src/device/hd.c\<close> over a drive of sectors, and one turn of \<^verbatim>\<open>src/task/task_hd.c\<close>. \<open>Disk\<close>: the locale \<open>block_device\<close>.
  \<^item> \<open>Fs\<close>, \<open>FsOps\<close>, \<open>FsInit\<close>: the file system task, \<^verbatim>\<open>src/task/task_fs.c\<close> and \<^verbatim>\<open>src/task/fs\<close>: data and sector access, the requests
    (open, close, lseek, read, write, unlink, stat), and the start with \<^verbatim>\<open>mkfs\<close>. The record \<open>fs\<close> holds the drive and kernel
    state below it, the terminal, and the tables of descriptors, inodes and super blocks.
  \<^item> \<open>FsInode\<close>, \<open>FsFiles\<close>, \<open>FsDir\<close>, \<open>FsData\<close>, \<open>FsRw\<close>: what is proved of inodes, open files, the directory and file contents.
    \<open>FsAlloc\<close>, \<open>FsMap\<close>, \<open>FsFree\<close>, \<open>FsFull\<close>: the
    inode map and the sector map, with the disk read as a string of bits. \<open>FsFrame\<close>, \<open>FsTurns\<close>: what requests leave alone, and one turn of the task at a time.
  \<^item> \<open>DiskLog\<close>, \<open>FdGraph\<close>, \<open>FdDump\<close>: \<^verbatim>\<open>disklog\<close>, \<^verbatim>\<open>syslog\<close> and \<^verbatim>\<open>dump_fd_graph\<close> of \<^verbatim>\<open>src/task/fs/disklog.c\<close>, cluster by cluster of the graph.
  \<^item> \<open>Pm\<close>, \<open>PmLife\<close>: the process manager, \<^verbatim>\<open>src/task/task_pm.c\<close> and \<^verbatim>\<open>src/task/pm\<close>. Messages it sends are a list in its state.
    \<open>OsInv\<close>, \<open>OsBoot\<close>: sequences of turns of the tasks and steps of the kernel, from start-up on.
  \<^item> \<open>Lib\<close>, \<open>UserLib\<close>: the wrappers of \<^verbatim>\<open>src/lib/fs\<close> and \<^verbatim>\<open>src/lib/pm\<close>, \<^verbatim>\<open>execv\<close>, \<^verbatim>\<open>printf\<close>. \<open>Shell\<close>: \<^verbatim>\<open>src/shell/shell.c\<close>.
    \<open>Untar\<close>, \<open>Programs\<close>: \<^verbatim>\<open>untar\<close> and \<^verbatim>\<open>Init\<close> of \<^verbatim>\<open>src/kernel/process.c\<close>, \<^verbatim>\<open>echo\<close> and \<^verbatim>\<open>pwd\<close>.
  \<^item> \<open>Debug\<close>: \<^verbatim>\<open>printl\<close>, \<^verbatim>\<open>assertion_failure\<close> and \<^verbatim>\<open>src/kernel/debug.c\<close>. \<open>Ports\<close>: the polling loops of the disk and the keyboard, and what the
    disk driver prints.

  \<^bold>\<open>Interfaces.\<close> \<open>bounded_queue\<close> is a queue that keeps what fits, in order; its lemmas are used for the scan codes (\<open>kbq\<close>) and
  for the keys of a terminal (\<open>keyq\<close>). \<open>block_device\<close> says what reading, changing and writing back a sector does;
  \<open>disk\<close> interprets it with \<^verbatim>\<open>RD_SECT\<close> and \<^verbatim>\<open>WR_SECT\<close> of the file system over the disk driver, so the
  lemmas on inodes, the directory and files never look into the driver. The abstract counterpart of the sender queues is
  one list per process, related by \<open>qrel\<close>.

  \<^bold>\<open>What is shown.\<close>

  \<^item> Message passing: in every reachable state each process is in one of three consistent communication states and no cycle of
    blocked senders exists, so the deadlock check terminates and is exact; sends and receives implement first-in-first-out queues.
  \<^item> Scheduling: \<^verbatim>\<open>schedule\<close> returns exactly when some runnable process has ticks or priority left and picks the one with most;
    a runnable process with ticks or priority left runs after a bounded number of clock interrupts.
  \<^item> Start-up: the descriptor tables made from the loader's, process table, interrupt gates and lines, the memory range given to
    \<^verbatim>\<open>INIT\<close>, and what an exception shows.
  \<^item> Terminals: both queues, line editing, printing and scrolling; cursor and window stay in their console and printing ends,
    except after a backspace at the start of a moved window; formatted output, and that \<^verbatim>\<open>printl\<close> always shows its text.
  \<^item> Disk: which requests complete, that data is read back, and that opening loads exactly the partitions on the disk.
  \<^item> File system: inodes survive the cache, what create takes from the bit maps is the first that is free and unlink gives exactly it
    back, path lookup finds the first entry of that name, data written to a file is read back and nothing else of the disk changes but the sector of the inode, and reference counts stay consistent through every
    sequence of requests, forks, exits and interrupts. The log is appended to, and the graph of the tables is logged as a whole with
    the processes restored.
  \<^item> Programs: \<^verbatim>\<open>untar\<close> copies a file of the archive byte by byte, the shell splits a line into its words, and \<^verbatim>\<open>echo\<close> shows its arguments, each
    through the library, the file system task and the driver below it.
  \<^item> Processes: exit and wait meet in either order with one result, fork makes a copy with its own memory and a share of
    the open files, and the memories of processes are disjoint.
  \<^item> The places where the code does not do what it means to are theorems too, for example \<open>send_to_blocked_sender_misqueues\<close>,
    \<open>read_past_end_grows_file\<close>, \<open>short_gap_fails\<close> and \<open>stale_child_blocks_wait\<close>.

  \<^bold>\<open>Bounds and fuel.\<close> \<open>SECT_LIMIT\<close> (4194304 sectors) keeps byte positions on the disk inside an \<^verbatim>\<open>int\<close>, as the code computes them.
  A disk request moves at most 256 sectors, the most the sector count register can hold; transfers of up to 130048 bytes never
  need more. Loops with a counter carry a measure of what is left (sectors, bytes, table entries). The program headers of
  an executable are counted by 16 bits, so \<open>load_segments\<close> recurses at most 65536 times; the argument vector fits into
  256 pointers, which bounds \<open>rebase_args\<close>. No other definition has fuel.

  \<^bold>\<open>Between tasks.\<close> A request of one task to another is modelled as a call of one turn of the other task's loop: the caller
  blocks until it is answered, and \<open>Ipc\<close> shows how the kernel carries the message. Interleavings of requests of several
  processes are sequences of turns.

  \<^bold>\<open>Not modelled.\<close> The boot loaders and the assembly that saves registers around interrupts and traps; port access below the
  registers the drivers read and write; \<^verbatim>\<open>delay\<close>, \<^verbatim>\<open>APP1\<close> to \<^verbatim>\<open>APP3\<close> and \<^verbatim>\<open>glitter\<close>, which have no effect that other code sees; the calls of
  the print functions inside of tasks, which only add text to the first console (the functions themselves are modelled); \<^verbatim>\<open>execl\<close>, which
  relies on the layout of its caller's stack. \<^verbatim>\<open>task_fs.c\<close> does not include \<^verbatim>\<open>config.h\<close>, so its call of \<^verbatim>\<open>dump_fd_graph\<close> is not compiled.

  \<^bold>\<open>Not shown.\<close> Create, open and unlink against a map from names
  to contents, and with it the whole of \<^verbatim>\<open>untar\<close>; arguments of a new program from \<^verbatim>\<open>execv\<close> to its stack.
\<close>

end
